(* ===== verification/Mbtk_Prelude.thy ===== *)
theory Mbtk_Prelude
  imports Main "HOL-Library.Word"
begin

text \<open>
  Shared vocabulary of the development: C machine types, the ways a C program
  can leave its defined behaviour, the error monad that propagates them, and byte
  buffers with checked reads and writes.  A buffer is a list of bytes; every access
  of the source goes through \<open>rd_buf\<close>, \<open>wr_buf\<close>, \<open>rd_bytes\<close> or
  \<open>wr_bytes\<close>, which yield a \<open>fault\<close> where the C program would touch
  memory that it does not own.
\<close>

unbundle bit_operations_syntax

section \<open>Machine types\<close>

type_synonym byte = "8 word"
type_synonym u16 = "16 word"
type_synonym u32 = "32 word"

section \<open>Faults and results\<close>

text \<open>
  A C function that returns an error code returns it as an ordinary value.  A \<open>fault\<close>
  stands for undefined behaviour: an access outside a block, through NULL, through a
  pointer into a block that was reallocated or freed, or a second free.  \<open>Diverges\<close>
  stands for a loop that never ends.
\<close>

datatype fault = OutOfBounds | NullDeref | Dangling | UseAfterFree | DoubleFree | Diverges

type_synonym 'a res = "fault + 'a"

definition rbind :: "'a res \<Rightarrow> ('a \<Rightarrow> 'b res) \<Rightarrow> 'b res" where
  "rbind m f = (case m of Inl e \<Rightarrow> Inl e | Inr x \<Rightarrow> f x)"

definition rmap :: "('a \<Rightarrow> 'b) \<Rightarrow> 'a res \<Rightarrow> 'b res" where
  "rmap f m = (case m of Inl e \<Rightarrow> Inl e | Inr x \<Rightarrow> Inr (f x))"

definition guard_res :: "fault \<Rightarrow> bool \<Rightarrow> unit res" where
  "guard_res e b = (if b then Inr () else Inl e)"

lemma rbind_simps [simp]:
  "rbind (Inr x) f = f x"
  "rbind (Inl e) f = Inl e"
  by (simp_all add: rbind_def)

lemma rmap_simps [simp]:
  "rmap f (Inr x) = Inr (f x)"
  "rmap f (Inl e) = Inl e"
  by (simp_all add: rmap_def)

lemma guard_res_simps [simp]:
  "guard_res e True = Inr ()"
  "guard_res e False = Inl e"
  by (simp_all add: guard_res_def)

lemma rbind_eq_Inr: "rbind m f = Inr y \<longleftrightarrow> (\<exists>x. m = Inr x \<and> f x = Inr y)"
  by (cases m) auto

lemma rmap_eq_Inr [simp]: "rmap f m = Inr y \<longleftrightarrow> (\<exists>x. m = Inr x \<and> y = f x)"
  by (cases m) auto

lemma rmap_rmap [simp]: "rmap f (rmap g m) = rmap (\<lambda>x. f (g x)) m"
  by (cases m) auto

lemma rbind_rmap [simp]: "rbind (rmap f m) g = rbind m (\<lambda>x. g (f x))"
  by (cases m) auto

lemma rbind_assoc: "rbind (rbind m f) g = rbind m (\<lambda>x. rbind (f x) g)"
  by (cases m) auto

lemma rmap_rbind: "rmap f (rbind m g) = rbind m (\<lambda>x. rmap f (g x))"
  by (cases m) auto

lemma rbind_cong [fundef_cong]:
  "m = m' \<Longrightarrow> (\<And>x. m' = Inr x \<Longrightarrow> f x = g x) \<Longrightarrow> rbind m f = rbind m' g"
  by (cases m') auto

text \<open>A result that is not a fault.\<close>

definition is_ok :: "'a res \<Rightarrow> bool" where
  "is_ok m = (case m of Inl _ \<Rightarrow> False | Inr _ \<Rightarrow> True)"

lemma is_ok_simps [simp]: "is_ok (Inr x)" "\<not> is_ok (Inl e)"
  by (simp_all add: is_ok_def)

lemma is_ok_iff: "is_ok m \<longleftrightarrow> (\<exists>x. m = Inr x)"
  by (cases m) auto

lemma is_ok_rbind: "is_ok (rbind m f) \<longleftrightarrow> (\<exists>x. m = Inr x \<and> is_ok (f x))"
  by (cases m) auto

lemma is_ok_rmap [simp]: "is_ok (rmap f m) \<longleftrightarrow> is_ok m"
  by (cases m) auto

section \<open>Loops\<close>

text \<open>A loop that counts, as its body over the values of the counter.\<close>

fun for_each :: "('a \<Rightarrow> 'b \<Rightarrow> 'b res) \<Rightarrow> 'a list \<Rightarrow> 'b \<Rightarrow> 'b res" where
  "for_each f [] m = Inr m"
| "for_each f (x # xs) m = rbind (f x m) (for_each f xs)"

lemma for_each_append [simp]: "for_each f (xs @ ys) m = rbind (for_each f xs m) (for_each f ys)"
proof (induction xs arbitrary: m)
  case (Cons x xs)
  then show ?case by (cases "f x m") simp_all
qed simp

section \<open>Byte buffers\<close>

named_theorems buf "reading and writing a buffer given as a concatenation"

definition rd_buf :: "'a list \<Rightarrow> int \<Rightarrow> 'a res" where
  "rd_buf m i = (if 0 \<le> i \<and> nat i < length m then Inr (m ! nat i) else Inl OutOfBounds)"

definition wr_buf :: "'a list \<Rightarrow> int \<Rightarrow> 'a \<Rightarrow> 'a list res" where
  "wr_buf m i v = (if 0 \<le> i \<and> nat i < length m then Inr (m[nat i := v]) else Inl OutOfBounds)"

text \<open>\<open>memcpy\<close> out of a buffer and into a buffer, byte after byte.\<close>

fun rd_bytes :: "'a list \<Rightarrow> int \<Rightarrow> nat \<Rightarrow> 'a list res" where
  "rd_bytes m i 0 = Inr []"
| "rd_bytes m i (Suc n) = rbind (rd_buf m i) (\<lambda>b. rmap (Cons b) (rd_bytes m (i + 1) n))"

fun wr_bytes :: "'a list \<Rightarrow> int \<Rightarrow> 'a list \<Rightarrow> 'a list res" where
  "wr_bytes m i [] = Inr m"
| "wr_bytes m i (v # vs) = rbind (wr_buf m i v) (\<lambda>m'. wr_bytes m' (i + 1) vs)"

lemma is_ok_rd_buf: "is_ok (rd_buf m i) \<longleftrightarrow> 0 \<le> i \<and> i < int (length m)"
  by (auto simp: rd_buf_def)

lemma is_ok_wr_buf: "is_ok (wr_buf m i v) \<longleftrightarrow> 0 \<le> i \<and> i < int (length m)"
  by (auto simp: wr_buf_def)

lemma rd_buf_ok: "0 \<le> i \<Longrightarrow> i < int (length m) \<Longrightarrow> rd_buf m i = Inr (m ! nat i)"
  by (simp add: rd_buf_def nat_less_iff)

lemma wr_buf_ok: "0 \<le> i \<Longrightarrow> i < int (length m) \<Longrightarrow> wr_buf m i v = Inr (m[nat i := v])"
  by (simp add: wr_buf_def nat_less_iff)

lemma wr_buf_length: "wr_buf m i v = Inr m' \<Longrightarrow> length m' = length m"
  by (auto simp: wr_buf_def split: if_splits)

lemma wr_buf_range: "wr_buf m i v = Inr m' \<Longrightarrow> 0 \<le> i \<and> i < int (length m)"
  by (auto simp: wr_buf_def split: if_splits)

lemma rd_buf_range: "rd_buf m i = Inr v \<Longrightarrow> 0 \<le> i \<and> i < int (length m)"
  by (auto simp: rd_buf_def split: if_splits)

lemma rd_buf_append [buf]:
  "0 \<le> i \<Longrightarrow> rd_buf (xs @ ys) i
     = (if i < int (length xs) then rd_buf xs i else rd_buf ys (i - int (length xs)))"
  by (auto simp: rd_buf_def nth_append nat_less_iff nat_diff_distrib)

lemma rd_buf_Cons [buf]:
  "0 \<le> i \<Longrightarrow> rd_buf (x # xs) i = (if i = 0 then Inr x else rd_buf xs (i - 1))"
  by (auto simp: rd_buf_def nth_Cons' nat_less_iff nat_diff_distrib)

lemma wr_buf_append [buf]:
  "0 \<le> i \<Longrightarrow> wr_buf (xs @ ys) i v
     = (if i < int (length xs) then rmap (\<lambda>z. z @ ys) (wr_buf xs i v)
        else rmap (\<lambda>z. xs @ z) (wr_buf ys (i - int (length xs)) v))"
  by (auto simp: wr_buf_def list_update_append nat_less_iff nat_diff_distrib)

lemma wr_buf_Cons [buf]:
  "0 \<le> i \<Longrightarrow> wr_buf (x # xs) i v
     = (if i = 0 then Inr (v # xs) else rmap (Cons x) (wr_buf xs (i - 1) v))"
proof (cases "i = 0")
  case False
  assume "0 \<le> i"
  with False have "i = int (Suc (nat (i - 1)))" by simp
  then obtain n where "i = int (Suc n)" by blast
  then show ?thesis by (simp add: wr_buf_def nat_add_distrib)
qed (simp add: wr_buf_def)

lemma rd_buf_at: "i = int (length xs) \<Longrightarrow> rd_buf (xs @ y # ys) i = Inr y"
  by (simp add: rd_buf_def)

lemma wr_buf_at: "i = int (length xs) \<Longrightarrow> wr_buf (xs @ y # ys) i v = Inr (xs @ v # ys)"
  by (simp add: wr_buf_def)

lemma rd_bytes_ok:
  "0 \<le> i \<Longrightarrow> i + int n \<le> int (length m) \<Longrightarrow> rd_bytes m i n = Inr (take n (drop (nat i) m))"
proof (induction n arbitrary: i)
  case (Suc n)
  then have "rd_bytes m (i + 1) n = Inr (take n (drop (nat (i + 1)) m))" by simp
  moreover have "take (Suc n) (drop (nat i) m) = m ! nat i # take n (drop (nat (i + 1)) m)"
    using Suc.prems by (simp add: take_Suc nat_add_distrib drop_Suc hd_drop_conv_nth tl_drop)
  ultimately show ?case using Suc.prems by (simp add: rd_buf_ok)
qed simp

lemma rd_bytes_append [buf]:
  "i = int (length xs) \<Longrightarrow> n = length ys \<Longrightarrow> rd_bytes (xs @ ys @ zs) i n = Inr ys"
  by (simp add: rd_bytes_ok)

lemma is_ok_rd_bytes: "0 \<le> i \<Longrightarrow> i + int n \<le> int (length m) \<Longrightarrow> is_ok (rd_bytes m i n)"
  by (simp add: rd_bytes_ok)

lemma rd_bytes_length: "rd_bytes m i n = Inr ys \<Longrightarrow> length ys = n"
  by (induction n arbitrary: i ys) (auto simp: rbind_eq_Inr)

lemma wr_bytes_length: "wr_bytes m i vs = Inr m' \<Longrightarrow> length m' = length m"
  by (induction vs arbitrary: m i) (auto simp: rbind_eq_Inr dest!: wr_buf_length)

lemma wr_bytes_append [buf]:
  "i = int (length xs) \<Longrightarrow> length ys = length vs \<Longrightarrow>
   wr_bytes (xs @ ys @ zs) i vs = Inr (xs @ vs @ zs)"
proof (induction vs arbitrary: xs ys i)
  case (Cons v vs)
  then obtain y ys' where ys: "ys = y # ys'" and len: "length ys' = length vs"
    by (cases ys) auto
  have "wr_buf (xs @ ys @ zs) i v = Inr ((xs @ [v]) @ ys' @ zs)"
    using Cons.prems ys by (simp add: buf)
  moreover have "wr_bytes ((xs @ [v]) @ ys' @ zs) (i + 1) vs = Inr ((xs @ [v]) @ vs @ zs)"
    by (rule Cons.IH) (use Cons.prems len in simp_all)
  ultimately show ?case by simp
qed simp

lemma wr_bytes_ok:
  "0 \<le> i \<Longrightarrow> i + int (length vs) \<le> int (length m) \<Longrightarrow>
   wr_bytes m i vs = Inr (take (nat i) m @ vs @ drop (nat i + length vs) m)"
proof -
  assume a: "0 \<le> i" "i + int (length vs) \<le> int (length m)"
  let ?ys = "take (length vs) (drop (nat i) m)"
  have "m = take (nat i) m @ ?ys @ drop (nat i + length vs) m"
    by (metis append_take_drop_id drop_drop add.commute)
  moreover have "wr_bytes (take (nat i) m @ ?ys @ drop (nat i + length vs) m) i vs
      = Inr (take (nat i) m @ vs @ drop (nat i + length vs) m)"
    by (rule wr_bytes_append) (use a in auto)
  ultimately show ?thesis by simp
qed

lemma wr_bytes_oob:
  "0 \<le> i \<Longrightarrow> int (length m) < i + int (length vs) \<Longrightarrow> i \<le> int (length m) \<Longrightarrow>
   wr_bytes m i vs = Inl OutOfBounds"
proof (induction vs arbitrary: m i)
  case (Cons v vs)
  show ?case
  proof (cases "i < int (length m)")
    case True
    with Cons show ?thesis by (simp add: wr_buf_ok)
  qed (use Cons.prems in \<open>simp add: wr_buf_def\<close>)
qed simp

end
