(* ===== verification/Coap_Types.thy ===== *)
theory Coap_Types
  imports Mbtk_Prelude
begin

text \<open>
  The enumerations of \<open>coap/mbtk_coap_api.h\<close> (the class CoapPDU of
  \<open>coap/mbtk_coap.h\<close> repeats them).  The constructors are the source's
  enumerators; \<open>type_val\<close>, \<open>code_val\<close>, \<open>opt_num\<close> and \<open>format_val\<close>
  give their C values.  The code passes these values around as plain integers, so the
  operations of the model take the integer, written \<open>code_val COAP_GET\<close> and so on.
\<close>

datatype coap_type =
    COAP_CONFIRMABLE
  | COAP_NON_CONFIRMABLE
  | COAP_ACKNOWLEDGEMENT
  | COAP_RESET

primrec type_val :: "coap_type \<Rightarrow> int" where
  "type_val COAP_CONFIRMABLE = 0x00"
| "type_val COAP_NON_CONFIRMABLE = 0x10"
| "type_val COAP_ACKNOWLEDGEMENT = 0x20"
| "type_val COAP_RESET = 0x30"

datatype coap_code =
    COAP_EMPTY
  | COAP_GET
  | COAP_POST
  | COAP_PUT
  | COAP_DELETE
  | COAP_LASTMETHOD
  | COAP_CREATED
  | COAP_DELETED
  | COAP_VALID
  | COAP_CHANGED
  | COAP_CONTENT
  | COAP_CONTINUE
  | COAP_BAD_REQUEST
  | COAP_UNAUTHORIZED
  | COAP_BAD_OPTION
  | COAP_FORBIDDEN
  | COAP_NOT_FOUND
  | COAP_METHOD_NOT_ALLOWED
  | COAP_NOT_ACCEPTABLE
  | COAP_PRECONDITION_FAILED
  | COAP_REQUEST_ENTITY_TOO_LARGE
  | COAP_UNSUPPORTED_CONTENT_FORMAT
  | COAP_INTERNAL_SERVER_ERROR
  | COAP_NOT_IMPLEMENTED
  | COAP_BAD_GATEWAY
  | COAP_SERVICE_UNAVAILABLE
  | COAP_GATEWAY_TIMEOUT
  | COAP_PROXYING_NOT_SUPPORTED
  | COAP_UNDEFINED_CODE

primrec code_val :: "coap_code \<Rightarrow> int" where
  "code_val COAP_EMPTY = 0x00"
| "code_val COAP_GET = 0x01"
| "code_val COAP_POST = 0x02"
| "code_val COAP_PUT = 0x03"
| "code_val COAP_DELETE = 0x04"
| "code_val COAP_LASTMETHOD = 0x1F"
| "code_val COAP_CREATED = 0x41"
| "code_val COAP_DELETED = 0x42"
| "code_val COAP_VALID = 0x43"
| "code_val COAP_CHANGED = 0x44"
| "code_val COAP_CONTENT = 0x45"
| "code_val COAP_CONTINUE = 0x5F"
| "code_val COAP_BAD_REQUEST = 0x80"
| "code_val COAP_UNAUTHORIZED = 0x81"
| "code_val COAP_BAD_OPTION = 0x82"
| "code_val COAP_FORBIDDEN = 0x83"
| "code_val COAP_NOT_FOUND = 0x84"
| "code_val COAP_METHOD_NOT_ALLOWED = 0x85"
| "code_val COAP_NOT_ACCEPTABLE = 0x86"
| "code_val COAP_PRECONDITION_FAILED = 0x8C"
| "code_val COAP_REQUEST_ENTITY_TOO_LARGE = 0x8D"
| "code_val COAP_UNSUPPORTED_CONTENT_FORMAT = 0x8F"
| "code_val COAP_INTERNAL_SERVER_ERROR = 0xA0"
| "code_val COAP_NOT_IMPLEMENTED = 0xA1"
| "code_val COAP_BAD_GATEWAY = 0xA2"
| "code_val COAP_SERVICE_UNAVAILABLE = 0xA3"
| "code_val COAP_GATEWAY_TIMEOUT = 0xA4"
| "code_val COAP_PROXYING_NOT_SUPPORTED = 0xA5"
| "code_val COAP_UNDEFINED_CODE = 0xFF"

datatype coap_option_type =
    COAP_OPTION_IF_MATCH
  | COAP_OPTION_URI_HOST
  | COAP_OPTION_ETAG
  | COAP_OPTION_IF_NONE_MATCH
  | COAP_OPTION_OBSERVE
  | COAP_OPTION_URI_PORT
  | COAP_OPTION_LOCATION_PATH
  | COAP_OPTION_URI_PATH
  | COAP_OPTION_CONTENT_FORMAT
  | COAP_OPTION_MAX_AGE
  | COAP_OPTION_URI_QUERY
  | COAP_OPTION_ACCEPT
  | COAP_OPTION_LOCATION_QUERY
  | COAP_OPTION_BLOCK2
  | COAP_OPTION_BLOCK1
  | COAP_OPTION_SIZE2
  | COAP_OPTION_PROXY_URI
  | COAP_OPTION_PROXY_SCHEME
  | COAP_OPTION_SIZE1

primrec opt_num :: "coap_option_type \<Rightarrow> u16" where
  "opt_num COAP_OPTION_IF_MATCH = 1"
| "opt_num COAP_OPTION_URI_HOST = 3"
| "opt_num COAP_OPTION_ETAG = 4"
| "opt_num COAP_OPTION_IF_NONE_MATCH = 5"
| "opt_num COAP_OPTION_OBSERVE = 6"
| "opt_num COAP_OPTION_URI_PORT = 7"
| "opt_num COAP_OPTION_LOCATION_PATH = 8"
| "opt_num COAP_OPTION_URI_PATH = 11"
| "opt_num COAP_OPTION_CONTENT_FORMAT = 12"
| "opt_num COAP_OPTION_MAX_AGE = 14"
| "opt_num COAP_OPTION_URI_QUERY = 15"
| "opt_num COAP_OPTION_ACCEPT = 17"
| "opt_num COAP_OPTION_LOCATION_QUERY = 20"
| "opt_num COAP_OPTION_BLOCK2 = 23"
| "opt_num COAP_OPTION_BLOCK1 = 27"
| "opt_num COAP_OPTION_SIZE2 = 28"
| "opt_num COAP_OPTION_PROXY_URI = 35"
| "opt_num COAP_OPTION_PROXY_SCHEME = 39"
| "opt_num COAP_OPTION_SIZE1 = 60"

datatype content_format =
    COAP_CONTENT_FORMAT_TEXT_PLAIN
  | COAP_CONTENT_FORMAT_APP_LINK
  | COAP_CONTENT_FORMAT_APP_XML
  | COAP_CONTENT_FORMAT_APP_OCTET
  | COAP_CONTENT_FORMAT_APP_EXI
  | COAP_CONTENT_FORMAT_APP_JSON

primrec format_val :: "content_format \<Rightarrow> int" where
  "format_val COAP_CONTENT_FORMAT_TEXT_PLAIN = 0"
| "format_val COAP_CONTENT_FORMAT_APP_LINK = 40"
| "format_val COAP_CONTENT_FORMAT_APP_XML = 41"
| "format_val COAP_CONTENT_FORMAT_APP_OCTET = 42"
| "format_val COAP_CONTENT_FORMAT_APP_EXI = 47"
| "format_val COAP_CONTENT_FORMAT_APP_JSON = 50"

end
