(* ===== verification/Coap_Pdu.thy ===== *)
theory Coap_Pdu
  imports Coap_Types
begin

text \<open>
  The class CoapPDU of \<open>coap/mbtk_coap.cpp\<close>: the object's fields as the record
  \<open>pdu\<close>, and one definition per method.  \<open>pdu_mem\<close> is the memory block that
  \<open>_pdu\<close> points to and \<open>pdu_blk\<close> names that block: \<open>realloc\<close> yields a
  new block, so a pointer taken before it (such as \<open>_payloadPointer\<close>) is
  recognised as dangling.  Whether an allocation succeeds, and what fresh memory holds,
  is the parameter \<open>heap_env\<close>: every theorem holds for all of its values.
  C ints are \<open>int\<close> (all lengths stay far below the range of a C int), unsigned
  bytes and shorts are words of their width.
\<close>

section \<open>State\<close>

record heap_env =
  ra_ok :: "nat \<Rightarrow> int \<Rightarrow> bool"    \<comment> \<open>does (re)allocating block b to n bytes succeed\<close>
  ra_junk :: "nat \<Rightarrow> nat \<Rightarrow> byte"  \<comment> \<open>the uninitialised byte at an index of a grown block\<close>

record pdu =
  pdu_mem :: "byte list"
  pdu_blk :: nat
  pduLength :: int
  constructedFromBuffer :: bool
  bufferLength :: int
  payloadPointer :: "(nat \<times> int) option"
  payloadLength :: int
  numOptions :: int
  maxAddedOptionNumber :: u16

record coap_option =
  o_delta :: u16
  o_number :: u16
  o_vlen :: u16
  o_total :: int
  o_ptr :: int
  o_val :: int

definition COAP_HDR_SIZE :: int where
  "COAP_HDR_SIZE = 4"

definition COAP_OPTION_HDR_BYTE :: int where
  "COAP_OPTION_HDR_BYTE = 1"

definition getp :: "pdu \<Rightarrow> int \<Rightarrow> byte res" where
  "getp p i = rd_buf (pdu_mem p) i"

definition setp :: "pdu \<Rightarrow> int \<Rightarrow> byte \<Rightarrow> pdu res" where
  "setp p i v = rmap (\<lambda>m. p\<lparr>pdu_mem := m\<rparr>) (wr_buf (pdu_mem p) i v)"

definition setps :: "pdu \<Rightarrow> int \<Rightarrow> byte list \<Rightarrow> pdu res" where
  "setps p i vs = rmap (\<lambda>m. p\<lparr>pdu_mem := m\<rparr>) (wr_bytes (pdu_mem p) i vs)"

text \<open>The first \<open>n\<close> bytes behind a source pointer that may be NULL.\<close>

definition src_bytes :: "byte list option \<Rightarrow> int \<Rightarrow> byte list res" where
  "src_bytes s n =
     (if n = 0 then Inr []
      else case s of
        None \<Rightarrow> Inl NullDeref
      | Some xs \<Rightarrow> if 0 \<le> n \<and> nat n \<le> length xs then Inr (take (nat n) xs) else Inl OutOfBounds)"

text \<open>\<open>realloc\<close> of the PDU block: the old bytes are kept, new ones are arbitrary.\<close>

definition realloc_pdu :: "heap_env \<Rightarrow> pdu \<Rightarrow> int \<Rightarrow> pdu option" where
  "realloc_pdu h p n =
     (if 0 < n \<and> ra_ok h (pdu_blk p) n
      then Some (p\<lparr>pdu_mem := take (nat n) (pdu_mem p)
                     @ map (ra_junk h (pdu_blk p)) [length (pdu_mem p)..<nat n],
                   pdu_blk := Suc (pdu_blk p)\<rparr>)
      else None)"

text \<open>
  The block that addOption, setToken and mallocPayload share: reallocate a block that
  the object owns, or check the size of an external buffer.
\<close>

definition ensure_space :: "heap_env \<Rightarrow> pdu \<Rightarrow> int \<Rightarrow> pdu option" where
  "ensure_space h p n =
     (if \<not> constructedFromBuffer p
      then map_option (\<lambda>q. q\<lparr>bufferLength := n\<rparr>) (realloc_pdu h p n)
      else if n > bufferLength p then None else Some p)"

section \<open>Big-endian access\<close>

definition endian_be16 :: "u16 \<Rightarrow> u16" where
  "endian_be16 x = push_bit 8 (x AND 0x00FF) OR drop_bit 8 (x AND 0xFF00)"

text \<open>\<open>endian_store16\<close> copies the swapped value's own bytes, low byte first: the
  host is little-endian (x86 and ARM Linux, as the build assumes).\<close>

definition endian_store16 :: "u16 \<Rightarrow> byte list" where
  "endian_store16 num = (let val = endian_be16 num in [ucast val, ucast (drop_bit 8 val)])"

definition endian_load16 :: "byte list \<Rightarrow> int \<Rightarrow> u16 res" where
  "endian_load16 m i =
     rbind (rd_buf m i) (\<lambda>b0. rmap (\<lambda>b1. push_bit 8 (ucast b0) OR ucast b1) (rd_buf m (i + 1)))"

section \<open>Header fields\<close>

definition setVersion :: "byte \<Rightarrow> pdu \<Rightarrow> (int \<times> pdu) res" where
  "setVersion version p =
     (if version > 3 then Inr (0, p)
      else rbind (getp p 0) (\<lambda>b.
           rmap (Pair 1) (setp p 0 ((b AND 0x3F) OR push_bit 6 version))))"

definition getVersion :: "pdu \<Rightarrow> byte res" where
  "getVersion p = rmap (\<lambda>b. drop_bit 6 (b AND 0xC0)) (getp p 0)"

definition setType :: "int \<Rightarrow> pdu \<Rightarrow> pdu res" where
  "setType mt p = rbind (getp p 0) (\<lambda>b. setp p 0 ((b AND 0xCF) OR word_of_int mt))"

definition getType :: "pdu \<Rightarrow> int res" where
  "getType p = rmap (\<lambda>b. uint (b AND 0x30)) (getp p 0)"

definition setTokenLength :: "byte \<Rightarrow> pdu \<Rightarrow> (int \<times> pdu) res" where
  "setTokenLength tokenLength p =
     (if tokenLength > 8 then Inr (1, p)
      else rbind (getp p 0) (\<lambda>b. rmap (Pair 0) (setp p 0 ((b AND 0xF0) OR tokenLength))))"

definition getTokenLength :: "pdu \<Rightarrow> int res" where
  "getTokenLength p = rmap (\<lambda>b. uint (b AND 0x0F)) (getp p 0)"

text \<open>The pointers into the PDU are offsets from \<open>_pdu\<close>; None is NULL.\<close>

definition getTokenPointer :: "pdu \<Rightarrow> int option res" where
  "getTokenPointer p = rmap (\<lambda>n. if n = 0 then None else Some 4) (getTokenLength p)"

definition setCode :: "int \<Rightarrow> pdu \<Rightarrow> pdu res" where
  "setCode code p = setp p 1 (word_of_int code)"

definition getCode :: "pdu \<Rightarrow> int res" where
  "getCode p = rmap uint (getp p 1)"

definition setMessageID :: "u16 \<Rightarrow> pdu \<Rightarrow> (int \<times> pdu) res" where
  "setMessageID messageID p = rmap (Pair 0) (setps p 2 (endian_store16 messageID))"

definition getMessageID :: "pdu \<Rightarrow> u16 res" where
  "getMessageID p = endian_load16 (pdu_mem p) 2"

definition getPDULength :: "pdu \<Rightarrow> int" where
  "getPDULength p = pduLength p"

definition setPDULength :: "int \<Rightarrow> pdu \<Rightarrow> pdu" where
  "setPDULength len p = p\<lparr>pduLength := len\<rparr>"

definition getNumOptions :: "pdu \<Rightarrow> int" where
  "getNumOptions p = numOptions p"

definition httpStatusToCode :: "int \<Rightarrow> int" where
  "httpStatusToCode httpStatus = code_val
     (if httpStatus = 1 then COAP_GET
      else if httpStatus = 2 then COAP_POST
      else if httpStatus = 3 then COAP_PUT
      else if httpStatus = 4 then COAP_DELETE
      else if httpStatus = 201 then COAP_CREATED
      else if httpStatus = 202 then COAP_DELETED
      else if httpStatus = 203 then COAP_VALID
      else if httpStatus = 204 then COAP_CHANGED
      else if httpStatus = 205 then COAP_CONTENT
      else if httpStatus = 400 then COAP_BAD_REQUEST
      else if httpStatus = 401 then COAP_UNAUTHORIZED
      else if httpStatus = 402 then COAP_BAD_OPTION
      else if httpStatus = 403 then COAP_FORBIDDEN
      else if httpStatus = 404 then COAP_NOT_FOUND
      else if httpStatus = 405 then COAP_METHOD_NOT_ALLOWED
      else if httpStatus = 406 then COAP_NOT_ACCEPTABLE
      else if httpStatus = 412 then COAP_PRECONDITION_FAILED
      else if httpStatus = 413 then COAP_REQUEST_ENTITY_TOO_LARGE
      else if httpStatus = 415 then COAP_UNSUPPORTED_CONTENT_FORMAT
      else if httpStatus = 500 then COAP_INTERNAL_SERVER_ERROR
      else if httpStatus = 501 then COAP_NOT_IMPLEMENTED
      else if httpStatus = 502 then COAP_BAD_GATEWAY
      else if httpStatus = 503 then COAP_SERVICE_UNAVAILABLE
      else if httpStatus = 504 then COAP_GATEWAY_TIMEOUT
      else if httpStatus = 505 then COAP_PROXYING_NOT_SUPPORTED
      else COAP_UNDEFINED_CODE)"

section \<open>Construction and reset\<close>

text \<open>\<open>CoapPDU()\<close>: a four byte zeroed block; a failed calloc makes setVersion
  write through NULL.\<close>

definition new_CoapPDU :: "heap_env \<Rightarrow> pdu res" where
  "new_CoapPDU h =
     (if ra_ok h 0 4
      then rmap snd (setVersion 1
             \<lparr>pdu_mem = [0, 0, 0, 0], pdu_blk = 1, pduLength = 4, constructedFromBuffer = False,
              bufferLength = 4, payloadPointer = None, payloadLength = 0, numOptions = 0,
              maxAddedOptionNumber = 0\<rparr>)
      else Inl NullDeref)"

text \<open>\<open>CoapPDU(buffer, bufferLength, pduLength)\<close>: the memory is the caller's.\<close>

definition new_CoapPDU_buffer :: "byte list \<Rightarrow> int \<Rightarrow> int \<Rightarrow> pdu res" where
  "new_CoapPDU_buffer buffer bufLen pLen =
     (let p = \<lparr>pdu_mem = buffer, pdu_blk = 0, pduLength = (if pLen = 0 then 4 else pLen),
               constructedFromBuffer = True, bufferLength = bufLen, payloadPointer = None,
               payloadLength = 0, numOptions = 0, maxAddedOptionNumber = 0\<rparr>
      in if pLen = 0
         then rbind (setps p 0 [0, 0, 0, 0]) (\<lambda>q. rmap snd (setVersion 1 q))
         else Inr p)"

definition reset :: "pdu \<Rightarrow> (int \<times> pdu) res" where
  "reset p = rmap (\<lambda>q. (0, q\<lparr>pduLength := 4, numOptions := 0, maxAddedOptionNumber := 0,
                              payloadPointer := None, payloadLength := 0\<rparr>))
                  (setps p 0 (replicate (nat (bufferLength p)) 0))"

section \<open>Moving bytes inside the PDU\<close>

text \<open>\<open>while(shiftAmount--)\<close>: an amount that starts negative runs until the
  access leaves the block.\<close>

function shiftUp_loop :: "byte list \<Rightarrow> int \<Rightarrow> int \<Rightarrow> int \<Rightarrow> byte list res" where
  "shiftUp_loop m destPointer srcPointer shiftAmount =
     (if shiftAmount = 0 then Inr m
      else case rd_buf m srcPointer of
        Inl e \<Rightarrow> Inl e
      | Inr b \<Rightarrow> (case wr_buf m destPointer b of
          Inl e \<Rightarrow> Inl e
        | Inr m' \<Rightarrow> shiftUp_loop m' (destPointer - 1) (srcPointer - 1) (shiftAmount - 1)))"
  by pat_completeness auto
termination
  by (relation "measure (\<lambda>(m, d, s, n). nat (d + 1))") (auto dest!: wr_buf_range)

definition shiftPDUUp :: "int \<Rightarrow> int \<Rightarrow> pdu \<Rightarrow> pdu res" where
  "shiftPDUUp shiftOffset shiftAmount p =
     (let destPointer = pduLength p - 1; srcPointer = destPointer - shiftOffset
      in rmap (\<lambda>m. p\<lparr>pdu_mem := m\<rparr>) (shiftUp_loop (pdu_mem p) destPointer srcPointer shiftAmount))"

function shiftDown_loop :: "byte list \<Rightarrow> int \<Rightarrow> int \<Rightarrow> int \<Rightarrow> byte list res" where
  "shiftDown_loop m startLocation srcPointer shiftAmount =
     (if shiftAmount = 0 then Inr m
      else case rd_buf m srcPointer of
        Inl e \<Rightarrow> Inl e
      | Inr b \<Rightarrow> (case wr_buf m startLocation b of
          Inl e \<Rightarrow> Inl e
        | Inr m' \<Rightarrow> shiftDown_loop m' (startLocation + 1) (srcPointer + 1) (shiftAmount - 1)))"
  by pat_completeness auto
termination
  by (relation "measure (\<lambda>(m, d, s, n). nat (int (length m) - d))")
     (auto dest: wr_buf_range wr_buf_length)

definition shiftPDUDown :: "int \<Rightarrow> int \<Rightarrow> int \<Rightarrow> pdu \<Rightarrow> pdu res" where
  "shiftPDUDown startLocation shiftOffset shiftAmount p =
     rmap (\<lambda>m. p\<lparr>pdu_mem := m\<rparr>)
       (shiftDown_loop (pdu_mem p) startLocation (startLocation + shiftOffset) shiftAmount)"

declare shiftUp_loop.simps [simp del] shiftDown_loop.simps [simp del]

section \<open>Option headers\<close>

definition computeExtraBytes :: "u16 \<Rightarrow> int" where
  "computeExtraBytes n = (if n < 13 then 0 else if n < 269 then 1 else 2)"

lemma computeExtraBytes_ge0 [simp]: "0 \<le> computeExtraBytes n"
  by (simp add: computeExtraBytes_def)

definition getOptionDelta :: "byte list \<Rightarrow> int \<Rightarrow> u16 res" where
  "getOptionDelta m pos =
     rbind (rd_buf m pos) (\<lambda>b0.
     let delta = (ucast (drop_bit 4 (b0 AND 0xF0)) :: u16)
     in if delta < 13 then Inr delta
        else if delta = 13 then rmap (\<lambda>b1. ucast b1 + 13) (rd_buf m (pos + 1))
        else if delta = 14 then rmap (\<lambda>v. v + 269) (endian_load16 m (pos + 1))
        else Inr delta)"

definition getOptionValueLength :: "byte list \<Rightarrow> int \<Rightarrow> u16 res" where
  "getOptionValueLength m pos =
     rbind (rd_buf m pos) (\<lambda>b0.
     let delta = (ucast (drop_bit 4 (b0 AND 0xF0)) :: u16);
         len = (ucast (b0 AND 0x0F) :: u16);
         offset = (if delta = 13 then 2 else if delta = 14 then 3 else 1)
     in if len < 13 then Inr len
        else if len = 13 then rmap (\<lambda>b. ucast b + 13) (rd_buf m (pos + offset))
        else rmap (\<lambda>v. v + 269) (endian_load16 m (pos + offset)))"

definition setOptionDelta :: "int \<Rightarrow> u16 \<Rightarrow> pdu \<Rightarrow> pdu res" where
  "setOptionDelta optionPosition optionDelta p =
     rbind (getp p optionPosition) (\<lambda>b0.
     let cleared = b0 AND 0x0F
     in if optionDelta < 13
        then setp p optionPosition (cleared OR ucast (push_bit 4 optionDelta))
        else if optionDelta < 269
        then rbind (setp p optionPosition (cleared OR 0xD0)) (\<lambda>q.
             setp q (optionPosition + 1) (ucast (optionDelta - 13)))
        else rbind (setp p optionPosition (cleared OR 0xE0)) (\<lambda>q.
             setps q (optionPosition + 1) (endian_store16 (optionDelta - 269))))"

text \<open>
  \<open>insertOption\<close>: three blocks that write the delta, the length and the value.
  The two header blocks both OR into the header byte and return the position of the last
  byte that they wrote.  In the third length branch \<open>optionValueLength\<close> itself
  is reduced by 269, so the final memcpy copies that many bytes fewer.
\<close>

definition insert_delta :: "int \<Rightarrow> u16 \<Rightarrow> pdu \<Rightarrow> (int \<times> pdu) res" where
  "insert_delta headerStart optionDelta p =
     rbind (setp p headerStart 0) (\<lambda>p0.
     if optionDelta < 13
     then rmap (Pair headerStart) (setp p0 headerStart (ucast (push_bit 4 optionDelta)))
     else if optionDelta < 269
     then rbind (setp p0 headerStart 0xD0) (\<lambda>p1.
          rmap (Pair (headerStart + 1)) (setp p1 (headerStart + 1) (ucast (optionDelta - 13))))
     else rbind (setp p0 headerStart 0xE0) (\<lambda>p1.
          rmap (Pair (headerStart + 2))
               (setps p1 (headerStart + 1) (endian_store16 (optionDelta - 269)))))"

definition insert_length :: "int \<Rightarrow> int \<Rightarrow> u16 \<Rightarrow> pdu \<Rightarrow> ((int \<times> u16) \<times> pdu) res" where
  "insert_length headerStart pos optionValueLength p =
     rbind (getp p headerStart) (\<lambda>b0.
     if optionValueLength < 13
     then rmap (Pair (pos, optionValueLength))
               (setp p headerStart (b0 OR ucast (optionValueLength AND 0x000F)))
     else if optionValueLength < 269
     then rbind (setp p headerStart (b0 OR 0x0D)) (\<lambda>p1.
          rmap (Pair (pos + 1, optionValueLength))
               (setp p1 (pos + 1) (ucast (optionValueLength - 13))))
     else rbind (setp p headerStart (b0 OR 0x0E)) (\<lambda>p1.
          rmap (Pair (pos + 2, optionValueLength - 269))
               (setps p1 (pos + 1) (endian_store16 (optionValueLength - 269)))))"

definition insertOption :: "int \<Rightarrow> u16 \<Rightarrow> u16 \<Rightarrow> byte list option \<Rightarrow> pdu \<Rightarrow> (int \<times> pdu) res" where
  "insertOption insertionPosition optionDelta optionValueLength optionValue p =
     rbind (insert_delta insertionPosition optionDelta p) (\<lambda>(pos1, p1).
     rbind (insert_length insertionPosition pos1 optionValueLength p1) (\<lambda>((pos2, n), p2).
     rbind (src_bytes optionValue (uint n)) (\<lambda>v.
     rmap (Pair 0) (setps p2 (pos2 + 1) v))))"

section \<open>Adding an option\<close>

function findInsertion_loop :: "pdu \<Rightarrow> u16 \<Rightarrow> int \<Rightarrow> u16 \<Rightarrow> u16 \<Rightarrow> (int \<times> u16) res" where
  "findInsertion_loop p optionNumber optionPos currentOptionNumber prevOptionNumber =
     (if optionPos < pduLength p
      then rbind (getp p optionPos) (\<lambda>b.
        if b = 0xFF then Inr (optionPos, prevOptionNumber)
        else rbind (getOptionDelta (pdu_mem p) optionPos) (\<lambda>optionDelta.
          let cur = currentOptionNumber + optionDelta in
          rbind (getOptionValueLength (pdu_mem p) optionPos) (\<lambda>optionValueLength.
            if cur > optionNumber then Inr (optionPos, prevOptionNumber)
            else findInsertion_loop p optionNumber
                   (optionPos + computeExtraBytes optionDelta
                      + computeExtraBytes optionValueLength + uint optionValueLength + 1)
                   cur cur)))
      else Inr (optionPos, prevOptionNumber))"
  by pat_completeness auto
termination
proof (relation "measure (\<lambda>(p, n, pos, c, q). nat (pduLength p - pos))", goal_cases)
  case (2 p n pos c q b delta cur len)
  have "pos < pos + computeExtraBytes delta + computeExtraBytes len + uint len + 1"
    using computeExtraBytes_ge0 [of delta] computeExtraBytes_ge0 [of len] uint_ge_0 [of len]
    by linarith
  with 2 show ?case by (simp only: in_measure case_prod_conv nat_mono_iff)
qed simp

declare findInsertion_loop.simps [simp del]

definition findInsertionPosition :: "u16 \<Rightarrow> pdu \<Rightarrow> (int \<times> u16) res" where
  "findInsertionPosition optionNumber p =
     rbind (getTokenLength p) (\<lambda>tkl.
     if optionNumber \<ge> maxAddedOptionNumber p \<or> pduLength p = COAP_HDR_SIZE + tkl
     then Inr (pduLength p, maxAddedOptionNumber p)
     else findInsertion_loop p optionNumber (COAP_HDR_SIZE + tkl) 0 0)"

definition addOption :: "heap_env \<Rightarrow> u16 \<Rightarrow> u16 \<Rightarrow> byte list option \<Rightarrow> pdu \<Rightarrow> (int \<times> pdu) res" where
  "addOption h insertedOptionNumber optionValueLength optionValue p =
     rbind (findInsertionPosition insertedOptionNumber p) (\<lambda>(insertionPosition, prevOptionNumber).
     let optionDelta = insertedOptionNumber - prevOptionNumber;
         extraDeltaBytes = computeExtraBytes optionDelta;
         extraLengthBytes = computeExtraBytes optionValueLength;
         optionLength = (word_of_int (COAP_OPTION_HDR_BYTE + extraDeltaBytes + extraLengthBytes
                           + uint optionValueLength) :: u16)
     in if insertionPosition = pduLength p
        then let oldPDULength = pduLength p;
                 newLength = pduLength p + uint optionLength;
                 p0 = p\<lparr>maxAddedOptionNumber := insertedOptionNumber, pduLength := newLength\<rparr>
             in (case ensure_space h p0 newLength of
                   None \<Rightarrow> Inr (1, p0\<lparr>pduLength := oldPDULength\<rparr>)
                 | Some p1 \<Rightarrow>
                     rmap (\<lambda>(_, p2). (0, p2\<lparr>numOptions := numOptions p2 + 1\<rparr>))
                       (insertOption insertionPosition optionDelta optionValueLength optionValue p1))
        else rbind (getOptionDelta (pdu_mem p) insertionPosition) (\<lambda>d.
             let nextOptionDelta = uint d;
                 nextOptionNumber = uint prevOptionNumber + nextOptionDelta;
                 nextOptionDeltaBytes = computeExtraBytes (word_of_int nextOptionDelta);
                 newNextOptionDelta = nextOptionNumber - uint insertedOptionNumber;
                 newNextOptionDeltaBytes = computeExtraBytes (word_of_int newNextOptionDelta);
                 optionDeltaAdjustment = newNextOptionDeltaBytes - nextOptionDeltaBytes;
                 mallocLength = uint optionLength + optionDeltaAdjustment;
                 oldPDULength = pduLength p;
                 newLength = pduLength p + mallocLength;
                 p0 = p\<lparr>pduLength := newLength\<rparr>
             in (case ensure_space h p0 newLength of
                   None \<Rightarrow> Inr (1, p0\<lparr>pduLength := oldPDULength\<rparr>)
                 | Some p1 \<Rightarrow>
                     rbind (shiftPDUUp mallocLength (newLength - (insertionPosition + mallocLength)) p1) (\<lambda>p2.
                     let nextHeaderPos = insertionPosition + mallocLength in
                     rbind (getp p2 nextHeaderPos) (\<lambda>hb.
                     rbind (setp p2 (nextHeaderPos - optionDeltaAdjustment) hb) (\<lambda>p3.
                     rbind (setOptionDelta (nextHeaderPos - optionDeltaAdjustment)
                              (word_of_int newNextOptionDelta) p3) (\<lambda>p4.
                     rmap (\<lambda>(_, p5). (0, p5\<lparr>numOptions := numOptions p5 + 1\<rparr>))
                       (insertOption insertionPosition optionDelta optionValueLength optionValue p4))))))))"

section \<open>Token\<close>

text \<open>\<open>oldPDULength\<close> is declared \<open>uint8_t\<close>: it keeps the low byte of the length only.\<close>

definition setToken :: "heap_env \<Rightarrow> byte list option \<Rightarrow> byte \<Rightarrow> pdu \<Rightarrow> (int \<times> pdu) res" where
  "setToken h token tokenLength p =
     (if token = None then Inr (1, p)
      else if tokenLength = 0 then Inr (1, p)
      else rbind (getTokenLength p) (\<lambda>tkl.
        let oldTokenLength = (word_of_int tkl :: byte)
        in if tokenLength = oldTokenLength
           then rbind (src_bytes token (uint tokenLength)) (\<lambda>t. rmap (Pair 0) (setps p 4 t))
           else
             let oldPDULength = uint (word_of_int (pduLength p) :: byte);
                 newLength = pduLength p - uint oldTokenLength + uint tokenLength;
                 p0 = p\<lparr>pduLength := newLength\<rparr>
             in if newLength > oldPDULength
                then (case ensure_space h p0 newLength of
                    None \<Rightarrow> Inr (1, p0\<lparr>pduLength := oldPDULength\<rparr>)
                  | Some p1 \<Rightarrow>
                      let shiftOffset = newLength - oldPDULength;
                          shiftAmount = newLength - uint tokenLength - COAP_HDR_SIZE in
                      rbind (shiftPDUUp shiftOffset shiftAmount p1) (\<lambda>p2.
                      rbind (src_bytes token (uint tokenLength)) (\<lambda>t.
                      rbind (setps p2 4 t) (\<lambda>p3.
                      rmap (\<lambda>(_, p4). (0, p4)) (setTokenLength tokenLength p3)))))
                else
                  rbind (src_bytes token (uint tokenLength)) (\<lambda>t.
                  rbind (setps p0 4 t) (\<lambda>p1.
                  let startLocation = COAP_HDR_SIZE + uint tokenLength;
                      shiftOffset = oldPDULength - newLength;
                      shiftAmount = oldPDULength - uint oldTokenLength - COAP_HDR_SIZE in
                  rbind (shiftPDUDown startLocation shiftOffset shiftAmount p1) (\<lambda>p2.
                  if \<not> constructedFromBuffer p2
                  then (case realloc_pdu h p2 newLength of
                      None \<Rightarrow> Inr (1, p2)
                    | Some p3 \<Rightarrow>
                        rmap (\<lambda>(_, p4). (0, p4))
                          (setTokenLength tokenLength (p3\<lparr>bufferLength := newLength\<rparr>)))
                  else rmap (\<lambda>(_, p3). (0, p3)) (setTokenLength tokenLength p2))))))"

section \<open>Payload\<close>

text \<open>The returned pointer is NULL or a block with an offset into it.\<close>

definition mallocPayload :: "heap_env \<Rightarrow> int \<Rightarrow> pdu \<Rightarrow> ((nat \<times> int) option \<times> pdu) res" where
  "mallocPayload h len p =
     (if len = 0 then Inr (None, p)
      else if len = payloadLength p then Inr (payloadPointer p, p)
      else
        let markerSpace = (if payloadLength p \<noteq> 0 then 0 else 1);
            payloadSpace = (if payloadLength p \<noteq> 0 then len - payloadLength p else len);
            newLen = pduLength p + payloadSpace + markerSpace
        in case ensure_space h p newLen of
             None \<Rightarrow> Inr (None, p)
           | Some p1 \<Rightarrow>
               (if payloadPointer p1 = None
                then rmap (\<lambda>p2.
                       let ptr = Some (pdu_blk p2, pduLength p2 + 1)
                       in (ptr, p2\<lparr>payloadPointer := ptr, pduLength := newLen, payloadLength := len\<rparr>))
                     (setp p1 (pduLength p1) 0xFF)
                else Inr (payloadPointer p1, p1\<lparr>pduLength := newLen, payloadLength := len\<rparr>)))"

text \<open>Writing through a pointer that was taken before a realloc is a fault.\<close>

definition write_through :: "nat \<times> int \<Rightarrow> byte list \<Rightarrow> pdu \<Rightarrow> pdu res" where
  "write_through ptr vs p =
     (if fst ptr = pdu_blk p then setps p (snd ptr) vs else Inl Dangling)"

definition setPayload :: "heap_env \<Rightarrow> byte list option \<Rightarrow> int \<Rightarrow> pdu \<Rightarrow> (int \<times> pdu) res" where
  "setPayload h payload len p =
     (if payload = None then Inr (1, p)
      else rbind (mallocPayload h len p) (\<lambda>(ptr, p1).
        case ptr of
          None \<Rightarrow> Inr (1, p1)
        | Some q \<Rightarrow> rbind (src_bytes payload len) (\<lambda>v. rmap (Pair 0) (write_through q v p1))))"

definition getPayloadPointer :: "pdu \<Rightarrow> (nat \<times> int) option" where
  "getPayloadPointer p = payloadPointer p"

definition getPayloadLength :: "pdu \<Rightarrow> int" where
  "getPayloadLength p = payloadLength p"

definition read_through :: "(nat \<times> int) option \<Rightarrow> int \<Rightarrow> pdu \<Rightarrow> byte list res" where
  "read_through ptr n p =
     (case ptr of
        None \<Rightarrow> (if n = 0 then Inr [] else Inl NullDeref)
      | Some (b, off) \<Rightarrow>
          if b \<noteq> pdu_blk p then Inl Dangling
          else if n < 0 then Inl OutOfBounds
          else rd_bytes (pdu_mem p) off (nat n))"

text \<open>The copy, or None for NULL; \<open>ok\<close>: did malloc succeed.\<close>

definition getPayloadCopy :: "bool \<Rightarrow> pdu \<Rightarrow> byte list option res" where
  "getPayloadCopy ok p =
     (if payloadLength p = 0 then Inr None
      else if \<not> ok then Inr None
      else rmap Some (read_through (payloadPointer p) (payloadLength p) p))"

section \<open>Validation\<close>

definition code_is_valid :: "int \<Rightarrow> bool" where
  "code_is_valid code = (\<not> (code < code_val COAP_EMPTY \<or>
     (code > code_val COAP_LASTMETHOD \<and> code < code_val COAP_CREATED) \<or>
     (code > code_val COAP_CONTENT \<and> code < code_val COAP_CONTINUE) \<or>
     (code > code_val COAP_CONTINUE \<and> code < code_val COAP_BAD_REQUEST) \<or>
     (code > code_val COAP_NOT_ACCEPTABLE \<and> code < code_val COAP_PRECONDITION_FAILED) \<or>
     code = 0x8E \<or>
     (code > code_val COAP_UNSUPPORTED_CONTENT_FORMAT \<and> code < code_val COAP_INTERNAL_SERVER_ERROR) \<or>
     code > code_val COAP_PROXYING_NOT_SUPPORTED))"

function validate_loop :: "pdu \<Rightarrow> int \<Rightarrow> int \<Rightarrow> u16 \<Rightarrow> int \<Rightarrow> (int \<times> pdu) res" where
  "validate_loop p optionPos bytesRemaining optionNumber nOptions =
     (if bytesRemaining > 0
      then rbind (getp p optionPos) (\<lambda>optionHeader.
        if optionHeader = 0xFF
        then if bytesRemaining > 1
             then Inr (1, p\<lparr>payloadPointer := Some (pdu_blk p, optionPos + 1),
                             payloadLength := bytesRemaining - 1, numOptions := nOptions\<rparr>)
             else Inr (0, p\<lparr>payloadPointer := None, payloadLength := 0\<rparr>)
        else
          let upperNibble = drop_bit 4 (optionHeader AND 0xF0);
              lowerNibble = optionHeader AND 0x0F
          in if upperNibble = 0x0F \<or> lowerNibble = 0x0F then Inr (0, p)
             else
               let remaining = bytesRemaining - 1;
                   need1 = computeExtraBytes (ucast upperNibble);
                   need2 = need1 + computeExtraBytes (ucast lowerNibble)
               in if need1 > remaining then Inr (0, p)
                  else if need2 > remaining then Inr (0, p)
                  else rbind (getOptionDelta (pdu_mem p) optionPos) (\<lambda>optionDelta.
                    let number = optionNumber + optionDelta in
                    rbind (getOptionValueLength (pdu_mem p) optionPos) (\<lambda>optionValueLength.
                    let totalLength = 1 + computeExtraBytes optionDelta
                          + computeExtraBytes optionValueLength + uint optionValueLength
                    in if optionPos + totalLength > pduLength p then Inr (0, p)
                       else validate_loop p (optionPos + totalLength)
                              (remaining - totalLength + 1) number (nOptions + 1))))
      else Inr (1, p\<lparr>payloadPointer := None, payloadLength := 0, numOptions := nOptions\<rparr>))"
  by pat_completeness auto
termination
proof (relation "measure (\<lambda>(p, pos, rem, num, n). nat rem)", goal_cases)
  case (2 p pos rem num n hdr un ln remaining need1 need2 delta number len total)
  then show ?case
    by simp (use computeExtraBytes_ge0 [of delta] computeExtraBytes_ge0 [of len]
        uint_ge_0 [of len] in linarith)
qed simp

declare validate_loop.simps [simp del]

definition validate :: "pdu \<Rightarrow> (int \<times> pdu) res" where
  "validate p =
     (if pduLength p < 4 then Inr (0, p)
      else rbind (getVersion p) (\<lambda>version.
        if version \<noteq> 1 then Inr (0, p)
        else rbind (getTokenLength p) (\<lambda>tokenLength.
          if tokenLength < 0 \<or> tokenLength > 8 then Inr (0, p)
          else if COAP_HDR_SIZE + tokenLength > pduLength p then Inr (0, p)
          else rbind (getCode p) (\<lambda>code.
            if \<not> code_is_valid code then Inr (0, p)
            else
              let optionPos = COAP_HDR_SIZE + tokenLength
              in if optionPos = pduLength p
                 then Inr (1, p\<lparr>numOptions := 0, payloadLength := 0\<rparr>)
                 else validate_loop p optionPos (pduLength p - optionPos) 0 0))))"

section \<open>Reading the options\<close>

fun getOptions_loop :: "pdu \<Rightarrow> int \<Rightarrow> u16 \<Rightarrow> nat \<Rightarrow> coap_option list res" where
  "getOptions_loop p optionPos optionNumber 0 = Inr []"
| "getOptions_loop p optionPos optionNumber (Suc n) =
     rbind (getOptionDelta (pdu_mem p) optionPos) (\<lambda>optionDelta.
     let number = optionNumber + optionDelta in
     rbind (getOptionValueLength (pdu_mem p) optionPos) (\<lambda>optionValueLength.
     let totalLength = 1 + computeExtraBytes optionDelta
           + computeExtraBytes optionValueLength + uint optionValueLength;
         opt = \<lparr>o_delta = optionDelta, o_number = number, o_vlen = optionValueLength,
                o_total = totalLength, o_ptr = optionPos,
                o_val = optionPos + totalLength - uint optionValueLength\<rparr>
     in rmap (Cons opt) (getOptions_loop p (optionPos + totalLength) number n)))"

text \<open>None is the NULL that the source returns; \<open>ok\<close>: did malloc succeed.\<close>

definition getOptions :: "bool \<Rightarrow> pdu \<Rightarrow> coap_option list option res" where
  "getOptions ok p =
     (if numOptions p = 0 then Inr None
      else if \<not> ok then Inr None
      else rbind (getTokenLength p) (\<lambda>tkl.
           rmap Some (getOptions_loop p (COAP_HDR_SIZE + tkl) 0 (nat (numOptions p)))))"

text \<open>
  \<open>getOptionValueById\<close>: the caller's length variable and buffer are passed in and
  out.  Every option with the number is copied over the last one.
\<close>

fun copy_matching :: "pdu \<Rightarrow> u16 \<Rightarrow> coap_option list \<Rightarrow> u16 \<Rightarrow> byte list \<Rightarrow> (u16 \<times> byte list) res" where
  "copy_matching p optionNumber [] len dst = Inr (len, dst)"
| "copy_matching p optionNumber (opt # opts) len dst =
     (if o_number opt = optionNumber
      then rbind (rd_bytes (pdu_mem p) (o_val opt) (unat (o_vlen opt))) (\<lambda>v.
           rbind (wr_bytes dst 0 v) (\<lambda>dst'.
           copy_matching p optionNumber opts (o_vlen opt) dst'))
      else copy_matching p optionNumber opts len dst)"

definition getOptionValueById ::
    "bool \<Rightarrow> u16 \<Rightarrow> u16 \<Rightarrow> byte list \<Rightarrow> pdu \<Rightarrow> (u16 \<times> byte list) res" where
  "getOptionValueById ok optionNumber len dst p =
     (if numOptions p = 0 then Inr (len, dst)
      else rbind (getOptions ok p) (\<lambda>options.
        case options of
          None \<Rightarrow> Inl NullDeref
        | Some opts \<Rightarrow> copy_matching p optionNumber opts len dst))"

definition hasOption :: "bool \<Rightarrow> u16 \<Rightarrow> pdu \<Rightarrow> int res" where
  "hasOption ok optionNumber p =
     (if numOptions p = 0 then Inr 0
      else rbind (getOptions ok p) (\<lambda>options.
        case options of
          None \<Rightarrow> Inl NullDeref
        | Some opts \<Rightarrow> Inr (if \<exists>opt \<in> set opts. o_number opt = optionNumber then 1 else 0)))"

end
