(* ===== verification/Coap_Wire.thy ===== *)
theory Coap_Wire
  imports Coap_Pdu
begin

text \<open>
  The abstract specification of a CoAP message and its wire format, independent of how
  CoapPDU computes it, and the lemmas that read and write one piece of the format inside
  a larger buffer.  Option numbers are \<open>nat\<close>; \<open>enc_opts\<close> is the delta encoding.
\<close>

section \<open>Messages and their encoding\<close>

record coap_msg =
  cm_version :: byte
  cm_type :: byte
  cm_code :: byte
  cm_mid :: u16
  cm_token :: "byte list"
  cm_opts :: "(nat \<times> byte list) list"
  cm_payload :: "byte list"

definition be16 :: "u16 \<Rightarrow> byte list" where
  "be16 w = [ucast (drop_bit 8 w), ucast w]"

definition nib :: "nat \<Rightarrow> nat" where
  "nib n = (if n < 13 then n else if n < 269 then 13 else 14)"

definition ext :: "nat \<Rightarrow> byte list" where
  "ext n = (if n < 13 then [] else if n < 269 then [of_nat (n - 13)] else be16 (of_nat (n - 269)))"

definition hdr :: "nat \<Rightarrow> nat \<Rightarrow> byte" where
  "hdr d l = of_nat (nib d * 16 + nib l)"

definition enc_opt :: "nat \<Rightarrow> byte list \<Rightarrow> byte list" where
  "enc_opt d v = hdr d (length v) # ext d @ ext (length v) @ v"

fun enc_opts :: "nat \<Rightarrow> (nat \<times> byte list) list \<Rightarrow> byte list" where
  "enc_opts prev [] = []"
| "enc_opts prev ((k, v) # os) = enc_opt (k - prev) v @ enc_opts k os"

definition last_num :: "nat \<Rightarrow> (nat \<times> byte list) list \<Rightarrow> nat" where
  "last_num prev os = (if os = [] then prev else fst (last os))"

definition enc_head :: "coap_msg \<Rightarrow> byte list" where
  "enc_head m = [push_bit 6 (cm_version m) OR cm_type m OR of_nat (length (cm_token m)), cm_code m]
                @ be16 (cm_mid m)"

definition enc_payload :: "byte list \<Rightarrow> byte list" where
  "enc_payload pl = (if pl = [] then [] else 0xFF # pl)"

definition encode :: "coap_msg \<Rightarrow> byte list" where
  "encode m = enc_head m @ cm_token m @ enc_opts 0 (cm_opts m) @ enc_payload (cm_payload m)"

text \<open>Option lists that can be encoded: numbers ascend from \<open>prev\<close> and fit 16 bits,
  value lengths fit 16 bits.\<close>

fun wf_opts :: "nat \<Rightarrow> (nat \<times> byte list) list \<Rightarrow> bool" where
  "wf_opts prev [] = True"
| "wf_opts prev ((k, v) # os) = (prev \<le> k \<and> k < 65536 \<and> length v < 65536 \<and> wf_opts k os)"

definition wf_msg :: "coap_msg \<Rightarrow> bool" where
  "wf_msg m \<longleftrightarrow> cm_version m < 4 \<and> cm_type m \<in> {0x00, 0x10, 0x20, 0x30}
     \<and> length (cm_token m) \<le> 8 \<and> wf_opts 0 (cm_opts m)"

text \<open>The abstract insertion: behind every option whose number is not larger.\<close>

fun ins_opt :: "nat \<Rightarrow> byte list \<Rightarrow> (nat \<times> byte list) list \<Rightarrow> (nat \<times> byte list) list" where
  "ins_opt n v [] = [(n, v)]"
| "ins_opt n v ((k, w) # os) = (if k > n then (n, v) # (k, w) # os else (k, w) # ins_opt n v os)"

section \<open>Words\<close>

lemma endian_be16_masks: "endian_be16 x = push_bit 8 (x AND mask 8) OR drop_bit 8 (x AND push_bit 8 (mask 8))"
  by (simp add: endian_be16_def mask_eq_exp_minus_1 push_bit_eq_mult)

lemma endian_store16_be16: "endian_store16 w = be16 w"
proof -
  have "ucast (endian_be16 w) = (ucast (drop_bit 8 w) :: byte)"
    by (rule bit_word_eqI) (auto simp: endian_be16_masks bit_simps)
  moreover have "ucast (drop_bit 8 (endian_be16 w)) = (ucast w :: byte)"
    by (rule bit_word_eqI) (auto simp: endian_be16_masks bit_simps)
  ultimately show ?thesis by (simp add: endian_store16_def be16_def Let_def)
qed

lemma load_be16: "push_bit 8 (ucast (ucast (drop_bit 8 w) :: byte)) OR ucast (ucast w :: byte) = (w :: u16)"
  by (rule bit_word_eqI) (auto simp: bit_simps)

lemma length_be16 [simp]: "length (be16 w) = 2"
  by (simp add: be16_def)

lemma endian_load16_be16 [buf]:
  "i = int (length xs) \<Longrightarrow> endian_load16 (xs @ be16 w @ ys) i = Inr w"
  by (simp add: endian_load16_def be16_def buf load_be16)

lemma nib_less: "nib n \<le> 14"
  by (simp add: nib_def)

lemma nibble_table:
  "\<forall>a \<in> set [0..<16]. \<forall>b \<in> set [0..<16].
     drop_bit 4 ((of_nat (a * 16 + b) :: byte) AND 0xF0) = of_nat a \<and>
     (of_nat (a * 16 + b) :: byte) AND 0x0F = of_nat b"
  by code_simp

lemma nibbles:
  assumes "a < 16" "b < 16"
  shows "drop_bit 4 ((of_nat (a * 16 + b) :: byte) AND 0xF0) = of_nat a"
    and "(of_nat (a * 16 + b) :: byte) AND 0x0F = of_nat b"
  using nibble_table assms by auto

lemma hdr_upper: "drop_bit 4 (hdr d l AND 0xF0) = of_nat (nib d)"
  unfolding hdr_def by (rule nibbles) (use nib_less [of d] nib_less [of l] in simp_all)

lemma hdr_lower: "hdr d l AND 0x0F = of_nat (nib l)"
  unfolding hdr_def by (rule nibbles) (use nib_less [of d] nib_less [of l] in simp_all)

lemmas hdr_nibbles [simp] = hdr_upper hdr_lower hdr_upper [simplified] hdr_lower [simplified]

lemma hdr_not_marker: "hdr d l \<noteq> 0xFF"
proof
  assume "hdr d l = 0xFF"
  then have "of_nat (nib d) = (0x0F :: byte)" using hdr_upper [of d l] by simp
  then have "unat (of_nat (nib d) :: byte) = 15" by simp
  then show False using nib_less [of d] by (simp add: unat_of_nat)
qed

lemma nib_word_not_15: "(of_nat (nib n) :: byte) \<noteq> 0x0F"
proof
  assume "(of_nat (nib n) :: byte) = 0x0F"
  then have "unat (of_nat (nib n) :: byte) = 15" by simp
  then show False using nib_less [of n] by (simp add: unat_of_nat)
qed

lemma of_nat_u16_less [simp]:
  "n < 65536 \<Longrightarrow> (of_nat n :: u16) < 13 \<longleftrightarrow> n < 13"
  "n < 65536 \<Longrightarrow> (of_nat n :: u16) < 269 \<longleftrightarrow> n < 269"
  by (simp_all add: word_less_nat_alt unat_of_nat)

lemma of_nat_u16_eq:
  "a < 65536 \<Longrightarrow> b < 65536 \<Longrightarrow> (of_nat a :: u16) = of_nat b \<longleftrightarrow> a = b"
  by (simp add: word_unat_eq_iff unat_of_nat)

lemma of_nat_u16_le:
  "a < 65536 \<Longrightarrow> b < 65536 \<Longrightarrow> (of_nat a :: u16) \<le> of_nat b \<longleftrightarrow> a \<le> b"
  "a < 65536 \<Longrightarrow> b < 65536 \<Longrightarrow> (of_nat a :: u16) < of_nat b \<longleftrightarrow> a < b"
  by (simp_all add: word_le_nat_alt word_less_nat_alt unat_of_nat)

lemma length_ext: "length (ext n) = (if n < 13 then 0 else if n < 269 then 1 else 2)"
  by (simp add: ext_def)

lemma computeExtraBytes_of_nat:
  "n < 65536 \<Longrightarrow> computeExtraBytes (of_nat n) = int (length (ext n))"
  by (simp add: computeExtraBytes_def length_ext)

lemma length_enc_opt:
  "length (enc_opt d v) = 1 + length (ext d) + length (ext (length v)) + length v"
  by (simp add: enc_opt_def)

section \<open>Reading one option out of a buffer\<close>

lemma ucast_u16_of_nat: "n < 256 \<Longrightarrow> ucast (of_nat n :: byte) = (of_nat n :: u16)"
  by (simp add: unsigned_of_nat take_bit_nat_eq_self)

lemma u16_nib: "ucast (of_nat (nib n) :: byte) = (of_nat (nib n) :: u16)"
  by (rule ucast_u16_of_nat) (use nib_less [of n] in simp)

lemma u16_of_nat_diff: "k \<le> n \<Longrightarrow> (of_nat (n - k) :: u16) + of_nat k = of_nat n"
  by (simp flip: of_nat_add)

lemma ucast_ext1: "13 \<le> n \<Longrightarrow> n < 269 \<Longrightarrow> ucast (of_nat (n - 13) :: byte) + 13 = (of_nat n :: u16)"
proof -
  assume a: "13 \<le> n" "n < 269"
  then have "ucast (of_nat (n - 13) :: byte) = (of_nat (n - 13) :: u16)"
    by (intro ucast_u16_of_nat) simp
  with a u16_of_nat_diff [of 13 n] show ?thesis by simp
qed

lemma ucast_ext1':
  "13 \<le> n \<Longrightarrow> n < 269 \<Longrightarrow> ucast (of_nat n - 13 :: byte) + 13 = (of_nat n :: u16)"
  using ucast_ext1 [of n] by (simp add: of_nat_diff)

lemma getOptionDelta_enc:
  assumes "pos = int (length pre)" "d < 65536"
  shows "getOptionDelta (pre @ (hdr d l # ext d @ suf)) pos = Inr (of_nat d)"
proof -
  have h: "rd_buf (pre @ (hdr d l # ext d @ suf)) pos = Inr (hdr d l)"
    using assms by (simp add: buf)
  consider "d < 13" | "13 \<le> d" "d < 269" | "269 \<le> d" by linarith
  then show ?thesis
  proof cases
    case 1
    then show ?thesis using h by (simp add: getOptionDelta_def hdr_upper nib_def ucast_u16_of_nat Let_def)
  next
    case 2
    then show ?thesis using h assms
      by (simp add: getOptionDelta_def hdr_upper nib_def ext_def buf ucast_ext1')
  next
    case 3
    have "endian_load16 ((pre @ [hdr d l]) @ be16 (of_nat (d - 269)) @ suf) (pos + 1)
        = Inr (of_nat (d - 269))"
      by (rule endian_load16_be16) (use assms in simp)
    with 3 h show ?thesis using u16_of_nat_diff [of 269 d]
      by (simp add: getOptionDelta_def hdr_upper nib_def ext_def)
  qed
qed

lemma getOptionValueLength_enc:
  assumes "pos = int (length pre)" "l < 65536"
  shows "getOptionValueLength (pre @ (hdr d l # ext d @ ext l @ suf)) pos = Inr (of_nat l)"
proof -
  define offset where "offset = int (1 + length (ext d))"
  have h: "rd_buf (pre @ (hdr d l # ext d @ ext l @ suf)) pos = Inr (hdr d l)"
    using assms by (simp add: buf)
  have off: "(if (of_nat (nib d) :: u16) = 13 then 2 else if (of_nat (nib d) :: u16) = 14 then 3 else 1)
      = offset"
    using of_nat_u16_eq [of "nib d" 13] of_nat_u16_eq [of "nib d" 14]
    by (auto simp: nib_def offset_def length_ext)
  have eq: "getOptionValueLength (pre @ (hdr d l # ext d @ ext l @ suf)) pos =
      (if (of_nat (nib l) :: u16) < 13 then Inr (of_nat (nib l))
       else if (of_nat (nib l) :: u16) = 13
       then rmap (\<lambda>b. ucast b + 13) (rd_buf (pre @ (hdr d l # ext d @ ext l @ suf)) (pos + offset))
       else rmap (\<lambda>v. v + 269)
              (endian_load16 (pre @ (hdr d l # ext d @ ext l @ suf)) (pos + offset)))"
    unfolding getOptionValueLength_def h rbind_simps Let_def hdr_upper hdr_lower u16_nib off ..
  consider "l < 13" | "13 \<le> l" "l < 269" | "269 \<le> l" by linarith
  then show ?thesis
  proof cases
    case 1
    then show ?thesis by (simp add: eq nib_def)
  next
    case 2
    have "rd_buf (pre @ (hdr d l # ext d @ ext l @ suf)) (pos + offset) = Inr (of_nat (l - 13))"
      using 2 assms by (simp add: buf ext_def [of l] offset_def)
    with 2 show ?thesis by (simp add: eq nib_def ucast_ext1')
  next
    case 3
    then have "ext l = be16 (of_nat (l - 269))" by (simp add: ext_def)
    moreover have "endian_load16 ((pre @ hdr d l # ext d) @ be16 (of_nat (l - 269)) @ suf)
        (pos + offset) = Inr (of_nat (l - 269))"
      by (rule endian_load16_be16) (use assms in \<open>simp add: offset_def\<close>)
    ultimately have "endian_load16 (pre @ (hdr d l # ext d @ ext l @ suf)) (pos + offset)
        = Inr (of_nat (l - 269))" by simp
    with 3 show ?thesis using u16_of_nat_diff [of 269 l] by (simp add: eq nib_def)
  qed
qed

section \<open>Writing one option into a gap\<close>

lemma nibble_or_table:
  "\<forall>a \<in> set [0..<16]. \<forall>b \<in> set [0..<16].
     (of_nat (a * 16) :: byte) OR of_nat b = of_nat (a * 16 + b)"
  by code_simp

lemma nibble_or: "a < 16 \<Longrightarrow> b < 16 \<Longrightarrow> (of_nat (a * 16) :: byte) OR of_nat b = of_nat (a * 16 + b)"
  using nibble_or_table by auto

lemma nibble_table_u16:
  "\<forall>a \<in> set [0..<16]. ucast (push_bit 4 (of_nat a :: u16)) = (of_nat (a * 16) :: byte) \<and>
     ucast ((of_nat a :: u16) AND 0x000F) = (of_nat a :: byte)"
  by code_simp

lemma nibble_u16:
  "a < 16 \<Longrightarrow> ucast (push_bit 4 (of_nat a :: u16)) = (of_nat (a * 16) :: byte)"
  "a < 16 \<Longrightarrow> ucast ((of_nat a :: u16) AND 0x000F) = (of_nat a :: byte)"
  using nibble_table_u16 by auto

lemma ucast_byte_of_nat_diff:
  "13 \<le> n \<Longrightarrow> ucast ((of_nat n :: u16) - 13) = (of_nat n - 13 :: byte)"
proof -
  assume "13 \<le> n"
  then have "(of_nat n :: u16) - 13 = of_nat (n - 13)" "(of_nat n - 13 :: byte) = of_nat (n - 13)"
    by (simp_all add: of_nat_diff)
  moreover have "ucast (of_nat (n - 13) :: u16) = (of_nat (n - 13) :: byte)"
    by (rule bit_word_eqI) (simp add: bit_simps unsigned_of_nat bit_of_nat_iff_bit)
  ultimately show ?thesis by simp
qed

lemma setp_eq [buf]:
  "setp p i v = rmap (\<lambda>m. p\<lparr>pdu_mem := m\<rparr>) (wr_buf (pdu_mem p) i v)"
  by (simp add: setp_def)

text \<open>The delta nibble is written into a header byte whose low nibble is \<open>low\<close>.\<close>

definition delta_nibble :: "nat \<Rightarrow> byte" where
  "delta_nibble d = of_nat (nib d * 16)"

lemma delta_nibble_cases:
  "d < 13 \<Longrightarrow> ucast (push_bit 4 (of_nat d :: u16)) = delta_nibble d"
  "13 \<le> d \<Longrightarrow> d < 269 \<Longrightarrow> delta_nibble d = 0xD0"
  "269 \<le> d \<Longrightarrow> delta_nibble d = 0xE0"
  by (simp_all add: delta_nibble_def nib_def nibble_u16)

lemma delta_nibble_or: "b < 16 \<Longrightarrow> delta_nibble d OR of_nat b = of_nat (nib d * 16 + b)"
  unfolding delta_nibble_def by (rule nibble_or) (use nib_less [of d] in simp_all)

lemma setp_at [buf]:
  "pdu_mem p = xs @ y # ys \<Longrightarrow> i = int (length xs) \<Longrightarrow>
   setp p i v = Inr (p\<lparr>pdu_mem := xs @ v # ys\<rparr>)"
  by (simp add: setp_def buf)

lemma getp_at [buf]:
  "pdu_mem p = xs @ y # ys \<Longrightarrow> i = int (length xs) \<Longrightarrow> getp p i = Inr y"
  by (simp add: getp_def buf)

lemma setps_at [buf]:
  "pdu_mem p = xs @ ys @ zs \<Longrightarrow> i = int (length xs) \<Longrightarrow> length ys = length vs \<Longrightarrow>
   setps p i vs = Inr (p\<lparr>pdu_mem := xs @ vs @ zs\<rparr>)"
  by (simp add: setps_def buf)

lemma insert_delta_gap:
  assumes mem: "pdu_mem p = A @ h # X @ Z" and len: "length X = length (ext d)"
    and i: "i = int (length A)" and d: "d < 65536"
  shows "insert_delta i (of_nat d) p
    = Inr (i + int (length (ext d)), p\<lparr>pdu_mem := A @ delta_nibble d # ext d @ Z\<rparr>)"
proof -
  note clr = setp_at [OF mem i] setp_at [OF mem refl]
  consider "d < 13" | "13 \<le> d" "d < 269" | "269 \<le> d" by linarith
  then show ?thesis
  proof cases
    case 1
    with len have "X = []" by (simp add: ext_def)
    with 1 d i show ?thesis
      by (simp add: insert_delta_def clr setp_at [of _ A] ext_def delta_nibble_cases)
  next
    case 2
    with len obtain x where "X = [x]" by (auto simp: ext_def length_Suc_conv)
    with 2 d i show ?thesis
      by (simp add: insert_delta_def clr setp_at [of _ A] setp_at [of _ "A @ [_]"] ext_def
          delta_nibble_cases ucast_byte_of_nat_diff)
  next
    case 3
    with len have "length X = length (be16 w)" for w by (simp add: ext_def)
    with 3 d i show ?thesis
      by (simp add: insert_delta_def clr setp_at [of _ A] setps_at [of _ "A @ [_]"] ext_def
          delta_nibble_cases endian_store16_be16 of_nat_diff)
  qed
qed

lemma insert_length_gap:
  assumes mem: "pdu_mem p = A @ delta_nibble d # X @ Y @ Z" and len: "length Y = length (ext l)"
    and i: "i = int (length A)" and pos: "pos = i + int (length X)" and l: "l < 65536"
  shows "insert_length i pos (of_nat l) p
    = Inr ((pos + int (length (ext l)), of_nat (if l < 269 then l else l - 269)),
           p\<lparr>pdu_mem := A @ hdr d l # X @ ext l @ Z\<rparr>)"
proof -
  note rd = getp_at [OF mem i] getp_at [OF mem refl]
    and wr = setp_at [OF mem i] setp_at [OF mem refl]
  consider "l < 13" | "13 \<le> l" "l < 269" | "269 \<le> l" by linarith
  then show ?thesis
  proof cases
    case 1
    with len have "Y = []" by (simp add: ext_def)
    moreover have "delta_nibble d OR of_nat l = hdr d l"
      using 1 by (subst delta_nibble_or) (simp_all add: hdr_def nib_def [of l])
    ultimately show ?thesis using 1 l i pos
      by (simp add: insert_length_def rd wr ext_def nibble_u16)
  next
    case 2
    have "delta_nibble d OR of_nat 13 = hdr d l"
      using 2 by (subst delta_nibble_or) (simp_all add: hdr_def nib_def [of l])
    with 2 len l i pos show ?thesis
      by (auto simp: insert_length_def rd wr setp_at [of _ "A @ hdr d l # X"] ext_def
          length_Suc_conv ucast_byte_of_nat_diff)
  next
    case 3
    have "delta_nibble d OR of_nat 14 = hdr d l"
      using 3 by (subst delta_nibble_or) (simp_all add: hdr_def nib_def [of l])
    with 3 len l i pos show ?thesis
      by (simp add: insert_length_def rd wr setps_at [of _ "A @ hdr d l # X"] ext_def
          endian_store16_be16 of_nat_diff)
  qed
qed

end
