(* ===== verification/Coap_Pdu_Proofs.thy ===== *)
theory Coap_Pdu_Proofs
  imports Coap_Wire
begin

text \<open>
  CoapPDU refines the abstract messages of \<open>Coap_Wire\<close>: \<open>pdu_rep p m\<close> says that the
  object \<open>p\<close> holds the encoding of \<open>m\<close>, and each operation that edits the PDU in
  place is shown to compute the encoding of the edited message.
\<close>

section \<open>Option lists\<close>

lemma last_num_simps [simp]:
  "last_num c [] = c"
  "last_num c (x # xs) = last_num (fst x) xs"
  by (auto simp: last_num_def)

lemma last_num_append [simp]: "last_num c (xs @ ys) = last_num (last_num c xs) ys"
  by (induction xs arbitrary: c) auto

lemma enc_opts_append: "enc_opts c (xs @ ys) = enc_opts c xs @ enc_opts (last_num c xs) ys"
  by (induction xs arbitrary: c) auto

lemma wf_opts_append [simp]:
  "wf_opts c (xs @ ys) \<longleftrightarrow> wf_opts c xs \<and> wf_opts (last_num c xs) ys"
  by (induction c xs rule: wf_opts.induct) simp_all

lemma wf_opts_last: "wf_opts c xs \<Longrightarrow> c \<le> last_num c xs \<and> (c < 65536 \<longrightarrow> last_num c xs < 65536)"
  by (induction c xs rule: wf_opts.induct) auto

definition opts_upto :: "nat \<Rightarrow> (nat \<times> byte list) list \<Rightarrow> (nat \<times> byte list) list" where
  "opts_upto n os = takeWhile (\<lambda>x. fst x \<le> n) os"

definition opts_after :: "nat \<Rightarrow> (nat \<times> byte list) list \<Rightarrow> (nat \<times> byte list) list" where
  "opts_after n os = dropWhile (\<lambda>x. fst x \<le> n) os"

lemma opts_split: "opts_upto n os @ opts_after n os = os"
  by (simp add: opts_upto_def opts_after_def)

lemma ins_opt_split: "ins_opt n v os = opts_upto n os @ (n, v) # opts_after n os"
  by (induction os) (auto simp: opts_upto_def opts_after_def)

lemma opts_upto_simps [simp]:
  "opts_upto n [] = []"
  "opts_upto n (x # xs) = (if fst x \<le> n then x # opts_upto n xs else [])"
  by (auto simp: opts_upto_def)

lemma opts_upto_last: "c \<le> n \<Longrightarrow> last_num c (opts_upto n os) \<le> n"
  by (induction os arbitrary: c) auto

lemma opts_after_hd: "opts_after n os = (k, w) # rest \<Longrightarrow> n < k"
  using hd_dropWhile [of "\<lambda>x. fst x \<le> n" os] by (auto simp: opts_after_def)

lemma opts_upto_all: "wf_opts c os \<Longrightarrow> last_num c os \<le> n \<Longrightarrow> opts_upto n os = os"
proof (induction c os rule: wf_opts.induct)
  case (2 prev k v os)
  then have "k \<le> last_num k os" using wf_opts_last [of k os] by simp
  with 2 show ?case by auto
qed simp

lemma wf_opts_ins: "wf_opts 0 os \<Longrightarrow> n < 65536 \<Longrightarrow> length v < 65536 \<Longrightarrow> wf_opts 0 (ins_opt n v os)"
proof -
  assume a: "wf_opts 0 os" "n < 65536" "length v < 65536"
  have "wf_opts 0 (opts_upto n os) \<and> wf_opts (last_num 0 (opts_upto n os)) (opts_after n os)"
    using a(1) opts_split [of n os] wf_opts_append by metis
  moreover have "wf_opts n (opts_after n os)"
    if "wf_opts c (opts_after n os)" for c
    using that by (cases "opts_after n os") (auto dest: opts_after_hd)
  ultimately show ?thesis using a opts_upto_last [of 0 n os] by (auto simp: ins_opt_split)
qed

lemma length_ins_opt [simp]: "length (ins_opt n v os) = Suc (length os)"
  by (induction n v os rule: ins_opt.induct) auto

lemma enc_opts_Nil_iff [simp]: "enc_opts c os = [] \<longleftrightarrow> os = []"
  by (cases os) (auto simp: enc_opt_def)

lemma length_ext_mono: "a \<le> b \<Longrightarrow> length (ext a) \<le> length (ext b)"
  by (simp add: length_ext)

section \<open>Shifting\<close>

lemma shiftUp_step:
  "n \<noteq> 0 \<Longrightarrow> rd_buf m src = Inr b \<Longrightarrow> wr_buf m dest b = Inr m' \<Longrightarrow>
   shiftUp_loop m dest src n = shiftUp_loop m' (dest - 1) (src - 1) (n - 1)"
  by (subst shiftUp_loop.simps) simp

lemma shiftUp_gap:
  "\<exists>H. length H = length G \<and>
     shiftUp_loop (P @ L @ G @ S) (int (length P + length L + length G) - 1)
       (int (length P + length L) - 1) (int (length L)) = Inr (P @ H @ L @ S)"
proof (induction L arbitrary: G S rule: rev_induct)
  case Nil
  show ?case by (auto simp: shiftUp_loop.simps)
next
  case (snoc x L)
  obtain y ys where G: "x # G = ys @ [y]" and len: "length ys = length G"
    by (metis append_butlast_last_id length_butlast diff_Suc_1 length_Cons list.discI)
  have rd: "rd_buf (P @ (L @ [x]) @ G @ S) (int (length P + length (L @ [x])) - 1) = Inr x"
    by (simp add: rd_buf_def nat_int_add nth_append)
  have "P @ (L @ [x]) @ G @ S = (P @ L) @ (x # G) @ S" by simp
  then have eq: "P @ (L @ [x]) @ G @ S = (P @ L @ ys) @ y # S" unfolding G by simp
  have wr: "wr_buf (P @ (L @ [x]) @ G @ S) (int (length P + length (L @ [x]) + length G) - 1) x
      = Inr (P @ L @ ys @ x # S)"
    unfolding eq by (subst wr_buf_at) (use len in simp_all)
  obtain H where H: "length H = length ys"
    "shiftUp_loop (P @ L @ ys @ x # S) (int (length P + length L + length ys) - 1)
       (int (length P + length L) - 1) (int (length L)) = Inr (P @ H @ L @ x # S)"
    using snoc.IH by blast
  show ?case
    by (rule exI [of _ H], subst shiftUp_step [OF _ rd wr])
       (use H len in \<open>simp_all add: algebra_simps\<close>)
qed

section \<open>Inserting into a gap\<close>

lemma u16_small: "n < 269 \<Longrightarrow> (if n < 269 then n else n - 269) = n"
  by simp

lemma insertOption_gap:
  assumes mem: "pdu_mem p = A @ H @ Z" and len: "length H = length (enc_opt d v)"
    and i: "i = int (length A)" and d: "d < 65536" and l: "length v < 269"
    and v: "src_bytes ov (int (length v)) = Inr v"
  shows "insertOption i (of_nat d) (of_nat (length v)) ov p
    = Inr (0, p\<lparr>pdu_mem := A @ enc_opt d v @ Z\<rparr>)"
proof -
  obtain h X Y W where H: "H = h # X @ Y @ W" "length X = length (ext d)"
    "length Y = length (ext (length v))" "length W = length v"
  proof -
    obtain h H' where h: "H = h # H'" using len by (cases H) (auto simp: enc_opt_def)
    with len have l': "length H' = length (ext d) + length (ext (length v)) + length v"
      by (simp add: length_enc_opt)
    show thesis
      by (rule that [of h "take (length (ext d)) H'"
            "take (length (ext (length v))) (drop (length (ext d)) H')"
            "drop (length (ext (length v))) (drop (length (ext d)) H')"])
         (use h l' in \<open>simp_all only: append_take_drop_id, simp_all\<close>)
  qed
  have "uint (of_nat (length v) :: u16) = int (length v)"
    using l by (simp add: unsigned_of_nat take_bit_nat_eq_self)
  moreover have "insert_delta i (of_nat d) p
      = Inr (i + int (length (ext d)), p\<lparr>pdu_mem := A @ delta_nibble d # ext d @ Y @ W @ Z\<rparr>)"
    by (rule insert_delta_gap [where h = h and X = X]) (use mem H i d in simp_all)
  moreover have "insert_length i (i + int (length (ext d))) (of_nat (length v))
        (p\<lparr>pdu_mem := A @ delta_nibble d # ext d @ Y @ W @ Z\<rparr>)
      = Inr ((i + int (length (ext d)) + int (length (ext (length v))), of_nat (length v)),
             p\<lparr>pdu_mem := A @ hdr d (length v) # ext d @ ext (length v) @ W @ Z\<rparr>)"
    using insert_length_gap [of "p\<lparr>pdu_mem := A @ delta_nibble d # ext d @ Y @ W @ Z\<rparr>" A d
        "ext d" Y "W @ Z" "length v" i] l i H
    by simp
  moreover have "setps (p\<lparr>pdu_mem := A @ hdr d (length v) # ext d @ ext (length v) @ W @ Z\<rparr>)
        (i + int (length (ext d)) + int (length (ext (length v))) + 1) v
      = Inr (p\<lparr>pdu_mem := A @ hdr d (length v) # ext d @ ext (length v) @ v @ Z\<rparr>)"
    by (subst setps_at [of _ "A @ hdr d (length v) # ext d @ ext (length v)" W Z])
       (use i H in simp_all)
  ultimately show ?thesis using v by (simp add: insertOption_def enc_opt_def)
qed

lemma setOptionDelta_gap:
  assumes mem: "pdu_mem p = A @ hdr d0 l # X @ Z" and len: "length X = length (ext d)"
    and i: "i = int (length A)" and d: "d < 65536"
  shows "setOptionDelta i (of_nat d) p = Inr (p\<lparr>pdu_mem := A @ hdr d l # ext d @ Z\<rparr>)"
proof -
  note rd = getp_at [OF mem i] getp_at [OF mem refl]
    and wr = setp_at [OF mem i] setp_at [OF mem refl]
  have h: "of_nat (nib l) OR delta_nibble d = hdr d l"
    using nib_less [of l] by (subst or.commute, subst delta_nibble_or) (simp_all add: hdr_def)
  consider "d < 13" | "13 \<le> d" "d < 269" | "269 \<le> d" by linarith
  then show ?thesis
  proof cases
    case 1
    with len have "X = []" by (simp add: ext_def)
    with 1 d i h show ?thesis
      by (simp add: setOptionDelta_def rd wr ext_def delta_nibble_cases)
  next
    case 2
    with len obtain x where "X = [x]" by (auto simp: ext_def length_Suc_conv)
    with 2 d i h show ?thesis
      by (simp add: setOptionDelta_def rd wr setp_at [of _ "A @ [_]"] ext_def
          delta_nibble_cases ucast_byte_of_nat_diff)
  next
    case 3
    with len have "length X = 2" by (simp add: ext_def)
    with 3 d i h show ?thesis
      by (simp add: setOptionDelta_def rd wr setps_at [of _ "A @ [_]"] ext_def
          delta_nibble_cases endian_store16_be16 of_nat_diff)
  qed
qed

section \<open>The representation relation\<close>

definition pdu_rep :: "pdu \<Rightarrow> coap_msg \<Rightarrow> bool" where
  "pdu_rep p m \<longleftrightarrow> wf_msg m
     \<and> (\<exists>slack. pdu_mem p = encode m @ slack)
     \<and> bufferLength p = int (length (pdu_mem p))
     \<and> pduLength p = int (length (encode m))
     \<and> numOptions p = int (length (cm_opts m))
     \<and> maxAddedOptionNumber p = of_nat (last_num 0 (cm_opts m))
     \<and> payloadLength p = int (length (cm_payload m))
     \<and> payloadPointer p = (if cm_payload m = [] then None
          else Some (pdu_blk p, int (length (encode m)) - int (length (cm_payload m))))"

definition head0 :: "byte \<Rightarrow> byte \<Rightarrow> nat \<Rightarrow> byte" where
  "head0 ver ty n = push_bit 6 ver OR ty OR of_nat n"

lemma head0_table:
  "\<forall>ver \<in> set [0, 1, 2, 3]. \<forall>ty \<in> set [0x00, 0x10, 0x20, 0x30]. \<forall>n \<in> set [0..<9].
     drop_bit 6 (head0 ver ty n AND 0xC0) = ver \<and> head0 ver ty n AND 0x30 = ty \<and>
     head0 ver ty n AND 0x0F = of_nat n"
  by code_simp

lemma byte_less4: "(ver :: byte) < 4 \<Longrightarrow> ver \<in> set [0, 1, 2, 3]"
proof -
  assume "ver < 4"
  then have "unat ver < 4" by (simp add: word_less_nat_alt)
  then have "unat ver = 0 \<or> unat ver = 1 \<or> unat ver = 2 \<or> unat ver = 3" by linarith
  then show ?thesis by (auto simp: word_unat_eq_iff)
qed

lemma head0_fields:
  assumes "wf_msg m"
  shows "drop_bit 6 (head0 (cm_version m) (cm_type m) (length (cm_token m)) AND 0xC0) = cm_version m"
    and "head0 (cm_version m) (cm_type m) (length (cm_token m)) AND 0x30 = cm_type m"
    and "head0 (cm_version m) (cm_type m) (length (cm_token m)) AND 0x0F = of_nat (length (cm_token m))"
proof -
  have "cm_version m \<in> set [0, 1, 2, 3]" "cm_type m \<in> set [0x00, 0x10, 0x20, 0x30]"
    "length (cm_token m) \<in> set [0..<9]"
    using assms byte_less4 [of "cm_version m"] by (auto simp: wf_msg_def)
  with head0_table
  show "drop_bit 6 (head0 (cm_version m) (cm_type m) (length (cm_token m)) AND 0xC0) = cm_version m"
    and "head0 (cm_version m) (cm_type m) (length (cm_token m)) AND 0x30 = cm_type m"
    and "head0 (cm_version m) (cm_type m) (length (cm_token m)) AND 0x0F = of_nat (length (cm_token m))"
    by blast+
qed

lemma enc_head_eq:
  "enc_head m = head0 (cm_version m) (cm_type m) (length (cm_token m)) # cm_code m # be16 (cm_mid m)"
  by (simp add: enc_head_def head0_def)

lemma length_enc_head [simp]: "length (enc_head m) = 4"
  by (simp add: enc_head_def)

lemma encode_head:
  "encode m = head0 (cm_version m) (cm_type m) (length (cm_token m)) # cm_code m # be16 (cm_mid m)
     @ cm_token m @ enc_opts 0 (cm_opts m) @ enc_payload (cm_payload m)"
  by (simp add: encode_def enc_head_eq)

lemma token_length_uint: "wf_msg m \<Longrightarrow> uint (of_nat (length (cm_token m)) :: byte) = int (length (cm_token m))"
  by (simp add: wf_msg_def unsigned_of_nat take_bit_nat_eq_self)

lemma rep_getTokenLength:
  "pdu_mem p = encode m @ slack \<Longrightarrow> wf_msg m \<Longrightarrow> getTokenLength p = Inr (int (length (cm_token m)))"
  by (simp add: getTokenLength_def getp_def encode_head rd_buf_Cons head0_fields token_length_uint)

section \<open>Where an option is inserted\<close>

lemma findInsertion_step:
  "pos < pduLength p \<Longrightarrow> getp p pos = Inr b \<Longrightarrow> b \<noteq> 0xFF \<Longrightarrow>
   getOptionDelta (pdu_mem p) pos = Inr d \<Longrightarrow> getOptionValueLength (pdu_mem p) pos = Inr l \<Longrightarrow>
   findInsertion_loop p n pos c q =
     (if c + d > n then Inr (pos, q)
      else findInsertion_loop p n (pos + computeExtraBytes d + computeExtraBytes l + uint l + 1)
             (c + d) (c + d))"
  by (subst findInsertion_loop.simps) (simp add: Let_def)

lemma findInsertion_loop_correct:
  assumes "pdu_mem p = A @ enc_opts c os @ slack" "pos = int (length A)"
    "pduLength p = int (length A + length (enc_opts c os))"
    "wf_opts c os" "n < 65536" "c < 65536"
  shows "findInsertion_loop p (of_nat n) pos (of_nat c) (of_nat c)
    = Inr (pos + int (length (enc_opts c (opts_upto n os))), of_nat (last_num c (opts_upto n os)))"
  using assms
proof (induction c os arbitrary: A pos rule: wf_opts.induct)
  case (1 c)
  then show ?case by (subst findInsertion_loop.simps) simp
next
  case (2 c k v os)
  let ?rest = "enc_opts k os @ slack"
  have mem: "pdu_mem p = A @ (hdr (k - c) (length v) # ext (k - c) @ ext (length v) @ v @ ?rest)"
    using "2.prems"(1) by (simp add: enc_opt_def)
  have lt: "pos < pduLength p" using "2.prems"(2,3) by (simp add: length_enc_opt)
  have wf: "c \<le> k" "k < 65536" "length v < 65536" "wf_opts k os" using "2.prems"(4) by simp_all
  have b: "getp p pos = Inr (hdr (k - c) (length v))" by (rule getp_at [OF mem "2.prems"(2)])
  have d: "getOptionDelta (pdu_mem p) pos = Inr (of_nat (k - c))"
    unfolding mem by (rule getOptionDelta_enc) (use "2.prems"(2) wf in simp_all)
  have l: "getOptionValueLength (pdu_mem p) pos = Inr (of_nat (length v))"
    unfolding mem by (rule getOptionValueLength_enc) (use "2.prems"(2) wf in simp_all)
  have cur: "of_nat c + of_nat (k - c) = (of_nat k :: u16)"
    using u16_of_nat_diff [of c k] wf(1) by (simp add: add.commute)
  have next_pos: "pos + computeExtraBytes (of_nat (k - c)) + computeExtraBytes (of_nat (length v))
      + uint (of_nat (length v) :: u16) + 1 = int (length (A @ enc_opt (k - c) v))"
    using wf "2.prems"(2)
    by (simp add: computeExtraBytes_of_nat length_enc_opt unsigned_of_nat take_bit_nat_eq_self
        del: of_nat_diff)
  note step = findInsertion_step [OF lt b hdr_not_marker d l, of "of_nat n" "of_nat c" "of_nat c",
      unfolded cur next_pos]
  show ?case
  proof (cases "n < k")
    case True
    then show ?thesis using step wf "2.prems"(5) by (simp add: of_nat_u16_le)
  next
    case False
    have "findInsertion_loop p (of_nat n) (int (length (A @ enc_opt (k - c) v))) (of_nat k) (of_nat k)
        = Inr (int (length (A @ enc_opt (k - c) v)) + int (length (enc_opts k (opts_upto n os))),
               of_nat (last_num k (opts_upto n os)))"
      by (rule "2.IH" [where A = "A @ enc_opt (k - c) v"]) (use "2.prems" wf in simp_all)
    with False show ?thesis using step wf "2.prems"(2,5) by (simp add: of_nat_u16_le)
  qed
qed

lemma findInsertionPosition_correct:
  assumes rep: "pdu_rep p m" and pl: "cm_payload m = []" and n: "n < 65536"
  shows "findInsertionPosition (of_nat n) p =
    Inr (4 + int (length (cm_token m)) + int (length (enc_opts 0 (opts_upto n (cm_opts m)))),
         of_nat (last_num 0 (opts_upto n (cm_opts m))))"
proof -
  obtain slack where mem: "pdu_mem p = encode m @ slack" and wf: "wf_msg m"
    and len: "pduLength p = int (length (encode m))"
    and mx: "maxAddedOptionNumber p = of_nat (last_num 0 (cm_opts m))"
    using rep by (auto simp: pdu_rep_def)
  let ?A = "enc_head m @ cm_token m"
  have wo: "wf_opts 0 (cm_opts m)" using wf by (simp add: wf_msg_def)
  have last: "last_num 0 (cm_opts m) < 65536" using wf_opts_last [OF wo] by simp
  have mem': "pdu_mem p = ?A @ enc_opts 0 (cm_opts m) @ slack"
    using mem pl by (simp add: encode_def enc_payload_def)
  have len': "pduLength p = int (length ?A + length (enc_opts 0 (cm_opts m)))"
    using len pl by (simp add: encode_def enc_payload_def)
  have loop: "findInsertion_loop p (of_nat n) (int (length ?A)) (of_nat 0) (of_nat 0)
    = Inr (int (length ?A) + int (length (enc_opts 0 (opts_upto n (cm_opts m)))),
           of_nat (last_num 0 (opts_upto n (cm_opts m))))"
    by (rule findInsertion_loop_correct [OF mem' refl len' wo n]) simp
  have upto: "opts_upto n (cm_opts m) = cm_opts m" if "last_num 0 (cm_opts m) \<le> n"
    by (rule opts_upto_all [OF wo that])
  show ?thesis
    using loop len' mx upto of_nat_u16_le(1) [OF last n]
    by (auto simp: findInsertionPosition_def rep_getTokenLength [OF mem wf] COAP_HDR_SIZE_def)
qed

section \<open>addOption\<close>

definition has_space :: "heap_env \<Rightarrow> pdu \<Rightarrow> int \<Rightarrow> bool" where
  "has_space h p n \<longleftrightarrow>
     (if constructedFromBuffer p then n \<le> bufferLength p else 0 < n \<and> ra_ok h (pdu_blk p) n)"

lemma ensure_space_None: "ensure_space h p n = None \<longleftrightarrow> \<not> has_space h p n"
  by (auto simp: ensure_space_def realloc_pdu_def has_space_def)

lemma has_space_update [simp]:
  "has_space h (p\<lparr>pduLength := a\<rparr>) n = has_space h p n"
  "has_space h (p\<lparr>pduLength := a, maxAddedOptionNumber := b\<rparr>) n = has_space h p n"
  by (simp_all add: has_space_def)

lemma ensure_space_Some:
  assumes "has_space h p n" "pdu_mem p = X @ slack" "bufferLength p = int (length (pdu_mem p))"
    "int (length X) \<le> n"
  obtains S b where "ensure_space h p n
      = Some (p\<lparr>pdu_mem := X @ S, pdu_blk := b, bufferLength := int (length (X @ S))\<rparr>)"
    "n \<le> int (length (X @ S))"
proof (cases "constructedFromBuffer p")
  case True
  then show thesis using that [of slack "pdu_blk p"] assms
    by (cases p) (simp add: ensure_space_def has_space_def)
next
  case False
  define S where "S = take (nat n - length X) slack
      @ map (ra_junk h (pdu_blk p)) [length (pdu_mem p)..<nat n]"
  have "length (X @ S) = nat n"
    using assms by (auto simp: S_def min_def)
  moreover have "take (nat n) (pdu_mem p) @ map (ra_junk h (pdu_blk p)) [length (pdu_mem p)..<nat n]
      = X @ S"
    using assms by (simp add: S_def)
  moreover have "ra_ok h (pdu_blk p) n" "0 < n"
    using assms(1) False by (simp_all add: has_space_def)
  ultimately show thesis
    using that [of S "Suc (pdu_blk p)"] False
    by (simp add: ensure_space_def realloc_pdu_def)
qed

lemma optionLength_eq:
  "d < 65536 \<Longrightarrow> length v < 269 \<Longrightarrow>
   uint (word_of_int (COAP_OPTION_HDR_BYTE + computeExtraBytes (of_nat d)
       + computeExtraBytes (of_nat (length v)) + uint (of_nat (length v) :: u16)) :: u16)
   = int (length (enc_opt d v))"
proof -
  assume a: "d < 65536" "length v < 269"
  have "COAP_OPTION_HDR_BYTE + computeExtraBytes (of_nat d) + computeExtraBytes (of_nat (length v))
      + uint (of_nat (length v) :: u16) = int (length (enc_opt d v))"
    using a by (simp add: COAP_OPTION_HDR_BYTE_def computeExtraBytes_of_nat length_enc_opt
        unsigned_of_nat take_bit_nat_eq_self)
  moreover have "length (enc_opt d v) < 65536" using a by (simp add: length_enc_opt length_ext)
  ultimately show ?thesis by (simp add: unsigned_of_nat take_bit_nat_eq_self)
qed

definition optlen :: "u16 \<Rightarrow> u16 \<Rightarrow> int" where
  "optlen d l = uint (word_of_int (COAP_OPTION_HDR_BYTE + computeExtraBytes d
       + computeExtraBytes l + uint l) :: u16)"

lemma optlen_enc:
  "d < 65536 \<Longrightarrow> length v < 269 \<Longrightarrow> optlen (of_nat d) (of_nat (length v)) = int (length (enc_opt d v))"
  unfolding optlen_def by (rule optionLength_eq)

lemma addOption_end_eq:
  assumes "findInsertionPosition n p = Inr (pduLength p, prev)"
    "pduLength p + optlen (n - prev) l = newLength"
    "p0 = p\<lparr>maxAddedOptionNumber := n, pduLength := newLength\<rparr>"
  shows "addOption h n l ov p =
    (case ensure_space h p0 newLength of
       None \<Rightarrow> Inr (1, p0\<lparr>pduLength := pduLength p\<rparr>)
     | Some p1 \<Rightarrow>
         rmap (\<lambda>(_, p2). (0, p2\<lparr>numOptions := numOptions p2 + 1\<rparr>))
           (insertOption (pduLength p) (n - prev) l ov p1))"
  unfolding assms(3) assms(2) [symmetric]
  by (simp only: addOption_def assms(1) optlen_def Let_def rbind_simps prod.case if_True refl)

lemma addOption_end:
  assumes find: "findInsertionPosition (of_nat n) p = Inr (pduLength p, of_nat c)"
    and mem: "pdu_mem p = X @ slack" and len: "pduLength p = int (length X)"
    and buf: "bufferLength p = int (length (pdu_mem p))"
    and c: "c \<le> n" "n < 65536" and l: "length v < 269"
    and v: "src_bytes ov (int (length v)) = Inr v"
    and space: "has_space h p (int (length (X @ enc_opt (n - c) v)))"
  shows "\<exists>p' S. addOption h (of_nat n) (of_nat (length v)) ov p = Inr (0, p')
    \<and> pdu_mem p' = X @ enc_opt (n - c) v @ S \<and> bufferLength p' = int (length (pdu_mem p'))
    \<and> pduLength p' = int (length (X @ enc_opt (n - c) v))
    \<and> numOptions p' = numOptions p + 1 \<and> maxAddedOptionNumber p' = of_nat n
    \<and> payloadLength p' = payloadLength p \<and> payloadPointer p' = payloadPointer p"
proof -
  have d: "(of_nat n :: u16) - of_nat c = of_nat (n - c)" using c by (simp add: of_nat_diff)
  define newLength where "newLength = int (length (X @ enc_opt (n - c) v))"
  define p0 where "p0 = p\<lparr>maxAddedOptionNumber := of_nat n, pduLength := newLength\<rparr>"
  have len': "pduLength p + int (length (enc_opt (n - c) v)) = newLength"
    using len by (simp add: newLength_def)
  have "has_space h p0 newLength"
    using space by (simp add: newLength_def p0_def has_space_def)
  moreover have "pdu_mem p0 = X @ slack" "bufferLength p0 = int (length (pdu_mem p0))"
    using mem buf by (simp_all add: p0_def)
  ultimately obtain S b where S: "ensure_space h p0 newLength
      = Some (p0\<lparr>pdu_mem := X @ S, pdu_blk := b, bufferLength := int (length (X @ S))\<rparr>)"
    "newLength \<le> int (length (X @ S))"
    by (rule ensure_space_Some) (simp add: newLength_def)
  let ?p1 = "p0\<lparr>pdu_mem := X @ S, pdu_blk := b, bufferLength := int (length (X @ S))\<rparr>"
  define H where "H = take (length (enc_opt (n - c) v)) S"
  define Z where "Z = drop (length (enc_opt (n - c) v)) S"
  have HZ: "S = H @ Z" "length H = length (enc_opt (n - c) v)"
    using S(2) by (simp_all add: H_def Z_def newLength_def)
  have "insertOption (pduLength p) (of_nat (n - c)) (of_nat (length v)) ov ?p1
      = Inr (0, ?p1\<lparr>pdu_mem := X @ enc_opt (n - c) v @ Z\<rparr>)"
    by (rule insertOption_gap [where H = H]) (use HZ len c l v in simp_all)
  then have "addOption h (of_nat n) (of_nat (length v)) ov p
      = Inr (0, ?p1\<lparr>pdu_mem := X @ enc_opt (n - c) v @ Z, numOptions := numOptions p + 1\<rparr>)"
    using S c l len'
    by (subst addOption_end_eq [OF find _ p0_def]) (simp_all add: d optlen_enc p0_def del: of_nat_diff)
  with HZ show ?thesis by (simp add: p0_def newLength_def)
qed

lemma addOption_middle_eq:
  assumes "findInsertionPosition n p = Inr (pos, prev)" "pos \<noteq> pduLength p"
    "getOptionDelta (pdu_mem p) pos = Inr dd"
    "nn = uint prev + uint dd - uint n"
    "adj = computeExtraBytes (word_of_int nn) - computeExtraBytes (word_of_int (uint dd))"
    "M = optlen (n - prev) l + adj"
    "newLength = pduLength p + M"
  shows "addOption h n l ov p =
    (case ensure_space h (p\<lparr>pduLength := newLength\<rparr>) newLength of
       None \<Rightarrow> Inr (1, p\<lparr>pduLength := newLength, pduLength := pduLength p\<rparr>)
     | Some p1 \<Rightarrow>
         rbind (shiftPDUUp M (newLength - (pos + M)) p1) (\<lambda>p2.
         rbind (getp p2 (pos + M)) (\<lambda>hb.
         rbind (setp p2 (pos + M - adj) hb) (\<lambda>p3.
         rbind (setOptionDelta (pos + M - adj) (word_of_int nn) p3) (\<lambda>p4.
         rmap (\<lambda>(_, p5). (0, p5\<lparr>numOptions := numOptions p5 + 1\<rparr>))
           (insertOption pos (n - prev) l ov p4))))))"
  unfolding assms(7) assms(6) assms(5) assms(4)
  by (simp only: addOption_def assms(1,3) optlen_def Let_def rbind_simps prod.case
      if_False assms(2))

text \<open>The bytes behind the insertion point, moved up, with the delta of the next option
  rewritten: \<open>M\<close> bytes of room, of which the shorter delta field gives back some.\<close>

lemma shift_and_rewrite:
  assumes mem: "pdu_mem p = X @ (hdr d l # ext d @ R) @ G @ S"
    and G: "int (length G) = M" and pos: "pos = int (length X)"
    and len: "pduLength p = pos + M + int (length (hdr d l # ext d @ R))"
    and d: "d' \<le> d" "d < 65536"
    and adj: "adj = int (length (ext d')) - int (length (ext d))"
  shows "\<exists>H. int (length H) = M - adj \<and>
    rbind (shiftPDUUp M (pduLength p - (pos + M)) p) (\<lambda>p2.
    rbind (getp p2 (pos + M)) (\<lambda>hb.
    rbind (setp p2 (pos + M - adj) hb) (\<lambda>p3.
    setOptionDelta (pos + M - adj) (of_nat d') p3)))
    = Inr (p\<lparr>pdu_mem := X @ H @ (hdr d' l # ext d' @ R) @ S\<rparr>)"
proof -
  let ?L = "hdr d l # ext d @ R"
  obtain H where H: "length H = length G"
    "shiftUp_loop (X @ ?L @ G @ S) (int (length X + length ?L + length G) - 1)
       (int (length X + length ?L) - 1) (int (length ?L)) = Inr (X @ H @ ?L @ S)"
    using shiftUp_gap by blast
  have up: "shiftPDUUp M (pduLength p - (pos + M)) p = Inr (p\<lparr>pdu_mem := X @ H @ ?L @ S\<rparr>)"
    using H(2) mem G pos len by (simp add: shiftPDUUp_def algebra_simps)
  define e where "e = length (ext d) - length (ext d')"
  have e: "length (ext d) = e + length (ext d')" "M - adj = int (length H) + int e"
    using length_ext_mono [OF d(1)] adj G H(1) by (simp_all add: e_def)
  define Q1 where "Q1 = take e (hdr d l # ext d)"
  define q where "q = (hdr d l # ext d) ! e"
  define Q2 where "Q2 = drop (Suc e) (hdr d l # ext d)"
  have Q: "hdr d l # ext d = Q1 @ q # Q2" "length Q1 = e" "length Q2 = length (ext d')"
    using e(1) by (simp_all add: Q1_def Q2_def q_def id_take_nth_drop del: take_Cons drop_Suc_Cons)
  have L: "?L = Q1 @ q # Q2 @ R" using Q(1) by (metis Cons_eq_appendI append.assoc)
  have hd: "getp (p\<lparr>pdu_mem := X @ H @ ?L @ S\<rparr>) (pos + M) = Inr (hdr d l)"
    by (rule getp_at [where xs = "X @ H"]) (use pos H(1) G in simp_all)
  have wr: "setp (p\<lparr>pdu_mem := X @ H @ ?L @ S\<rparr>) (pos + M - adj) (hdr d l)
      = Inr (p\<lparr>pdu_mem := (X @ H @ Q1) @ hdr d l # Q2 @ R @ S\<rparr>)"
    by (subst setp_at [where xs = "X @ H @ Q1" and y = q and ys = "Q2 @ R @ S"])
       (use L pos e Q(2) in simp_all)
  have sd: "setOptionDelta (pos + M - adj) (of_nat d') (p\<lparr>pdu_mem := (X @ H @ Q1) @ hdr d l # Q2 @ R @ S\<rparr>)
      = Inr (p\<lparr>pdu_mem := (X @ H @ Q1) @ hdr d' l # ext d' @ R @ S\<rparr>)"
    by (subst setOptionDelta_gap [where A = "X @ H @ Q1" and X = Q2 and Z = "R @ S"])
       (use d pos e Q in simp_all)
  show ?thesis
    by (rule exI [of _ "H @ Q1"])
       (simp only: up rbind_simps hd wr sd, use Q(2) e in simp)
qed

lemma room_nonneg:
  assumes "c \<le> n" "n < k"
  shows "length (ext (k - c)) \<le> length (enc_opt (n - c) v) + length (ext (k - n))"
  using assms by (simp add: length_enc_opt length_ext) linarith

lemma addOption_middle:
  assumes find: "findInsertionPosition (of_nat n) p = Inr (int (length X), of_nat c)"
    and mem: "pdu_mem p = X @ enc_opts c ((k, w) # os) @ slack"
    and len: "pduLength p = int (length (X @ enc_opts c ((k, w) # os)))"
    and buf: "bufferLength p = int (length (pdu_mem p))"
    and c: "c \<le> n" "n < k" "k < 65536" "length w < 65536" and l: "length v < 269"
    and v: "src_bytes ov (int (length v)) = Inr v"
    and space: "has_space h p (int (length (X @ enc_opts c ((n, v) # (k, w) # os))))"
  shows "\<exists>p' S. addOption h (of_nat n) (of_nat (length v)) ov p = Inr (0, p')
    \<and> pdu_mem p' = X @ enc_opts c ((n, v) # (k, w) # os) @ S
    \<and> bufferLength p' = int (length (pdu_mem p'))
    \<and> pduLength p' = int (length (X @ enc_opts c ((n, v) # (k, w) # os)))
    \<and> numOptions p' = numOptions p + 1 \<and> maxAddedOptionNumber p' = maxAddedOptionNumber p
    \<and> payloadLength p' = payloadLength p \<and> payloadPointer p' = payloadPointer p"
proof -
  define R where "R = ext (length w) @ w @ enc_opts k os"
  define L where "L = hdr (k - c) (length w) # ext (k - c) @ R"
  define L' where "L' = hdr (k - n) (length w) # ext (k - n) @ R"
  define E where "E = enc_opt (n - c) v"
  define adj where "adj = int (length (ext (k - n))) - int (length (ext (k - c)))"
  define M where "M = int (length E) + adj"
  define newLength where "newLength = pduLength p + M"
  have encs: "enc_opts c ((k, w) # os) = L" "enc_opts c ((n, v) # (k, w) # os) = E @ L'"
    using c by (simp_all add: L_def L'_def R_def E_def enc_opt_def)
  have M0: "0 \<le> M" using room_nonneg [OF c(1,2), of v] by (simp add: M_def adj_def E_def)
  have new: "newLength = int (length (X @ E @ L'))" "newLength = int (length (X @ L)) + M"
    using len [unfolded encs(1)] by (simp_all add: newLength_def M_def adj_def L_def L'_def)
  have dd: "getOptionDelta (pdu_mem p) (int (length X)) = Inr (of_nat (k - c))"
    unfolding mem encs(1) L_def
    using getOptionDelta_enc [of "int (length X)" X "k - c" "length w" "R @ slack"] c by simp
  have ui: "uint (of_nat (k - c) :: u16) = int (k - c)" "uint (of_nat c :: u16) = int c"
    "uint (of_nat n :: u16) = int n"
    using c by (simp_all add: unsigned_of_nat take_bit_nat_eq_self del: of_nat_diff)
  have nn: "int (k - n) = uint (of_nat c :: u16) + uint (of_nat (k - c) :: u16) - uint (of_nat n :: u16)"
    unfolding ui using c by linarith
  have wi: "word_of_int (int j) = (of_nat j :: u16)" for j by simp
  have adj': "adj = computeExtraBytes (word_of_int (int (k - n)))
      - computeExtraBytes (word_of_int (uint (of_nat (k - c) :: u16)))"
    unfolding ui wi adj_def using c
    by (simp add: computeExtraBytes_of_nat del: of_nat_diff)
  have d: "(of_nat n :: u16) - of_nat c = of_nat (n - c)" using c by (simp add: of_nat_diff)
  have M: "M = optlen (of_nat n - of_nat c) (of_nat (length v)) + adj"
    unfolding d M_def E_def using c l by (simp add: optlen_enc del: of_nat_diff)
  have ne: "int (length X) \<noteq> pduLength p" using len [unfolded encs(1)] by (simp add: L_def)
  note unfold_add = addOption_middle_eq [OF find ne dd nn adj' M newLength_def]
  define p0 where "p0 = p\<lparr>pduLength := newLength\<rparr>"
  have "has_space h p0 newLength" using space [unfolded encs(2), folded new(1)] by (simp add: p0_def)
  moreover have "pdu_mem p0 = (X @ L) @ slack" "bufferLength p0 = int (length (pdu_mem p0))"
    using mem [unfolded encs(1)] buf by (simp_all add: p0_def)
  moreover have "int (length (X @ L)) \<le> newLength" using new M0 by simp
  ultimately obtain S b where S: "ensure_space h p0 newLength
      = Some (p0\<lparr>pdu_mem := (X @ L) @ S, pdu_blk := b, bufferLength := int (length ((X @ L) @ S))\<rparr>)"
    "newLength \<le> int (length ((X @ L) @ S))"
    by (rule ensure_space_Some)
  define p1 where "p1 = p0\<lparr>pdu_mem := (X @ L) @ S, pdu_blk := b, bufferLength := int (length ((X @ L) @ S))\<rparr>"
  define G where "G = take (nat M) S"
  define Z where "Z = drop (nat M) S"
  have GZ: "S = G @ Z" "int (length G) = M"
    using S(2) new M0 by (simp_all add: G_def Z_def)
  have pm: "pdu_mem p1 = X @ (hdr (k - c) (length w) # ext (k - c) @ R) @ G @ Z"
    by (simp add: p1_def L_def GZ(1))
  have pl: "pduLength p1 = int (length X) + M
      + int (length (hdr (k - c) (length w) # ext (k - c) @ R))"
    using new(2) by (simp add: p1_def p0_def L_def)
  have dle: "k - n \<le> k - c" "k - c < 65536" using c by simp_all
  obtain H where H: "int (length H) = M - adj"
    "rbind (shiftPDUUp M (pduLength p1 - (int (length X) + M)) p1) (\<lambda>p2.
     rbind (getp p2 (int (length X) + M)) (\<lambda>hb.
     rbind (setp p2 (int (length X) + M - adj) hb) (\<lambda>p3.
     setOptionDelta (int (length X) + M - adj) (of_nat (k - n)) p3)))
    = Inr (p1\<lparr>pdu_mem := X @ H @ L' @ Z\<rparr>)"
    using shift_and_rewrite [OF pm GZ(2) refl pl dle adj_def] unfolding L'_def by blast
  have ins: "insertOption (int (length X)) (of_nat (n - c)) (of_nat (length v)) ov
        (p1\<lparr>pdu_mem := X @ H @ L' @ Z\<rparr>) = Inr (0, p1\<lparr>pdu_mem := X @ E @ L' @ Z\<rparr>)"
    unfolding E_def
    by (subst insertOption_gap [where A = X and H = H and Z = "L' @ Z"])
       (use H(1) c l v in \<open>simp_all add: M_def E_def\<close>)
  have "addOption h (of_nat n) (of_nat (length v)) ov p
      = Inr (0, p1\<lparr>pdu_mem := X @ E @ L' @ Z, numOptions := numOptions p + 1\<rparr>)"
    unfolding unfold_add
    using S(1) H(2) ins
    by (auto simp: p1_def p0_def d wi rbind_eq_Inr simp del: of_nat_diff)
  with GZ new S(2) show ?thesis unfolding encs by (simp add: p1_def p0_def)
qed

lemma enc_opts_split:
  "wf_opts c os \<Longrightarrow> enc_opts c os = enc_opts c (opts_upto n os)
     @ enc_opts (last_num c (opts_upto n os)) (opts_after n os)"
  by (metis enc_opts_append opts_split)

lemma enc_opts_ins:
  "enc_opts 0 (ins_opt n v os) = enc_opts 0 (opts_upto n os)
     @ enc_opts (last_num 0 (opts_upto n os)) ((n, v) # opts_after n os)"
  by (simp add: ins_opt_split enc_opts_append)

lemma last_num_ins:
  "wf_opts c os \<Longrightarrow> last_num c (ins_opt n v os) = (if opts_after n os = [] then n else last_num c os)"
  using opts_split [of n os] by (metis ins_opt_split last_num_append last_num_simps fst_conv
      neq_Nil_conv)

abbreviation add_to :: "nat \<Rightarrow> byte list \<Rightarrow> coap_msg \<Rightarrow> coap_msg" where
  "add_to n v m \<equiv> m\<lparr>cm_opts := ins_opt n v (cm_opts m)\<rparr>"

lemma encode_no_payload:
  "cm_payload m = [] \<Longrightarrow> encode m = (enc_head m @ cm_token m) @ enc_opts 0 (cm_opts m)"
  by (simp add: encode_def enc_payload_def)

lemma wf_msg_add_to: "wf_msg m \<Longrightarrow> n < 65536 \<Longrightarrow> length v < 65536 \<Longrightarrow> wf_msg (add_to n v m)"
  by (simp add: wf_msg_def wf_opts_ins)

lemma enc_head_opts [simp]: "enc_head (m\<lparr>cm_opts := os\<rparr>) = enc_head m"
  by (simp add: enc_head_def)

lemma addOption_ok:
  assumes rep: "pdu_rep p m" and pl: "cm_payload m = []" and n: "n < 65536"
    and l: "length v < 269" and v: "src_bytes ov (int (length v)) = Inr v"
    and space: "has_space h p (int (length (encode (add_to n v m))))"
  shows "\<exists>p'. addOption h (of_nat n) (of_nat (length v)) ov p = Inr (0, p')
    \<and> pdu_rep p' (add_to n v m)"
proof -
  let ?os = "cm_opts m"
  define c where "c = last_num 0 (opts_upto n ?os)"
  define X where "X = (enc_head m @ cm_token m) @ enc_opts 0 (opts_upto n ?os)"
  obtain slack where mem: "pdu_mem p = encode m @ slack" and wf: "wf_msg m"
    and len: "pduLength p = int (length (encode m))" and buf: "bufferLength p = int (length (pdu_mem p))"
    and num: "numOptions p = int (length ?os)" "maxAddedOptionNumber p = of_nat (last_num 0 ?os)"
    and pp: "payloadLength p = 0" "payloadPointer p = None"
    using rep pl by (auto simp: pdu_rep_def)
  have wo: "wf_opts 0 ?os" using wf by (simp add: wf_msg_def)
  have cn: "c \<le> n" unfolding c_def by (rule opts_upto_last) simp
  have enc: "encode m = X @ enc_opts c (opts_after n ?os)"
    using enc_opts_split [OF wo, of n] pl by (simp add: encode_no_payload X_def c_def)
  have enc': "encode (add_to n v m) = X @ enc_opts c ((n, v) # opts_after n ?os)"
    using pl by (simp add: encode_no_payload enc_opts_ins X_def c_def)
  have find: "findInsertionPosition (of_nat n) p = Inr (int (length X), of_nat c)"
    using findInsertionPosition_correct [OF rep pl n] by (simp add: X_def c_def)
  have wf': "wf_msg (add_to n v m)" by (rule wf_msg_add_to [OF wf n]) (use l in simp)
  show ?thesis
  proof (cases "opts_after n ?os")
    case Nil
    have "last_num 0 (ins_opt n v ?os) = n" using last_num_ins [OF wo] Nil by simp
    moreover have "\<exists>p' S. addOption h (of_nat n) (of_nat (length v)) ov p = Inr (0, p')
      \<and> pdu_mem p' = X @ enc_opt (n - c) v @ S \<and> bufferLength p' = int (length (pdu_mem p'))
      \<and> pduLength p' = int (length (X @ enc_opt (n - c) v))
      \<and> numOptions p' = numOptions p + 1 \<and> maxAddedOptionNumber p' = of_nat n
      \<and> payloadLength p' = payloadLength p \<and> payloadPointer p' = payloadPointer p"
      by (rule addOption_end [where slack = slack])
         (use find mem len buf enc enc' Nil cn n l v space in simp_all)
    ultimately show ?thesis using wf' Nil pl pp num by (auto simp: pdu_rep_def enc')
  next
    case (Cons x os)
    then obtain k w where after: "opts_after n ?os = (k, w) # os" by (cases x) auto
    have "wf_opts c ((k, w) # os)" using wo opts_split [of n ?os] after c_def
      by (metis wf_opts_append)
    then have kw: "n < k" "k < 65536" "length w < 65536"
      using opts_after_hd [OF after] by simp_all
    have "last_num 0 (ins_opt n v ?os) = last_num 0 ?os" using last_num_ins [OF wo] after by simp
    moreover have "\<exists>p' S. addOption h (of_nat n) (of_nat (length v)) ov p = Inr (0, p')
      \<and> pdu_mem p' = X @ enc_opts c ((n, v) # (k, w) # os) @ S
      \<and> bufferLength p' = int (length (pdu_mem p'))
      \<and> pduLength p' = int (length (X @ enc_opts c ((n, v) # (k, w) # os)))
      \<and> numOptions p' = numOptions p + 1 \<and> maxAddedOptionNumber p' = maxAddedOptionNumber p
      \<and> payloadLength p' = payloadLength p \<and> payloadPointer p' = payloadPointer p"
      by (rule addOption_middle [where slack = slack])
         (use find mem len buf enc [unfolded after] enc' [unfolded after] cn kw l v space
          in \<open>simp_all only: append_assoc\<close>)
    ultimately show ?thesis using wf' after pl pp num
      by (auto simp: pdu_rep_def enc' simp del: enc_opts.simps)
  qed
qed

end
