(* ===== verification/Coap_Pdu_Edit.thy ===== *)
theory Coap_Pdu_Edit
  imports Coap_Pdu_Proofs
begin

text \<open>
  The other editing operations of CoapPDU against the abstract message: the header
  setters, \<open>reset\<close>, \<open>setToken\<close> (which moves everything behind the token) and
  \<open>setPayload\<close>.
\<close>

section \<open>Header setters\<close>

lemma head0_set_table:
  "\<forall>ver \<in> set [0, 1, 2, 3]. \<forall>ty \<in> set [0x00, 0x10, 0x20, 0x30]. \<forall>n \<in> set [0..<9].
     (\<forall>k \<in> set [0..<9]. (head0 ver ty n AND 0xF0) OR of_nat k = head0 ver ty k) \<and>
     (\<forall>u \<in> set [0, 1, 2, 3]. (head0 ver ty n AND 0x3F) OR push_bit 6 u = head0 u ty n) \<and>
     (\<forall>t \<in> set [0x00, 0x10, 0x20, 0x30]. (head0 ver ty n AND 0xCF) OR t = head0 ver t n)"
  by code_simp

lemma wf_msg_sets:
  "wf_msg m \<Longrightarrow> cm_version m \<in> set [0, 1, 2, 3] \<and> cm_type m \<in> set [0x00, 0x10, 0x20, 0x30]
     \<and> length (cm_token m) \<in> set [0..<9]"
  using byte_less4 [of "cm_version m"] by (auto simp: wf_msg_def)

lemma head0_setters:
  assumes "wf_msg m"
  shows "k \<le> 8 \<Longrightarrow> (head0 (cm_version m) (cm_type m) (length (cm_token m)) AND 0xF0) OR of_nat k
      = head0 (cm_version m) (cm_type m) k"
    and "u < 4 \<Longrightarrow> (head0 (cm_version m) (cm_type m) (length (cm_token m)) AND 0x3F) OR push_bit 6 u
      = head0 u (cm_type m) (length (cm_token m))"
    and "t \<in> {0x00, 0x10, 0x20, 0x30} \<Longrightarrow>
      (head0 (cm_version m) (cm_type m) (length (cm_token m)) AND 0xCF) OR t
      = head0 (cm_version m) t (length (cm_token m))"
proof -
  note ms = wf_msg_sets [OF assms]
  have t: "(\<forall>k \<in> set [0..<9]. (head0 (cm_version m) (cm_type m) (length (cm_token m)) AND 0xF0) OR of_nat k
        = head0 (cm_version m) (cm_type m) k) \<and>
     (\<forall>u \<in> set [0, 1, 2, 3]. (head0 (cm_version m) (cm_type m) (length (cm_token m)) AND 0x3F) OR push_bit 6 u
        = head0 u (cm_type m) (length (cm_token m))) \<and>
     (\<forall>t \<in> set [0x00, 0x10, 0x20, 0x30].
        (head0 (cm_version m) (cm_type m) (length (cm_token m)) AND 0xCF) OR t
        = head0 (cm_version m) t (length (cm_token m)))"
    using head0_set_table ms by blast
  show "k \<le> 8 \<Longrightarrow> (head0 (cm_version m) (cm_type m) (length (cm_token m)) AND 0xF0) OR of_nat k
      = head0 (cm_version m) (cm_type m) k" using t by simp
  show "u < 4 \<Longrightarrow> (head0 (cm_version m) (cm_type m) (length (cm_token m)) AND 0x3F) OR push_bit 6 u
      = head0 u (cm_type m) (length (cm_token m))" using t byte_less4 [of u] by blast
  show "t \<in> {0x00, 0x10, 0x20, 0x30} \<Longrightarrow>
      (head0 (cm_version m) (cm_type m) (length (cm_token m)) AND 0xCF) OR t
      = head0 (cm_version m) t (length (cm_token m))"
  proof -
    assume "t \<in> {0x00, 0x10, 0x20, 0x30}"
    then have "t \<in> set [0x00, 0x10, 0x20, 0x30]" by simp
    with t show ?thesis by blast
  qed
qed

text \<open>Rewriting one header byte, or the message id, of a represented PDU.\<close>

lemma rep_mem: "pdu_rep p m \<Longrightarrow> \<exists>slack. pdu_mem p = encode m @ slack"
  by (simp add: pdu_rep_def)

lemma rep_update:
  assumes "pdu_rep p m" "wf_msg m'" "length (encode m') = length (encode m)"
    "cm_opts m' = cm_opts m" "cm_payload m' = cm_payload m"
  shows "pdu_rep (p\<lparr>pdu_mem := encode m' @ drop (length (encode m)) (pdu_mem p)\<rparr>) m'"
  using assms by (auto simp: pdu_rep_def)

lemma length_encode_fields [simp]:
  "length (encode (m\<lparr>cm_version := a\<rparr>)) = length (encode m)"
  "length (encode (m\<lparr>cm_type := b\<rparr>)) = length (encode m)"
  "length (encode (m\<lparr>cm_code := d\<rparr>)) = length (encode m)"
  "length (encode (m\<lparr>cm_mid := e\<rparr>)) = length (encode m)"
  by (simp_all add: encode_def)

lemma setVersion_rep:
  assumes "pdu_rep p m" "u \<le> 3"
  shows "\<exists>p'. setVersion u p = Inr (1, p') \<and> pdu_rep p' (m\<lparr>cm_version := u\<rparr>)"
proof -
  obtain slack where mem: "pdu_mem p = encode m @ slack" using rep_mem [OF assms(1)] by blast
  have wf: "wf_msg m" using assms(1) by (simp add: pdu_rep_def)
  have "u < 4" using assms(2) by (simp add: word_less_nat_alt word_le_nat_alt)
  moreover from this have "wf_msg (m\<lparr>cm_version := u\<rparr>)" using wf by (simp add: wf_msg_def)
  ultimately show ?thesis
    using rep_update [OF assms(1), of "m\<lparr>cm_version := u\<rparr>"] assms(2) mem
    by (simp add: setVersion_def getp_def setp_def encode_head rd_buf_Cons wr_buf_Cons
        head0_setters [OF wf] not_less)
qed

lemma setType_rep:
  assumes "pdu_rep p m" "t \<in> {0x00, 0x10, 0x20, 0x30}"
  shows "\<exists>p'. setType t p = Inr p' \<and> pdu_rep p' (m\<lparr>cm_type := word_of_int t\<rparr>)"
proof -
  obtain slack where mem: "pdu_mem p = encode m @ slack" using rep_mem [OF assms(1)] by blast
  have wf: "wf_msg m" using assms(1) by (simp add: pdu_rep_def)
  have t: "word_of_int t \<in> {0x00 :: byte, 0x10, 0x20, 0x30}" using assms(2) by auto
  moreover from this have "wf_msg (m\<lparr>cm_type := word_of_int t\<rparr>)" using wf by (simp add: wf_msg_def)
  ultimately show ?thesis
    using rep_update [OF assms(1), of "m\<lparr>cm_type := word_of_int t\<rparr>"] mem
    by (simp add: setType_def getp_def setp_def encode_head rd_buf_Cons wr_buf_Cons
        head0_setters(3) [OF wf t])
qed

lemma setCode_rep:
  assumes "pdu_rep p m"
  shows "\<exists>p'. setCode c p = Inr p' \<and> pdu_rep p' (m\<lparr>cm_code := word_of_int c\<rparr>)"
proof -
  obtain slack where mem: "pdu_mem p = encode m @ slack" using rep_mem [OF assms(1)] by blast
  have wf: "wf_msg (m\<lparr>cm_code := word_of_int c\<rparr>)" using assms(1) by (simp add: pdu_rep_def wf_msg_def)
  show ?thesis
    using rep_update [OF assms(1) wf] mem
    by (simp add: setCode_def setp_def encode_head wr_buf_Cons)
qed

lemma setMessageID_rep:
  assumes "pdu_rep p m"
  shows "\<exists>p'. setMessageID i p = Inr (0, p') \<and> pdu_rep p' (m\<lparr>cm_mid := i\<rparr>)"
proof -
  obtain slack where mem: "pdu_mem p = encode m @ slack" using rep_mem [OF assms(1)] by blast
  have wf: "wf_msg (m\<lparr>cm_mid := i\<rparr>)" using assms(1) by (simp add: pdu_rep_def wf_msg_def)
  let ?h = "[head0 (cm_version m) (cm_type m) (length (cm_token m)), cm_code m]"
  let ?t = "cm_token m @ enc_opts 0 (cm_opts m) @ enc_payload (cm_payload m)"
  have "setps p 2 (be16 i) = Inr (p\<lparr>pdu_mem := ?h @ be16 i @ ?t @ slack\<rparr>)"
    by (rule setps_at [where ys = "be16 (cm_mid m)"]) (use mem in \<open>simp_all add: encode_head\<close>)
  then show ?thesis
    using rep_update [OF assms(1) wf] mem
    by (simp add: setMessageID_def endian_store16_be16 encode_head)
qed

section \<open>Construction and reset\<close>

abbreviation empty_msg :: "byte \<Rightarrow> coap_msg" where
  "empty_msg ver \<equiv> \<lparr>cm_version = ver, cm_type = 0, cm_code = 0, cm_mid = 0, cm_token = [],
                    cm_opts = [], cm_payload = []\<rparr>"

lemma encode_empty: "encode (empty_msg 0) = [0, 0, 0, 0]" "encode (empty_msg 1) = [0x40, 0, 0, 0]"
  by (simp_all add: encode_def enc_head_def be16_def enc_payload_def)

lemma new_CoapPDU_rep: "ra_ok h 0 4 \<Longrightarrow> \<exists>p. new_CoapPDU h = Inr p \<and> pdu_rep p (empty_msg 1)"
  by (simp add: new_CoapPDU_def setVersion_def getp_def setp_def rd_buf_def wr_buf_def
      pdu_rep_def encode_empty wf_msg_def)

lemma new_CoapPDU_buffer_rep:
  assumes "length buffer = nat n" "4 \<le> n"
  shows "\<exists>p. new_CoapPDU_buffer buffer n 0 = Inr p \<and> pdu_rep p (empty_msg 1)"
proof -
  have "4 \<le> length buffer" using assms by linarith
  then obtain a b c d bs where b: "buffer = a # b # c # d # bs"
    by (auto simp: numeral_eq_Suc Suc_le_length_iff)
  show ?thesis using assms unfolding b
    by (auto simp: new_CoapPDU_buffer_def setVersion_def getp_def setp_def setps_def rd_buf_Cons
        wr_buf_Cons pdu_rep_def encode_empty wf_msg_def)
qed

lemma reset_rep:
  assumes "pdu_rep p m"
  shows "\<exists>p'. reset p = Inr (0, p') \<and> pdu_rep p' (empty_msg 0)"
proof -
  obtain slack where mem: "pdu_mem p = encode m @ slack" using rep_mem [OF assms] by blast
  have n: "nat (bufferLength p) = length (pdu_mem p)" using assms by (simp add: pdu_rep_def)
  have len: "4 \<le> length (pdu_mem p)" using mem by (simp add: encode_def)
  have "wr_bytes (pdu_mem p) 0 (replicate (length (pdu_mem p)) 0)
      = Inr (replicate (length (pdu_mem p)) 0)"
    by (simp add: wr_bytes_ok)
  moreover have "replicate (length (pdu_mem p)) (0 :: byte)
      = [0, 0, 0, 0] @ replicate (length (pdu_mem p) - 4) 0"
  proof -
    obtain k where "length (pdu_mem p) = 4 + k" using len le_Suc_ex by blast
    moreover have "replicate (4 + k) (0 :: byte) = replicate 4 0 @ replicate k 0"
      by (rule replicate_add)
    moreover have "replicate 4 (0 :: byte) = [0, 0, 0, 0]" by (simp add: numeral_eq_Suc)
    ultimately show ?thesis by simp
  qed
  moreover have "wf_msg (empty_msg 0)" by (simp add: wf_msg_def)
  ultimately show ?thesis using assms len
    by (simp add: reset_def setps_def n pdu_rep_def encode_empty)
qed

section \<open>setToken\<close>

lemma shiftDown_step:
  "n \<noteq> 0 \<Longrightarrow> rd_buf m src = Inr b \<Longrightarrow> wr_buf m dest b = Inr m' \<Longrightarrow>
   shiftDown_loop m dest src n = shiftDown_loop m' (dest + 1) (src + 1) (n - 1)"
  by (subst shiftDown_loop.simps) simp

lemma shiftDown_gap:
  "\<exists>H. length H = length G \<and>
     shiftDown_loop (P @ G @ L @ S) (int (length P)) (int (length P + length G)) (int (length L))
     = Inr (P @ L @ H @ S)"
proof (induction L arbitrary: P G)
  case Nil
  show ?case by (auto simp: shiftDown_loop.simps)
next
  case (Cons x L)
  obtain y ys where G: "G @ [x] = y # ys" by (cases "G @ [x]") auto
  have "length (G @ [x]) = length (y # ys)" unfolding G ..
  then have len: "length ys = length G" by simp
  have eq: "P @ G @ (x # L) @ S = P @ y # ys @ L @ S"
  proof -
    have "P @ G @ (x # L) @ S = P @ (G @ [x]) @ L @ S" by simp
    then show ?thesis unfolding G by simp
  qed
  have rd: "rd_buf (P @ G @ (x # L) @ S) (int (length P + length G)) = Inr x"
    using rd_buf_at [of _ "P @ G" x "L @ S"] by simp
  have wr: "wr_buf (P @ G @ (x # L) @ S) (int (length P)) x = Inr ((P @ [x]) @ ys @ L @ S)"
    unfolding eq by (subst wr_buf_at) simp_all
  obtain H where H: "length H = length ys"
    "shiftDown_loop ((P @ [x]) @ ys @ L @ S) (int (length (P @ [x])))
       (int (length (P @ [x]) + length ys)) (int (length L)) = Inr ((P @ [x]) @ L @ H @ S)"
    using Cons.IH [of ys "P @ [x]"] by (elim exE conjE) (rule that)
  show ?case
    by (rule exI [of _ H], subst shiftDown_step [OF _ rd wr])
       (use H len in \<open>simp_all add: algebra_simps\<close>)
qed

lemma byte_of_small: "0 \<le> i \<Longrightarrow> i < 256 \<Longrightarrow> uint (word_of_int i :: byte) = i"
  by (simp add: uint_word_of_int)

lemma enc_head_token:
  "enc_head (m\<lparr>cm_token := t\<rparr>)
     = head0 (cm_version m) (cm_type m) (length t) # cm_code m # be16 (cm_mid m)"
  by (simp add: enc_head_eq)

lemma encode_token:
  "encode (m\<lparr>cm_token := t\<rparr>) = head0 (cm_version m) (cm_type m) (length t) # cm_code m
     # be16 (cm_mid m) @ t @ enc_opts 0 (cm_opts m) @ enc_payload (cm_payload m)"
  by (simp add: encode_head)

lemma setTokenLength_rep:
  assumes "wf_msg m" "pdu_mem p = head0 (cm_version m) (cm_type m) (length (cm_token m)) # ys" "k \<le> 8"
  shows "setTokenLength (of_nat k) p = Inr (0, p\<lparr>pdu_mem := head0 (cm_version m) (cm_type m) k # ys\<rparr>)"
proof -
  have "\<not> (of_nat k :: byte) > 8" using assms(3) by (simp add: word_less_nat_alt unat_of_nat)
  then show ?thesis using assms
    by (simp add: setTokenLength_def getp_def setp_def rd_buf_Cons wr_buf_Cons head0_setters)
qed

lemma uint_small: "k \<le> 8 \<Longrightarrow> uint (of_nat k :: byte) = int k"
  by (simp add: unsigned_of_nat take_bit_nat_eq_self)

text \<open>The PDU without payload as header, token, options and slack.\<close>

lemma rep_parts:
  assumes "pdu_rep p m" "cm_payload m = []"
  obtains slack where
    "pdu_mem p = enc_head m @ cm_token m @ enc_opts 0 (cm_opts m) @ slack"
    "pduLength p = 4 + int (length (cm_token m)) + int (length (enc_opts 0 (cm_opts m)))"
    "getTokenLength p = Inr (int (length (cm_token m)))"
proof -
  obtain slack where mem: "pdu_mem p = encode m @ slack" using rep_mem [OF assms(1)] by blast
  show thesis
    by (rule that [of slack]) (use assms mem rep_getTokenLength [OF mem] in
      \<open>simp_all add: pdu_rep_def encode_no_payload\<close>)
qed

lemma rep_set_token:
  assumes "pdu_rep p m" "cm_payload m = []" "length t \<le> 8"
    "pdu_mem q = encode (m\<lparr>cm_token := t\<rparr>) @ slack" "bufferLength q = int (length (pdu_mem q))"
    "pduLength q = int (length (encode (m\<lparr>cm_token := t\<rparr>)))"
    "numOptions q = numOptions p" "maxAddedOptionNumber q = maxAddedOptionNumber p"
    "payloadLength q = payloadLength p" "payloadPointer q = payloadPointer p"
  shows "pdu_rep q (m\<lparr>cm_token := t\<rparr>)"
  using assms by (simp add: pdu_rep_def wf_msg_def)

text \<open>Overwriting the token area and the token length in the header.\<close>

lemma write_token:
  assumes mem: "pdu_mem q = enc_head m @ A @ Z" and len: "length A = length t"
    and wf: "wf_msg m" and t: "length t \<le> 8"
  shows "rbind (setps q 4 t) (\<lambda>q1. setTokenLength (of_nat (length t)) q1)
    = Inr (0, q\<lparr>pdu_mem := enc_head (m\<lparr>cm_token := t\<rparr>) @ t @ Z\<rparr>)"
proof -
  have "setps q 4 t = Inr (q\<lparr>pdu_mem := enc_head m @ t @ Z\<rparr>)"
    by (rule setps_at [OF mem]) (simp_all add: len)
  then show ?thesis
    using setTokenLength_rep [OF wf _ t, of "q\<lparr>pdu_mem := enc_head m @ t @ Z\<rparr>"]
    by (simp add: enc_head_eq enc_head_token)
qed

lemma setToken_unfold:
  assumes "getTokenLength p = Inr (int k)" "k \<le> 8" "0 < n" "n \<le> 8" "k \<noteq> n"
    "0 \<le> pduLength p" "pduLength p < 256" "src_bytes (Some src) (int n) = Inr t"
    "new = pduLength p - int k + int n"
  shows "setToken h (Some src) (of_nat n) p =
    (if k < n then
       (case ensure_space h (p\<lparr>pduLength := new\<rparr>) new of
          None \<Rightarrow> Inr (1, p)
        | Some p1 \<Rightarrow>
            rbind (shiftPDUUp (new - pduLength p) (new - int n - 4) p1) (\<lambda>p2.
            rmap (\<lambda>(_, p4). (0, p4))
              (rbind (setps p2 4 t) (\<lambda>p3. setTokenLength (of_nat n) p3))))
     else
       rbind (setps (p\<lparr>pduLength := new\<rparr>) 4 t) (\<lambda>p1.
       rbind (shiftPDUDown (4 + int n) (pduLength p - new) (pduLength p - int k - 4) p1) (\<lambda>p2.
       if \<not> constructedFromBuffer p2
       then (case realloc_pdu h p2 new of
               None \<Rightarrow> Inr (1, p2)
             | Some p3 \<Rightarrow> rmap (\<lambda>(_, p4). (0, p4))
                 (setTokenLength (of_nat n) (p3\<lparr>bufferLength := new\<rparr>)))
       else rmap (\<lambda>(_, p3). (0, p3)) (setTokenLength (of_nat n) p2))))"
proof -
  note uk = uint_small [OF assms(2)] and un = uint_small [OF assms(4)]
    and old = byte_of_small [OF assms(6,7)]
  have nz: "(of_nat n :: byte) \<noteq> 0" "(of_nat n :: byte) \<noteq> of_nat k"
    using un uk assms(3,5) by fastforce+
  have wi: "(word_of_int (int k) :: byte) = of_nat k" by simp
  have gt: "(new > pduLength p) = (k < n)" unfolding assms(9) by auto
  have same: "p\<lparr>pduLength := new, pduLength := pduLength p\<rparr> = p" by simp
  show ?thesis
    unfolding setToken_def assms(1) rbind_simps Let_def wi uk un old assms(8)
      assms(9) [symmetric] COAP_HDR_SIZE_def rbind_assoc same
    by (simp add: nz gt rmap_rbind cong: option.case_cong)
qed

lemma setToken_same:
  assumes rep: "pdu_rep p m" and pl: "cm_payload m = []" and t: "0 < length t" "length t \<le> 8"
    and src: "src_bytes (Some src) (int (length t)) = Inr t"
    and same: "length t = length (cm_token m)"
  shows "\<exists>p'. setToken h (Some src) (of_nat (length t)) p = Inr (0, p')
    \<and> pdu_rep p' (m\<lparr>cm_token := t\<rparr>)"
proof -
  obtain slack where parts: "pdu_mem p = enc_head m @ cm_token m @ enc_opts 0 (cm_opts m) @ slack"
    "pduLength p = 4 + int (length (cm_token m)) + int (length (enc_opts 0 (cm_opts m)))"
    "getTokenLength p = Inr (int (length (cm_token m)))"
    by (rule rep_parts [OF rep pl])
  let ?p' = "p\<lparr>pdu_mem := enc_head m @ t @ enc_opts 0 (cm_opts m) @ slack\<rparr>"
  have w: "setps p 4 t = Inr ?p'" by (rule setps_at [OF parts(1)]) (simp_all add: same)
  have nz: "(of_nat (length t) :: byte) \<noteq> 0" using uint_small [OF t(2)] t(1) by fastforce
  have eq: "setToken h (Some src) (of_nat (length t)) p = Inr (0, ?p')"
    using parts(3) nz src w same
    by (simp add: setToken_def uint_small [OF t(2)] uint_small [OF t(2) [unfolded same]] Let_def)
  have "pdu_rep ?p' (m\<lparr>cm_token := t\<rparr>)"
    by (rule rep_set_token [OF rep pl t(2), where slack = slack])
       (use rep pl same parts in \<open>simp_all add: pdu_rep_def encode_no_payload enc_head_eq\<close>)
  with eq show ?thesis by blast
qed

lemma setToken_grow:
  assumes rep: "pdu_rep p m" and pl: "cm_payload m = []" and t: "length t \<le> 8"
    and src: "src_bytes (Some src) (int (length t)) = Inr t"
    and grow: "length (cm_token m) < length t"
    and small: "length (encode m) < 256"
    and space: "has_space h p (int (length (encode (m\<lparr>cm_token := t\<rparr>))))"
  shows "\<exists>p'. setToken h (Some src) (of_nat (length t)) p = Inr (0, p')
    \<and> pdu_rep p' (m\<lparr>cm_token := t\<rparr>) \<and> constructedFromBuffer p' = constructedFromBuffer p"
proof -
  define T where "T = enc_opts 0 (cm_opts m)"
  obtain slack where parts: "pdu_mem p = enc_head m @ cm_token m @ T @ slack"
    "pduLength p = 4 + int (length (cm_token m)) + int (length T)"
    "getTokenLength p = Inr (int (length (cm_token m)))"
    unfolding T_def by (rule rep_parts [OF rep pl])
  have enc: "encode m = enc_head m @ cm_token m @ T"
    "encode (m\<lparr>cm_token := t\<rparr>) = enc_head (m\<lparr>cm_token := t\<rparr>) @ t @ T"
    using pl by (simp_all add: encode_no_payload T_def)
  have wf: "wf_msg m" using rep by (simp add: pdu_rep_def)
  define new where "new = int (length (encode (m\<lparr>cm_token := t\<rparr>)))"
  have new: "new = 4 + int (length t) + int (length T)" by (simp add: new_def enc)
  define p0 where "p0 = p\<lparr>pduLength := new\<rparr>"
  have "has_space h p0 new" using space by (simp add: p0_def new_def)
  moreover have "pdu_mem p0 = (enc_head m @ cm_token m @ T) @ slack"
    "bufferLength p0 = int (length (pdu_mem p0))"
    using parts(1) rep by (simp_all add: p0_def pdu_rep_def)
  moreover have "int (length (enc_head m @ cm_token m @ T)) \<le> new" using grow by (simp add: new)
  ultimately obtain S b where S: "ensure_space h p0 new = Some (p0\<lparr>pdu_mem :=
      (enc_head m @ cm_token m @ T) @ S, pdu_blk := b,
      bufferLength := int (length ((enc_head m @ cm_token m @ T) @ S))\<rparr>)"
    "new \<le> int (length ((enc_head m @ cm_token m @ T) @ S))"
    by (rule ensure_space_Some)
  define p1 where "p1 = p0\<lparr>pdu_mem := (enc_head m @ cm_token m @ T) @ S, pdu_blk := b,
      bufferLength := int (length ((enc_head m @ cm_token m @ T) @ S))\<rparr>"
  define G where "G = take (length t - length (cm_token m)) S"
  define Z where "Z = drop (length t - length (cm_token m)) S"
  have GZ: "S = G @ Z" "length G = length t - length (cm_token m)"
    using S(2) grow by (simp_all add: G_def Z_def new)
  obtain H where H: "length H = length G"
    "shiftUp_loop ((enc_head m @ cm_token m) @ T @ G @ Z)
       (int (length (enc_head m @ cm_token m) + length T + length G) - 1)
       (int (length (enc_head m @ cm_token m) + length T) - 1) (int (length T))
     = Inr ((enc_head m @ cm_token m) @ H @ T @ Z)"
    using shiftUp_gap by blast
  have up: "shiftPDUUp (new - pduLength p) (int (length T)) p1
      = Inr (p1\<lparr>pdu_mem := enc_head m @ (cm_token m @ H) @ T @ Z\<rparr>)"
    using H(2) GZ grow new parts(2)
    by (simp add: shiftPDUUp_def p1_def p0_def algebra_simps of_nat_diff)
  have wr: "rbind (setps (p1\<lparr>pdu_mem := enc_head m @ (cm_token m @ H) @ T @ Z\<rparr>) 4 t)
        (\<lambda>q. setTokenLength (of_nat (length t)) q)
      = Inr (0, p1\<lparr>pdu_mem := encode (m\<lparr>cm_token := t\<rparr>) @ Z\<rparr>)"
    by (subst write_token [of _ m "cm_token m @ H" "T @ Z"])
       (use H(1) GZ(2) grow wf t in \<open>simp_all add: enc\<close>)
  have tok: "length (cm_token m) \<le> 8" using wf by (simp add: wf_msg_def)
  have nums: "0 < length t" "length (cm_token m) \<noteq> length t" "0 \<le> pduLength p" "pduLength p < 256"
    "new = pduLength p - int (length (cm_token m)) + int (length t)"
    using grow parts(2) small new by (auto simp: enc)
  note unfold_set = setToken_unfold [OF parts(3) tok nums(1) t nums(2-4) src nums(5), of h]
  have am: "new - int (length t) - 4 = int (length T)" using new by simp
  have eq: "setToken h (Some src) (of_nat (length t)) p
      = Inr (0, p1\<lparr>pdu_mem := encode (m\<lparr>cm_token := t\<rparr>) @ Z\<rparr>)"
    unfolding unfold_set am using S(1) [folded p1_def, unfolded p0_def] grow
    by (simp only: option.case if_True up rbind_simps wr rmap_simps prod.case)
  have "pdu_rep (p1\<lparr>pdu_mem := encode (m\<lparr>cm_token := t\<rparr>) @ Z\<rparr>) (m\<lparr>cm_token := t\<rparr>)"
    by (rule rep_set_token [OF rep pl t, where slack = Z])
       (use GZ grow in \<open>simp_all add: p1_def p0_def new_def enc\<close>)
  moreover have "constructedFromBuffer (p1\<lparr>pdu_mem := encode (m\<lparr>cm_token := t\<rparr>) @ Z\<rparr>)
      = constructedFromBuffer p" by (simp add: p1_def p0_def)
  ultimately show ?thesis using eq by blast
qed

lemma realloc_shrink:
  assumes "ra_ok h (pdu_blk q) n" "0 < n" "pdu_mem q = A @ B" "n = int (length A)"
  shows "realloc_pdu h q n = Some (q\<lparr>pdu_mem := A, pdu_blk := Suc (pdu_blk q)\<rparr>)"
  using assms by (simp add: realloc_pdu_def)

lemma setToken_shrink:
  assumes rep: "pdu_rep p m" and pl: "cm_payload m = []" and t: "0 < length t" "length t \<le> 8"
    and src: "src_bytes (Some src) (int (length t)) = Inr t"
    and shrink: "length t < length (cm_token m)"
    and small: "length (encode m) < 256"
    and space: "has_space h p (int (length (encode (m\<lparr>cm_token := t\<rparr>))))"
  shows "\<exists>p'. setToken h (Some src) (of_nat (length t)) p = Inr (0, p')
    \<and> pdu_rep p' (m\<lparr>cm_token := t\<rparr>)"
proof -
  define T where "T = enc_opts 0 (cm_opts m)"
  obtain slack where parts: "pdu_mem p = enc_head m @ cm_token m @ T @ slack"
    "pduLength p = 4 + int (length (cm_token m)) + int (length T)"
    "getTokenLength p = Inr (int (length (cm_token m)))"
    unfolding T_def by (rule rep_parts [OF rep pl])
  have enc: "encode m = enc_head m @ cm_token m @ T"
    "encode (m\<lparr>cm_token := t\<rparr>) = enc_head (m\<lparr>cm_token := t\<rparr>) @ t @ T"
    using pl by (simp_all add: encode_no_payload T_def)
  have wf: "wf_msg m" using rep by (simp add: pdu_rep_def)
  define new where "new = int (length (encode (m\<lparr>cm_token := t\<rparr>)))"
  have new: "new = 4 + int (length t) + int (length T)" by (simp add: new_def enc)
  define A where "A = take (length t) (cm_token m)"
  define G where "G = drop (length t) (cm_token m)"
  have AG: "cm_token m = A @ G" "length A = length t" using shrink by (simp_all add: A_def G_def)
  define p0 where "p0 = p\<lparr>pduLength := new\<rparr>"
  have w: "setps p0 4 t = Inr (p0\<lparr>pdu_mem := (enc_head m @ t) @ G @ T @ slack\<rparr>)"
    using setps_at [of p0 "enc_head m" A "G @ T @ slack" 4 t] parts(1) AG by (simp add: p0_def)
  obtain H where H: "length H = length G"
    "shiftDown_loop ((enc_head m @ t) @ G @ T @ slack) (int (length (enc_head m @ t)))
       (int (length (enc_head m @ t) + length G)) (int (length T)) = Inr ((enc_head m @ t) @ T @ H @ slack)"
    using shiftDown_gap [of G "enc_head m @ t" T slack] by (elim exE conjE) (rule that)
  define p2 where "p2 = p0\<lparr>pdu_mem := (enc_head m @ t) @ T @ H @ slack\<rparr>"
  have off: "pduLength p - new = int (length G)" using AG parts(2) new by simp
  have am: "pduLength p - int (length (cm_token m)) - 4 = int (length T)" using parts(2) by simp
  have down: "shiftPDUDown (4 + int (length t)) (int (length G)) (int (length T))
      (p0\<lparr>pdu_mem := (enc_head m @ t) @ G @ T @ slack\<rparr>) = Inr p2"
    using H(2) by (simp add: shiftPDUDown_def p2_def algebra_simps)
  have tok: "length (cm_token m) \<le> 8" using wf by (simp add: wf_msg_def)
  have nums: "0 < length t" "length (cm_token m) \<noteq> length t" "0 \<le> pduLength p" "pduLength p < 256"
    "new = pduLength p - int (length (cm_token m)) + int (length t)"
    using shrink t parts(2) small new by (auto simp: enc)
  note unfold_set = setToken_unfold [OF parts(3) tok nums(1) t(2) nums(2-4) src nums(5), of h]
  have stl: "setTokenLength (of_nat (length t)) q
      = Inr (0, q\<lparr>pdu_mem := encode (m\<lparr>cm_token := t\<rparr>) @ Z\<rparr>)"
    if "pdu_mem q = (enc_head m @ t) @ T @ Z" for q Z
    using setTokenLength_rep [OF wf, of q _ "length t"] that t(2)
    by (simp add: enc enc_head_eq)
  have tests: "\<not> length (cm_token m) < length t" using shrink by simp
  note go = setToken_unfold [OF parts(3) tok nums(1) t(2) nums(2-4) src nums(5), of h,
      folded p0_def, unfolded off am w down rbind_simps if_not_P [OF tests]]
  show ?thesis
  proof (cases "constructedFromBuffer p")
    case True
    have "setToken h (Some src) (of_nat (length t)) p
        = Inr (0, p2\<lparr>pdu_mem := encode (m\<lparr>cm_token := t\<rparr>) @ H @ slack\<rparr>)"
      unfolding go using True by (simp add: stl p2_def p0_def)
    moreover have "pdu_rep (p2\<lparr>pdu_mem := encode (m\<lparr>cm_token := t\<rparr>) @ H @ slack\<rparr>)
        (m\<lparr>cm_token := t\<rparr>)"
      by (rule rep_set_token [OF rep pl t(2), where slack = "H @ slack"])
         (use rep H(1) AG parts(1) new_def in \<open>simp_all add: p2_def p0_def enc pdu_rep_def\<close>)
    ultimately show ?thesis by blast
  next
    case False
    define p3 where "p3 = p2\<lparr>pdu_mem := (enc_head m @ t) @ T, pdu_blk := Suc (pdu_blk p2)\<rparr>"
    have "realloc_pdu h p2 new = Some p3"
      unfolding p3_def
      by (rule realloc_shrink [where B = "H @ slack"])
         (use space False in \<open>simp_all add: has_space_def p2_def p0_def new_def enc\<close>)
    then have "setToken h (Some src) (of_nat (length t)) p
        = Inr (0, p3\<lparr>bufferLength := new, pdu_mem := encode (m\<lparr>cm_token := t\<rparr>)\<rparr>)"
      unfolding go using False stl [of "p3\<lparr>bufferLength := new\<rparr>" "[]"]
      by (simp add: p3_def p2_def p0_def)
    moreover have "pdu_rep (p3\<lparr>bufferLength := new, pdu_mem := encode (m\<lparr>cm_token := t\<rparr>)\<rparr>)
        (m\<lparr>cm_token := t\<rparr>)"
      by (rule rep_set_token [OF rep pl t(2), where slack = "[]"])
         (simp_all add: p3_def p2_def p0_def new_def)
    ultimately show ?thesis by blast
  qed
qed

section \<open>setPayload\<close>

lemma wf_msg_payload [simp]: "wf_msg (m\<lparr>cm_payload := d\<rparr>) = wf_msg m"
  by (simp add: wf_msg_def)

lemma encode_set_payload:
  "cm_payload m = [] \<Longrightarrow> d \<noteq> [] \<Longrightarrow> encode (m\<lparr>cm_payload := d\<rparr>) = encode m @ 0xFF # d"
  by (simp add: encode_def enc_payload_def enc_head_def)

lemma setPayload_rep:
  assumes rep: "pdu_rep p m" and pl: "cm_payload m = []" and d: "d \<noteq> []"
    and src: "src_bytes (Some src) (int (length d)) = Inr d"
    and space: "has_space h p (int (length (encode (m\<lparr>cm_payload := d\<rparr>))))"
  shows "\<exists>p'. setPayload h (Some src) (int (length d)) p = Inr (0, p')
    \<and> pdu_rep p' (m\<lparr>cm_payload := d\<rparr>)"
proof -
  obtain slack where mem: "pdu_mem p = encode m @ slack" using rep_mem [OF rep] by blast
  have len: "pduLength p = int (length (encode m))" "payloadLength p = 0" "payloadPointer p = None"
    "bufferLength p = int (length (pdu_mem p))"
    using rep pl by (simp_all add: pdu_rep_def)
  note enc = encode_set_payload [OF pl d]
  define new where "new = pduLength p + int (length d) + 1"
  have "has_space h p new" using space by (simp add: enc new_def len(1) algebra_simps)
  moreover have "int (length (encode m)) \<le> new" by (simp add: new_def len(1))
  ultimately obtain S b where S: "ensure_space h p new
      = Some (p\<lparr>pdu_mem := encode m @ S, pdu_blk := b, bufferLength := int (length (encode m @ S))\<rparr>)"
    "new \<le> int (length (encode m @ S))"
    by (rule ensure_space_Some [OF _ mem len(4)])
  define p1 where "p1 = p\<lparr>pdu_mem := encode m @ S, pdu_blk := b,
    bufferLength := int (length (encode m @ S))\<rparr>"
  obtain y ys where y: "S = y # ys" using S(2) by (cases S) (auto simp: new_def len(1))
  define Z where "Z = drop (length d) ys"
  define D where "D = take (length d) ys"
  have DZ: "ys = D @ Z" "length D = length d"
    using S(2) y by (simp_all add: D_def Z_def new_def len(1))
  have mk: "setp p1 (pduLength p) 0xFF = Inr (p1\<lparr>pdu_mem := encode m @ 0xFF # D @ Z\<rparr>)"
    using setp_at [of p1 "encode m" y ys] len(1) y DZ by (simp add: p1_def)
  define ptr where "ptr = (b, pduLength p + 1)"
  define p2 where "p2 = p1\<lparr>pdu_mem := encode m @ 0xFF # D @ Z, payloadPointer := Some ptr,
    pduLength := new, payloadLength := int (length d)\<rparr>"
  have mp: "mallocPayload h (int (length d)) p = Inr (Some ptr, p2)"
    using S(1) mk d by (simp add: mallocPayload_def len p1_def p2_def ptr_def new_def Let_def)
  have "setps p2 (pduLength p + 1) d = Inr (p2\<lparr>pdu_mem := (encode m @ [0xFF]) @ d @ Z\<rparr>)"
    by (rule setps_at [where ys = D]) (use len(1) DZ in \<open>simp_all add: p2_def\<close>)
  then have "setPayload h (Some src) (int (length d)) p
      = Inr (0, p2\<lparr>pdu_mem := encode (m\<lparr>cm_payload := d\<rparr>) @ Z\<rparr>)"
    using mp src by (simp add: setPayload_def write_through_def ptr_def p2_def p1_def enc)
  moreover have "pdu_rep (p2\<lparr>pdu_mem := encode (m\<lparr>cm_payload := d\<rparr>) @ Z\<rparr>) (m\<lparr>cm_payload := d\<rparr>)"
    using rep d y DZ
    by (simp add: pdu_rep_def p2_def p1_def ptr_def enc new_def len(1))
  ultimately show ?thesis by blast
qed

end
