(* ===== verification/Coap_Parse.thy ===== *)
theory Coap_Parse
  imports Coap_Pdu_Edit
begin

text \<open>
  Parsing: \<open>validate\<close> and \<open>getOptions\<close> recover the message from its encoding, and
  what can be said of them on arbitrary bytes that came from the network: how far behind the
  PDU they may read, and that whatever \<open>validate\<close> accepts the option reader can walk.
\<close>

section \<open>One iteration of validate\<close>

definition opt_total :: "u16 \<Rightarrow> u16 \<Rightarrow> int" where
  "opt_total d l = 1 + computeExtraBytes d + computeExtraBytes l + uint l"

lemma opt_total_pos: "0 < opt_total d l"
  using computeExtraBytes_ge0 [of d] computeExtraBytes_ge0 [of l] uint_ge_0 [of l]
  unfolding opt_total_def by linarith

lemma opt_total_enc:
  "d < 65536 \<Longrightarrow> length v < 65536 \<Longrightarrow>
   opt_total (of_nat d) (of_nat (length v)) = int (length (enc_opt d v))"
  by (simp add: opt_total_def computeExtraBytes_of_nat length_enc_opt unsigned_of_nat
      take_bit_nat_eq_self)

definition nibbles_ok :: "byte \<Rightarrow> int \<Rightarrow> bool" where
  "nibbles_ok b remaining \<longleftrightarrow>
     drop_bit 4 (b AND 0xF0) \<noteq> 0x0F \<and> b AND 0x0F \<noteq> 0x0F \<and>
     computeExtraBytes (ucast (drop_bit 4 (b AND 0xF0))) \<le> remaining \<and>
     computeExtraBytes (ucast (drop_bit 4 (b AND 0xF0))) + computeExtraBytes (ucast (b AND 0x0F))
       \<le> remaining"

lemma validate_loop_end:
  "rem \<le> 0 \<Longrightarrow> validate_loop p pos rem num n
     = Inr (1, p\<lparr>payloadPointer := None, payloadLength := 0, numOptions := n\<rparr>)"
  by (subst validate_loop.simps) simp

lemma validate_loop_marker:
  "0 < rem \<Longrightarrow> getp p pos = Inr 0xFF \<Longrightarrow> validate_loop p pos rem num n =
     (if rem > 1
      then Inr (1, p\<lparr>payloadPointer := Some (pdu_blk p, pos + 1), payloadLength := rem - 1,
                     numOptions := n\<rparr>)
      else Inr (0, p\<lparr>payloadPointer := None, payloadLength := 0\<rparr>))"
  by (subst validate_loop.simps) simp

lemma validate_loop_reject:
  "0 < rem \<Longrightarrow> getp p pos = Inr b \<Longrightarrow> b \<noteq> 0xFF \<Longrightarrow> \<not> nibbles_ok b (rem - 1) \<Longrightarrow>
   validate_loop p pos rem num n = Inr (0, p)"
  by (subst validate_loop.simps) (auto simp: nibbles_ok_def Let_def)

lemma validate_loop_option:
  "0 < rem \<Longrightarrow> getp p pos = Inr b \<Longrightarrow> b \<noteq> 0xFF \<Longrightarrow> nibbles_ok b (rem - 1) \<Longrightarrow>
   validate_loop p pos rem num n =
     rbind (getOptionDelta (pdu_mem p) pos) (\<lambda>d.
     rbind (getOptionValueLength (pdu_mem p) pos) (\<lambda>l.
       if pos + opt_total d l > pduLength p then Inr (0, p)
       else validate_loop p (pos + opt_total d l) (rem - opt_total d l) (num + d) (n + 1)))"
  by (subst validate_loop.simps) (simp add: nibbles_ok_def opt_total_def Let_def algebra_simps cong: if_cong)

section \<open>Parsing an encoding\<close>

lemma extra_of_nibble: "computeExtraBytes (ucast (of_nat (nib n) :: byte)) \<le> int (length (ext n))"
proof -
  have "computeExtraBytes (of_nat (nib n)) = int (length (ext (nib n)))"
    by (rule computeExtraBytes_of_nat) (use nib_less [of n] in simp)
  moreover have "length (ext (nib n)) \<le> length (ext n)" by (simp add: length_ext nib_def)
  ultimately show ?thesis unfolding u16_nib by linarith
qed

lemma nibbles_ok_hdr:
  "int (length (ext d)) + int (length (ext l)) \<le> remaining \<Longrightarrow> nibbles_ok (hdr d l) remaining"
  using extra_of_nibble [of d] extra_of_nibble [of l] nib_word_not_15 [of d] nib_word_not_15 [of l]
    computeExtraBytes_ge0 [of "ucast (of_nat (nib l) :: byte)"]
  unfolding nibbles_ok_def hdr_upper hdr_lower by auto

lemma validate_loop_enc:
  assumes "pdu_mem p = A @ enc_opts c os @ enc_payload pl @ slack" "pos = int (length A)"
    "rem = int (length (enc_opts c os @ enc_payload pl))" "pduLength p = pos + rem"
    "wf_opts c os" "c < 65536"
  shows "validate_loop p pos rem (of_nat c) n
    = Inr (1, p\<lparr>payloadPointer := (if pl = [] then None
                    else Some (pdu_blk p, pduLength p - int (length pl))),
               payloadLength := int (length pl), numOptions := n + int (length os)\<rparr>)"
  using assms
proof (induction c os arbitrary: A pos rem n rule: wf_opts.induct)
  case (1 c)
  show ?case
  proof (cases "pl = []")
    case True
    with 1 show ?thesis by (simp add: validate_loop_end enc_payload_def)
  next
    case False
    with 1 have "getp p pos = Inr 0xFF"
      using getp_at [of p A "0xFF" "pl @ slack" pos] by (simp add: enc_payload_def)
    with False 1 show ?thesis by (simp add: validate_loop_marker enc_payload_def)
  qed
next
  case (2 c k v os)
  let ?rest = "enc_opts k os @ enc_payload pl @ slack"
  have mem: "pdu_mem p = A @ (hdr (k - c) (length v) # ext (k - c) @ ext (length v) @ v @ ?rest)"
    using "2.prems"(1) by (simp add: enc_opt_def)
  have wf: "c \<le> k" "k < 65536" "length v < 65536" "wf_opts k os" using "2.prems"(5) by simp_all
  have b: "getp p pos = Inr (hdr (k - c) (length v))" by (rule getp_at [OF mem "2.prems"(2)])
  have d: "getOptionDelta (pdu_mem p) pos = Inr (of_nat (k - c))"
    unfolding mem by (rule getOptionDelta_enc) (use "2.prems"(2) wf in simp_all)
  have l: "getOptionValueLength (pdu_mem p) pos = Inr (of_nat (length v))"
    unfolding mem by (rule getOptionValueLength_enc) (use "2.prems"(2) wf in simp_all)
  have tot: "opt_total (of_nat (k - c)) (of_nat (length v)) = int (length (enc_opt (k - c) v))"
    by (rule opt_total_enc) (use wf in simp_all)
  have rem: "rem = int (length (enc_opt (k - c) v)) + int (length (enc_opts k os @ enc_payload pl))"
    using "2.prems"(3) by simp
  have cur: "of_nat c + of_nat (k - c) = (of_nat k :: u16)"
    using u16_of_nat_diff [of c k] wf(1) by (simp add: add.commute)
  have nok: "nibbles_ok (hdr (k - c) (length v)) (rem - 1)"
    by (rule nibbles_ok_hdr) (use rem in \<open>simp add: length_enc_opt\<close>)
  have pos: "0 < rem" using rem by (simp add: length_enc_opt)
  have fits: "\<not> pos + int (length (enc_opt (k - c) v)) > pduLength p" using rem "2.prems"(4) by simp
  have "validate_loop p (int (length (A @ enc_opt (k - c) v)))
      (int (length (enc_opts k os @ enc_payload pl))) (of_nat k) (n + 1)
    = Inr (1, p\<lparr>payloadPointer := (if pl = [] then None
                    else Some (pdu_blk p, pduLength p - int (length pl))),
               payloadLength := int (length pl), numOptions := n + 1 + int (length os)\<rparr>)"
    by (rule "2.IH" [where A = "A @ enc_opt (k - c) v"]) (use "2.prems" wf rem in simp_all)
  then show ?case
    unfolding validate_loop_option [OF pos b hdr_not_marker nok] d l rbind_simps tot if_not_P [OF fits] cur
    using rem "2.prems"(2) by (simp add: algebra_simps)
qed

text \<open>What a successfully parsed PDU of message \<open>m\<close> looks like.\<close>

definition parsed :: "pdu \<Rightarrow> coap_msg \<Rightarrow> bool" where
  "parsed q m \<longleftrightarrow> numOptions q = int (length (cm_opts m))
     \<and> payloadLength q = int (length (cm_payload m))
     \<and> payloadPointer q = (if cm_payload m = [] then None
          else Some (pdu_blk q, pduLength q - int (length (cm_payload m))))"

lemma validate_enc:
  assumes mem: "pdu_mem p = encode m @ slack" and len: "pduLength p = int (length (encode m))"
    and wf: "wf_msg m" and ver: "cm_version m = 1" and code: "code_is_valid (uint (cm_code m))"
    and ptr: "payloadPointer p = None"
  shows "\<exists>q. validate p = Inr (1, q) \<and> parsed q m
    \<and> pdu_mem q = pdu_mem p \<and> pduLength q = pduLength p"
proof -
  let ?A = "enc_head m @ cm_token m"
  have tok: "getTokenLength p = Inr (int (length (cm_token m)))"
    by (rule rep_getTokenLength [OF mem wf])
  have "getp p 0 = Inr (head0 (cm_version m) (cm_type m) (length (cm_token m)))"
    using mem by (simp add: getp_def encode_head rd_buf_Cons)
  then have v: "getVersion p = Inr 1"
    using head0_fields(1) [OF wf] unfolding getVersion_def ver by (simp only: rmap_simps)
  have c: "getCode p = Inr (uint (cm_code m))"
    using mem by (simp add: getCode_def getp_def encode_head rd_buf_Cons)
  have t8: "length (cm_token m) \<le> 8" using wf by (simp add: wf_msg_def)
  have mem': "pdu_mem p = ?A @ enc_opts 0 (cm_opts m) @ enc_payload (cm_payload m) @ slack"
    using mem by (simp add: encode_def)
  have len': "pduLength p = int (length ?A) + int (length (enc_opts 0 (cm_opts m) @ enc_payload (cm_payload m)))"
    using len by (simp add: encode_def)
  have loop: "validate_loop p (int (length ?A))
      (int (length (enc_opts 0 (cm_opts m) @ enc_payload (cm_payload m)))) (of_nat 0) 0
    = Inr (1, p\<lparr>payloadPointer := (if cm_payload m = [] then None
                    else Some (pdu_blk p, pduLength p - int (length (cm_payload m)))),
               payloadLength := int (length (cm_payload m)),
               numOptions := 0 + int (length (cm_opts m))\<rparr>)"
    by (rule validate_loop_enc [OF mem' refl refl len']) (use wf in \<open>simp_all add: wf_msg_def\<close>)
  have big: "\<not> pduLength p < 4" "\<not> 4 + int (length (cm_token m)) > pduLength p"
    using len' by simp_all
  show ?thesis
  proof (cases "4 + int (length (cm_token m)) = pduLength p")
    case True
    then have "cm_opts m = [] \<and> cm_payload m = []"
      using len' by (auto simp: enc_payload_def split: if_splits)
    with True show ?thesis using big t8 ptr
      by (simp add: validate_def v tok c code COAP_HDR_SIZE_def parsed_def Let_def)
  next
    case False
    have rem: "pduLength p - (4 + int (length (cm_token m)))
        = int (length (enc_opts 0 (cm_opts m) @ enc_payload (cm_payload m)))"
      using len' by simp
    have "validate p = validate_loop p (4 + int (length (cm_token m)))
        (pduLength p - (4 + int (length (cm_token m)))) 0 0"
      using False big t8 by (simp add: validate_def v tok c code COAP_HDR_SIZE_def Let_def)
    with loop show ?thesis unfolding rem by (simp add: parsed_def)
  qed
qed

section \<open>Reading the options of an encoding\<close>

definition opt_reads :: "pdu \<Rightarrow> coap_option \<Rightarrow> nat \<times> byte list \<Rightarrow> bool" where
  "opt_reads p opt x \<longleftrightarrow> unat (o_number opt) = fst x
     \<and> rd_bytes (pdu_mem p) (o_val opt) (unat (o_vlen opt)) = Inr (snd x)"

lemma getOptions_loop_enc:
  assumes "pdu_mem p = A @ enc_opts c os @ rest" "pos = int (length A)" "wf_opts c os" "c < 65536"
  shows "\<exists>opts. getOptions_loop p pos (of_nat c) (length os) = Inr opts \<and> list_all2 (opt_reads p) opts os"
  using assms
proof (induction c os arbitrary: A pos rule: wf_opts.induct)
  case (1 c)
  then show ?case by simp
next
  case (2 c k v os)
  let ?rest = "enc_opts k os @ rest"
  have mem: "pdu_mem p = A @ (hdr (k - c) (length v) # ext (k - c) @ ext (length v) @ v @ ?rest)"
    using "2.prems"(1) by (simp add: enc_opt_def)
  have wf: "c \<le> k" "k < 65536" "length v < 65536" "wf_opts k os" using "2.prems"(3) by simp_all
  have d: "getOptionDelta (pdu_mem p) pos = Inr (of_nat (k - c))"
    unfolding mem by (rule getOptionDelta_enc) (use "2.prems"(2) wf in simp_all)
  have l: "getOptionValueLength (pdu_mem p) pos = Inr (of_nat (length v))"
    unfolding mem by (rule getOptionValueLength_enc) (use "2.prems"(2) wf in simp_all)
  have tot: "1 + computeExtraBytes (of_nat (k - c)) + computeExtraBytes (of_nat (length v))
      + uint (of_nat (length v) :: u16) = int (length (enc_opt (k - c) v))"
    using opt_total_enc [of "k - c" v] wf by (simp add: opt_total_def)
  have cur: "of_nat c + of_nat (k - c) = (of_nat k :: u16)"
    using u16_of_nat_diff [of c k] wf(1) by (simp add: add.commute)
  have vl: "uint (of_nat (length v) :: u16) = int (length v)" "unat (of_nat (length v) :: u16) = length v"
    using wf(3) by (simp_all add: unsigned_of_nat take_bit_nat_eq_self)
  define opt where "opt = \<lparr>o_delta = of_nat (k - c), o_number = of_nat k, o_vlen = of_nat (length v),
    o_total = int (length (enc_opt (k - c) v)), o_ptr = pos,
    o_val = pos + int (length (enc_opt (k - c) v)) - int (length v)\<rparr>"
  have next_pos: "pos + int (length (enc_opt (k - c) v)) = int (length (A @ enc_opt (k - c) v))"
    using "2.prems"(2) by simp
  have "\<exists>opts. getOptions_loop p (int (length (A @ enc_opt (k - c) v))) (of_nat k) (length os) = Inr opts
      \<and> list_all2 (opt_reads p) opts os"
    by (rule "2.IH" [where A = "A @ enc_opt (k - c) v"]) (use "2.prems" wf in simp_all)
  then obtain opts where opts: "getOptions_loop p (int (length (A @ enc_opt (k - c) v))) (of_nat k)
      (length os) = Inr opts" "list_all2 (opt_reads p) opts os" by blast
  have "rd_bytes ((A @ hdr (k - c) (length v) # ext (k - c) @ ext (length v)) @ v @ ?rest)
      (pos + int (length (enc_opt (k - c) v)) - int (length v)) (length v) = Inr v"
    by (rule rd_bytes_append) (use "2.prems"(2) in \<open>simp_all add: length_enc_opt\<close>)
  then have "opt_reads p opt (k, v)"
    using wf(2,3) by (simp add: opt_reads_def opt_def vl mem unsigned_of_nat take_bit_nat_eq_self)
  moreover have "getOptions_loop p pos (of_nat c) (length ((k, v) # os)) = Inr (opt # opts)"
    unfolding length_Cons getOptions_loop.simps d l rbind_simps Let_def cur tot next_pos opts(1) rmap_simps
    unfolding opt_def vl by (simp add: "2.prems"(2))
  ultimately show ?case using opts(2) by blast
qed

lemma getOptions_enc:
  assumes "pdu_mem q = encode m @ slack" "wf_msg m" "parsed q m" "cm_opts m \<noteq> []"
  shows "\<exists>opts. getOptions True q = Inr (Some opts) \<and> list_all2 (opt_reads q) opts (cm_opts m)"
proof -
  have "pdu_mem q = (enc_head m @ cm_token m) @ enc_opts 0 (cm_opts m)
      @ enc_payload (cm_payload m) @ slack"
    using assms(1) by (simp add: encode_def)
  moreover have "wf_opts 0 (cm_opts m)" using assms(2) by (simp add: wf_msg_def)
  ultimately have "\<exists>opts. getOptions_loop q (int (length (enc_head m @ cm_token m))) (of_nat 0)
      (length (cm_opts m)) = Inr opts \<and> list_all2 (opt_reads q) opts (cm_opts m)"
    by (intro getOptions_loop_enc [OF _ refl]) simp_all
  then show ?thesis
    using assms rep_getTokenLength [OF assms(1,2)]
    by (simp add: getOptions_def parsed_def COAP_HDR_SIZE_def)
qed

section \<open>Arbitrary input\<close>

lemma is_ok_getOptionDelta:
  assumes "0 \<le> pos" "pos < int (length m)" "rd_buf m pos = Inr b"
    "computeExtraBytes (ucast (drop_bit 4 (b AND 0xF0))) = 0 \<or> pos + 2 < int (length m)"
  shows "is_ok (getOptionDelta m pos)"
proof -
  define delta where "delta = (ucast (drop_bit 4 (b AND 0xF0)) :: u16)"
  have "is_ok (rd_buf m (pos + 1))" "is_ok (rd_buf m (pos + 1 + 1))" if "\<not> delta < 13"
    using assms(1,4) that by (auto simp: is_ok_rd_buf computeExtraBytes_def delta_def split: if_splits)
  moreover have "getOptionDelta m pos =
     (if delta < 13 then Inr delta
      else if delta = 13 then rmap (\<lambda>b1. ucast b1 + 13) (rd_buf m (pos + 1))
      else if delta = 14 then rmap (\<lambda>v. v + 269) (endian_load16 m (pos + 1))
      else Inr delta)"
    unfolding getOptionDelta_def assms(3) rbind_simps Let_def delta_def ..
  ultimately show ?thesis by (auto simp: endian_load16_def is_ok_rbind is_ok_iff)
qed

definition ext_off :: "byte \<Rightarrow> int" where
  "ext_off b = (let d = (ucast (drop_bit 4 (b AND 0xF0)) :: u16)
                in if d = 13 then 2 else if d = 14 then 3 else 1)"

lemma is_ok_getOptionValueLength:
  assumes "0 \<le> pos" "rd_buf m pos = Inr b"
    "computeExtraBytes (ucast (b AND 0x0F)) = 0 \<or> pos + ext_off b + 1 < int (length m)"
  shows "is_ok (getOptionValueLength m pos)"
proof -
  define len where "len = (ucast (b AND 0x0F) :: u16)"
  have "1 \<le> ext_off b" by (simp add: ext_off_def Let_def)
  then have "is_ok (rd_buf m (pos + ext_off b))" "is_ok (rd_buf m (pos + ext_off b + 1))"
    if "\<not> len < 13"
    using assms(1,3) that by (auto simp: is_ok_rd_buf computeExtraBytes_def len_def split: if_splits)
  moreover have "getOptionValueLength m pos =
     (if len < 13 then Inr len
      else if len = 13 then rmap (\<lambda>b. ucast b + 13) (rd_buf m (pos + ext_off b))
      else rmap (\<lambda>v. v + 269) (endian_load16 m (pos + ext_off b)))"
    unfolding getOptionValueLength_def assms(2) rbind_simps Let_def len_def ext_off_def ..
  ultimately show ?thesis by (auto simp: endian_load16_def is_ok_rbind is_ok_iff)
qed

lemma ext_off_le: "ext_off b \<le> 1 + 2 * computeExtraBytes (ucast (drop_bit 4 (b AND 0xF0)))"
  by (auto simp: ext_off_def computeExtraBytes_def Let_def)

lemma nibble_extra: "computeExtraBytes (ucast (b AND 0x0F :: byte)) \<le> 1"
proof -
  have "unat (b AND 0x0F) \<le> 15" using word_and_le1 [of b "0x0F"] by (simp add: word_le_nat_alt)
  moreover have "unat (ucast (b AND 0x0F) :: u16) = unat (b AND 0x0F)"
    using unsigned_less [of "b AND 0x0F", where 'a = nat]
    by (simp add: unsigned_ucast_eq take_bit_nat_eq_self)
  ultimately have "(ucast (b AND 0x0F) :: u16) < 269" by (simp add: word_less_nat_alt)
  then show ?thesis by (simp add: computeExtraBytes_def)
qed

text \<open>
  One round of \<open>validate\<close> reads at most two bytes behind the PDU: the nibble 14 stands for
  two extra bytes, but \<open>computeExtraBytes\<close>, applied to the nibble itself, yields 1.
\<close>

lemma option_reads_ok:
  assumes "getp p pos = Inr b" "nibbles_ok b (rem - 1)" "0 \<le> pos"
    "pos + rem + 2 \<le> int (length (pdu_mem p))" "0 < rem"
  shows "is_ok (getOptionDelta (pdu_mem p) pos)" "is_ok (getOptionValueLength (pdu_mem p) pos)"
proof -
  let ?u = "computeExtraBytes (ucast (drop_bit 4 (b AND 0xF0)))"
  let ?l = "computeExtraBytes (ucast (b AND 0x0F))"
  have rd: "rd_buf (pdu_mem p) pos = Inr b" using assms(1) by (simp add: getp_def)
  have n: "?u \<le> rem - 1" "?u + ?l \<le> rem - 1"
    using assms(2) unfolding nibbles_ok_def by blast+
  note ge = computeExtraBytes_ge0 [of "ucast (drop_bit 4 (b AND 0xF0))"]
    computeExtraBytes_ge0 [of "ucast (b AND 0x0F)"]
  have "?u = 0 \<or> pos + 2 < int (length (pdu_mem p))" using n assms(4,5) ge by linarith
  moreover have "pos < int (length (pdu_mem p))" using assms(4,5) by linarith
  ultimately show "is_ok (getOptionDelta (pdu_mem p) pos)"
    by (intro is_ok_getOptionDelta [OF assms(3) _ rd])
  have u1: "?u \<le> 1"
  proof -
    have "drop_bit 4 (b AND 0xF0) AND 0x0F = drop_bit 4 (b AND 0xF0)"
      by (rule bit_word_eqI) (auto simp: bit_simps)
    then show ?thesis using nibble_extra [of "drop_bit 4 (b AND 0xF0)"] by (simp only:)
  qed
  have "?l = 0 \<or> pos + ext_off b + 1 < int (length (pdu_mem p))"
    using n assms(4,5) ge ext_off_le [of b] u1 by linarith
  then show "is_ok (getOptionValueLength (pdu_mem p) pos)"
    by (rule is_ok_getOptionValueLength [OF assms(3) rd])
qed

lemma is_ok_bindI: "is_ok m \<Longrightarrow> (\<And>x. m = Inr x \<Longrightarrow> is_ok (f x)) \<Longrightarrow> is_ok (rbind m f)"
  by (cases m) auto

lemma validate_loop_safe:
  "0 \<le> pos \<Longrightarrow> pos + rem = pduLength p \<Longrightarrow> pduLength p + 2 \<le> int (length (pdu_mem p)) \<Longrightarrow>
   is_ok (validate_loop p pos rem num n)"
proof (induction "nat rem" arbitrary: pos rem num n rule: less_induct)
  case less
  show ?case
  proof (cases "0 < rem")
    case False
    then show ?thesis by (simp add: validate_loop_end)
  next
    case True
    then have "is_ok (getp p pos)" using less.prems by (simp add: getp_def is_ok_rd_buf)
    then obtain b where b: "getp p pos = Inr b" by (auto simp: is_ok_iff)
    consider "b = 0xFF" | "b \<noteq> 0xFF" "\<not> nibbles_ok b (rem - 1)" | "b \<noteq> 0xFF" "nibbles_ok b (rem - 1)"
      by blast
    then show ?thesis
    proof cases
      case 1
      with True b show ?thesis by (simp add: validate_loop_marker)
    next
      case 2
      with True b show ?thesis by (simp add: validate_loop_reject)
    next
      case 3
      have "pos + rem + 2 \<le> int (length (pdu_mem p))" using less.prems by simp
      note reads = option_reads_ok [OF b 3(2) less.prems(1) this True]
      have step: "is_ok (validate_loop p (pos + opt_total d l) (rem - opt_total d l) (num + d) (n + 1))"
        for d l
        by (rule less.hyps) (use opt_total_pos [of d l] True less.prems in simp_all)
      show ?thesis
        unfolding validate_loop_option [OF True b 3]
        by (intro is_ok_bindI reads) (simp add: step)
    qed
  qed
qed

lemma validate_safe:
  assumes "pduLength p + 2 \<le> int (length (pdu_mem p))"
  shows "is_ok (validate p)"
proof (cases "pduLength p < 4")
  case False
  then have len: "4 < int (length (pdu_mem p))" using assms by simp
  have "is_ok (getp p 0)" "is_ok (getp p 1)" using len by (auto simp: getp_def is_ok_rd_buf)
  then have hd: "is_ok (getVersion p)" "is_ok (getTokenLength p)" "is_ok (getCode p)"
    by (simp_all add: getVersion_def getTokenLength_def getCode_def)
  have loop: "is_ok (validate_loop p (4 + t) (pduLength p - (4 + t)) 0 0)" if "0 \<le> t" for t
    by (rule validate_loop_safe) (use that assms in simp_all)
  show ?thesis using False
    by (auto simp: validate_def Let_def COAP_HDR_SIZE_def intro!: is_ok_bindI hd loop)
qed (simp add: validate_def)

text \<open>What an accepted PDU guarantees to the readers that follow.\<close>

definition opt_in_bounds :: "pdu \<Rightarrow> int \<Rightarrow> coap_option \<Rightarrow> bool" where
  "opt_in_bounds p lo opt \<longleftrightarrow> lo \<le> o_ptr opt \<and> o_ptr opt < o_val opt
     \<and> o_val opt + uint (o_vlen opt) = o_ptr opt + o_total opt
     \<and> o_ptr opt + o_total opt \<le> pduLength p"

definition payload_in_bounds :: "pdu \<Rightarrow> bool" where
  "payload_in_bounds q \<longleftrightarrow> 0 \<le> payloadLength q
     \<and> (case payloadPointer q of None \<Rightarrow> payloadLength q = 0
        | Some (blk, off) \<Rightarrow> blk = pdu_blk q \<and> 4 \<le> off \<and> off + payloadLength q = pduLength q)"

lemma opt_in_bounds_mono: "opt_in_bounds p lo opt \<Longrightarrow> lo' \<le> lo \<Longrightarrow> opt_in_bounds p lo' opt"
  by (auto simp: opt_in_bounds_def)

lemma validate_loop_accepts:
  "4 \<le> pos \<Longrightarrow> pos + rem = pduLength p \<Longrightarrow> validate_loop p pos rem num n = Inr (1, q) \<Longrightarrow>
   \<exists>os. getOptions_loop p pos num (length os) = Inr os \<and> numOptions q = n + int (length os)
     \<and> list_all (opt_in_bounds p pos) os
     \<and> payload_in_bounds q \<and> pdu_mem q = pdu_mem p \<and> pduLength q = pduLength p"
proof (induction "nat rem" arbitrary: pos rem num n rule: less_induct)
  case less
  show ?case
  proof (cases "0 < rem")
    case False
    then show ?thesis using less.prems
      by (auto simp: validate_loop_end payload_in_bounds_def intro!: exI [of _ "[]"])
  next
    case True
    obtain b where b: "getp p pos = Inr b"
    proof (cases "getp p pos")
      case (Inl e)
      with less.prems(3) True have False by (subst (asm) validate_loop.simps) simp
      then show thesis ..
    qed (rule that)
    consider "b = 0xFF" | "b \<noteq> 0xFF" "\<not> nibbles_ok b (rem - 1)" | "b \<noteq> 0xFF" "nibbles_ok b (rem - 1)"
      by blast
    then show ?thesis
    proof cases
      case 1
      then show ?thesis using less.prems True b
        by (auto simp: validate_loop_marker payload_in_bounds_def intro!: exI [of _ "[]"] split: if_splits)
    next
      case 2
      then show ?thesis using less.prems(3) True b by (simp add: validate_loop_reject)
    next
      case 3
      obtain d l where dl: "getOptionDelta (pdu_mem p) pos = Inr d"
        "getOptionValueLength (pdu_mem p) pos = Inr l" "pos + opt_total d l \<le> pduLength p"
        "validate_loop p (pos + opt_total d l) (rem - opt_total d l) (num + d) (n + 1) = Inr (1, q)"
        using less.prems(3) unfolding validate_loop_option [OF True b 3]
        by (auto simp: rbind_eq_Inr split: if_splits)
      have "\<exists>os. getOptions_loop p (pos + opt_total d l) (num + d) (length os) = Inr os
        \<and> numOptions q = n + 1 + int (length os) \<and> list_all (opt_in_bounds p (pos + opt_total d l)) os
        \<and> payload_in_bounds q \<and> pdu_mem q = pdu_mem p \<and> pduLength q = pduLength p"
        by (rule less.hyps [OF _ _ _ dl(4)])
           (use opt_total_pos [of d l] True less.prems(1,2) in simp_all)
      then obtain os where os: "getOptions_loop p (pos + opt_total d l) (num + d) (length os) = Inr os"
        "numOptions q = n + 1 + int (length os)" "list_all (opt_in_bounds p (pos + opt_total d l)) os"
        "payload_in_bounds q" "pdu_mem q = pdu_mem p" "pduLength q = pduLength p" by blast
      define opt where "opt = \<lparr>o_delta = d, o_number = num + d, o_vlen = l, o_total = opt_total d l,
        o_ptr = pos, o_val = pos + opt_total d l - uint l\<rparr>"
      have "getOptions_loop p pos num (length (opt # os)) = Inr (opt # os)"
        using dl(1,2) os(1) by (simp add: opt_def opt_total_def Let_def algebra_simps)
      moreover have extra: "0 < 1 + (computeExtraBytes d + computeExtraBytes l)"
        using computeExtraBytes_ge0 [of d] computeExtraBytes_ge0 [of l] by linarith
      moreover have "opt_in_bounds p pos opt"
        using dl(3) extra by (simp add: opt_in_bounds_def opt_def opt_total_def)
      moreover have "list_all (opt_in_bounds p pos) os"
        using os(3) opt_total_pos [of d l] by (auto simp: list_all_iff intro: opt_in_bounds_mono)
      ultimately show ?thesis using os by (intro exI [of _ "opt # os"]) simp
    qed
  qed
qed

lemma validate_accepts:
  assumes "validate p = Inr (1, q)" "payloadPointer p = None"
  obtains t os where "getTokenLength p = Inr t" "0 \<le> t" "t \<le> 8"
    "getOptions_loop p (4 + t) 0 (length os) = Inr os" "numOptions q = int (length os)"
    "list_all (opt_in_bounds p (4 + t)) os" "payload_in_bounds q"
    "pdu_mem q = pdu_mem p" "pduLength q = pduLength p" "getVersion p = Inr 1"
proof -
  have c: "\<not> pduLength p < 4" using assms(1) by (auto simp: validate_def)
  obtain t code where t: "getTokenLength p = Inr t" "0 \<le> t" "t \<le> 8" "getVersion p = Inr 1"
    "4 + t \<le> pduLength p"
    "(if 4 + t = pduLength p then Inr (1, p\<lparr>numOptions := 0, payloadLength := 0\<rparr>)
      else validate_loop p (4 + t) (pduLength p - (4 + t)) 0 0) = Inr (1, q)"
    using assms(1) c
    by (auto simp: validate_def rbind_eq_Inr COAP_HDR_SIZE_def Let_def split: if_splits)
  show thesis
  proof (cases "4 + t = pduLength p")
    case True
    with t(6) have q: "q = p\<lparr>numOptions := 0, payloadLength := 0\<rparr>" by simp
    show thesis
      by (rule that [OF t(1-3), of "[]"]) (use q t(4) assms(2) in \<open>simp_all add: payload_in_bounds_def\<close>)
  next
    case False
    with t(6) have "validate_loop p (4 + t) (pduLength p - (4 + t)) 0 0 = Inr (1, q)" by simp
    from validate_loop_accepts [OF _ _ this] t(2)
    obtain os where "getOptions_loop p (4 + t) 0 (length os) = Inr os" "numOptions q = 0 + int (length os)"
      "list_all (opt_in_bounds p (4 + t)) os" "payload_in_bounds q"
      "pdu_mem q = pdu_mem p" "pduLength q = pduLength p" by auto
    then show thesis by (intro that [OF t(1-3)]) (simp_all add: t(4))
  qed
qed

lemma getOptions_loop_mem:
  "pdu_mem q = pdu_mem p \<Longrightarrow> getOptions_loop q pos num n = getOptions_loop p pos num n"
  by (induction n arbitrary: pos num) simp_all

section \<open>A message as the getters show it\<close>

definition decodes :: "pdu \<Rightarrow> coap_msg \<Rightarrow> bool" where
  "decodes q m \<longleftrightarrow>
     getVersion q = Inr (cm_version m) \<and> getType q = Inr (uint (cm_type m))
   \<and> getCode q = Inr (uint (cm_code m)) \<and> getMessageID q = Inr (cm_mid m)
   \<and> getTokenLength q = Inr (int (length (cm_token m)))
   \<and> rd_bytes (pdu_mem q) 4 (length (cm_token m)) = Inr (cm_token m)
   \<and> getNumOptions q = int (length (cm_opts m))
   \<and> (\<exists>r. getOptions True q = Inr r \<and>
        (case r of None \<Rightarrow> cm_opts m = [] | Some opts \<Rightarrow> list_all2 (opt_reads q) opts (cm_opts m)))
   \<and> getPayloadCopy True q = Inr (if cm_payload m = [] then None else Some (cm_payload m))"

lemma decodes_parsed:
  assumes mem: "pdu_mem q = encode m @ slack" and wf: "wf_msg m" and p: "parsed q m"
    and len: "pduLength q = int (length (encode m))"
  shows "decodes q m"
proof -
  let ?h = "head0 (cm_version m) (cm_type m) (length (cm_token m))"
  have h: "getp q 0 = Inr ?h" using mem by (simp add: getp_def encode_head rd_buf_Cons)
  have v: "getVersion q = Inr (cm_version m)" "getType q = Inr (uint (cm_type m))"
    using head0_fields [OF wf] h unfolding getVersion_def getType_def by (simp_all only: rmap_simps)
  have c: "getCode q = Inr (uint (cm_code m))"
    using mem by (simp add: getCode_def getp_def encode_head rd_buf_Cons)
  have "endian_load16 ([?h, cm_code m] @ be16 (cm_mid m) @ cm_token m @ enc_opts 0 (cm_opts m)
      @ enc_payload (cm_payload m) @ slack) 2 = Inr (cm_mid m)"
    by (rule endian_load16_be16) simp
  then have i: "getMessageID q = Inr (cm_mid m)" using mem by (simp add: getMessageID_def encode_head)
  have t: "rd_bytes (pdu_mem q) 4 (length (cm_token m)) = Inr (cm_token m)"
    using rd_bytes_append [of 4 "enc_head m" "length (cm_token m)" "cm_token m"] mem
    by (simp add: encode_def)
  have o: "\<exists>r. getOptions True q = Inr r \<and>
      (case r of None \<Rightarrow> cm_opts m = [] | Some opts \<Rightarrow> list_all2 (opt_reads q) opts (cm_opts m))"
  proof (cases "cm_opts m = []")
    case True
    with p show ?thesis by (auto simp: getOptions_def parsed_def intro!: exI [of _ None])
  next
    case False
    with getOptions_enc [OF mem wf p] show ?thesis by auto
  qed
  have y: "getPayloadCopy True q = Inr (if cm_payload m = [] then None else Some (cm_payload m))"
  proof (cases "cm_payload m = []")
    case False
    have "pdu_mem q = (enc_head m @ cm_token m @ enc_opts 0 (cm_opts m) @ [0xFF]) @ cm_payload m @ slack"
      using mem False by (simp add: encode_def enc_payload_def)
    then have "rd_bytes (pdu_mem q) (int (length (encode m)) - int (length (cm_payload m)))
        (length (cm_payload m)) = Inr (cm_payload m)"
      using False by (simp only:) (rule rd_bytes_append, simp_all add: encode_def enc_payload_def)
    with False p len show ?thesis by (simp add: getPayloadCopy_def parsed_def read_through_def)
  qed (use p in \<open>simp add: getPayloadCopy_def parsed_def\<close>)
  show ?thesis
    using v c i t o y p rep_getTokenLength [OF mem wf]
    by (simp add: decodes_def getNumOptions_def parsed_def)
qed

lemma encode_nonempty [simp]: "encode m \<noteq> []"
  by (simp add: encode_def enc_head_def)

lemma parse_encode:
  assumes "wf_msg m" "cm_version m = 1" "code_is_valid (uint (cm_code m))"
  shows "\<exists>p q. new_CoapPDU_buffer (encode m @ slack) n (int (length (encode m))) = Inr p
    \<and> validate p = Inr (1, q) \<and> decodes q m \<and> getPDULength q = int (length (encode m))"
proof -
  define p where "p = \<lparr>pdu_mem = encode m @ slack, pdu_blk = 0, pduLength = int (length (encode m)),
    constructedFromBuffer = True, bufferLength = n, payloadPointer = None, payloadLength = 0,
    numOptions = 0, maxAddedOptionNumber = 0\<rparr>"
  have new: "new_CoapPDU_buffer (encode m @ slack) n (int (length (encode m))) = Inr p"
    by (simp add: new_CoapPDU_buffer_def p_def)
  have "\<exists>q. validate p = Inr (1, q) \<and> parsed q m \<and> pdu_mem q = pdu_mem p \<and> pduLength q = pduLength p"
    by (rule validate_enc [OF _ _ assms, where slack = slack]) (simp_all add: p_def)
  then obtain q where q: "validate p = Inr (1, q)" "parsed q m" "pdu_mem q = encode m @ slack"
    "pduLength q = int (length (encode m))" by (auto simp: p_def)
  have "decodes q m" by (rule decodes_parsed [OF q(3) assms(1) q(2) q(4)])
  with new q(1,4) show ?thesis by (auto simp: getPDULength_def)
qed

end
