(* ===== verification/Coap_Uri.thy ===== *)
theory Coap_Uri
  imports Coap_Parse
begin

text \<open>
  URI handling of CoapPDU: \<open>setURI\<close> splits a URI into Uri-Path and Uri-Query options,
  \<open>getURI\<close> concatenates them again, \<open>addURIQuery\<close> and \<open>setContentFormat\<close> add one
  option.  A C string is the list of its bytes without the terminating zero.
\<close>

section \<open>Searching a C string\<close>

text \<open>\<open>strchr\<close> from a position: the index of the first occurrence, None for NULL.\<close>

fun strchr :: "byte list \<Rightarrow> nat \<Rightarrow> byte \<Rightarrow> nat option" where
  "strchr [] i c = None"
| "strchr (x # xs) 0 c = (if x = c then Some 0 else map_option Suc (strchr xs 0 c))"
| "strchr (x # xs) (Suc i) c = map_option Suc (strchr xs i c)"

lemma strchr_bounds: "strchr s i c = Some j \<Longrightarrow> i \<le> j \<and> j < length s \<and> s ! j = c"
  by (induction s i c arbitrary: j rule: strchr.induct) (auto split: if_splits)

lemma strchr_skip: "strchr (xs @ ys) (length xs) c = map_option (\<lambda>j. length xs + j) (strchr ys 0 c)"
  by (induction xs) (simp_all add: option.map_comp comp_def option.map_ident)

lemma strchr_none: "c \<notin> set xs \<Longrightarrow> strchr xs 0 c = None"
  by (induction xs) auto

lemma strchr_first: "c \<notin> set xs \<Longrightarrow> strchr (xs @ c # ys) 0 c = Some (length xs)"
  by (induction xs) auto

section \<open>setURI\<close>

abbreviation slash :: byte where "slash \<equiv> 0x2F"
abbreviation qmark :: byte where "qmark \<equiv> 0x3F"
abbreviation amp :: byte where "amp \<equiv> 0x26"

text \<open>One round of the loop: where the segment starts and ends, and whether the query
  stage begins behind it.\<close>

definition uri_segment :: "byte list \<Rightarrow> nat \<Rightarrow> byte \<Rightarrow> nat \<times> nat \<times> bool" where
  "uri_segment s startP splitChar =
     (let st = (if s ! startP = splitChar then startP + 1 else startP)
      in case strchr s st splitChar of
           Some e \<Rightarrow> (st, e, False)
         | None \<Rightarrow> (case strchr s st qmark of
             None \<Rightarrow> (st, length s, False)
           | Some e \<Rightarrow> (st, e, True)))"

lemma uri_segment_progress:
  "startP + 1 < length s \<Longrightarrow> uri_segment s startP c = (st, e, qq) \<Longrightarrow>
   startP < (if qq then e + 1 else e) \<and> st \<le> e \<and> e \<le> length s"
  by (auto simp: uri_segment_def Let_def split: option.splits if_splits
      dest!: strchr_bounds intro: le_neq_implies_less)

function setURI_loop :: "heap_env \<Rightarrow> byte list \<Rightarrow> nat \<Rightarrow> byte \<Rightarrow> u16 \<Rightarrow> pdu \<Rightarrow> (int \<times> pdu) res" where
  "setURI_loop h s startP splitChar optionType p =
     (if startP \<ge> length s \<or> startP + 1 \<ge> length s then Inr (0, p)
      else case uri_segment s startP splitChar of (st, endP, queryStage) \<Rightarrow>
        (case addOption h optionType (of_nat (endP - st)) (Some (drop st s)) p of
           Inl e \<Rightarrow> Inl e
         | Inr (r, p') \<Rightarrow>
             if r \<noteq> 0 then Inr (1, p')
             else if queryStage
             then setURI_loop h s (endP + 1) amp (opt_num COAP_OPTION_URI_QUERY) p'
             else setURI_loop h s endP splitChar optionType p'))"
  by pat_completeness auto
termination
  by (relation "measure (\<lambda>(h, s, startP, c, t, p). length s - startP)")
     (auto dest!: uri_segment_progress [rotated, OF sym])

declare setURI_loop.simps [simp del]

text \<open>\<open>setURI(uri)\<close>, which passes \<open>strlen(uri)\<close>.  A one character URI is added as a
  path option whatever it is, and the result of that addOption is dropped.\<close>

definition setURI :: "heap_env \<Rightarrow> byte list option \<Rightarrow> pdu \<Rightarrow> (int \<times> pdu) res" where
  "setURI h uri p =
     (case uri of
        None \<Rightarrow> Inl NullDeref
      | Some s \<Rightarrow>
          if length s = 0 then Inr (1, p)
          else if length s = 1
          then rmap (\<lambda>(_, p'). (0, p')) (addOption h (opt_num COAP_OPTION_URI_PATH) 1 (Some s) p)
          else setURI_loop h s 0 slash (opt_num COAP_OPTION_URI_PATH) p)"

definition addURIQuery :: "heap_env \<Rightarrow> byte list option \<Rightarrow> pdu \<Rightarrow> (int \<times> pdu) res" where
  "addURIQuery h query p =
     (case query of
        None \<Rightarrow> Inl NullDeref
      | Some s \<Rightarrow> addOption h (opt_num COAP_OPTION_URI_QUERY) (of_nat (length s)) (Some s) p)"

definition setContentFormat :: "heap_env \<Rightarrow> int \<Rightarrow> pdu \<Rightarrow> (int \<times> pdu) res" where
  "setContentFormat h format p =
     (if format = 0
      then rmap (\<lambda>(r, q). (if r \<noteq> 0 then 1 else 0, q))
             (addOption h (opt_num COAP_OPTION_CONTENT_FORMAT) 0 None p)
      else rmap (\<lambda>(r, q). (if r \<noteq> 0 then 1 else 0, q))
             (addOption h (opt_num COAP_OPTION_CONTENT_FORMAT) 1
                (Some [word_of_int format]) p))"

section \<open>Adding a list of options\<close>

fun add_opts :: "heap_env \<Rightarrow> (u16 \<times> byte list) list \<Rightarrow> pdu \<Rightarrow> (int \<times> pdu) res" where
  "add_opts h [] p = Inr (0, p)"
| "add_opts h ((t, v) # os) p =
     rbind (addOption h t (of_nat (length v)) (Some v) p) (\<lambda>(r, p').
       if r \<noteq> 0 then Inr (1, p') else add_opts h os p')"

text \<open>Only the bytes of the value are read from the source pointer.\<close>

lemma src_bytes_prefix: "0 \<le> n \<Longrightarrow> n \<le> int (length v) \<Longrightarrow> src_bytes (Some (v @ w)) n = src_bytes (Some v) n"
  by (auto simp: src_bytes_def)

lemma insert_length_snd:
  "insert_length hs pos l p = Inr ((pos2, n), p2) \<Longrightarrow> n \<le> l"
  by (auto simp: insert_length_def rbind_eq_Inr word_le_nat_alt word_less_nat_alt unat_sub
      not_less split: if_splits)

lemma insertOption_prefix:
  assumes "length v < 65536"
  shows "insertOption i d (of_nat (length v)) (Some (v @ w)) p
    = insertOption i d (of_nat (length v)) (Some v) p"
proof -
  have "src_bytes (Some (v @ w)) (uint n) = src_bytes (Some v) (uint n)"
    if "insert_length i pos1 (of_nat (length v)) p1 = Inr ((pos2, n), p2)" for pos1 p1 pos2 n p2
  proof (rule src_bytes_prefix)
    show "uint n \<le> int (length v)"
      using insert_length_snd [OF that] assms by (simp add: word_le_def unsigned_of_nat take_bit_nat_eq_self)
  qed simp
  then show ?thesis
    unfolding insertOption_def by (intro rbind_cong refl) (auto intro!: rbind_cong)
qed

lemma addOption_prefix:
  "length v < 65536 \<Longrightarrow> addOption h t (of_nat (length v)) (Some (v @ w)) p
     = addOption h t (of_nat (length v)) (Some v) p"
  unfolding addOption_def by (simp only: insertOption_prefix)

section \<open>The URI syntax that setURI is meant for\<close>

definition seg_text :: "byte \<Rightarrow> byte list list \<Rightarrow> byte list" where
  "seg_text c xs = concat (map (Cons c) xs)"

definition uri_text :: "byte list list \<Rightarrow> byte list list \<Rightarrow> byte list" where
  "uri_text ps qs = seg_text slash ps @ (if qs = [] then [] else qmark # tl (seg_text amp qs))"

definition seg_ok :: "byte list \<Rightarrow> bool" where
  "seg_ok x \<longleftrightarrow> x \<noteq> [] \<and> slash \<notin> set x \<and> qmark \<notin> set x \<and> amp \<notin> set x \<and> length x < 65536"

lemma seg_text_simps [simp]:
  "seg_text c [] = []" "seg_text c (x # xs) = c # x @ seg_text c xs"
  by (simp_all add: seg_text_def)

lemma setURI_loop_step:
  assumes s: "s = pre @ x @ post" and st: "uri_segment s startP c = (length pre, length pre + length x, qq)"
    and bnd: "startP + 1 < length s" and len: "length x < 65536"
  shows "setURI_loop h s startP c t p =
    rbind (addOption h t (of_nat (length x)) (Some x) p) (\<lambda>(r, p').
      if r \<noteq> 0 then Inr (1, p')
      else if qq then setURI_loop h s (length pre + length x + 1) amp (opt_num COAP_OPTION_URI_QUERY) p'
      else setURI_loop h s (length pre + length x) c t p')"
proof -
  have "addOption h t (of_nat (length x)) (Some (drop (length pre) s)) p
      = addOption h t (of_nat (length x)) (Some x) p"
    using addOption_prefix [OF len, of h t post p] s by simp
  then show ?thesis using bnd st
    by (subst setURI_loop.simps) (simp add: rbind_def split: sum.split prod.split)
qed

lemma setURI_loop_stop: "length s \<le> startP + 1 \<Longrightarrow> setURI_loop h s startP c t p = Inr (0, p)"
  by (subst setURI_loop.simps) simp

lemma strchr_skip': "i = length xs \<Longrightarrow> strchr (xs @ ys) i c = map_option (\<lambda>j. i + j) (strchr ys 0 c)"
  by (simp add: strchr_skip)

text \<open>Segments behind a separator each, up to the end of the string or to a question mark.\<close>

lemma uri_segment_sep:
  assumes s: "s = pre @ c # x @ seg_text c xs @ tail" and x: "c \<notin> set x" "qmark \<notin> set x"
    and tail: "c \<notin> set tail" "tail = [] \<or> hd tail = qmark" and q: "c \<noteq> qmark"
  shows "uri_segment s (length pre) c
    = (length (pre @ [c]), length (pre @ [c]) + length x, xs = [] \<and> tail \<noteq> [])"
proof -
  have s1: "s = (pre @ [c]) @ x @ seg_text c xs @ tail" using s by simp
  have c1: "strchr s (Suc (length pre)) d = map_option (\<lambda>j. Suc (length pre) + j) (strchr (x @ seg_text c xs @ tail) 0 d)"
    for d unfolding s1 by (rule strchr_skip') simp
  have at0: "s ! length pre = c" by (simp add: s)
  have len: "length s = Suc (length pre) + length x + length (seg_text c xs @ tail)" by (simp add: s)
  have "strchr (x @ seg_text c xs @ tail) 0 c = (if xs = [] then None else Some (length x))"
    using x tail strchr_none [of c "x @ tail"] by (cases xs) (simp_all add: strchr_first)
  then have sc: "strchr s (Suc (length pre)) c = (if xs = [] then None else Some (Suc (length pre + length x)))"
    by (simp add: c1)
  have "strchr (x @ tail) 0 qmark = (if tail = [] then None else Some (length x))"
    using x tail by (cases tail) (simp_all add: strchr_none strchr_first)
  then have sq: "xs = [] \<Longrightarrow> strchr s (Suc (length pre)) qmark
      = (if tail = [] then None else Some (Suc (length pre + length x)))"
    by (simp add: c1)
  show ?thesis
    unfolding uri_segment_def at0 by (cases "xs = []"; cases "tail = []") (simp_all add: sc sq len Let_def)
qed

lemma setURI_loop_segs:
  assumes "s = pre @ seg_text c xs @ tail" "xs \<noteq> []"
    "\<forall>x \<in> set xs. x \<noteq> [] \<and> c \<notin> set x \<and> qmark \<notin> set x \<and> length x < 65536"
    "c \<notin> set tail" "tail = [] \<or> hd tail = qmark" "c \<noteq> qmark"
  shows "setURI_loop h s (length pre) c t p =
    rbind (add_opts h (map (Pair t) xs) p) (\<lambda>(r, p').
      if r \<noteq> 0 then Inr (1, p')
      else if tail = [] then Inr (0, p')
      else setURI_loop h s (length s - length tail + 1) amp (opt_num COAP_OPTION_URI_QUERY) p')"
  using assms
proof (induction xs arbitrary: pre p)
  case (Cons x xs)
  have s: "s = (pre @ [c]) @ x @ (seg_text c xs @ tail)" using Cons.prems(1) by simp
  have x: "x \<noteq> []" "c \<notin> set x" "qmark \<notin> set x" "length x < 65536" using Cons.prems(3) by simp_all
  have us: "uri_segment s (length pre) c
      = (length (pre @ [c]), length (pre @ [c]) + length x, xs = [] \<and> tail \<noteq> [])"
    by (rule uri_segment_sep [OF _ x(2,3) Cons.prems(4-6)]) (use s in simp)
  have bnd: "length pre + 1 < length s" using s x(1) by simp
  note step = setURI_loop_step [OF s us bnd x(4), of h t p]
  show ?case
  proof (cases "xs = []")
    case True
    have "setURI_loop h s (length (pre @ [c]) + length x) c t p' = Inr (0, p')" if "tail = []" for p'
      by (rule setURI_loop_stop) (use s True that in simp)
    moreover have "length (pre @ [c]) + length x + 1 = length s - length tail + 1"
      using s True by simp
    ultimately show ?thesis unfolding step using True
      by (auto simp: rbind_assoc intro!: rbind_cong)
  next
    case False
    have "setURI_loop h s (length ((pre @ [c]) @ x)) c t p' =
      rbind (add_opts h (map (Pair t) xs) p') (\<lambda>(r, p').
        if r \<noteq> 0 then Inr (1, p')
        else if tail = [] then Inr (0, p')
        else setURI_loop h s (length s - length tail + 1) amp (opt_num COAP_OPTION_URI_QUERY) p')" for p'
      by (rule Cons.IH) (use s False Cons.prems in simp_all)
    then show ?thesis unfolding step using False
      by (auto simp: rbind_assoc intro!: rbind_cong)
  qed
qed simp

lemma setURI_loop_query:
  assumes s: "s = pre @ q @ seg_text amp qs" and ok: "seg_ok q" "\<forall>x \<in> set qs. seg_ok x"
    and two: "length pre + 1 < length s"
  shows "setURI_loop h s (length pre) amp t p = add_opts h (map (Pair t) (q # qs)) p"
proof -
  have q: "q \<noteq> []" "amp \<notin> set q" "qmark \<notin> set q" "length q < 65536" using ok(1) by (simp_all add: seg_ok_def)
  have at0: "s ! length pre \<noteq> amp" using s q(1,2) by (cases q) (simp_all add: nth_append)
  have len: "length s = length pre + length q + length (seg_text amp qs)" by (simp add: s)
  have "strchr (q @ seg_text amp qs) 0 amp = (if qs = [] then None else Some (length q))"
    using q by (cases qs) (simp_all add: strchr_first strchr_none)
  then have sc: "strchr s (length pre) amp = (if qs = [] then None else Some (length pre + length q))"
    by (simp add: s strchr_skip)
  have sq: "qs = [] \<Longrightarrow> strchr s (length pre) qmark = None"
    using q by (simp add: s strchr_skip strchr_none)
  have us: "uri_segment s (length pre) amp = (length pre, length pre + length q, False)"
    unfolding uri_segment_def using at0 by (cases "qs = []") (simp_all add: sc sq len Let_def)
  note step = setURI_loop_step [OF s us two q(4), of h t p]
  have rest: "setURI_loop h s (length (pre @ q)) amp t p' = add_opts h (map (Pair t) qs) p'" for p'
  proof (cases "qs = []")
    case True
    then show ?thesis by (simp add: setURI_loop_stop s)
  next
    case False
    have "rbind (add_opts h (map (Pair t) qs) p') (\<lambda>(r, p'). if r \<noteq> 0 then Inr (1, p') else Inr (0, p'))
        = add_opts h (map (Pair t) qs) p'"
      by (induction qs arbitrary: p') (auto simp: rbind_assoc intro!: rbind_cong)
    moreover have "setURI_loop h s (length (pre @ q)) amp t p' =
      rbind (add_opts h (map (Pair t) qs) p') (\<lambda>(r, p').
        if r \<noteq> 0 then Inr (1, p') else if ([] :: byte list) = [] then Inr (0, p')
        else setURI_loop h s (length s - length ([] :: byte list) + 1) amp (opt_num COAP_OPTION_URI_QUERY) p')"
      by (rule setURI_loop_segs) (use s False ok(2) in \<open>simp_all add: seg_ok_def\<close>)
    ultimately show ?thesis by (simp cong: if_cong)
  qed
  then show ?thesis unfolding step by (simp cong: if_cong)
qed

lemma add_opts_append:
  "add_opts h (xs @ ys) p = rbind (add_opts h xs p) (\<lambda>(r, p'). if r \<noteq> 0 then Inr (1, p') else add_opts h ys p')"
  by (induction h xs p rule: add_opts.induct) (auto simp: rbind_assoc intro!: rbind_cong)

lemma setURI_splits:
  assumes "ps \<noteq> []" "\<forall>x \<in> set ps. seg_ok x" "\<forall>x \<in> set qs. seg_ok x"
    "\<forall>q. qs = [q] \<longrightarrow> 2 \<le> length q"
  shows "setURI h (Some (uri_text ps qs)) p
    = add_opts h (map (Pair (opt_num COAP_OPTION_URI_PATH)) ps
                  @ map (Pair (opt_num COAP_OPTION_URI_QUERY)) qs) p"
proof -
  define tail where "tail = (if qs = [] then [] else qmark # tl (seg_text amp qs))"
  define s where "s = uri_text ps qs"
  have s: "s = [] @ seg_text slash ps @ tail" by (simp add: s_def uri_text_def tail_def)
  have noslash: "slash \<notin> set (seg_text amp qs)" using assms(3) by (induction qs) (auto simp: seg_ok_def)
  then have t: "slash \<notin> set tail" "tail = [] \<or> hd tail = qmark"
    by (cases qs; auto simp: tail_def)+
  have two: "2 \<le> length s"
    using assms(1,2) s by (cases ps) (auto simp: seg_ok_def Suc_le_eq numeral_2_eq_2)
  have path: "setURI_loop h s (length ([] :: byte list)) slash (opt_num COAP_OPTION_URI_PATH) p =
    rbind (add_opts h (map (Pair (opt_num COAP_OPTION_URI_PATH)) ps) p) (\<lambda>(r, p').
      if r \<noteq> 0 then Inr (1, p')
      else if tail = [] then Inr (0, p')
      else setURI_loop h s (length s - length tail + 1) amp (opt_num COAP_OPTION_URI_QUERY) p')"
    by (rule setURI_loop_segs [OF s assms(1) _ t]) (use assms(2) in \<open>simp_all add: seg_ok_def\<close>)
  have query: "setURI_loop h s (length s - length tail + 1) amp (opt_num COAP_OPTION_URI_QUERY) p'
      = add_opts h (map (Pair (opt_num COAP_OPTION_URI_QUERY)) qs) p'" if qs: "qs \<noteq> []" for p'
  proof -
    obtain q qs' where q: "qs = q # qs'" using qs by (cases qs) auto
    have s2: "s = (seg_text slash ps @ [qmark]) @ q @ seg_text amp qs'" by (simp add: s tail_def q)
    have "length (seg_text slash ps @ [qmark]) + 1 < length s"
    proof (cases qs')
      case Nil
      then show ?thesis using assms(4) q s2 by simp
    next
      case (Cons y ys)
      have "q \<noteq> []" using assms(3) q by (simp add: seg_ok_def)
      then show ?thesis unfolding s2 Cons by (cases q) simp_all
    qed
    moreover have "length s - length tail + 1 = length (seg_text slash ps @ [qmark])" by (simp add: s)
    ultimately show ?thesis unfolding q using assms(3) q
      by (simp only:) (rule setURI_loop_query [OF s2], simp_all)
  qed
  have "setURI h (Some s) p = setURI_loop h s 0 slash (opt_num COAP_OPTION_URI_PATH) p"
    using two by (auto simp: setURI_def)
  moreover have "tail = [] \<longleftrightarrow> qs = []" by (simp add: tail_def)
  ultimately show ?thesis
    using path query by (auto simp: s_def add_opts_append rbind_def split: sum.split)
qed

section \<open>getURI\<close>

text \<open>
  The loop over the options.  \<open>pos\<close> is the write position \<open>dst\<close> as an offset into the
  caller's buffer.  The first component of the result is an early return: the return value
  and, where the code sets it, the new \<open>*outLen\<close>.
\<close>

fun getURI_loop :: "pdu \<Rightarrow> coap_option list \<Rightarrow> byte list \<Rightarrow> int \<Rightarrow> int \<Rightarrow> byte \<Rightarrow> bool \<Rightarrow>
    ((int \<times> int option) option \<times> byte list \<times> int \<times> int) res" where
  "getURI_loop p [] buf pos bytesLeft separator firstQuery = Inr (None, buf, pos, bytesLeft)"
| "getURI_loop p (opt # opts) buf pos bytesLeft separator firstQuery =
     (if o_number opt = opt_num COAP_OPTION_URI_PATH \<or> o_number opt = opt_num COAP_OPTION_URI_QUERY
      then
        let isq = (o_number opt = opt_num COAP_OPTION_URI_QUERY);
            oLen = uint (o_vlen opt);
            sep = (if isq then amp else separator);
            fq = (firstQuery \<and> \<not> isq)
        in rbind (if isq \<and> firstQuery then wr_buf buf (pos - 1) qmark else Inr buf) (\<lambda>buf1.
           if oLen > bytesLeft then Inr (Some (1, None), buf1, pos, bytesLeft)
           else rbind (if oLen = 1 then rmap (\<lambda>b. b = slash) (rd_buf (pdu_mem p) (o_val opt)) else Inr False)
             (\<lambda>single.
             if single
             then rmap (\<lambda>buf2. (Some (0, Some 1), buf2, pos, bytesLeft)) (wr_buf buf1 pos 0)
             else rbind (rd_bytes (pdu_mem p) (o_val opt) (nat oLen)) (\<lambda>v.
                  rbind (wr_bytes buf1 pos v) (\<lambda>buf2.
                  if bytesLeft - oLen \<ge> 1
                  then rbind (wr_buf buf2 (pos + oLen) sep) (\<lambda>buf3.
                       getURI_loop p opts buf3 (pos + oLen + 1) (bytesLeft - oLen - 1) sep fq)
                  else Inr (Some (1, None), buf2, pos + oLen, bytesLeft - oLen)))))
      else getURI_loop p opts buf pos bytesLeft separator firstQuery)"

text \<open>Result: the return value, \<open>*outLen\<close> (None if the pointer was NULL) and the buffer.\<close>

definition getURI :: "bool \<Rightarrow> byte list option \<Rightarrow> int \<Rightarrow> int option \<Rightarrow> pdu \<Rightarrow>
    (int \<times> int option \<times> byte list option) res" where
  "getURI ok dst dstlen outLen p =
     (case outLen of None \<Rightarrow> Inr (1, None, dst) | Some ol \<Rightarrow>
      (case dst of None \<Rightarrow> Inr (1, Some 0, None) | Some buf \<Rightarrow>
       if dstlen \<le> 0 then rmap (\<lambda>b. (1, Some 0, Some b)) (wr_buf buf 0 0)
       else if numOptions p = 0 then rmap (\<lambda>b. (0, Some 0, Some b)) (wr_buf buf 0 0)
       else rbind (getOptions ok p) (\<lambda>options.
         case options of None \<Rightarrow> rmap (\<lambda>b. (0, Some 0, Some b)) (wr_buf buf 0 0)
         | Some opts \<Rightarrow>
             if dstlen - 1 \<ge> 1
             then rbind (wr_buf buf 0 slash) (\<lambda>buf0.
                  rbind (getURI_loop p opts buf0 1 (dstlen - 2) slash True)
                    (\<lambda>(early, buf1, pos, bytesLeft).
                      case early of
                        Some (r, upd) \<Rightarrow> Inr (r, Some (case upd of None \<Rightarrow> ol | Some n \<Rightarrow> n), Some buf1)
                      | None \<Rightarrow> rmap (\<lambda>b. (0, Some (dstlen - 1 - (bytesLeft + 1)), Some b))
                                  (wr_buf buf1 (pos - 1) 0)))
             else Inr (1, Some ol, Some buf))))"

text \<open>One option copied behind what is already there.\<close>

definition uri_piece :: "pdu \<Rightarrow> coap_option \<Rightarrow> u16 \<Rightarrow> byte list \<Rightarrow> bool" where
  "uri_piece p opt t x \<longleftrightarrow> opt_reads p opt (unat t, x) \<and> length x = unat (o_vlen opt) \<and> x \<noteq> [slash]"

lemma uri_piece_read: "uri_piece p opt t x \<Longrightarrow> rd_bytes (pdu_mem p) (o_val opt) (length x) = Inr x"
  by (simp add: uri_piece_def opt_reads_def)

lemma uri_piece_number: "uri_piece p opt t x \<Longrightarrow> o_number opt = t"
  by (simp add: uri_piece_def opt_reads_def word_unat_eq_iff)

lemma uri_piece_len: "uri_piece p opt t x \<Longrightarrow> uint (o_vlen opt) = int (length x)"
  by (simp add: uri_piece_def)

lemma uri_piece_single:
  assumes "uri_piece p opt t x"
  shows "(if int (length x) = 1 then rmap (\<lambda>b. b = slash) (rd_buf (pdu_mem p) (o_val opt)) else Inr False)
    = Inr False"
proof (cases "length x = 1")
  case True
  then obtain y where x: "x = [y]" by (auto simp: length_Suc_conv)
  with uri_piece_read [OF assms] have "rd_buf (pdu_mem p) (o_val opt) = Inr y"
    by (cases "rd_buf (pdu_mem p) (o_val opt)") auto
  moreover have "y \<noteq> slash" using assms x by (simp add: uri_piece_def)
  ultimately show ?thesis by simp
qed simp

lemma wr_bytes_at:
  "i = int (length W) \<Longrightarrow> length x \<le> length R \<Longrightarrow>
   wr_bytes (W @ R) i x = Inr ((W @ x) @ drop (length x) R)"
  using wr_bytes_append [of i W "take (length x) R" x "drop (length x) R"] by simp

lemma wr_buf_at_drop:
  "i = int (length W) \<Longrightarrow> n < length R \<Longrightarrow>
   wr_buf (W @ drop n R) i c = Inr ((W @ [c]) @ drop (Suc n) R)"
  using wr_buf_at [of i W "R ! n" "drop (Suc n) R" c] by (simp add: Cons_nth_drop_Suc)

lemma getURI_loop_copy:
  assumes pc: "uri_piece p opt t x" and t: "t = opt_num COAP_OPTION_URI_PATH \<or> t = opt_num COAP_OPTION_URI_QUERY"
    and room: "length x + 1 \<le> left" "left \<le> length R"
    and sep: "sep' = (if t = opt_num COAP_OPTION_URI_QUERY then amp else sep)"
    and fq: "fq \<Longrightarrow> t = opt_num COAP_OPTION_URI_PATH"
  shows "getURI_loop p (opt # opts) (W @ R) (int (length W)) (int left) sep fq
    = getURI_loop p opts (((W @ x) @ [sep']) @ drop (length x + 1) R) (int (length ((W @ x) @ [sep'])))
        (int (left - length x - 1)) sep' fq"
proof -
  have q: "(fq \<and> t \<noteq> opt_num COAP_OPTION_URI_QUERY) = fq" "\<not> (t = opt_num COAP_OPTION_URI_QUERY \<and> fq)"
    using fq by auto
  have w1: "wr_bytes (W @ R) (int (length W)) x = Inr ((W @ x) @ drop (length x) R)"
    by (rule wr_bytes_at) (use room in simp_all)
  have w2: "wr_buf ((W @ x) @ drop (length x) R) (int (length W) + int (length x)) sep'
      = Inr (((W @ x) @ [sep']) @ drop (Suc (length x)) R)"
    by (rule wr_buf_at_drop) (use room in simp_all)
  have cmp: "\<not> int (length x) > int left" "int left - int (length x) \<ge> 1" using room by simp_all
  have ar: "int left - int (length x) - 1 = int (left - length x - 1)" using room by simp
  have ln: "int (length W) + int (length x) + 1 = int (length ((W @ x) @ [sep']))" by simp
  show ?thesis
    unfolding getURI_loop.simps uri_piece_number [OF pc] uri_piece_len [OF pc] Let_def if_P [OF t]
      q if_not_P [OF q(2)] rbind_simps if_not_P [OF cmp(1)] uri_piece_single [OF pc] if_False
      nat_int uri_piece_read [OF pc] w1 sep [symmetric] if_P [OF cmp(2)] w2 ar ln
    by simp
qed

definition sep_after :: "byte \<Rightarrow> byte list list \<Rightarrow> byte list" where
  "sep_after c xs = concat (map (\<lambda>x. x @ [c]) xs)"

lemma sep_after_simps [simp]:
  "sep_after c [] = []" "sep_after c (x # xs) = x @ c # sep_after c xs"
  by (simp_all add: sep_after_def)

lemma sep_after_text: "c # sep_after c xs = seg_text c xs @ [c]"
  by (induction xs) auto

lemma getURI_loop_run:
  assumes "list_all2 (\<lambda>opt x. uri_piece p opt t x) opts xs"
    "t = opt_num COAP_OPTION_URI_PATH \<or> t = opt_num COAP_OPTION_URI_QUERY \<and> sep = amp \<and> \<not> fq"
    "length (sep_after sep xs) \<le> left" "left \<le> length R"
  shows "getURI_loop p (opts @ rest) (W @ R) (int (length W)) (int left) sep fq
    = getURI_loop p rest ((W @ sep_after sep xs) @ drop (length (sep_after sep xs)) R)
        (int (length (W @ sep_after sep xs))) (int (left - length (sep_after sep xs))) sep fq"
  using assms
proof (induction opts xs arbitrary: W R left rule: list_all2_induct)
  case (Cons opt opts x xs)
  have "getURI_loop p (opt # (opts @ rest)) (W @ R) (int (length W)) (int left) sep fq
    = getURI_loop p (opts @ rest) (((W @ x) @ [sep]) @ drop (length x + 1) R)
        (int (length ((W @ x) @ [sep]))) (int (left - length x - 1)) sep fq"
    by (rule getURI_loop_copy [OF Cons.hyps(1)]) (use Cons.prems in auto)
  also have "\<dots> = getURI_loop p rest ((((W @ x) @ [sep]) @ sep_after sep xs)
        @ drop (length (sep_after sep xs)) (drop (length x + 1) R))
      (int (length (((W @ x) @ [sep]) @ sep_after sep xs)))
      (int (left - length x - 1 - length (sep_after sep xs))) sep fq"
    by (rule Cons.IH) (use Cons.prems in auto)
  finally show ?case by (simp add: add.commute)
qed simp

lemma getURI_loop_first_query:
  assumes "o_number opt = opt_num COAP_OPTION_URI_QUERY"
  shows "getURI_loop p (opt # opts) ((W @ [c]) @ R) (int (length (W @ [c]))) left sep True
    = getURI_loop p (opt # opts) ((W @ [qmark]) @ R) (int (length (W @ [qmark]))) left amp False"
proof -
  have "wr_buf ((W @ [c]) @ R) (int (length (W @ [c])) - 1) qmark = Inr ((W @ [qmark]) @ R)"
    using wr_buf_at [of "int (length W)" W c R qmark] by simp
  then show ?thesis using assms by (simp add: Let_def cong: rbind_cong if_cong)
qed

definition uri_opt :: "coap_option \<Rightarrow> bool" where
  "uri_opt opt \<longleftrightarrow> o_number opt = opt_num COAP_OPTION_URI_PATH \<or> o_number opt = opt_num COAP_OPTION_URI_QUERY"

lemma getURI_loop_filter:
  "getURI_loop p opts buf pos left sep fq = getURI_loop p (filter uri_opt opts) buf pos left sep fq"
proof (induction opts arbitrary: buf pos left sep fq)
  case (Cons opt opts)
  show ?case
  proof (cases "uri_opt opt")
    case True
    show ?thesis by (simp only: filter.simps True if_True getURI_loop.simps Cons.IH cong: if_cong)
  next
    case False
    then have "\<not> (o_number opt = opt_num COAP_OPTION_URI_PATH \<or> o_number opt = opt_num COAP_OPTION_URI_QUERY)"
      by (simp only: uri_opt_def) blast
    then show ?thesis
      by (simp only: filter.simps False if_False getURI_loop.simps Cons.IH)
  qed
qed simp

lemma getURI_loop_text:
  assumes ps: "list_all2 (\<lambda>opt x. uri_piece p opt (opt_num COAP_OPTION_URI_PATH) x) po ps"
    and qs: "list_all2 (\<lambda>opt x. uri_piece p opt (opt_num COAP_OPTION_URI_QUERY) x) qo qs"
    and room: "length (uri_text ps qs) \<le> left" "left \<le> length R"
  shows "\<exists>c. getURI_loop p (po @ qo) ([slash] @ R) 1 (int left) slash True
    = Inr (None, uri_text ps qs @ c # drop (length (uri_text ps qs)) R,
           int (length (uri_text ps qs)) + 1, int (left - length (uri_text ps qs)))"
proof -
  define A where "A = seg_text slash ps"
  have A: "[slash] @ sep_after slash ps = A @ [slash]" by (simp add: A_def sep_after_text)
  have lenA: "length (sep_after slash ps) = length A" using arg_cong [OF A, of length] by simp
  have Aleft: "length A \<le> left" using room by (simp add: uri_text_def A_def)
  have path: "getURI_loop p (po @ qo) ([slash] @ R) (int (length [slash])) (int left) slash True
    = getURI_loop p qo ((A @ [slash]) @ drop (length A) R) (int (length (A @ [slash])))
        (int (left - length A)) slash True"
    using getURI_loop_run [OF ps, of slash True left R qo "[slash]"] room(2) Aleft
    unfolding A lenA by simp
  show ?thesis
  proof (cases qs)
    case Nil
    then have "qo = []" using qs by simp
    with path Nil show ?thesis
      by (intro exI [of _ slash]) (simp add: uri_text_def A_def)
  next
    case (Cons q qs')
    then obtain o1 qo' where qo: "qo = o1 # qo'" using qs by (cases qo) auto
    then have num: "o_number o1 = opt_num COAP_OPTION_URI_QUERY"
      using qs Cons by (auto dest: uri_piece_number)
    define B where "B = tl (seg_text amp qs)"
    have B: "sep_after amp qs = B @ [amp]" using sep_after_text [of amp qs] Cons by (simp add: B_def)
    have tx: "uri_text ps qs = A @ qmark # B" using Cons by (simp add: uri_text_def A_def B_def)
    have "getURI_loop p (qo @ []) ((A @ [qmark]) @ drop (length A) R) (int (length (A @ [qmark])))
        (int (left - length A)) amp False
      = getURI_loop p [] (((A @ [qmark]) @ sep_after amp qs) @ drop (length (sep_after amp qs)) (drop (length A) R))
        (int (length ((A @ [qmark]) @ sep_after amp qs)))
        (int (left - length A - length (sep_after amp qs))) amp False"
      by (rule getURI_loop_run [OF qs]) (use room in \<open>auto simp: B tx\<close>)
    moreover have "getURI_loop p qo ((A @ [slash]) @ drop (length A) R) (int (length (A @ [slash])))
        (int (left - length A)) slash True
      = getURI_loop p qo ((A @ [qmark]) @ drop (length A) R) (int (length (A @ [qmark])))
        (int (left - length A)) amp False"
      unfolding qo by (rule getURI_loop_first_query [OF num])
    ultimately show ?thesis using path
      by (intro exI [of _ amp]) (simp add: B tx add.commute)
  qed
qed

lemma list_all2_filter_both:
  "list_all2 P xs ys \<Longrightarrow> (\<And>x y. P x y \<Longrightarrow> A x = B y) \<Longrightarrow> list_all2 P (filter A xs) (filter B ys)"
  by (induction xs ys rule: list_all2_induct) auto

text \<open>The Uri options of a message, in order, as the abstract message has them.\<close>

definition uri_opts_of :: "coap_msg \<Rightarrow> (nat \<times> byte list) list" where
  "uri_opts_of m = filter (\<lambda>x. fst x = 11 \<or> fst x = 15) (cm_opts m)"

lemma list_all2_mono_in_set:
  "list_all2 P xs ys \<Longrightarrow> (\<And>x y. P x y \<Longrightarrow> y \<in> set ys \<Longrightarrow> Q x y) \<Longrightarrow> list_all2 Q xs ys"
  by (auto simp: list_all2_conv_all_nth)

lemma uri_pieces:
  assumes "list_all2 (opt_reads p) opts (map (Pair (unat t)) xs)" "\<forall>x \<in> set xs. x \<noteq> [slash]"
  shows "list_all2 (\<lambda>opt x. uri_piece p opt t x) opts xs"
  using assms
  by (auto simp: list_all2_map2 uri_piece_def opt_reads_def dest: rd_bytes_length
      elim!: list_all2_mono_in_set)

lemma getURI_decodes:
  assumes dec: "decodes q m" and opts: "uri_opts_of m = map (Pair 11) ps @ map (Pair 15) qs"
    and ps: "ps \<noteq> []" "\<forall>x \<in> set ps. x \<noteq> [slash]" "\<forall>x \<in> set qs. x \<noteq> [slash]"
    and room: "length (uri_text ps qs) + 2 \<le> length buf"
  shows "\<exists>rest. getURI True (Some buf) (int (length buf)) (Some ol) q
    = Inr (0, Some (int (length (uri_text ps qs))), Some (uri_text ps qs @ 0 # rest))"
proof -
  have ne: "cm_opts m \<noteq> []" using opts ps(1) by (auto simp: uri_opts_of_def)
  then obtain os where os: "getOptions True q = Inr (Some os)" "list_all2 (opt_reads q) os (cm_opts m)"
    using dec by (auto simp: decodes_def split: option.splits)
  have num: "numOptions q \<noteq> 0" using dec ne by (simp add: decodes_def getNumOptions_def)
  have "list_all2 (opt_reads q) (filter uri_opt os) (uri_opts_of m)"
    unfolding uri_opts_of_def
    by (rule list_all2_filter_both [OF os(2)]) (auto simp: opt_reads_def uri_opt_def word_unat_eq_iff)
  then obtain po qo where po: "filter uri_opt os = po @ qo" "list_all2 (opt_reads q) po (map (Pair 11) ps)"
    "list_all2 (opt_reads q) qo (map (Pair 15) qs)"
    unfolding opts by (auto simp: list_all2_append2)
  have ps': "list_all2 (\<lambda>opt x. uri_piece q opt (opt_num COAP_OPTION_URI_PATH) x) po ps"
    by (rule uri_pieces) (use po ps in simp_all)
  have qs': "list_all2 (\<lambda>opt x. uri_piece q opt (opt_num COAP_OPTION_URI_QUERY) x) qo qs"
    by (rule uri_pieces) (use po ps in simp_all)
  obtain b R where buf: "buf = b # R" using room by (cases buf) auto
  have left: "length (uri_text ps qs) \<le> length R - 1" "length R - 1 \<le> length R"
    using room buf by simp_all
  obtain c where c: "getURI_loop q (po @ qo) ([slash] @ R) 1 (int (length R - 1)) slash True
    = Inr (None, uri_text ps qs @ c # drop (length (uri_text ps qs)) R,
           int (length (uri_text ps qs)) + 1, int (length R - 1 - length (uri_text ps qs)))"
    using getURI_loop_text [OF ps' qs' left] by blast
  have w0: "wr_buf buf 0 slash = Inr ([slash] @ R)" using buf by (simp add: wr_buf_Cons)
  have w1: "wr_buf (uri_text ps qs @ c # drop (length (uri_text ps qs)) R) (int (length (uri_text ps qs))) 0
      = Inr (uri_text ps qs @ 0 # drop (length (uri_text ps qs)) R)"
    by (rule wr_buf_at) simp
  have len: "int (length buf) - 2 = int (length R - 1)" using room buf by simp
  have d: "\<not> int (length buf) \<le> 0" "int (length buf) - 1 \<ge> 1"
    using room by (cases buf; simp)+
  have loop: "getURI_loop q os ([slash] @ R) 1 (int (length R - 1)) slash True
    = Inr (None, uri_text ps qs @ c # drop (length (uri_text ps qs)) R,
           int (length (uri_text ps qs)) + 1, int (length R - 1 - length (uri_text ps qs)))"
    using c po(1) by (subst getURI_loop_filter) simp
  have "getURI True (Some buf) (int (length buf)) (Some ol) q
    = Inr (0, Some (int (length buf) - 1 - (int (length R - 1 - length (uri_text ps qs)) + 1)),
           Some (uri_text ps qs @ 0 # drop (length (uri_text ps qs)) R))"
    unfolding getURI_def option.case if_not_P [OF d(1)] if_not_P [OF num] os(1) rbind_simps
      if_P [OF d(2)] w0 len loop prod.case
    by (simp add: w1)
  moreover have "int (length buf) - 1 - (int (length R - 1 - length (uri_text ps qs)) + 1)
      = int (length (uri_text ps qs))" using left room buf by simp
  ultimately show ?thesis by auto
qed

section \<open>Adding options when memory does not run out\<close>

definition no_limit :: "heap_env \<Rightarrow> bool" where
  "no_limit h \<longleftrightarrow> (\<forall>b n. 0 < n \<longrightarrow> ra_ok h b n)"

abbreviation add_all :: "(nat \<times> byte list) list \<Rightarrow> coap_msg \<Rightarrow> coap_msg" where
  "add_all os m \<equiv> fold (\<lambda>(t, v) m. add_to t v m) os m"

lemma src_bytes_all: "src_bytes (Some v) (int (length v)) = Inr v"
  by (simp add: src_bytes_def)

lemma setp_cfb: "setp p i v = Inr q \<Longrightarrow> constructedFromBuffer q = constructedFromBuffer p"
  by (auto simp: setp_def)

lemma setps_cfb: "setps p i v = Inr q \<Longrightarrow> constructedFromBuffer q = constructedFromBuffer p"
  by (auto simp: setps_def)

lemma ensure_space_cfb: "ensure_space h p n = Some q \<Longrightarrow> constructedFromBuffer q = constructedFromBuffer p"
  by (auto simp: ensure_space_def realloc_pdu_def split: if_splits)

lemma setOptionDelta_cfb: "setOptionDelta i d p = Inr q \<Longrightarrow> constructedFromBuffer q = constructedFromBuffer p"
  by (auto simp: setOptionDelta_def rbind_eq_Inr Let_def dest!: setp_cfb setps_cfb simp del: setp_eq split: if_splits)

lemma shiftPDUUp_cfb: "shiftPDUUp a b p = Inr q \<Longrightarrow> constructedFromBuffer q = constructedFromBuffer p"
  by (auto simp: shiftPDUUp_def Let_def)

lemma insertOption_cfb:
  "insertOption i d l v p = Inr (r, q) \<Longrightarrow> constructedFromBuffer q = constructedFromBuffer p"
  by (auto simp: insertOption_def insert_delta_def insert_length_def rbind_eq_Inr
      dest!: setp_cfb setps_cfb split: if_splits)

lemma addOption_cfb:
  assumes a: "addOption h n l v p = Inr (r, q)"
  shows "constructedFromBuffer q = constructedFromBuffer p"
proof -
  obtain pos prev where f: "findInsertionPosition n p = Inr (pos, prev)"
    using a by (cases "findInsertionPosition n p") (auto simp: addOption_def)
  show ?thesis
  proof (cases "pos = pduLength p")
    case True
    from a show ?thesis
      unfolding addOption_end_eq [OF f [unfolded True] refl refl]
      by (auto dest!: ensure_space_cfb insertOption_cfb split: option.splits)
  next
    case False
    then obtain d where d: "getOptionDelta (pdu_mem p) pos = Inr d"
      using a f by (cases "getOptionDelta (pdu_mem p) pos") (auto simp: addOption_def Let_def)
    from a show ?thesis
      unfolding addOption_middle_eq [OF f False d refl refl refl refl]
      by (auto simp: rbind_eq_Inr dest!: ensure_space_cfb shiftPDUUp_cfb setp_cfb
          setOptionDelta_cfb insertOption_cfb split: option.splits)
  qed
qed

lemma add_opts_rep:
  assumes "no_limit h" "pdu_rep p m" "cm_payload m = []" "\<not> constructedFromBuffer p"
    "\<forall>(t, v) \<in> set os. t < 65536 \<and> length v < 269"
  shows "\<exists>p'. add_opts h (map (\<lambda>(t, v). (of_nat t, v)) os) p = Inr (0, p')
    \<and> pdu_rep p' (add_all os m) \<and> \<not> constructedFromBuffer p'"
  using assms
proof (induction os arbitrary: p m)
  case (Cons x os)
  obtain t v where x: "x = (t, v)" by (cases x)
  have tv: "t < 65536" "length v < 269" using Cons.prems(5) x by simp_all
  have "has_space h p (int (length (encode (add_to t v m))))"
    using Cons.prems(1,4) by (simp add: has_space_def no_limit_def)
  then obtain p1 where p1: "addOption h (of_nat t) (of_nat (length v)) (Some v) p = Inr (0, p1)"
    "pdu_rep p1 (add_to t v m)"
    using addOption_ok [OF Cons.prems(2,3) tv src_bytes_all] by blast
  have "\<exists>p'. add_opts h (map (\<lambda>(t, v). (of_nat t, v)) os) p1 = Inr (0, p')
    \<and> pdu_rep p' (add_all os (add_to t v m)) \<and> \<not> constructedFromBuffer p'"
    by (rule Cons.IH) (use Cons.prems p1 addOption_cfb [OF p1(1)] in simp_all)
  then show ?case using p1(1) x by simp
qed simp

end
