(* ===== verification/C_Library.thy ===== *)
theory C_Library
  imports Mbtk_Prelude
begin

text \<open>
  What the sources use of the C library: strings in memory, character classes, \<open>strstr\<close>,
  \<open>strncmp\<close>, \<open>atoi\<close> and the decimal conversion of \<open>printf\<close>.  A string that is only read
  is the list of its bytes without the terminating zero.
\<close>

section \<open>Strings\<close>

definition bytes_of :: "char list \<Rightarrow> byte list" where
  "bytes_of cs = map (\<lambda>c. of_nat (of_char c)) cs"

text \<open>The string in a memory block; without a zero, reading it runs past the end.\<close>

definition mem_str :: "byte list \<Rightarrow> byte list res" where
  "mem_str m = (if 0 \<in> set m then Inr (takeWhile (\<lambda>b. b \<noteq> 0) m) else Inl OutOfBounds)"

definition strncmp_eq :: "nat \<Rightarrow> byte list \<Rightarrow> byte list \<Rightarrow> bool" where
  "strncmp_eq n a b = (take n (a @ [0]) = take n (b @ [0]))"

text \<open>\<open>strchr\<close> on a string: the zero at the end counts.\<close>

fun index_of :: "byte list \<Rightarrow> byte \<Rightarrow> nat option" where
  "index_of [] c = None"
| "index_of (d # ds) c = (if d = c then Some 0 else map_option Suc (index_of ds c))"

lemma takeWhile_zero: "0 \<notin> set s \<Longrightarrow> takeWhile (\<lambda>b. b \<noteq> 0) (s @ 0 # rest) = (s :: byte list)"
  by (induction s) auto

lemma mem_str_at: "0 \<notin> set s \<Longrightarrow> mem_str (s @ 0 # rest) = Inr s"
  by (simp add: mem_str_def takeWhile_zero)

text \<open>Writing a string and its zero behind another one, at its zero.\<close>

lemma wr_string:
  fixes s t :: "byte list"
  assumes "length s + length t < n"
  shows "wr_bytes (s @ replicate (n - length s) 0) (int (length s)) (t @ [0]) = Inr ((s @ t) @ replicate (n - length (s @ t)) 0)"
proof -
  have "replicate (n - length s) (0 :: byte) = replicate (length (t @ [0])) 0 @ replicate (n - length s - Suc (length t)) 0"
    using assms by (simp flip: replicate_add replicate_Suc)
  moreover have "replicate (n - length (s @ t)) (0 :: byte) = 0 # replicate (n - length s - Suc (length t)) 0"
    using assms by (simp flip: replicate_Suc)
  ultimately show ?thesis
    using wr_bytes_append [of "int (length s)" s "replicate (length (t @ [0])) 0" "t @ [0]" "replicate (n - length s - Suc (length t)) 0"] by simp
qed

lemma mem_string: "0 \<notin> set s \<Longrightarrow> length s < n \<Longrightarrow> mem_str (s @ replicate (n - length s) 0) = Inr s"
  using mem_str_at [of s "replicate (n - length s - 1) 0"] by (cases "n - length s") simp_all

section \<open>Characters\<close>

definition c_tolower :: "byte \<Rightarrow> byte" where
  "c_tolower c = (if 0x41 \<le> c \<and> c \<le> 0x5A then c + 0x20 else c)"

definition c_toupper :: "byte \<Rightarrow> byte" where
  "c_toupper c = (if 0x61 \<le> c \<and> c \<le> 0x7A then c - 0x20 else c)"

definition c_isdigit :: "byte \<Rightarrow> bool" where
  "c_isdigit c = (0x30 \<le> c \<and> c \<le> 0x39)"

section \<open>Decimal numbers\<close>

text \<open>\<open>atoi\<close> on a memory block: blanks, a sign, decimal digits up to the first other byte.
  Reading past the block is a fault; numbers stay in the range of an int.\<close>

fun atoi_digits :: "byte list \<Rightarrow> int \<Rightarrow> int res" where
  "atoi_digits [] n = Inl OutOfBounds"
| "atoi_digits (b # bs) n =
     (if 0x30 \<le> b \<and> b \<le> 0x39 then atoi_digits bs (n * 10 + (uint b - 48)) else Inr n)"

fun atoi :: "byte list \<Rightarrow> int res" where
  "atoi [] = Inl OutOfBounds"
| "atoi (b # bs) =
     (if b = 0x20 \<or> (0x09 \<le> b \<and> b \<le> 0x0D) then atoi bs
      else if b = 0x2D then rmap uminus (atoi_digits bs 0)
      else if b = 0x2B then atoi_digits bs 0
      else atoi_digits (b # bs) 0)"

text \<open>\<open>%d\<close>.\<close>

fun dec_nat :: "nat \<Rightarrow> byte list" where
  "dec_nat n = (if n < 10 then [of_nat (48 + n)] else dec_nat (n div 10) @ [of_nat (48 + n mod 10)])"

declare dec_nat.simps [simp del]

definition dec_int :: "int \<Rightarrow> byte list" where
  "dec_int i = (if i < 0 then 0x2D # dec_nat (nat (- i)) else dec_nat (nat i))"

lemma digit_byte:
  assumes "n < 10"
  shows "uint (of_nat (48 + n) :: byte) = 48 + int n" "(0x30 :: byte) \<le> of_nat (48 + n)" "of_nat (48 + n) \<le> (0x39 :: byte)"
    "(of_nat (48 + n) :: byte) \<noteq> 0" "(of_nat (48 + n) :: byte) \<noteq> 0x20" "(of_nat (48 + n) :: byte) \<noteq> 0x2D"
    "(of_nat (48 + n) :: byte) \<noteq> 0x2B" "\<not> (of_nat (48 + n) :: byte) \<le> 0x0D"
proof -
  have "n = 0 \<or> n = 1 \<or> n = 2 \<or> n = 3 \<or> n = 4 \<or> n = 5 \<or> n = 6 \<or> n = 7 \<or> n = 8 \<or> n = 9" using assms by arith
  then show "uint (of_nat (48 + n) :: byte) = 48 + int n" "(0x30 :: byte) \<le> of_nat (48 + n)" "of_nat (48 + n) \<le> (0x39 :: byte)"
    "(of_nat (48 + n) :: byte) \<noteq> 0" "(of_nat (48 + n) :: byte) \<noteq> 0x20" "(of_nat (48 + n) :: byte) \<noteq> 0x2D"
    "(of_nat (48 + n) :: byte) \<noteq> 0x2B" "\<not> (of_nat (48 + n) :: byte) \<le> 0x0D"
    by (elim disjE; simp)+
qed

lemma atoi_digits_dec: "atoi_digits (dec_nat n @ rest) 0 = atoi_digits rest (int n)"
proof (induction n arbitrary: rest rule: dec_nat.induct)
  case (1 n)
  show ?case
  proof (cases "n < 10")
    case True
    with digit_byte [OF True] show ?thesis by (subst dec_nat.simps) simp
  next
    case False
    have d: "n mod 10 < 10" by simp
    have "atoi_digits (dec_nat n @ rest) 0 = atoi_digits (of_nat (48 + n mod 10) # rest) (int (n div 10))"
      using False 1 [of "of_nat (48 + n mod 10) # rest"] by (subst dec_nat.simps) simp
    also have "\<dots> = atoi_digits rest (int (n div 10) * 10 + int (n mod 10))"
      using digit_byte [OF d] by simp
    also have "int (n div 10) * 10 + int (n mod 10) = int n" by presburger
    finally show ?thesis .
  qed
qed

lemma dec_nat_digits: "list_all c_isdigit (dec_nat n)"
proof (induction n rule: dec_nat.induct)
  case (1 n)
  have d: "n mod 10 < 10" by simp
  show ?case
    using 1 digit_byte(2,3) [OF d] digit_byte(2,3) [of n] by (subst dec_nat.simps) (simp add: c_isdigit_def [abs_def])
qed

lemma dec_nat_Cons: "\<exists>d ds. dec_nat n = d # ds \<and> c_isdigit d"
proof -
  have "dec_nat n \<noteq> []" by (subst dec_nat.simps) simp
  then show ?thesis using dec_nat_digits [of n] by (cases "dec_nat n") auto
qed

lemma c_isdigit_other: "c_isdigit d \<Longrightarrow> d \<noteq> 0 \<and> d \<noteq> 0x20 \<and> d \<noteq> 0x2D \<and> d \<noteq> 0x2B \<and> d \<noteq> 0x2E \<and> d \<noteq> 0x3A \<and> \<not> d \<le> 0x0D"
proof -
  assume "c_isdigit d"
  then have d: "0x30 \<le> d" "d \<le> 0x39" by (simp_all add: c_isdigit_def)
  then have "\<not> d \<le> 0x0D" using order_trans [of "0x30" d "0x0D"] by auto
  with d show ?thesis by auto
qed

lemma atoi_dec: "\<not> c_isdigit c \<Longrightarrow> atoi (dec_nat n @ c # rest) = Inr (int n)"
proof -
  assume c: "\<not> c_isdigit c"
  obtain d ds where d: "dec_nat n = d # ds" "c_isdigit d" using dec_nat_Cons by blast
  have "atoi (dec_nat n @ c # rest) = atoi_digits (dec_nat n @ c # rest) 0"
    using d(1) c_isdigit_other [OF d(2)] by auto
  then show ?thesis using c by (auto simp add: atoi_digits_dec c_isdigit_def)
qed

lemma dec_nat_length: "n < 10 ^ k \<Longrightarrow> 0 < k \<Longrightarrow> length (dec_nat n) \<le> k"
proof (induction k arbitrary: n)
  case (Suc k)
  show ?case
  proof (cases "n < 10")
    case False
    then have "n div 10 < 10 ^ k" "0 < k" using Suc.prems by (auto simp: less_mult_imp_div_less mult.commute intro: Nat.gr0I)
    then show ?thesis using Suc.IH [of "n div 10"] False by (subst dec_nat.simps) simp
  qed (subst dec_nat.simps, simp)
qed simp

lemma dec_int_nonzero: "0 \<notin> set (dec_int i)"
  using dec_nat_digits [of "nat i"] dec_nat_digits [of "nat (- i)"] by (auto simp: dec_int_def list_all_iff c_isdigit_def)

section \<open>Numbers in a line\<close>

text \<open>\<open>sscanf\<close> with \<open>n\<close> directives \<open>%d\<close>: the numbers up to the first place that is none, cut to 32 bits.\<close>

definition is_space :: "byte \<Rightarrow> bool" where
  "is_space b \<longleftrightarrow> b = 0x20 \<or> (0x09 \<le> b \<and> b \<le> 0x0D)"

definition is_digit :: "byte \<Rightarrow> bool" where
  "is_digit b \<longleftrightarrow> 0x30 \<le> b \<and> b \<le> 0x39"

definition digits_value :: "byte list \<Rightarrow> int" where
  "digits_value ds = foldl (\<lambda>n b. n * 10 + (uint b - 48)) 0 ds"

definition scan_int :: "byte list \<Rightarrow> (int \<times> byte list) option" where
  "scan_int s =
     (let s1 = dropWhile is_space s;
          negative = (s1 \<noteq> [] \<and> hd s1 = 0x2D);
          s2 = (if s1 \<noteq> [] \<and> (hd s1 = 0x2D \<or> hd s1 = 0x2B) then tl s1 else s1);
          ds = takeWhile is_digit s2;
          v = (if negative then - digits_value ds else digits_value ds);
          long = max (- (2 ^ 63)) (min (2 ^ 63 - 1) v) in
      if ds = [] then None else Some (sint (word_of_int long :: u32), dropWhile is_digit s2))"

fun scan_ints :: "nat \<Rightarrow> byte list \<Rightarrow> int list" where
  "scan_ints 0 s = []"
| "scan_ints (Suc n) s = (case scan_int s of None \<Rightarrow> [] | Some (v, rest) \<Rightarrow> v # scan_ints n rest)"

text \<open>Variables that \<open>sscanf\<close> does not set keep what they hold.\<close>

definition scan_into :: "int list \<Rightarrow> byte list \<Rightarrow> int list" where
  "scan_into vars s = (let vs = scan_ints (length vars) s in vs @ drop (length vs) vars)"

end
