(* ===== verification/Coap_Api.thy ===== *)
theory Coap_Api
  imports C_Library Coap_Uri
begin

text \<open>
  The C interface \<open>mbtk_coap_api.cpp\<close>: a global PDU for sending, created on first use,
  and a global PDU over the buffer that was received, with one getter per option.
\<close>

section \<open>The two global PDUs\<close>

record api =
  g_CoapPDU :: "pdu option"
  g_CoapRecvPointer :: "pdu option"

definition createCoapPDU :: "heap_env \<Rightarrow> api \<Rightarrow> api res" where
  "createCoapPDU h s =
     (if g_CoapPDU s = None then rmap (\<lambda>p. s\<lparr>g_CoapPDU := Some p\<rparr>) (new_CoapPDU h) else Inr s)"

definition coapReleaseCoapPUD :: "api \<Rightarrow> api" where
  "coapReleaseCoapPUD s = s\<lparr>g_CoapPDU := None\<rparr>"

text \<open>A method call on the sending PDU, which is created first when there is none.\<close>

definition on_pdu :: "heap_env \<Rightarrow> (pdu \<Rightarrow> ('r \<times> pdu) res) \<Rightarrow> api \<Rightarrow> ('r \<times> api) res" where
  "on_pdu h f s =
     rbind (createCoapPDU h s) (\<lambda>s1.
       case g_CoapPDU s1 of
         None \<Rightarrow> Inl NullDeref
       | Some p \<Rightarrow> rmap (\<lambda>(r, p'). (r, s1\<lparr>g_CoapPDU := Some p'\<rparr>)) (f p))"

definition coapReset :: "heap_env \<Rightarrow> api \<Rightarrow> (int \<times> api) res" where
  "coapReset h = on_pdu h reset"

definition coapValidate :: "heap_env \<Rightarrow> api \<Rightarrow> (int \<times> api) res" where
  "coapValidate h = on_pdu h validate"

text \<open>\<open>coapGetPDUPointer\<close> does not create the PDU; the pointer is passed on as the
  memory block it points to.\<close>

definition coapGetPDUPointer :: "api \<Rightarrow> byte list res" where
  "coapGetPDUPointer s = (case g_CoapPDU s of None \<Rightarrow> Inl NullDeref | Some p \<Rightarrow> Inr (pdu_mem p))"

definition coapSetPDULength :: "heap_env \<Rightarrow> int \<Rightarrow> api \<Rightarrow> (unit \<times> api) res" where
  "coapSetPDULength h len = on_pdu h (\<lambda>p. Inr ((), setPDULength len p))"

definition coapSetURI :: "heap_env \<Rightarrow> byte list option \<Rightarrow> api \<Rightarrow> (int \<times> api) res" where
  "coapSetURI h uri = on_pdu h (setURI h uri)"

definition coapAddURIQuery :: "heap_env \<Rightarrow> byte list option \<Rightarrow> api \<Rightarrow> (int \<times> api) res" where
  "coapAddURIQuery h query = on_pdu h (addURIQuery h query)"

definition coapGetURI :: "heap_env \<Rightarrow> bool \<Rightarrow> byte list option \<Rightarrow> int \<Rightarrow> int option \<Rightarrow> api \<Rightarrow>
    ((int \<times> int option \<times> byte list option) \<times> api) res" where
  "coapGetURI h ok dst dstlen outLen = on_pdu h (\<lambda>p. rmap (\<lambda>r. (r, p)) (getURI ok dst dstlen outLen p))"

definition coapSetVersion :: "heap_env \<Rightarrow> byte \<Rightarrow> api \<Rightarrow> (int \<times> api) res" where
  "coapSetVersion h v = on_pdu h (setVersion v)"

definition coapGetVersion :: "heap_env \<Rightarrow> api \<Rightarrow> (byte \<times> api) res" where
  "coapGetVersion h = on_pdu h (\<lambda>p. rmap (\<lambda>r. (r, p)) (getVersion p))"

definition coapGetType :: "heap_env \<Rightarrow> api \<Rightarrow> (int \<times> api) res" where
  "coapGetType h = on_pdu h (\<lambda>p. rmap (\<lambda>r. (r, p)) (getType p))"

text \<open>Despite its name \<open>GetTokenLength\<close> sets the length.\<close>

definition GetTokenLength :: "heap_env \<Rightarrow> byte \<Rightarrow> api \<Rightarrow> (int \<times> api) res" where
  "GetTokenLength h tokenLength = on_pdu h (setTokenLength tokenLength)"

definition coapGetTokenLength :: "heap_env \<Rightarrow> api \<Rightarrow> (int \<times> api) res" where
  "coapGetTokenLength h = on_pdu h (\<lambda>p. rmap (\<lambda>r. (r, p)) (getTokenLength p))"

definition coapGetTokenPointer :: "heap_env \<Rightarrow> api \<Rightarrow> (int option \<times> api) res" where
  "coapGetTokenPointer h = on_pdu h (\<lambda>p. rmap (\<lambda>r. (r, p)) (getTokenPointer p))"

definition coapGetCode :: "heap_env \<Rightarrow> api \<Rightarrow> (int \<times> api) res" where
  "coapGetCode h = on_pdu h (\<lambda>p. rmap (\<lambda>r. (r, p)) (getCode p))"

definition coapGetMessageID :: "heap_env \<Rightarrow> api \<Rightarrow> (u16 \<times> api) res" where
  "coapGetMessageID h = on_pdu h (\<lambda>p. rmap (\<lambda>r. (r, p)) (getMessageID p))"

definition coapMallocPayload :: "heap_env \<Rightarrow> int \<Rightarrow> api \<Rightarrow> ((nat \<times> int) option \<times> api) res" where
  "coapMallocPayload h len = on_pdu h (mallocPayload h len)"

definition coapGetPayloadPointer :: "heap_env \<Rightarrow> api \<Rightarrow> ((nat \<times> int) option \<times> api) res" where
  "coapGetPayloadPointer h = on_pdu h (\<lambda>p. Inr (getPayloadPointer p, p))"

definition coapGetPayloadLength :: "heap_env \<Rightarrow> api \<Rightarrow> (int \<times> api) res" where
  "coapGetPayloadLength h = on_pdu h (\<lambda>p. Inr (getPayloadLength p, p))"

definition coapGetPayloadCopy :: "heap_env \<Rightarrow> bool \<Rightarrow> api \<Rightarrow> (byte list option \<times> api) res" where
  "coapGetPayloadCopy h ok = on_pdu h (\<lambda>p. rmap (\<lambda>r. (r, p)) (getPayloadCopy ok p))"

definition coapSetType :: "heap_env \<Rightarrow> coap_type \<Rightarrow> api \<Rightarrow> (unit \<times> api) res" where
  "coapSetType h mt = on_pdu h (\<lambda>p. rmap (Pair ()) (setType (type_val mt) p))"

definition coapSetToken :: "heap_env \<Rightarrow> byte list option \<Rightarrow> byte \<Rightarrow> api \<Rightarrow> (int \<times> api) res" where
  "coapSetToken h token len = on_pdu h (setToken h token len)"

definition coapSetCode :: "heap_env \<Rightarrow> int \<Rightarrow> api \<Rightarrow> (unit \<times> api) res" where
  "coapSetCode h code = on_pdu h (\<lambda>p. rmap (Pair ()) (setCode code p))"

definition coapHttpStatusToCode :: "heap_env \<Rightarrow> int \<Rightarrow> api \<Rightarrow> (int \<times> api) res" where
  "coapHttpStatusToCode h st = on_pdu h (\<lambda>p. Inr (httpStatusToCode st, p))"

definition coapSetMessageID :: "heap_env \<Rightarrow> u16 \<Rightarrow> api \<Rightarrow> (int \<times> api) res" where
  "coapSetMessageID h i = on_pdu h (setMessageID i)"

definition coapGetPDULength :: "heap_env \<Rightarrow> api \<Rightarrow> (int \<times> api) res" where
  "coapGetPDULength h = on_pdu h (\<lambda>p. Inr (getPDULength p, p))"

definition coapGetNumOptions :: "heap_env \<Rightarrow> api \<Rightarrow> (int \<times> api) res" where
  "coapGetNumOptions h = on_pdu h (\<lambda>p. Inr (getNumOptions p, p))"

definition coapAddOption :: "heap_env \<Rightarrow> u16 \<Rightarrow> u16 \<Rightarrow> byte list option \<Rightarrow> api \<Rightarrow> (int \<times> api) res" where
  "coapAddOption h n len v = on_pdu h (addOption h n len v)"

definition coapSetPayload :: "heap_env \<Rightarrow> byte list option \<Rightarrow> int \<Rightarrow> api \<Rightarrow> (int \<times> api) res" where
  "coapSetPayload h payload len = on_pdu h (setPayload h payload len)"

definition coapSetContentFormat :: "heap_env \<Rightarrow> int \<Rightarrow> api \<Rightarrow> (int \<times> api) res" where
  "coapSetContentFormat h f = on_pdu h (setContentFormat h f)"

definition coapHasOption :: "heap_env \<Rightarrow> bool \<Rightarrow> u16 \<Rightarrow> api \<Rightarrow> (int \<times> api) res" where
  "coapHasOption h ok n = on_pdu h (\<lambda>p. rmap (\<lambda>r. (r, p)) (hasOption ok n p))"

section \<open>The received PDU\<close>

definition coapDeleteRecv :: "api \<Rightarrow> api" where
  "coapDeleteRecv s = s\<lparr>g_CoapRecvPointer := None\<rparr>"

definition coapCreateRecv :: "byte list \<Rightarrow> int \<Rightarrow> api \<Rightarrow> (int \<times> api) res" where
  "coapCreateRecv buf pduLen s =
     rbind (new_CoapPDU_buffer buf pduLen pduLen) (\<lambda>p.
     rbind (validate p) (\<lambda>(ok, q).
       if ok \<noteq> 0 then Inr (getPDULength q, s\<lparr>g_CoapRecvPointer := Some q\<rparr>)
       else Inr (0, s\<lparr>g_CoapRecvPointer := None\<rparr>)))"

definition on_recv :: "(pdu \<Rightarrow> 'r res) \<Rightarrow> api \<Rightarrow> 'r res" where
  "on_recv f s = (case g_CoapRecvPointer s of None \<Rightarrow> Inl NullDeref | Some p \<Rightarrow> f p)"

definition coapGetRecvVersion :: "api \<Rightarrow> byte res" where
  "coapGetRecvVersion = on_recv getVersion"

definition coapGetRecvMessageID :: "api \<Rightarrow> u16 res" where
  "coapGetRecvMessageID = on_recv getMessageID"

definition coapGetRecvType :: "api \<Rightarrow> int res" where
  "coapGetRecvType = on_recv getType"

definition coapGetRecvCode :: "api \<Rightarrow> int res" where
  "coapGetRecvCode = on_recv getCode"

definition coapGetRecvTokenLength :: "api \<Rightarrow> int res" where
  "coapGetRecvTokenLength = on_recv getTokenLength"

definition coapGetRecvTokenPointer :: "api \<Rightarrow> int option res" where
  "coapGetRecvTokenPointer = on_recv getTokenPointer"

definition coapGetRecvPayloadPointer :: "api \<Rightarrow> (nat \<times> int) option res" where
  "coapGetRecvPayloadPointer = on_recv (\<lambda>p. Inr (getPayloadPointer p))"

definition coapGetRecvPayloadLength :: "api \<Rightarrow> int res" where
  "coapGetRecvPayloadLength = on_recv (\<lambda>p. Inr (getPayloadLength p))"

definition coapGetOptionValueById :: "bool \<Rightarrow> u16 \<Rightarrow> u16 \<Rightarrow> byte list \<Rightarrow> api \<Rightarrow> (u16 \<times> byte list) res" where
  "coapGetOptionValueById ok n len dst s =
     (case g_CoapRecvPointer s of None \<Rightarrow> Inr (len, dst) | Some p \<Rightarrow> getOptionValueById ok n len dst p)"

text \<open>The string getters: the first component is both the return value and
  \<open>*optionValueLength\<close>.\<close>

definition coapGetRecvOption :: "coap_option_type \<Rightarrow> bool \<Rightarrow> byte list \<Rightarrow> api \<Rightarrow> (u16 \<times> byte list) res" where
  "coapGetRecvOption t ok dst s = coapGetOptionValueById ok (opt_num t) 0 dst s"

definition coapGetRecvOptionIfMatch :: "bool \<Rightarrow> byte list \<Rightarrow> api \<Rightarrow> (u16 \<times> byte list) res" where
  "coapGetRecvOptionIfMatch = coapGetRecvOption COAP_OPTION_IF_MATCH"

definition coapGetRecvOptionUriHost :: "bool \<Rightarrow> byte list \<Rightarrow> api \<Rightarrow> (u16 \<times> byte list) res" where
  "coapGetRecvOptionUriHost = coapGetRecvOption COAP_OPTION_URI_HOST"

definition coapGetRecvOptionETag :: "bool \<Rightarrow> byte list \<Rightarrow> api \<Rightarrow> (u16 \<times> byte list) res" where
  "coapGetRecvOptionETag = coapGetRecvOption COAP_OPTION_ETAG"

definition coapGetRecvOptionIfNoneMatch :: "bool \<Rightarrow> byte list \<Rightarrow> api \<Rightarrow> (u16 \<times> byte list) res" where
  "coapGetRecvOptionIfNoneMatch = coapGetRecvOption COAP_OPTION_IF_NONE_MATCH"

definition coapGetRecvOptionLocationPath :: "bool \<Rightarrow> byte list \<Rightarrow> api \<Rightarrow> (u16 \<times> byte list) res" where
  "coapGetRecvOptionLocationPath = coapGetRecvOption COAP_OPTION_LOCATION_PATH"

definition coapGetRecvOptionLocationQuery :: "bool \<Rightarrow> byte list \<Rightarrow> api \<Rightarrow> (u16 \<times> byte list) res" where
  "coapGetRecvOptionLocationQuery = coapGetRecvOption COAP_OPTION_LOCATION_QUERY"

definition coapGetRecvOptionProxyUri :: "bool \<Rightarrow> byte list \<Rightarrow> api \<Rightarrow> (u16 \<times> byte list) res" where
  "coapGetRecvOptionProxyUri = coapGetRecvOption COAP_OPTION_PROXY_URI"

definition coapGetRecvOptionProxyScheme :: "bool \<Rightarrow> byte list \<Rightarrow> api \<Rightarrow> (u16 \<times> byte list) res" where
  "coapGetRecvOptionProxyScheme = coapGetRecvOption COAP_OPTION_PROXY_SCHEME"

definition coapGetRecvOptionUriPath :: "bool \<Rightarrow> byte list \<Rightarrow> api \<Rightarrow> (u16 \<times> byte list) res" where
  "coapGetRecvOptionUriPath = coapGetRecvOption COAP_OPTION_URI_PATH"

definition coapGetRecvOptionUriQuery :: "bool \<Rightarrow> byte list \<Rightarrow> api \<Rightarrow> (u16 \<times> byte list) res" where
  "coapGetRecvOptionUriQuery = coapGetRecvOption COAP_OPTION_URI_QUERY"

text \<open>The numeric getters: the value goes into a ten byte stack buffer and through
  \<open>atoi\<close>; None stands for the return value 0, which leaves the result unset.\<close>

definition coapGetRecvOptionInt :: "coap_option_type \<Rightarrow> bool \<Rightarrow> api \<Rightarrow> int option res" where
  "coapGetRecvOptionInt t ok s =
     rbind (coapGetOptionValueById ok (opt_num t) 0 (replicate 10 0) s) (\<lambda>(len, buf).
       if len > 0 then rmap Some (atoi buf) else Inr None)"

definition coapGetRecvOptionU16 :: "coap_option_type \<Rightarrow> bool \<Rightarrow> api \<Rightarrow> u16 option res" where
  "coapGetRecvOptionU16 t ok s = rmap (map_option word_of_int) (coapGetRecvOptionInt t ok s)"

definition coapGetRecvOptionObserve :: "bool \<Rightarrow> api \<Rightarrow> u16 option res" where
  "coapGetRecvOptionObserve = coapGetRecvOptionU16 COAP_OPTION_OBSERVE"

definition coapGetRecvOptionMaxAge :: "bool \<Rightarrow> api \<Rightarrow> u16 option res" where
  "coapGetRecvOptionMaxAge = coapGetRecvOptionU16 COAP_OPTION_MAX_AGE"

definition coapGetRecvOptionUriPort :: "bool \<Rightarrow> api \<Rightarrow> u16 option res" where
  "coapGetRecvOptionUriPort = coapGetRecvOptionU16 COAP_OPTION_URI_PORT"

definition coapGetRecvOptionSize2 :: "bool \<Rightarrow> api \<Rightarrow> u16 option res" where
  "coapGetRecvOptionSize2 = coapGetRecvOptionU16 COAP_OPTION_SIZE2"

definition coapGetRecvOptionSize1 :: "bool \<Rightarrow> api \<Rightarrow> u16 option res" where
  "coapGetRecvOptionSize1 = coapGetRecvOptionU16 COAP_OPTION_SIZE1"

definition coapGetRecvOptionContentFormat :: "bool \<Rightarrow> api \<Rightarrow> int option res" where
  "coapGetRecvOptionContentFormat = coapGetRecvOptionInt COAP_OPTION_CONTENT_FORMAT"

definition coapGetRecvOptionAccept :: "bool \<Rightarrow> api \<Rightarrow> int option res" where
  "coapGetRecvOptionAccept = coapGetRecvOptionInt COAP_OPTION_ACCEPT"

definition block2_decode :: "u16 \<Rightarrow> byte list \<Rightarrow> (u32 \<times> byte \<times> byte) option" where
  "block2_decode len buf =
     (if len = 1 then
        Some (ucast (drop_bit 4 (buf ! 0 AND 0xF0)), drop_bit 3 (buf ! 0 AND 0x08), buf ! 0 AND 0x07)
      else if len = 2 then
        Some (drop_bit 4 (push_bit 8 (ucast (buf ! 0)) OR ucast (buf ! 1 AND 0xF0)),
              drop_bit 3 (buf ! 1 AND 0x08), buf ! 1 AND 0x07)
      else if len = 3 then
        Some (drop_bit 4 (push_bit 16 (ucast (buf ! 0)) OR push_bit 8 (ucast (buf ! 1))
                OR ucast (buf ! 2 AND 0xF0)),
              drop_bit 3 (buf ! 2 AND 0x08), buf ! 2 AND 0x07)
      else None)"

definition coapGetRecvOptionBlock2 :: "bool \<Rightarrow> api \<Rightarrow> (u32 \<times> byte \<times> byte) option res" where
  "coapGetRecvOptionBlock2 ok s =
     rmap (\<lambda>(len, buf). if len > 0 then block2_decode len buf else None)
       (coapGetOptionValueById ok (opt_num COAP_OPTION_BLOCK2) 0 (replicate 10 0) s)"

text \<open>Block1 is decoded from the first byte, without the shifts of Block2.\<close>

definition block1_decode :: "u16 \<Rightarrow> byte list \<Rightarrow> (u32 \<times> byte \<times> byte) option" where
  "block1_decode len buf =
     (let size = buf ! 0 AND 0x07; more = buf ! 0 AND 0x08 in
      if len = 1 then Some (ucast (buf ! 0 AND 0xF0), more, size)
      else if len = 2 then
        Some (push_bit 8 (ucast (buf ! 1)) OR ucast (buf ! 0 AND 0xF0), more, size)
      else if len = 3 then
        Some (push_bit 16 (ucast (buf ! 2)) OR push_bit 8 (ucast (buf ! 1)) OR ucast (buf ! 0 AND 0xF0),
              more, size)
      else None)"

definition coapGetRecvOptionBlock1 :: "bool \<Rightarrow> api \<Rightarrow> (u32 \<times> byte \<times> byte) option res" where
  "coapGetRecvOptionBlock1 ok s =
     rmap (\<lambda>(len, buf). if len > 0 then block1_decode len buf else None)
       (coapGetOptionValueById ok (opt_num COAP_OPTION_BLOCK1) 0 (replicate 10 0) s)"

section \<open>Calls on a represented PDU\<close>

definition api_rep :: "api \<Rightarrow> coap_msg \<Rightarrow> bool" where
  "api_rep s m \<longleftrightarrow> (\<exists>p. g_CoapPDU s = Some p \<and> pdu_rep p m \<and> \<not> constructedFromBuffer p)"

lemma on_pdu_Some:
  "g_CoapPDU s = Some p \<Longrightarrow> on_pdu h f s = rmap (\<lambda>(r, p'). (r, s\<lparr>g_CoapPDU := Some p'\<rparr>)) (f p)"
  by (simp add: on_pdu_def createCoapPDU_def)

lemma on_pdu_rep:
  assumes "api_rep s m"
    "\<And>p. pdu_rep p m \<Longrightarrow> \<not> constructedFromBuffer p \<Longrightarrow>
       \<exists>p'. f p = Inr (r, p') \<and> pdu_rep p' m' \<and> \<not> constructedFromBuffer p'"
  shows "\<exists>s'. on_pdu h f s = Inr (r, s') \<and> api_rep s' m' \<and> g_CoapRecvPointer s' = g_CoapRecvPointer s"
proof -
  obtain p where p: "g_CoapPDU s = Some p" "pdu_rep p m" "\<not> constructedFromBuffer p"
    using assms(1) by (auto simp: api_rep_def)
  from assms(2) [OF p(2,3)] p(1) show ?thesis by (auto simp: on_pdu_Some api_rep_def)
qed

end
