(* ===== verification/Coap_Generic.thy ===== *)
theory Coap_Generic
  imports Mbtk_Prelude
begin

text \<open>
  \<open>coap/mbtk_coap_generic.c\<close>: the table of UDP sockets the CoAP client works on, sending
  with retries, receiving, the receive thread, and the hexadecimal helpers.  The operating
  system is a parameter: \<open>sys k\<close> is the value that the k-th system call returns and
  \<open>rx k\<close> the bytes that it delivers; \<open>tick\<close> counts the calls.  Log output is not
  modelled.
\<close>

section \<open>State\<close>

record coap_item =
  ci_handle :: int
  ci_sockfd :: int
  ci_sock_reset :: bool
  ci_port :: int

record coap_net =
  coap_items :: "coap_item list"
  tick :: nat
  sent :: "(int \<times> byte list) list"      \<comment> \<open>datagrams handed to the system, latest last\<close>
  closed_fds :: "int list"
  thread_started :: bool
  read_cb :: "nat option"               \<comment> \<open>the address of the read callback\<close>

definition MBTK_COAP_TYPE_MAX :: int where
  "MBTK_COAP_TYPE_MAX = 3"

definition coap_item0 :: coap_item where
  "coap_item0 = \<lparr>ci_handle = 0, ci_sockfd = 0, ci_sock_reset = False, ci_port = 0\<rparr>"

definition coap_net0 :: coap_net where
  "coap_net0 = \<lparr>coap_items = replicate 3 coap_item0, tick = 0, sent = [], closed_fds = [],
                thread_started = False, read_cb = None\<rparr>"

definition net_wf :: "coap_net \<Rightarrow> bool" where
  "net_wf s \<longleftrightarrow> length (coap_items s) = nat MBTK_COAP_TYPE_MAX"

definition syscall :: "(nat \<Rightarrow> int) \<Rightarrow> coap_net \<Rightarrow> int \<times> coap_net" where
  "syscall sys s = (sys (tick s), s\<lparr>tick := Suc (tick s)\<rparr>)"

definition item :: "coap_net \<Rightarrow> int \<Rightarrow> coap_item" where
  "item s t = coap_items s ! nat t"

definition set_item :: "int \<Rightarrow> (coap_item \<Rightarrow> coap_item) \<Rightarrow> coap_net \<Rightarrow> coap_net" where
  "set_item t f s = s\<lparr>coap_items := (coap_items s)[nat t := f (coap_items s ! nat t)]\<rparr>"

definition bad_type :: "int \<Rightarrow> bool" where
  "bad_type t = (t < 0 \<or> t \<ge> MBTK_COAP_TYPE_MAX)"

section \<open>Opening and closing\<close>

definition coap_str_empty :: "byte list option \<Rightarrow> bool" where
  "coap_str_empty str = (case str of None \<Rightarrow> True | Some s \<Rightarrow> length s = 0)"

definition coap_net_open :: "int \<Rightarrow> bool" where
  "coap_net_open t = True"

definition coap_net_close :: "int \<Rightarrow> bool" where
  "coap_net_close t = True"

text \<open>socket, sockaddr_init, connect and getsockname, each with its own early return.\<close>

definition coap_sock_create :: "(nat \<Rightarrow> int) \<Rightarrow> int \<Rightarrow> int \<Rightarrow> coap_net \<Rightarrow> int \<times> coap_net" where
  "coap_sock_create sys t port s =
     (let (sockfd, s1) = syscall sys s in
      if sockfd < 0 then (-1, s1) else
      let (r, s2) = syscall sys s1 in
      if r < 0 then (-1, s2) else
      let (r, s3) = syscall sys s2 in
      if r < 0 then (-1, s3) else
      let (r, s4) = syscall sys s3 in
      if r < 0 then (-1, s4)
      else (sockfd, set_item t (\<lambda>it. it\<lparr>ci_handle := 1, ci_sockfd := sockfd, ci_port := port\<rparr>) s4))"

definition sys_close :: "(nat \<Rightarrow> int) \<Rightarrow> int \<Rightarrow> coap_net \<Rightarrow> int \<times> coap_net" where
  "sys_close sys fd s = (let (r, s1) = syscall sys s in (r, s1\<lparr>closed_fds := fd # closed_fds s1\<rparr>))"

definition coap_sock_close :: "(nat \<Rightarrow> int) \<Rightarrow> int \<Rightarrow> coap_net \<Rightarrow> bool \<times> coap_net" where
  "coap_sock_close sys t s =
     (if bad_type t then (False, s)
      else if ci_handle (item s t) \<le> 0 \<or> ci_sockfd (item s t) \<le> 0 then (False, s)
      else if ci_sockfd (item s t) \<le> 0 then (True, s)
      else let (res, s1) = sys_close sys (ci_sockfd (item s t)) s in
           if res = 0 then (True, set_item t (\<lambda>it. it\<lparr>ci_sockfd := -1\<rparr>) s1) else (False, s1))"

definition mbtk_coap_sock_init :: "(nat \<Rightarrow> int) \<Rightarrow> int \<Rightarrow> int \<Rightarrow> coap_net \<Rightarrow> bool \<times> coap_net" where
  "mbtk_coap_sock_init sys t port s =
     (if bad_type t then (False, s)
      else if ci_handle (item s t) > 0 \<and> \<not> coap_net_open t then (False, s)
      else if ci_sock_reset (item s t) \<and> ci_sockfd (item s t) > 0
      then let sockfd = ci_sockfd (item s t);
               s1 = set_item t (\<lambda>it. it\<lparr>ci_sock_reset := False\<rparr>) s;
               (fd, s2) = coap_sock_create sys t port s1
           in if fd < 0 then (False, s2) else (True, snd (sys_close sys sockfd s2))
      else if ci_sockfd (item s t) \<le> 0
      then let (fd, s1) = coap_sock_create sys t port s in (\<not> fd < 0, s1)
      else (True, s))"

definition mbtk_coap_sock_deinit :: "(nat \<Rightarrow> int) \<Rightarrow> int \<Rightarrow> coap_net \<Rightarrow> bool \<times> coap_net" where
  "mbtk_coap_sock_deinit sys t s =
     (if bad_type t then (False, s)
      else if ci_sockfd (item s t) > 0
      then let (ok, s1) = coap_sock_close sys t s in (ok, s1)
      else (True, s))"

section \<open>Sending\<close>

text \<open>One \<open>sock_sendto\<close>: the bytes from \<open>off\<close> on are offered to the system.\<close>

definition sock_send :: "(nat \<Rightarrow> int) \<Rightarrow> int \<Rightarrow> byte list \<Rightarrow> coap_net \<Rightarrow> int \<times> coap_net" where
  "sock_send sys fd bytes s =
     (let (r, s1) = syscall sys s in (r, s1\<lparr>sent := sent s1 @ [(fd, bytes)]\<rparr>))"

text \<open>The inner loop for a partial send, which may run for ever: None.\<close>

partial_function (option) resend_loop ::
    "(nat \<Rightarrow> int) \<Rightarrow> int \<Rightarrow> byte list \<Rightarrow> int \<Rightarrow> coap_net \<Rightarrow> (int \<times> coap_net) option" where
  "resend_loop sys fd buffer total_size s =
     (let (res, s1) = sock_send sys fd (drop (nat total_size) buffer) s in
      if res > 0
      then (let total_size' = total_size + res in
            if total_size' = int (length buffer) then Some (total_size', s1)
            else resend_loop sys fd buffer total_size' s1)
      else Some (total_size, s1))"

text \<open>\<open>retry\<close> is the number of attempts left when the label \<open>retry_send\<close> is reached.\<close>

fun retry_send :: "(nat \<Rightarrow> int) \<Rightarrow> int \<Rightarrow> byte list \<Rightarrow> nat \<Rightarrow> coap_net \<Rightarrow> (int \<times> coap_net) option" where
  "retry_send sys fd buffer 0 s = Some (0, s)"
| "retry_send sys fd buffer (Suc retry) s =
     (let (res, s1) = sock_send sys fd buffer s;
          total_size = 0 + res
      in case (if res > 0 \<and> res < total_size then resend_loop sys fd buffer total_size s1 else Some (total_size, s1)) of
           None \<Rightarrow> None
         | Some (total_size', s2) \<Rightarrow>
             if total_size' \<noteq> int (length buffer) \<and> retry > 0
             then retry_send sys fd buffer retry s2
             else Some (total_size', s2))"

definition mbtk_coap_udp_sendto :: "(nat \<Rightarrow> int) \<Rightarrow> int \<Rightarrow> byte list \<Rightarrow> coap_net \<Rightarrow> (int \<times> coap_net) option" where
  "mbtk_coap_udp_sendto sys t buffer s =
     (if bad_type t then Some (-1, s)
      else if ci_handle (item s t) \<le> 0 \<or> ci_sockfd (item s t) \<le> 0 then Some (-1, s)
      else retry_send sys (ci_sockfd (item s t)) buffer 4 s)"

section \<open>Receiving\<close>

text \<open>\<open>memset\<close> of the caller's buffer, then the received bytes at its start.\<close>

definition mbtk_coap_udp_recvfrom :: "(nat \<Rightarrow> int) \<Rightarrow> (nat \<Rightarrow> byte list) \<Rightarrow> int \<Rightarrow> byte list \<Rightarrow> nat \<Rightarrow>
    coap_net \<Rightarrow> (int \<times> byte list \<times> coap_net) res" where
  "mbtk_coap_udp_recvfrom sys rx t buffer nbytes s =
     (if bad_type t then Inr (-1, buffer, s)
      else if ci_handle (item s t) \<le> 0 \<or> ci_sockfd (item s t) \<le> 0 then Inr (-1, buffer, s)
      else rbind (wr_bytes buffer 0 (replicate nbytes 0)) (\<lambda>b0.
           let data = take nbytes (rx (tick s)); (res, s1) = syscall sys s
           in if res > 0
              then rmap (\<lambda>b1. (res, b1, s1)) (wr_bytes b0 0 (take (nat res) data))
              else Inr (res, b0, s1)))"

definition MAXLINE :: nat where
  "MAXLINE = 2048"

text \<open>
  One round of \<open>coap_thread_func\<close>: \<open>select\<close>, receive into \<open>mesg[MAXLINE]\<close>, terminate
  it with a zero and call the read callback, whose effect on the state \<open>'st\<close> is a
  parameter.  The result says whether the loop goes on.
\<close>

definition coap_thread_round :: "(nat \<Rightarrow> int) \<Rightarrow> (nat \<Rightarrow> byte list) \<Rightarrow> bool \<Rightarrow> bool \<Rightarrow>
    (byte list \<Rightarrow> int \<Rightarrow> 'st \<Rightarrow> 'st res) option \<Rightarrow> byte list \<Rightarrow> coap_net \<Rightarrow> 'st \<Rightarrow>
    (bool \<times> byte list \<times> coap_net \<times> 'st) res" where
  "coap_thread_round sys rx eintr readable cb mesg s st =
     (let (nready, s1) = syscall sys s in
      if nready < 0 then Inr (eintr, mesg, s1, st)
      else if \<not> readable then Inr (True, mesg, s1, st)
      else rbind (mbtk_coap_udp_recvfrom sys rx 0 mesg MAXLINE s1) (\<lambda>(n, m1, s2).
           if n > 0
           then rbind (wr_buf m1 n 0) (\<lambda>m2.
                case cb of None \<Rightarrow> Inr (True, m2, s2, st)
                | Some f \<Rightarrow> rmap (\<lambda>st'. (True, m2, s2, st')) (f m2 n st))
           else Inr (True, m1, s2, st)))"

definition mbtk_coap_task_start :: "(nat \<Rightarrow> int) \<Rightarrow> int \<Rightarrow> nat option \<Rightarrow> coap_net \<Rightarrow> coap_net" where
  "mbtk_coap_task_start sys t func s =
     (if bad_type t then s
      else let (r, s1) = syscall sys (s\<lparr>read_cb := func\<rparr>)
           in if r \<noteq> 0 then s1 else s1\<lparr>thread_started := True\<rparr>)"

section \<open>Hexadecimal strings\<close>

text \<open>Characters are signed bytes, as on the build's targets.\<close>

definition HEXCHAR :: "byte \<Rightarrow> bool" where
  "HEXCHAR x = ((sint x \<ge> 0x30 \<and> sint x \<le> 0x39) \<or> (sint x \<ge> 0x61 \<and> sint x \<le> 0x66)
     \<or> (sint x \<ge> 0x41 \<and> sint x \<le> 0x46))"

definition toupper :: "byte \<Rightarrow> byte" where
  "toupper c = (if 0x61 \<le> c \<and> c \<le> 0x7A then c - 0x20 else c)"

function hex_right_loop :: "byte list \<Rightarrow> int \<Rightarrow> int \<Rightarrow> bool res" where
  "hex_right_loop str len index =
     (if index < len
      then rbind (rd_buf str index) (\<lambda>c.
           if c = 0 \<or> \<not> HEXCHAR c then Inr False else hex_right_loop str len (index + 1))
      else Inr True)"
  by pat_completeness auto
termination
  by (relation "measure (\<lambda>(str, len, index). nat (len - index))") auto

declare hex_right_loop.simps [simp del]

text \<open>\<open>str\<close> is the memory from the pointer on, its terminating zero included.\<close>

definition coap_hex_right :: "byte list option \<Rightarrow> int \<Rightarrow> bool res" where
  "coap_hex_right str len =
     (case str of None \<Rightarrow> Inr False
      | Some m \<Rightarrow> if takeWhile (\<lambda>b. b \<noteq> 0) m = [] then Inr False
                  else if len mod 2 \<noteq> 0 then Inr False
                  else hex_right_loop m len 0)"

definition hex_digit :: "byte \<Rightarrow> byte" where
  "hex_digit h = (let s = toupper h - 0x30 in if sint s > 9 then s - 7 else s)"

lemma char_bound: "sint (i :: byte) < 128"
  using sint_lt [of i] by simp

lemma char_succ: "0 \<le> sint (i :: byte) \<Longrightarrow> sint (i + 1) = (if sint i = 127 then -128 else sint i + 1)"
proof (cases "sint i = 127")
  case False
  assume "0 \<le> sint i"
  then have "signed_take_bit 7 (sint i + 1) = sint i + 1"
    using char_bound [of i] False by (intro signed_take_bit_int_eq_self) simp_all
  with False show ?thesis by (simp add: sint_word_ariths(1))
next
  case True
  then have "sint i = sint (127 :: byte)" by simp
  then have "i = 127" by (rule signed_word_eqI)
  then show ?thesis by simp
qed

text \<open>The index is declared \<open>char\<close>: it runs from 0 to 127 and then to -128.\<close>

function str_to_hex_loop :: "byte list \<Rightarrow> byte list \<Rightarrow> int \<Rightarrow> byte \<Rightarrow> (byte \<times> byte list) res" where
  "str_to_hex_loop dest src nLen i =
     (if sint i < nLen
      then case rd_buf src (2 * sint i) of Inl e \<Rightarrow> Inl e
           | Inr h1 \<Rightarrow> (case rd_buf src (2 * sint i + 1) of Inl e \<Rightarrow> Inl e
           | Inr h2 \<Rightarrow> (case wr_buf dest (sint i) (hex_digit h1 * 16 + hex_digit h2) of Inl e \<Rightarrow> Inl e
           | Inr dest' \<Rightarrow> str_to_hex_loop dest' src nLen (i + 1)))
      else Inr (i, dest))"
  by pat_completeness auto

termination
  by (relation "measure (\<lambda>(dest, src, nLen, i). if sint i < 0 then 0 else Suc (nat (128 - sint i)))")
     (auto dest!: rd_buf_range simp: char_succ char_bound)

declare str_to_hex_loop.simps [simp del]

definition coap_str_to_hex :: "byte list \<Rightarrow> byte list \<Rightarrow> int \<Rightarrow> (byte \<times> byte list) res" where
  "coap_str_to_hex pbDest pbSrc nLen = str_to_hex_loop pbDest pbSrc nLen 0"

section \<open>Sending ends\<close>

lemma sock_send_eq:
  "sock_send sys fd bytes s
     = (sys (tick s), s\<lparr>tick := Suc (tick s), sent := sent s @ [(fd, bytes)]\<rparr>)"
  by (simp add: sock_send_def syscall_def)

text \<open>The condition of the inner loop compares \<open>res\<close> with a total that is \<open>res\<close> itself.\<close>

lemma retry_send_Suc:
  "retry_send sys fd buffer (Suc retry) s =
     (let r = sys (tick s); s1 = s\<lparr>tick := Suc (tick s), sent := sent s @ [(fd, buffer)]\<rparr>
      in if r \<noteq> int (length buffer) \<and> retry > 0 then retry_send sys fd buffer retry s1 else Some (r, s1))"
  by (simp add: sock_send_eq Let_def)

declare retry_send.simps(2) [simp del]

lemma retry_send_runs:
  "\<exists>n. n \<le> k \<and> 0 < n
     \<and> retry_send sys fd buffer (Suc k') s = Some (sys (tick s + n - 1),
         s\<lparr>tick := tick s + n, sent := sent s @ replicate n (fd, buffer)\<rparr>)
     \<and> (sys (tick s + n - 1) = int (length buffer) \<or> n = k)
     \<and> (\<forall>j < n - 1. sys (tick s + j) \<noteq> int (length buffer))" if "k = Suc k'"
  using that
proof (induction k' arbitrary: k s)
  case 0
  then show ?case by (intro exI [of _ 1]) (simp add: retry_send_Suc)
next
  case (Suc k')
  show ?case
  proof (cases "sys (tick s) = int (length buffer)")
    case True
    then show ?thesis using Suc.prems
      by (intro exI [of _ 1]) (simp add: retry_send_Suc [of _ _ _ "Suc k'"])
  next
    case False
    let ?s1 = "s\<lparr>tick := Suc (tick s), sent := sent s @ [(fd, buffer)]\<rparr>"
    obtain n where n: "n \<le> Suc k'" "0 < n"
      "retry_send sys fd buffer (Suc k') ?s1 = Some (sys (tick ?s1 + n - 1),
         ?s1\<lparr>tick := tick ?s1 + n, sent := sent ?s1 @ replicate n (fd, buffer)\<rparr>)"
      "sys (tick ?s1 + n - 1) = int (length buffer) \<or> n = Suc k'"
      "\<forall>j < n - 1. sys (tick ?s1 + j) \<noteq> int (length buffer)"
      using Suc.IH [of "Suc k'" ?s1] by blast
    have "\<forall>j < Suc n - 1. sys (tick s + j) \<noteq> int (length buffer)"
    proof (intro allI impI)
      fix j assume "j < Suc n - 1"
      then show "sys (tick s + j) \<noteq> int (length buffer)" using False n(5)
        by (cases j) auto
    qed
    then show ?thesis using False Suc.prems n(1-4)
      by (intro exI [of _ "Suc n"]) (simp add: retry_send_Suc [of _ _ _ "Suc k'"])
  qed
qed

section \<open>Opening and closing sockets\<close>

lemma set_item_simps [simp]:
  "tick (set_item t f s) = tick s" "sent (set_item t f s) = sent s"
  "closed_fds (set_item t f s) = closed_fds s" "net_wf (set_item t f s) = net_wf s"
  by (simp_all add: set_item_def net_wf_def)

lemma item_set_item:
  "net_wf s \<Longrightarrow> \<not> bad_type t \<Longrightarrow> \<not> bad_type u \<Longrightarrow>
   item (set_item t f s) u = (if u = t then f (item s t) else item s u)"
  by (auto simp: item_def set_item_def net_wf_def bad_type_def nat_eq_iff)

lemma item_update [simp]:
  "item (s\<lparr>tick := a\<rparr>) u = item s u" "item (s\<lparr>closed_fds := b\<rparr>) u = item s u"
  "item (s\<lparr>sent := d\<rparr>) u = item s u"
  by (simp_all add: item_def)

lemma net_wf_update [simp]:
  "net_wf (s\<lparr>tick := a\<rparr>) = net_wf s" "net_wf (s\<lparr>closed_fds := b\<rparr>) = net_wf s"
  "net_wf (s\<lparr>sent := d\<rparr>) = net_wf s"
  by (simp_all add: net_wf_def)

lemma coap_sock_create_cases:
  assumes "net_wf s" "\<not> bad_type t" "coap_sock_create sys t port s = (fd, s')"
  shows "fd = -1 \<and> (\<forall>u. item s' u = item s u) \<or>
    0 \<le> fd \<and> ci_sockfd (item s' t) = fd \<and> ci_handle (item s' t) = 1 \<and> ci_port (item s' t) = port
      \<and> ci_sock_reset (item s' t) = ci_sock_reset (item s t)
      \<and> (\<forall>u. \<not> bad_type u \<longrightarrow> u \<noteq> t \<longrightarrow> item s' u = item s u)"
    and "net_wf s'" "closed_fds s' = closed_fds s" "sent s' = sent s"
  using assms by (auto simp: coap_sock_create_def syscall_def item_set_item split: if_splits prod.splits)

lemma mbtk_coap_sock_init_ok:
  assumes "net_wf s" "mbtk_coap_sock_init sys t port s = (True, s')"
  shows "\<not> bad_type t \<and> 0 \<le> ci_sockfd (item s' t) \<and> net_wf s'
    \<and> (\<forall>u. \<not> bad_type u \<longrightarrow> u \<noteq> t \<longrightarrow> item s' u = item s u)"
proof -
  have t: "\<not> bad_type t" using assms(2) by (auto simp: mbtk_coap_sock_init_def split: if_splits)
  define s1 where "s1 = (if ci_sock_reset (item s t) \<and> ci_sockfd (item s t) > 0
    then set_item t (\<lambda>it. it\<lparr>ci_sock_reset := False\<rparr>) s else s)"
  have s1: "net_wf s1" "\<And>u. \<not> bad_type u \<Longrightarrow> u \<noteq> t \<Longrightarrow> item s1 u = item s u"
    using assms(1) t by (auto simp: s1_def item_set_item)
  obtain fd s2 where c: "coap_sock_create sys t port s1 = (fd, s2)" by fastforce
  note cs = coap_sock_create_cases [OF s1(1) t c]
  show ?thesis
  proof (cases "ci_sockfd (item s t) > 0 \<and> \<not> ci_sock_reset (item s t)")
    case True
    then have "s' = s" using assms t by (auto simp: mbtk_coap_sock_init_def coap_net_open_def)
    then show ?thesis using assms(1) t True by simp
  next
    case False
    then have "0 \<le> fd \<and> (s' = s2 \<or> s' = snd (sys_close sys (ci_sockfd (item s t)) s2))"
      using assms(2) t c
      by (auto simp: mbtk_coap_sock_init_def coap_net_open_def s1_def Let_def split: if_splits)
    then show ?thesis using cs s1(2) t
      by (auto simp: sys_close_def syscall_def)
  qed
qed

lemma coap_sock_close_ok:
  assumes "net_wf s" "coap_sock_close sys t s = (True, s')"
  shows "\<not> bad_type t \<and> ci_sockfd (item s' t) = -1 \<and> net_wf s'
    \<and> closed_fds s' = ci_sockfd (item s t) # closed_fds s
    \<and> (\<forall>u. \<not> bad_type u \<longrightarrow> u \<noteq> t \<longrightarrow> item s' u = item s u)"
  using assms by (auto simp: coap_sock_close_def sys_close_def syscall_def item_set_item Let_def
      split: if_splits)

section \<open>The receive buffer\<close>

lemma coap_thread_round_overflow:
  assumes "\<not> sys (tick s) < 0" "ci_handle (item s 0) > 0" "ci_sockfd (item s 0) > 0"
    "length mesg = MAXLINE" "sys (Suc (tick s)) = int MAXLINE" "MAXLINE \<le> length (rx (Suc (tick s)))"
  shows "coap_thread_round sys rx eintr True cb mesg s st = Inl OutOfBounds"
proof -
  have w: "wr_bytes mesg 0 (replicate MAXLINE 0) = Inr (replicate MAXLINE 0)"
    using assms(4) by (simp add: wr_bytes_ok)
  let ?d = "take MAXLINE (rx (Suc (tick s)))"
  have ld: "length ?d = MAXLINE" using assms(6) by simp
  have w2: "wr_bytes (replicate MAXLINE 0) 0 ?d = Inr ?d"
    using ld by (simp add: wr_bytes_ok)
  have oob: "wr_buf ?d (int MAXLINE) 0 = Inl OutOfBounds"
    using ld by (simp add: wr_buf_def)
  have pos: "0 < int MAXLINE" by (simp add: MAXLINE_def)
  show ?thesis
    using assms(1-3,5) w w2 oob pos
    by (simp add: coap_thread_round_def mbtk_coap_udp_recvfrom_def syscall_def Let_def bad_type_def
        MBTK_COAP_TYPE_MAX_def del: wr_bytes.simps)
qed

lemma coap_thread_round_safe:
  assumes "length mesg = MAXLINE" "sys (Suc (tick s)) < int MAXLINE"
  shows "coap_thread_round sys rx eintr True None mesg s st \<noteq> Inl OutOfBounds"
proof -
  have w: "wr_bytes mesg 0 (replicate MAXLINE 0) = Inr (replicate MAXLINE 0)"
    using assms(1) by (simp add: wr_bytes_ok)
  let ?d = "take (nat (sys (Suc (tick s)))) (take MAXLINE (rx (Suc (tick s))))"
  have ld: "length ?d \<le> MAXLINE" by simp
  have w2: "wr_bytes (replicate MAXLINE 0) 0 ?d = Inr (?d @ drop (length ?d) (replicate MAXLINE 0))"
    using ld by (simp add: wr_bytes_ok)
  have "length (?d @ drop (length ?d) (replicate MAXLINE (0 :: byte))) = MAXLINE" using ld by simp
  then have "is_ok (wr_buf (?d @ drop (length ?d) (replicate MAXLINE 0)) (sys (Suc (tick s))) 0)"
    if "0 < sys (Suc (tick s))" using that assms(2) by (simp only: is_ok_wr_buf) simp
  then show ?thesis using w w2
    by (auto simp: coap_thread_round_def mbtk_coap_udp_recvfrom_def syscall_def Let_def is_ok_iff
        simp del: wr_bytes.simps drop_replicate split: sum.splits)
qed

section \<open>Hexadecimal digits\<close>

definition hexc :: "bool \<Rightarrow> byte \<Rightarrow> byte" where
  "hexc upper n = (if n < 10 then 0x30 + n else if upper then 0x37 + n else 0x57 + n)"

definition hexprint :: "bool \<Rightarrow> byte list \<Rightarrow> byte list" where
  "hexprint upper bs = concat (map (\<lambda>b. [hexc upper (drop_bit 4 b), hexc upper (b AND 0x0F)]) bs)"

lemma hexc_table: "\<forall>u \<in> set [True, False]. \<forall>n \<in> set [0..<16].
    hex_digit (hexc u (of_nat n)) = of_nat n \<and> HEXCHAR (hexc u (of_nat n)) \<and> hexc u (of_nat n) \<noteq> 0"
  by code_simp

lemma hexc_digit: "n < 16 \<Longrightarrow> hex_digit (hexc u n) = n \<and> HEXCHAR (hexc u n) \<and> hexc u n \<noteq> 0"
proof -
  assume "n < 16"
  then have "unat n \<in> set [0..<16]" by (simp add: word_less_nat_alt)
  moreover have "u \<in> set [True, False]" by simp
  ultimately have "hex_digit (hexc u (of_nat (unat n))) = of_nat (unat n)
    \<and> HEXCHAR (hexc u (of_nat (unat n))) \<and> hexc u (of_nat (unat n)) \<noteq> 0"
    using hexc_table by blast
  then show ?thesis by simp
qed

lemma byte_nibbles: "drop_bit 4 (b :: byte) < 16" "(b AND 0x0F) < 16"
  "drop_bit 4 b * 16 + (b AND 0x0F) = b"
proof -
  show "drop_bit 4 b < 16"
    using unsigned_less [of b, where 'a = nat]
    by (simp add: word_less_nat_alt drop_bit_eq_div unat_div)
  show "b AND 0x0F < 16"
    using word_and_le1 [of b "0x0F"] by (simp add: word_le_nat_alt word_less_nat_alt)
  have "drop_bit 4 b * 16 + (b AND 0x0F) = push_bit 4 (drop_bit 4 b) + take_bit 4 b"
    by (simp add: push_bit_eq_mult take_bit_eq_mask mask_eq_exp_minus_1)
  also have "\<dots> = b" by (simp add: bits_ident)
  finally show "drop_bit 4 b * 16 + (b AND 0x0F) = b" .
qed

lemma hexprint_nth:
  "k < length bs \<Longrightarrow> hexprint u bs ! (2 * k) = hexc u (drop_bit 4 (bs ! k))
     \<and> hexprint u bs ! (2 * k + 1) = hexc u (bs ! k AND 0x0F)"
proof (induction bs arbitrary: k)
  case (Cons b bs)
  then show ?case by (cases k) (simp_all add: hexprint_def)
qed simp

lemma length_hexprint [simp]: "length (hexprint u bs) = 2 * length bs"
  by (induction bs) (simp_all add: hexprint_def)

lemma sint_of_nat_small: "k < 128 \<Longrightarrow> sint (of_nat k :: byte) = int k"
  by (simp add: signed_of_nat signed_take_bit_int_eq_self)

lemma str_to_hex_step:
  "sint i = k \<Longrightarrow> k < nLen \<Longrightarrow> rd_buf src (2 * k) = Inr h1 \<Longrightarrow> rd_buf src (2 * k + 1) = Inr h2 \<Longrightarrow>
   wr_buf dest k (hex_digit h1 * 16 + hex_digit h2) = Inr dest' \<Longrightarrow>
   str_to_hex_loop dest src nLen i = str_to_hex_loop dest' src nLen (i + 1)"
  by (subst str_to_hex_loop.simps) simp

lemma str_to_hex_loop_run:
  assumes "k \<le> length bs" "length bs < 128" "length bs \<le> length dest"
  shows "str_to_hex_loop (take k bs @ drop k dest) (hexprint u bs @ rest) (int (length bs)) (of_nat k)
    = Inr (of_nat (length bs), bs @ drop (length bs) dest)"
  using assms
proof (induction "length bs - k" arbitrary: k)
  case 0
  then show ?case by (subst str_to_hex_loop.simps) (simp add: sint_of_nat_small)
next
  case (Suc n)
  then have k: "k < length bs" by simp
  have si: "sint (of_nat k :: byte) = int k" using k Suc.prems by (intro sint_of_nat_small) simp
  have r1: "rd_buf (hexprint u bs @ rest) (2 * int k) = Inr (hexc u (drop_bit 4 (bs ! k)))"
    using hexprint_nth [OF k, of u] k by (simp add: rd_buf_def nat_mult_distrib nth_append)
  have r2: "rd_buf (hexprint u bs @ rest) (2 * int k + 1) = Inr (hexc u (bs ! k AND 0x0F))"
    using hexprint_nth [OF k, of u] k by (simp add: rd_buf_def nat_add_distrib nat_mult_distrib nth_append)
  have v: "hex_digit (hexc u (drop_bit 4 (bs ! k))) * 16 + hex_digit (hexc u (bs ! k AND 0x0F)) = bs ! k"
    using hexc_digit [OF byte_nibbles(1)] hexc_digit [OF byte_nibbles(2)] byte_nibbles(3) by metis
  have "drop k dest = dest ! k # drop (Suc k) dest"
    using k Suc.prems by (simp add: Cons_nth_drop_Suc)
  then have w: "wr_buf (take k bs @ drop k dest) (int k) (bs ! k)
      = Inr (take (Suc k) bs @ drop (Suc k) dest)"
    using wr_buf_at [of "int k" "take k bs" "dest ! k" "drop (Suc k) dest" "bs ! k"] k
    by (simp add: take_Suc_conv_app_nth)
  have "str_to_hex_loop (take (Suc k) bs @ drop (Suc k) dest) (hexprint u bs @ rest)
      (int (length bs)) (of_nat (Suc k)) = Inr (of_nat (length bs), bs @ drop (length bs) dest)"
    by (rule Suc.hyps(1)) (use Suc.hyps(2) Suc.prems k in simp_all)
  moreover have "str_to_hex_loop (take k bs @ drop k dest) (hexprint u bs @ rest) (int (length bs)) (of_nat k)
      = str_to_hex_loop (take (Suc k) bs @ drop (Suc k) dest) (hexprint u bs @ rest)
          (int (length bs)) (of_nat k + 1)"
    by (rule str_to_hex_step [OF si _ r1 r2]) (use k in \<open>simp_all add: v w\<close>)
  ultimately show ?case by (simp add: add.commute)
qed

lemma coap_str_to_hex_print:
  assumes "length bs < 128" "length bs \<le> length dest"
  shows "coap_str_to_hex dest (hexprint u bs @ rest) (int (length bs))
    = Inr (of_nat (length bs), bs @ drop (length bs) dest)"
  using str_to_hex_loop_run [of 0 bs dest u rest] assms by (simp add: coap_str_to_hex_def)

lemma hex_right_loop_print:
  assumes "k \<le> 2 * length bs"
  shows "hex_right_loop (hexprint u bs @ rest) (int (2 * length bs)) (int k) = Inr True"
  using assms
proof (induction "2 * length bs - k" arbitrary: k)
  case 0
  then show ?case by (subst hex_right_loop.simps) simp
next
  case (Suc n)
  then have k: "k < 2 * length bs" by simp
  define j where "j = k div 2"
  have j: "j < length bs" "k = 2 * j \<or> k = 2 * j + 1" using k by (auto simp: j_def)
  have "HEXCHAR (hexprint u bs ! k) \<and> hexprint u bs ! k \<noteq> 0"
    using j(2) hexprint_nth [OF j(1), of u] hexc_digit [OF byte_nibbles(1)] hexc_digit [OF byte_nibbles(2)]
    by auto
  moreover have "rd_buf (hexprint u bs @ rest) (int k) = Inr (hexprint u bs ! k)"
    using k by (simp add: rd_buf_def nth_append)
  moreover have "hex_right_loop (hexprint u bs @ rest) (int (2 * length bs)) (int (Suc k)) = Inr True"
    by (rule Suc.hyps(1)) (use Suc.hyps(2) k in simp_all)
  ultimately show ?case using k by (subst hex_right_loop.simps) (simp add: add.commute)
qed

end
