(* ===== verification/Coap_Client.thy ===== *)
theory Coap_Client
  imports Coap_Api Coap_Generic
begin

text \<open>
  The CoAP client \<open>coap/mbtk_coap_base.c\<close>: a linked list of packages that wait for
  their acknowledgement, each with a linked list of options.  Packages and option nodes
  live in two maps from addresses, so that the tail pointer, the unlinking of a node and the
  access to freed nodes are those of the code.
\<close>

section \<open>State\<close>

text \<open>The environment: the heap of the PDU, malloc of the n-th client block, whether a freed
  option node still shows its old content (as glibc leaves it) or reading it is a fault,
  whether getOptions gets memory, and the results of the system calls.\<close>

record cenv =
  env_heap :: heap_env
  mal_ok :: "nat \<Rightarrow> bool"
  stale :: bool
  opts_ok :: bool
  env_sys :: "nat \<Rightarrow> int"

datatype opt_val =
    OptNone
  | OptStr "byte list"
  | OptInt u32
  | OptBlock int u32 byte          \<comment> \<open>size, number, more_flag\<close>
  | OptFormat int

record opt_node =
  on_type :: coap_option_type
  on_val :: opt_val
  on_next :: "nat option"
  on_live :: bool

record package =
  send_count :: byte
  pk_version :: byte
  pk_type :: coap_type
  pk_code :: coap_code
  pk_token :: "byte list"
  token_len :: byte
  pk_message_id :: u16
  pk_options :: "nat option"
  playload :: "byte list option"
  playload_len :: u16
  pk_next :: "nat option"

record client =
  pkgs :: "nat \<Rightarrow> package option"
  onodes :: "nat \<Rightarrow> opt_node option"
  fresh :: nat
  mbtk_coaps :: "nat option"
  mbtk_coaps_tail :: "nat option"
  mbtk_coap_message_id :: u16
  c_api :: api
  c_net :: coap_net

definition get_pkg :: "nat \<Rightarrow> client \<Rightarrow> package res" where
  "get_pkg a s = (case pkgs s a of None \<Rightarrow> Inl UseAfterFree | Some p \<Rightarrow> Inr p)"

definition put_pkg :: "nat \<Rightarrow> package \<Rightarrow> client \<Rightarrow> client" where
  "put_pkg a p s = s\<lparr>pkgs := (pkgs s)(a \<mapsto> p)\<rparr>"

definition upd_pkg :: "nat \<Rightarrow> (package \<Rightarrow> package) \<Rightarrow> client \<Rightarrow> client res" where
  "upd_pkg a f s = rmap (\<lambda>p. put_pkg a (f p) s) (get_pkg a s)"

definition get_node :: "cenv \<Rightarrow> nat \<Rightarrow> client \<Rightarrow> opt_node res" where
  "get_node e a s =
     (case onodes s a of
        None \<Rightarrow> Inl Dangling
      | Some n \<Rightarrow> if on_live n \<or> stale e then Inr n else Inl UseAfterFree)"

text \<open>An unchecked malloc: the code writes through the result.\<close>

definition malloc_addr :: "cenv \<Rightarrow> client \<Rightarrow> (nat \<times> client) res" where
  "malloc_addr e s = (if mal_ok e (fresh s) then Inr (fresh s, s\<lparr>fresh := Suc (fresh s)\<rparr>) else Inl NullDeref)"

section \<open>Packages and their fields\<close>

definition package_init :: "u16 \<Rightarrow> package" where
  "package_init message_id =
     \<lparr>send_count = 0, pk_version = 1, pk_type = COAP_CONFIRMABLE, pk_code = COAP_EMPTY,
      pk_token = replicate 8 0, token_len = 0, pk_message_id = message_id, pk_options = None,
      playload = None, playload_len = 0, pk_next = None\<rparr>"

definition mbtk_coap_list_item_init :: "nat \<Rightarrow> u16 \<Rightarrow> client \<Rightarrow> client" where
  "mbtk_coap_list_item_init a message_id s = put_pkg a (package_init message_id) s"

text \<open>The loop over the options: each node is freed and then asked for its successor.  A
  walk over more nodes than were ever allocated is a walk on a cycle.\<close>

fun free_options :: "cenv \<Rightarrow> nat \<Rightarrow> nat option \<Rightarrow> client \<Rightarrow> client res" where
  "free_options e fuel None s = Inr s"
| "free_options e 0 (Some a) s = Inl Diverges"
| "free_options e (Suc fuel) (Some a) s =
     (case onodes s a of
        None \<Rightarrow> Inl Dangling
      | Some n \<Rightarrow>
          if \<not> on_live n then Inl DoubleFree
          else let s1 = s\<lparr>onodes := (onodes s)(a \<mapsto> n\<lparr>on_live := False\<rparr>)\<rparr>
               in rbind (get_node e a s1) (\<lambda>n'. free_options e fuel (on_next n') s1))"

definition mbtk_coap_free :: "cenv \<Rightarrow> nat \<Rightarrow> client \<Rightarrow> client res" where
  "mbtk_coap_free e a s =
     rbind (get_pkg a s) (\<lambda>p.
     rbind (free_options e (fresh s) (pk_options p) s) (\<lambda>s1.
     Inr (s1\<lparr>pkgs := (pkgs s1)(a := None)\<rparr>)))"

definition mbtk_coap_set_payload :: "cenv \<Rightarrow> nat option \<Rightarrow> byte list option \<Rightarrow> u16 \<Rightarrow> client \<Rightarrow> client res" where
  "mbtk_coap_set_payload e coap data data_len s =
     (case coap of None \<Rightarrow> Inr s
      | Some a \<Rightarrow>
          rbind (malloc_addr e s) (\<lambda>(_, s1).
          rbind (src_bytes data (uint data_len)) (\<lambda>d.
          upd_pkg a (\<lambda>p. p\<lparr>playload := Some d, playload_len := data_len\<rparr>) s1)))"

definition mbtk_coap_set_token :: "nat option \<Rightarrow> byte list option \<Rightarrow> byte \<Rightarrow> client \<Rightarrow> client res" where
  "mbtk_coap_set_token coap token len s =
     (case coap of None \<Rightarrow> Inr s
      | Some a \<Rightarrow>
          rbind (src_bytes token (uint len)) (\<lambda>t.
          rbind (wr_bytes (replicate 8 0) 0 t) (\<lambda>buf.
          upd_pkg a (\<lambda>p. p\<lparr>token_len := len, pk_token := buf\<rparr>) s)))"

fun find_option :: "cenv \<Rightarrow> client \<Rightarrow> nat \<Rightarrow> nat option \<Rightarrow> coap_option_type \<Rightarrow> nat option res" where
  "find_option e s fuel None t = Inr None"
| "find_option e s 0 (Some a) t = Inl Diverges"
| "find_option e s (Suc fuel) (Some a) t =
     rbind (get_node e a s) (\<lambda>n.
       if on_type n = t then Inr (Some a) else find_option e s fuel (on_next n) t)"

definition is_str_option :: "coap_option_type \<Rightarrow> bool" where
  "is_str_option t = (t \<in> {COAP_OPTION_IF_MATCH, COAP_OPTION_URI_HOST, COAP_OPTION_ETAG,
     COAP_OPTION_IF_NONE_MATCH, COAP_OPTION_LOCATION_PATH, COAP_OPTION_URI_QUERY,
     COAP_OPTION_LOCATION_QUERY, COAP_OPTION_PROXY_URI, COAP_OPTION_PROXY_SCHEME,
     COAP_OPTION_URI_PATH})"

text \<open>The switch of \<open>mbtk_coap_set_option\<close>: the new value of the union.\<close>

definition option_value :: "coap_option_type \<Rightarrow> byte list option \<Rightarrow> int \<Rightarrow> int \<Rightarrow> int \<Rightarrow> opt_val res" where
  "option_value t str int0 int1 int2 =
     (if is_str_option t
      then (case str of None \<Rightarrow> Inl NullDeref
            | Some x \<Rightarrow> rmap OptStr (wr_bytes (replicate 128 0) 0 x))
      else if t \<in> {COAP_OPTION_OBSERVE, COAP_OPTION_MAX_AGE, COAP_OPTION_URI_PORT,
                   COAP_OPTION_SIZE2, COAP_OPTION_SIZE1}
      then Inr (OptInt (word_of_int int0))
      else if t \<in> {COAP_OPTION_BLOCK2, COAP_OPTION_BLOCK1}
      then Inr (OptBlock int0 (word_of_int int1) (word_of_int int2))
      else Inr (OptFormat int0))"

definition mbtk_coap_set_option :: "cenv \<Rightarrow> nat option \<Rightarrow> coap_option_type \<Rightarrow> byte list option \<Rightarrow>
    int \<Rightarrow> int \<Rightarrow> int \<Rightarrow> client \<Rightarrow> client res" where
  "mbtk_coap_set_option e coap t str int0 int1 int2 s =
     (case coap of None \<Rightarrow> Inr s
      | Some a \<Rightarrow>
          rbind (get_pkg a s) (\<lambda>p.
          rbind (find_option e s (fresh s) (pk_options p) t) (\<lambda>found.
          rbind (case found of
                   Some o1 \<Rightarrow> Inr (o1, s)
                 | None \<Rightarrow>
                     rmap (\<lambda>(o1, s1).
                       (o1, put_pkg a (p\<lparr>pk_options := Some o1\<rparr>)
                              (s1\<lparr>onodes := (onodes s1)(o1 \<mapsto>
                                   \<lparr>on_type = t, on_val = OptNone, on_next = pk_options p,
                                    on_live = True\<rparr>)\<rparr>)))
                       (malloc_addr e s)) (\<lambda>(o1, s2).
          rbind (option_value t str int0 int1 int2) (\<lambda>v.
          rmap (\<lambda>n. s2\<lparr>onodes := (onodes s2)(o1 \<mapsto> n\<lparr>on_val := v\<rparr>)\<rparr>)
            (get_node e o1 s2))))))"

definition mbtk_coap_set_type :: "nat option \<Rightarrow> coap_type \<Rightarrow> client \<Rightarrow> client res" where
  "mbtk_coap_set_type coap t s =
     (case coap of None \<Rightarrow> Inr s | Some a \<Rightarrow> upd_pkg a (\<lambda>p. p\<lparr>pk_type := t\<rparr>) s)"

definition mbtk_coap_set_code :: "nat option \<Rightarrow> coap_code \<Rightarrow> client \<Rightarrow> client res" where
  "mbtk_coap_set_code coap c s =
     (case coap of None \<Rightarrow> Inr s | Some a \<Rightarrow> upd_pkg a (\<lambda>p. p\<lparr>pk_code := c\<rparr>) s)"

section \<open>The list of packages\<close>

fun find_pkg :: "client \<Rightarrow> nat \<Rightarrow> nat option \<Rightarrow> u16 \<Rightarrow> nat option res" where
  "find_pkg s fuel None i = Inr None"
| "find_pkg s 0 (Some a) i = Inl Diverges"
| "find_pkg s (Suc fuel) (Some a) i =
     rbind (get_pkg a s) (\<lambda>p.
       if pk_message_id p = i then Inr (Some a) else find_pkg s fuel (pk_next p) i)"

definition mbtk_coap_get_by_msg_id :: "u16 \<Rightarrow> client \<Rightarrow> nat option res" where
  "mbtk_coap_get_by_msg_id i s = find_pkg s (fresh s) (mbtk_coaps s) i"

text \<open>The result is the new package, or NULL when the id is already in the list.\<close>

definition mbtk_coap_list_add :: "cenv \<Rightarrow> u16 \<Rightarrow> client \<Rightarrow> (nat option \<times> client) res" where
  "mbtk_coap_list_add e i s =
     (case mbtk_coaps s of
        None \<Rightarrow>
          rmap (\<lambda>(a, s1). (Some a, (mbtk_coap_list_item_init a i s1)\<lparr>mbtk_coaps := Some a,
                                       mbtk_coaps_tail := Some a\<rparr>)) (malloc_addr e s)
      | Some hd1 \<Rightarrow>
          rbind (find_pkg s (fresh s) (Some hd1) i) (\<lambda>found.
            if found \<noteq> None then Inr (None, s)
            else case mbtk_coaps_tail s of
                None \<Rightarrow> Inl NullDeref
              | Some tl1 \<Rightarrow>
                  rbind (malloc_addr e s) (\<lambda>(a, s1).
                  rmap (\<lambda>s2. (Some a, (mbtk_coap_list_item_init a i s2)\<lparr>mbtk_coaps_tail := Some a\<rparr>))
                    (upd_pkg tl1 (\<lambda>p. p\<lparr>pk_next := Some a\<rparr>) s1))))"

fun list_del_loop :: "cenv \<Rightarrow> client \<Rightarrow> nat \<Rightarrow> nat \<Rightarrow> u16 \<Rightarrow> (bool \<times> client) res" where
  "list_del_loop e s 0 coap i = Inl Diverges"
| "list_del_loop e s (Suc fuel) coap i =
     rbind (get_pkg coap s) (\<lambda>p.
       case pk_next p of
         None \<Rightarrow> Inr (False, s)
       | Some b \<Rightarrow>
           rbind (get_pkg b s) (\<lambda>q.
             if pk_message_id q = i
             then let s1 = (if mbtk_coaps_tail s = Some b then s\<lparr>mbtk_coaps_tail := Some coap\<rparr> else s)
                  in rbind (upd_pkg coap (\<lambda>p. p\<lparr>pk_next := pk_next q\<rparr>) s1) (\<lambda>s2.
                     rmap (Pair True) (mbtk_coap_free e b s2))
             else list_del_loop e s fuel b i))"

definition mbtk_coap_list_del :: "cenv \<Rightarrow> u16 \<Rightarrow> client \<Rightarrow> (bool \<times> client) res" where
  "mbtk_coap_list_del e i s =
     (case mbtk_coaps s of
        None \<Rightarrow> Inr (False, s)
      | Some a \<Rightarrow>
          rbind (get_pkg a s) (\<lambda>p.
            if pk_message_id p = i
            then rmap (Pair True) (mbtk_coap_free e a (s\<lparr>mbtk_coaps := pk_next p\<rparr>))
            else list_del_loop e s (fresh s) a i))"

section \<open>Sending\<close>

definition on_api :: "(api \<Rightarrow> ('r \<times> api) res) \<Rightarrow> client \<Rightarrow> ('r \<times> client) res" where
  "on_api f s = rmap (\<lambda>(r, a). (r, s\<lparr>c_api := a\<rparr>)) (f (c_api s))"

text \<open>The block option's bytes: 4, 12 or 20 bits of number, the flag, the size.\<close>

definition block_encode :: "int \<Rightarrow> u32 \<Rightarrow> byte \<Rightarrow> byte list" where
  "block_encode sz number mf =
     (let low = (ucast (push_bit 4 number) AND 0xF0) OR (push_bit 3 mf AND 0x08)
                  OR (word_of_int sz AND 0x07)
      in if number \<le> 0x0F then [low]
         else if number \<le> 0x0FFF then [ucast (drop_bit 4 number), low]
         else [ucast (drop_bit 12 number), ucast (drop_bit 4 number), low])"

definition api_add_option :: "heap_env \<Rightarrow> coap_option_type \<Rightarrow> byte list \<Rightarrow> client \<Rightarrow> client res" where
  "api_add_option h t v s =
     rmap snd (on_api (coapAddOption h (opt_num t) (of_nat (length v)) (Some v)) s)"

text \<open>\<open>mbtk_coap_option_add\<close>: many option types are stored by \<open>set_option\<close> but
  never sent.\<close>

definition mbtk_coap_option_add :: "cenv \<Rightarrow> opt_node \<Rightarrow> client \<Rightarrow> client res" where
  "mbtk_coap_option_add e n s =
     (let t = on_type n; h = env_heap e in
      if t \<in> {COAP_OPTION_BLOCK2, COAP_OPTION_BLOCK1}
      then (case on_val n of
              OptBlock sz number mf \<Rightarrow> api_add_option h t (block_encode sz number mf) s
            | _ \<Rightarrow> Inr s)
      else if t \<in> {COAP_OPTION_MAX_AGE, COAP_OPTION_OBSERVE}
      then (case on_val n of OptInt i \<Rightarrow> api_add_option h t [ucast i] s | _ \<Rightarrow> Inr s)
      else if t = COAP_OPTION_URI_QUERY
      then (case on_val n of
              OptStr buf \<Rightarrow> rbind (mem_str buf) (\<lambda>q. rmap snd (on_api (coapAddURIQuery h (Some q)) s))
            | _ \<Rightarrow> Inr s)
      else if t = COAP_OPTION_URI_PATH
      then (case on_val n of
              OptStr buf \<Rightarrow> rbind (mem_str buf) (\<lambda>u. rmap snd (on_api (coapSetURI h (Some u)) s))
            | _ \<Rightarrow> Inr s)
      else if t = COAP_OPTION_CONTENT_FORMAT
      then (case on_val n of OptFormat f \<Rightarrow> rmap snd (on_api (coapSetContentFormat h f) s) | _ \<Rightarrow> Inr s)
      else Inr s)"

fun send_options :: "cenv \<Rightarrow> nat \<Rightarrow> nat option \<Rightarrow> client \<Rightarrow> client res" where
  "send_options e fuel None s = Inr s"
| "send_options e 0 (Some a) s = Inl Diverges"
| "send_options e (Suc fuel) (Some a) s =
     rbind (get_node e a s) (\<lambda>n.
     rbind (mbtk_coap_option_add e n s) (\<lambda>s1. send_options e fuel (on_next n) s1))"

text \<open>\<open>mbtk_coap_udp_sendto\<close> on \<open>pduLen\<close> bytes of the PDU; its length parameter is
  a \<open>uint16\<close>.\<close>

definition send_pdu :: "cenv \<Rightarrow> client \<Rightarrow> ((int \<times> int) \<times> client) res" where
  "send_pdu e s =
     rbind (coapGetPDUPointer (c_api s)) (\<lambda>mem.
     rbind (on_api (coapGetPDULength (env_heap e)) s) (\<lambda>(pduLen, s1).
     rbind (src_bytes (Some mem) (uint (word_of_int pduLen :: u16))) (\<lambda>bytes.
     case mbtk_coap_udp_sendto (env_sys e) 0 bytes (c_net s1) of
       None \<Rightarrow> Inl Diverges
     | Some (r, net) \<Rightarrow> Inr ((r, pduLen), s1\<lparr>c_net := net\<rparr>))))"

text \<open>Everything that \<open>mbtk_coap_coap_send\<close> does before the datagram leaves.\<close>

definition build_pdu :: "cenv \<Rightarrow> package \<Rightarrow> client \<Rightarrow> client res" where
  "build_pdu e p s =
     (let h = env_heap e in
      rbind (on_api (coapReset h) s) (\<lambda>(_, s1).
      rbind (on_api (coapSetVersion h (pk_version p)) s1) (\<lambda>(_, s2).
      rbind (on_api (coapSetType h (pk_type p)) s2) (\<lambda>(_, s3).
      rbind (on_api (coapSetCode h (code_val (pk_code p))) s3) (\<lambda>(_, s4).
      rbind (on_api (coapSetMessageID h (pk_message_id p)) s4) (\<lambda>(_, s5).
      rbind (if token_len p > 0
             then rmap snd (on_api (coapSetToken h (Some (pk_token p)) (token_len p)) s5)
             else Inr s5) (\<lambda>s6.
      rbind (send_options e (fresh s6) (pk_options p) s6) (\<lambda>s7.
      if playload_len p > 0
      then rmap snd (on_api (coapSetPayload h (playload p) (uint (playload_len p))) s7)
      else Inr s7))))))))"

definition mbtk_coap_coap_send :: "cenv \<Rightarrow> nat option \<Rightarrow> client \<Rightarrow> client res" where
  "mbtk_coap_coap_send e coap s =
     (case coap of None \<Rightarrow> Inr s
      | Some a \<Rightarrow>
          rbind (get_pkg a s) (\<lambda>p.
          rbind (build_pdu e p s) (\<lambda>s1.
          rbind (send_pdu e s1) (\<lambda>((send_len, pduLen), s2).
          rbind (if send_len \<noteq> pduLen then upd_pkg a (\<lambda>p. p\<lparr>send_count := send_count p + 1\<rparr>) s2
                 else Inr s2) (\<lambda>s3.
          if pk_type p \<noteq> COAP_CONFIRMABLE
          then rmap snd (mbtk_coap_list_del e (pk_message_id p) s3)
          else Inr s3)))))"

definition mbtk_coap_send_ack :: "cenv \<Rightarrow> int \<Rightarrow> u16 \<Rightarrow> byte \<Rightarrow> byte list \<Rightarrow> client \<Rightarrow> client res" where
  "mbtk_coap_send_ack e code message_id tlen token s =
     (let h = env_heap e in
      rbind (on_api (coapReset h) s) (\<lambda>(_, s1).
      rbind (on_api (coapSetVersion h 1) s1) (\<lambda>(_, s2).
      rbind (on_api (coapSetType h COAP_ACKNOWLEDGEMENT) s2) (\<lambda>(_, s3).
      rbind (on_api (coapSetMessageID h message_id) s3) (\<lambda>(_, s4).
      rbind (on_api (coapSetCode h (if code = code_val COAP_POST \<or> code = code_val COAP_PUT
               then code_val COAP_CHANGED else code_val COAP_EMPTY)) s4) (\<lambda>(_, s5).
      rbind (if tlen > 0 then rmap snd (on_api (coapSetToken h (Some token) tlen) s5) else Inr s5) (\<lambda>s6.
      rmap snd (send_pdu e s6))))))))"

section \<open>Receiving\<close>

text \<open>An acknowledgement: the next block is requested under a new message id, or the
  package is done.\<close>

definition resolve_ack :: "cenv \<Rightarrow> u16 \<Rightarrow> client \<Rightarrow> client res" where
  "resolve_ack e message_id s =
     rbind (mbtk_coap_get_by_msg_id message_id s) (\<lambda>coap_send.
     case coap_send of None \<Rightarrow> Inr s
     | Some a \<Rightarrow>
         rbind (coapGetRecvOptionBlock2 (opts_ok e) (c_api s)) (\<lambda>block.
         case block of
           None \<Rightarrow> rmap snd (mbtk_coap_list_del e message_id s)
         | Some (number, more_flag, sz) \<Rightarrow>
             if more_flag \<noteq> 0
             then let i = mbtk_coap_message_id s;
                      s1 = s\<lparr>mbtk_coap_message_id := i + 1\<rparr>
                  in rbind (upd_pkg a (\<lambda>p. p\<lparr>pk_message_id := i\<rparr>) s1) (\<lambda>s2.
                     rbind (mbtk_coap_set_option e (Some a) COAP_OPTION_BLOCK2 None
                              (uint sz) (uint (number + 1)) 0 s2) (\<lambda>s3.
                     mbtk_coap_coap_send e (Some a) s3))
             else rmap snd (mbtk_coap_list_del e message_id s)))"

text \<open>The token is copied into a buffer of 9 bytes, the Uri-Path into one of 100.\<close>

definition recv_token :: "api \<Rightarrow> (byte \<times> byte list) res" where
  "recv_token s =
     rbind (coapGetRecvTokenLength s) (\<lambda>n.
     let token_len = (word_of_int n :: byte) in
     rbind (coapGetRecvTokenPointer s) (\<lambda>ptr.
     rbind (case ptr of None \<Rightarrow> src_bytes None (uint token_len)
            | Some off \<Rightarrow> on_recv (\<lambda>p. rd_bytes (pdu_mem p) off (unat token_len)) s) (\<lambda>t.
     rmap (Pair token_len) (wr_bytes (replicate 9 0) 0 t))))"

definition mbtk_coap_recv_resolve :: "cenv \<Rightarrow> byte list \<Rightarrow> u16 \<Rightarrow> client \<Rightarrow> client res" where
  "mbtk_coap_recv_resolve e data data_len s =
     rbind (on_api (coapCreateRecv data (uint data_len)) s) (\<lambda>(r, s1).
     if r \<le> 0 then Inr (s1\<lparr>c_api := coapDeleteRecv (c_api s1)\<rparr>)
     else
       rbind (coapGetRecvType (c_api s1)) (\<lambda>type.
       rbind (coapGetRecvCode (c_api s1)) (\<lambda>code.
       rbind (coapGetRecvMessageID (c_api s1)) (\<lambda>message_id.
       rbind (recv_token (c_api s1)) (\<lambda>(tlen, token).
       rbind (coapGetRecvOptionUriPath (opts_ok e) (replicate 100 0) (c_api s1)) (\<lambda>_.
       if type = type_val COAP_CONFIRMABLE
       then mbtk_coap_send_ack e code message_id tlen token s1
       else if type = type_val COAP_NON_CONFIRMABLE then Inr s1
       else if type = type_val COAP_ACKNOWLEDGEMENT then resolve_ack e message_id s1
       else Inr s1))))))"

definition coap_read_cb :: "cenv \<Rightarrow> byte list \<Rightarrow> u16 \<Rightarrow> client \<Rightarrow> client res" where
  "coap_read_cb e data data_len s =
     (if data_len > 0 then mbtk_coap_recv_resolve e data data_len s else Inr s)"

section \<open>The command line\<close>

definition command_code :: "byte list \<Rightarrow> coap_code option" where
  "command_code a =
     (if strncmp_eq 3 (bytes_of ''GET'') a then Some COAP_GET
      else if strncmp_eq 3 (bytes_of ''POST'') a then Some COAP_POST
      else if strncmp_eq 3 (bytes_of ''PUT'') a then Some COAP_PUT
      else if strncmp_eq 3 (bytes_of ''DELETE'') a then Some COAP_DELETE
      else None)"

text \<open>One line of the main loop, split at the blanks.\<close>

definition mbtk_coap_command :: "cenv \<Rightarrow> byte list list \<Rightarrow> client \<Rightarrow> client res" where
  "mbtk_coap_command e argv s =
     (if length argv = 2 \<or> length argv = 3
      then rbind (mbtk_coap_list_add e (mbtk_coap_message_id s) s) (\<lambda>(coap, s1).
        if coap = None then Inr s1
        else
          let s2 = s1\<lparr>mbtk_coap_message_id := mbtk_coap_message_id s1 + 1\<rparr> in
          rbind (mbtk_coap_set_type coap COAP_CONFIRMABLE s2) (\<lambda>s3.
          case command_code (argv ! 0) of
            None \<Rightarrow> Inr s3
          | Some c \<Rightarrow>
              rbind (mbtk_coap_set_code coap c s3) (\<lambda>s4.
              rbind (mbtk_coap_set_option e coap COAP_OPTION_URI_PATH (Some (argv ! 1)) 0 0 0 s4) (\<lambda>s5.
              rbind (mbtk_coap_set_option e coap COAP_OPTION_MAX_AGE None 1 0 0 s5) (\<lambda>s6.
              rbind (mbtk_coap_set_option e coap COAP_OPTION_CONTENT_FORMAT None
                       (format_val COAP_CONTENT_FORMAT_TEXT_PLAIN) 0 0 s6) (\<lambda>s7.
              rbind (if length argv = 3
                     then mbtk_coap_set_payload e coap (Some (argv ! 2)) (of_nat (length (argv ! 2))) s7
                     else Inr s7) (\<lambda>s8.
              mbtk_coap_coap_send e coap s8)))))))
      else Inr s)"

end
