(* ===== verification/Coap_Store.thy ===== *)
theory Coap_Store
  imports Coap_Client
begin

text \<open>
  The package list of the CoAP client against an abstract list of packages.  The interface
  that the receive and send paths rely on (add, look up and delete by message id) is the
  locale \<open>pkg_store\<close>; the linked list of \<open>mbtk_coap_base.c\<close> is shown to provide it.
\<close>

section \<open>The interface\<close>

fun remove_first :: "('a \<Rightarrow> bool) \<Rightarrow> 'a list \<Rightarrow> 'a list" where
  "remove_first P [] = []"
| "remove_first P (x # xs) = (if P x then xs else x # remove_first P xs)"

lemma remove_first_none: "\<forall>x \<in> set xs. \<not> P x \<Longrightarrow> remove_first P xs = xs"
  by (induction xs) auto

lemma remove_first_split: "\<forall>x \<in> set xs. \<not> P x \<Longrightarrow> P y \<Longrightarrow> remove_first P (xs @ y # ys) = xs @ ys"
  by (induction xs) auto

lemma remove_first_subset: "set (remove_first P xs) \<subseteq> set xs"
  by (induction xs) auto

lemma remove_first_keys:
  "distinct (map f xs) \<Longrightarrow> f ` set (remove_first (\<lambda>x. f x = i) xs) = f ` set xs - {i}"
  by (induction xs) (auto simp: image_iff)

lemma distinct_remove_first: "distinct (map f xs) \<Longrightarrow> distinct (map f (remove_first P xs))"
proof (induction xs)
  case (Cons x xs)
  then show ?case using remove_first_subset [of P xs] by auto
qed simp

locale pkg_store =
  fixes inv :: "'s \<Rightarrow> bool" and view :: "'s \<Rightarrow> 'p list" and pid :: "'p \<Rightarrow> 'i" and mk :: "'i \<Rightarrow> 'p"
    and add :: "'i \<Rightarrow> 's \<Rightarrow> ('a option \<times> 's) res"
    and del :: "'i \<Rightarrow> 's \<Rightarrow> (bool \<times> 's) res"
    and get :: "'i \<Rightarrow> 's \<Rightarrow> 'a option res"
  assumes pid_mk: "pid (mk i) = i"
    and add_dup: "inv s \<Longrightarrow> i \<in> pid ` set (view s) \<Longrightarrow> add i s = Inr (None, s)"
    and add_new: "inv s \<Longrightarrow> i \<notin> pid ` set (view s) \<Longrightarrow>
      \<exists>a s'. add i s = Inr (Some a, s') \<and> inv s' \<and> view s' = view s @ [mk i]"
    and del_first: "inv s \<Longrightarrow> \<exists>s'. del i s = Inr (i \<in> pid ` set (view s), s') \<and> inv s'
      \<and> view s' = remove_first (\<lambda>p. pid p = i) (view s)"
    and get_iff: "inv s \<Longrightarrow> \<exists>r. get i s = Inr r \<and> (r = None \<longleftrightarrow> i \<notin> pid ` set (view s))"
begin

definition unique :: "'s \<Rightarrow> bool" where
  "unique s \<longleftrightarrow> distinct (map pid (view s))"

lemma add_unique:
  "inv s \<Longrightarrow> unique s \<Longrightarrow> add i s = Inr (r, s') \<Longrightarrow> inv s' \<and> unique s' \<and> i \<in> pid ` set (view s')"
  using add_dup [of s i] add_new [of s i]
  by (cases "i \<in> pid ` set (view s)") (auto simp: unique_def pid_mk)

lemma del_unique:
  "inv s \<Longrightarrow> unique s \<Longrightarrow> del i s = Inr (r, s') \<Longrightarrow>
   inv s' \<and> unique s' \<and> pid ` set (view s') = pid ` set (view s) - {i}"
  using del_first [of s i] remove_first_keys [of pid "view s" i] distinct_remove_first
  by (auto simp: unique_def)

lemma get_after_add:
  "inv s \<Longrightarrow> unique s \<Longrightarrow> add i s = Inr (r, s') \<Longrightarrow> \<exists>a. get i s' = Inr (Some a)"
  using add_unique [of s i r s'] get_iff [of s' i] by fastforce

lemma get_after_del:
  "inv s \<Longrightarrow> unique s \<Longrightarrow> del i s = Inr (r, s') \<Longrightarrow> get i s' = Inr None"
  using del_unique [of s i r s'] get_iff [of s' i] by auto

lemma del_keeps_others:
  "inv s \<Longrightarrow> unique s \<Longrightarrow> del i s = Inr (r, s') \<Longrightarrow> j \<noteq> i \<Longrightarrow> get j s = Inr (Some a) \<Longrightarrow>
   \<exists>b. get j s' = Inr (Some b)"
  using del_unique [of s i r s'] get_iff [of s j] get_iff [of s' j] by fastforce

lemma add_then_del:
  "inv s \<Longrightarrow> add i s = Inr (Some a, s1) \<Longrightarrow> \<exists>s2. del i s1 = Inr (True, s2) \<and> inv s2 \<and> view s2 = view s"
proof -
  assume a: "inv s" "add i s = Inr (Some a, s1)"
  then have n: "i \<notin> pid ` set (view s)" using add_dup by force
  with a add_new [of s i] have v: "inv s1" "view s1 = view s @ [mk i]" by auto
  have "remove_first (\<lambda>p. pid p = i) (view s @ [mk i]) = view s @ []"
    by (rule remove_first_split) (use n pid_mk in auto)
  with v del_first [of s1 i] show ?thesis by (auto simp: pid_mk)
qed

lemma del_twice:
  "inv s \<Longrightarrow> unique s \<Longrightarrow> del i s = Inr (r, s1) \<Longrightarrow> \<exists>s2. del i s1 = Inr (False, s2) \<and> view s2 = view s1"
proof -
  assume a: "inv s" "unique s" "del i s = Inr (r, s1)"
  from del_unique [OF this] have v: "inv s1" "i \<notin> pid ` set (view s1)" by auto
  then have "remove_first (\<lambda>p. pid p = i) (view s1) = view s1" by (auto intro!: remove_first_none)
  with v del_first [of s1 i] show ?thesis by auto
qed

end

section \<open>The linked list\<close>

primrec pkg_path :: "(nat \<Rightarrow> package option) \<Rightarrow> nat option \<Rightarrow> nat list \<Rightarrow> bool" where
  "pkg_path M p [] = (p = None)"
| "pkg_path M p (a # as) = (p = Some a \<and> (\<exists>q. M a = Some q \<and> pkg_path M (pk_next q) as))"

primrec opt_path :: "(nat \<Rightarrow> opt_node option) \<Rightarrow> nat option \<Rightarrow> nat list \<Rightarrow> bool" where
  "opt_path N p [] = (p = None)"
| "opt_path N p (a # as) = (p = Some a \<and> (\<exists>n. N a = Some n \<and> on_live n \<and> opt_path N (on_next n) as))"

lemma pkg_path_other [simp]: "a \<notin> set as \<Longrightarrow> pkg_path (M(a := x)) p as = pkg_path M p as"
  by (induction as arbitrary: p) auto

lemma opt_path_other [simp]: "a \<notin> set as \<Longrightarrow> opt_path (N(a := x)) p as = opt_path N p as"
  by (induction as arbitrary: p) auto

lemma opt_path_cong: "\<forall>x \<in> set as. N x = N' x \<Longrightarrow> opt_path N p as = opt_path N' p as"
  by (induction as arbitrary: p) auto

lemma bounded_length: "distinct as \<Longrightarrow> \<forall>a \<in> set as. a < n \<Longrightarrow> length as \<le> (n :: nat)"
proof -
  assume a: "distinct as" "\<forall>a \<in> set as. a < n"
  then have "card (set as) \<le> card {..<n}" by (intro card_mono) auto
  with a(1) show ?thesis by (simp add: distinct_card)
qed

text \<open>The store: \<open>as\<close> are the packages' addresses in list order, \<open>os\<close> gives each
  package the addresses of its option nodes.\<close>

definition options_ok :: "client \<Rightarrow> nat list \<Rightarrow> (nat \<Rightarrow> nat list) \<Rightarrow> bool" where
  "options_ok s as os \<longleftrightarrow>
     (\<forall>a \<in> set as. opt_path (onodes s) (pk_options (the (pkgs s a))) (os a) \<and> distinct (os a)
        \<and> (\<forall>x \<in> set (os a). x < fresh s))
   \<and> (\<forall>a \<in> set as. \<forall>b \<in> set as. a \<noteq> b \<longrightarrow> set (os a) \<inter> set (os b) = {})"

definition client_inv :: "client \<Rightarrow> nat list \<Rightarrow> (nat \<Rightarrow> nat list) \<Rightarrow> bool" where
  "client_inv s as os \<longleftrightarrow> pkg_path (pkgs s) (mbtk_coaps s) as \<and> distinct as
     \<and> (as \<noteq> [] \<longrightarrow> mbtk_coaps_tail s = Some (last as)) \<and> (\<forall>a \<in> set as. a < fresh s)
     \<and> options_ok s as os"

definition client_ok :: "client \<Rightarrow> bool" where
  "client_ok s \<longleftrightarrow> (\<exists>as os. client_inv s as os)"

text \<open>The abstract list: the packages without their link fields.\<close>

definition entry :: "client \<Rightarrow> nat \<Rightarrow> package" where
  "entry s a = (the (pkgs s a))\<lparr>pk_next := None\<rparr>"

fun collect :: "client \<Rightarrow> nat \<Rightarrow> nat option \<Rightarrow> package list" where
  "collect s 0 p = []"
| "collect s (Suc fuel) None = []"
| "collect s (Suc fuel) (Some a) =
     (case pkgs s a of None \<Rightarrow> [] | Some q \<Rightarrow> entry s a # collect s fuel (pk_next q))"

definition pkg_list :: "client \<Rightarrow> package list" where
  "pkg_list s = collect s (fresh s) (mbtk_coaps s)"

lemma collect_path: "pkg_path (pkgs s) p as \<Longrightarrow> length as \<le> fuel \<Longrightarrow> collect s fuel p = map (entry s) as"
proof (induction as arbitrary: p fuel)
  case Nil
  then show ?case by (cases fuel) auto
next
  case (Cons a as)
  then show ?case by (cases fuel) auto
qed

lemma client_inv_list: "client_inv s as os \<Longrightarrow> pkg_list s = map (entry s) as \<and> length as \<le> fresh s"
  using bounded_length [of as "fresh s"] by (auto simp: client_inv_def pkg_list_def intro!: collect_path)

lemma pkg_path_in: "pkg_path M p as \<Longrightarrow> a \<in> set as \<Longrightarrow> \<exists>q. M a = Some q"
  by (induction as arbitrary: p) auto

lemma entry_id: "pk_message_id (entry s a) = pk_message_id (the (pkgs s a))"
  by (simp add: entry_def)

definition id_of :: "client \<Rightarrow> nat \<Rightarrow> u16" where
  "id_of s a = pk_message_id (the (pkgs s a))"

lemma find_pkg_path:
  "pkg_path (pkgs s) p as \<Longrightarrow> length as \<le> fuel \<Longrightarrow>
   find_pkg s fuel p i = Inr (List.find (\<lambda>a. id_of s a = i) as)"
proof (induction as arbitrary: p fuel)
  case (Cons a as)
  then show ?case by (cases fuel) (auto simp: get_pkg_def id_of_def)
qed simp

lemma mbtk_coap_get_by_msg_id_find:
  "client_inv s as os \<Longrightarrow> mbtk_coap_get_by_msg_id i s = Inr (List.find (\<lambda>a. id_of s a = i) as)"
  using client_inv_list [of s as os]
  by (simp add: mbtk_coap_get_by_msg_id_def client_inv_def find_pkg_path)

lemma find_None_ids: "List.find (\<lambda>a. id_of s a = i) as = None \<longleftrightarrow> i \<notin> pk_message_id ` entry s ` set as"
proof -
  have "pk_message_id ` entry s ` set as = id_of s ` set as"
    by (simp add: image_image entry_id id_of_def)
  then show ?thesis by (auto simp: find_None_iff)
qed

lemma pkg_path_append:
  "pkg_path M p (as @ [a]) \<Longrightarrow> distinct (as @ [a]) \<Longrightarrow> M a = Some q \<Longrightarrow> b \<notin> set (as @ [a]) \<Longrightarrow>
   pk_next r = None \<Longrightarrow> pkg_path (M(a \<mapsto> q\<lparr>pk_next := Some b\<rparr>, b \<mapsto> r)) p (as @ [a, b])"
  by (induction as arbitrary: p) auto

lemma options_ok_fresh:
  assumes "options_ok s as os" "pkgs s' = (pkgs s)(b \<mapsto> r)" "onodes s' = onodes s" "fresh s \<le> fresh s'"
    "b \<notin> set as" "pk_options r = None"
  shows "options_ok s' (as @ [b]) (os(b := []))"
  using assms unfolding options_ok_def by (auto intro: less_le_trans)

lemma list_add_dup:
  assumes "client_inv s as os" "i \<in> pk_message_id ` set (pkg_list s)"
  shows "mbtk_coap_list_add e i s = Inr (None, s)"
proof -
  have "as \<noteq> []" using assms client_inv_list [OF assms(1)] by auto
  then obtain a as' where as: "as = a # as'" by (cases as) auto
  then have hd: "mbtk_coaps s = Some a" using assms(1) by (simp add: client_inv_def)
  have "find_pkg s (fresh s) (mbtk_coaps s) i = Inr (List.find (\<lambda>a. id_of s a = i) as)"
    using mbtk_coap_get_by_msg_id_find [OF assms(1), of i] by (simp add: mbtk_coap_get_by_msg_id_def)
  moreover have "List.find (\<lambda>a. id_of s a = i) as \<noteq> None"
    using assms(2) client_inv_list [OF assms(1)] find_None_ids [of s i as] by auto
  ultimately show ?thesis using hd by (simp add: mbtk_coap_list_add_def)
qed

lemma list_add_new:
  assumes inv: "client_inv s as os" and new: "i \<notin> pk_message_id ` set (pkg_list s)"
    and ok: "mal_ok e (fresh s)"
  shows "\<exists>s'. mbtk_coap_list_add e i s = Inr (Some (fresh s), s')
    \<and> client_inv s' (as @ [fresh s]) (os(fresh s := [])) \<and> pkg_list s' = pkg_list s @ [package_init i]"
proof (cases "as = []")
  case True
  let ?s' = "(mbtk_coap_list_item_init (fresh s) i (s\<lparr>fresh := Suc (fresh s)\<rparr>))
    \<lparr>mbtk_coaps := Some (fresh s), mbtk_coaps_tail := Some (fresh s)\<rparr>"
  have add: "mbtk_coap_list_add e i s = Inr (Some (fresh s), ?s')"
    using inv True ok by (simp add: client_inv_def mbtk_coap_list_add_def malloc_addr_def)
  have i': "client_inv ?s' ([] @ [fresh s]) (os(fresh s := []))"
    by (simp add: client_inv_def mbtk_coap_list_item_init_def put_pkg_def package_init_def options_ok_def)
  have "pkg_list ?s' = [package_init i]"
    using client_inv_list [OF i']
    by (simp add: entry_def mbtk_coap_list_item_init_def put_pkg_def package_init_def)
  with add i' True client_inv_list [OF inv] show ?thesis by simp
next
  case False
  then obtain init l where as: "as = init @ [l]" by (metis rev_exhaust)
  have path: "pkg_path (pkgs s) (mbtk_coaps s) (init @ [l])" and dist: "distinct (init @ [l])"
    and tail: "mbtk_coaps_tail s = Some l" and bnd: "\<forall>a \<in> set as. a < fresh s"
    and opts: "options_ok s as os"
    using inv as by (simp_all add: client_inv_def)
  obtain q where q: "pkgs s l = Some q" using pkg_path_in [OF path, of l] by auto
  let ?s1 = "s\<lparr>fresh := Suc (fresh s)\<rparr>"
  let ?s2 = "put_pkg l (q\<lparr>pk_next := Some (fresh s)\<rparr>) ?s1"
  let ?s' = "(mbtk_coap_list_item_init (fresh s) i ?s2)\<lparr>mbtk_coaps_tail := Some (fresh s)\<rparr>"
  have "find_pkg s (fresh s) (mbtk_coaps s) i = Inr None"
    using mbtk_coap_get_by_msg_id_find [OF inv, of i] new client_inv_list [OF inv] find_None_ids [of s i as]
    by (simp add: mbtk_coap_get_by_msg_id_def)
  moreover obtain h where "mbtk_coaps s = Some h" using path by (cases init) auto
  ultimately have add: "mbtk_coap_list_add e i s = Inr (Some (fresh s), ?s')"
    using ok tail q by (simp add: mbtk_coap_list_add_def malloc_addr_def upd_pkg_def get_pkg_def)
  have fr: "fresh s \<notin> set (init @ [l])" using bnd as by auto
  have pk: "pkgs ?s' = (pkgs s)(l \<mapsto> q\<lparr>pk_next := Some (fresh s)\<rparr>, fresh s \<mapsto> package_init i)"
    by (simp add: mbtk_coap_list_item_init_def put_pkg_def)
  have "pkg_path (pkgs ?s') (mbtk_coaps s) (init @ [l, fresh s])"
    unfolding pk by (rule pkg_path_append [OF path dist q fr]) (simp add: package_init_def)
  moreover have "options_ok ?s' (as @ [fresh s]) (os(fresh s := []))"
  proof -
    have "options_ok (s\<lparr>pkgs := (pkgs s)(l \<mapsto> q\<lparr>pk_next := Some (fresh s)\<rparr>)\<rparr>) as os"
      using opts q by (auto simp: options_ok_def)
    then show ?thesis
      by (rule options_ok_fresh [where r = "package_init i"])
         (use fr as in \<open>simp_all add: mbtk_coap_list_item_init_def put_pkg_def package_init_def\<close>)
  qed
  ultimately have i': "client_inv ?s' (as @ [fresh s]) (os(fresh s := []))"
    using bnd dist fr as
    by (auto simp: client_inv_def mbtk_coap_list_item_init_def put_pkg_def)
  have "entry ?s' a = entry s a" if "a \<in> set as" for a
    using that fr as q pk by (auto simp: entry_def)
  moreover have "entry ?s' (fresh s) = package_init i"
    using pk by (simp add: entry_def package_init_def)
  ultimately have "pkg_list ?s' = pkg_list s @ [package_init i]"
    using client_inv_list [OF i'] client_inv_list [OF inv] by simp
  with add i' show ?thesis by blast
qed

section \<open>Deleting\<close>

lemma free_options_path:
  assumes "opt_path (onodes s) p os" "distinct os" "length os \<le> fuel" "stale e"
  shows "\<exists>N'. free_options e fuel p s = Inr (s\<lparr>onodes := N'\<rparr>) \<and> (\<forall>x. x \<notin> set os \<longrightarrow> N' x = onodes s x)"
  using assms
proof (induction os arbitrary: p s fuel)
  case Nil
  then show ?case by (auto intro!: exI [of _ "onodes s"])
next
  case (Cons a os)
  then obtain n f where n: "p = Some a" "onodes s a = Some n" "on_live n" "opt_path (onodes s) (on_next n) os"
    "fuel = Suc f" by (cases fuel) auto
  let ?s1 = "s\<lparr>onodes := (onodes s)(a \<mapsto> n\<lparr>on_live := False\<rparr>)\<rparr>"
  have "opt_path (onodes ?s1) (on_next n) os" using n(4) Cons.prems(2) by simp
  moreover have "distinct os" "length os \<le> f" using Cons.prems n(5) by simp_all
  ultimately obtain N' where N': "free_options e f (on_next n) ?s1 = Inr (?s1\<lparr>onodes := N'\<rparr>)"
    "\<forall>x. x \<notin> set os \<longrightarrow> N' x = onodes ?s1 x"
    using Cons.IH [OF _ _ _ Cons.prems(4), of ?s1 "on_next n" f] by blast
  show ?case
    by (rule exI [of _ N']) (use N' n Cons.prems(4) in \<open>simp add: get_node_def Let_def\<close>)
qed

lemma pkg_path_unlink:
  "pkg_path M p (ps @ [a, b] @ ys) \<Longrightarrow> distinct (ps @ [a, b] @ ys) \<Longrightarrow> M a = Some pa \<Longrightarrow> M b = Some pb \<Longrightarrow>
   pkg_path (M(a \<mapsto> pa\<lparr>pk_next := pk_next pb\<rparr>, b := None)) p (ps @ [a] @ ys)"
  by (induction ps arbitrary: p) auto

lemma list_del_loop_miss:
  "pkg_path (pkgs s) (Some a) (a # xs) \<Longrightarrow> \<forall>x \<in> set xs. id_of s x \<noteq> i \<Longrightarrow> length xs < fuel \<Longrightarrow>
   list_del_loop e s fuel a i = Inr (False, s)"
proof (induction xs arbitrary: a fuel)
  case Nil
  then show ?case by (cases fuel) (auto simp: get_pkg_def)
next
  case (Cons b xs)
  then show ?case by (cases fuel) (auto simp: get_pkg_def id_of_def)
qed

lemma list_del_loop_hit:
  "pkg_path (pkgs s) (Some a) (a # xs @ b # ys) \<Longrightarrow> \<forall>x \<in> set xs. id_of s x \<noteq> i \<Longrightarrow> id_of s b = i \<Longrightarrow>
   length xs < fuel \<Longrightarrow>
   list_del_loop e s fuel a i =
     (let prev = last (a # xs);
          s1 = (if mbtk_coaps_tail s = Some b then s\<lparr>mbtk_coaps_tail := Some prev\<rparr> else s)
      in rbind (upd_pkg prev (\<lambda>p. p\<lparr>pk_next := pk_next (the (pkgs s b))\<rparr>) s1)
           (\<lambda>s2. rmap (Pair True) (mbtk_coap_free e b s2)))"
proof (induction xs arbitrary: a fuel)
  case Nil
  then show ?case by (cases fuel) (auto simp: get_pkg_def id_of_def Let_def)
next
  case (Cons x xs)
  then obtain f where f: "fuel = Suc f" by (cases fuel) auto
  obtain q r where q: "pkgs s a = Some q" "pk_next q = Some x" "pkgs s x = Some r"
    "pkg_path (pkgs s) (Some x) (x # xs @ b # ys)" using Cons.prems(1) by auto
  have "list_del_loop e s (Suc f) a i = list_del_loop e s f x i"
    using q Cons.prems(2) by (simp add: get_pkg_def id_of_def)
  with Cons.IH [OF q(4), of f] Cons.prems f show ?case by simp
qed

text \<open>Freeing a package that is no longer linked.\<close>

lemma free_unlinked:
  assumes p: "pkgs s b = Some pb" and o: "opt_path (onodes s) (pk_options pb) ob" "distinct ob"
    and f: "\<forall>x \<in> set ob. x < fresh s" and st: "stale e"
  shows "\<exists>N'. mbtk_coap_free e b s = Inr (s\<lparr>onodes := N', pkgs := (pkgs s)(b := None)\<rparr>)
    \<and> (\<forall>x. x \<notin> set ob \<longrightarrow> N' x = onodes s x)"
proof -
  have "length ob \<le> fresh s" by (rule bounded_length [OF o(2) f])
  then obtain N' where "free_options e (fresh s) (pk_options pb) s = Inr (s\<lparr>onodes := N'\<rparr>)"
    "\<forall>x. x \<notin> set ob \<longrightarrow> N' x = onodes s x" using free_options_path [OF o _ st] by blast
  then show ?thesis using p by (intro exI [of _ N']) (simp add: mbtk_coap_free_def get_pkg_def)
qed

lemma options_ok_remove:
  assumes "options_ok s as os" "b \<in> set as" "set as' \<subseteq> set as - {b}"
    "\<forall>a \<in> set as'. pk_options (the (pkgs s' a)) = pk_options (the (pkgs s a))"
    "\<forall>x. x \<notin> set (os b) \<longrightarrow> onodes s' x = onodes s x" "fresh s' = fresh s"
  shows "options_ok s' as' os"
proof -
  have "opt_path (onodes s') (pk_options (the (pkgs s' a))) (os a)" if "a \<in> set as'" for a
  proof -
    have "a \<in> set as" "a \<noteq> b" using that assms(3) by auto
    then have "set (os a) \<inter> set (os b) = {}" using assms(1,2) unfolding options_ok_def by blast
    then have "\<forall>x \<in> set (os a). onodes s' x = onodes s x" using assms(5) by auto
    then have "opt_path (onodes s') (pk_options (the (pkgs s a))) (os a)
        = opt_path (onodes s) (pk_options (the (pkgs s a))) (os a)" by (rule opt_path_cong)
    then show ?thesis using assms(1,4) that \<open>a \<in> set as\<close> by (simp add: options_ok_def)
  qed
  moreover have "set (os a) \<inter> set (os c) = {}" if "a \<in> set as'" "c \<in> set as'" "a \<noteq> c" for a c
    using that assms(1,3) unfolding options_ok_def by blast
  moreover have "distinct (os a) \<and> (\<forall>x \<in> set (os a). x < fresh s')" if "a \<in> set as'" for a
    using that assms(1,3,6) unfolding options_ok_def by auto
  ultimately show ?thesis unfolding options_ok_def by blast
qed

text \<open>A deletion yields the invariant for the remaining addresses.\<close>

lemma inv_remove:
  assumes inv: "client_inv s (ps @ b # ys) os"
    and path: "pkg_path (pkgs s') (mbtk_coaps s') (ps @ ys)"
    and tail: "ps @ ys \<noteq> [] \<Longrightarrow> mbtk_coaps_tail s' = Some (last (ps @ ys))"
    and ent: "\<forall>a \<in> set (ps @ ys). entry s' a = entry s a"
    and nodes: "\<forall>x. x \<notin> set (os b) \<longrightarrow> onodes s' x = onodes s x" and fr: "fresh s' = fresh s"
    and ids: "\<forall>x \<in> set ps. id_of s x \<noteq> i" "id_of s b = i"
  shows "client_inv s' (ps @ ys) os \<and> pkg_list s' = remove_first (\<lambda>p. pk_message_id p = i) (pkg_list s)"
proof -
  have opt: "pk_options (the (pkgs s' a)) = pk_options (the (pkgs s a))" if "a \<in> set (ps @ ys)" for a
    using ent [rule_format, OF that] by (auto simp: entry_def dest: arg_cong [of _ _ pk_options])
  have "options_ok s' (ps @ ys) os"
    by (rule options_ok_remove [where b = b and as = "ps @ b # ys"])
       (use inv opt nodes fr in \<open>auto simp: client_inv_def\<close>)
  then have i': "client_inv s' (ps @ ys) os"
    using inv path tail fr by (auto simp: client_inv_def)
  have "map (entry s') (ps @ ys) = map (entry s) (ps @ ys)" using ent by simp
  moreover have "remove_first (\<lambda>p. pk_message_id p = i) (map (entry s) ps @ entry s b # map (entry s) ys)
      = map (entry s) ps @ map (entry s) ys"
    by (rule remove_first_split) (use ids in \<open>auto simp: entry_id id_of_def\<close>)
  ultimately show ?thesis using i' client_inv_list [OF i'] client_inv_list [OF inv] by simp
qed

lemma free_step:
  assumes inv: "client_inv s as os" and b: "b \<in> set as" and st: "stale e"
    and same: "onodes s1 = onodes s" "fresh s1 = fresh s" "pkgs s1 b = pkgs s b"
  shows "\<exists>N'. mbtk_coap_free e b s1 = Inr (s1\<lparr>onodes := N', pkgs := (pkgs s1)(b := None)\<rparr>)
    \<and> (\<forall>x. x \<notin> set (os b) \<longrightarrow> N' x = onodes s x)"
proof -
  have "pkg_path (pkgs s) (mbtk_coaps s) as" using inv by (simp add: client_inv_def)
  then obtain pb where pb: "pkgs s b = Some pb" using pkg_path_in [OF _ b] by blast
  have "opt_path (onodes s1) (pk_options pb) (os b)" "distinct (os b)" "\<forall>x \<in> set (os b). x < fresh s1"
    using inv b pb same by (auto simp: client_inv_def options_ok_def)
  then show ?thesis using free_unlinked [of s1 b pb "os b" e] pb same st by simp
qed

lemma list_del_correct:
  assumes inv: "client_inv s as os" and st: "stale e"
  shows "\<exists>s' as'. mbtk_coap_list_del e i s = Inr (i \<in> pk_message_id ` set (pkg_list s), s')
    \<and> client_inv s' as' os \<and> pkg_list s' = remove_first (\<lambda>p. pk_message_id p = i) (pkg_list s)"
proof (cases "List.find (\<lambda>a. id_of s a = i) as")
  case None
  then have miss: "\<forall>x \<in> set as. id_of s x \<noteq> i" by (auto simp: find_None_iff)
  have "i \<notin> pk_message_id ` set (pkg_list s)"
    using None find_None_ids [of s i as] client_inv_list [OF inv] by auto
  moreover from this have "remove_first (\<lambda>p. pk_message_id p = i) (pkg_list s) = pkg_list s"
    by (auto intro!: remove_first_none)
  moreover have "mbtk_coap_list_del e i s = Inr (False, s)"
  proof (cases as)
    case Nil
    then show ?thesis using inv by (simp add: client_inv_def mbtk_coap_list_del_def)
  next
    case (Cons a xs)
    have p: "pkg_path (pkgs s) (Some a) (a # xs)" "mbtk_coaps s = Some a"
      using inv Cons by (auto simp: client_inv_def)
    have "length xs < fresh s" using client_inv_list [OF inv] Cons by simp
    then have "list_del_loop e s (fresh s) a i = Inr (False, s)"
      by (intro list_del_loop_miss [OF p(1)]) (use miss Cons in simp_all)
    moreover obtain q where "pkgs s a = Some q" using p(1) by auto
    ultimately show ?thesis using p(2) miss Cons
      by (auto simp: mbtk_coap_list_del_def get_pkg_def id_of_def)
  qed
  ultimately show ?thesis using inv by auto
next
  case (Some b)
  then obtain n where n: "n < length as" "id_of s (as ! n) = i" "b = as ! n"
    "\<forall>j < n. id_of s (as ! j) \<noteq> i" by (auto simp: find_Some_iff)
  define ps where "ps = take n as"
  define ys where "ys = drop (Suc n) as"
  have as: "as = ps @ b # ys" using n by (simp add: ps_def ys_def id_take_nth_drop)
  have ids: "\<forall>x \<in> set ps. id_of s x \<noteq> i" "id_of s b = i"
    using n by (auto simp: ps_def in_set_conv_nth)
  have hit: "i \<in> pk_message_id ` set (pkg_list s)"
    using ids(2) as client_inv_list [OF inv] by (auto simp: id_of_def entry_id)
  have bin: "b \<in> set as" by (simp add: as)
  have path: "pkg_path (pkgs s) (mbtk_coaps s) (ps @ b # ys)" and dist: "distinct (ps @ b # ys)"
    and tail: "mbtk_coaps_tail s = Some (last as)" using inv as by (auto simp: client_inv_def)
  obtain pb where pb: "pkgs s b = Some pb" using pkg_path_in [OF path, of b] by auto
  show ?thesis
  proof (cases "ps = []")
    case True
    let ?s1 = "s\<lparr>mbtk_coaps := pk_next pb\<rparr>"
    obtain N' where N: "mbtk_coap_free e b ?s1 = Inr (?s1\<lparr>onodes := N', pkgs := (pkgs ?s1)(b := None)\<rparr>)"
      "\<forall>x. x \<notin> set (os b) \<longrightarrow> N' x = onodes s x"
      using free_step [OF inv bin st, of ?s1] by auto
    let ?s' = "?s1\<lparr>onodes := N', pkgs := (pkgs ?s1)(b := None)\<rparr>"
    have "mbtk_coap_list_del e i s = Inr (True, ?s')"
      using path True pb ids N(1) by (simp add: mbtk_coap_list_del_def get_pkg_def id_of_def)
    moreover have "client_inv ?s' (ps @ ys) os
        \<and> pkg_list ?s' = remove_first (\<lambda>p. pk_message_id p = i) (pkg_list s)"
      by (rule inv_remove [OF inv [unfolded as]])
         (use path dist tail True pb N(2) ids as in \<open>auto simp: entry_def\<close>)
    ultimately show ?thesis using hit by auto
  next
    case False
    then obtain ps' a where ps: "ps = ps' @ [a]" by (metis rev_exhaust)
    obtain h hs where hd: "ps = h # hs" using False by (cases ps) auto
    have h: "mbtk_coaps s = Some h" using path hd by simp
    obtain pa where pa: "pkgs s a = Some pa" using pkg_path_in [OF path, of a] ps by auto
    define s1 where "s1 = (if mbtk_coaps_tail s = Some b then s\<lparr>mbtk_coaps_tail := Some a\<rparr> else s)"
    have s1: "pkgs s1 = pkgs s" "onodes s1 = onodes s" "fresh s1 = fresh s" "mbtk_coaps s1 = mbtk_coaps s"
      by (simp_all add: s1_def)
    define s2 where "s2 = put_pkg a (pa\<lparr>pk_next := pk_next pb\<rparr>) s1"
    have ab: "a \<noteq> b" using dist ps by auto
    obtain N' where N: "mbtk_coap_free e b s2 = Inr (s2\<lparr>onodes := N', pkgs := (pkgs s2)(b := None)\<rparr>)"
      "\<forall>x. x \<notin> set (os b) \<longrightarrow> N' x = onodes s x"
      using free_step [OF inv bin st, of s2] ab by (auto simp: s2_def put_pkg_def s1)
    let ?s' = "s2\<lparr>onodes := N', pkgs := (pkgs s2)(b := None)\<rparr>"
    have path2: "pkg_path (pkgs s) (Some h) (h # hs @ b # ys)" using path hd h by simp
    have len: "length hs < fresh s" using client_inv_list [OF inv] as hd by simp
    have lasth: "last (h # hs) = a" using hd ps by (metis last_snoc)
    have "list_del_loop e s (fresh s) h i = Inr (True, ?s')"
      using list_del_loop_hit [OF path2 _ ids(2) len, of e] ids(1) hd pa pb N(1)
      by (simp add: lasth Let_def s1_def [symmetric] upd_pkg_def get_pkg_def s1 s2_def [symmetric] del: last.simps)
    moreover obtain q where "pkgs s h = Some q" using path2 by auto
    moreover have "id_of s h \<noteq> i" using ids(1) hd by simp
    ultimately have "mbtk_coap_list_del e i s = Inr (True, ?s')"
      using h by (simp add: mbtk_coap_list_del_def get_pkg_def id_of_def)
    moreover have "client_inv ?s' (ps @ ys) os
        \<and> pkg_list ?s' = remove_first (\<lambda>p. pk_message_id p = i) (pkg_list s)"
    proof (rule inv_remove [OF inv [unfolded as]])
      show "pkg_path (pkgs ?s') (mbtk_coaps ?s') (ps @ ys)"
        using pkg_path_unlink [of "pkgs s" "mbtk_coaps s" ps' a b ys pa pb] path dist pa pb
        by (simp add: ps s2_def put_pkg_def s1)
      show "mbtk_coaps_tail ?s' = Some (last (ps @ ys))"
        using tail dist as ps by (auto simp: s2_def s1_def put_pkg_def last_append)
      show "\<forall>c \<in> set (ps @ ys). entry ?s' c = entry s c"
        using dist ps pa by (auto simp: entry_def s2_def put_pkg_def s1)
    qed (use N(2) ids in \<open>auto simp: s2_def put_pkg_def s1\<close>)
    ultimately show ?thesis using hit by auto
  qed
qed

section \<open>The interface holds for the code\<close>

text \<open>An environment in which malloc succeeds and a freed node is still readable.\<close>

definition good_env :: "heap_env \<Rightarrow> (nat \<Rightarrow> int) \<Rightarrow> cenv" where
  "good_env h sys = \<lparr>env_heap = h, mal_ok = (\<lambda>_. True), stale = True, opts_ok = True, env_sys = sys\<rparr>"

interpretation ps: pkg_store client_ok pkg_list pk_message_id package_init
    "mbtk_coap_list_add (good_env h sys)" "mbtk_coap_list_del (good_env h sys)" mbtk_coap_get_by_msg_id
  for h sys
proof (unfold_locales, goal_cases)
  case (1 i)
  show ?case by (simp add: package_init_def)
next
  case (2 s i)
  then show ?case unfolding client_ok_def using list_add_dup by blast
next
  case (3 s i)
  then obtain as os where "client_inv s as os" by (auto simp: client_ok_def)
  from list_add_new [OF this 3(2), of "good_env h sys"] show ?case
    by (auto simp: client_ok_def good_env_def)
next
  case (4 s i)
  then obtain as os where "client_inv s as os" by (auto simp: client_ok_def)
  from list_del_correct [OF this, of "good_env h sys" i] show ?case
    by (auto simp: client_ok_def good_env_def)
next
  case (5 s i)
  then obtain as os where inv: "client_inv s as os" by (auto simp: client_ok_def)
  have "pk_message_id ` set (pkg_list s) = pk_message_id ` entry s ` set as"
    using client_inv_list [OF inv] by (simp add: image_image)
  then show ?case
    using mbtk_coap_get_by_msg_id_find [OF inv, of i] find_None_ids [of s i as] by auto
qed

end
