(* ===== verification/Coap_Send.thy ===== *)
theory Coap_Send
  imports Coap_Store
begin

text \<open>
  What the CoAP client puts on the wire: \<open>mbtk_coap_coap_send\<close> and
  \<open>mbtk_coap_send_ack\<close> send the encoding of the message that the package describes, and
  the block option's bytes are those that \<open>coapGetRecvOptionBlock2\<close> decodes.
\<close>

section \<open>The block option\<close>

definition block_low :: "int \<Rightarrow> u32 \<Rightarrow> byte \<Rightarrow> byte" where
  "block_low sz number mf = (ucast (push_bit 4 number) AND 0xF0) OR (push_bit 3 mf AND 0x08)
     OR (word_of_int sz AND 0x07)"

lemma mask_bits:
  "bit (0xF0 :: int) n \<longleftrightarrow> 4 \<le> n \<and> n < 8"
  "bit (0x08 :: int) n \<longleftrightarrow> n = 3"
  "bit (0x07 :: int) n \<longleftrightarrow> n < 3"
proof -
  have t: "\<forall>n \<in> set [0..<8]. (bit (0xF0 :: int) n \<longleftrightarrow> 4 \<le> n \<and> n < 8)
    \<and> (bit (0x08 :: int) n \<longleftrightarrow> n = 3) \<and> (bit (0x07 :: int) n \<longleftrightarrow> n < 3)" by code_simp
  have b: "take_bit 8 w = w \<Longrightarrow> bit (w :: int) n \<Longrightarrow> n < 8" for w by (metis bit_take_bit_iff)
  have tb: "take_bit 8 0xF0 = (0xF0 :: int)" "take_bit 8 0x08 = (0x08 :: int)" "take_bit 8 0x07 = (0x07 :: int)"
    by simp_all
  show "bit (0xF0 :: int) n \<longleftrightarrow> 4 \<le> n \<and> n < 8" using t b [OF tb(1)] by (cases "n < 8") auto
  show "bit (0x08 :: int) n \<longleftrightarrow> n = 3" using t b [OF tb(2)] by (cases "n < 8") auto
  show "bit (0x07 :: int) n \<longleftrightarrow> n < 3" using t b [OF tb(3)] by (cases "n < 8") auto
qed

lemma low_upper: "bit (block_low sz number mf AND 0xF0) n \<longleftrightarrow> 4 \<le> n \<and> n < 8 \<and> bit number (n - 4)"
  unfolding block_low_def by (auto simp: bit_simps mask_bits)

lemma low_more: "drop_bit 3 (block_low sz number mf AND 0x08) = mf AND 1"
proof (rule bit_word_eqI)
  fix n
  have "bit (block_low sz number mf AND 0x08) m \<longleftrightarrow> m = 3 \<and> bit mf 0" for m
    unfolding block_low_def by (auto simp: bit_simps mask_bits)
  then show "bit (drop_bit 3 (block_low sz number mf AND 0x08)) n = bit (mf AND 1) n"
    by (simp only: bit_drop_bit_eq comp_def bit_and_iff bit_1_iff) auto
qed

lemma low_size: "block_low sz number mf AND 0x07 = word_of_int sz AND 0x07"
  unfolding block_low_def by (rule bit_word_eqI) (auto simp: bit_simps mask_bits)

lemma take_bit_lt: "take_bit k (x :: u32) = x \<Longrightarrow> bit x n \<Longrightarrow> n < k"
  by (metis bit_take_bit_iff)

lemma take_bit_small: "unat (x :: u32) < 2 ^ k \<Longrightarrow> take_bit k x = x"
  by (simp add: word_unat_eq_iff unsigned_take_bit_eq take_bit_nat_eq_self)

lemma block_num1:
  assumes "\<And>n. bit Y n \<longleftrightarrow> 4 \<le> n \<and> n < 8 \<and> bit number (n - 4)" "take_bit 4 number = number"
  shows "ucast (drop_bit 4 (Y :: byte)) = (number :: u32)"
  by (rule bit_word_eqI) (auto simp: bit_unsigned_iff bit_drop_bit_eq assms(1) dest: take_bit_lt [OF assms(2)])

lemma block_num2:
  assumes "\<And>n. bit Y n \<longleftrightarrow> 4 \<le> n \<and> n < 8 \<and> bit number (n - 4)" "take_bit 12 number = number"
  shows "drop_bit 4 (push_bit 8 (ucast (ucast (drop_bit 4 number) :: byte)) OR ucast (Y :: byte)) = (number :: u32)"
  by (rule bit_word_eqI) (auto simp: bit_simps assms(1) dest: take_bit_lt [OF assms(2)])

lemma block_num3:
  assumes "\<And>n. bit Y n \<longleftrightarrow> 4 \<le> n \<and> n < 8 \<and> bit number (n - 4)" "take_bit 20 number = number"
  shows "drop_bit 4 (push_bit 16 (ucast (ucast (drop_bit 12 number) :: byte))
      OR push_bit 8 (ucast (ucast (drop_bit 4 number) :: byte)) OR ucast (Y :: byte)) = (number :: u32)"
proof (rule bit_word_eqI)
  fix n assume "n < LENGTH(32)"
  then show "bit (drop_bit 4 (push_bit 16 (ucast (ucast (drop_bit 12 number) :: byte))
      OR push_bit 8 (ucast (ucast (drop_bit 4 number) :: byte)) OR (ucast Y :: u32))) n = bit number n"
    by (cases "n < 12"; auto simp: bit_simps assms(1) dest: take_bit_lt [OF assms(2)])
qed

lemma block_encode_low:
  "block_encode sz number mf =
     (let low = block_low sz number mf
      in if number \<le> 0x0F then [low]
         else if number \<le> 0x0FFF then [ucast (drop_bit 4 number), low]
         else [ucast (drop_bit 12 number), ucast (drop_bit 4 number), low])"
  by (simp add: block_encode_def block_low_def)

lemma block_roundtrip:
  assumes "number < 0x100000"
  shows "block2_decode (of_nat (length (block_encode sz number mf))) (block_encode sz number mf @ rest)
    = Some (number, mf AND 1, word_of_int sz AND 0x07)"
proof -
  have up: "\<And>n. bit (block_low sz number mf AND 0xF0) n \<longleftrightarrow> 4 \<le> n \<and> n < 8 \<and> bit number (n - 4)"
    by (rule low_upper)
  consider "number \<le> 0x0F" | "\<not> number \<le> 0x0F" "number \<le> 0x0FFF" | "\<not> number \<le> 0x0FFF" "\<not> number \<le> 0x0F"
    by blast
  then show ?thesis
  proof cases
    case 1
    have "take_bit 4 number = number"
      using 1 by (intro take_bit_small) (simp add: word_le_nat_alt)
    from block_num1 [OF up this] 1 show ?thesis
      unfolding block_encode_low block2_decode_def Let_def
      by (simp only: if_True list.size append_Cons nth_Cons_0 low_more low_size) simp
  next
    case 2
    have "take_bit 12 number = number"
      using 2 by (intro take_bit_small) (simp add: word_le_nat_alt)
    from block_num2 [OF up this] 2 show ?thesis
      unfolding block_encode_low block2_decode_def Let_def if_not_P [OF 2(1)] if_P [OF 2(2)]
      by (simp only: low_more low_size append_Cons nth_Cons_0 nth_Cons_Suc One_nat_def list.size) simp
  next
    case 3
    have "take_bit 20 number = number"
      using assms by (intro take_bit_small) (simp add: word_less_nat_alt)
    from block_num3 [OF up this] 3 show ?thesis
      unfolding block_encode_low block2_decode_def Let_def if_not_P [OF 3(1)] if_not_P [OF 3(2)]
      by (simp only: low_more low_size append_Cons nth_Cons_0 nth_Cons_Suc One_nat_def numeral_2_eq_2 list.size) simp
  qed
qed

section \<open>Calls on the sending PDU\<close>

text \<open>\<open>api_call f s r m'\<close>: the call returns \<open>r\<close>, changes nothing but the sending PDU and
  leaves it holding \<open>m'\<close>.\<close>

definition api_call :: "(api \<Rightarrow> ('r \<times> api) res) \<Rightarrow> client \<Rightarrow> 'r \<Rightarrow> coap_msg \<Rightarrow> bool" where
  "api_call f s r m' \<longleftrightarrow> (\<exists>a. on_api f s = Inr (r, s\<lparr>c_api := a\<rparr>) \<and> api_rep a m'
     \<and> g_CoapRecvPointer a = g_CoapRecvPointer (c_api s))"

lemma api_callI:
  assumes "api_rep (c_api s) m"
    "\<And>p. pdu_rep p m \<Longrightarrow> \<not> constructedFromBuffer p \<Longrightarrow>
       \<exists>p'. f p = Inr (r, p') \<and> pdu_rep p' m' \<and> \<not> constructedFromBuffer p'"
  shows "api_call (on_pdu h f) s r m'"
proof -
  obtain a where "on_pdu h f (c_api s) = Inr (r, a)" "api_rep a m'"
    "g_CoapRecvPointer a = g_CoapRecvPointer (c_api s)"
    using on_pdu_rep [where f = f and h = h, OF assms] by blast
  then show ?thesis by (auto simp: api_call_def on_api_def)
qed

lemma setVersion_cfb: "setVersion v p = Inr (r, q) \<Longrightarrow> constructedFromBuffer q = constructedFromBuffer p"
  by (auto simp: setVersion_def rbind_eq_Inr dest!: setp_cfb split: if_splits)

lemma setType_cfb: "setType v p = Inr q \<Longrightarrow> constructedFromBuffer q = constructedFromBuffer p"
  by (auto simp: setType_def rbind_eq_Inr dest!: setp_cfb)

lemma setCode_cfb: "setCode v p = Inr q \<Longrightarrow> constructedFromBuffer q = constructedFromBuffer p"
  by (auto simp: setCode_def dest!: setp_cfb)

lemma setMessageID_cfb: "setMessageID v p = Inr (r, q) \<Longrightarrow> constructedFromBuffer q = constructedFromBuffer p"
  by (auto simp: setMessageID_def dest!: setps_cfb)

lemma reset_cfb: "reset p = Inr (r, q) \<Longrightarrow> constructedFromBuffer q = constructedFromBuffer p"
  by (auto simp: reset_def dest!: setps_cfb)

lemma setTokenLength_cfb: "setTokenLength v p = Inr (r, q) \<Longrightarrow> constructedFromBuffer q = constructedFromBuffer p"
  by (auto simp: setTokenLength_def rbind_eq_Inr dest!: setp_cfb split: if_splits)

lemma shiftPDUDown_cfb: "shiftPDUDown a b c p = Inr q \<Longrightarrow> constructedFromBuffer q = constructedFromBuffer p"
  by (auto simp: shiftPDUDown_def)

lemma realloc_cfb: "realloc_pdu h p n = Some q \<Longrightarrow> constructedFromBuffer q = constructedFromBuffer p"
  by (auto simp: realloc_pdu_def split: if_splits)

lemma setPayload_cfb: "setPayload h t n p = Inr (r, q) \<Longrightarrow> constructedFromBuffer q = constructedFromBuffer p"
  by (auto simp: setPayload_def mallocPayload_def write_through_def rbind_eq_Inr Let_def
      dest!: setps_cfb setp_cfb ensure_space_cfb split: if_splits option.splits)

lemma call_coapReset:
  "api_rep (c_api s) m \<Longrightarrow> api_call (coapReset h) s 0 (empty_msg 0)"
  unfolding coapReset_def by (rule api_callI) (use reset_rep reset_cfb in blast)+

lemma call_coapSetVersion:
  "api_rep (c_api s) m \<Longrightarrow> v \<le> 3 \<Longrightarrow> api_call (coapSetVersion h v) s 1 (m\<lparr>cm_version := v\<rparr>)"
  unfolding coapSetVersion_def by (rule api_callI) (use setVersion_rep setVersion_cfb in blast)+

lemma type_val_cases: "type_val t \<in> {0x00, 0x10, 0x20, 0x30}"
  by (cases t) simp_all

lemma call_coapSetType:
  "api_rep (c_api s) m \<Longrightarrow> api_call (coapSetType h t) s () (m\<lparr>cm_type := word_of_int (type_val t)\<rparr>)"
  unfolding coapSetType_def
  by (rule api_callI, assumption)
     (use setType_rep [OF _ type_val_cases [of t]] setType_cfb in \<open>force simp: rmap_def\<close>)

lemma call_coapSetCode:
  "api_rep (c_api s) m \<Longrightarrow> api_call (coapSetCode h c) s () (m\<lparr>cm_code := word_of_int c\<rparr>)"
  unfolding coapSetCode_def
  by (rule api_callI, assumption) (use setCode_rep setCode_cfb in \<open>force simp: rmap_def\<close>)

lemma call_coapSetMessageID:
  "api_rep (c_api s) m \<Longrightarrow> api_call (coapSetMessageID h i) s 0 (m\<lparr>cm_mid := i\<rparr>)"
  unfolding coapSetMessageID_def
  by (rule api_callI) (use setMessageID_rep setMessageID_cfb in blast)+

lemma no_limit_space:
  "no_limit h \<Longrightarrow> \<not> constructedFromBuffer p \<Longrightarrow> has_space h p (int (length (encode m)))"
  by (simp add: has_space_def no_limit_def)

lemma call_coapSetToken:
  assumes "api_rep (c_api s) m" "no_limit h" "cm_payload m = []" "cm_token m = []" "0 < length t"
    "length t \<le> 8" "length (encode m) < 256" "src_bytes (Some src) (int (length t)) = Inr t"
  shows "api_call (coapSetToken h (Some src) (of_nat (length t))) s 0 (m\<lparr>cm_token := t\<rparr>)"
  unfolding coapSetToken_def
proof (rule api_callI [OF assms(1)])
  fix p assume p: "pdu_rep p m" "\<not> constructedFromBuffer p"
  have "\<exists>p'. setToken h (Some src) (of_nat (length t)) p = Inr (0, p') \<and> pdu_rep p' (m\<lparr>cm_token := t\<rparr>)
      \<and> constructedFromBuffer p' = constructedFromBuffer p"
    by (rule setToken_grow [OF p(1) assms(3,6,8) _ assms(7) no_limit_space [OF assms(2) p(2)]])
       (use assms(4,5) in simp)
  then show "\<exists>p'. setToken h (Some src) (of_nat (length t)) p = Inr (0, p')
      \<and> pdu_rep p' (m\<lparr>cm_token := t\<rparr>) \<and> \<not> constructedFromBuffer p'"
    using p(2) by blast
qed

lemma call_coapAddOption:
  assumes "api_rep (c_api s) m" "no_limit h" "cm_payload m = []" "n < 65536" "length v < 269"
    "src_bytes ov (int (length v)) = Inr v"
  shows "api_call (coapAddOption h (of_nat n) (of_nat (length v)) ov) s 0 (add_to n v m)"
  unfolding coapAddOption_def
proof (rule api_callI [OF assms(1)])
  fix p assume p: "pdu_rep p m" "\<not> constructedFromBuffer p"
  show "\<exists>p'. addOption h (of_nat n) (of_nat (length v)) ov p = Inr (0, p')
      \<and> pdu_rep p' (add_to n v m) \<and> \<not> constructedFromBuffer p'"
    using addOption_ok [OF p(1) assms(3-6) no_limit_space [OF assms(2) p(2)]] addOption_cfb p(2) by blast
qed

lemma call_coapSetPayload:
  assumes "api_rep (c_api s) m" "no_limit h" "cm_payload m = []" "d \<noteq> []"
    "src_bytes (Some src) (int (length d)) = Inr d"
  shows "api_call (coapSetPayload h (Some src) (int (length d))) s 0 (m\<lparr>cm_payload := d\<rparr>)"
  unfolding coapSetPayload_def
proof (rule api_callI [OF assms(1)])
  fix p assume p: "pdu_rep p m" "\<not> constructedFromBuffer p"
  show "\<exists>p'. setPayload h (Some src) (int (length d)) p = Inr (0, p')
      \<and> pdu_rep p' (m\<lparr>cm_payload := d\<rparr>) \<and> \<not> constructedFromBuffer p'"
    using setPayload_rep [OF p(1) assms(3-5) no_limit_space [OF assms(2) p(2)]] setPayload_cfb p(2) by blast
qed

section \<open>The options of a package\<close>

text \<open>What one option node contributes to the message.  The types that are stored but not
  sent contribute nothing.\<close>

definition sent_types :: "coap_option_type set" where
  "sent_types = {COAP_OPTION_BLOCK2, COAP_OPTION_BLOCK1, COAP_OPTION_MAX_AGE, COAP_OPTION_OBSERVE,
     COAP_OPTION_URI_QUERY, COAP_OPTION_URI_PATH, COAP_OPTION_CONTENT_FORMAT}"

inductive node_adds :: "opt_node \<Rightarrow> (nat \<times> byte list) list \<Rightarrow> bool" where
  block: "on_type n = COAP_OPTION_BLOCK2 \<or> on_type n = COAP_OPTION_BLOCK1 \<Longrightarrow> on_val n = OptBlock sz num mf \<Longrightarrow>
    node_adds n [(unat (opt_num (on_type n)), block_encode sz num mf)]"
| int: "on_type n = COAP_OPTION_MAX_AGE \<or> on_type n = COAP_OPTION_OBSERVE \<Longrightarrow> on_val n = OptInt i \<Longrightarrow>
    node_adds n [(unat (opt_num (on_type n)), [ucast i])]"
| query: "on_type n = COAP_OPTION_URI_QUERY \<Longrightarrow> on_val n = OptStr buf \<Longrightarrow> length buf = 128 \<Longrightarrow>
    mem_str buf = Inr q \<Longrightarrow> node_adds n [(15, q)]"
| path: "on_type n = COAP_OPTION_URI_PATH \<Longrightarrow> on_val n = OptStr buf \<Longrightarrow> length buf = 128 \<Longrightarrow>
    mem_str buf = Inr (uri_text ps qs) \<Longrightarrow> ps \<noteq> [] \<Longrightarrow> \<forall>x \<in> set ps. seg_ok x \<Longrightarrow> \<forall>x \<in> set qs. seg_ok x \<Longrightarrow>
    \<forall>q. qs = [q] \<longrightarrow> 2 \<le> length q \<Longrightarrow> node_adds n (map (Pair 11) ps @ map (Pair 15) qs)"
| format: "on_type n = COAP_OPTION_CONTENT_FORMAT \<Longrightarrow> on_val n = OptFormat f \<Longrightarrow>
    node_adds n [(12, if f = 0 then [] else [word_of_int f])]"
| unsent: "on_type n \<notin> sent_types \<Longrightarrow> node_adds n []"

inductive_cases node_adds_E: "node_adds n os"

lemma mem_str_length: "mem_str buf = Inr q \<Longrightarrow> length q \<le> length buf"
  by (auto simp: mem_str_def length_takeWhile_le split: if_splits)

lemma length_block_encode: "length (block_encode sz num mf) \<le> 3"
  by (simp add: block_encode_def Let_def)

text \<open>A call whose result is dropped.\<close>

definition api_step :: "client res \<Rightarrow> client \<Rightarrow> coap_msg \<Rightarrow> bool" where
  "api_step r s m' \<longleftrightarrow> (\<exists>a. r = Inr (s\<lparr>c_api := a\<rparr>) \<and> api_rep a m'
     \<and> g_CoapRecvPointer a = g_CoapRecvPointer (c_api s))"

lemma api_call_step: "api_call f s r m' \<Longrightarrow> api_step (rmap snd (on_api f s)) s m'"
  by (auto simp: api_call_def api_step_def)

lemma api_step_refl: "api_rep (c_api s) m \<Longrightarrow> api_step (Inr s) s m"
  by (auto simp: api_step_def intro!: exI [of _ "c_api s"])

lemma call_add_opts:
  assumes "api_rep (c_api s) m" "no_limit h" "cm_payload m = []"
    "\<forall>(t, v) \<in> set os. t < 65536 \<and> length v < 269"
  shows "api_call (on_pdu h (add_opts h (map (\<lambda>(t, v). (of_nat t, v)) os))) s 0 (add_all os m)"
proof (rule api_callI [OF assms(1)])
  fix p assume p: "pdu_rep p m" "\<not> constructedFromBuffer p"
  show "\<exists>p'. add_opts h (map (\<lambda>(t, v). (of_nat t, v)) os) p = Inr (0, p')
      \<and> pdu_rep p' (add_all os m) \<and> \<not> constructedFromBuffer p'"
    by (rule add_opts_rep [OF assms(2) p(1) assms(3) p(2) assms(4)])
qed

lemma seg_text_member: "x \<in> set xs \<Longrightarrow> length x < length (seg_text c xs)"
  by (induction xs) auto

lemma uri_text_member:
  assumes "x \<in> set ps \<or> x \<in> set qs"
  shows "length x \<le> length (uri_text ps qs)"
  using assms seg_text_member [of x ps slash] seg_text_member [of x qs amp]
  by (auto simp: uri_text_def)

lemma option_add_ok:
  assumes na: "node_adds n os" and rep: "api_rep (c_api s) m" and h: "no_limit (env_heap e)"
    and pl: "cm_payload m = []"
  shows "api_step (mbtk_coap_option_add e n s) s (add_all os m)"
  using na
proof cases
  case (block sz num mf)
  have "api_call (coapAddOption (env_heap e) (of_nat (unat (opt_num (on_type n))))
      (of_nat (length (block_encode sz num mf))) (Some (block_encode sz num mf))) s 0
    (add_to (unat (opt_num (on_type n))) (block_encode sz num mf) m)"
    by (rule call_coapAddOption [OF rep h pl _ _ src_bytes_all])
       (use length_block_encode [of sz num mf] block(2) in \<open>auto intro: le_less_trans\<close>)
  then show ?thesis using block
    by (auto simp: mbtk_coap_option_add_def api_add_option_def Let_def dest!: api_call_step)
next
  case (int i)
  have "api_call (coapAddOption (env_heap e) (of_nat (unat (opt_num (on_type n))))
      (of_nat (length [ucast i :: byte])) (Some [ucast i])) s 0
    (add_to (unat (opt_num (on_type n))) [ucast i] m)"
    by (rule call_coapAddOption [OF rep h pl _ _ src_bytes_all]) (use int in auto)
  then show ?thesis using int
    by (auto simp: mbtk_coap_option_add_def api_add_option_def Let_def dest!: api_call_step)
next
  case (query buf q)
  have "api_call (coapAddOption (env_heap e) (of_nat 15) (of_nat (length q)) (Some q)) s 0 (add_to 15 q m)"
    by (rule call_coapAddOption [OF rep h pl _ _ src_bytes_all])
       (use mem_str_length [OF query(5)] query(4) in auto)
  moreover have "addURIQuery (env_heap e) (Some q) = addOption (env_heap e) 15 (of_nat (length q)) (Some q)"
    by (intro ext) (simp add: addURIQuery_def)
  ultimately show ?thesis using query
    by (auto simp: mbtk_coap_option_add_def coapAddURIQuery_def coapAddOption_def Let_def
        dest!: api_call_step)
next
  case (path buf ps qs)
  have len: "length (uri_text ps qs) \<le> 128" using mem_str_length [OF path(5)] path(4) by simp
  have os: "\<forall>(t, v) \<in> set os. t < 65536 \<and> length v < 269"
    using uri_text_member [of _ ps qs] len path(1) by fastforce
  have "setURI (env_heap e) (Some (uri_text ps qs))
      = add_opts (env_heap e) (map (\<lambda>(t, v). (of_nat t, v)) os)"
    using setURI_splits [OF path(6-9)] path(1) by (intro ext) (simp add: comp_def)
  with call_add_opts [OF rep h pl os] show ?thesis using path(2,3,5)
    by (auto simp: mbtk_coap_option_add_def coapSetURI_def Let_def dest!: api_call_step)
next
  case (format f)
  define v where "v = (if f = 0 then [] else [word_of_int f :: byte])"
  have "api_call (coapAddOption (env_heap e) (of_nat 12) (of_nat (length v)) (if f = 0 then None else Some v))
      s 0 (add_to 12 v m)"
    by (rule call_coapAddOption [OF rep h pl]) (auto simp: v_def src_bytes_def)
  then have call: "api_call (on_pdu (env_heap e) (addOption (env_heap e) 12 (of_nat (length v))
      (if f = 0 then None else Some v))) s 0 (add_to 12 v m)"
    by (simp add: coapAddOption_def)
  obtain p where p: "g_CoapPDU (c_api s) = Some p" using rep by (auto simp: api_rep_def)
  have "rmap snd (on_api (coapSetContentFormat (env_heap e) f) s)
      = rmap snd (on_api (on_pdu (env_heap e) (addOption (env_heap e) 12 (of_nat (length v))
          (if f = 0 then None else Some v))) s)"
    by (auto simp: coapSetContentFormat_def setContentFormat_def on_api_def on_pdu_Some [OF p] v_def
        case_prod_unfold)
  with api_call_step [OF call] show ?thesis using format
    by (auto simp: mbtk_coap_option_add_def v_def Let_def split: if_splits)
next
  case unsent
  then show ?thesis using api_step_refl [OF rep]
    by (auto simp: mbtk_coap_option_add_def sent_types_def Let_def)
qed

lemma add_all_payload [simp]: "cm_payload (add_all os m) = cm_payload m"
  by (induction os arbitrary: m) auto

lemma add_all_fields [simp]:
  "cm_version (add_all os m) = cm_version m" "cm_type (add_all os m) = cm_type m"
  "cm_code (add_all os m) = cm_code m" "cm_mid (add_all os m) = cm_mid m"
  "cm_token (add_all os m) = cm_token m"
  by (induction os arbitrary: m; auto)+

lemma send_options_ok:
  assumes "opt_path (onodes s) p as" "length as \<le> fuel"
    "list_all2 (\<lambda>a os. node_adds (the (onodes s a)) os) as oss"
    "api_rep (c_api s) m" "no_limit (env_heap e)" "cm_payload m = []"
  shows "api_step (send_options e fuel p s) s (add_all (concat oss) m)"
  using assms
proof (induction as arbitrary: p fuel oss s m)
  case Nil
  then show ?case using api_step_refl by auto
next
  case (Cons a as)
  then obtain n f where n: "p = Some a" "onodes s a = Some n" "on_live n" "opt_path (onodes s) (on_next n) as"
    "fuel = Suc f" by (cases fuel) auto
  obtain os oss' where oss: "oss = os # oss'" "node_adds n os"
    "list_all2 (\<lambda>a os. node_adds (the (onodes s a)) os) as oss'"
    using Cons.prems(3) n(2) by (cases oss) auto
  obtain a1 where a1: "mbtk_coap_option_add e n s = Inr (s\<lparr>c_api := a1\<rparr>)" "api_rep a1 (add_all os m)"
    "g_CoapRecvPointer a1 = g_CoapRecvPointer (c_api s)"
    using option_add_ok [OF oss(2) Cons.prems(4-6)] by (auto simp: api_step_def)
  have "api_step (send_options e f (on_next n) (s\<lparr>c_api := a1\<rparr>)) (s\<lparr>c_api := a1\<rparr>)
      (add_all (concat oss') (add_all os m))"
    by (rule Cons.IH) (use n oss a1 Cons.prems in simp_all)
  then show ?case using n oss a1 by (auto simp: api_step_def get_node_def)
qed

section \<open>The PDU of a package\<close>

definition pkg_base :: "package \<Rightarrow> coap_msg" where
  "pkg_base p = \<lparr>cm_version = pk_version p, cm_type = word_of_int (type_val (pk_type p)),
     cm_code = word_of_int (code_val (pk_code p)), cm_mid = pk_message_id p,
     cm_token = take (unat (token_len p)) (pk_token p), cm_opts = [], cm_payload = []\<rparr>"

definition pkg_payload :: "package \<Rightarrow> byte list" where
  "pkg_payload p = (case playload p of None \<Rightarrow> [] | Some d \<Rightarrow> take (unat (playload_len p)) d)"

definition pkg_msg :: "package \<Rightarrow> (nat \<times> byte list) list list \<Rightarrow> coap_msg" where
  "pkg_msg p oss = (add_all (concat oss) (pkg_base p))\<lparr>cm_payload := pkg_payload p\<rparr>"

text \<open>A package that can be sent: field sizes as \<open>set_token\<close>, \<open>set_payload\<close> and
  \<open>set_option\<close> leave them.\<close>

definition pkg_ready :: "client \<Rightarrow> package \<Rightarrow> (nat \<times> byte list) list list \<Rightarrow> bool" where
  "pkg_ready s p oss \<longleftrightarrow> pk_version p \<le> 3 \<and> unat (token_len p) \<le> 8 \<and> length (pk_token p) = 8
     \<and> (\<exists>as. opt_path (onodes s) (pk_options p) as \<and> length as \<le> fresh s
          \<and> list_all2 (\<lambda>a os. node_adds (the (onodes s a)) os) as oss)
     \<and> (playload_len p \<noteq> 0 \<longrightarrow> (\<exists>d. playload p = Some d \<and> length d = unat (playload_len p)))
     \<and> (playload_len p = 0 \<longrightarrow> playload p = None \<or> playload p = Some [])"

lemma api_callE:
  assumes "api_call f s r m'"
  obtains a where "on_api f s = Inr (r, s\<lparr>c_api := a\<rparr>)" "api_rep a m'"
    "g_CoapRecvPointer a = g_CoapRecvPointer (c_api s)"
  using assms by (auto simp: api_call_def)

lemma api_stepE:
  assumes "api_step r s m'"
  obtains a where "r = Inr (s\<lparr>c_api := a\<rparr>)" "api_rep a m'"
    "g_CoapRecvPointer a = g_CoapRecvPointer (c_api s)"
  using assms by (auto simp: api_step_def)

lemma encode_head_length: "cm_opts m = [] \<Longrightarrow> cm_payload m = [] \<Longrightarrow> length (encode m) = 4 + length (cm_token m)"
  by (simp add: encode_def enc_payload_def)

lemma build_token:
  assumes rep: "api_rep (c_api s) m" and h: "no_limit (env_heap e)" and n: "unat n \<le> 8"
    "unat n \<le> length tok" and m: "cm_opts m = []" "cm_payload m = []" "cm_token m = []"
  shows "api_step (if n > 0
      then rmap snd (on_api (coapSetToken (env_heap e) (Some tok) n) s) else Inr s)
    s (m\<lparr>cm_token := take (unat n) tok\<rparr>)"
proof (cases "n = 0")
  case True
  have "m\<lparr>cm_token := []\<rparr> = m" using m(3) by simp
  then show ?thesis using True api_step_refl [OF rep] by simp
next
  case False
  define t where "t = take (unat n) tok"
  have t: "length t = unat n" "(of_nat (length t) :: byte) = n"
    using n by (simp_all add: t_def)
  have pos: "0 < length t" using False t(1) by (simp add: unat_gt_0)
  have src: "src_bytes (Some tok) (int (length t)) = Inr t"
    using n pos by (simp add: src_bytes_def t(1) del: of_nat_unat) (simp add: t_def)
  have "api_call (coapSetToken (env_heap e) (Some tok) (of_nat (length t))) s 0 (m\<lparr>cm_token := t\<rparr>)"
    by (rule call_coapSetToken [OF rep h m(2,3) pos _ _ src])
       (use n m t(1) in \<open>simp_all add: encode_head_length\<close>)
  then show ?thesis using False unfolding t(2) by (simp add: api_call_step t_def word_neq_0_conv)
qed

lemma build_payload:
  assumes rep: "api_rep (c_api s) m" and h: "no_limit (env_heap e)" and m: "cm_payload m = []"
    and d: "playload_len p \<noteq> 0 \<Longrightarrow> \<exists>d. playload p = Some d \<and> length d = unat (playload_len p)"
    "playload_len p = 0 \<Longrightarrow> playload p = None \<or> playload p = Some []"
  shows "api_step (if playload_len p > 0
      then rmap snd (on_api (coapSetPayload (env_heap e) (playload p) (uint (playload_len p))) s) else Inr s)
    s (m\<lparr>cm_payload := pkg_payload p\<rparr>)"
proof (cases "playload_len p = 0")
  case True
  then have "pkg_payload p = []" using d(2) by (auto simp: pkg_payload_def)
  moreover have "m\<lparr>cm_payload := []\<rparr> = m" using m by simp
  ultimately show ?thesis using True api_step_refl [OF rep] by simp
next
  case False
  then obtain x where x: "playload p = Some x" "length x = unat (playload_len p)" using d(1) by blast
  have ne: "x \<noteq> []" using False x(2) by (auto simp: unat_eq_0)
  have len: "int (length x) = uint (playload_len p)" using x(2) by simp
  have "api_call (coapSetPayload (env_heap e) (Some x) (int (length x))) s 0 (m\<lparr>cm_payload := x\<rparr>)"
    by (rule call_coapSetPayload [OF rep h m ne src_bytes_all])
  then show ?thesis using False x(1,2) unfolding len
    by (simp add: api_call_step pkg_payload_def word_neq_0_conv)
qed

lemma build_pdu_ok:
  assumes rep: "api_rep (c_api s) m0" and h: "no_limit (env_heap e)" and ready: "pkg_ready s p oss"
  shows "api_step (build_pdu e p s) s (pkg_msg p oss)"
proof -
  from ready obtain as where ver: "pk_version p \<le> 3" and tok: "unat (token_len p) \<le> 8" "length (pk_token p) = 8"
    and opts: "opt_path (onodes s) (pk_options p) as" "length as \<le> fresh s"
      "list_all2 (\<lambda>a os. node_adds (the (onodes s a)) os) as oss"
    and pay: "playload_len p \<noteq> 0 \<Longrightarrow> \<exists>d. playload p = Some d \<and> length d = unat (playload_len p)"
      "playload_len p = 0 \<Longrightarrow> playload p = None \<or> playload p = Some []"
    by (auto simp: pkg_ready_def)
  let ?h = "env_heap e"
  obtain a1 where a1: "on_api (coapReset ?h) s = Inr (0, s\<lparr>c_api := a1\<rparr>)" "api_rep a1 (empty_msg 0)"
    "g_CoapRecvPointer a1 = g_CoapRecvPointer (c_api s)"
    by (rule api_callE [OF call_coapReset [OF rep]])
  let ?s1 = "s\<lparr>c_api := a1\<rparr>"
  obtain a2 where a2: "on_api (coapSetVersion ?h (pk_version p)) ?s1 = Inr (1, ?s1\<lparr>c_api := a2\<rparr>)"
    "api_rep a2 (empty_msg (pk_version p))" "g_CoapRecvPointer a2 = g_CoapRecvPointer a1"
    using call_coapSetVersion [of ?s1 "empty_msg 0" "pk_version p" ?h] a1(2) ver
    by (auto simp: api_call_def)
  let ?s2 = "s\<lparr>c_api := a2\<rparr>"
  obtain a3 where a3: "on_api (coapSetType ?h (pk_type p)) ?s2 = Inr ((), ?s2\<lparr>c_api := a3\<rparr>)"
    "api_rep a3 ((empty_msg (pk_version p))\<lparr>cm_type := word_of_int (type_val (pk_type p))\<rparr>)"
    "g_CoapRecvPointer a3 = g_CoapRecvPointer a2"
    using call_coapSetType [of ?s2 "empty_msg (pk_version p)" ?h "pk_type p"] a2(2)
    by (auto simp: api_call_def)
  let ?s3 = "s\<lparr>c_api := a3\<rparr>"
  obtain a4 where a4: "on_api (coapSetCode ?h (code_val (pk_code p))) ?s3 = Inr ((), ?s3\<lparr>c_api := a4\<rparr>)"
    "api_rep a4 ((empty_msg (pk_version p))\<lparr>cm_type := word_of_int (type_val (pk_type p)),
       cm_code := word_of_int (code_val (pk_code p))\<rparr>)"
    "g_CoapRecvPointer a4 = g_CoapRecvPointer a3"
    using call_coapSetCode [of ?s3 _ ?h "code_val (pk_code p)"] a3(2) by (fastforce simp: api_call_def)
  let ?s4 = "s\<lparr>c_api := a4\<rparr>"
  obtain a5 where a5: "on_api (coapSetMessageID ?h (pk_message_id p)) ?s4 = Inr (0, ?s4\<lparr>c_api := a5\<rparr>)"
    "api_rep a5 ((pkg_base p)\<lparr>cm_token := []\<rparr>)" "g_CoapRecvPointer a5 = g_CoapRecvPointer a4"
    using call_coapSetMessageID [of ?s4 _ ?h "pk_message_id p"] a4(2)
    by (fastforce simp: api_call_def pkg_base_def)
  let ?s5 = "s\<lparr>c_api := a5\<rparr>"
  have "api_step (if token_len p > 0
      then rmap snd (on_api (coapSetToken ?h (Some (pk_token p)) (token_len p)) ?s5) else Inr ?s5)
    ?s5 (((pkg_base p)\<lparr>cm_token := []\<rparr>)\<lparr>cm_token := take (unat (token_len p)) (pk_token p)\<rparr>)"
    by (rule build_token [OF _ h]) (use a5(2) tok in \<open>simp_all add: pkg_base_def\<close>)
  then obtain a6 where a6: "(if token_len p > 0
      then rmap snd (on_api (coapSetToken ?h (Some (pk_token p)) (token_len p)) ?s5) else Inr ?s5)
      = Inr (?s5\<lparr>c_api := a6\<rparr>)" "api_rep a6 (pkg_base p)" "g_CoapRecvPointer a6 = g_CoapRecvPointer a5"
    by (rule api_stepE) (simp add: pkg_base_def)
  let ?s6 = "s\<lparr>c_api := a6\<rparr>"
  have "api_step (send_options e (fresh ?s6) (pk_options p) ?s6) ?s6 (add_all (concat oss) (pkg_base p))"
    by (rule send_options_ok [where as = as]) (use opts a6(2) h in \<open>simp_all add: pkg_base_def\<close>)
  then obtain a7 where a7: "send_options e (fresh ?s6) (pk_options p) ?s6 = Inr (?s6\<lparr>c_api := a7\<rparr>)"
    "api_rep a7 (add_all (concat oss) (pkg_base p))" "g_CoapRecvPointer a7 = g_CoapRecvPointer a6"
    by (rule api_stepE) simp
  let ?s7 = "s\<lparr>c_api := a7\<rparr>"
  have "api_step (if playload_len p > 0
      then rmap snd (on_api (coapSetPayload ?h (playload p) (uint (playload_len p))) ?s7) else Inr ?s7)
    ?s7 (pkg_msg p oss)"
    unfolding pkg_msg_def
    by (rule build_payload [OF _ h _ pay]) (use a7(2) in \<open>simp_all add: pkg_base_def\<close>)
  then show ?thesis
    using a1 a2 a3 a4 a5 a6 a7 by (simp add: build_pdu_def Let_def api_step_def)
qed

section \<open>Sending a package\<close>

definition net_open :: "coap_net \<Rightarrow> bool" where
  "net_open n \<longleftrightarrow> ci_handle (item n 0) > 0 \<and> ci_sockfd (item n 0) > 0"

lemma udp_sendto_open:
  assumes "net_open net"
  shows "\<exists>n r. 0 < n \<and> n \<le> 4 \<and>
    mbtk_coap_udp_sendto sys 0 bytes net = Some (r,
      net\<lparr>tick := tick net + n, sent := sent net @ replicate n (ci_sockfd (item net 0), bytes)\<rparr>)
    \<and> (r = int (length bytes) \<or> n = 4)"
proof -
  let ?fd = "ci_sockfd (item net 0)"
  obtain n where n: "n \<le> 4" "0 < n"
    "retry_send sys ?fd bytes (Suc 3) net = Some (sys (tick net + n - 1),
         net\<lparr>tick := tick net + n, sent := sent net @ replicate n (?fd, bytes)\<rparr>)"
    "sys (tick net + n - 1) = int (length bytes) \<or> n = 4"
    using retry_send_runs [where k = 4 and k' = 3 and sys = sys and fd = ?fd and buffer = bytes and s = net]
    by auto
  have "mbtk_coap_udp_sendto sys 0 bytes net = retry_send sys ?fd bytes (Suc 3) net"
    using assms by (simp add: mbtk_coap_udp_sendto_def bad_type_def MBTK_COAP_TYPE_MAX_def net_open_def)
  then show ?thesis using n by auto
qed

lemma send_pdu_ok:
  assumes "api_rep (c_api s) m" "net_open (c_net s)" "length (encode m) < 65536"
  shows "\<exists>n r. 0 < n \<and> n \<le> 4 \<and>
    send_pdu e s = Inr ((r, int (length (encode m))),
      s\<lparr>c_net := (c_net s)\<lparr>tick := tick (c_net s) + n,
         sent := sent (c_net s) @ replicate n (ci_sockfd (item (c_net s) 0), encode m)\<rparr>\<rparr>)
    \<and> (r = int (length (encode m)) \<or> n = 4)"
proof -
  obtain p where p: "g_CoapPDU (c_api s) = Some p" "pdu_rep p m"
    using assms(1) by (auto simp: api_rep_def)
  have len: "pduLength p = int (length (encode m))" "take (length (encode m)) (pdu_mem p) = encode m"
    "length (encode m) \<le> length (pdu_mem p)"
    using p(2) by (auto simp: pdu_rep_def)
  have ptr: "coapGetPDUPointer (c_api s) = Inr (pdu_mem p)" by (simp add: coapGetPDUPointer_def p(1))
  have get: "on_api (coapGetPDULength (env_heap e)) s = Inr (int (length (encode m)), s)"
    using p(1) by (simp add: on_api_def coapGetPDULength_def on_pdu_Some getPDULength_def len)
  have u: "uint (of_nat (length (encode m)) :: u16) = int (length (encode m))"
    using assms(3) by (simp add: unsigned_of_nat take_bit_nat_eq_self)
  have src: "src_bytes (Some (pdu_mem p)) (int (length (encode m))) = Inr (encode m)"
    using len by (simp add: src_bytes_def)
  obtain n r where n: "0 < n" "n \<le> 4" "mbtk_coap_udp_sendto (env_sys e) 0 (encode m) (c_net s) = Some (r,
      (c_net s)\<lparr>tick := tick (c_net s) + n,
        sent := sent (c_net s) @ replicate n (ci_sockfd (item (c_net s) 0), encode m)\<rparr>)"
    "r = int (length (encode m)) \<or> n = 4"
    using udp_sendto_open [OF assms(2), of "env_sys e" "encode m"] by blast
  show ?thesis
    by (rule exI [of _ n], rule exI [of _ r])
       (use n(1,2,4) in \<open>simp add: send_pdu_def ptr get u src n(3)\<close>)
qed

lemma coap_send_ok:
  assumes rep: "api_rep (c_api s) m0" and h: "no_limit (env_heap e)"
    and pkg: "pkgs s a = Some p" and ready: "pkg_ready s p oss" and con: "pk_type p = COAP_CONFIRMABLE"
    and net: "net_open (c_net s)" and len: "length (encode (pkg_msg p oss)) < 65536"
  shows "\<exists>s' n. 0 < n \<and> n \<le> 4 \<and> mbtk_coap_coap_send e (Some a) s = Inr s'
    \<and> sent (c_net s') = sent (c_net s) @ replicate n (ci_sockfd (item (c_net s) 0), encode (pkg_msg p oss))
    \<and> (\<exists>k. pkgs s' = (pkgs s)(a \<mapsto> p\<lparr>send_count := k\<rparr>)) \<and> onodes s' = onodes s
    \<and> mbtk_coaps s' = mbtk_coaps s \<and> mbtk_coaps_tail s' = mbtk_coaps_tail s \<and> fresh s' = fresh s
    \<and> api_rep (c_api s') (pkg_msg p oss)"
proof -
  let ?m = "pkg_msg p oss"
  obtain b where b: "build_pdu e p s = Inr (s\<lparr>c_api := b\<rparr>)" "api_rep b ?m"
    using build_pdu_ok [OF rep h ready] by (auto simp: api_step_def)
  let ?s1 = "s\<lparr>c_api := b\<rparr>"
  obtain n r where n: "0 < n" "n \<le> 4" "send_pdu e ?s1 = Inr ((r, int (length (encode ?m))),
      ?s1\<lparr>c_net := (c_net s)\<lparr>tick := tick (c_net s) + n,
         sent := sent (c_net s) @ replicate n (ci_sockfd (item (c_net s) 0), encode ?m)\<rparr>\<rparr>)"
    using send_pdu_ok [of ?s1 ?m e] b(2) net len by (auto simp del: of_nat_diff)
  have self: "(pkgs s)(a \<mapsto> p) = pkgs s" using pkg by auto
  have unch: "\<exists>k. pkgs s = (pkgs s)(a \<mapsto> p\<lparr>send_count := k\<rparr>)"
    using self by (intro exI [of _ "send_count p"]) simp
  show ?thesis
    using n unch b(2)
    by (intro exI [of _ "if r \<noteq> int (length (encode ?m))
            then put_pkg a (p\<lparr>send_count := send_count p + 1\<rparr>)
              (?s1\<lparr>c_net := (c_net s)\<lparr>tick := tick (c_net s) + n,
                sent := sent (c_net s) @ replicate n (ci_sockfd (item (c_net s) 0), encode ?m)\<rparr>\<rparr>)
            else ?s1\<lparr>c_net := (c_net s)\<lparr>tick := tick (c_net s) + n,
                sent := sent (c_net s) @ replicate n (ci_sockfd (item (c_net s) 0), encode ?m)\<rparr>\<rparr>"]
          exI [of _ n])
       (auto simp: mbtk_coap_coap_send_def get_pkg_def pkg b(1) con upd_pkg_def put_pkg_def)
qed

section \<open>Acknowledgements\<close>

definition ack_msg :: "int \<Rightarrow> u16 \<Rightarrow> byte list \<Rightarrow> coap_msg" where
  "ack_msg code message_id token = \<lparr>cm_version = 1, cm_type = 0x20,
     cm_code = (if code = code_val COAP_POST \<or> code = code_val COAP_PUT then 0x44 else 0),
     cm_mid = message_id, cm_token = token, cm_opts = [], cm_payload = []\<rparr>"

lemma send_ack_ok:
  assumes rep: "api_rep (c_api s) m0" and h: "no_limit (env_heap e)" and net: "net_open (c_net s)"
    and t: "unat tlen \<le> 8" "unat tlen \<le> length token"
  shows "\<exists>s' n. 0 < n \<and> n \<le> 4 \<and> mbtk_coap_send_ack e code message_id tlen token s = Inr s'
    \<and> sent (c_net s') = sent (c_net s)
        @ replicate n (ci_sockfd (item (c_net s) 0), encode (ack_msg code message_id (take (unat tlen) token)))
    \<and> pkgs s' = pkgs s \<and> onodes s' = onodes s \<and> mbtk_coaps s' = mbtk_coaps s"
proof -
  let ?h = "env_heap e"
  let ?c = "if code = code_val COAP_POST \<or> code = code_val COAP_PUT then code_val COAP_CHANGED else code_val COAP_EMPTY"
  let ?m = "ack_msg code message_id (take (unat tlen) token)"
  obtain a1 where a1: "on_api (coapReset ?h) s = Inr (0, s\<lparr>c_api := a1\<rparr>)" "api_rep a1 (empty_msg 0)"
    by (rule api_callE [OF call_coapReset [OF rep]])
  let ?s1 = "s\<lparr>c_api := a1\<rparr>"
  obtain a2 where a2: "on_api (coapSetVersion ?h 1) ?s1 = Inr (1, ?s1\<lparr>c_api := a2\<rparr>)"
    "api_rep a2 (empty_msg 1)"
    using call_coapSetVersion [of ?s1 "empty_msg 0" 1 ?h] a1(2) by (auto simp: api_call_def)
  let ?s2 = "s\<lparr>c_api := a2\<rparr>"
  obtain a3 where a3: "on_api (coapSetType ?h COAP_ACKNOWLEDGEMENT) ?s2 = Inr ((), ?s2\<lparr>c_api := a3\<rparr>)"
    "api_rep a3 ((empty_msg 1)\<lparr>cm_type := 0x20\<rparr>)"
    using call_coapSetType [of ?s2 "empty_msg 1" ?h COAP_ACKNOWLEDGEMENT] a2(2)
    by (auto simp: api_call_def)
  let ?s3 = "s\<lparr>c_api := a3\<rparr>"
  obtain a4 where a4: "on_api (coapSetMessageID ?h message_id) ?s3 = Inr (0, ?s3\<lparr>c_api := a4\<rparr>)"
    "api_rep a4 ((empty_msg 1)\<lparr>cm_type := 0x20, cm_mid := message_id\<rparr>)"
    using call_coapSetMessageID [of ?s3 _ ?h message_id] a3(2) by (fastforce simp: api_call_def)
  let ?s4 = "s\<lparr>c_api := a4\<rparr>"
  have base: "((empty_msg 1)\<lparr>cm_type := 0x20, cm_mid := message_id\<rparr>)\<lparr>cm_code := word_of_int ?c\<rparr>
      = ?m\<lparr>cm_token := []\<rparr>"
    by (simp add: ack_msg_def)
  obtain a5 where a5: "on_api (coapSetCode ?h ?c) ?s4 = Inr ((), ?s4\<lparr>c_api := a5\<rparr>)"
    "api_rep a5 (?m\<lparr>cm_token := []\<rparr>)"
    using call_coapSetCode [of ?s4 "(empty_msg 1)\<lparr>cm_type := 0x20, cm_mid := message_id\<rparr>" ?h ?c] a4(2)
    unfolding base by (auto simp: api_call_def)
  let ?s5 = "s\<lparr>c_api := a5\<rparr>"
  have "api_step (if tlen > 0 then rmap snd (on_api (coapSetToken ?h (Some token) tlen) ?s5) else Inr ?s5)
      ?s5 ((?m\<lparr>cm_token := []\<rparr>)\<lparr>cm_token := take (unat tlen) token\<rparr>)"
    by (rule build_token [OF _ h t]) (use a5(2) in \<open>simp_all add: ack_msg_def\<close>)
  then obtain a6 where a6: "(if tlen > 0 then rmap snd (on_api (coapSetToken ?h (Some token) tlen) ?s5) else Inr ?s5)
      = Inr (?s5\<lparr>c_api := a6\<rparr>)" "api_rep a6 ?m"
    by (rule api_stepE) (simp add: ack_msg_def)
  have len: "length (encode ?m) < 65536"
    using t by (simp add: encode_head_length ack_msg_def)
  obtain n r where n: "0 < n" "n \<le> 4" "send_pdu e (s\<lparr>c_api := a6\<rparr>) = Inr ((r, int (length (encode ?m))),
      (s\<lparr>c_api := a6\<rparr>)\<lparr>c_net := (c_net s)\<lparr>tick := tick (c_net s) + n,
         sent := sent (c_net s) @ replicate n (ci_sockfd (item (c_net s) 0), encode ?m)\<rparr>\<rparr>)"
    using send_pdu_ok [of "s\<lparr>c_api := a6\<rparr>" ?m e] a6(2) net len by (auto simp del: of_nat_diff)
  have "mbtk_coap_send_ack e code message_id tlen token s = rmap snd (send_pdu e (s\<lparr>c_api := a6\<rparr>))"
    using a1(1) a2(1) a3(1) a4(1) a5(1) a6(1)
    by (simp add: mbtk_coap_send_ack_def Let_def cong: if_cong)
  then show ?thesis using n by (intro exI [of _ n] exI) (rule conjI, simp, rule conjI, simp, rule conjI, simp, simp)
qed

end
