(* ===== verification/Coap_Recv.thy ===== *)
theory Coap_Recv
  imports Coap_Send Coap_Store
begin

text \<open>
  What a received datagram does to the client: the option getters on a decoded PDU, the
  acknowledgement that a confirmable request gets, and the removal of the acknowledged
  package from the list.  Also the stack buffer that a long Uri-Path overruns.
\<close>

section \<open>One option of a decoded message\<close>

text \<open>The last option with the number wins.\<close>

fun last_val :: "nat \<Rightarrow> (nat \<times> byte list) list \<Rightarrow> byte list option \<Rightarrow> byte list option" where
  "last_val n [] a = a"
| "last_val n ((k, v) # os) a = last_val n os (if k = n then Some v else a)"

definition holds_val :: "byte list option \<Rightarrow> u16 \<times> byte list \<Rightarrow> u16 \<Rightarrow> byte list \<Rightarrow> bool" where
  "holds_val a old len dst \<longleftrightarrow> length dst = length (snd old) \<and>
     (case a of None \<Rightarrow> (len, dst) = old | Some v \<Rightarrow> unat len = length v \<and> take (length v) dst = v)"

lemma copy_matching_reads:
  assumes "list_all2 (opt_reads p) opts os" "\<forall>(k, v) \<in> set os. k = unat n \<longrightarrow> length v \<le> length (snd old)"
    "holds_val a old len dst"
  shows "\<exists>len' dst'. copy_matching p n opts len dst = Inr (len', dst') \<and> holds_val (last_val (unat n) os a) old len' dst'"
  using assms
proof (induction arbitrary: a len dst rule: list_all2_induct)
  case (Cons opt opts x os)
  obtain k v where x: "x = (k, v)" by (cases x)
  have r: "unat (o_number opt) = k" "rd_bytes (pdu_mem p) (o_val opt) (unat (o_vlen opt)) = Inr v"
    using Cons.hyps(1) x by (auto simp: opt_reads_def)
  note lv = rd_bytes_length [OF r(2)]
  show ?case
  proof (cases "k = unat n")
    case True
    then have "o_number opt = n" using r(1) by (simp add: word_unat_eq_iff)
    moreover have len: "length v \<le> length dst" using Cons.prems x True by (auto simp: holds_val_def)
    moreover have "holds_val (Some v) old (o_vlen opt) (v @ drop (length v) dst)"
      using len lv Cons.prems(2) by (auto simp: holds_val_def)
    ultimately show ?thesis using Cons.IH [of "Some v" "o_vlen opt" "v @ drop (length v) dst"] Cons.prems x True r
      by (simp add: wr_bytes_ok)
  next
    case False
    then have "o_number opt \<noteq> n" using r(1) by auto
    then show ?thesis using Cons.IH [OF _ Cons.prems(2)] Cons.prems x False by simp
  qed
qed auto

lemma copy_matching_overrun:
  assumes "list_all2 (opt_reads p) opts os" "\<exists>v. (unat n, v) \<in> set os \<and> length dst < length v"
  shows "copy_matching p n opts len dst = Inl OutOfBounds"
  using assms
proof (induction arbitrary: len dst rule: list_all2_induct)
  case (Cons opt opts x os)
  obtain k v where x: "x = (k, v)" by (cases x)
  have r: "unat (o_number opt) = k" "rd_bytes (pdu_mem p) (o_val opt) (unat (o_vlen opt)) = Inr v"
    using Cons.hyps(1) x by (auto simp: opt_reads_def)
  show ?case
  proof (cases "k = unat n")
    case True
    then have eq: "o_number opt = n" using r(1) by (simp add: word_unat_eq_iff)
    show ?thesis
    proof (cases "length v \<le> length dst")
      case True
      with Cons.prems x \<open>k = unat n\<close> have "\<exists>v. (unat n, v) \<in> set os \<and> length dst < length v" by auto
      with Cons.IH [of "v @ drop (length v) dst"] True eq r show ?thesis by (simp add: wr_bytes_ok)
    next
      case False
      with eq r show ?thesis by (simp add: wr_bytes_oob)
    qed
  next
    case False
    then have "o_number opt \<noteq> n" using r(1) by auto
    then show ?thesis using Cons.IH Cons.prems x False by auto
  qed
qed simp

lemma getOptionValueById_decodes:
  assumes dec: "decodes q m" and fits: "\<forall>(k, v) \<in> set (cm_opts m). k = unat n \<longrightarrow> length v \<le> length dst"
  shows "\<exists>len dst'. getOptionValueById True n len0 dst q = Inr (len, dst')
    \<and> holds_val (last_val (unat n) (cm_opts m) None) (len0, dst) len dst'"
proof (cases "cm_opts m = []")
  case True
  then show ?thesis using dec by (simp add: getOptionValueById_def decodes_def getNumOptions_def holds_val_def)
next
  case False
  then obtain opts where o: "getOptions True q = Inr (Some opts)" "list_all2 (opt_reads q) opts (cm_opts m)"
    "numOptions q \<noteq> 0"
    using dec by (auto simp: decodes_def getNumOptions_def split: option.splits)
  have "holds_val None (len0, dst) len0 dst" by (simp add: holds_val_def)
  from copy_matching_reads [OF o(2) _ this, of n] fits o show ?thesis
    by (simp add: getOptionValueById_def)
qed

lemma getOptionValueById_overrun:
  assumes dec: "decodes q m" and long: "\<exists>v. (unat n, v) \<in> set (cm_opts m) \<and> length dst < length v"
  shows "getOptionValueById True n len0 dst q = Inl OutOfBounds"
proof -
  have "cm_opts m \<noteq> []" using long by auto
  then obtain opts where o: "getOptions True q = Inr (Some opts)" "list_all2 (opt_reads q) opts (cm_opts m)"
    "numOptions q \<noteq> 0"
    using dec by (auto simp: decodes_def getNumOptions_def split: option.splits)
  then show ?thesis using copy_matching_overrun [OF o(2) long] by (simp add: getOptionValueById_def)
qed

section \<open>The received message\<close>

definition recv_rep :: "api \<Rightarrow> coap_msg \<Rightarrow> bool" where
  "recv_rep s m \<longleftrightarrow> (\<exists>q. g_CoapRecvPointer s = Some q \<and> decodes q m \<and> getPDULength q = int (length (encode m)))"

definition recv_ok :: "coap_msg \<Rightarrow> bool" where
  "recv_ok m \<longleftrightarrow> wf_msg m \<and> cm_version m = 1 \<and> code_is_valid (uint (cm_code m)) \<and> length (encode m) < 65536"

lemma coapCreateRecv_encode:
  assumes "recv_ok m"
  shows "\<exists>s'. coapCreateRecv (encode m @ slack) (int (length (encode m))) s = Inr (int (length (encode m)), s')
    \<and> recv_rep s' m \<and> g_CoapPDU s' = g_CoapPDU s"
proof -
  obtain p q where "new_CoapPDU_buffer (encode m @ slack) (int (length (encode m))) (int (length (encode m))) = Inr p"
    "validate p = Inr (1, q)" "decodes q m" "getPDULength q = int (length (encode m))"
    using parse_encode [of m slack "int (length (encode m))"] assms by (auto simp: recv_ok_def)
  then show ?thesis by (simp add: coapCreateRecv_def recv_rep_def)
qed

lemma recv_token_rep:
  assumes "recv_rep s m" "length (cm_token m) \<le> 8"
  shows "recv_token s = Inr (of_nat (length (cm_token m)), cm_token m @ replicate (9 - length (cm_token m)) 0)"
proof -
  obtain q where q: "g_CoapRecvPointer s = Some q" "decodes q m" using assms(1) by (auto simp: recv_rep_def)
  have u: "unat (of_nat (length (cm_token m)) :: byte) = length (cm_token m)"
    "uint (of_nat (length (cm_token m)) :: byte) = int (length (cm_token m))"
    using assms(2) by (simp_all add: unsigned_of_nat take_bit_nat_eq_self)
  have w: "wr_bytes (replicate 9 0) 0 (cm_token m) = Inr (cm_token m @ replicate (9 - length (cm_token m)) 0)"
    using assms(2) by (simp add: wr_bytes_ok)
  have l: "coapGetRecvTokenLength s = Inr (int (length (cm_token m)))"
    "coapGetRecvTokenPointer s = Inr (if cm_token m = [] then None else Some 4)"
    using q by (auto simp: coapGetRecvTokenLength_def coapGetRecvTokenPointer_def on_recv_def decodes_def
        getTokenPointer_def)
  have r: "rd_bytes (pdu_mem q) 4 (length (cm_token m)) = Inr (cm_token m)"
    using q by (simp add: decodes_def)
  show ?thesis
    using q(1) w r u by (cases "cm_token m = []") (simp_all add: recv_token_def l on_recv_def src_bytes_def Let_def)
qed

definition max_path :: "coap_msg \<Rightarrow> bool" where
  "max_path m \<longleftrightarrow> (\<forall>(k, v) \<in> set (cm_opts m). k = 11 \<longrightarrow> length v \<le> 100)"

lemma getUriPath_ok:
  assumes "recv_rep s m" "max_path m"
  shows "is_ok (coapGetRecvOptionUriPath True (replicate 100 0) s)"
proof -
  obtain q where q: "g_CoapRecvPointer s = Some q" "decodes q m" using assms(1) by (auto simp: recv_rep_def)
  from getOptionValueById_decodes [OF q(2), of 11 "replicate 100 0" 0] assms(2) q(1) show ?thesis
    by (auto simp: max_path_def coapGetRecvOptionUriPath_def coapGetRecvOption_def coapGetOptionValueById_def)
qed

lemma getUriPath_overrun:
  assumes "recv_rep s m" "\<not> max_path m"
  shows "coapGetRecvOptionUriPath True (replicate 100 0) s = Inl OutOfBounds"
proof -
  obtain q where q: "g_CoapRecvPointer s = Some q" "decodes q m" using assms(1) by (auto simp: recv_rep_def)
  have "\<exists>v. (unat (11 :: u16), v) \<in> set (cm_opts m) \<and> length (replicate 100 (0 :: byte)) < length v"
    using assms(2) by (auto simp: max_path_def not_le)
  from getOptionValueById_overrun [OF q(2) this, of 0] q(1) show ?thesis
    by (simp add: coapGetRecvOptionUriPath_def coapGetRecvOption_def coapGetOptionValueById_def)
qed

text \<open>The prefix of \<open>mbtk_coap_recv_resolve\<close> that every message goes through.\<close>

lemma recv_resolve_dispatch:
  assumes m: "recv_ok m" "max_path m" and e: "opts_ok e"
  shows "\<exists>a. recv_rep a m \<and> g_CoapPDU a = g_CoapPDU (c_api s) \<and>
    mbtk_coap_recv_resolve e (encode m @ slack) (of_nat (length (encode m))) s =
      (let s1 = s\<lparr>c_api := a\<rparr> in
       if cm_type m = 0 then mbtk_coap_send_ack e (uint (cm_code m)) (cm_mid m) (of_nat (length (cm_token m)))
          (cm_token m @ replicate (9 - length (cm_token m)) 0) s1
       else if cm_type m = 0x20 then resolve_ack e (cm_mid m) s1
       else Inr s1)"
proof -
  have tok: "length (cm_token m) \<le> 8" and len: "length (encode m) < 65536"
    and ty: "cm_type m \<in> {0x00, 0x10, 0x20, 0x30}" using m(1) by (simp_all add: recv_ok_def wf_msg_def)
  have u: "uint (of_nat (length (encode m)) :: u16) = int (length (encode m))"
    using len by (simp add: unsigned_of_nat take_bit_nat_eq_self)
  obtain a where a: "coapCreateRecv (encode m @ slack) (int (length (encode m))) (c_api s)
      = Inr (int (length (encode m)), a)" "recv_rep a m" "g_CoapPDU a = g_CoapPDU (c_api s)"
    using coapCreateRecv_encode [OF m(1)] by blast
  have on: "on_api (coapCreateRecv (encode m @ slack) (int (length (encode m)))) s
      = Inr (int (length (encode m)), s\<lparr>c_api := a\<rparr>)"
    by (simp add: on_api_def a(1))
  obtain x where x: "coapGetRecvOptionUriPath True (replicate 100 0) a = Inr x"
    using getUriPath_ok [OF a(2) m(2)] by (auto simp: is_ok_def split: sum.splits)
  have g: "coapGetRecvType a = Inr (uint (cm_type m))" "coapGetRecvCode a = Inr (uint (cm_code m))"
    "coapGetRecvMessageID a = Inr (cm_mid m)"
    using a(2) by (auto simp: recv_rep_def coapGetRecvType_def coapGetRecvCode_def coapGetRecvMessageID_def
        on_recv_def decodes_def)
  have pos: "\<not> int (length (encode m)) \<le> 0" by simp
  show ?thesis
    using a(2,3) ty e
    by (intro exI [of _ a]) (auto simp: mbtk_coap_recv_resolve_def u on pos g x recv_token_rep [OF a(2) tok] Let_def)
qed

section \<open>Requests and acknowledgements\<close>

lemma recv_confirmable:
  assumes m: "recv_ok m" "max_path m" "cm_type m = 0" and rep: "api_rep (c_api s) m0"
    and e: "opts_ok e" "no_limit (env_heap e)" and net: "net_open (c_net s)"
  shows "\<exists>s' n. 0 < n \<and> n \<le> 4
    \<and> mbtk_coap_recv_resolve e (encode m @ slack) (of_nat (length (encode m))) s = Inr s'
    \<and> sent (c_net s') = sent (c_net s) @ replicate n (ci_sockfd (item (c_net s) 0),
        encode (ack_msg (uint (cm_code m)) (cm_mid m) (cm_token m)))
    \<and> pkgs s' = pkgs s \<and> onodes s' = onodes s \<and> mbtk_coaps s' = mbtk_coaps s"
proof -
  let ?t = "cm_token m @ replicate (9 - length (cm_token m)) 0"
  have tok: "length (cm_token m) \<le> 8" using m(1) by (simp add: recv_ok_def wf_msg_def)
  have u: "unat (of_nat (length (cm_token m)) :: byte) = length (cm_token m)"
    using tok by (simp add: unsigned_of_nat take_bit_nat_eq_self)
  obtain a where a: "recv_rep a m" "g_CoapPDU a = g_CoapPDU (c_api s)"
    "mbtk_coap_recv_resolve e (encode m @ slack) (of_nat (length (encode m))) s
      = mbtk_coap_send_ack e (uint (cm_code m)) (cm_mid m) (of_nat (length (cm_token m))) ?t (s\<lparr>c_api := a\<rparr>)"
    using recv_resolve_dispatch [OF m(1,2) e(1), of s slack] m(3) by (auto simp: Let_def)
  have "api_rep (c_api (s\<lparr>c_api := a\<rparr>)) m0" using rep a(2) by (simp add: api_rep_def)
  from send_ack_ok [OF this e(2), of "of_nat (length (cm_token m))" ?t "uint (cm_code m)" "cm_mid m"] net tok a(3) u
  show ?thesis by simp
qed

lemma client_inv_api [simp]: "client_inv (s\<lparr>c_api := a\<rparr>) as os = client_inv s as os"
  by (simp add: client_inv_def options_ok_def)

lemma client_ok_api [simp]: "client_ok (s\<lparr>c_api := a\<rparr>) = client_ok s"
  by (simp add: client_ok_def)

lemma collect_api: "collect (s\<lparr>c_api := a\<rparr>) n p = collect s n p"
  by (induction n arbitrary: p) (case_tac p; simp add: entry_def split: option.splits)+

lemma pkg_list_api [simp]: "pkg_list (s\<lparr>c_api := a\<rparr>) = pkg_list s"
  by (simp add: pkg_list_def collect_api)

definition recv_block2 :: "coap_msg \<Rightarrow> (u32 \<times> byte \<times> byte) option" where
  "recv_block2 m = (case last_val 23 (cm_opts m) None of
      None \<Rightarrow> None | Some v \<Rightarrow> block2_decode (of_nat (length v)) v)"

lemma block2_decode_take:
  assumes "unat len = length v" "take (length v) buf = v"
  shows "block2_decode len buf = block2_decode (of_nat (length v)) v"
proof -
  have len: "len = of_nat (length v)" using assms(1) by (simp add: assms(1) [symmetric])
  have nth: "\<And>i. i < length v \<Longrightarrow> buf ! i = v ! i" using assms(2) by (metis nth_take)
  have l: "len = 1 \<longleftrightarrow> length v = 1" "len = 2 \<longleftrightarrow> length v = 2" "len = 3 \<longleftrightarrow> length v = 3"
    using assms(1) by (auto simp: word_unat_eq_iff)
  show ?thesis unfolding block2_decode_def len [symmetric] using l nth by auto
qed

lemma getBlock2_rep:
  assumes "recv_rep s m" "\<forall>(k, v) \<in> set (cm_opts m). k = 23 \<longrightarrow> length v \<le> 10"
  shows "coapGetRecvOptionBlock2 True s = Inr (recv_block2 m)"
proof -
  obtain q where q: "g_CoapRecvPointer s = Some q" "decodes q m" using assms(1) by (auto simp: recv_rep_def)
  obtain len dst where r: "getOptionValueById True 23 0 (replicate 10 0) q = Inr (len, dst)"
    "holds_val (last_val 23 (cm_opts m) None) (0, replicate 10 0) len dst"
    using getOptionValueById_decodes [OF q(2), of 23 "replicate 10 0" 0] assms(2) by auto
  show ?thesis
  proof (cases "last_val 23 (cm_opts m) None")
    case None
    with r q(1) show ?thesis
      by (simp add: coapGetRecvOptionBlock2_def coapGetOptionValueById_def holds_val_def recv_block2_def)
  next
    case (Some v)
    then have v: "unat len = length v" "take (length v) dst = v" using r(2) by (simp_all add: holds_val_def)
    have "len = 0 \<Longrightarrow> block2_decode (of_nat (length v)) v = None" using v(1) by (simp add: block2_decode_def)
    then have "(if len > 0 then block2_decode len dst else None) = recv_block2 m"
      using block2_decode_take [OF v] Some by (cases "len = 0") (simp_all add: recv_block2_def word_neq_0_conv)
    then show ?thesis using r(1) q(1)
      by (simp add: coapGetRecvOptionBlock2_def coapGetOptionValueById_def)
  qed
qed

lemma recv_acknowledgement:
  assumes m: "recv_ok m" "max_path m" "cm_type m = 0x20" and ok: "client_ok s"
    and short: "\<forall>(k, v) \<in> set (cm_opts m). k = 23 \<longrightarrow> length v \<le> 10"
    and last: "case recv_block2 m of None \<Rightarrow> True | Some (n, mf, z) \<Rightarrow> mf = 0"
  shows "\<exists>s'. mbtk_coap_recv_resolve (good_env h sys) (encode m @ slack) (of_nat (length (encode m))) s = Inr s'
    \<and> client_ok s' \<and> pkg_list s' = remove_first (\<lambda>p. pk_message_id p = cm_mid m) (pkg_list s)"
proof -
  let ?e = "good_env h sys"
  have e: "opts_ok ?e" by (simp add: good_env_def)
  obtain a where a: "recv_rep a m"
    "mbtk_coap_recv_resolve ?e (encode m @ slack) (of_nat (length (encode m))) s = resolve_ack ?e (cm_mid m) (s\<lparr>c_api := a\<rparr>)"
    using recv_resolve_dispatch [OF m(1,2) e, of s slack] m(3) by (auto simp: Let_def)
  let ?s = "s\<lparr>c_api := a\<rparr>"
  obtain s' where d: "mbtk_coap_list_del ?e (cm_mid m) ?s = Inr (cm_mid m \<in> pk_message_id ` set (pkg_list s), s')"
    "client_ok s'" "pkg_list s' = remove_first (\<lambda>p. pk_message_id p = cm_mid m) (pkg_list s)"
    using ps.del_first [where s = ?s and i = "cm_mid m" and h = h and sys = sys] ok by auto
  obtain r where r: "mbtk_coap_get_by_msg_id (cm_mid m) ?s = Inr r"
    "r = None \<longleftrightarrow> cm_mid m \<notin> pk_message_id ` set (pkg_list s)"
    using ps.get_iff [where s = ?s and i = "cm_mid m"] ok by auto
  show ?thesis
  proof (cases r)
    case None
    have "remove_first (\<lambda>p. pk_message_id p = cm_mid m) (pkg_list s) = pkg_list s"
      using r(2) None by (intro remove_first_none) (metis imageI)
    then show ?thesis using a r(1) None ok by (simp add: resolve_ack_def)
  next
    case (Some x)
    have "coapGetRecvOptionBlock2 (opts_ok ?e) (c_api ?s) = Inr (recv_block2 m)"
      using getBlock2_rep [OF a(1) short] e by simp
    then have "resolve_ack ?e (cm_mid m) ?s = rmap snd (mbtk_coap_list_del ?e (cm_mid m) ?s)"
      using r(1) Some last by (auto simp: resolve_ack_def split: option.splits)
    then show ?thesis using a(2) d by simp
  qed
qed

lemma recv_long_path:
  assumes m: "recv_ok m" "\<not> max_path m" and e: "opts_ok e"
  shows "mbtk_coap_recv_resolve e (encode m @ slack) (of_nat (length (encode m))) s = Inl OutOfBounds"
proof -
  have tok: "length (cm_token m) \<le> 8" and len: "length (encode m) < 65536"
    using m(1) by (simp_all add: recv_ok_def wf_msg_def)
  have u: "uint (of_nat (length (encode m)) :: u16) = int (length (encode m))"
    using len by (simp add: unsigned_of_nat take_bit_nat_eq_self)
  obtain a where a: "coapCreateRecv (encode m @ slack) (int (length (encode m))) (c_api s)
      = Inr (int (length (encode m)), a)" "recv_rep a m"
    using coapCreateRecv_encode [OF m(1)] by blast
  have on: "on_api (coapCreateRecv (encode m @ slack) (int (length (encode m)))) s
      = Inr (int (length (encode m)), s\<lparr>c_api := a\<rparr>)"
    by (simp add: on_api_def a(1))
  have g: "coapGetRecvType a = Inr (uint (cm_type m))" "coapGetRecvCode a = Inr (uint (cm_code m))"
    "coapGetRecvMessageID a = Inr (cm_mid m)"
    using a(2) by (auto simp: recv_rep_def coapGetRecvType_def coapGetRecvCode_def coapGetRecvMessageID_def
        on_recv_def decodes_def)
  show ?thesis
    using e by (simp add: mbtk_coap_recv_resolve_def u on g recv_token_rep [OF a(2) tok]
        getUriPath_overrun [OF a(2) m(2)])
qed

end
