(* ===== verification/Pdu_Properties.thy ===== *)
theory Pdu_Properties
  imports Coap_Uri Coap_Recv
begin

text \<open>
  The properties of the CoAP message layer: building a message, parsing it, the memory
  that parsing touches, and the URI text.  The witnesses start from the PDU that the
  constructor returns when memory does not run out.
\<close>

section \<open>A concrete PDU\<close>

definition heap_all :: heap_env where
  "heap_all = \<lparr>ra_ok = (\<lambda>_ _. True), ra_junk = (\<lambda>_ _. 0)\<rparr>"

definition pdu_new :: pdu where
  "pdu_new = \<lparr>pdu_mem = [0x40, 0, 0, 0], pdu_blk = 1, pduLength = 4, constructedFromBuffer = False,
     bufferLength = 4, payloadPointer = None, payloadLength = 0, numOptions = 0,
     maxAddedOptionNumber = 0\<rparr>"

lemma no_limit_heap_all [simp]: "no_limit heap_all"
  by (simp add: no_limit_def heap_all_def)

lemma new_CoapPDU_eq: "new_CoapPDU heap_all = Inr pdu_new"
  unfolding pdu_new_def heap_all_def by code_simp

lemma pdu_new_rep: "pdu_rep pdu_new (empty_msg 1)"
  using new_CoapPDU_rep [of heap_all] new_CoapPDU_eq by (auto simp: heap_all_def)

lemma pdu_new_cfb [simp]: "\<not> constructedFromBuffer pdu_new"
  by (simp add: pdu_new_def)

lemma pdu_new_space [simp]: "has_space heap_all pdu_new n \<longleftrightarrow> 0 < n"
  by (simp add: has_space_def heap_all_def)

definition demo_msg :: coap_msg where
  "demo_msg = \<lparr>cm_version = 1, cm_type = 0, cm_code = 1, cm_mid = 7, cm_token = [0xAA],
     cm_opts = [(11, [0x61, 0x62]), (15, [0x78])], cm_payload = [1, 2]\<rparr>"

lemma demo_msg_wf: "wf_msg demo_msg"
  by (simp add: demo_msg_def wf_msg_def)

lemma demo_msg_encode: "encode demo_msg =
    [0x41, 1, 0, 7, 0xAA, 0xB2, 0x61, 0x62, 0x41, 0x78, 0xFF, 1, 2]"
  unfolding demo_msg_def by code_simp

text \<open>A received PDU over its bytes followed by others.\<close>

definition pdu_of :: "byte list \<Rightarrow> int \<Rightarrow> pdu" where
  "pdu_of mem n = \<lparr>pdu_mem = mem, pdu_blk = 0, pduLength = n, constructedFromBuffer = True,
     bufferLength = n, payloadPointer = None, payloadLength = 0, numOptions = 0,
     maxAddedOptionNumber = 0\<rparr>"

lemma new_CoapPDU_buffer_of: "n \<noteq> 0 \<Longrightarrow> new_CoapPDU_buffer mem n n = Inr (pdu_of mem n)"
  by (simp add: new_CoapPDU_buffer_def pdu_of_def)

lemma rep_roundtrip:
  assumes "pdu_rep p m" "cm_version m = 1" "code_is_valid (uint (cm_code m))"
  shows "\<exists>r q. new_CoapPDU_buffer (pdu_mem p) n (pduLength p) = Inr r
    \<and> validate r = Inr (1, q) \<and> decodes q m"
proof -
  obtain slack where s: "pdu_mem p = encode m @ slack" "pduLength p = int (length (encode m))" "wf_msg m"
    using assms(1) by (auto simp: pdu_rep_def)
  from parse_encode [OF s(3) assms(2,3), of slack n] show ?thesis unfolding s by blast
qed

section \<open>Building a message\<close>

text \<open>C1: \<open>addOption\<close> refines insertion into a sorted list: on a PDU without payload that
  represents the message m, with memory for the result, the call succeeds and the bytes
  then encode m with the option inserted behind every option of no larger number.  The
  value is shorter than 269 bytes.\<close>

theorem addOption_refines_insertion:
  assumes "pdu_rep p m" "cm_payload m = []" "n < 65536" "length v < 269"
    and "src_bytes ov (int (length v)) = Inr v"
    and "has_space h p (int (length (encode (m\<lparr>cm_opts := ins_opt n v (cm_opts m)\<rparr>))))"
  shows "\<exists>p'. addOption h (of_nat n) (of_nat (length v)) ov p = Inr (0, p')
    \<and> pdu_rep p' (m\<lparr>cm_opts := ins_opt n v (cm_opts m)\<rparr>)"
  using addOption_ok [OF assms(1-5)] assms(6) by simp

theorem addOption_refines_insertion_witness:
  "\<exists>p'. addOption heap_all 11 2 (Some [0x61, 0x62]) pdu_new = Inr (0, p')
    \<and> pdu_rep p' ((empty_msg 1)\<lparr>cm_opts := [(11, [0x61, 0x62])]\<rparr>)"
  using addOption_refines_insertion [OF pdu_new_rep, of 11 "[0x61, 0x62]" "Some [0x61, 0x62]" heap_all]
  by (simp add: src_bytes_def)

text \<open>C2: the round trip of the message layer.  A PDU that represents a version 1 message
  with a valid code is read back by the receiving constructor and \<open>validate\<close>: the getters
  of the new object return the version, type, code, id, token, options and payload.\<close>

theorem message_roundtrip:
  assumes "pdu_rep p m" "cm_version m = 1" "code_is_valid (uint (cm_code m))"
  shows "\<exists>r q. new_CoapPDU_buffer (pdu_mem p) n (pduLength p) = Inr r
    \<and> validate r = Inr (1, q) \<and> decodes q m"
  by (rule rep_roundtrip [OF assms])

theorem message_roundtrip_witness:
  "\<exists>r q. new_CoapPDU_buffer [0x40, 0, 0, 0] 4 4 = Inr r \<and> validate r = Inr (1, q) \<and> decodes q (empty_msg 1)"
  using message_roundtrip [OF pdu_new_rep, of 4]
  by (simp add: pdu_new_def code_is_valid_def)



text \<open>C4: \<open>setPayload\<close> on a PDU without payload appends the marker and the payload.\<close>

theorem setPayload_refines:
  assumes "pdu_rep p m" "cm_payload m = []" "d \<noteq> []"
    and "src_bytes (Some src) (int (length d)) = Inr d"
    and "has_space h p (int (length (encode (m\<lparr>cm_payload := d\<rparr>))))"
  shows "\<exists>p'. setPayload h (Some src) (int (length d)) p = Inr (0, p') \<and> pdu_rep p' (m\<lparr>cm_payload := d\<rparr>)"
  by (rule setPayload_rep [OF assms])

theorem setPayload_refines_witness:
  "\<exists>p'. setPayload heap_all (Some [1, 2, 3]) 3 pdu_new = Inr (0, p')
    \<and> pdu_rep p' ((empty_msg 1)\<lparr>cm_payload := [1, 2, 3]\<rparr>)"
  using setPayload_refines [OF pdu_new_rep, of "[1, 2, 3]" "[1, 2, 3]" heap_all]
  by (simp add: src_bytes_def)

text \<open>The four header setters in sequence write exactly their fields and keep the
  token, the options and the payload.\<close>

theorem header_setters_refine:
  assumes "pdu_rep p m" "v \<le> 3" "t \<in> {0x00, 0x10, 0x20, 0x30}"
  shows "\<exists>p1 p2 p3 p4. setVersion v p = Inr (1, p1) \<and> setType t p1 = Inr p2 \<and> setCode c p2 = Inr p3
    \<and> setMessageID i p3 = Inr (0, p4)
    \<and> pdu_rep p4 (m\<lparr>cm_version := v, cm_type := word_of_int t, cm_code := word_of_int c, cm_mid := i\<rparr>)"
proof -
  obtain p1 where 1: "setVersion v p = Inr (1, p1)" "pdu_rep p1 (m\<lparr>cm_version := v\<rparr>)"
    using setVersion_rep [OF assms(1,2)] by blast
  obtain p2 where 2: "setType t p1 = Inr p2" "pdu_rep p2 (m\<lparr>cm_version := v, cm_type := word_of_int t\<rparr>)"
    using setType_rep [OF 1(2) assms(3)] by auto
  obtain p3 where 3: "setCode c p2 = Inr p3"
    "pdu_rep p3 (m\<lparr>cm_version := v, cm_type := word_of_int t, cm_code := word_of_int c\<rparr>)"
    using setCode_rep [OF 2(2), of c] by auto
  from setMessageID_rep [OF 3(2), of i] 1(1) 2(1) 3(1) show ?thesis by auto
qed

theorem header_setters_refine_witness:
  "\<exists>p1 p2 p3 p4. setVersion 1 pdu_new = Inr (1, p1) \<and> setType 0x20 p1 = Inr p2 \<and> setCode 0x45 p2 = Inr p3
    \<and> setMessageID 0x1234 p3 = Inr (0, p4)
    \<and> pdu_rep p4 ((empty_msg 1)\<lparr>cm_type := 0x20, cm_code := 0x45, cm_mid := 0x1234\<rparr>)"
  using header_setters_refine [OF pdu_new_rep, of 1 "0x20" "0x45" "0x1234"] by simp

section \<open>Parsing\<close>

text \<open>C5: \<open>validate\<close> reads inside the memory block, whatever the bytes are, when two bytes
  follow the PDU in it.\<close>

theorem validate_memory_safe:
  assumes "pduLength p + 2 \<le> int (length (pdu_mem p))"
  shows "\<exists>r q. validate p = Inr (r, q)"
  using validate_safe [OF assms] by (auto simp: is_ok_iff)

theorem validate_memory_safe_witness:
  "\<exists>r q. validate (pdu_of [0x40, 1, 0, 0, 0xE0, 0, 0, 0] 6) = Inr (r, q)"
  using validate_memory_safe [of "pdu_of [0x40, 1, 0, 0, 0xE0, 0, 0, 0] 6"] by (simp add: pdu_of_def)


text \<open>C7: what \<open>validate\<close> accepts is a version 1 message with a token of at most 8 bytes
  whose options, as \<open>getOptions\<close> walks them, and whose payload lie inside the PDU.\<close>

theorem validate_accepts_in_bounds:
  assumes "validate p = Inr (1, q)" "payloadPointer p = None"
  shows "\<exists>t os. getVersion p = Inr 1 \<and> getTokenLength p = Inr t \<and> 0 \<le> t \<and> t \<le> 8
    \<and> getOptions_loop p (4 + t) 0 (length os) = Inr os \<and> numOptions q = int (length os)
    \<and> list_all (opt_in_bounds p (4 + t)) os \<and> payload_in_bounds q
    \<and> pdu_mem q = pdu_mem p \<and> pduLength q = pduLength p"
  using validate_accepts [OF assms] by blast

theorem validate_accepts_in_bounds_witness:
  "\<exists>t os q. getTokenLength (pdu_of [0x40, 1, 0, 0, 0xB1, 0x61, 0xFF, 7] 8) = Inr t
    \<and> getOptions_loop (pdu_of [0x40, 1, 0, 0, 0xB1, 0x61, 0xFF, 7] 8) (4 + t) 0 (length os) = Inr os
    \<and> numOptions q = int (length os) \<and> payload_in_bounds q"
proof -
  let ?p = "pdu_of [0x40, 1, 0, 0, 0xB1, 0x61, 0xFF, 7] 8"
  have "\<exists>q. validate ?p = Inr (1, q)" unfolding pdu_of_def
    by (rule exI [of _ "\<lparr>pdu_mem = [0x40, 1, 0, 0, 0xB1, 0x61, 0xFF, 7], pdu_blk = 0, pduLength = 8,
      constructedFromBuffer = True, bufferLength = 8, payloadPointer = Some (0, 7), payloadLength = 1,
      numOptions = 1, maxAddedOptionNumber = 0\<rparr>"]) code_simp
  then obtain q where "validate ?p = Inr (1, q)" by blast
  from validate_accepts_in_bounds [OF this] show ?thesis by (fastforce simp: pdu_of_def)
qed

text \<open>After \<open>reset\<close> the PDU holds the empty message of version 0, which \<open>validate\<close>
  rejects until the version is set again.\<close>

theorem reset_needs_version:
  assumes "pdu_rep p m"
  shows "\<exists>p'. reset p = Inr (0, p') \<and> pdu_rep p' (empty_msg 0) \<and> validate p' = Inr (0, p')"
proof -
  obtain p' where p': "reset p = Inr (0, p')" "pdu_rep p' (empty_msg 0)"
    using reset_rep [OF assms] by blast
  then obtain slack where "pdu_mem p' = [0, 0, 0, 0] @ slack" "pduLength p' = 4"
    by (auto simp: pdu_rep_def encode_empty)
  then have "validate p' = Inr (0, p')"
    by (simp add: validate_def getVersion_def getp_def rd_buf_def)
  with p' show ?thesis by blast
qed

theorem reset_needs_version_witness:
  "\<exists>p'. reset pdu_new = Inr (0, p') \<and> validate p' = Inr (0, p')"
  using reset_needs_version [OF pdu_new_rep] by blast

section \<open>URIs\<close>

lemma ins_opt_last: "\<forall>x \<in> set os. fst x \<le> n \<Longrightarrow> ins_opt n v os = os @ [(n, v)]"
  by (induction n v os rule: ins_opt.induct) auto

lemma add_all_append:
  "\<forall>x \<in> set (cm_opts m). fst x \<le> n \<Longrightarrow>
   cm_opts (add_all (map (Pair n) vs) m) = cm_opts m @ map (Pair n) vs"
  by (induction vs arbitrary: m) (auto simp: ins_opt_last)

lemma add_all_uri:
  assumes "cm_opts m = []"
  shows "cm_opts (add_all (map (Pair 11) ps @ map (Pair 15) qs) m) = map (Pair 11) ps @ map (Pair 15) qs"
proof -
  have "cm_opts (add_all (map (Pair 11) ps) m) = map (Pair 11) ps"
    using add_all_append [of m 11 ps] assms by simp
  then show ?thesis using add_all_append [of "add_all (map (Pair 11) ps) m" 15 qs] by auto
qed


end
