(* ===== verification/Client_Properties.thy ===== *)
theory Client_Properties
  imports Pdu_Properties
begin

text \<open>
  The properties of the CoAP client: its list of packages, what it sends, what a received
  datagram does to it, and the sockets it works on.
\<close>

section \<open>A concrete client\<close>

text \<open>One package of id 7 in the list, a fresh sending PDU, socket 5 open.\<close>

definition demo_net :: coap_net where
  "demo_net = coap_net0\<lparr>coap_items :=
     [\<lparr>ci_handle = 1, ci_sockfd = 5, ci_sock_reset = False, ci_port = 5683\<rparr>, coap_item0, coap_item0]\<rparr>"

definition demo_client :: client where
  "demo_client = \<lparr>pkgs = [0 \<mapsto> package_init 7], onodes = (\<lambda>_. None), fresh = 1,
     mbtk_coaps = Some 0, mbtk_coaps_tail = Some 0, mbtk_coap_message_id = 8,
     c_api = \<lparr>g_CoapPDU = Some pdu_new, g_CoapRecvPointer = None\<rparr>, c_net = demo_net\<rparr>"

lemma demo_net_open [simp]: "net_open demo_net" "net_wf demo_net"
  by (simp_all add: net_open_def demo_net_def item_def net_wf_def MBTK_COAP_TYPE_MAX_def)

lemma demo_client_simps [simp]:
  "api_rep (c_api demo_client) (empty_msg 1)" "c_net demo_client = demo_net"
  "pkgs demo_client 0 = Some (package_init 7)"
  using pdu_new_rep by (simp_all add: demo_client_def api_rep_def)

lemma demo_client_ok [simp]: "client_ok demo_client"
  unfolding client_ok_def
  by (rule exI [of _ "[0]"], rule exI [of _ "\<lambda>_. []"])
     (simp add: client_inv_def demo_client_def options_ok_def package_init_def)

lemma demo_client_list [simp]: "pkg_list demo_client = [package_init 7]"
  unfolding pkg_list_def demo_client_def by code_simp

lemma package_init_id [simp]: "pk_message_id (package_init i) = i"
  by (simp add: package_init_def)

abbreviation demo_env :: cenv where
  "demo_env \<equiv> good_env heap_all (\<lambda>_. 4)"

lemma demo_env_simps [simp]: "env_heap (good_env h sys) = h" "opts_ok (good_env h sys)"
  by (simp_all add: good_env_def)

section \<open>The list of packages\<close>

text \<open>\<open>mbtk_coap_list_add\<close> refines appending to a list of packages with distinct ids: a
  new id is appended with an initialised package, a known id changes nothing and
  returns NULL.\<close>

theorem list_add_refines:
  assumes "client_ok s"
  shows "if i \<in> pk_message_id ` set (pkg_list s) then mbtk_coap_list_add (good_env h sys) i s = Inr (None, s)
    else \<exists>a s'. mbtk_coap_list_add (good_env h sys) i s = Inr (Some a, s') \<and> client_ok s'
      \<and> pkg_list s' = pkg_list s @ [package_init i]"
  using ps.add_dup [OF assms, of i] ps.add_new [OF assms, of i] by simp

theorem list_add_refines_witness:
  "\<exists>a s'. mbtk_coap_list_add demo_env 8 demo_client = Inr (Some a, s') \<and> client_ok s'
      \<and> pkg_list s' = [package_init 7, package_init 8]"
  using list_add_refines [OF demo_client_ok, of 8 heap_all "\<lambda>_. 4"] by simp



text \<open>The states that additions and deletions lead to from a client without packages.\<close>

inductive store_reach :: "heap_env \<Rightarrow> (nat \<Rightarrow> int) \<Rightarrow> client \<Rightarrow> client \<Rightarrow> bool" for h sys s0 where
  start: "store_reach h sys s0 s0"
| add: "store_reach h sys s0 s \<Longrightarrow> mbtk_coap_list_add (good_env h sys) i s = Inr (r, s') \<Longrightarrow>
    store_reach h sys s0 s'"
| del: "store_reach h sys s0 s \<Longrightarrow> mbtk_coap_list_del (good_env h sys) i s = Inr (d, s') \<Longrightarrow>
    store_reach h sys s0 s'"

lemma store_reach_unique:
  assumes "store_reach h sys s0 s" "client_ok s0" "ps.unique s0"
  shows "client_ok s \<and> ps.unique s"
  using assms(1)
proof induction
  case start
  then show ?case using assms by simp
next
  case (add s i r s')
  then show ?case using ps.add_unique by blast
next
  case (del s i d s')
  then show ?case using ps.del_unique by blast
qed

text \<open>C10: whatever additions and deletions happened since the list was empty, it is well
  formed and no two packages share a message id.\<close>

theorem message_ids_distinct:
  assumes "mbtk_coaps s0 = None" "store_reach h sys s0 s"
  shows "client_ok s \<and> distinct (map pk_message_id (pkg_list s))"
proof -
  have inv: "client_inv s0 [] (\<lambda>_. [])" using assms(1) by (simp add: client_inv_def options_ok_def)
  then have "client_ok s0" by (auto simp: client_ok_def)
  moreover have "ps.unique s0" using client_inv_list [OF inv] by (simp add: ps.unique_def)
  ultimately show ?thesis using store_reach_unique [OF assms(2)] by (simp add: ps.unique_def)
qed

theorem message_ids_distinct_witness:
  "\<exists>s. mbtk_coap_list_add demo_env 9 (demo_client\<lparr>mbtk_coaps := None\<rparr>) = Inr (Some 1, s)
    \<and> distinct (map pk_message_id (pkg_list s))"
proof -
  let ?s0 = "demo_client\<lparr>mbtk_coaps := None\<rparr>"
  obtain s where s: "mbtk_coap_list_add demo_env 9 ?s0 = Inr (Some 1, s)"
    by (simp add: mbtk_coap_list_add_def malloc_addr_def good_env_def demo_client_def)
  have "store_reach heap_all (\<lambda>_. 4) ?s0 s" by (rule store_reach.add [OF store_reach.start s])
  from message_ids_distinct [OF _ this] s show ?thesis by simp
qed

text \<open>Removing a package that has an option reads the option's link after the option
  was freed: a fault unless freed memory still holds its old content.\<close>

theorem free_reads_freed_option:
  assumes "pkgs s a = Some p" "pk_options p = Some x" "onodes s x = Some n" "on_live n" "0 < fresh s"
    and "\<not> stale e"
  shows "mbtk_coap_free e a s = Inl UseAfterFree"
  using assms by (cases "fresh s") (simp_all add: mbtk_coap_free_def get_pkg_def get_node_def Let_def)

theorem free_reads_freed_option_witness:
  "mbtk_coap_free (demo_env\<lparr>stale := False\<rparr>) 0
     (demo_client\<lparr>pkgs := [0 \<mapsto> (package_init 7)\<lparr>pk_options := Some 0\<rparr>],
        onodes := [0 \<mapsto> \<lparr>on_type = COAP_OPTION_MAX_AGE, on_val = OptInt 1, on_next = None, on_live = True\<rparr>]\<rparr>)
   = Inl UseAfterFree"
  by (rule free_reads_freed_option
      [where p = "(package_init 7)\<lparr>pk_options := Some 0\<rparr>" and x = 0
         and n = "\<lparr>on_type = COAP_OPTION_MAX_AGE, on_val = OptInt 1, on_next = None, on_live = True\<rparr>"])
     (simp_all add: demo_client_def)

section \<open>Sending\<close>

text \<open>A block option's number (below 2 to the 20), flag and size exponent survive
  encoding for sending and decoding of the received Block2 option.\<close>

theorem block_option_roundtrip:
  assumes "number < 0x100000"
  shows "block2_decode (of_nat (length (block_encode sz number mf))) (block_encode sz number mf @ rest)
    = Some (number, mf AND 1, word_of_int sz AND 0x07)"
  by (rule block_roundtrip [OF assms])

theorem block_option_roundtrip_witness:
  "block2_decode (of_nat (length (block_encode 6 0x1234 1))) (block_encode 6 0x1234 1 @ [0, 0])
    = Some (0x1234, 1, 6)"
  using block_option_roundtrip [of "0x1234" 6 1 "[0, 0]"] by simp

text \<open>Block1 is decoded differently: a value that Block2 reads as block 2, more to come,
  is not read so.\<close>

theorem block1_decoder_differs:
  "block2_decode 1 (block_encode 6 2 1) = Some (2, 1, 6) \<and> block1_decode 1 (block_encode 6 2 1) = Some (32, 8, 6)"
  by code_simp



text \<open>\<open>mbtk_coap_udp_sendto\<close> returns after at most four datagrams, each the whole buffer
  on the socket of the table; it stops early only when a call took every byte.\<close>

theorem udp_sendto_terminates:
  assumes "net_open s"
  shows "\<exists>n r. 0 < n \<and> n \<le> 4 \<and> mbtk_coap_udp_sendto sys 0 bytes s = Some (r,
      s\<lparr>tick := tick s + n, sent := sent s @ replicate n (ci_sockfd (item s 0), bytes)\<rparr>)
    \<and> (r = int (length bytes) \<or> n = 4)"
  by (rule udp_sendto_open [OF assms])

theorem udp_sendto_terminates_witness:
  "\<exists>n r. 0 < n \<and> n \<le> 4 \<and> mbtk_coap_udp_sendto (\<lambda>_. -1) 0 [1, 2] demo_net = Some (r,
      demo_net\<lparr>tick := tick demo_net + n, sent := sent demo_net @ replicate n (ci_sockfd (item demo_net 0), [1, 2])\<rparr>)"
  using udp_sendto_terminates [OF demo_net_open(1), of "\<lambda>_. -1" "[1, 2]"] by blast

section \<open>Receiving\<close>


lemma demo_msg_recv: "recv_ok demo_msg" "max_path demo_msg" "cm_type demo_msg = 0"
  using demo_msg_wf demo_msg_encode
  by (simp_all add: recv_ok_def max_path_def demo_msg_def code_is_valid_def)




text \<open>a message with a Uri-Path option of more than 100 bytes makes the receiver write
  behind its stack buffer, before it looks at the type of the message.\<close>

theorem long_path_overruns_buffer:
  assumes "recv_ok m" "\<not> max_path m" "opts_ok e"
  shows "mbtk_coap_recv_resolve e (encode m @ slack) (of_nat (length (encode m))) s = Inl OutOfBounds"
  by (rule recv_long_path [OF assms])

theorem long_path_overruns_buffer_witness:
  "\<exists>m. cm_opts m = [(11, replicate 101 0x61)]
    \<and> mbtk_coap_recv_resolve demo_env (encode m @ []) (of_nat (length (encode m))) demo_client = Inl OutOfBounds"
proof -
  let ?m = "(empty_msg 1)\<lparr>cm_code := 1, cm_opts := [(11, replicate 101 0x61)]\<rparr>"
  have l: "length (encode ?m) < 65536"
    by (simp add: encode_def enc_head_def be16_def enc_opt_def ext_def hdr_def enc_payload_def)
  have m: "recv_ok ?m" "\<not> max_path ?m"
    using l by (simp_all add: recv_ok_def wf_msg_def max_path_def code_is_valid_def)
  show ?thesis
    using long_path_overruns_buffer [OF m, of demo_env "[]" demo_client] by (intro exI [of _ ?m]) simp
qed

section \<open>Sockets\<close>

text \<open>When \<open>mbtk_coap_sock_init\<close> reports success the slot of the type holds a socket
  and no other slot has changed.\<close>

theorem sock_init_opens:
  assumes "net_wf s" "mbtk_coap_sock_init sys t port s = (True, s')"
  shows "\<not> bad_type t \<and> 0 \<le> ci_sockfd (item s' t) \<and> net_wf s'
    \<and> (\<forall>u. \<not> bad_type u \<longrightarrow> u \<noteq> t \<longrightarrow> item s' u = item s u)"
  by (rule mbtk_coap_sock_init_ok [OF assms])

theorem sock_init_opens_witness:
  "\<exists>s'. mbtk_coap_sock_init (\<lambda>_. 4) 1 5683 demo_net = (True, s') \<and> 0 \<le> ci_sockfd (item s' 1)
    \<and> item s' 0 = item demo_net 0"
proof -
  have "fst (mbtk_coap_sock_init (\<lambda>_. 4) 1 5683 demo_net)" unfolding demo_net_def by code_simp
  then obtain s' where s': "mbtk_coap_sock_init (\<lambda>_. 4) 1 5683 demo_net = (True, s')"
    by (cases "mbtk_coap_sock_init (\<lambda>_. 4) 1 5683 demo_net") simp
  from sock_init_opens [OF demo_net_open(2) s'] s' show ?thesis
    by (simp add: bad_type_def MBTK_COAP_TYPE_MAX_def)
qed

text \<open>When \<open>coap_sock_close\<close> reports success it closed the descriptor of that slot, once,
  and marked the slot; the other slots are untouched.\<close>

theorem sock_close_closes:
  assumes "net_wf s" "coap_sock_close sys t s = (True, s')"
  shows "\<not> bad_type t \<and> ci_sockfd (item s' t) = -1 \<and> net_wf s'
    \<and> closed_fds s' = ci_sockfd (item s t) # closed_fds s
    \<and> (\<forall>u. \<not> bad_type u \<longrightarrow> u \<noteq> t \<longrightarrow> item s' u = item s u)"
  by (rule coap_sock_close_ok [OF assms])

theorem sock_close_closes_witness:
  "\<exists>s'. coap_sock_close (\<lambda>_. 0) 0 demo_net = (True, s') \<and> closed_fds s' = [5] \<and> ci_sockfd (item s' 0) = -1"
proof -
  have "fst (coap_sock_close (\<lambda>_. 0) 0 demo_net)" unfolding demo_net_def by code_simp
  then obtain s' where s': "coap_sock_close (\<lambda>_. 0) 0 demo_net = (True, s')"
    by (cases "coap_sock_close (\<lambda>_. 0) 0 demo_net") simp
  have "closed_fds demo_net = []" "ci_sockfd (item demo_net 0) = 5"
    by (simp_all add: demo_net_def coap_net0_def item_def)
  with sock_close_closes [OF demo_net_open(2) s'] s' show ?thesis by simp
qed

text \<open>A datagram of MAXLINE bytes makes the receive thread write its terminating zero
  behind \<open>mesg\<close>.\<close>

theorem receive_thread_overrun:
  assumes "\<not> sys (tick s) < 0" "ci_handle (item s 0) > 0" "ci_sockfd (item s 0) > 0"
    "length mesg = MAXLINE" "sys (Suc (tick s)) = int MAXLINE" "MAXLINE \<le> length (rx (Suc (tick s)))"
  shows "coap_thread_round sys rx eintr True cb mesg s st = Inl OutOfBounds"
  using coap_thread_round_overflow [where sys = sys and s = s and rx = rx and mesg = mesg and cb = cb and st = st] assms by blast

theorem receive_thread_overrun_witness:
  "coap_thread_round (\<lambda>_. int MAXLINE) (\<lambda>_. replicate MAXLINE 1) False True
     (None :: (byte list \<Rightarrow> int \<Rightarrow> unit \<Rightarrow> unit res) option) (replicate MAXLINE 0) demo_net () = Inl OutOfBounds"
  by (rule receive_thread_overrun) (simp_all add: demo_net_def item_def)

text \<open>\<open>coap_str_to_hex\<close> inverts printing in hexadecimal, in either case of letters, for
  up to 127 bytes, and \<open>coap_hex_right\<close> accepts what was printed.\<close>

theorem hex_roundtrip:
  assumes "length bs < 128" "length bs \<le> length dest"
  shows "coap_str_to_hex dest (hexprint u bs @ rest) (int (length bs))
      = Inr (of_nat (length bs), bs @ drop (length bs) dest)
    \<and> hex_right_loop (hexprint u bs @ rest) (int (2 * length bs)) 0 = Inr True"
  using coap_str_to_hex_print [OF assms] hex_right_loop_print [of 0 bs u rest] by simp

theorem hex_roundtrip_witness:
  "coap_str_to_hex [0, 0, 0] [0x31, 0x41, 0x46, 0x46, 0] 2 = Inr (2, [0x1A, 0xFF, 0])"
  using hex_roundtrip [of "[0x1A, 0xFF]" "[0, 0, 0]" True "[0]"] by (simp add: hexprint_def hexc_def)

section \<open>The command line\<close>

lemma list_add_result:
  assumes "mbtk_coap_list_add e i s = Inr (Some a, s')"
  shows "pkgs s' a = Some (package_init i) \<and> c_net s' = c_net s
    \<and> mbtk_coap_message_id s' = mbtk_coap_message_id s"
  using assms
  by (auto simp: mbtk_coap_list_add_def malloc_addr_def mbtk_coap_list_item_init_def put_pkg_def upd_pkg_def
      rbind_eq_Inr split: option.splits if_splits)

lemma collect_msg_id: "collect (s\<lparr>mbtk_coap_message_id := i\<rparr>) n p = collect s n p"
  by (induction n arbitrary: p) (case_tac p; simp add: entry_def split: option.splits)+

lemma pkg_list_msg_id [simp]: "pkg_list (s\<lparr>mbtk_coap_message_id := i\<rparr>) = pkg_list s"
  by (simp add: pkg_list_def collect_msg_id)

lemma set_type_confirmable:
  assumes "pkgs s a = Some p" "pk_type p = COAP_CONFIRMABLE"
  shows "mbtk_coap_set_type (Some a) COAP_CONFIRMABLE s = Inr s"
proof -
  have "p\<lparr>pk_type := COAP_CONFIRMABLE\<rparr> = p" using assms(2) by simp
  moreover have "(pkgs s)(a \<mapsto> p) = pkgs s" using assms(1) by auto
  ultimately show ?thesis
    using assms(1) by (simp add: mbtk_coap_set_type_def upd_pkg_def get_pkg_def put_pkg_def)
qed

text \<open>A command with an unknown verb leaves a package in the list that is never sent,
  and so never acknowledged and removed.\<close>

theorem unknown_command_leaves_package:
  assumes "client_ok s" "length argv = 2 \<or> length argv = 3" "command_code (argv ! 0) = None"
    and "mbtk_coap_message_id s \<notin> pk_message_id ` set (pkg_list s)"
  shows "\<exists>s'. mbtk_coap_command (good_env h sys) argv s = Inr s' \<and> sent (c_net s') = sent (c_net s)
    \<and> map pk_message_id (pkg_list s') = map pk_message_id (pkg_list s) @ [mbtk_coap_message_id s]"
proof -
  let ?e = "good_env h sys"
  obtain a s1 where add: "mbtk_coap_list_add ?e (mbtk_coap_message_id s) s = Inr (Some a, s1)"
    "pkg_list s1 = pkg_list s @ [package_init (mbtk_coap_message_id s)]"
    using ps.add_new [OF assms(1,4), of h sys] by auto
  let ?s2 = "s1\<lparr>mbtk_coap_message_id := mbtk_coap_message_id s1 + 1\<rparr>"
  note r = list_add_result [OF add(1)]
  have "mbtk_coap_set_type (Some a) COAP_CONFIRMABLE ?s2 = Inr ?s2"
    by (rule set_type_confirmable [where p = "package_init (mbtk_coap_message_id s)"])
       (use r in \<open>simp_all add: package_init_def\<close>)
  then have "mbtk_coap_command ?e argv s = Inr ?s2"
    using assms(2,3) add(1) by (auto simp: mbtk_coap_command_def Let_def)
  then show ?thesis using add(2) r by simp
qed

text \<open>The command is \<open>HEAD /\<close>.\<close>

theorem unknown_command_leaves_package_witness:
  "\<exists>s'. mbtk_coap_command demo_env [[0x48, 0x45, 0x41, 0x44], [0x2F]] demo_client = Inr s'
    \<and> sent (c_net s') = [] \<and> map pk_message_id (pkg_list s') = [7, 8]"
proof -
  have c: "command_code ([[0x48, 0x45, 0x41, 0x44], [0x2F]] ! 0) = None" by code_simp
  have i: "mbtk_coap_message_id demo_client = 8" "sent demo_net = []"
    by (simp_all add: demo_client_def demo_net_def coap_net0_def)
  show ?thesis
    using unknown_command_leaves_package [OF demo_client_ok _ c, of heap_all "\<lambda>_. 4"] by (simp add: i)
qed

end
