(* ===== verification/C_System.thy ===== *)
theory C_System
  imports C_Library
begin

text \<open>
  The operating system as the sources use it: system calls in the order they are made.  An
  \<open>os\<close> answers a call, with a result, an \<open>errno\<close> and the bytes it delivers, from the calls
  made before it, says which descriptors are ready after a \<open>select\<close> and which allocations
  succeed; a \<open>world\<close> records the calls and their results, so that theorems can say
  which bytes a descriptor accepted and which descriptors were closed.
\<close>

datatype sys_call =
    SysSocket int int int            \<comment> \<open>domain, type, protocol\<close>
  | SysClose int
  | SysFcntl int int int             \<comment> \<open>descriptor, command, flags\<close>
  | SysConnect int int                \<comment> \<open>descriptor, port\<close>
  | SysBind int int                  \<comment> \<open>descriptor, port\<close>
  | SysResolve "byte list"           \<comment> \<open>gethostbyname: 0 is NULL\<close>
  | SysAton "byte list"              \<comment> \<open>inet_aton\<close>
  | SysSelect int
  | SysSockError int                 \<comment> \<open>getsockopt SO_ERROR\<close>
  | SysEpollCreate
  | SysThreadCreate nat              \<comment> \<open>pthread_create for a session\<close>
  | SysEpollAdd int
  | SysEpollDel int
  | SysItimer nat                    \<comment> \<open>setitimer, in milliseconds\<close>
  | SysName int bool                 \<comment> \<open>getpeername or getsockname\<close>
  | SysRead int nat                  \<comment> \<open>descriptor, space\<close>
  | SysWrite int "byte list"
  | SysListen int nat                \<comment> \<open>descriptor, backlog\<close>
  | SysAccept int
  | SysFork
  | SysWaitpid                       \<comment> \<open>for any child, without waiting\<close>
  | SysPoll nat                      \<comment> \<open>number of entries\<close>
  | SysEpollWait nat                 \<comment> \<open>number of events that fit\<close>
  | SysEpollMod int
  | SysRecvfrom int nat              \<comment> \<open>descriptor, space\<close>
  | SysSendto int "byte list"
  | SysOpen "byte list"
  | SysIoctl int nat                 \<comment> \<open>descriptor, request\<close>
  | SysMmap int nat                  \<comment> \<open>descriptor, length\<close>

type_synonym world = "(sys_call \<times> int) list"

record os =
  answer :: "world \<Rightarrow> sys_call \<Rightarrow> int"
  errno_of :: "world \<Rightarrow> sys_call \<Rightarrow> int"
  data_of :: "world \<Rightarrow> sys_call \<Rightarrow> byte list"
  can_read :: "world \<Rightarrow> int \<Rightarrow> bool"     \<comment> \<open>FD_ISSET in the read set after a select\<close>
  can_write :: "world \<Rightarrow> int \<Rightarrow> bool"
  so_error :: "world \<Rightarrow> int"            \<comment> \<open>the value getsockopt stores\<close>
  alloc_ok :: "nat \<Rightarrow> bool"             \<comment> \<open>whether the n-th allocation succeeds\<close>

definition EINTR :: int where "EINTR = 4"
definition EWOULDBLOCK :: int where "EWOULDBLOCK = 11"
definition EINPROGRESS :: int where "EINPROGRESS = 115"
definition F_GETFL :: int where "F_GETFL = 3"
definition F_SETFL :: int where "F_SETFL = 4"
definition O_NONBLOCK :: int where "O_NONBLOCK = 2048"
definition AF_INET :: int where "AF_INET = 2"
definition AF_INET6 :: int where "AF_INET6 = 10"

definition sys :: "os \<Rightarrow> sys_call \<Rightarrow> world \<Rightarrow> int \<times> world" where
  "sys e c w = (answer e w c, (c, answer e w c) # w)"

text \<open>\<open>errno\<close> after a call that failed.\<close>

definition errno :: "os \<Rightarrow> sys_call \<Rightarrow> world \<Rightarrow> int" where
  "errno e c w = errno_of e w c"

text \<open>What \<open>read\<close> and \<open>write\<close> may answer, as documented: -1, or at most the number of bytes
  asked for, and as many bytes delivered.\<close>

definition os_ok :: "os \<Rightarrow> bool" where
  "os_ok e \<longleftrightarrow>
     (\<forall>w fd bs. - 1 \<le> answer e w (SysWrite fd bs) \<and> answer e w (SysWrite fd bs) \<le> int (length bs)) \<and>
     (\<forall>w fd n. - 1 \<le> answer e w (SysRead fd n) \<and> answer e w (SysRead fd n) \<le> int n \<and>
        length (data_of e w (SysRead fd n)) = nat (answer e w (SysRead fd n)))"

text \<open>The bytes a descriptor accepted, in order.\<close>

fun accepted_of :: "int \<Rightarrow> sys_call \<times> int \<Rightarrow> byte list" where
  "accepted_of fd (SysWrite fd' bs, r) = (if fd' = fd then take (nat r) bs else [])"
| "accepted_of fd _ = []"

definition accepted :: "int \<Rightarrow> world \<Rightarrow> byte list" where
  "accepted fd w = concat (map (accepted_of fd) (rev w))"

lemma accepted_Nil [simp]: "accepted fd [] = []"
  by (simp add: accepted_def)

lemma accepted_Cons [simp]: "accepted fd (c # w) = accepted fd w @ accepted_of fd c"
  by (simp add: accepted_def)

text \<open>The descriptors that are open: those \<open>socket\<close>, \<open>accept\<close> or \<open>open\<close> gave out and \<open>close\<close> did not get.\<close>

fun opened_by :: "sys_call \<times> int \<Rightarrow> int set \<Rightarrow> int set" where
  "opened_by (SysSocket _ _ _, r) fds = (if 0 \<le> r then insert r fds else fds)"
| "opened_by (SysAccept _, r) fds = (if 0 \<le> r then insert r fds else fds)"
| "opened_by (SysOpen _, r) fds = (if 0 \<le> r then insert r fds else fds)"
| "opened_by (SysClose fd, _) fds = fds - {fd}"
| "opened_by _ fds = fds"

definition open_fds :: "world \<Rightarrow> int set" where
  "open_fds w = foldr opened_by w {}"

lemma open_fds_Nil [simp]: "open_fds [] = {}"
  by (simp add: open_fds_def)

lemma open_fds_Cons [simp]: "open_fds (c # w) = opened_by c (open_fds w)"
  by (simp add: open_fds_def)

text \<open>\<open>socket\<close> gives out a descriptor that is not in use, or -1.\<close>

definition os_fresh :: "os \<Rightarrow> bool" where
  "os_fresh e \<longleftrightarrow> (\<forall>w d t p. - 1 \<le> answer e w (SysSocket d t p) \<and> answer e w (SysSocket d t p) \<notin> open_fds w)"

end
