(* ===== verification/M_Queue.thy ===== *)
theory M_Queue
  imports Mbtk_Prelude
begin

text \<open>
  The linked list of \<open>lib/m_list.c\<close> and the queue of \<open>lib/m_queue.c\<close>.  Both chain
  \<open>malloc\<close>ed cells behind a head cell of the caller; the cells live in a map from
  addresses, so that sharing, the freed cells and the link left in the head are those of the
  code.  The data are the pointers of the caller, of any type.
\<close>

section \<open>Cells\<close>

record 'd cell =
  c_next :: "nat option"
  c_data :: "'d option"                \<comment> \<open>None is NULL\<close>

record 'd cells =
  cell_at :: "nat \<Rightarrow> 'd cell option"
  cell_fresh :: nat

text \<open>Whether the n-th allocation succeeds is a parameter.\<close>

definition get_cell :: "nat \<Rightarrow> 'd cells \<Rightarrow> 'd cell res" where
  "get_cell a h = (case cell_at h a of None \<Rightarrow> Inl UseAfterFree | Some c \<Rightarrow> Inr c)"

definition put_cell :: "nat \<Rightarrow> 'd cell \<Rightarrow> 'd cells \<Rightarrow> 'd cells" where
  "put_cell a c h = h\<lparr>cell_at := (cell_at h)(a \<mapsto> c)\<rparr>"

definition free_cell :: "nat \<Rightarrow> 'd cells \<Rightarrow> 'd cells" where
  "free_cell a h = h\<lparr>cell_at := (cell_at h)(a := None)\<rparr>"

text \<open>The loop \<open>while(p->next) p = p->next\<close>; more steps than cells were ever allocated mean
  a cycle.\<close>

fun last_cell :: "nat \<Rightarrow> nat \<Rightarrow> 'd cells \<Rightarrow> nat res" where
  "last_cell 0 a h = Inl Diverges"
| "last_cell (Suc fuel) a h =
     rbind (get_cell a h) (\<lambda>c. case c_next c of None \<Rightarrow> Inr a | Some b \<Rightarrow> last_cell fuel b h)"

section \<open>The list\<close>

text \<open>\<open>list_init\<close> also sets the global \<open>list_free_func\<close>, which all lists share.\<close>

definition list_init :: "nat \<Rightarrow> 'f \<Rightarrow> 'd cells \<times> 'f \<Rightarrow> 'd cells \<times> 'f" where
  "list_init l free_func st = (put_cell l \<lparr>c_next = None, c_data = None\<rparr> (fst st), free_func)"

definition chain_put :: "(nat \<Rightarrow> bool) \<Rightarrow> nat \<Rightarrow> 'd \<Rightarrow> 'd cells \<Rightarrow> (bool \<times> 'd cells) res" where
  "chain_put ok l d h =
     (if \<not> ok (cell_fresh h) then Inr (False, h)
      else
        let a = cell_fresh h;
            h1 = put_cell a \<lparr>c_next = None, c_data = Some d\<rparr> (h\<lparr>cell_fresh := Suc a\<rparr>)
        in rbind (last_cell (Suc a) l h1) (\<lambda>p.
           rmap (\<lambda>c. (True, put_cell p (c\<lparr>c_next := Some a\<rparr>) h1)) (get_cell p h1)))"

definition list_add :: "(nat \<Rightarrow> bool) \<Rightarrow> nat option \<Rightarrow> 'd option \<Rightarrow> 'd cells \<Rightarrow> (bool \<times> 'd cells) res" where
  "list_add ok l data h =
     (case l of None \<Rightarrow> Inr (False, h)
      | Some a \<Rightarrow> (case data of None \<Rightarrow> Inr (False, h) | Some d \<Rightarrow> chain_put ok a d h))"

text \<open>The result also lists what was handed to \<open>list_free_func\<close> (nothing when it is NULL).\<close>

fun list_free_loop :: "bool \<Rightarrow> nat \<Rightarrow> nat option \<Rightarrow> 'd cells \<Rightarrow> ('d option list \<times> 'd cells) res" where
  "list_free_loop has_func fuel None h = Inr ([], h)"
| "list_free_loop has_func 0 (Some a) h = Inl Diverges"
| "list_free_loop has_func (Suc fuel) (Some a) h =
     rbind (get_cell a h) (\<lambda>c.
       rmap (\<lambda>(ds, h'). (if has_func then c_data c # ds else ds, h'))
         (list_free_loop has_func fuel (c_next c) (free_cell a h)))"

definition list_free :: "bool \<Rightarrow> nat option \<Rightarrow> 'd cells \<Rightarrow> ('d option list \<times> 'd cells) res" where
  "list_free has_func l h =
     (case l of None \<Rightarrow> Inr ([], h)
      | Some a \<Rightarrow> rbind (get_cell a h) (\<lambda>c. list_free_loop has_func (cell_fresh h) (c_next c) h))"

section \<open>The queue\<close>

definition q_init :: "nat \<Rightarrow> 'd cells \<Rightarrow> 'd cells" where
  "q_init q h = put_cell q \<lparr>c_next = None, c_data = None\<rparr> h"

text \<open>The result is the data pointer or NULL.\<close>

definition q_put :: "(nat \<Rightarrow> bool) \<Rightarrow> nat option \<Rightarrow> 'd option \<Rightarrow> 'd cells \<Rightarrow> ('d option \<times> 'd cells) res" where
  "q_put ok q data h =
     (case q of None \<Rightarrow> Inr (None, h)
      | Some a \<Rightarrow>
          (case data of None \<Rightarrow> Inr (None, h)
           | Some d \<Rightarrow> rmap (\<lambda>(r, h'). (if r then Some d else None, h')) (chain_put ok a d h)))"

text \<open>The result says whether there was an item and gives what \<open>*data\<close> is set to.\<close>

definition q_get :: "nat option \<Rightarrow> 'd cells \<Rightarrow> ('d option option \<times> 'd cells) res" where
  "q_get q h =
     (case q of None \<Rightarrow> Inr (None, h)
      | Some a \<Rightarrow>
          rbind (get_cell a h) (\<lambda>c.
          case c_next c of
            None \<Rightarrow> Inr (None, h)
          | Some b \<Rightarrow>
              rmap (\<lambda>d. (Some (c_data d), free_cell b (put_cell a (c\<lparr>c_next := c_next d\<rparr>) h)))
                (get_cell b h)))"

definition q_free :: "nat option \<Rightarrow> 'd cells \<Rightarrow> 'd cells" where
  "q_free q h = h"

section \<open>The interface\<close>

text \<open>Putting several items, and getting several times, with any queue.\<close>

fun put_all :: "('d \<Rightarrow> 's \<Rightarrow> ('d option \<times> 's) res) \<Rightarrow> 'd list \<Rightarrow> 's \<Rightarrow> 's res" where
  "put_all put [] s = Inr s"
| "put_all put (d # ds) s = rbind (put d s) (\<lambda>(_, s'). put_all put ds s')"

fun get_many :: "('s \<Rightarrow> ('d option option \<times> 's) res) \<Rightarrow> nat \<Rightarrow> 's \<Rightarrow> ('d option option list \<times> 's) res" where
  "get_many get 0 s = Inr ([], s)"
| "get_many get (Suc n) s =
     rbind (get s) (\<lambda>(r, s'). rmap (\<lambda>(rs, s''). (r # rs, s'')) (get_many get n s'))"

text \<open>A queue through its contents: the laws of putting and getting.\<close>

locale fifo =
  fixes inv :: "'s \<Rightarrow> bool" and contents :: "'s \<Rightarrow> 'd list"
    and put :: "'d \<Rightarrow> 's \<Rightarrow> ('d option \<times> 's) res" and get :: "'s \<Rightarrow> ('d option option \<times> 's) res"
  assumes put_law: "inv s \<Longrightarrow> \<exists>s'. put d s = Inr (Some d, s') \<and> inv s' \<and> contents s' = contents s @ [d]"
    and get_empty: "inv s \<Longrightarrow> contents s = [] \<Longrightarrow> get s = Inr (None, s)"
    and get_first: "inv s \<Longrightarrow> contents s = d # ds \<Longrightarrow>
      \<exists>s'. get s = Inr (Some (Some d), s') \<and> inv s' \<and> contents s' = ds"
begin

lemma put_all_contents:
  "inv s \<Longrightarrow> \<exists>s'. put_all put ds s = Inr s' \<and> inv s' \<and> contents s' = contents s @ ds"
proof (induction ds arbitrary: s)
  case (Cons d ds)
  obtain s1 where s1: "put d s = Inr (Some d, s1)" "inv s1" "contents s1 = contents s @ [d]"
    using put_law [OF Cons.prems] by blast
  from Cons.IH [OF s1(2)] s1 show ?case by auto
qed auto

lemma get_many_contents:
  "inv s \<Longrightarrow> contents s = ds @ es \<Longrightarrow>
   \<exists>s'. get_many get (length ds) s = Inr (map (Some \<circ> Some) ds, s') \<and> inv s' \<and> contents s' = es"
proof (induction ds arbitrary: s)
  case (Cons d ds)
  obtain s1 where s1: "get s = Inr (Some (Some d), s1)" "inv s1" "contents s1 = ds @ es"
    using get_first [OF Cons.prems(1), of d "ds @ es"] Cons.prems(2) by auto
  from Cons.IH [OF s1(2,3)] s1(1) show ?case by auto
qed auto

lemma first_in_first_out:
  assumes "inv s" "contents s = []"
  shows "\<exists>s1 s2. put_all put ds s = Inr s1 \<and> get_many get (length ds) s1 = Inr (map (Some \<circ> Some) ds, s2)
    \<and> get s2 = Inr (None, s2)"
proof -
  obtain s1 where s1: "put_all put ds s = Inr s1" "inv s1" "contents s1 = ds"
    using put_all_contents [OF assms(1), of ds] assms(2) by auto
  obtain s2 where "get_many get (length ds) s1 = Inr (map (Some \<circ> Some) ds, s2)" "inv s2" "contents s2 = []"
    using get_many_contents [of s1 ds "[]"] s1 by auto
  with s1(1) get_empty show ?thesis by blast
qed

end

section \<open>Chains\<close>

primrec chain :: "('d cells) \<Rightarrow> nat option \<Rightarrow> nat list \<Rightarrow> 'd list \<Rightarrow> bool" where
  "chain h p [] ds = (p = None \<and> ds = [])"
| "chain h p (a # as) ds =
     (p = Some a \<and> (\<exists>c d ds'. cell_at h a = Some c \<and> c_data c = Some d \<and> ds = d # ds' \<and> chain h (c_next c) as ds'))"

definition chain_inv :: "nat \<Rightarrow> 'd cells \<Rightarrow> nat list \<Rightarrow> 'd list \<Rightarrow> bool" where
  "chain_inv q h as ds \<longleftrightarrow> (\<exists>c. cell_at h q = Some c \<and> chain h (c_next c) as ds)
     \<and> distinct (q # as) \<and> (\<forall>a \<in> set (q # as). a < cell_fresh h)"

lemma chain_other: "a \<notin> set as \<Longrightarrow> chain (put_cell a c h) p as ds = chain h p as ds"
  by (induction as arbitrary: p ds) (auto simp: put_cell_def)

lemma chain_free: "a \<notin> set as \<Longrightarrow> chain (free_cell a h) p as ds = chain h p as ds"
  by (induction as arbitrary: p ds) (auto simp: free_cell_def)

lemma chain_fresh: "chain (h\<lparr>cell_fresh := n\<rparr>) p as ds = chain h p as ds"
  by (induction as arbitrary: p ds) auto

lemma last_cell_chain:
  assumes "cell_at h q = Some c" "chain h (c_next c) as ds" "length as < fuel"
  shows "last_cell fuel q h = Inr (last (q # as))"
  using assms
proof (induction as arbitrary: q c ds fuel)
  case Nil
  then show ?case by (cases fuel) (auto simp: get_cell_def)
next
  case (Cons a as)
  then obtain f where f: "fuel = Suc f" by (cases fuel) auto
  from Cons.prems(2) obtain c' d ds' where c': "c_next c = Some a" "cell_at h a = Some c'"
    "chain h (c_next c') as ds'" by auto
  show ?case using Cons.IH [OF c'(2,3), of f] Cons.prems(1,3) c'(1) f by (simp add: get_cell_def)
qed

lemma chain_append:
  assumes "cell_at h q = Some c" "chain h (c_next c) as ds" "distinct (q # as)" "a \<notin> set (q # as)"
    "cell_at h a = Some \<lparr>c_next = None, c_data = Some d\<rparr>" "cell_at h (last (q # as)) = Some l"
    "h' = put_cell (last (q # as)) (l\<lparr>c_next := Some a\<rparr>) h"
  shows "\<exists>c'. cell_at h' q = Some c' \<and> chain h' (c_next c') (as @ [a]) (ds @ [d])"
  using assms
proof (induction as arbitrary: q c ds)
  case Nil
  then show ?case by (auto simp: put_cell_def)
next
  case (Cons b bs)
  from Cons.prems(2) obtain cb db ds' where b: "c_next c = Some b" "cell_at h b = Some cb" "c_data cb = Some db"
    "ds = db # ds'" "chain h (c_next cb) bs ds'" by auto
  have lastb: "last (q # b # bs) = last (b # bs)" by simp
  obtain c' where c': "cell_at h' b = Some c'" "chain h' (c_next c') (bs @ [a]) (ds' @ [d])"
    using Cons.IH [OF b(2,5)] Cons.prems unfolding lastb by auto
  have "q \<noteq> last (b # bs)" using Cons.prems(3) last_in_set [of "b # bs"] by (metis distinct.simps(2) list.distinct(1))
  then have q: "cell_at h' q = Some c" using Cons.prems(1,7) by (simp add: put_cell_def)
  have "c_data c' = Some db"
    using c'(1) b(2,3) Cons.prems(6,7) by (auto simp: put_cell_def split: if_splits)
  with q c' b show ?case by auto
qed

lemma bounded_count: "distinct as \<Longrightarrow> \<forall>a \<in> set as. a < n \<Longrightarrow> length as \<le> (n :: nat)"
  using card_mono [of "{..<n}" "set as"] distinct_card [of as] by fastforce

lemma chain_put_ok:
  assumes inv: "chain_inv q h as ds" and ok: "ok (cell_fresh h)"
  shows "\<exists>h'. chain_put ok q d h = Inr (True, h') \<and> chain_inv q h' (as @ [cell_fresh h]) (ds @ [d])"
proof -
  let ?a = "cell_fresh h"
  let ?h1 = "put_cell ?a \<lparr>c_next = None, c_data = Some d\<rparr> (h\<lparr>cell_fresh := Suc ?a\<rparr>)"
  obtain c where c: "cell_at h q = Some c" "chain h (c_next c) as ds" and dist: "distinct (q # as)"
    and low: "\<forall>x \<in> set (q # as). x < ?a" using inv by (auto simp: chain_inv_def)
  have na: "?a \<notin> set (q # as)" using low by blast
  have c1: "cell_at ?h1 q = Some c" using c na by (simp add: put_cell_def)
  have c2: "chain ?h1 (c_next c) as ds" using c na by (simp add: chain_other chain_fresh)
  have "length as < Suc ?a" using bounded_count [of "q # as" ?a] dist low by simp
  from last_cell_chain [OF c1 c2 this] have last: "last_cell (Suc ?a) q ?h1 = Inr (last (q # as))" .
  have "\<exists>l. cell_at ?h1 (last (q # as)) = Some l"
    using c1 c2 by (induction as arbitrary: q c ds) auto
  then obtain l where l: "cell_at ?h1 (last (q # as)) = Some l" by blast
  let ?h' = "put_cell (last (q # as)) (l\<lparr>c_next := Some ?a\<rparr>) ?h1"
  have "cell_at ?h1 ?a = Some \<lparr>c_next = None, c_data = Some d\<rparr>" by (simp add: put_cell_def)
  from chain_append [OF c1 c2 dist na this l refl]
  have "\<exists>c'. cell_at ?h' q = Some c' \<and> chain ?h' (c_next c') (as @ [?a]) (ds @ [d])" .
  moreover have "chain_put ok q d h = Inr (True, ?h')"
    using ok last l by (simp add: chain_put_def Let_def get_cell_def)
  moreover have "cell_fresh ?h' = Suc ?a" by (simp add: put_cell_def)
  ultimately show ?thesis
    using dist na low by (intro exI [of _ ?h']) (auto simp: chain_inv_def less_Suc_eq)
qed

section \<open>The queue satisfies the interface\<close>

definition queue_inv :: "nat \<Rightarrow> 'd cells \<Rightarrow> bool" where
  "queue_inv q h \<longleftrightarrow> (\<exists>as ds. chain_inv q h as ds)"

fun collect_data :: "'d cells \<Rightarrow> nat \<Rightarrow> nat option \<Rightarrow> 'd list" where
  "collect_data h (Suc fuel) (Some a) =
     (case cell_at h a of Some c \<Rightarrow> (case c_data c of Some d \<Rightarrow> d # collect_data h fuel (c_next c) | None \<Rightarrow> []) | None \<Rightarrow> [])"
| "collect_data h _ _ = []"

definition queue_contents :: "nat \<Rightarrow> 'd cells \<Rightarrow> 'd list" where
  "queue_contents q h = (case cell_at h q of None \<Rightarrow> [] | Some c \<Rightarrow> collect_data h (cell_fresh h) (c_next c))"

lemma collect_data_chain: "chain h p as ds \<Longrightarrow> length as \<le> fuel \<Longrightarrow> collect_data h fuel p = ds"
proof (induction as arbitrary: p ds fuel)
  case (Cons a as)
  then show ?case by (cases fuel) auto
qed (cases fuel; auto)

lemma queue_contents_chain: "chain_inv q h as ds \<Longrightarrow> queue_contents q h = ds"
  using bounded_count [of "q # as" "cell_fresh h"]
  by (auto simp: chain_inv_def queue_contents_def intro!: collect_data_chain)

lemma q_get_chain:
  assumes "chain_inv q h as (d # ds)"
  shows "\<exists>h'. q_get (Some q) h = Inr (Some (Some d), h') \<and> chain_inv q h' (tl as) ds"
proof -
  obtain c where c: "cell_at h q = Some c" "chain h (c_next c) as (d # ds)" and dist: "distinct (q # as)"
    and low: "\<forall>x \<in> set (q # as). x < cell_fresh h" using assms by (auto simp: chain_inv_def)
  obtain b bs where as: "as = b # bs" using c(2) by (cases as) auto
  obtain cb where b: "c_next c = Some b" "cell_at h b = Some cb" "c_data cb = Some d" "chain h (c_next cb) bs ds"
    using c(2) as by auto
  let ?h' = "free_cell b (put_cell q (c\<lparr>c_next := c_next cb\<rparr>) h)"
  have "cell_at ?h' q = Some (c\<lparr>c_next := c_next cb\<rparr>)"
    using dist as by (auto simp: free_cell_def put_cell_def)
  moreover have "chain ?h' (c_next cb) bs ds"
    using b(4) dist as by (simp add: chain_free chain_other)
  moreover have "cell_fresh ?h' = cell_fresh h" by (simp add: free_cell_def put_cell_def)
  ultimately have "chain_inv q ?h' bs ds" using dist low as by (auto simp: chain_inv_def)
  then show ?thesis using c(1) b as by (simp add: q_get_def get_cell_def)
qed

interpretation mq: fifo "queue_inv q" "queue_contents q" "\<lambda>d. q_put (\<lambda>_. True) (Some q) (Some d)" "q_get (Some q)"
  for q
proof (unfold_locales, goal_cases)
  case (1 h d)
  then obtain as ds where inv: "chain_inv q h as ds" by (auto simp: queue_inv_def)
  obtain h' where h': "chain_put (\<lambda>_. True) q d h = Inr (True, h')" "chain_inv q h' (as @ [cell_fresh h]) (ds @ [d])"
    using chain_put_ok [OF inv, of "\<lambda>_. True" d] by auto
  then show ?case using queue_contents_chain [OF inv] queue_contents_chain [OF h'(2)]
    by (auto simp: q_put_def queue_inv_def)
next
  case (2 h)
  then obtain as ds where inv: "chain_inv q h as ds" by (auto simp: queue_inv_def)
  then have "ds = []" using 2(2) queue_contents_chain [OF inv] by simp
  then have "as = []" using inv by (cases as) (auto simp: chain_inv_def)
  then show ?case using inv by (auto simp: chain_inv_def q_get_def get_cell_def)
next
  case (3 h d ds)
  then obtain as where inv: "chain_inv q h as (d # ds)" by (auto simp: queue_inv_def queue_contents_chain)
  obtain h' where h': "q_get (Some q) h = Inr (Some (Some d), h')" "chain_inv q h' (tl as) ds"
    using q_get_chain [OF inv] by blast
  then show ?case using queue_contents_chain [OF h'(2)] by (auto simp: queue_inv_def)
qed

section \<open>Freeing a list\<close>

lemma list_free_loop_chain:
  assumes "chain h p as ds" "distinct as" "length as \<le> fuel"
  shows "\<exists>h'. list_free_loop f fuel p h = Inr (if f then map Some ds else [], h')
    \<and> cell_at h' = (\<lambda>x. if x \<in> set as then None else cell_at h x)"
  using assms
proof (induction as arbitrary: h p ds fuel)
  case Nil
  then show ?case by (cases fuel) auto
next
  case (Cons a as)
  then obtain n where n: "fuel = Suc n" by (cases fuel) auto
  from Cons.prems(1) obtain c d ds' where c: "p = Some a" "cell_at h a = Some c" "c_data c = Some d" "ds = d # ds'"
    "chain h (c_next c) as ds'" by auto
  have "chain (free_cell a h) (c_next c) as ds'" using c(5) Cons.prems(2) by (simp add: chain_free)
  then obtain h' where h': "list_free_loop f n (c_next c) (free_cell a h) = Inr (if f then map Some ds' else [], h')"
    "cell_at h' = (\<lambda>x. if x \<in> set as then None else cell_at (free_cell a h) x)"
    using Cons.IH [of "free_cell a h" "c_next c" ds' n] Cons.prems(2,3) n by auto
  show ?case using h' c n by (auto simp: get_cell_def free_cell_def fun_eq_iff)
qed

lemma list_free_loop_fresh: "list_free_loop f fuel p h = Inr (ds, h') \<Longrightarrow> cell_fresh h' = cell_fresh h"
  by (induction f fuel p h arbitrary: ds h' rule: list_free_loop.induct)
     (auto simp: rbind_eq_Inr free_cell_def)

end
