(* ===== verification/Stanet.thy ===== *)
theory Stanet
  imports C_System M_Queue
begin

text \<open>
  The station daemon \<open>stanet/stanet_daemon.c\<close> and its client \<open>stanet/stanet_qmi.c\<close>.  Five
  sessions in a doubly linked list each have a thread that waits on a condition variable,
  takes one message from the session's queue and works on the session's socket; the functions
  \<open>stanet_session_*\<close> put messages into the queues.  Sessions and message nodes live in
  maps from addresses.  The thread holds the session's mutex except while it waits, so one
  message is handled in one step; \<open>ss_mode\<close> says where the thread is.
\<close>

section \<open>Types\<close>

datatype sta_session_err =
    STA_SESSION_ERR_SUCCESS | STA_SESSION_ERR_TO_MORE | STA_SESSION_ERR_HOST | STA_SESSION_ERR_CONN
  | STA_SESSION_ERR_UNKNOWN

datatype sta_session_state =
    STA_SESSION_STATE_UNUSED | STA_SESSION_STATE_CLOSED | STA_SESSION_STATE_OPENING
  | STA_SESSION_STATE_OPENED | STA_SESSION_STATE_WRITING | STA_SESSION_STATE_READING
  | STA_SESSION_STATE_CLOSING

datatype sta_msg_id =
    STA_MSG_SOCKET_OPEN | STA_MSG_SOCKET_WRITE | STA_MSG_SOCKET_READ | STA_MSG_SOCKET_CLOSE

definition SESSION_MAX_COUNT :: nat where "SESSION_MAX_COUNT = 5"
definition SESSION_HOST_MAX_LEN :: nat where "SESSION_HOST_MAX_LEN = 128"
definition SESSION_MSG_MAX_LEN :: nat where "SESSION_MSG_MAX_LEN = 2048"

record sta_msg =
  msg_id :: sta_msg_id
  data_len :: int
  msg_data :: "byte list"

text \<open>Not created, before its first wait, in \<open>pthread_cond_wait\<close>, or signalled and about to return from it.\<close>

datatype thread_mode = NoThread | Starting | Waiting | Woken

record sta_session =
  ss_id :: int
  ss_sockfd :: int
  ss_state :: sta_session_state
  ss_err :: sta_session_err
  ss_host :: "byte list"
  ss_port :: int
  ss_running :: bool
  ss_msg_q :: "nat option"
  ss_pre :: "nat option"
  ss_next :: "nat option"
  ss_mode :: thread_mode

text \<open>A call of \<open>qmi_session_callback\<close>.\<close>

record callback =
  cb_session :: int
  cb_msg :: sta_msg_id
  cb_err :: sta_session_err
  cb_data :: "byte list option"
  cb_len :: int

record stanet =
  session_list :: "nat option"
  session_at :: "nat \<Rightarrow> sta_session option"
  session_fresh :: nat
  msgs :: "sta_msg cells"
  st_world :: world
  epoll_fd :: int
  session_id_tmp :: int
  callbacks :: "callback list"           \<comment> \<open>latest first\<close>

definition stanet0 :: stanet where
  "stanet0 = \<lparr>session_list = None, session_at = (\<lambda>_. None), session_fresh = 0,
     msgs = \<lparr>cell_at = (\<lambda>_. None), cell_fresh = 0\<rparr>, st_world = [], epoll_fd = -1,
     session_id_tmp = -1, callbacks = []\<rparr>"

definition get_ses :: "nat \<Rightarrow> stanet \<Rightarrow> sta_session res" where
  "get_ses a st = (case session_at st a of None \<Rightarrow> Inl UseAfterFree | Some s \<Rightarrow> Inr s)"

definition put_ses :: "nat \<Rightarrow> sta_session \<Rightarrow> stanet \<Rightarrow> stanet" where
  "put_ses a s st = st\<lparr>session_at := (session_at st)(a \<mapsto> s)\<rparr>"

definition upd_ses :: "nat \<Rightarrow> (sta_session \<Rightarrow> sta_session) \<Rightarrow> stanet \<Rightarrow> stanet res" where
  "upd_ses a f st = rmap (\<lambda>s. put_ses a (f s) st) (get_ses a st)"

definition st_sys :: "os \<Rightarrow> sys_call \<Rightarrow> stanet \<Rightarrow> int \<times> stanet" where
  "st_sys e c st = (let (r, w) = sys e c (st_world st) in (r, st\<lparr>st_world := w\<rparr>))"

section \<open>The message queue of a session\<close>

definition msg_queue_pop :: "nat \<Rightarrow> stanet \<Rightarrow> (nat \<times> stanet) res" where
  "msg_queue_pop a st =
     rbind (get_ses a st) (\<lambda>s.
     case ss_msg_q s of
       None \<Rightarrow> Inl NullDeref
     | Some m \<Rightarrow>
         rmap (\<lambda>c. (m, put_ses a (s\<lparr>ss_msg_q := c_next c\<rparr>)
                        (st\<lparr>msgs := put_cell m (c\<lparr>c_next := None\<rparr>) (msgs st)\<rparr>)))
           (get_cell m (msgs st)))"

text \<open>\<open>pthread_cond_signal\<close> wakes the thread if it waits and is lost otherwise.\<close>

definition cond_signal :: "thread_mode \<Rightarrow> thread_mode" where
  "cond_signal mode = (if mode = Waiting then Woken else mode)"

definition msg_queue_put :: "nat option \<Rightarrow> nat \<Rightarrow> stanet \<Rightarrow> stanet res" where
  "msg_queue_put session m st =
     (case session of None \<Rightarrow> Inl NullDeref | Some a \<Rightarrow>
      rbind (get_ses a st) (\<lambda>s.
      rbind (get_cell m (msgs st)) (\<lambda>c.
      let h = put_cell m (c\<lparr>c_next := None\<rparr>) (msgs st);
          s' = s\<lparr>ss_mode := cond_signal (ss_mode s)\<rparr>
      in case ss_msg_q s of
           None \<Rightarrow> Inr (put_ses a (s'\<lparr>ss_msg_q := Some m\<rparr>) (st\<lparr>msgs := h\<rparr>))
         | Some b \<Rightarrow>
             rbind (last_cell (cell_fresh h) b h) (\<lambda>p.
             rmap (\<lambda>cp. put_ses a s' (st\<lparr>msgs := put_cell p (cp\<lparr>c_next := Some m\<rparr>) h\<rparr>))
               (get_cell p h)))))"

text \<open>The loop that frees every node is the one of \<open>list_free\<close> without a function.\<close>

definition msg_queue_clear :: "nat \<Rightarrow> stanet \<Rightarrow> stanet res" where
  "msg_queue_clear a st =
     rbind (get_ses a st) (\<lambda>s.
     rmap (\<lambda>(_, h). put_ses a (s\<lparr>ss_msg_q := None\<rparr>) (st\<lparr>msgs := h\<rparr>))
       (list_free_loop False (cell_fresh (msgs st)) (ss_msg_q s) (msgs st)))"

section \<open>The list of sessions\<close>

text \<open>All fields are set; the result is FALSE when \<open>pthread_create\<close> fails.\<close>

definition session_init :: "os \<Rightarrow> nat \<Rightarrow> int \<Rightarrow> stanet \<Rightarrow> bool \<times> stanet" where
  "session_init e a sid st =
     (let (r, st1) = st_sys e (SysThreadCreate a) st;
          s = \<lparr>ss_id = sid, ss_sockfd = -1, ss_state = STA_SESSION_STATE_UNUSED, ss_err = STA_SESSION_ERR_SUCCESS,
               ss_host = replicate SESSION_HOST_MAX_LEN 0, ss_port = -1, ss_running = True, ss_msg_q = None,
               ss_pre = None, ss_next = None, ss_mode = (if r = 0 then Starting else NoThread)\<rparr>
      in (r = 0, put_ses a s st1))"

definition session_add :: "nat \<Rightarrow> stanet \<Rightarrow> stanet res" where
  "session_add a st =
     rbind (upd_ses a (\<lambda>s. s\<lparr>ss_pre := None, ss_next := session_list st\<rparr>) st) (\<lambda>st1.
     rmap (\<lambda>st2. st2\<lparr>session_list := Some a\<rparr>)
       (case session_list st1 of None \<Rightarrow> Inr st1 | Some b \<Rightarrow> upd_ses b (\<lambda>s. s\<lparr>ss_pre := Some a\<rparr>) st1))"

text \<open>Unlinking a node of the list: in the middle, alone, at the head, at the tail.\<close>

definition session_unlink :: "sta_session \<Rightarrow> stanet \<Rightarrow> stanet res" where
  "session_unlink s st =
     (case (ss_pre s, ss_next s) of
        (Some p, Some n) \<Rightarrow> rbind (upd_ses p (\<lambda>x. x\<lparr>ss_next := Some n\<rparr>) st) (upd_ses n (\<lambda>x. x\<lparr>ss_pre := Some p\<rparr>))
      | (None, None) \<Rightarrow> Inr (st\<lparr>session_list := None\<rparr>)
      | (None, Some n) \<Rightarrow> upd_ses n (\<lambda>x. x\<lparr>ss_pre := None\<rparr>) (st\<lparr>session_list := Some n\<rparr>)
      | (Some p, None) \<Rightarrow> upd_ses p (\<lambda>x. x\<lparr>ss_next := None\<rparr>) st)"

fun session_del_loop :: "nat \<Rightarrow> int \<Rightarrow> nat option \<Rightarrow> stanet \<Rightarrow> (bool \<times> stanet) res" where
  "session_del_loop fuel sid None st = Inr (False, st)"
| "session_del_loop 0 sid (Some a) st = Inl Diverges"
| "session_del_loop (Suc fuel) sid (Some a) st =
     rbind (get_ses a st) (\<lambda>s.
     if sid = ss_id s
     then rmap (\<lambda>st1. (True, st1\<lparr>session_at := (session_at st1)(a := None)\<rparr>)) (session_unlink s st)
     else session_del_loop fuel sid (ss_next s) st)"

definition session_del :: "nat option \<Rightarrow> stanet \<Rightarrow> (bool \<times> stanet) res" where
  "session_del session st =
     (case (session_list st, session) of
        (Some p, Some a) \<Rightarrow>
          rbind (get_ses a st) (\<lambda>s.
          if ss_id s = -1 then Inr (False, st)
          else session_del_loop (session_fresh st) (ss_id s) (Some p) st)
      | _ \<Rightarrow> Inr (False, st))"

fun session_get_loop :: "nat \<Rightarrow> int \<Rightarrow> nat option \<Rightarrow> stanet \<Rightarrow> nat option res" where
  "session_get_loop fuel sid None st = Inr None"
| "session_get_loop 0 sid (Some a) st = Inl Diverges"
| "session_get_loop (Suc fuel) sid (Some a) st =
     rbind (get_ses a st) (\<lambda>s. if sid = ss_id s then Inr (Some a) else session_get_loop fuel sid (ss_next s) st)"

definition session_get :: "int \<Rightarrow> stanet \<Rightarrow> nat option res" where
  "session_get sid st = session_get_loop (session_fresh st) sid (session_list st) st"

fun session_usable_loop :: "nat \<Rightarrow> nat option \<Rightarrow> stanet \<Rightarrow> int res" where
  "session_usable_loop fuel None st = Inr (-1)"
| "session_usable_loop 0 (Some a) st = Inl Diverges"
| "session_usable_loop (Suc fuel) (Some a) st =
     rbind (get_ses a st) (\<lambda>s.
       if ss_state s = STA_SESSION_STATE_UNUSED then Inr (ss_id s) else session_usable_loop fuel (ss_next s) st)"

definition session_get_usable :: "stanet \<Rightarrow> int res" where
  "session_get_usable st = session_usable_loop (session_fresh st) (session_list st) st"

text \<open>\<open>n\<close> of the \<open>SESSION_MAX_COUNT\<close> rounds are left.\<close>

fun session_list_create_loop :: "os \<Rightarrow> nat \<Rightarrow> stanet \<Rightarrow> stanet res" where
  "session_list_create_loop e 0 st = Inr st"
| "session_list_create_loop e (Suc n) st =
     (if \<not> alloc_ok e (session_fresh st) then Inl NullDeref
      else let a = session_fresh st;
               (ok, st1) = session_init e a (int n) (st\<lparr>session_fresh := Suc a\<rparr>)
           in rbind (if ok then session_add a st1 else Inr st1) (session_list_create_loop e n))"

definition session_list_create :: "os \<Rightarrow> stanet \<Rightarrow> stanet res" where
  "session_list_create e st =
     (let (fd, st1) = st_sys e SysEpollCreate st
      in session_list_create_loop e SESSION_MAX_COUNT (st1\<lparr>epoll_fd := fd\<rparr>))"

section \<open>Resetting a session\<close>

definition session_reset :: "os \<Rightarrow> nat \<Rightarrow> stanet \<Rightarrow> stanet res" where
  "session_reset e a st =
     rbind (get_ses a st) (\<lambda>s.
     let st1 = put_ses a (s\<lparr>ss_err := STA_SESSION_ERR_SUCCESS, ss_state := STA_SESSION_STATE_UNUSED,
                           ss_host := replicate SESSION_HOST_MAX_LEN 0, ss_port := -1\<rparr>) st;
         (_, st2) = st_sys e (SysEpollDel (ss_sockfd s)) st1;
         (_, st3) = st_sys e (SysClose (ss_sockfd s)) st2
     in rbind (upd_ses a (\<lambda>s. s\<lparr>ss_sockfd := -1\<rparr>) st3) (msg_queue_clear a))"

section \<open>Sending a message\<close>

definition send_msg :: "os \<Rightarrow> int \<Rightarrow> sta_msg_id \<Rightarrow> byte list option \<Rightarrow> int \<Rightarrow> stanet \<Rightarrow> stanet res" where
  "send_msg e sid mid data len st =
     (let m = cell_fresh (msgs st); zero = replicate (SESSION_MSG_MAX_LEN + 1) 0 in
      if \<not> alloc_ok e m then Inl NullDeref
      else rbind (case data of
                    Some d \<Rightarrow> if len > 0 then rbind (rd_bytes d 0 (nat len)) (wr_bytes zero 0) else Inr zero
                  | None \<Rightarrow> Inr zero) (\<lambda>md.
           let msg = \<lparr>msg_id = mid, data_len = len, msg_data = md\<rparr>;
               h = put_cell m \<lparr>c_next = None, c_data = Some msg\<rparr> ((msgs st)\<lparr>cell_fresh := Suc m\<rparr>)
           in rbind (session_get sid st) (\<lambda>session. msg_queue_put session m (st\<lparr>msgs := h\<rparr>))))"

section \<open>The callback\<close>

text \<open>A successful open stores the session id; the data of a read are freed.\<close>

definition qmi_session_callback :: "int \<Rightarrow> sta_msg_id \<Rightarrow> sta_session_err \<Rightarrow> byte list option \<Rightarrow> int \<Rightarrow>
    stanet \<Rightarrow> stanet" where
  "qmi_session_callback sid mid err data len st =
     (let st1 = st\<lparr>callbacks := \<lparr>cb_session = sid, cb_msg = mid, cb_err = err, cb_data = data, cb_len = len\<rparr> # callbacks st\<rparr>
      in if mid = STA_MSG_SOCKET_OPEN \<and> err = STA_SESSION_ERR_SUCCESS then st1\<lparr>session_id_tmp := sid\<rparr> else st1)"

section \<open>Opening the socket\<close>

text \<open>The labels \<open>result_success\<close> and \<open>result_fail\<close> (which \<open>result_fail_with_close\<close>
  falls into).\<close>

definition result_success :: "os \<Rightarrow> nat \<Rightarrow> int \<Rightarrow> stanet \<Rightarrow> stanet res" where
  "result_success e a fd st =
     rmap (\<lambda>st1. snd (st_sys e (SysEpollAdd fd) st1)) (upd_ses a (\<lambda>s. s\<lparr>ss_state := STA_SESSION_STATE_OPENED\<rparr>) st)"

definition result_fail :: "nat \<Rightarrow> stanet \<Rightarrow> stanet res" where
  "result_fail a st = upd_ses a (\<lambda>s. s\<lparr>ss_state := STA_SESSION_STATE_CLOSED\<rparr>) st"

definition fail_with :: "sta_session_err \<Rightarrow> nat \<Rightarrow> stanet \<Rightarrow> stanet res" where
  "fail_with err a st = rbind (upd_ses a (\<lambda>s. s\<lparr>ss_err := err\<rparr>) st) (result_fail a)"

definition await_connect :: "os \<Rightarrow> nat \<Rightarrow> int \<Rightarrow> stanet \<Rightarrow> stanet res" where
  "await_connect e a fd st =
     (let (nready, st1) = st_sys e (SysSelect fd) st in
      if nready = 0 then result_fail a st1
      else if can_read e (st_world st1) fd \<and> can_write e (st_world st1) fd
      then let (r, st2) = st_sys e (SysSockError fd) st1 in
           if r < 0 then fail_with STA_SESSION_ERR_CONN a st2
           else if so_error e (st_world st2) = 0 then result_success e a fd st2
           else fail_with STA_SESSION_ERR_CONN a st2
      else if can_write e (st_world st1) fd then result_success e a fd st1
      else fail_with STA_SESSION_ERR_CONN a st1)"

definition connect_host :: "os \<Rightarrow> nat \<Rightarrow> int \<Rightarrow> stanet \<Rightarrow> stanet res" where
  "connect_host e a fd st =
     rbind (get_ses a st) (\<lambda>s.
     rbind (mem_str (ss_host s)) (\<lambda>host.
     let (r, st1) = st_sys e (SysAton host) st in
     if r < 0 then result_fail a st1 else
     let (he, st2) = st_sys e (SysResolve host) st1 in
     if he = 0 then fail_with STA_SESSION_ERR_HOST a st2 else
     let (r, st3) = st_sys e (SysConnect fd (ss_port s)) st2 in
     if r < 0 \<and> errno e (SysConnect fd (ss_port s)) (st_world st2) \<noteq> EINPROGRESS then fail_with STA_SESSION_ERR_CONN a st3
     else await_connect e a fd st3))"

definition set_nonblocking :: "os \<Rightarrow> nat \<Rightarrow> int \<Rightarrow> stanet \<Rightarrow> stanet res" where
  "set_nonblocking e a fd st =
     (let (flags, st1) = st_sys e (SysFcntl fd F_GETFL 0) st in
      if flags < 0 then result_fail a st1 else
      let (r, st2) = st_sys e (SysFcntl fd F_SETFL (flags OR O_NONBLOCK)) st1 in
      if r < 0 then result_fail a st2
      else connect_host e a fd st2)"

definition socket_open :: "os \<Rightarrow> nat \<Rightarrow> stanet \<Rightarrow> stanet res" where
  "socket_open e a st =
     rbind (upd_ses a (\<lambda>s. s\<lparr>ss_state := STA_SESSION_STATE_OPENING\<rparr>) st) (\<lambda>st0.
     let (fd, st1) = st_sys e (SysSocket AF_INET 1 0) st0 in
     if fd < 0 then rbind (upd_ses a (\<lambda>s. s\<lparr>ss_sockfd := -1\<rparr>) st1) (result_fail a)
     else rbind (upd_ses a (\<lambda>s. s\<lparr>ss_sockfd := fd\<rparr>) st1) (set_nonblocking e a fd))"

section \<open>The session thread\<close>

text \<open>\<open>while(msg->data[i] != ':') i++\<close>, counting from the position of the list's head.\<close>

fun find_colon :: "byte list \<Rightarrow> nat res" where
  "find_colon [] = Inl OutOfBounds"
| "find_colon (b # bs) = (if b = 0x3A then Inr 0 else rmap Suc (find_colon bs))"

definition handle_open :: "os \<Rightarrow> nat \<Rightarrow> sta_msg \<Rightarrow> stanet \<Rightarrow> stanet res" where
  "handle_open e a msg st =
     rbind (get_ses a st) (\<lambda>s.
     rbind (find_colon (msg_data msg)) (\<lambda>i.
     rbind (wr_bytes (ss_host s) 0 (take i (msg_data msg))) (\<lambda>host.
     rbind (atoi (drop (Suc i) (msg_data msg))) (\<lambda>port.
     let st1 = put_ses a (s\<lparr>ss_host := host, ss_port := port\<rparr>) st in
     rbind (if port > 0 then socket_open e a st1 else Inr st1) (\<lambda>st2.
     rbind (get_ses a st2) (\<lambda>s2.
     if ss_state s2 = STA_SESSION_STATE_OPENED
     then Inr (qmi_session_callback (ss_id s2) STA_MSG_SOCKET_OPEN STA_SESSION_ERR_SUCCESS None 0 st2)
     else session_reset e a (qmi_session_callback (-1) STA_MSG_SOCKET_OPEN (ss_err s2) None 0 st2)))))))"

text \<open>The write loop: the count, whether it stopped with an error, and the calls.  It tries
  again after \<open>EWOULDBLOCK\<close> and after an answer 0, so it may run for ever (None).\<close>

partial_function (option) write_loop ::
    "os \<Rightarrow> int \<Rightarrow> byte list \<Rightarrow> int \<Rightarrow> int \<Rightarrow> world \<Rightarrow> (int \<times> bool \<times> world) option" where
  "write_loop e fd data len count w =
     (if \<not> count < len then Some (count, False, w)
      else let c = SysWrite fd (take (nat (len - count)) (drop (nat count) data));
               r = answer e w c; w1 = (c, r) # w
           in if r < 0 then (if errno e c w = EWOULDBLOCK then write_loop e fd data len count w1
                             else Some (count, True, w1))
              else if r = 0 then write_loop e fd data len count w1
              else write_loop e fd data len (count + r) w1)"

definition handle_write :: "os \<Rightarrow> nat \<Rightarrow> sta_msg \<Rightarrow> stanet \<Rightarrow> stanet res" where
  "handle_write e a msg st =
     rbind (get_ses a st) (\<lambda>s.
     case write_loop e (ss_sockfd s) (msg_data msg) (data_len msg) 0 (st_world st) of
       None \<Rightarrow> Inl Diverges
     | Some (count, failed, w) \<Rightarrow>
         let s1 = (if failed then s\<lparr>ss_err := STA_SESSION_ERR_UNKNOWN\<rparr> else s);
             st1 = put_ses a s1 (st\<lparr>st_world := w\<rparr>)
         in Inr (qmi_session_callback (ss_id s) STA_MSG_SOCKET_WRITE
              (if count = data_len msg then STA_SESSION_ERR_SUCCESS else ss_err s1) None count st1))"

partial_function (option) read_loop ::
    "os \<Rightarrow> int \<Rightarrow> int \<Rightarrow> byte list \<Rightarrow> world \<Rightarrow> (byte list \<times> bool \<times> world) option" where
  "read_loop e fd len got w =
     (if \<not> int (length got) < len then Some (got, False, w)
      else let c = SysRead fd (nat (len - int (length got)));
               r = answer e w c; w1 = (c, r) # w
           in if r < 0 then (if errno e c w = EWOULDBLOCK then read_loop e fd len got w1
                             else Some (got, True, w1))
              else if r = 0 then Some (got, False, w1)
              else read_loop e fd len (got @ take (nat r) (data_of e w c)) w1)"

declare write_loop.simps [code] read_loop.simps [code]

text \<open>A negative size is far more than can be allocated.  The callback gets the bytes read and
  the zero behind them.\<close>

definition handle_read :: "os \<Rightarrow> nat \<Rightarrow> sta_msg \<Rightarrow> stanet \<Rightarrow> stanet res" where
  "handle_read e a msg st =
     rbind (get_ses a st) (\<lambda>s.
     case read_loop e (ss_sockfd s) (data_len msg) [] (st_world st) of
       None \<Rightarrow> Inl Diverges
     | Some (got, failed, w) \<Rightarrow>
         let s1 = (if failed then s\<lparr>ss_err := STA_SESSION_ERR_UNKNOWN\<rparr> else s);
             st1 = put_ses a s1 (st\<lparr>st_world := w\<rparr>);
             count = int (length got)
         in if data_len msg < -1 then Inl NullDeref
            else rbind (wr_bytes (replicate (nat (data_len msg + 1)) 0) 0 got) (\<lambda>buf.
                 rmap (\<lambda>buf'. qmi_session_callback (ss_id s) STA_MSG_SOCKET_READ
                         (if count = data_len msg then STA_SESSION_ERR_SUCCESS else ss_err s1)
                         (Some (take (Suc (length got)) buf')) count st1)
                   (wr_buf buf count 0)))"

definition handle_close :: "os \<Rightarrow> nat \<Rightarrow> stanet \<Rightarrow> stanet res" where
  "handle_close e a st =
     rbind (get_ses a st) (\<lambda>s.
       session_reset e a (qmi_session_callback (ss_id s) STA_MSG_SOCKET_CLOSE STA_SESSION_ERR_SUCCESS None 0 st))"

definition handle_msg :: "os \<Rightarrow> nat \<Rightarrow> sta_msg \<Rightarrow> stanet \<Rightarrow> stanet res" where
  "handle_msg e a msg st =
     (case msg_id msg of
        STA_MSG_SOCKET_OPEN \<Rightarrow> handle_open e a msg st
      | STA_MSG_SOCKET_WRITE \<Rightarrow> handle_write e a msg st
      | STA_MSG_SOCKET_READ \<Rightarrow> handle_read e a msg st
      | STA_MSG_SOCKET_CLOSE \<Rightarrow> handle_close e a st)"

text \<open>One round of the loop of \<open>thread_run\<close>, from the return of \<open>pthread_cond_wait\<close> to the
  next wait.  The log line prints the data as a string.\<close>

definition thread_round :: "os \<Rightarrow> nat \<Rightarrow> stanet \<Rightarrow> stanet res" where
  "thread_round e a st =
     rbind (msg_queue_pop a st) (\<lambda>(m, st1).
     rbind (get_cell m (msgs st1)) (\<lambda>c.
     case c_data c of
       None \<Rightarrow> Inl NullDeref
     | Some msg \<Rightarrow>
         rbind (mem_str (msg_data msg)) (\<lambda>_.
         rbind (handle_msg e a msg st1) (\<lambda>st2.
           upd_ses a (\<lambda>s. s\<lparr>ss_mode := Waiting\<rparr>) st2))))"

definition thread_start :: "nat \<Rightarrow> stanet \<Rightarrow> stanet res" where
  "thread_start a st = upd_ses a (\<lambda>s. s\<lparr>ss_mode := Waiting\<rparr>) st"

section \<open>The interface\<close>

text \<open>\<open>snprintf\<close> writes what fits and returns the full length; the zero goes to that length.\<close>

definition stanet_session_open :: "os \<Rightarrow> byte list option \<Rightarrow> int \<Rightarrow> stanet \<Rightarrow> (int \<times> stanet) res" where
  "stanet_session_open e host port st =
     (case host of
        None \<Rightarrow> Inr (-1, st)
      | Some h \<Rightarrow>
          if port \<le> 0 \<or> length h \<le> 0 \<or> length h > SESSION_HOST_MAX_LEN then Inr (-1, st)
          else rbind (session_get_usable st) (\<lambda>sid.
               if sid < 0 then Inr (-1, st)
               else let text = h @ [0x3A] @ dec_int port; len = length text in
                    rbind (wr_bytes (replicate (SESSION_HOST_MAX_LEN + 5) 0) 0
                             (take (SESSION_HOST_MAX_LEN + 4) text @ [0])) (\<lambda>str.
                    rbind (wr_buf str (int len) 0) (\<lambda>str'.
                    rmap (\<lambda>st1. (0, st1)) (send_msg e sid STA_MSG_SOCKET_OPEN (Some str') (int len) st)))))"

definition session_ready :: "sta_session \<Rightarrow> bool" where
  "session_ready s = (ss_state s = STA_SESSION_STATE_OPENED \<or> ss_state s = STA_SESSION_STATE_WRITING
     \<or> ss_state s = STA_SESSION_STATE_READING)"

text \<open>The common shape of the other three: check, set the state, send.\<close>

definition session_request :: "os \<Rightarrow> sta_session_state \<Rightarrow> sta_msg_id \<Rightarrow> int \<Rightarrow> byte list option \<Rightarrow> int \<Rightarrow>
    stanet \<Rightarrow> (int \<times> stanet) res" where
  "session_request e new mid sid data len st =
     rbind (session_get sid st) (\<lambda>session.
     case session of
       None \<Rightarrow> Inr (-1, st)
     | Some a \<Rightarrow>
         rbind (get_ses a st) (\<lambda>s.
         if \<not> session_ready s then Inr (-1, st)
         else rmap (\<lambda>st2. (0, st2)) (send_msg e sid mid data len (put_ses a (s\<lparr>ss_state := new\<rparr>) st))))"

definition stanet_session_write :: "os \<Rightarrow> int \<Rightarrow> byte list option \<Rightarrow> int \<Rightarrow> stanet \<Rightarrow> (int \<times> stanet) res" where
  "stanet_session_write e sid buf len st =
     session_request e STA_SESSION_STATE_WRITING STA_MSG_SOCKET_WRITE sid buf len st"

definition stanet_session_read :: "os \<Rightarrow> int \<Rightarrow> byte list option \<Rightarrow> int \<Rightarrow> stanet \<Rightarrow> (int \<times> stanet) res" where
  "stanet_session_read e sid buf len st =
     session_request e STA_SESSION_STATE_READING STA_MSG_SOCKET_READ sid None len st"

definition stanet_session_close :: "os \<Rightarrow> int \<Rightarrow> stanet \<Rightarrow> (int \<times> stanet) res" where
  "stanet_session_close e sid st =
     session_request e STA_SESSION_STATE_CLOSING STA_MSG_SOCKET_READ sid None 0 st"

section \<open>The client thread\<close>

definition http_header :: "byte list" where
  "http_header = bytes_of ''GET /httpdemo/http HTTP/1.1'' @ [0x0D, 0x0A] @ bytes_of ''Host: 192.168.1.224'' @
     [0x0D, 0x0A, 0x0D, 0x0A]"

text \<open>\<open>thread_run\<close> of the client between its sleeps.  \<open>stanet_qmi_init\<close> starts it.\<close>

definition qmi_open :: "os \<Rightarrow> stanet \<Rightarrow> stanet res" where
  "qmi_open e st = rmap snd (stanet_session_open e (Some (bytes_of ''192.168.1.224'')) 8182 st)"

text \<open>The result says whether the branch is taken; only then \<open>qmi_read\<close> follows.\<close>

definition qmi_write :: "os \<Rightarrow> stanet \<Rightarrow> (bool \<times> stanet) res" where
  "qmi_write e st =
     (if session_id_tmp st \<ge> 0
      then rmap (\<lambda>(_, st1). (True, st1))
             (stanet_session_write e (session_id_tmp st) (Some (http_header @ [0])) (int (length http_header)) st)
      else Inr (False, st))"

definition qmi_read :: "os \<Rightarrow> stanet \<Rightarrow> stanet res" where
  "qmi_read e st = rmap snd (stanet_session_read e (session_id_tmp st) None 1024 st)"

definition stanet_init :: "os \<Rightarrow> stanet res" where
  "stanet_init e = session_list_create e stanet0"

end
