(* ===== verification/Stanet_List.thy ===== *)
theory Stanet_List
  imports Stanet
begin

text \<open>
  The doubly linked list of sessions: the list predicate, and the list operations of the daemon
  as searching, inserting in front and removing.
\<close>

section \<open>Reading and writing sessions\<close>

named_theorems ses "reading back what was written to a session"

lemma get_put_ses [ses]: "get_ses a (put_ses b s st) = (if a = b then Inr s else get_ses a st)"
  by (simp add: get_ses_def put_ses_def)

lemma put_put_ses [ses]: "put_ses a s (put_ses a s' st) = put_ses a s st"
  by (simp add: put_ses_def)

lemma get_ses_world [ses]: "get_ses a (st\<lparr>st_world := w\<rparr>) = get_ses a st"
  by (simp add: get_ses_def)

lemma put_ses_world [ses]: "(put_ses a s st)\<lparr>st_world := w\<rparr> = put_ses a s (st\<lparr>st_world := w\<rparr>)"
  by (simp add: put_ses_def)

lemma put_ses_select [ses]:
  "st_world (put_ses a s st) = st_world st" "msgs (put_ses a s st) = msgs st"
  "session_list (put_ses a s st) = session_list st" "session_fresh (put_ses a s st) = session_fresh st"
  "callbacks (put_ses a s st) = callbacks st" "session_id_tmp (put_ses a s st) = session_id_tmp st"
  "session_at (put_ses a s st) = (session_at st)(a \<mapsto> s)"
  by (simp_all add: put_ses_def)

lemma st_sys_eq [ses]:
  "st_sys e c st = (answer e (st_world st) c, st\<lparr>st_world := (c, answer e (st_world st) c) # st_world st\<rparr>)"
  by (simp add: st_sys_def sys_def)

lemma upd_ses_eq [ses]: "session_at st a = Some s \<Longrightarrow> upd_ses a f st = Inr (put_ses a (f s) st)"
  by (simp add: upd_ses_def get_ses_def)

lemma get_ses_eq [ses]: "session_at st a = Some s \<Longrightarrow> get_ses a st = Inr s"
  by (simp add: get_ses_def)

section \<open>The list\<close>

primrec dll :: "(nat \<Rightarrow> sta_session option) \<Rightarrow> nat option \<Rightarrow> nat option \<Rightarrow> nat list \<Rightarrow> bool" where
  "dll h pre p [] = (p = None)"
| "dll h pre p (a # as) = (p = Some a \<and> (\<exists>s. h a = Some s \<and> ss_pre s = pre \<and> dll h (Some a) (ss_next s) as))"

definition sessions_inv :: "stanet \<Rightarrow> nat list \<Rightarrow> bool" where
  "sessions_inv st as \<longleftrightarrow> dll (session_at st) None (session_list st) as \<and> distinct as
     \<and> (\<forall>a \<in> set as. a < session_fresh st)"

text \<open>The abstract list: the sessions in order.\<close>

definition session_seq :: "stanet \<Rightarrow> nat list \<Rightarrow> sta_session list" where
  "session_seq st as = map (\<lambda>a. the (session_at st a)) as"

lemma dll_alive: "dll h pre p as \<Longrightarrow> a \<in> set as \<Longrightarrow> \<exists>s. h a = Some s"
  by (induction as arbitrary: pre p) auto

text \<open>The list only depends on the links.\<close>

lemma dll_cong:
  "dll h pre p as \<Longrightarrow>
   (\<And>a. a \<in> set as \<Longrightarrow> map_option (\<lambda>s. (ss_pre s, ss_next s)) (h' a) = map_option (\<lambda>s. (ss_pre s, ss_next s)) (h a)) \<Longrightarrow>
   dll h' pre p as"
proof (induction as arbitrary: pre p)
  case (Cons a as)
  from Cons.prems(1) obtain s where s: "p = Some a" "h a = Some s" "ss_pre s = pre" "dll h (Some a) (ss_next s) as" by auto
  moreover obtain s' where "h' a = Some s'" "ss_pre s' = ss_pre s" "ss_next s' = ss_next s"
    using Cons.prems(2) [of a] s(2) by (cases "h' a") auto
  moreover have "dll h' (Some a) (ss_next s) as" using Cons.IH [OF s(4)] Cons.prems(2) by auto
  ultimately show ?case by auto
qed simp

lemma dll_upd_other: "a \<notin> set as \<Longrightarrow> dll (h(a := x)) pre p as = dll h pre p as"
  by (induction as arbitrary: pre p) auto

lemma length_bound: "distinct as \<Longrightarrow> \<forall>a \<in> set as. a < (n :: nat) \<Longrightarrow> length as \<le> n"
  by (rule bounded_count)

section \<open>Searching\<close>

lemma session_get_loop_find:
  "dll (session_at st) pre p as \<Longrightarrow> length as \<le> fuel \<Longrightarrow>
   session_get_loop fuel sid p st = Inr (find (\<lambda>a. ss_id (the (session_at st a)) = sid) as)"
proof (induction as arbitrary: pre p fuel)
  case (Cons a as)
  then show ?case by (cases fuel) (auto simp: get_ses_def)
qed simp

lemma session_get_find:
  "sessions_inv st as \<Longrightarrow> session_get sid st = Inr (find (\<lambda>a. ss_id (the (session_at st a)) = sid) as)"
  unfolding session_get_def sessions_inv_def by (blast intro: session_get_loop_find length_bound)

lemma session_usable_loop_find:
  "dll (session_at st) pre p as \<Longrightarrow> length as \<le> fuel \<Longrightarrow>
   session_usable_loop fuel p st =
     Inr (case find (\<lambda>s. ss_state s = STA_SESSION_STATE_UNUSED) (session_seq st as) of None \<Rightarrow> -1 | Some s \<Rightarrow> ss_id s)"
proof (induction as arbitrary: pre p fuel)
  case (Cons a as)
  then show ?case by (cases fuel) (auto simp: get_ses_def session_seq_def)
qed (simp add: session_seq_def)

lemma session_get_usable_find:
  "sessions_inv st as \<Longrightarrow> session_get_usable st =
     Inr (case find (\<lambda>s. ss_state s = STA_SESSION_STATE_UNUSED) (session_seq st as) of None \<Rightarrow> -1 | Some s \<Rightarrow> ss_id s)"
  unfolding session_get_usable_def sessions_inv_def by (blast intro: session_usable_loop_find length_bound)

section \<open>Inserting\<close>

lemma session_add_Cons:
  assumes inv: "sessions_inv st as" and a: "session_at st a = Some s" "a \<notin> set as" "a < session_fresh st"
  shows "\<exists>st'. session_add a st = Inr st' \<and> sessions_inv st' (a # as) \<and> session_fresh st' = session_fresh st
    \<and> msgs st' = msgs st \<and> st_world st' = st_world st
    \<and> (\<forall>b. map_option (\<lambda>s. s\<lparr>ss_pre := None, ss_next := None\<rparr>) (session_at st' b)
         = map_option (\<lambda>s. s\<lparr>ss_pre := None, ss_next := None\<rparr>) (session_at st b))"
proof (cases as)
  case Nil
  with inv have "session_list st = None" by (simp add: sessions_inv_def)
  then show ?thesis using a Nil by (simp add: session_add_def sessions_inv_def ses)
next
  case (Cons b bs)
  with inv obtain sb where b: "session_list st = Some b" "session_at st b = Some sb" "ss_pre sb = None"
    "dll (session_at st) (Some b) (ss_next sb) bs" "distinct as" "\<forall>a \<in> set as. a < session_fresh st"
    by (auto simp: sessions_inv_def)
  let ?st1 = "put_ses a (s\<lparr>ss_pre := None, ss_next := Some b\<rparr>) st"
  let ?st2 = "put_ses b (sb\<lparr>ss_pre := Some a\<rparr>) ?st1"
  have ab: "a \<noteq> b" "b \<notin> set bs" "a \<notin> set bs" using a(2) b(5) Cons by auto
  have "session_add a st = Inr (?st2\<lparr>session_list := Some a\<rparr>)"
    using a(1) b(1,2) ab by (simp add: session_add_def upd_ses_def ses)
  moreover have "dll (session_at ?st2) (Some b) (ss_next sb) bs"
    using b(4) ab by (simp add: ses dll_upd_other)
  ultimately show ?thesis
    using ab b a Cons by (auto simp: sessions_inv_def ses)
qed

section \<open>Removing\<close>

lemma dll_links:
  assumes "dll h pre p as" "i < length as"
  shows "\<exists>s. h (as ! i) = Some s \<and> ss_pre s = (if i = 0 then pre else Some (as ! (i - 1)))
    \<and> ss_next s = (if Suc i < length as then Some (as ! Suc i) else None)"
  using assms
proof (induction as arbitrary: pre p i)
  case (Cons a as)
  from Cons.prems(1) obtain s where s: "h a = Some s" "ss_pre s = pre" "dll h (Some a) (ss_next s) as" by auto
  show ?case
  proof (cases i)
    case 0
    then show ?thesis using s by (cases as) auto
  next
    case (Suc j)
    then show ?thesis using Cons.IH [OF s(3), of j] Cons.prems(2) by (cases j) auto
  qed
qed simp

text \<open>Removing the node behind a prefix: the list without it, given the updated neighbours.\<close>

lemma dll_remove:
  assumes "dll h pre p (bs @ a # cs)" "distinct (bs @ a # cs)" "h a = Some s"
    "\<And>x. x \<in> set bs \<union> set cs \<Longrightarrow>
       map_option (\<lambda>s. (ss_pre s, ss_next s)) (h' x) =
       map_option (\<lambda>t. (if cs \<noteq> [] \<and> x = hd cs then (if bs = [] then pre else Some (last bs)) else ss_pre t,
                        if bs \<noteq> [] \<and> x = last bs then ss_next s else ss_next t)) (h x)"
  shows "dll h' pre (if bs = [] then ss_next s else p) (bs @ cs)"
  using assms
proof (induction bs arbitrary: pre p)
  case Nil
  then have s: "p = Some a" "ss_pre s = pre" "dll h (Some a) (ss_next s) cs" by auto
  show ?case
  proof (cases cs)
    case Nil
    then show ?thesis using s by simp
  next
    case (Cons c ds)
    then obtain t where t: "h c = Some t" "ss_next s = Some c" "dll h (Some c) (ss_next t) ds" using s(3) by auto
    from Nil.prems(4) [of c] Cons t obtain t' where "h' c = Some t'" "ss_pre t' = pre" "ss_next t' = ss_next t"
      by auto
    moreover have "dll h' (Some c) (ss_next t) ds"
    proof (rule dll_cong [OF t(3)])
      fix x assume x: "x \<in> set ds"
      then have "x \<noteq> c" using Nil.prems(2) Cons by auto
      with x show "map_option (\<lambda>s. (ss_pre s, ss_next s)) (h' x) = map_option (\<lambda>s. (ss_pre s, ss_next s)) (h x)"
        using Nil.prems(4) [of x] Cons by simp
    qed
    ultimately show ?thesis using Cons t by auto
  qed
next
  case (Cons b bs)
  then obtain t where t: "p = Some b" "h b = Some t" "ss_pre t = pre" "dll h (Some b) (ss_next t) (bs @ a # cs)" by auto
  have nb: "b \<notin> set bs" "b \<notin> set cs" "b \<noteq> a" using Cons.prems(2) by auto
  have hdcs: "cs \<noteq> [] \<Longrightarrow> b \<noteq> hd cs" using nb(2) by (cases cs) auto
  from Cons.prems(4) [of b] t(2) hdcs obtain t' where t': "h' b = Some t'" "ss_pre t' = pre"
    "ss_next t' = (if bs = [] then ss_next s else ss_next t)"
    using nb(1) t(3) by (auto split: if_splits)
  have "dll h' (Some b) (if bs = [] then ss_next s else ss_next t) (bs @ cs)"
  proof (rule Cons.IH [OF t(4) _ Cons.prems(3)])
    show "distinct (bs @ a # cs)" using Cons.prems(2) by simp
    fix x assume x: "x \<in> set bs \<union> set cs"
    then have "x \<noteq> b" using nb by auto
    then show "map_option (\<lambda>s. (ss_pre s, ss_next s)) (h' x) =
       map_option (\<lambda>t. (if cs \<noteq> [] \<and> x = hd cs then (if bs = [] then Some b else Some (last bs)) else ss_pre t,
                        if bs \<noteq> [] \<and> x = last bs then ss_next s else ss_next t)) (h x)"
      using Cons.prems(4) [of x] x by (cases "bs = []"; cases "h x"; auto)
  qed
  with t(1) t' show ?case by auto
qed

text \<open>The four cases of unlinking write exactly those neighbours.\<close>

lemma session_unlink_links:
  assumes inv: "sessions_inv st (bs @ a # cs)" and s: "session_at st a = Some s"
  shows "\<exists>st'. session_unlink s st = Inr st'
    \<and> session_list st' = (if bs = [] then ss_next s else session_list st)
    \<and> session_fresh st' = session_fresh st \<and> msgs st' = msgs st \<and> st_world st' = st_world st
    \<and> (\<forall>x. session_at st' x = map_option (\<lambda>t. t\<lparr>
          ss_pre := (if cs \<noteq> [] \<and> x = hd cs then (if bs = [] then None else Some (last bs)) else ss_pre t),
          ss_next := (if bs \<noteq> [] \<and> x = last bs then ss_next s else ss_next t)\<rparr>) (session_at st x))"
proof -
  let ?as = "bs @ a # cs"
  have d: "dll (session_at st) None (session_list st) ?as" and dist: "distinct ?as"
    using inv by (simp_all add: sessions_inv_def)
  have links: "ss_pre s = (if bs = [] then None else Some (last bs))" "ss_next s = (if cs = [] then None else Some (hd cs))"
    using dll_links [OF d, of "length bs"] s
    by (auto simp: nth_append last_conv_nth hd_conv_nth)
  have pre: "\<exists>t. session_at st (last bs) = Some t" if "bs \<noteq> []"
    using dll_alive [OF d, of "last bs"] that by simp
  have nxt: "\<exists>t. session_at st (hd cs) = Some t" if "cs \<noteq> []"
    using dll_alive [OF d, of "hd cs"] that by simp
  have ne: "last bs \<noteq> hd cs" if "bs \<noteq> []" "cs \<noteq> []"
    using dist that by (metis IntI distinct_append empty_iff hd_in_set last_in_set list.set_intros(2))
  show ?thesis
  proof (cases "bs = []")
    case True
    then show ?thesis using links nxt
      by (cases "cs = []") (auto simp: session_unlink_def upd_ses_def get_ses_def put_ses_def option.map_ident)
  next
    case False
    then show ?thesis using links nxt pre ne
      by (cases "cs = []") (auto simp: session_unlink_def upd_ses_def get_ses_def put_ses_def option.map_ident)
  qed
qed

lemma session_del_loop_skip:
  "dll (session_at st) pre p (bs @ cs) \<Longrightarrow> \<forall>b \<in> set bs. ss_id (the (session_at st b)) \<noteq> sid \<Longrightarrow>
   length bs \<le> fuel \<Longrightarrow>
   session_del_loop fuel sid p st =
     session_del_loop (fuel - length bs) sid (if cs = [] then None else Some (hd cs)) st"
proof (induction bs arbitrary: pre p fuel)
  case Nil
  then show ?case by (cases cs) auto
next
  case (Cons b bs)
  then obtain n where "fuel = Suc n" by (cases fuel) auto
  with Cons show ?case by (auto simp: get_ses_def)
qed

lemma sessions_inv_remove:
  assumes inv: "sessions_inv st (bs @ a # cs)" and s: "session_at st a = Some s"
  shows "\<exists>st1. session_unlink s st = Inr st1
    \<and> sessions_inv (st1\<lparr>session_at := (session_at st1)(a := None)\<rparr>) (bs @ cs)
    \<and> session_fresh st1 = session_fresh st \<and> msgs st1 = msgs st \<and> st_world st1 = st_world st
    \<and> (\<forall>x. map_option (\<lambda>s. s\<lparr>ss_pre := None, ss_next := None\<rparr>) (session_at st1 x)
         = map_option (\<lambda>s. s\<lparr>ss_pre := None, ss_next := None\<rparr>) (session_at st x))"
proof -
  obtain st1 where st1: "session_unlink s st = Inr st1"
    "session_list st1 = (if bs = [] then ss_next s else session_list st)"
    "session_fresh st1 = session_fresh st" "msgs st1 = msgs st" "st_world st1 = st_world st"
    and at: "\<And>x. session_at st1 x = map_option (\<lambda>t. t\<lparr>
          ss_pre := (if cs \<noteq> [] \<and> x = hd cs then (if bs = [] then None else Some (last bs)) else ss_pre t),
          ss_next := (if bs \<noteq> [] \<and> x = last bs then ss_next s else ss_next t)\<rparr>) (session_at st x)"
    using session_unlink_links [OF assms] by blast
  have d: "dll (session_at st) None (session_list st) (bs @ a # cs)" and dist: "distinct (bs @ a # cs)"
    using inv by (simp_all add: sessions_inv_def)
  have "dll ((session_at st1)(a := None)) None (if bs = [] then ss_next s else session_list st) (bs @ cs)"
  proof (rule dll_remove [OF d dist s])
    fix x assume "x \<in> set bs \<union> set cs"
    then have "x \<noteq> a" using dist by auto
    then show "map_option (\<lambda>s. (ss_pre s, ss_next s)) (((session_at st1)(a := None)) x) =
       map_option (\<lambda>t. (if cs \<noteq> [] \<and> x = hd cs then (if bs = [] then None else Some (last bs)) else ss_pre t,
                        if bs \<noteq> [] \<and> x = last bs then ss_next s else ss_next t)) (session_at st x)"
      by (cases "session_at st x") (simp_all add: at)
  qed
  then have "sessions_inv (st1\<lparr>session_at := (session_at st1)(a := None)\<rparr>) (bs @ cs)"
    using inv st1(2,3) by (auto simp: sessions_inv_def)
  moreover have "map_option (\<lambda>s. s\<lparr>ss_pre := None, ss_next := None\<rparr>) (session_at st1 x)
         = map_option (\<lambda>s. s\<lparr>ss_pre := None, ss_next := None\<rparr>) (session_at st x)" for x
    by (cases "session_at st x") (simp_all add: at)
  ultimately show ?thesis using st1 by blast
qed

lemma session_del_removes:
  assumes inv: "sessions_inv st as" and s: "session_at st a = Some s" "a \<in> set as" "ss_id s \<noteq> -1"
    and ids: "distinct (map ss_id (session_seq st as))"
  shows "\<exists>st'. session_del (Some a) st = Inr (True, st') \<and> sessions_inv st' (remove1 a as)
    \<and> session_at st' a = None
    \<and> (\<forall>x. x \<noteq> a \<longrightarrow> map_option (\<lambda>s. s\<lparr>ss_pre := None, ss_next := None\<rparr>) (session_at st' x)
         = map_option (\<lambda>s. s\<lparr>ss_pre := None, ss_next := None\<rparr>) (session_at st x))"
proof -
  obtain bs cs where as: "as = bs @ a # cs" using s(2) by (meson split_list)
  obtain st1 where st1: "session_unlink s st = Inr st1"
    "sessions_inv (st1\<lparr>session_at := (session_at st1)(a := None)\<rparr>) (bs @ cs)"
    "\<And>x. map_option (\<lambda>s. s\<lparr>ss_pre := None, ss_next := None\<rparr>) (session_at st1 x)
         = map_option (\<lambda>s. s\<lparr>ss_pre := None, ss_next := None\<rparr>) (session_at st x)"
    using sessions_inv_remove [of st bs a cs s] inv s(1) as by blast
  have d: "dll (session_at st) None (session_list st) (bs @ a # cs)" and dist: "distinct as"
    using inv as by (simp_all add: sessions_inv_def)
  have other: "\<forall>b \<in> set bs. ss_id (the (session_at st b)) \<noteq> ss_id s"
    using ids s(1) as by (auto simp: session_seq_def image_iff)
  have len: "length bs < session_fresh st"
    using length_bound [OF dist, of "session_fresh st"] inv as by (auto simp: sessions_inv_def)
  have "session_del_loop (session_fresh st) (ss_id s) (session_list st) st
      = session_del_loop (session_fresh st - length bs) (ss_id s) (Some a) st"
    using session_del_loop_skip [OF d other] len by simp
  also have "\<dots> = Inr (True, st1\<lparr>session_at := (session_at st1)(a := None)\<rparr>)"
    using len s(1) st1(1) by (cases "session_fresh st - length bs") (auto simp: get_ses_def)
  finally have loop: "session_del_loop (session_fresh st) (ss_id s) (session_list st) st = \<dots>" .
  obtain p where p: "session_list st = Some p" using d by (cases bs) auto
  have "remove1 a as = bs @ cs" using dist as by (simp add: remove1_append)
  then show ?thesis
    using st1 p loop s(1,3) as by (auto simp: session_del_def get_ses_def)
qed

end
