(* ===== verification/Stanet_Queue.thy ===== *)
theory Stanet_Queue
  imports Stanet_List
begin

text \<open>
  The message queues of the sessions: every session's nodes form a chain, the chains share no
  node, and putting, taking and clearing are appending, removing the head and emptying.
\<close>

section \<open>Invariant\<close>

text \<open>\<open>Q a\<close> are the nodes and \<open>D a\<close> the messages queued for the session at \<open>a\<close>.\<close>

definition msgs_inv :: "stanet \<Rightarrow> (nat \<Rightarrow> nat list) \<Rightarrow> (nat \<Rightarrow> sta_msg list) \<Rightarrow> bool" where
  "msgs_inv st Q D \<longleftrightarrow>
     (\<forall>a s. session_at st a = Some s \<longrightarrow> chain (msgs st) (ss_msg_q s) (Q a) (D a))
     \<and> (\<forall>a. distinct (Q a) \<and> (\<forall>m \<in> set (Q a). m < cell_fresh (msgs st)))
     \<and> (\<forall>a b. a \<noteq> b \<longrightarrow> set (Q a) \<inter> set (Q b) = {})"

lemma msgs_inv_cong:
  assumes inv: "msgs_inv st Q D"
    and q: "\<And>a. map_option ss_msg_q (session_at st' a) = map_option ss_msg_q (session_at st a)"
    and m: "msgs st' = msgs st"
  shows "msgs_inv st' Q D"
proof -
  have "chain (msgs st) (ss_msg_q s) (Q a) (D a)" if "session_at st' a = Some s" for a s
  proof -
    from q [of a] that obtain s0 where "session_at st a = Some s0" "ss_msg_q s0 = ss_msg_q s"
      by (cases "session_at st a") auto
    with inv show ?thesis by (metis msgs_inv_def)
  qed
  with inv m show ?thesis by (simp add: msgs_inv_def)
qed

lemma msgs_inv_put_ses:
  "msgs_inv st Q D \<Longrightarrow> session_at st a = Some s \<Longrightarrow> ss_msg_q s' = ss_msg_q s \<Longrightarrow> msgs_inv (put_ses a s' st) Q D"
  by (erule msgs_inv_cong) (auto simp: ses)

lemma msgs_inv_chain:
  "msgs_inv st Q D \<Longrightarrow> session_at st a = Some s \<Longrightarrow> chain (msgs st) (ss_msg_q s) (Q a) (D a)"
  by (auto simp: msgs_inv_def)

text \<open>Replacing the queue of one session.\<close>

lemma msgs_inv_update:
  assumes inv: "msgs_inv st Q D" and s: "session_at st a = Some s"
    and chain: "chain h (ss_msg_q s') ms ds" and dist: "distinct ms" "\<forall>m \<in> set ms. m < cell_fresh h"
    and fresh: "cell_fresh (msgs st) \<le> cell_fresh h"
    and disj: "\<And>b. b \<noteq> a \<Longrightarrow> set (Q b) \<inter> set ms = {}"
    and frame: "\<And>b x. b \<noteq> a \<Longrightarrow> x \<in> set (Q b) \<Longrightarrow> cell_at h x = cell_at (msgs st) x"
  shows "msgs_inv (put_ses a s' (st\<lparr>msgs := h\<rparr>)) (Q(a := ms)) (D(a := ds))"
proof -
  have same: "chain h p as es = chain (msgs st) p as es" if "\<forall>x \<in> set as. cell_at h x = cell_at (msgs st) x" for p as es
    using that by (induction as arbitrary: p es) auto
  have "chain h (ss_msg_q t) (Q b) (D b)" if "b \<noteq> a" "session_at st b = Some t" for b t
    using msgs_inv_chain [OF inv that(2)] frame [OF that(1)] same by blast
  then have "\<forall>b t. session_at (put_ses a s' (st\<lparr>msgs := h\<rparr>)) b = Some t \<longrightarrow>
      chain h (ss_msg_q t) ((Q(a := ms)) b) ((D(a := ds)) b)"
    using chain by (auto simp: ses)
  moreover have "distinct ((Q(a := ms)) b) \<and> (\<forall>m \<in> set ((Q(a := ms)) b). m < cell_fresh h)" for b
    using inv dist order_less_le_trans [OF _ fresh] unfolding msgs_inv_def by auto
  moreover have "set ((Q(a := ms)) b) \<inter> set ((Q(a := ms)) c) = {}" if "b \<noteq> c" for b c
    using inv disj that unfolding msgs_inv_def by (cases "b = a"; cases "c = a") (auto simp: Int_commute)
  ultimately show ?thesis by (simp add: msgs_inv_def ses)
qed

section \<open>Taking a message\<close>

lemma msg_queue_pop_head:
  assumes inv: "msgs_inv st Q D" and s: "session_at st a = Some s" and d: "D a = msg # ds"
  shows "\<exists>m q h. msg_queue_pop a st = Inr (m, put_ses a (s\<lparr>ss_msg_q := q\<rparr>) (st\<lparr>msgs := h\<rparr>))
    \<and> get_cell m h = Inr \<lparr>c_next = None, c_data = Some msg\<rparr>
    \<and> msgs_inv (put_ses a (s\<lparr>ss_msg_q := q\<rparr>) (st\<lparr>msgs := h\<rparr>)) (Q(a := tl (Q a))) (D(a := ds))
    \<and> cell_fresh h = cell_fresh (msgs st)"
proof -
  have ch: "chain (msgs st) (ss_msg_q s) (Q a) (msg # ds)" using msgs_inv_chain [OF inv s] d by simp
  then obtain m ms where q: "Q a = m # ms" by (cases "Q a") auto
  with ch obtain c where c: "ss_msg_q s = Some m" "cell_at (msgs st) m = Some c" "c_data c = Some msg"
    "chain (msgs st) (c_next c) ms ds" by auto
  let ?h = "put_cell m (c\<lparr>c_next := None\<rparr>) (msgs st)"
  have dist: "distinct (m # ms)" and low: "\<forall>x \<in> set (m # ms). x < cell_fresh (msgs st)"
    using inv q unfolding msgs_inv_def by (metis, metis)
  have disj: "set (Q b) \<inter> set (m # ms) = {}" if "b \<noteq> a" for b
    using inv q that unfolding msgs_inv_def by metis
  have "chain ?h (c_next c) ms ds" using c(4) dist by (simp add: chain_other)
  then have "msgs_inv (put_ses a (s\<lparr>ss_msg_q := c_next c\<rparr>) (st\<lparr>msgs := ?h\<rparr>)) (Q(a := ms)) (D(a := ds))"
    using dist low disj by (intro msgs_inv_update [OF inv s]) (fastforce simp: put_cell_def)+
  moreover have "get_cell m ?h = Inr \<lparr>c_next = None, c_data = Some msg\<rparr>"
    using c(3) by (cases c) (simp add: get_cell_def put_cell_def)
  moreover have "msg_queue_pop a st = Inr (m, put_ses a (s\<lparr>ss_msg_q := c_next c\<rparr>) (st\<lparr>msgs := ?h\<rparr>))"
    using s c by (simp add: msg_queue_pop_def ses get_cell_def)
  moreover have "cell_fresh ?h = cell_fresh (msgs st)" by (simp add: put_cell_def)
  ultimately show ?thesis using q by (metis list.sel(3))
qed

lemma msg_queue_pop_empty:
  assumes "msgs_inv st Q D" "session_at st a = Some s" "D a = []"
  shows "msg_queue_pop a st = Inl NullDeref"
proof -
  have "chain (msgs st) (ss_msg_q s) (Q a) []" using msgs_inv_chain [OF assms(1,2)] assms(3) by simp
  then have "ss_msg_q s = None" by (cases "Q a") auto
  then show ?thesis using assms(2) by (simp add: msg_queue_pop_def ses)
qed

section \<open>Putting a message\<close>

lemma chain_cell: "chain h p as ds \<Longrightarrow> x \<in> set as \<Longrightarrow> \<exists>c. cell_at h x = Some c"
  by (induction as arbitrary: p ds) auto

text \<open>Appending a new node behind the last one.\<close>

lemma chain_snoc:
  assumes "chain h p as ds" "distinct as" "as \<noteq> []" "m \<notin> set as"
    "cell_at h m = Some \<lparr>c_next = None, c_data = Some d\<rparr>" "cell_at h (last as) = Some l"
  shows "chain (put_cell (last as) (l\<lparr>c_next := Some m\<rparr>) h) p (as @ [m]) (ds @ [d])"
proof -
  obtain b bs where as: "as = b # bs" using assms(3) by (cases as) auto
  with assms(1) obtain c db ds' where c: "p = Some b" "cell_at h b = Some c" "c_data c = Some db" "ds = db # ds'"
    "chain h (c_next c) bs ds'" by auto
  have "distinct (b # bs)" "m \<notin> set (b # bs)" using assms(2,4) as by simp_all
  from chain_append [OF c(2,5) this assms(5), of l, OF _ refl] assms(6) as
  obtain c' where c': "cell_at (put_cell (last as) (l\<lparr>c_next := Some m\<rparr>) h) b = Some c'"
    "chain (put_cell (last as) (l\<lparr>c_next := Some m\<rparr>) h) (c_next c') (bs @ [m]) (ds' @ [d])" by auto
  have "c_data c' = Some db"
    using c'(1) c(2,3) assms(6) as by (auto simp: put_cell_def split: if_splits)
  with c' c as show ?thesis by auto
qed

lemma msg_queue_put_append:
  assumes inv: "msgs_inv st Q D" and s: "session_at st a = Some s"
    and m: "cell_at (msgs st) m = Some \<lparr>c_next = None, c_data = Some msg\<rparr>" "\<And>b. m \<notin> set (Q b)" "m < cell_fresh (msgs st)"
  shows "\<exists>q h. msg_queue_put (Some a) m st
      = Inr (put_ses a (s\<lparr>ss_mode := cond_signal (ss_mode s), ss_msg_q := q\<rparr>) (st\<lparr>msgs := h\<rparr>))
    \<and> msgs_inv (put_ses a (s\<lparr>ss_mode := cond_signal (ss_mode s), ss_msg_q := q\<rparr>) (st\<lparr>msgs := h\<rparr>))
        (Q(a := Q a @ [m])) (D(a := D a @ [msg]))
    \<and> cell_fresh h = cell_fresh (msgs st)"
proof -
  let ?s = "\<lambda>q. s\<lparr>ss_mode := cond_signal (ss_mode s), ss_msg_q := q\<rparr>"
  have ch: "chain (msgs st) (ss_msg_q s) (Q a) (D a)" using msgs_inv_chain [OF inv s] .
  have dist: "distinct (Q a)" and low: "\<forall>x \<in> set (Q a). x < cell_fresh (msgs st)"
    using inv unfolding msgs_inv_def by blast+
  have disj: "set (Q b) \<inter> set (Q a @ [m]) = {}" if "b \<noteq> a" for b
    using inv m(2) that unfolding msgs_inv_def by auto
  have same: "put_cell m (\<lparr>c_next = None, c_data = Some msg\<rparr>\<lparr>c_next := None\<rparr>) (msgs st) = msgs st"
    using m(1) by (simp add: put_cell_def fun_upd_idem)
  show ?thesis
  proof (cases "ss_msg_q s")
    case None
    then have q: "Q a = []" "D a = []" using ch by (cases "Q a"; auto)+
    have "msgs_inv (put_ses a (?s (Some m)) (st\<lparr>msgs := msgs st\<rparr>)) (Q(a := [m])) (D(a := [msg]))"
      using m disj q by (intro msgs_inv_update [OF inv s]) auto
    moreover have "msg_queue_put (Some a) m st = Inr (put_ses a (?s (Some m)) (st\<lparr>msgs := msgs st\<rparr>))"
      using s m(1) None same by (simp add: msg_queue_put_def ses get_cell_def Let_def)
    ultimately show ?thesis using q by (intro exI [of _ "Some m"] exI [of _ "msgs st"]) simp
  next
    case (Some b)
    then obtain bs where q: "Q a = b # bs" using ch by (cases "Q a") auto
    obtain l where l: "cell_at (msgs st) (last (Q a)) = Some l" using chain_cell [OF ch last_in_set] q by auto
    let ?h = "put_cell (last (Q a)) (l\<lparr>c_next := Some m\<rparr>) (msgs st)"
    obtain c ds where c: "cell_at (msgs st) b = Some c" "chain (msgs st) (c_next c) bs ds" using ch q by auto
    have "length bs < cell_fresh (msgs st)" using bounded_count [OF dist low] q by simp
    then have last: "last_cell (cell_fresh (msgs st)) b (msgs st) = Inr (last (Q a))"
      using last_cell_chain [OF c] q by simp
    have rec: "?s (Some b) = s\<lparr>ss_mode := cond_signal (ss_mode s)\<rparr>" using Some by (cases s) simp
    have eq: "msg_queue_put (Some a) m st = Inr (put_ses a (?s (Some b)) (st\<lparr>msgs := ?h\<rparr>))"
      unfolding rec
      using s m(1) Some same last l by (simp add: msg_queue_put_def ses get_cell_def Let_def)
    have "chain ?h (Some b) (Q a @ [m]) (D a @ [msg])"
      using chain_snoc [OF ch dist _ m(2) m(1) l] q Some by simp
    moreover have "last (Q a) \<in> set (Q a)" using q by (metis last_in_set list.distinct(1))
    ultimately have "msgs_inv (put_ses a (?s (Some b)) (st\<lparr>msgs := ?h\<rparr>)) (Q(a := Q a @ [m])) (D(a := D a @ [msg]))"
      using dist low disj m(2,3) by (intro msgs_inv_update [OF inv s]) (fastforce simp: put_cell_def)+
    with eq show ?thesis by (intro exI [of _ "Some b"] exI [of _ ?h]) (simp add: put_cell_def)
  qed
qed

section \<open>Clearing the queue\<close>

lemma msg_queue_clear_empties:
  assumes inv: "msgs_inv st Q D" and s: "session_at st a = Some s"
  shows "\<exists>h. msg_queue_clear a st = Inr (put_ses a (s\<lparr>ss_msg_q := None\<rparr>) (st\<lparr>msgs := h\<rparr>))
    \<and> msgs_inv (put_ses a (s\<lparr>ss_msg_q := None\<rparr>) (st\<lparr>msgs := h\<rparr>)) (Q(a := [])) (D(a := []))
    \<and> cell_fresh h = cell_fresh (msgs st)"
proof -
  have ch: "chain (msgs st) (ss_msg_q s) (Q a) (D a)" using msgs_inv_chain [OF inv s] .
  have dist: "distinct (Q a)" and low: "\<forall>x \<in> set (Q a). x < cell_fresh (msgs st)"
    using inv unfolding msgs_inv_def by blast+
  obtain h where h: "list_free_loop False (cell_fresh (msgs st)) (ss_msg_q s) (msgs st) = Inr ([], h)"
    "cell_at h = (\<lambda>x. if x \<in> set (Q a) then None else cell_at (msgs st) x)"
    using list_free_loop_chain [OF ch dist bounded_count [OF dist low], of False] by auto
  have fresh: "cell_fresh h = cell_fresh (msgs st)" using list_free_loop_fresh [OF h(1)] .
  have "set (Q b) \<inter> set (Q a) = {}" if "b \<noteq> a" for b
    using inv that unfolding msgs_inv_def by blast
  then have "cell_at h x = cell_at (msgs st) x" if "b \<noteq> a" "x \<in> set (Q b)" for b x
    using that h(2) by auto
  then have "msgs_inv (put_ses a (s\<lparr>ss_msg_q := None\<rparr>) (st\<lparr>msgs := h\<rparr>)) (Q(a := [])) (D(a := []))"
    using fresh by (intro msgs_inv_update [OF inv s]) auto
  moreover have "msg_queue_clear a st = Inr (put_ses a (s\<lparr>ss_msg_q := None\<rparr>) (st\<lparr>msgs := h\<rparr>))"
    using s h(1) by (simp add: msg_queue_clear_def ses)
  ultimately show ?thesis using fresh by blast
qed

end
