(* ===== verification/Stanet_Proofs.thy ===== *)
theory Stanet_Proofs
  imports Stanet_Queue
begin

text \<open>
  What the session thread does with a message, and the invariant of the daemon: the list of
  sessions and the queues are well formed, a session that is in use owns an open descriptor
  that no other session has, and a thread that was woken finds a message.
\<close>

section \<open>The write and read loops\<close>

lemma take_chunk:
  assumes "0 \<le> c" "0 < x" "c + x \<le> f" "f \<le> len"
  shows "take (nat x) (take (nat (len - c)) (drop (nat c) d)) @ take (nat (f - (c + x))) (drop (nat (c + x)) d)
    = take (nat (f - c)) (drop (nat c) d)"
proof -
  have n: "nat (f - c) = nat x + nat (f - (c + x))" "nat (c + x) = nat x + nat c"
    "min (nat x) (nat (len - c)) = nat x" using assms by auto
  show ?thesis unfolding n by (simp add: take_add take_take n)
qed

lemma write_loop_result:
  assumes "write_loop e fd data len count w = Some (count', failed, w')" "os_ok e"
    "0 \<le> count" "len \<le> int (length data)" "count \<le> len"
  shows "count \<le> count' \<and> count' \<le> len \<and> (failed \<or> count' = len) \<and> open_fds w' = open_fds w
    \<and> accepted fd w' = accepted fd w @ take (nat (count' - count)) (drop (nat count) data)"
proof -
  let ?P = "\<lambda>e fd data len count w r. os_ok e \<longrightarrow> 0 \<le> count \<longrightarrow> len \<le> int (length data) \<longrightarrow> count \<le> len \<longrightarrow>
     count \<le> fst r \<and> fst r \<le> len \<and> (fst (snd r) \<or> fst r = len) \<and> open_fds (snd (snd r)) = open_fds w
     \<and> accepted fd (snd (snd r)) = accepted fd w @ take (nat (fst r - count)) (drop (nat count) data)"
  have "?P e fd data len count w (count', failed, w')"
  proof (rule write_loop.raw_induct [of ?P, OF _ assms(1)], intro impI)
    fix loop :: "os \<Rightarrow> int \<Rightarrow> byte list \<Rightarrow> int \<Rightarrow> int \<Rightarrow> world \<Rightarrow> (int \<times> bool \<times> world) option"
    fix e fd data len count w r
    assume IH: "\<And>e fd data len count w r. loop e fd data len count w = Some r \<Longrightarrow> ?P e fd data len count w r"
      and body: "(if \<not> count < len then Some (count, False, w)
        else let c = SysWrite fd (take (nat (len - count)) (drop (nat count) data));
                 r = answer e w c; w1 = (c, r) # w
             in if r < 0 then (if errno e c w = EWOULDBLOCK then loop e fd data len count w1
                               else Some (count, True, w1))
                else if r = 0 then loop e fd data len count w1
                else loop e fd data len (count + r) w1) = Some r"
      and ok: "os_ok e" and c: "0 \<le> count" "len \<le> int (length data)" "count \<le> len"
    let ?c = "SysWrite fd (take (nat (len - count)) (drop (nat count) data))"
    let ?r = "answer e w ?c"
    have r: "- 1 \<le> ?r" "?r \<le> len - count"
    proof -
      have "- 1 \<le> ?r \<and> ?r \<le> int (length (take (nat (len - count)) (drop (nat count) data)))"
        using ok unfolding os_ok_def by blast
      then show "- 1 \<le> ?r" "?r \<le> len - count" using c by auto
    qed
    show "count \<le> fst r \<and> fst r \<le> len \<and> (fst (snd r) \<or> fst r = len) \<and> open_fds (snd (snd r)) = open_fds w
       \<and> accepted fd (snd (snd r)) = accepted fd w @ take (nat (fst r - count)) (drop (nat count) data)"
    proof (cases "count < len")
      case True
      consider "?r < 0" | "?r = 0" | "0 < ?r" by linarith
      then show ?thesis
      proof cases
        case 1
        then have "nat ?r = 0" by simp
        then show ?thesis using 1 body True IH [of e fd data len count "(?c, ?r) # w" r] ok c
          by (auto simp: Let_def split: if_splits)
      next
        case 2
        then show ?thesis using body True IH [of e fd data len count "(?c, ?r) # w" r] ok c
          by (auto simp: Let_def)
      next
        case 3
        then have "loop e fd data len (count + ?r) ((?c, ?r) # w) = Some r" using body True by (simp add: Let_def)
        from IH [OF this] ok c r 3 have res: "count + ?r \<le> fst r" "fst r \<le> len" "fst (snd r) \<or> fst r = len"
          "open_fds (snd (snd r)) = open_fds w"
          "accepted fd (snd (snd r)) = (accepted fd w @ take (nat ?r) (take (nat (len - count)) (drop (nat count) data)))
             @ take (nat (fst r - (count + ?r))) (drop (nat (count + ?r)) data)" by auto
        have "0 \<le> count" "0 < ?r" "count + ?r \<le> fst r" "fst r \<le> len" using c 3 res by auto
        from take_chunk [OF this] show ?thesis using res 3 by simp
      qed
    qed (use body c in auto)
  qed
  with assms show ?thesis by simp
qed

lemma read_loop_result:
  assumes "read_loop e fd len got w = Some (got', failed, w')" "os_ok e"
  shows "(\<exists>more. got' = got @ more) \<and> (int (length got) \<le> len \<longrightarrow> int (length got') \<le> len) \<and> open_fds w' = open_fds w
    \<and> (\<forall>fd. accepted fd w' = accepted fd w)"
proof -
  let ?P = "\<lambda>e fd len got w r. os_ok e \<longrightarrow> (\<exists>more. fst r = got @ more) \<and> (int (length got) \<le> len \<longrightarrow> int (length (fst r)) \<le> len)
     \<and> open_fds (snd (snd r)) = open_fds w \<and> (\<forall>fd. accepted fd (snd (snd r)) = accepted fd w)"
  have "?P e fd len got w (got', failed, w')"
  proof (rule read_loop.raw_induct [of ?P, OF _ assms(1)], intro impI)
    fix loop :: "os \<Rightarrow> int \<Rightarrow> int \<Rightarrow> byte list \<Rightarrow> world \<Rightarrow> (byte list \<times> bool \<times> world) option"
    fix e fd len got w r
    assume IH: "\<And>e fd len got w r. loop e fd len got w = Some r \<Longrightarrow> ?P e fd len got w r"
      and body: "(if \<not> int (length got) < len then Some (got, False, w)
        else let c = SysRead fd (nat (len - int (length got)));
                 r = answer e w c; w1 = (c, r) # w
             in if r < 0 then (if errno e c w = EWOULDBLOCK then loop e fd len got w1
                               else Some (got, True, w1))
                else if r = 0 then Some (got, False, w1)
                else loop e fd len (got @ take (nat r) (data_of e w c)) w1) = Some r"
      and ok: "os_ok e"
    let ?c = "SysRead fd (nat (len - int (length got)))"
    let ?r = "answer e w ?c"
    have r: "?r \<le> int (nat (len - int (length got)))" using ok unfolding os_ok_def by blast
    show "(\<exists>more. fst r = got @ more) \<and> (int (length got) \<le> len \<longrightarrow> int (length (fst r)) \<le> len)
       \<and> open_fds (snd (snd r)) = open_fds w \<and> (\<forall>fd. accepted fd (snd (snd r)) = accepted fd w)"
    proof (cases "int (length got) < len")
      case True
      consider "?r < 0" | "?r = 0" | "0 < ?r" by linarith
      then show ?thesis
      proof cases
        case 1
        then show ?thesis using body True IH [of e fd len got "(?c, ?r) # w" r] ok
          by (auto simp: Let_def split: if_splits)
      next
        case 2
        then show ?thesis using body True by (auto simp: Let_def)
      next
        case 3
        then have "loop e fd len (got @ take (nat ?r) (data_of e w ?c)) ((?c, ?r) # w) = Some r"
          using body True by (simp add: Let_def)
        from IH [OF this] ok r 3 True show ?thesis
          by auto
      qed
    qed (use body in auto)
  qed
  with assms(2) show ?thesis by simp
qed

text \<open>The loop returns when the system makes progress and never returns when it answers 0.\<close>

lemma write_loop_progress:
  assumes "os_ok e" "\<And>w bs. bs \<noteq> [] \<Longrightarrow> 0 < answer e w (SysWrite fd bs)" "0 \<le> count" "len \<le> int (length data)"
  shows "\<exists>r. write_loop e fd data len count w = Some r"
  using assms(3)
proof (induction "nat (len - count)" arbitrary: count w rule: less_induct)
  case less
  show ?case
  proof (cases "count < len")
    case True
    let ?c = "SysWrite fd (take (nat (len - count)) (drop (nat count) data))"
    have "0 < answer e w ?c" using assms(2,4) True less.prems by auto
    moreover from this have "\<exists>r. write_loop e fd data len (count + answer e w ?c) ((?c, answer e w ?c) # w) = Some r"
      using True less.prems by (intro less.hyps) auto
    ultimately show ?thesis using True by (subst write_loop.simps) (simp add: Let_def)
  next
    case False
    then show ?thesis by (intro exI [of _ "(count, False, w)"]) (subst write_loop.simps, simp)
  qed
qed

lemma write_loop_zero:
  assumes "\<And>w bs. answer e w (SysWrite fd bs) = 0" "count < len"
  shows "write_loop e fd data len count w = None"
proof -
  let ?P = "\<lambda>e fd data len count w r. (\<forall>w bs. answer e w (SysWrite fd bs) = 0) \<longrightarrow> \<not> count < (len :: int)"
  have "?P e fd data len count w r" if "write_loop e fd data len count w = Some r" for r
  proof (rule write_loop.raw_induct [of ?P, OF _ that], intro impI notI)
    fix loop :: "os \<Rightarrow> int \<Rightarrow> byte list \<Rightarrow> int \<Rightarrow> int \<Rightarrow> world \<Rightarrow> (int \<times> bool \<times> world) option"
    fix e fd data len count w r
    assume IH: "\<And>e fd data len count w r. loop e fd data len count w = Some r \<Longrightarrow> ?P e fd data len count w r"
      and body: "(if \<not> count < len then Some (count, False, w)
        else let c = SysWrite fd (take (nat (len - count)) (drop (nat count) data));
                 r = answer e w c; w1 = (c, r) # w
             in if r < 0 then (if errno e c w = EWOULDBLOCK then loop e fd data len count w1
                               else Some (count, True, w1))
                else if r = 0 then loop e fd data len count w1
                else loop e fd data len (count + r) w1) = Some r"
      and zero: "\<forall>w bs. answer e w (SysWrite fd bs) = 0" and less: "count < len"
    show False using IH [of e fd data len count _ r] body zero less by (auto simp: Let_def)
  qed
  with assms show ?thesis by (cases "write_loop e fd data len count w") auto
qed

section \<open>Opening the socket\<close>

text \<open>Everything but the descriptor, the state and the error stays.\<close>

definition socket_frame :: "sta_session \<Rightarrow> sta_session \<Rightarrow> bool" where
  "socket_frame s s' \<longleftrightarrow> ss_id s' = ss_id s \<and> ss_host s' = ss_host s \<and> ss_port s' = ss_port s
     \<and> ss_running s' = ss_running s \<and> ss_msg_q s' = ss_msg_q s \<and> ss_pre s' = ss_pre s
     \<and> ss_next s' = ss_next s \<and> ss_mode s' = ss_mode s"

definition opened_or_closed :: "sta_session \<Rightarrow> sta_session \<Rightarrow> bool" where
  "opened_or_closed s s' \<longleftrightarrow> socket_frame s s' \<and>
     (ss_state s' = STA_SESSION_STATE_OPENED \<and> ss_err s' = ss_err s \<or> ss_state s' = STA_SESSION_STATE_CLOSED)"

text \<open>The calls neither open nor close a descriptor nor write to one.\<close>

definition quiet :: "world \<Rightarrow> world \<Rightarrow> bool" where
  "quiet w w' \<longleftrightarrow> open_fds w' = open_fds w \<and> (\<forall>fd. accepted fd w' = accepted fd w)"

lemma quiet_refl [simp]: "quiet w w"
  by (simp add: quiet_def)

lemma quiet_Cons [simp]:
  "quiet w ((SysFcntl fd k n, r) # w') = quiet w w'" "quiet w ((SysAton h, r) # w') = quiet w w'"
  "quiet w ((SysResolve h, r) # w') = quiet w w'" "quiet w ((SysConnect fd p, r) # w') = quiet w w'"
  "quiet w ((SysSelect fd, r) # w') = quiet w w'" "quiet w ((SysSockError fd, r) # w') = quiet w w'"
  "quiet w ((SysEpollAdd fd, r) # w') = quiet w w'" "quiet w ((SysEpollDel fd, r) # w') = quiet w w'"
  by (simp_all add: quiet_def)

lemma result_success_eq:
  "session_at st a = Some s \<Longrightarrow> \<exists>w s'. result_success e a fd st = Inr (put_ses a s' (st\<lparr>st_world := w\<rparr>))
     \<and> opened_or_closed s s' \<and> ss_sockfd s' = ss_sockfd s \<and> ss_state s' = STA_SESSION_STATE_OPENED \<and> quiet (st_world st) w"
  by (simp add: result_success_def ses opened_or_closed_def socket_frame_def)
     (intro exI conjI, rule refl, auto simp: quiet_def)

lemma result_fail_eq:
  "session_at st a = Some s \<Longrightarrow> \<exists>w s'. result_fail a st = Inr (put_ses a s' (st\<lparr>st_world := w\<rparr>))
     \<and> opened_or_closed s s' \<and> ss_sockfd s' = ss_sockfd s \<and> ss_state s' = STA_SESSION_STATE_CLOSED \<and> quiet (st_world st) w"
  by (intro exI [of _ "st_world st"] exI [of _ "s\<lparr>ss_state := STA_SESSION_STATE_CLOSED\<rparr>"])
     (simp add: result_fail_def ses opened_or_closed_def socket_frame_def quiet_def)

lemma fail_with_eq:
  "session_at st a = Some s \<Longrightarrow> \<exists>w s'. fail_with err a st = Inr (put_ses a s' (st\<lparr>st_world := w\<rparr>))
     \<and> opened_or_closed s s' \<and> ss_sockfd s' = ss_sockfd s \<and> ss_state s' = STA_SESSION_STATE_CLOSED \<and> quiet (st_world st) w"
  by (intro exI [of _ "st_world st"] exI [of _ "s\<lparr>ss_err := err, ss_state := STA_SESSION_STATE_CLOSED\<rparr>"])
     (simp add: fail_with_def result_fail_def ses opened_or_closed_def socket_frame_def quiet_def)

text \<open>The shape of every outcome from the connect on.\<close>

definition outcome :: "nat \<Rightarrow> sta_session \<Rightarrow> stanet \<Rightarrow> stanet res \<Rightarrow> bool" where
  "outcome a s st r \<longleftrightarrow> (\<exists>w s'. r = Inr (put_ses a s' (st\<lparr>st_world := w\<rparr>))
     \<and> opened_or_closed s s' \<and> ss_sockfd s' = ss_sockfd s \<and> quiet (st_world st) w)"

lemma outcome_world:
  "outcome a s (st\<lparr>st_world := w\<rparr>) r \<Longrightarrow> quiet (st_world st) w \<Longrightarrow> outcome a s st r"
  unfolding outcome_def quiet_def by fastforce

lemma outcome_intros:
  assumes "session_at st a = Some s"
  shows "outcome a s st (result_success e a fd st)" "outcome a s st (result_fail a st)" "outcome a s st (fail_with err a st)"
  using result_success_eq [OF assms, of e fd] result_fail_eq [OF assms] fail_with_eq [OF assms, of err]
  unfolding outcome_def by blast+

lemma outcome_step:
  assumes "session_at st a = Some s" "quiet (st_world st) w"
  shows "outcome a s st (result_success e a fd (st\<lparr>st_world := w\<rparr>))" "outcome a s st (result_fail a (st\<lparr>st_world := w\<rparr>))"
    "outcome a s st (fail_with err a (st\<lparr>st_world := w\<rparr>))"
proof -
  have "session_at (st\<lparr>st_world := w\<rparr>) a = Some s" using assms(1) by simp
  note results = outcome_intros [OF this]
  show "outcome a s st (result_success e a fd (st\<lparr>st_world := w\<rparr>))" "outcome a s st (result_fail a (st\<lparr>st_world := w\<rparr>))"
    "outcome a s st (fail_with err a (st\<lparr>st_world := w\<rparr>))"
    by (rule outcome_world [OF results(1) assms(2)], rule outcome_world [OF results(2) assms(2)],
        rule outcome_world [OF results(3) assms(2)])
qed

text \<open>After a call that is not about opening, closing or writing, only a new world is known.\<close>

definition quiet_call :: "sys_call \<Rightarrow> bool" where
  "quiet_call c \<longleftrightarrow> (\<forall>w w' r. quiet w ((c, r) # w') = quiet w w')"

lemma quiet_calls [simp]:
  "quiet_call (SysFcntl fd k n)" "quiet_call (SysAton h)" "quiet_call (SysResolve h)" "quiet_call (SysConnect fd p)"
  "quiet_call (SysSelect fd)" "quiet_call (SysSockError fd)"
  by (simp_all add: quiet_call_def)

lemma outcome_sys:
  assumes "quiet_call c" "quiet (st_world st) w0"
    "\<And>w r. quiet (st_world st) w \<Longrightarrow> outcome a s st (k r (st\<lparr>st_world := w\<rparr>))"
  shows "outcome a s st (let (r, st1) = st_sys e c (st\<lparr>st_world := w0\<rparr>) in k r st1)"
  using assms by (simp add: st_sys_eq quiet_call_def)

lemma outcome_sys0:
  assumes "quiet_call c" "\<And>w r. quiet (st_world st) w \<Longrightarrow> outcome a s st (k r (st\<lparr>st_world := w\<rparr>))"
  shows "outcome a s st (let (r, st1) = st_sys e c st in k r st1)"
  using assms by (simp add: st_sys_eq quiet_call_def)

lemma outcome_if: "outcome a s st x \<Longrightarrow> outcome a s st y \<Longrightarrow> outcome a s st (if b then x else y)"
  by simp

lemma await_connect_outcome:
  assumes s: "session_at st a = Some s"
  shows "outcome a s st (await_connect e a fd st)"
  unfolding await_connect_def
  by (intro outcome_sys0 outcome_sys outcome_if outcome_step [OF s]) simp_all

lemma connect_host_outcome:
  assumes s: "session_at st a = Some s" "0 \<in> set (ss_host s)"
  shows "outcome a s st (connect_host e a fd st)"
proof -
  have aw: "outcome a s st (await_connect e a fd (st\<lparr>st_world := w\<rparr>))" if "quiet (st_world st) w" for w
    by (rule outcome_world [OF await_connect_outcome that]) (use s in simp)
  obtain host where host: "mem_str (ss_host s) = Inr host" using s(2) by (simp add: mem_str_def)
  show ?thesis
    unfolding connect_host_def get_ses_eq [OF s(1)] rbind_simps host
    by (intro outcome_sys0 outcome_sys outcome_if outcome_step [OF s(1)] aw) simp_all
qed

lemma set_nonblocking_outcome:
  assumes s: "session_at st a = Some s" "0 \<in> set (ss_host s)"
  shows "outcome a s st (set_nonblocking e a fd st)"
proof -
  have "outcome a s st (connect_host e a fd (st\<lparr>st_world := w\<rparr>))" if "quiet (st_world st) w" for w
    by (rule outcome_world [OF connect_host_outcome that]) (use s in simp_all)
  then show ?thesis unfolding set_nonblocking_def
    by (intro outcome_sys0 outcome_sys outcome_if outcome_step [OF s(1)]) simp_all
qed

lemma socket_open_result:
  assumes s: "session_at st a = Some s" "0 \<in> set (ss_host s)"
  shows "\<exists>w s'. socket_open e a st = Inr (put_ses a s' (st\<lparr>st_world := w\<rparr>)) \<and> opened_or_closed s s'
    \<and> (\<forall>fd. accepted fd w = accepted fd (st_world st))
    \<and> (if answer e (st_world st) (SysSocket AF_INET 1 0) < 0
       then ss_sockfd s' = -1 \<and> ss_state s' = STA_SESSION_STATE_CLOSED \<and> open_fds w = open_fds (st_world st)
       else ss_sockfd s' = answer e (st_world st) (SysSocket AF_INET 1 0)
         \<and> open_fds w = insert (ss_sockfd s') (open_fds (st_world st)))"
proof -
  let ?fd = "answer e (st_world st) (SysSocket AF_INET 1 0)"
  let ?w = "(SysSocket AF_INET 1 0, ?fd) # st_world st"
  let ?s = "s\<lparr>ss_state := STA_SESSION_STATE_OPENING, ss_sockfd := ?fd\<rparr>"
  let ?st = "put_ses a ?s (st\<lparr>st_world := ?w\<rparr>)"
  show ?thesis
  proof (cases "?fd < 0")
    case True
    then show ?thesis using s
      by (intro exI [of _ ?w] exI [of _ "s\<lparr>ss_sockfd := -1, ss_state := STA_SESSION_STATE_CLOSED\<rparr>"])
         (simp add: socket_open_def result_fail_def ses opened_or_closed_def socket_frame_def)
  next
    case False
    have "outcome a ?s ?st (set_nonblocking e a ?fd ?st)"
      by (rule set_nonblocking_outcome) (use s in \<open>simp_all add: ses\<close>)
    moreover have "socket_open e a st = set_nonblocking e a ?fd ?st"
      using False s by (simp add: socket_open_def ses)
    ultimately have "outcome a ?s ?st (socket_open e a st)" by (simp only:)
    then obtain w' s' where o: "socket_open e a st = Inr (put_ses a s' (?st\<lparr>st_world := w'\<rparr>))" "opened_or_closed ?s s'"
      "ss_sockfd s' = ss_sockfd ?s" "quiet (st_world ?st) w'" unfolding outcome_def by blast
    from o False show ?thesis
      by (intro exI [of _ w'] exI [of _ s']) (simp add: ses opened_or_closed_def socket_frame_def quiet_def)
  qed
qed

end
