(* ===== verification/Stanet_Inv.thy ===== *)
theory Stanet_Inv
  imports Stanet_Proofs
begin

text \<open>
  The invariant of the daemon and its preservation by every step of a thread and every call of
  the interface, for callers that respect the sizes of the buffers.
\<close>

section \<open>Invariant\<close>

text \<open>A message as the interface sends it.\<close>

definition msg_ok :: "sta_msg \<Rightarrow> bool" where
  "msg_ok m \<longleftrightarrow> length (msg_data m) = 2049 \<and> msg_data m ! 2048 = 0 \<and> msg_id m \<noteq> STA_MSG_SOCKET_CLOSE
     \<and> (msg_id m = STA_MSG_SOCKET_OPEN \<longrightarrow> (\<exists>h r. msg_data m = h @ 0x3A # r \<and> length h < 128))
     \<and> (msg_id m = STA_MSG_SOCKET_READ \<longrightarrow> 0 \<le> data_len m)
     \<and> (msg_id m = STA_MSG_SOCKET_WRITE \<longrightarrow> 0 \<le> data_len m \<and> data_len m \<le> 2048)"

text \<open>A session between two steps: unused without host and descriptor, or in use with an open one.\<close>

definition ses_core :: "world \<Rightarrow> sta_session \<Rightarrow> sta_msg list \<Rightarrow> bool" where
  "ses_core w s ds \<longleftrightarrow> length (ss_host s) = 128 \<and> ss_host s ! 127 = 0 \<and> (\<forall>m \<in> set ds. msg_ok m)
     \<and> ss_state s \<noteq> STA_SESSION_STATE_CLOSED \<and> ss_state s \<noteq> STA_SESSION_STATE_OPENING
     \<and> (if ss_state s = STA_SESSION_STATE_UNUSED then ss_sockfd s = -1 \<and> ss_host s = replicate 128 0 else 0 \<le> ss_sockfd s \<and> ss_sockfd s \<in> open_fds w)"

definition sta_core :: "stanet \<Rightarrow> nat list \<Rightarrow> (nat \<Rightarrow> nat list) \<Rightarrow> (nat \<Rightarrow> sta_msg list) \<Rightarrow> bool" where
  "sta_core st as Q D \<longleftrightarrow> sessions_inv st as \<and> msgs_inv st Q D
     \<and> distinct (map ss_id (session_seq st as))
     \<and> (\<forall>a s. session_at st a = Some s \<longrightarrow> ses_core (st_world st) s (D a) \<and> a < session_fresh st)
     \<and> (\<forall>a b s t. session_at st a = Some s \<longrightarrow> session_at st b = Some t \<longrightarrow> a \<noteq> b \<longrightarrow>
          ss_state s \<noteq> STA_SESSION_STATE_UNUSED \<longrightarrow> ss_sockfd s \<noteq> ss_sockfd t)"

text \<open>A thread that was woken finds a message.\<close>

definition sta_inv :: "stanet \<Rightarrow> nat list \<Rightarrow> (nat \<Rightarrow> nat list) \<Rightarrow> (nat \<Rightarrow> sta_msg list) \<Rightarrow> bool" where
  "sta_inv st as Q D \<longleftrightarrow> sta_core st as Q D \<and> (\<forall>a s. session_at st a = Some s \<longrightarrow> ss_mode s = Woken \<longrightarrow> D a \<noteq> [])"

section \<open>Changing one session\<close>

definition upd_st :: "nat \<Rightarrow> sta_session \<Rightarrow> sta_msg cells \<Rightarrow> world \<Rightarrow> callback list \<Rightarrow> int \<Rightarrow> stanet \<Rightarrow> stanet" where
  "upd_st a s h w c i st = put_ses a s (st\<lparr>msgs := h, st_world := w, callbacks := c, session_id_tmp := i\<rparr>)"

lemma upd_st_select [ses]:
  "session_list (upd_st a s h w c i st) = session_list st" "session_fresh (upd_st a s h w c i st) = session_fresh st"
  "session_at (upd_st a s h w c i st) = (session_at st)(a \<mapsto> s)" "msgs (upd_st a s h w c i st) = h"
  "st_world (upd_st a s h w c i st) = w"
  by (simp_all add: upd_st_def put_ses_def)

lemma upd_st_upd_st [ses]: "upd_st a s' h' w' c' i' (upd_st a s h w c i st) = upd_st a s' h' w' c' i' st"
  by (simp add: upd_st_def put_ses_def)

lemma put_ses_upd_st [ses]: "put_ses a s' (upd_st a s h w c i st) = upd_st a s' h w c i st"
  by (simp add: upd_st_def put_ses_def)

lemma upd_st_id: "session_at st a = Some s \<Longrightarrow> upd_st a s (msgs st) (st_world st) (callbacks st) (session_id_tmp st) st = st"
  by (simp add: upd_st_def put_ses_def fun_upd_idem)

lemma upd_st_msgs: "put_ses a s (st\<lparr>msgs := h\<rparr>) = upd_st a s h (st_world st) (callbacks st) (session_id_tmp st) st"
  by (simp add: upd_st_def put_ses_def)

lemma upd_st_world: "put_ses a s (st\<lparr>st_world := w\<rparr>) = upd_st a s (msgs st) w (callbacks st) (session_id_tmp st) st"
  by (simp add: upd_st_def put_ses_def)

definition cb_of :: "int \<Rightarrow> sta_msg_id \<Rightarrow> sta_session_err \<Rightarrow> byte list option \<Rightarrow> int \<Rightarrow> callback" where
  "cb_of sid mid err data len = \<lparr>cb_session = sid, cb_msg = mid, cb_err = err, cb_data = data, cb_len = len\<rparr>"

lemma qmi_session_callback_upd [ses]:
  "qmi_session_callback sid mid err data len (upd_st a s h w c i st) =
     upd_st a s h w (cb_of sid mid err data len # c)
       (if mid = STA_MSG_SOCKET_OPEN \<and> err = STA_SESSION_ERR_SUCCESS then sid else i) st"
  by (simp add: qmi_session_callback_def upd_st_def put_ses_def Let_def cb_of_def)

lemma msgs_inv_upd_st: "msgs_inv (put_ses a s (st\<lparr>msgs := h\<rparr>)) Q D \<Longrightarrow> msgs_inv (upd_st a s h w c i st) Q D"
  by (erule msgs_inv_cong) (simp_all add: ses)

lemma msgs_inv_same:
  "msgs_inv st Q D \<Longrightarrow> session_at st a = Some s \<Longrightarrow> ss_msg_q s' = ss_msg_q s \<Longrightarrow> msgs_inv (upd_st a s' (msgs st) w c i st) Q D"
  by (erule msgs_inv_cong) (auto simp: ses)

lemma session_seq_upd:
  assumes "session_at st a = Some s" "f s' = f s"
  shows "map f (session_seq (upd_st a s' h w c i st) as) = map f (session_seq st as)"
  using assms by (auto simp: session_seq_def ses)

lemma sta_core_upd:
  assumes core: "sta_core st as Q D" and s: "session_at st a = Some s"
    and m: "msgs_inv (upd_st a s' h w c i st) Q' D'" and d: "\<And>b. b \<noteq> a \<Longrightarrow> D' b = D b"
    and link: "ss_id s' = ss_id s" "ss_pre s' = ss_pre s" "ss_next s' = ss_next s"
    and new: "ses_core w s' (D' a)"
    and keep: "\<And>b t. b \<noteq> a \<Longrightarrow> session_at st b = Some t \<Longrightarrow> ss_state t \<noteq> STA_SESSION_STATE_UNUSED \<Longrightarrow>
      ss_sockfd t \<in> open_fds w \<and> (ss_state s' \<noteq> STA_SESSION_STATE_UNUSED \<longrightarrow> ss_sockfd t \<noteq> ss_sockfd s')"
  shows "sta_core (upd_st a s' h w c i st) as Q' D'"
proof -
  let ?st = "upd_st a s' h w c i st"
  have "dll (session_at ?st) None (session_list ?st) as"
    using core unfolding sta_core_def sessions_inv_def
    by (auto simp: ses s link intro: dll_cong)
  then have "sessions_inv ?st as" using core by (simp add: sta_core_def sessions_inv_def ses)
  moreover have "distinct (map ss_id (session_seq ?st as))"
    using core session_seq_upd [OF s, of ss_id s'] link by (simp add: sta_core_def)
  moreover have old: "ses_core (st_world st) t (D b)" if "session_at st b = Some t" for b t
    using core that by (simp add: sta_core_def)
  have "ses_core w t (D' b) \<and> b < session_fresh st" if "session_at ?st b = Some t" for b t
  proof (cases "b = a")
    case True
    then show ?thesis using that new core s by (auto simp: ses sta_core_def)
  next
    case False
    then have t: "session_at st b = Some t" using that by (simp add: ses)
    then have "b < session_fresh st" using core by (simp add: sta_core_def)
    then show ?thesis using old [OF t] keep [OF False t] d [OF False] by (auto simp: ses_core_def split: if_splits)
  qed
  moreover have "ss_sockfd x \<noteq> ss_sockfd y" if xy: "session_at ?st b = Some x" "session_at ?st b' = Some y" "b \<noteq> b'"
      "ss_state x \<noteq> STA_SESSION_STATE_UNUSED" for b b' x y
  proof -
    have one: "ss_sockfd t \<noteq> ss_sockfd s'" if "session_at st c = Some t" "c \<noteq> a"
        "ss_state t \<noteq> STA_SESSION_STATE_UNUSED \<or> ss_state s' \<noteq> STA_SESSION_STATE_UNUSED" for c t
      using keep [OF that(2,1)] new old [OF that(1)] that(3) by (auto simp: ses_core_def split: if_splits)
    consider "b = a" | "b' = a" | "b \<noteq> a" "b' \<noteq> a" by blast
    then show ?thesis
    proof cases
      case 1
      then show ?thesis using one [of b' y] xy by (auto simp: ses)
    next
      case 2
      then show ?thesis using one [of b x] xy by (auto simp: ses)
    next
      case 3
      then show ?thesis using core xy unfolding sta_core_def by (auto simp: ses)
    qed
  qed
  ultimately show ?thesis using m by (auto simp: sta_core_def ses)
qed

section \<open>Resetting a session\<close>

definition reset_of :: "sta_session \<Rightarrow> sta_session" where
  "reset_of s = s\<lparr>ss_err := STA_SESSION_ERR_SUCCESS, ss_state := STA_SESSION_STATE_UNUSED,
     ss_host := replicate SESSION_HOST_MAX_LEN 0, ss_port := -1, ss_sockfd := -1, ss_msg_q := None\<rparr>"

lemma session_reset_result:
  assumes inv: "msgs_inv st Q D" and s: "session_at st a = Some s"
  shows "\<exists>h w. session_reset e a st = Inr (put_ses a (reset_of s) (st\<lparr>msgs := h, st_world := w\<rparr>))
    \<and> msgs_inv (put_ses a (reset_of s) (st\<lparr>msgs := h, st_world := w\<rparr>)) (Q(a := [])) (D(a := []))
    \<and> open_fds w = open_fds (st_world st) - {ss_sockfd s} \<and> (\<forall>fd. accepted fd w = accepted fd (st_world st))"
proof -
  let ?s = "s\<lparr>ss_err := STA_SESSION_ERR_SUCCESS, ss_state := STA_SESSION_STATE_UNUSED,
     ss_host := replicate SESSION_HOST_MAX_LEN 0, ss_port := -1, ss_sockfd := -1\<rparr>"
  let ?w1 = "(SysEpollDel (ss_sockfd s), answer e (st_world st) (SysEpollDel (ss_sockfd s))) # st_world st"
  let ?w = "(SysClose (ss_sockfd s), answer e ?w1 (SysClose (ss_sockfd s))) # ?w1"
  let ?st = "put_ses a ?s (st\<lparr>st_world := ?w\<rparr>)"
  have "msgs_inv ?st Q D" by (rule msgs_inv_cong [OF inv]) (simp_all add: ses s)
  moreover have "session_at ?st a = Some ?s" by (simp add: ses)
  ultimately obtain h where h: "msg_queue_clear a ?st = Inr (put_ses a (?s\<lparr>ss_msg_q := None\<rparr>) (?st\<lparr>msgs := h\<rparr>))"
    "msgs_inv (put_ses a (?s\<lparr>ss_msg_q := None\<rparr>) (?st\<lparr>msgs := h\<rparr>)) (Q(a := [])) (D(a := []))"
    using msg_queue_clear_empties by blast
  have eq: "put_ses a (?s\<lparr>ss_msg_q := None\<rparr>) (?st\<lparr>msgs := h\<rparr>) = put_ses a (reset_of s) (st\<lparr>msgs := h, st_world := ?w\<rparr>)"
    by (simp add: put_ses_def reset_of_def)
  have "session_reset e a st = msg_queue_clear a ?st"
    using s by (simp add: session_reset_def ses)
  then show ?thesis using h unfolding eq by (intro exI [of _ h] exI [of _ ?w]) auto
qed

section \<open>Handling a message\<close>

text \<open>What a handler may do to its session and what it leaves alone; None is a loop without
  end.\<close>

definition handles :: "nat \<Rightarrow> sta_session \<Rightarrow> sta_msg_id \<Rightarrow> nat list \<Rightarrow> (nat \<Rightarrow> nat list) \<Rightarrow> (nat \<Rightarrow> sta_msg list) \<Rightarrow>
    stanet \<Rightarrow> stanet res \<Rightarrow> bool" where
  "handles a s mid as Q D st r \<longleftrightarrow> r = Inl Diverges \<or>
     (\<exists>s' h w c i Q' D'. r = Inr (upd_st a s' h w c i st) \<and> sta_core (upd_st a s' h w c i st) as Q' D'
        \<and> ss_mode s' = ss_mode s \<and> ss_id s' = ss_id s \<and> (\<forall>b. b \<noteq> a \<longrightarrow> D' b = D b) \<and> (D' a = D a \<or> D' a = [])
        \<and> (mid \<noteq> STA_MSG_SOCKET_OPEN \<longrightarrow> ss_state s' = ss_state s \<and> ss_sockfd s' = ss_sockfd s \<and> D' a = D a))"

lemma sta_core_ses: "sta_core st as Q D \<Longrightarrow> session_at st a = Some s \<Longrightarrow> ses_core (st_world st) s (D a)"
  by (simp add: sta_core_def)

lemma sta_core_other:
  "sta_core st as Q D \<Longrightarrow> session_at st a = Some s \<Longrightarrow> b \<noteq> a \<Longrightarrow> session_at st b = Some t \<Longrightarrow>
   ss_state t \<noteq> STA_SESSION_STATE_UNUSED \<Longrightarrow> ss_sockfd t \<in> open_fds (st_world st) \<and> ss_sockfd t \<noteq> ss_sockfd s"
  unfolding sta_core_def by (fastforce simp: ses_core_def)

lemma handlesI:
  assumes "sta_core (upd_st a s' h w c i st) as Q' D'" "ss_mode s' = ss_mode s \<and> ss_id s' = ss_id s" "\<And>b. b \<noteq> a \<Longrightarrow> D' b = D b"
    "D' a = D a \<or> D' a = []"
    "mid \<noteq> STA_MSG_SOCKET_OPEN \<Longrightarrow> ss_state s' = ss_state s \<and> ss_sockfd s' = ss_sockfd s \<and> D' a = D a"
  shows "handles a s mid as Q D st (Inr (upd_st a s' h w c i st))"
  using assms unfolding handles_def by blast

text \<open>Handlers that only change the error and the world.\<close>

lemma handles_quiet:
  assumes core: "sta_core st as Q D" and s: "session_at st a = Some s" and w: "open_fds w = open_fds (st_world st)"
  shows "handles a s mid as Q D st (Inr (upd_st a (s\<lparr>ss_err := err\<rparr>) (msgs st) w c i st))"
proof -
  have "sta_core (upd_st a (s\<lparr>ss_err := err\<rparr>) (msgs st) w c i st) as Q D"
  proof (rule sta_core_upd [OF core s])
    show "msgs_inv (upd_st a (s\<lparr>ss_err := err\<rparr>) (msgs st) w c i st) Q D"
      using core s by (intro msgs_inv_same) (auto simp: sta_core_def)
    show "ses_core w (s\<lparr>ss_err := err\<rparr>) (D a)"
      using sta_core_ses [OF core s] w by (simp add: ses_core_def)
  qed (use sta_core_other [OF core s] w in auto)
  then show ?thesis by (rule handlesI) simp_all
qed

lemma handle_write_handles:
  assumes core: "sta_core st as Q D" and s: "session_at st a = Some s" and m: "msg_ok msg" "msg_id msg = STA_MSG_SOCKET_WRITE"
    and os: "os_ok e"
  shows "handles a s STA_MSG_SOCKET_WRITE as Q D st (handle_write e a msg st)"
proof (cases "write_loop e (ss_sockfd s) (msg_data msg) (data_len msg) 0 (st_world st)")
  case None
  then show ?thesis using s by (simp add: handle_write_def ses handles_def)
next
  case (Some r)
  obtain count failed w where r: "r = (count, failed, w)" by (cases r)
  have "open_fds w = open_fds (st_world st)"
    using write_loop_result [OF Some [unfolded r] os] m by (auto simp: msg_ok_def)
  from handles_quiet [OF core s this, of STA_MSG_SOCKET_WRITE "if failed then STA_SESSION_ERR_UNKNOWN else ss_err s"]
  show ?thesis using s Some r by (cases failed) (simp_all add: handle_write_def ses upd_st_world Let_def)
qed

lemma handle_read_handles:
  assumes core: "sta_core st as Q D" and s: "session_at st a = Some s" and m: "msg_ok msg" "msg_id msg = STA_MSG_SOCKET_READ"
    and os: "os_ok e"
  shows "handles a s STA_MSG_SOCKET_READ as Q D st (handle_read e a msg st)"
proof (cases "read_loop e (ss_sockfd s) (data_len msg) [] (st_world st)")
  case None
  then show ?thesis using s by (simp add: handle_read_def ses handles_def)
next
  case (Some r)
  obtain got failed w where r: "r = (got, failed, w)" by (cases r)
  have len: "0 \<le> data_len msg" using m by (simp add: msg_ok_def)
  have res: "open_fds w = open_fds (st_world st)" "int (length got) \<le> data_len msg"
    using read_loop_result [OF Some [unfolded r] os] len by auto
  obtain buf where buf: "wr_bytes (replicate (nat (data_len msg + 1)) 0) 0 got = Inr buf"
    "length buf = nat (data_len msg + 1)"
    using res(2) len by (simp add: wr_bytes_ok)
  obtain buf' where buf': "wr_buf buf (int (length got)) 0 = Inr buf'"
    using buf(2) res(2) len by (simp add: wr_buf_ok)
  from handles_quiet [OF core s res(1), of STA_MSG_SOCKET_READ "if failed then STA_SESSION_ERR_UNKNOWN else ss_err s"]
  show ?thesis using s Some r len buf(1) buf' by (cases failed) (simp_all add: handle_read_def ses upd_st_world Let_def)
qed

text \<open>The parts of an open request are found inside the message.\<close>

lemma find_colon_bound: "\<exists>i. find_colon (h @ 0x3A # r) = Inr i \<and> i \<le> length h"
proof (induction h)
  case (Cons b h)
  then obtain i where "find_colon (h @ 0x3A # r) = Inr i" "i \<le> length h" by blast
  then show ?case by (cases "b = 0x3A") auto
qed simp

lemma find_colon_at: "0x3A \<notin> set h \<Longrightarrow> find_colon (h @ 0x3A # r) = Inr (length h)"
  by (induction h) auto

lemma atoi_digits_ends: "0 \<in> set bs \<Longrightarrow> \<exists>n. atoi_digits bs i = Inr n"
  by (induction bs i rule: atoi_digits.induct) auto

lemma atoi_ends: "0 \<in> set bs \<Longrightarrow> \<exists>n. atoi bs = Inr n"
proof (induction bs rule: atoi.induct)
  case (2 b bs)
  show ?case
  proof (cases "b = 0x20 \<or> (0x09 \<le> b \<and> b \<le> 0x0D)")
    case True
    moreover have "b \<noteq> 0" using True by auto
    ultimately show ?thesis using 2 by simp
  next
    case False
    then show ?thesis using 2(2) atoi_digits_ends [of bs 0] atoi_digits_ends [of "b # bs" 0] by auto
  qed
qed simp

text \<open>After the connect: the callback, and the reset when the session is not open.\<close>

lemma finish_open:
  assumes core: "sta_core st as Q D" and s: "session_at st a = Some s"
    and link: "ss_id s2 = ss_id s" "ss_pre s2 = ss_pre s" "ss_next s2 = ss_next s" "ss_mode s2 = ss_mode s" "ss_msg_q s2 = ss_msg_q s"
    and host: "length (ss_host s2) = 128" "ss_host s2 ! 127 = 0"
    and other: "\<And>b t. b \<noteq> a \<Longrightarrow> session_at st b = Some t \<Longrightarrow> ss_state t \<noteq> STA_SESSION_STATE_UNUSED \<Longrightarrow>
      ss_sockfd t \<in> open_fds w \<and> ss_sockfd t \<noteq> ss_sockfd s2"
    and opened: "ss_state s2 = STA_SESSION_STATE_OPENED \<Longrightarrow> 0 \<le> ss_sockfd s2 \<and> ss_sockfd s2 \<in> open_fds w"
    and st2: "st2 = upd_st a s2 (msgs st) w (callbacks st) (session_id_tmp st) st"
  shows "handles a s STA_MSG_SOCKET_OPEN as Q D st
    (if ss_state s2 = STA_SESSION_STATE_OPENED
     then Inr (qmi_session_callback (ss_id s2) STA_MSG_SOCKET_OPEN STA_SESSION_ERR_SUCCESS None 0 st2)
     else session_reset e a (qmi_session_callback (-1) STA_MSG_SOCKET_OPEN (ss_err s2) None 0 st2))"
proof (cases "ss_state s2 = STA_SESSION_STATE_OPENED")
  case True
  have "sta_core (upd_st a s2 (msgs st) w c i st) as Q D" for c i
  proof (rule sta_core_upd [OF core s])
    show "msgs_inv (upd_st a s2 (msgs st) w c i st) Q D"
      using core s link by (intro msgs_inv_same) (auto simp: sta_core_def)
    show "ses_core w s2 (D a)"
      using sta_core_ses [OF core s] host opened True by (simp add: ses_core_def)
  qed (use other link in auto)
  then show ?thesis using True link by (simp add: st2 ses) (rule handlesI, auto)
next
  case False
  let ?c = "cb_of (-1) STA_MSG_SOCKET_OPEN (ss_err s2) None 0 # callbacks st"
  let ?i = "if ss_err s2 = STA_SESSION_ERR_SUCCESS then -1 else session_id_tmp st"
  let ?st = "upd_st a s2 (msgs st) w ?c ?i st"
  have "msgs_inv ?st Q D" using core s link by (intro msgs_inv_same) (auto simp: sta_core_def)
  moreover have "session_at ?st a = Some s2" by (simp add: ses)
  ultimately obtain h w' where r: "session_reset e a ?st = Inr (put_ses a (reset_of s2) (?st\<lparr>msgs := h, st_world := w'\<rparr>))"
    "msgs_inv (put_ses a (reset_of s2) (?st\<lparr>msgs := h, st_world := w'\<rparr>)) (Q(a := [])) (D(a := []))"
    "open_fds w' = open_fds (st_world ?st) - {ss_sockfd s2}" using session_reset_result by blast
  have eq: "put_ses a (reset_of s2) (?st\<lparr>msgs := h, st_world := w'\<rparr>) = upd_st a (reset_of s2) h w' ?c ?i st"
    by (simp add: put_ses_def upd_st_def)
  have "sta_core (upd_st a (reset_of s2) h w' ?c ?i st) as (Q(a := [])) (D(a := []))"
  proof (rule sta_core_upd [OF core s])
    show "msgs_inv (upd_st a (reset_of s2) h w' ?c ?i st) (Q(a := [])) (D(a := []))" using r(2) unfolding eq .
    show "ses_core w' (reset_of s2) ((D(a := [])) a)"
      by (simp add: ses_core_def reset_of_def SESSION_HOST_MAX_LEN_def)
  qed (use link other r(3) in \<open>auto simp: reset_of_def ses\<close>)
  then have "handles a s STA_MSG_SOCKET_OPEN as Q D st (Inr (upd_st a (reset_of s2) h w' ?c ?i st))"
    by (rule handlesI) (auto simp: reset_of_def link)
  then show ?thesis using False r(1) unfolding eq by (simp add: st2 ses)
qed

lemma nth_in_drop: "k \<le> i \<Longrightarrow> i < length xs \<Longrightarrow> xs ! i \<in> set (drop k xs)"
  by (metis Cons_nth_drop_Suc drop_eq_Nil2 in_set_dropD leD list.set_intros(1) set_drop_subset_set_drop subset_code(1))

lemma handle_open_handles:
  assumes core: "sta_core st as Q D" and s: "session_at st a = Some s" and m: "msg_ok msg" "msg_id msg = STA_MSG_SOCKET_OPEN"
    and os: "os_fresh e"
  shows "handles a s STA_MSG_SOCKET_OPEN as Q D st (handle_open e a msg st)"
proof -
  obtain h r where md: "msg_data msg = h @ 0x3A # r" "length h < 128" "length (msg_data msg) = 2049" "msg_data msg ! 2048 = 0"
    using m by (auto simp: msg_ok_def)
  obtain i where i: "find_colon (msg_data msg) = Inr i" "i \<le> length h" using find_colon_bound [of h r] md(1) by auto
  have ok: "length (ss_host s) = 128" "ss_host s ! 127 = 0" using sta_core_ses [OF core s] by (simp_all add: ses_core_def)
  obtain host where host: "wr_bytes (ss_host s) 0 (take i (msg_data msg)) = Inr host" "length host = 128" "host ! 127 = 0"
    using ok i(2) md by (auto simp: wr_bytes_ok nth_append)
  have "msg_data msg ! 2048 \<in> set (drop (Suc i) (msg_data msg))" using md(2,3) i(2) by (intro nth_in_drop) simp_all
  then have "0 \<in> set (drop (Suc i) (msg_data msg))" using md(4) by simp
  then obtain port where port: "atoi (drop (Suc i) (msg_data msg)) = Inr port" using atoi_ends by blast
  let ?s1 = "s\<lparr>ss_host := host, ss_port := port\<rparr>"
  let ?st1 = "put_ses a ?s1 st"
  have zero: "0 \<in> set host" using nth_mem [of 127 host] host by simp
  obtain s2 w where r: "(if port > 0 then socket_open e a ?st1 else Inr ?st1)
      = Inr (upd_st a s2 (msgs st) w (callbacks st) (session_id_tmp st) st)"
    and link: "ss_id s2 = ss_id s" "ss_pre s2 = ss_pre s" "ss_next s2 = ss_next s" "ss_mode s2 = ss_mode s"
      "ss_msg_q s2 = ss_msg_q s" "ss_host s2 = host"
    and fds: "\<And>b t. b \<noteq> a \<Longrightarrow> session_at st b = Some t \<Longrightarrow> ss_state t \<noteq> STA_SESSION_STATE_UNUSED \<Longrightarrow>
      ss_sockfd t \<in> open_fds w \<and> ss_sockfd t \<noteq> ss_sockfd s2"
    and opened: "ss_state s2 = STA_SESSION_STATE_OPENED \<Longrightarrow> 0 \<le> ss_sockfd s2 \<and> ss_sockfd s2 \<in> open_fds w"
  proof (cases "port > 0")
    case False
    have "?st1 = upd_st a ?s1 (msgs st) (st_world st) (callbacks st) (session_id_tmp st) st"
      by (simp add: put_ses_def upd_st_def)
    then show ?thesis
      using that [of ?s1 "st_world st"] False sta_core_other [OF core s] sta_core_ses [OF core s] by (simp add: ses_core_def)
  next
    case True
    have "session_at ?st1 a = Some ?s1" "0 \<in> set (ss_host ?s1)" using zero by (simp_all add: ses)
    from socket_open_result [OF this, of e] obtain w s2
      where o: "socket_open e a ?st1 = Inr (put_ses a s2 (?st1\<lparr>st_world := w\<rparr>))" "opened_or_closed ?s1 s2"
      "if answer e (st_world st) (SysSocket AF_INET 1 0) < 0
       then ss_sockfd s2 = -1 \<and> ss_state s2 = STA_SESSION_STATE_CLOSED \<and> open_fds w = open_fds (st_world st)
       else ss_sockfd s2 = answer e (st_world st) (SysSocket AF_INET 1 0)
         \<and> open_fds w = insert (ss_sockfd s2) (open_fds (st_world st))" by (auto simp: ses)
    have "answer e (st_world st) (SysSocket AF_INET 1 0) \<notin> open_fds (st_world st)" using os by (simp add: os_fresh_def)
    moreover have "0 \<le> ss_sockfd t" if "session_at st b = Some t" "ss_state t \<noteq> STA_SESSION_STATE_UNUSED" for b t
      using sta_core_ses [OF core that(1)] that(2) by (simp add: ses_core_def)
    ultimately show ?thesis
      using that [of s2 w] True o sta_core_other [OF core s]
      by (fastforce simp: ses upd_st_world opened_or_closed_def socket_frame_def split: if_splits)
  qed
  have "handle_open e a msg st =
      (if ss_state s2 = STA_SESSION_STATE_OPENED
       then Inr (qmi_session_callback (ss_id s2) STA_MSG_SOCKET_OPEN STA_SESSION_ERR_SUCCESS None 0
              (upd_st a s2 (msgs st) w (callbacks st) (session_id_tmp st) st))
       else session_reset e a (qmi_session_callback (-1) STA_MSG_SOCKET_OPEN (ss_err s2) None 0
              (upd_st a s2 (msgs st) w (callbacks st) (session_id_tmp st) st)))"
    using s i(1) host(1) port r by (simp add: handle_open_def ses get_ses_def split del: if_split)
  then show ?thesis
    using finish_open [where e = e, OF core s link(1-5) _ _ fds opened refl] host(2,3) link(6) by simp
qed

lemma handle_msg_handles:
  assumes "sta_core st as Q D" "session_at st a = Some s" "msg_ok msg" "os_fresh e" "os_ok e"
  shows "handles a s (msg_id msg) as Q D st (handle_msg e a msg st)"
proof (cases "msg_id msg")
  case STA_MSG_SOCKET_CLOSE
  then show ?thesis using assms(3) by (simp add: msg_ok_def)
qed (use handle_open_handles [OF assms(1-3) _ assms(4)] handle_write_handles [OF assms(1-3) _ assms(5)]
       handle_read_handles [OF assms(1-3) _ assms(5)] in \<open>simp_all add: handle_msg_def\<close>)

section \<open>A round of the thread\<close>

lemma msg_ok_string: "msg_ok m \<Longrightarrow> \<exists>t. mem_str (msg_data m) = Inr t"
  using nth_mem [of 2048 "msg_data m"] by (auto simp: msg_ok_def mem_str_def)

definition round_result :: "nat \<Rightarrow> sta_session \<Rightarrow> nat list \<Rightarrow> (nat \<Rightarrow> nat list) \<Rightarrow> (nat \<Rightarrow> sta_msg list) \<Rightarrow> stanet \<Rightarrow> stanet \<Rightarrow> bool" where
  "round_result a s as Q D st st' \<longleftrightarrow> (\<exists>Q' D' s'. sta_inv st' as Q' D' \<and> session_at st' a = Some s' \<and> ss_mode s' = Waiting
     \<and> ss_id s' = ss_id s     \<and> session_fresh st' = session_fresh st \<and> session_list st' = session_list st
     \<and> (\<forall>b. b \<noteq> a \<longrightarrow> session_at st' b = session_at st b \<and> D' b = D b) \<and> (D' a = tl (D a) \<or> D' a = [])
     \<and> (msg_id (hd (D a)) \<noteq> STA_MSG_SOCKET_OPEN \<longrightarrow>
          ss_state s' = ss_state s \<and> ss_sockfd s' = ss_sockfd s \<and> D' a = tl (D a)))"

lemma sta_core_pop:
  assumes core: "sta_core st as Q D" and s: "session_at st a = Some s" and d: "D a = msg # ds"
  shows "\<exists>m q h. msg_queue_pop a st = Inr (m, put_ses a (s\<lparr>ss_msg_q := q\<rparr>) (st\<lparr>msgs := h\<rparr>))
    \<and> get_cell m h = Inr \<lparr>c_next = None, c_data = Some msg\<rparr>
    \<and> sta_core (put_ses a (s\<lparr>ss_msg_q := q\<rparr>) (st\<lparr>msgs := h\<rparr>)) as (Q(a := tl (Q a))) (D(a := ds))"
proof -
  have inv: "msgs_inv st Q D" using core by (simp add: sta_core_def)
  from msg_queue_pop_head [of st Q D a s msg ds, OF inv s d] obtain m q h
    where pop: "msg_queue_pop a st = Inr (m, put_ses a (s\<lparr>ss_msg_q := q\<rparr>) (st\<lparr>msgs := h\<rparr>))"
      "get_cell m h = Inr \<lparr>c_next = None, c_data = Some msg\<rparr>"
      "msgs_inv (put_ses a (s\<lparr>ss_msg_q := q\<rparr>) (st\<lparr>msgs := h\<rparr>)) (Q(a := tl (Q a))) (D(a := ds))" by blast
  have "sta_core (upd_st a (s\<lparr>ss_msg_q := q\<rparr>) h (st_world st) (callbacks st) (session_id_tmp st) st) as
     (Q(a := tl (Q a))) (D(a := ds))"
    by (rule sta_core_upd [OF core s msgs_inv_upd_st [OF pop(3)]])
       (use sta_core_ses [OF core s] sta_core_other [OF core s] d in \<open>auto simp: ses_core_def\<close>)
  with pop show ?thesis unfolding upd_st_msgs by blast
qed

lemma thread_round_result:
  assumes inv: "sta_inv st as Q D" and s: "session_at st a = Some s" "ss_mode s = Woken"
    and os: "os_fresh e" "os_ok e"
  shows "thread_round e a st = Inl Diverges \<or> (\<exists>st'. thread_round e a st = Inr st' \<and> round_result a s as Q D st st')"
proof -
  have core: "sta_core st as Q D" using inv by (simp add: sta_inv_def)
  obtain msg ds where d: "D a = msg # ds" using inv s unfolding sta_inv_def by (metis list.exhaust)
  have ok: "msg_ok msg" using sta_core_ses [OF core s(1)] d by (simp add: ses_core_def)
  from sta_core_pop [OF core s(1) d] obtain m q h
    where pop: "msg_queue_pop a st = Inr (m, put_ses a (s\<lparr>ss_msg_q := q\<rparr>) (st\<lparr>msgs := h\<rparr>))"
      "get_cell m h = Inr \<lparr>c_next = None, c_data = Some msg\<rparr>"
      "sta_core (put_ses a (s\<lparr>ss_msg_q := q\<rparr>) (st\<lparr>msgs := h\<rparr>)) as (Q(a := tl (Q a))) (D(a := ds))" by blast
  let ?s1 = "s\<lparr>ss_msg_q := q\<rparr>" and ?st1 = "put_ses a (s\<lparr>ss_msg_q := q\<rparr>) (st\<lparr>msgs := h\<rparr>)"
  obtain t where str: "mem_str (msg_data msg) = Inr t" using msg_ok_string [OF ok] by blast
  have eq: "thread_round e a st = rbind (handle_msg e a msg ?st1) (\<lambda>st2. upd_ses a (\<lambda>s. s\<lparr>ss_mode := Waiting\<rparr>) st2)"
    using pop(1,2) str by (simp add: thread_round_def ses)
  have s1: "session_at ?st1 a = Some ?s1" by (simp add: ses)
  show ?thesis
  proof (cases "handle_msg e a msg ?st1 = Inl Diverges")
    case False
    with handle_msg_handles [OF pop(3) s1 ok os] obtain s' h' w c i Q' D'
      where r: "handle_msg e a msg ?st1 = Inr (upd_st a s' h' w c i ?st1)"
      and core2: "sta_core (upd_st a s' h' w c i ?st1) as Q' D'" and mode: "ss_mode s' = ss_mode ?s1" and sid: "ss_id s' = ss_id ?s1"
      and D': "\<forall>b. b \<noteq> a \<longrightarrow> D' b = (D(a := ds)) b" "D' a = (D(a := ds)) a \<or> D' a = []"
      and kept: "msg_id msg \<noteq> STA_MSG_SOCKET_OPEN \<longrightarrow>
        ss_state s' = ss_state ?s1 \<and> ss_sockfd s' = ss_sockfd ?s1 \<and> D' a = (D(a := ds)) a"
      unfolding handles_def by blast
    let ?st2 = "upd_st a s' h' w c i ?st1"
    let ?st3 = "upd_st a (s'\<lparr>ss_mode := Waiting\<rparr>) h' w c i ?st1"
    have s2: "session_at ?st2 a = Some s'" by (simp add: ses)
    have m3: "msgs_inv (upd_st a (s'\<lparr>ss_mode := Waiting\<rparr>) h' w c i ?st2) Q' D'"
      using core2 s2 msgs_inv_same [of ?st2 Q' D' a s' "s'\<lparr>ss_mode := Waiting\<rparr>" w c i]
      by (auto simp: sta_core_def ses)
    have "sta_core (upd_st a (s'\<lparr>ss_mode := Waiting\<rparr>) h' w c i ?st2) as Q' D'"
      by (rule sta_core_upd [OF core2 s2 m3])
         (use sta_core_ses [OF core2 s2] sta_core_other [OF core2 s2] in \<open>auto simp: ses_core_def ses\<close>)
    then have core3: "sta_core ?st3 as Q' D'" by (simp add: ses)
    have "D' b \<noteq> []" if "session_at ?st3 b = Some t" "ss_mode t = Woken" for b t
      using that inv D'(1) by (cases "b = a") (auto simp: ses sta_inv_def)
    then have "sta_inv ?st3 as Q' D'" using core3 by (simp add: sta_inv_def)
    moreover have "thread_round e a st = Inr ?st3" using r by (simp add: eq upd_ses_def ses)
    ultimately show ?thesis using D' kept d sid
      by (intro disjI2 exI [of _ ?st3] conjI) (auto simp: round_result_def ses intro!: exI [of _ Q'] exI [of _ D'])
  qed (simp add: eq)
qed

section \<open>Sending\<close>

definition msg_bytes :: "byte list option \<Rightarrow> int \<Rightarrow> byte list" where
  "msg_bytes data len = (case data of
     Some d \<Rightarrow> if len > 0 then take (nat len) d @ replicate (2049 - nat len) 0 else replicate 2049 0
   | None \<Rightarrow> replicate 2049 0)"

definition data_fits :: "byte list option \<Rightarrow> int \<Rightarrow> bool" where
  "data_fits data len \<longleftrightarrow> (case data of Some d \<Rightarrow> len \<le> int (length d) \<and> len \<le> 2049 | None \<Rightarrow> True)"

lemma msg_bytes_copied:
  assumes "data_fits data len"
  shows "(case data of Some d \<Rightarrow> if len > 0 then rbind (rd_bytes d 0 (nat len)) (wr_bytes (replicate (SESSION_MSG_MAX_LEN + 1) 0) 0)
      else Inr (replicate (SESSION_MSG_MAX_LEN + 1) 0) | None \<Rightarrow> Inr (replicate (SESSION_MSG_MAX_LEN + 1) 0)) = Inr (msg_bytes data len)"
  using assms
  by (auto simp: data_fits_def msg_bytes_def SESSION_MSG_MAX_LEN_def rd_bytes_ok wr_bytes_ok split: option.splits)

lemma send_msg_result:
  assumes core: "sta_core st as Q D" and s: "session_at st a = Some s"
    and sid: "find (\<lambda>a. ss_id (the (session_at st a)) = sid) as = Some a"
    and al: "alloc_ok e (cell_fresh (msgs st))" and fits: "data_fits data len"
    and msg: "msg = \<lparr>msg_id = mid, data_len = len, msg_data = msg_bytes data len\<rparr>" and ok: "msg_ok msg"
  shows "\<exists>q h. send_msg e sid mid data len st
      = Inr (put_ses a (s\<lparr>ss_mode := cond_signal (ss_mode s), ss_msg_q := q\<rparr>) (st\<lparr>msgs := h\<rparr>))
    \<and> sta_core (put_ses a (s\<lparr>ss_mode := cond_signal (ss_mode s), ss_msg_q := q\<rparr>) (st\<lparr>msgs := h\<rparr>)) as
        (Q(a := Q a @ [cell_fresh (msgs st)])) (D(a := D a @ [msg]))"
proof -
  let ?m = "cell_fresh (msgs st)"
  let ?h = "put_cell ?m \<lparr>c_next = None, c_data = Some msg\<rparr> ((msgs st)\<lparr>cell_fresh := Suc ?m\<rparr>)"
  have inv: "msgs_inv st Q D" using core by (simp add: sta_core_def)
  have new: "?m \<notin> set (Q b)" for b using inv unfolding msgs_inv_def by (metis order_less_irrefl)
  have "msgs_inv (put_ses a s (st\<lparr>msgs := ?h\<rparr>)) (Q(a := Q a)) (D(a := D a))"
  proof (rule msgs_inv_update [OF inv s])
    show "chain ?h (ss_msg_q s) (Q a) (D a)"
      using msgs_inv_chain [OF inv s] new by (simp add: chain_other chain_fresh)
    show "distinct (Q a)" using inv by (simp add: msgs_inv_def)
    show "\<forall>m \<in> set (Q a). m < cell_fresh ?h" using inv unfolding msgs_inv_def by (auto simp: put_cell_def intro: less_SucI)
    show "set (Q b) \<inter> set (Q a) = {}" if "b \<noteq> a" for b using inv that unfolding msgs_inv_def by blast
    show "cell_at ?h x = cell_at (msgs st) x" if "b \<noteq> a" "x \<in> set (Q b)" for b x
      using new [of b] that by (auto simp: put_cell_def)
  qed (simp add: put_cell_def)
  then have inv1: "msgs_inv (st\<lparr>msgs := ?h\<rparr>) Q D"
    unfolding fun_upd_triv by (rule msgs_inv_cong) (simp_all add: ses s)
  have s1: "session_at (st\<lparr>msgs := ?h\<rparr>) a = Some s" using s by simp
  from msg_queue_put_append [OF inv1 s1, of ?m msg] obtain q h
    where put: "msg_queue_put (Some a) ?m (st\<lparr>msgs := ?h\<rparr>)
      = Inr (put_ses a (s\<lparr>ss_mode := cond_signal (ss_mode s), ss_msg_q := q\<rparr>) (st\<lparr>msgs := h\<rparr>))"
    "msgs_inv (put_ses a (s\<lparr>ss_mode := cond_signal (ss_mode s), ss_msg_q := q\<rparr>) (st\<lparr>msgs := h\<rparr>))
        (Q(a := Q a @ [?m])) (D(a := D a @ [msg]))"
    using new by (auto simp: put_cell_def)
  have "session_get sid st = Inr (Some a)" using session_get_find [of st as sid] core sid by (simp add: sta_core_def)
  then have "send_msg e sid mid data len st = msg_queue_put (Some a) ?m (st\<lparr>msgs := ?h\<rparr>)"
    unfolding send_msg_def Let_def msg_bytes_copied [OF fits] using al msg by simp
  moreover have "sta_core (upd_st a (s\<lparr>ss_mode := cond_signal (ss_mode s), ss_msg_q := q\<rparr>) h (st_world st) (callbacks st)
      (session_id_tmp st) st) as (Q(a := Q a @ [?m])) (D(a := D a @ [msg]))"
    by (rule sta_core_upd [OF core s msgs_inv_upd_st [OF put(2)]])
       (use sta_core_ses [OF core s] sta_core_other [OF core s] ok in \<open>auto simp: ses_core_def\<close>)
  ultimately show ?thesis using put(1) unfolding upd_st_msgs by auto
qed

end
