(* ===== verification/Stanet_Steps.thy ===== *)
theory Stanet_Steps
  imports Stanet_Inv
begin

text \<open>
  The daemon as a step relation: the threads of the sessions and the calls of the interface, in
  any order.  The invariant holds in every reachable state.
\<close>

section \<open>The calls of the interface\<close>

lemma sta_core_session:
  assumes "sta_core st as Q D" "find (\<lambda>a. ss_id (the (session_at st a)) = sid) as = Some a"
  shows "\<exists>s. session_at st a = Some s \<and> ss_id s = sid \<and> a \<in> set as"
  using assms dll_alive [of "session_at st" None "session_list st" as a]
  by (auto simp: sta_core_def sessions_inv_def find_Some_iff)

text \<open>A session of the list is the one its id finds.\<close>

lemma sta_core_find:
  assumes core: "sta_core st as Q D" and a: "a \<in> set as" "session_at st a = Some s"
  shows "find (\<lambda>a. ss_id (the (session_at st a)) = ss_id s) as = Some a"
proof -
  have inj: "inj_on (\<lambda>a. ss_id (the (session_at st a))) (set as)"
    using core by (simp add: sta_core_def session_seq_def distinct_map comp_def)
  show ?thesis
  proof (cases "find (\<lambda>a. ss_id (the (session_at st a)) = ss_id s) as")
    case None
    then show ?thesis using a by (auto simp: find_None_iff)
  next
    case (Some b)
    then have "b \<in> set as" "ss_id (the (session_at st b)) = ss_id s" by (auto simp: find_Some_iff)
    then show ?thesis using inj_onD [OF inj, of a b] a Some by simp
  qed
qed

lemma sta_inv_send:
  assumes inv: "sta_inv st as Q D"
    and new: "sta_core (put_ses a (s\<lparr>ss_mode := cond_signal (ss_mode s), ss_msg_q := q\<rparr>) (st0\<lparr>msgs := h\<rparr>)) as
        (Q(a := Q a @ [m])) (D(a := D a @ [msg]))"
    and same: "\<And>b. b \<noteq> a \<Longrightarrow> session_at st0 b = session_at st b"
  shows "sta_inv (put_ses a (s\<lparr>ss_mode := cond_signal (ss_mode s), ss_msg_q := q\<rparr>) (st0\<lparr>msgs := h\<rparr>)) as
        (Q(a := Q a @ [m])) (D(a := D a @ [msg]))"
  using inv new same by (auto simp: sta_inv_def ses split: if_splits)

text \<open>What a request does to the session it is for: its state, one more message, a signal.\<close>

definition sent :: "nat \<Rightarrow> sta_session \<Rightarrow> sta_msg \<Rightarrow> nat list \<Rightarrow> (nat \<Rightarrow> nat list) \<Rightarrow> (nat \<Rightarrow> sta_msg list) \<Rightarrow> stanet \<Rightarrow> stanet \<Rightarrow> bool" where
  "sent a s msg as Q D st st' \<longleftrightarrow> (\<exists>Q' q. sta_inv st' as Q' (D(a := D a @ [msg]))
     \<and> session_at st' = (session_at st)(a \<mapsto> s\<lparr>ss_mode := cond_signal (ss_mode s), ss_msg_q := q\<rparr>)
     \<and> st_world st' = st_world st \<and> callbacks st' = callbacks st \<and> session_fresh st' = session_fresh st)"

lemma session_request_sent:
  assumes inv: "sta_inv st as Q D" and a: "a \<in> set as" "session_at st a = Some s" and ready: "session_ready s"
    and new: "new \<in> {STA_SESSION_STATE_WRITING, STA_SESSION_STATE_READING, STA_SESSION_STATE_CLOSING}"
    and al: "alloc_ok e (cell_fresh (msgs st))" and fits: "data_fits data len"
    and ok: "msg_ok \<lparr>msg_id = mid, data_len = len, msg_data = msg_bytes data len\<rparr>"
  shows "\<exists>st'. session_request e new mid (ss_id s) data len st = Inr (0, st')
    \<and> sent a (s\<lparr>ss_state := new\<rparr>) \<lparr>msg_id = mid, data_len = len, msg_data = msg_bytes data len\<rparr> as Q D st st'"
proof -
  have core: "sta_core st as Q D" using inv by (simp add: sta_inv_def)
  let ?s = "s\<lparr>ss_state := new\<rparr>" and ?st = "put_ses a (s\<lparr>ss_state := new\<rparr>) st"
  let ?msg = "\<lparr>msg_id = mid, data_len = len, msg_data = msg_bytes data len\<rparr>"
  have st: "?st = upd_st a ?s (msgs st) (st_world st) (callbacks st) (session_id_tmp st) st"
    by (simp add: upd_st_def put_ses_def)
  have inuse: "ss_state s \<noteq> STA_SESSION_STATE_UNUSED" using ready by (auto simp: session_ready_def)
  have core1: "sta_core ?st as Q D" unfolding st
  proof (rule sta_core_upd [OF core a(2)])
    show "msgs_inv (upd_st a ?s (msgs st) (st_world st) (callbacks st) (session_id_tmp st) st) Q D"
      using core a(2) by (intro msgs_inv_same) (auto simp: sta_core_def)
    show "ses_core (st_world st) ?s (D a)"
      using sta_core_ses [OF core a(2)] inuse new by (auto simp: ses_core_def)
  qed (use sta_core_other [OF core a(2)] in auto)
  have s1: "session_at ?st a = Some ?s" by (simp add: ses)
  have f1: "find (\<lambda>b. ss_id (the (session_at ?st b)) = ss_id s) as = Some a"
    using sta_core_find [OF core1 a(1) s1] by simp
  have al1: "alloc_ok e (cell_fresh (msgs ?st))" using al by (simp add: ses)
  obtain q h where send: "send_msg e (ss_id s) mid data len ?st
      = Inr (put_ses a (?s\<lparr>ss_mode := cond_signal (ss_mode ?s), ss_msg_q := q\<rparr>) (?st\<lparr>msgs := h\<rparr>))"
    "sta_core (put_ses a (?s\<lparr>ss_mode := cond_signal (ss_mode ?s), ss_msg_q := q\<rparr>) (?st\<lparr>msgs := h\<rparr>)) as
        (Q(a := Q a @ [cell_fresh (msgs ?st)])) (D(a := D a @ [?msg]))"
    using send_msg_result [OF core1 s1 f1 al1 fits refl ok] by blast
  let ?st' = "put_ses a (?s\<lparr>ss_mode := cond_signal (ss_mode ?s), ss_msg_q := q\<rparr>) (?st\<lparr>msgs := h\<rparr>)"
  have "sta_inv ?st' as (Q(a := Q a @ [cell_fresh (msgs ?st)])) (D(a := D a @ [?msg]))"
    by (rule sta_inv_send [OF inv send(2)]) (simp add: ses)
  moreover have "session_get (ss_id s) st = Inr (Some a)"
    using session_get_find [of st as] core sta_core_find [OF core a] by (simp add: sta_core_def)
  then have "session_request e new mid (ss_id s) data len st = Inr (0, ?st')"
    using a(2) ready send(1) by (simp add: session_request_def ses)
  ultimately show ?thesis unfolding sent_def
    by (intro exI [of _ ?st'] conjI exI) (auto simp: put_ses_def)
qed

lemma session_request_refused:
  assumes core: "sta_core st as Q D"
    and no: "\<And>a s. a \<in> set as \<Longrightarrow> session_at st a = Some s \<Longrightarrow> ss_id s = sid \<Longrightarrow> \<not> session_ready s"
  shows "session_request e new mid sid data len st = Inr (-1, st)"
proof -
  have get: "session_get sid st = Inr (find (\<lambda>a. ss_id (the (session_at st a)) = sid) as)"
    using core by (intro session_get_find) (simp add: sta_core_def)
  show ?thesis
  proof (cases "find (\<lambda>a. ss_id (the (session_at st a)) = sid) as")
    case None
    then show ?thesis by (simp add: session_request_def get)
  next
    case (Some a)
    from sta_core_session [OF core Some] no obtain s where "session_at st a = Some s" "\<not> session_ready s" by blast
    then show ?thesis using Some by (simp add: session_request_def get ses)
  qed
qed

section \<open>Opening\<close>

definition open_text :: "byte list \<Rightarrow> int \<Rightarrow> byte list" where
  "open_text h port = h @ [0x3A] @ dec_int port"

definition open_msg :: "byte list \<Rightarrow> int \<Rightarrow> sta_msg" where
  "open_msg h port = \<lparr>msg_id = STA_MSG_SOCKET_OPEN, data_len = int (length (open_text h port)),
     msg_data = open_text h port @ replicate (2049 - length (open_text h port)) 0\<rparr>"

text \<open>The host and the port that fit into the buffers of the daemon.\<close>

definition host_ok :: "byte list \<Rightarrow> int \<Rightarrow> bool" where
  "host_ok h port \<longleftrightarrow> 0 < port \<and> h \<noteq> [] \<and> length h < 128 \<and> length (open_text h port) < 133"

lemma open_msg_ok: "host_ok h port \<Longrightarrow> msg_ok (open_msg h port)"
  unfolding msg_ok_def open_msg_def host_ok_def open_text_def
  by (auto simp: nth_append)

lemma stanet_session_open_sent:
  assumes inv: "sta_inv st as Q D"
    and a: "find (\<lambda>a. ss_state (the (session_at st a)) = STA_SESSION_STATE_UNUSED) as = Some a" "session_at st a = Some s"
    and ids: "0 \<le> ss_id s" and al: "alloc_ok e (cell_fresh (msgs st))" and h: "host_ok h port"
  shows "\<exists>st'. stanet_session_open e (Some h) port st = Inr (0, st') \<and> sent a s (open_msg h port) as Q D st st'"
proof -
  have core: "sta_core st as Q D" using inv by (simp add: sta_inv_def)
  have in_as: "a \<in> set as" using a(1) by (auto simp: find_Some_iff)
  have usable: "session_get_usable st = Inr (ss_id s)"
  proof -
    have "find (\<lambda>s. ss_state s = STA_SESSION_STATE_UNUSED) (session_seq st as) = Some s"
      using a unfolding session_seq_def
      by (induction as) (auto split: if_splits)
    then show ?thesis using session_get_usable_find [of st as] core by (simp add: sta_core_def)
  qed
  let ?t = "open_text h port"
  have len: "length ?t < 133" and hl: "0 < length h" "length h \<le> SESSION_HOST_MAX_LEN" and p: "\<not> port \<le> 0"
    using h by (auto simp: host_ok_def SESSION_HOST_MAX_LEN_def)
  have w1: "wr_bytes (replicate (SESSION_HOST_MAX_LEN + 5) 0) 0 (take (SESSION_HOST_MAX_LEN + 4) ?t @ [0])
      = Inr (?t @ replicate (133 - length ?t) 0)"
    using len by (auto simp: wr_bytes_ok SESSION_HOST_MAX_LEN_def Suc_diff_Suc simp flip: replicate_Suc)
  obtain k where k: "133 - length ?t = Suc k" using len by (metis Suc_diff_Suc zero_less_diff Suc_pred)
  have w2: "wr_buf (?t @ replicate (133 - length ?t) 0) (int (length ?t)) 0 = Inr (?t @ replicate (133 - length ?t) 0)"
    unfolding k by (simp add: wr_buf_at)
  have bytes: "msg_bytes (Some (?t @ replicate (133 - length ?t) 0)) (int (length ?t)) = msg_data (open_msg h port)"
  proof -
    have "0 < length ?t" by (simp add: open_text_def)
    then show ?thesis by (simp add: msg_bytes_def open_msg_def)
  qed
  have fits: "data_fits (Some (?t @ replicate (133 - length ?t) 0)) (int (length ?t))" using len by (simp add: data_fits_def)
  have msg: "open_msg h port = \<lparr>msg_id = STA_MSG_SOCKET_OPEN, data_len = int (length ?t),
      msg_data = msg_bytes (Some (?t @ replicate (133 - length ?t) 0)) (int (length ?t))\<rparr>"
    unfolding bytes by (simp add: open_msg_def)
  obtain q h' where send: "send_msg e (ss_id s) STA_MSG_SOCKET_OPEN (Some (?t @ replicate (133 - length ?t) 0)) (int (length ?t)) st
      = Inr (put_ses a (s\<lparr>ss_mode := cond_signal (ss_mode s), ss_msg_q := q\<rparr>) (st\<lparr>msgs := h'\<rparr>))"
    "sta_core (put_ses a (s\<lparr>ss_mode := cond_signal (ss_mode s), ss_msg_q := q\<rparr>) (st\<lparr>msgs := h'\<rparr>)) as
        (Q(a := Q a @ [cell_fresh (msgs st)])) (D(a := D a @ [open_msg h port]))"
    using send_msg_result [OF core a(2) sta_core_find [OF core in_as a(2)] al fits msg open_msg_ok [OF h]] by blast
  let ?st' = "put_ses a (s\<lparr>ss_mode := cond_signal (ss_mode s), ss_msg_q := q\<rparr>) (st\<lparr>msgs := h'\<rparr>)"
  have "sta_inv ?st' as (Q(a := Q a @ [cell_fresh (msgs st)])) (D(a := D a @ [open_msg h port]))"
    by (rule sta_inv_send [OF inv send(2)]) simp
  moreover have "stanet_session_open e (Some h) port st = Inr (0, ?st')"
    using p hl usable ids w1 w2 send(1)
    unfolding stanet_session_open_def open_text_def [symmetric] Let_def by simp
  ultimately show ?thesis unfolding sent_def
    by (intro exI [of _ ?st'] conjI exI) (auto simp: put_ses_def)
qed

section \<open>The start of the daemon\<close>

text \<open>A session as \<open>session_init\<close> leaves it, apart from its links.\<close>

definition fresh_session :: "sta_session \<Rightarrow> bool" where
  "fresh_session s \<longleftrightarrow> ss_state s = STA_SESSION_STATE_UNUSED \<and> ss_sockfd s = -1 \<and> ss_host s = replicate 128 0
     \<and> ss_msg_q s = None \<and> ss_mode s \<in> {NoThread, Starting}"

definition fresh_daemon :: "stanet \<Rightarrow> nat list \<Rightarrow> bool" where
  "fresh_daemon st as \<longleftrightarrow> sessions_inv st as \<and> distinct (map ss_id (session_seq st as))
     \<and> (\<forall>a s. session_at st a = Some s \<longrightarrow> a < session_fresh st \<and> fresh_session s)"

lemma fresh_daemon_inv:
  assumes "fresh_daemon st as"
  shows "sta_inv st as (\<lambda>_. []) (\<lambda>_. [])"
proof -
  have "msgs_inv st (\<lambda>_. []) (\<lambda>_. [])" using assms by (simp add: msgs_inv_def fresh_daemon_def fresh_session_def)
  moreover have "ses_core w s []" if "fresh_session s" for w s
    using that by (simp add: ses_core_def fresh_session_def)
  ultimately show ?thesis
    using assms by (fastforce simp: sta_inv_def sta_core_def fresh_daemon_def fresh_session_def)
qed

lemma session_add_links:
  assumes "map_option (\<lambda>s. s\<lparr>ss_pre := None, ss_next := None\<rparr>) x = map_option (\<lambda>s. s\<lparr>ss_pre := None, ss_next := None\<rparr>) y"
  shows "map_option fresh_session x = map_option fresh_session y" "map_option ss_id x = map_option ss_id y"
    "map_option ss_mode x = map_option ss_mode y"
  using assms by (cases x; cases y; auto simp: fresh_session_def dest: arg_cong [of _ _ ss_id] arg_cong [of _ _ ss_state]
      arg_cong [of _ _ ss_sockfd] arg_cong [of _ _ ss_host] arg_cong [of _ _ ss_msg_q] arg_cong [of _ _ ss_mode])+

text \<open>One round of the loop, when the thread is created and when it is not.\<close>

lemma session_init_fresh:
  assumes "fresh_daemon st as" "\<forall>i \<in> set (map ss_id (session_seq st as)). int (Suc n) \<le> i"
    and init: "session_init e (session_fresh st) (int n) (st\<lparr>session_fresh := Suc (session_fresh st)\<rparr>) = (ok, st1)"
  shows "fresh_daemon st1 as \<and> session_seq st1 as = session_seq st as \<and> session_fresh st1 = Suc (session_fresh st)
    \<and> (\<exists>s. session_at st1 (session_fresh st) = Some s \<and> ss_id s = int n \<and> fresh_session s)
    \<and> session_fresh st \<notin> set as"
proof -
  let ?a = "session_fresh st"
  have na: "?a \<notin> set as" using assms(1) by (auto simp: fresh_daemon_def sessions_inv_def)
  obtain s w where st1: "st1 = put_ses ?a s (st\<lparr>session_fresh := Suc ?a, st_world := w\<rparr>)" and s: "ss_id s = int n" "fresh_session s"
    using init by (auto simp: session_init_def st_sys_eq Let_def fresh_session_def SESSION_HOST_MAX_LEN_def)
  have "dll (session_at st1) None (session_list st1) as"
    using assms(1) na by (simp add: st1 fresh_daemon_def sessions_inv_def ses dll_upd_other)
  moreover have seq: "session_seq st1 as = session_seq st as"
    using na by (auto simp: st1 session_seq_def ses)
  ultimately have "fresh_daemon st1 as"
    using assms(1) s(2) seq unfolding fresh_daemon_def
    by (auto simp: st1 sessions_inv_def ses less_Suc_eq)
  then show ?thesis using seq na s by (auto simp: st1 ses)
qed

lemma session_add_fresh:
  assumes fd: "fresh_daemon st as" and a: "session_at st a = Some s" "a \<notin> set as" "ss_id s \<notin> ss_id ` set (session_seq st as)"
  shows "\<exists>st'. session_add a st = Inr st' \<and> fresh_daemon st' (a # as)
    \<and> map ss_id (session_seq st' (a # as)) = ss_id s # map ss_id (session_seq st as)
    \<and> map_option ss_mode (session_at st' a) = map_option ss_mode (session_at st a)"
proof -
  have inv: "sessions_inv st as" "a < session_fresh st" using fd a(1) by (simp_all add: fresh_daemon_def)
  obtain st' where st': "session_add a st = Inr st'" "sessions_inv st' (a # as)" "session_fresh st' = session_fresh st"
    and same: "\<And>b. map_option (\<lambda>s. s\<lparr>ss_pre := None, ss_next := None\<rparr>) (session_at st' b)
         = map_option (\<lambda>s. s\<lparr>ss_pre := None, ss_next := None\<rparr>) (session_at st b)"
    using session_add_Cons [OF inv(1) a(1,2) inv(2)] by blast
  note same' = session_add_links [OF same]
  have alive: "\<exists>t. session_at st b = Some t" if "b \<in> set as" for b
    using inv(1) that dll_alive by (fastforce simp: sessions_inv_def)
  have ids: "ss_id (the (session_at st' b)) = ss_id (the (session_at st b))" if "session_at st b = Some t" for b t
    using same'(2) [of b] that by (cases "session_at st' b") auto
  have seq: "map ss_id (session_seq st' (a # as)) = ss_id s # map ss_id (session_seq st as)"
    using ids [OF a(1)] a(1) alive ids by (auto simp: session_seq_def)
  have "fresh_daemon st' (a # as)"
    unfolding fresh_daemon_def
  proof (intro conjI allI impI)
    show "distinct (map ss_id (session_seq st' (a # as)))"
      unfolding seq using fd a(3) by (auto simp: fresh_daemon_def)
    fix b t assume "session_at st' b = Some t"
    moreover from this same'(1) [of b] obtain u where "session_at st b = Some u" "fresh_session u = fresh_session t"
      by (cases "session_at st b") auto
    ultimately show "b < session_fresh st'" "fresh_session t" using fd st'(3) by (auto simp: fresh_daemon_def)
  qed (rule st'(2))
  then show ?thesis using st'(1) seq same'(3) [of a] by (intro exI [of _ st'] conjI)
qed

lemma session_list_create_fresh:
  assumes "fresh_daemon st as" "\<forall>i \<in> set (map ss_id (session_seq st as)). int n \<le> i" "\<And>k. alloc_ok e k"
  shows "\<exists>st' as'. session_list_create_loop e n st = Inr st' \<and> fresh_daemon st' as'
    \<and> (\<forall>i \<in> set (map ss_id (session_seq st' as')). 0 \<le> i)
    \<and> ((\<forall>w a. answer e w (SysThreadCreate a) = 0) \<longrightarrow>
         map ss_id (session_seq st' as') = map int [0..<n] @ map ss_id (session_seq st as))"
  using assms(1,2)
proof (induction n arbitrary: st as)
  case (Suc n)
  let ?a = "session_fresh st"
  obtain ok st1 where init: "session_init e ?a (int n) (st\<lparr>session_fresh := Suc ?a\<rparr>) = (ok, st1)" by fastforce
  have ok: "ok" if "\<forall>w a. answer e w (SysThreadCreate a) = 0"
    using init that by (simp add: session_init_def st_sys_eq Let_def)
  from session_init_fresh [OF Suc.prems init] obtain s where fd1: "fresh_daemon st1 as" "session_seq st1 as = session_seq st as"
    and s: "session_at st1 ?a = Some s" "ss_id s = int n" "?a \<notin> set as" by blast
  show ?case
  proof (cases ok)
    case False
    have "\<forall>i \<in> set (map ss_id (session_seq st1 as)). int n \<le> i" using Suc.prems(2) fd1(2) by auto
    from Suc.IH [OF fd1(1) this] obtain st' as' where "session_list_create_loop e n st1 = Inr st'" "fresh_daemon st' as'"
      "\<forall>i \<in> set (map ss_id (session_seq st' as')). 0 \<le> i" by blast
    moreover have "session_list_create_loop e (Suc n) st = session_list_create_loop e n st1"
      using False init assms(3) by (simp add: Let_def)
    ultimately show ?thesis using False ok by metis
  next
    case True
    have "ss_id s \<notin> ss_id ` set (session_seq st1 as)" using Suc.prems(2) fd1(2) s(2) by force
    from session_add_fresh [OF fd1(1) s(1,3) this] obtain st2 where add: "session_add ?a st1 = Inr st2"
      "fresh_daemon st2 (?a # as)" "map ss_id (session_seq st2 (?a # as)) = int n # map ss_id (session_seq st as)"
      using s(2) fd1(2) by auto
    have "\<forall>i \<in> set (map ss_id (session_seq st2 (?a # as))). int n \<le> i"
      unfolding add(3) using Suc.prems(2) by auto
    from Suc.IH [OF add(2) this] obtain st' as' where "session_list_create_loop e n st2 = Inr st'" "fresh_daemon st' as'"
      "\<forall>i \<in> set (map ss_id (session_seq st' as')). 0 \<le> i"
      "(\<forall>w a. answer e w (SysThreadCreate a) = 0) \<longrightarrow>
         map ss_id (session_seq st' as') = map int [0..<n] @ map ss_id (session_seq st2 (?a # as))" by blast
    moreover have "session_list_create_loop e (Suc n) st = session_list_create_loop e n st2"
      using True init add(1) assms(3) by (simp add: Let_def)
    moreover have "map int [0..<n] @ map ss_id (session_seq st2 (?a # as)) = map int [0..<Suc n] @ map ss_id (session_seq st as)"
      unfolding add(3) by simp
    ultimately show ?thesis by metis
  qed
qed force

lemma stanet_init_fresh:
  assumes "\<And>k. alloc_ok e k"
  shows "\<exists>st as. stanet_init e = Inr st \<and> fresh_daemon st as \<and> (\<forall>i \<in> set (map ss_id (session_seq st as)). 0 \<le> i)
    \<and> ((\<forall>w a. answer e w (SysThreadCreate a) = 0) \<longrightarrow> map ss_id (session_seq st as) = [0, 1, 2, 3, 4])"
proof -
  let ?st = "stanet0\<lparr>st_world := [(SysEpollCreate, answer e [] SysEpollCreate)], epoll_fd := answer e [] SysEpollCreate\<rparr>"
  have "fresh_daemon ?st []" by (simp add: fresh_daemon_def sessions_inv_def session_seq_def stanet0_def)
  from session_list_create_fresh [OF this, of SESSION_MAX_COUNT e] assms show ?thesis
    by (auto simp: stanet_init_def session_list_create_def st_sys_eq SESSION_MAX_COUNT_def session_seq_def stanet0_def
        upt_rec [of _ 5] upt_conv_Cons eval_nat_numeral)
qed

section \<open>Steps\<close>

text \<open>A thread starts to wait or works on a message; a caller opens, writes, reads or closes with
  arguments that fit into the buffers.\<close>

inductive sta_step :: "os \<Rightarrow> stanet \<Rightarrow> stanet \<Rightarrow> bool" for e where
  thread_starts: "session_at st a = Some s \<Longrightarrow> ss_mode s = Starting \<Longrightarrow> thread_start a st = Inr st' \<Longrightarrow> sta_step e st st'"
| thread_works: "session_at st a = Some s \<Longrightarrow> ss_mode s = Woken \<Longrightarrow> thread_round e a st = Inr st' \<Longrightarrow> sta_step e st st'"
| caller_opens: "host_ok h port \<Longrightarrow> stanet_session_open e (Some h) port st = Inr (r, st') \<Longrightarrow> sta_step e st st'"
| caller_writes: "0 \<le> len \<Longrightarrow> len \<le> 2048 \<Longrightarrow> len \<le> int (length buf) \<Longrightarrow>
    stanet_session_write e sid (Some buf) len st = Inr (r, st') \<Longrightarrow> sta_step e st st'"
| caller_reads: "0 \<le> len \<Longrightarrow> stanet_session_read e sid buf len st = Inr (r, st') \<Longrightarrow> sta_step e st st'"
| caller_closes: "stanet_session_close e sid st = Inr (r, st') \<Longrightarrow> sta_step e st st'"

inductive sta_reach :: "os \<Rightarrow> stanet \<Rightarrow> bool" for e where
  init: "stanet_init e = Inr st \<Longrightarrow> sta_reach e st"
| step: "sta_reach e st \<Longrightarrow> sta_step e st st' \<Longrightarrow> sta_reach e st'"

text \<open>The system as documented: sizes of reads and writes, fresh descriptors, memory.\<close>

definition os_good :: "os \<Rightarrow> bool" where
  "os_good e \<longleftrightarrow> os_ok e \<and> os_fresh e \<and> (\<forall>k. alloc_ok e k)"

text \<open>The effect of a step on the sessions: one of them changes.\<close>

definition sta_good :: "stanet \<Rightarrow> nat list \<Rightarrow> (nat \<Rightarrow> nat list) \<Rightarrow> (nat \<Rightarrow> sta_msg list) \<Rightarrow> bool" where
  "sta_good st as Q D \<longleftrightarrow> sta_inv st as Q D \<and> (\<forall>i \<in> set (map ss_id (session_seq st as)). 0 \<le> i)"

lemma same_ids:
  assumes "sta_inv st' as Q' D'" "sta_good st as Q D"
    "\<And>b. map_option ss_id (session_at st' b) = map_option ss_id (session_at st b)"
  shows "sta_good st' as Q' D'"
proof -
  have "ss_id (the (session_at st' b)) = ss_id (the (session_at st b))" if "b \<in> set as" for b
  proof -
    have "\<exists>t. session_at st b = Some t"
      using assms(2) that dll_alive by (fastforce simp: sta_good_def sta_inv_def sta_core_def sessions_inv_def)
    then show ?thesis using assms(3) [of b] by (cases "session_at st' b") auto
  qed
  then show ?thesis using assms(1,2) by (auto simp: sta_good_def session_seq_def)
qed

lemma sent_good:
  assumes "sent a s' msg as Q D st st'" "sta_good st as Q D" "session_at st a = Some s" "ss_id s' = ss_id s"
  shows "\<exists>Q'. sta_good st' as Q' (D(a := D a @ [msg]))"
proof -
  obtain Q' q where r: "sta_inv st' as Q' (D(a := D a @ [msg]))"
    "session_at st' = (session_at st)(a \<mapsto> s'\<lparr>ss_mode := cond_signal (ss_mode s'), ss_msg_q := q\<rparr>)"
    using assms(1) unfolding sent_def by blast
  have "sta_good st' as Q' (D(a := D a @ [msg]))"
    by (rule same_ids [OF r(1) assms(2)]) (use r(2) assms(3,4) in auto)
  then show ?thesis by blast
qed

lemma round_good:
  assumes "round_result a s as Q D st st'" "sta_good st as Q D" "session_at st a = Some s"
  shows "\<exists>Q' D'. sta_good st' as Q' D'"
proof -
  obtain Q' D' s' where r: "sta_inv st' as Q' D'" "session_at st' a = Some s'" "ss_id s' = ss_id s"
    "\<forall>b. b \<noteq> a \<longrightarrow> session_at st' b = session_at st b" using assms(1) unfolding round_result_def by blast
  have "map_option ss_id (session_at st' b) = map_option ss_id (session_at st b)" for b
    using r assms(3) by (cases "b = a") auto
  then show ?thesis using same_ids [OF r(1) assms(2)] by blast
qed

text \<open>A request is refused or sent.\<close>

definition requested :: "sta_session_state \<Rightarrow> sta_msg \<Rightarrow> int \<Rightarrow> nat list \<Rightarrow> (nat \<Rightarrow> nat list) \<Rightarrow> (nat \<Rightarrow> sta_msg list) \<Rightarrow>
    stanet \<Rightarrow> int \<times> stanet \<Rightarrow> bool" where
  "requested new msg sid as Q D st r \<longleftrightarrow> r = (-1, st) \<or>
     (fst r = 0 \<and> (\<exists>a s. a \<in> set as \<and> session_at st a = Some s \<and> ss_id s = sid \<and> session_ready s
        \<and> sent a (s\<lparr>ss_state := new\<rparr>) msg as Q D st (snd r)))"

lemma session_request_cases:
  assumes inv: "sta_inv st as Q D" and os: "os_good e"
    and new: "new \<in> {STA_SESSION_STATE_WRITING, STA_SESSION_STATE_READING, STA_SESSION_STATE_CLOSING}"
    and fits: "data_fits data len" and ok: "msg_ok \<lparr>msg_id = mid, data_len = len, msg_data = msg_bytes data len\<rparr>"
  shows "\<exists>r. session_request e new mid sid data len st = Inr r
    \<and> requested new \<lparr>msg_id = mid, data_len = len, msg_data = msg_bytes data len\<rparr> sid as Q D st r"
proof (cases "\<exists>a s. a \<in> set as \<and> session_at st a = Some s \<and> ss_id s = sid \<and> session_ready s")
  case True
  then obtain a s where a: "a \<in> set as" "session_at st a = Some s" "ss_id s = sid" "session_ready s" by blast
  have "alloc_ok e (cell_fresh (msgs st))" using os by (simp add: os_good_def)
  from session_request_sent [OF inv a(1,2,4) new this fits ok] obtain st' where
    "session_request e new mid sid data len st = Inr (0, st')"
    "sent a (s\<lparr>ss_state := new\<rparr>) \<lparr>msg_id = mid, data_len = len, msg_data = msg_bytes data len\<rparr> as Q D st st'"
    using a(3) by blast
  then show ?thesis using a unfolding requested_def by (intro exI [of _ "(0, st')"]) auto
next
  case False
  have "sta_core st as Q D" using inv by (simp add: sta_inv_def)
  then have "session_request e new mid sid data len st = Inr (-1, st)"
    using False by (intro session_request_refused) auto
  then show ?thesis by (simp add: requested_def)
qed

lemma requested_good:
  assumes "requested new msg sid as Q D st r" "sta_good st as Q D"
  shows "\<exists>Q' D'. sta_good (snd r) as Q' D'"
  using assms(1) unfolding requested_def
proof (elim disjE conjE exE)
  fix a s assume "session_at st a = Some s" "sent a (s\<lparr>ss_state := new\<rparr>) msg as Q D st (snd r)"
  then show ?thesis using sent_good [of a "s\<lparr>ss_state := new\<rparr>" msg as Q D st "snd r" s] assms(2) by auto
qed (use assms(2) in auto)

text \<open>The messages of the three requests.\<close>

definition write_msg :: "byte list \<Rightarrow> int \<Rightarrow> sta_msg" where
  "write_msg buf len = \<lparr>msg_id = STA_MSG_SOCKET_WRITE, data_len = len, msg_data = msg_bytes (Some buf) len\<rparr>"

definition read_msg :: "int \<Rightarrow> sta_msg" where
  "read_msg len = \<lparr>msg_id = STA_MSG_SOCKET_READ, data_len = len, msg_data = msg_bytes None len\<rparr>"

lemma write_msg_ok: "0 \<le> len \<Longrightarrow> len \<le> 2048 \<Longrightarrow> len \<le> int (length buf) \<Longrightarrow> msg_ok (write_msg buf len)"
  by (auto simp: msg_ok_def write_msg_def msg_bytes_def nth_append)

lemma read_msg_ok: "0 \<le> len \<Longrightarrow> msg_ok (read_msg len)"
  by (auto simp: msg_ok_def read_msg_def msg_bytes_def)

lemma stanet_session_write_cases:
  assumes "sta_inv st as Q D" "os_good e" "0 \<le> len" "len \<le> 2048" "len \<le> int (length buf)"
  shows "\<exists>r. stanet_session_write e sid (Some buf) len st = Inr r
    \<and> requested STA_SESSION_STATE_WRITING (write_msg buf len) sid as Q D st r"
  unfolding stanet_session_write_def write_msg_def
  by (rule session_request_cases [OF assms(1,2)]) (use assms write_msg_ok in \<open>auto simp: data_fits_def write_msg_def\<close>)

lemma stanet_session_read_cases:
  assumes "sta_inv st as Q D" "os_good e" "0 \<le> len"
  shows "\<exists>r. stanet_session_read e sid buf len st = Inr r
    \<and> requested STA_SESSION_STATE_READING (read_msg len) sid as Q D st r"
  unfolding stanet_session_read_def read_msg_def
  by (rule session_request_cases [OF assms(1,2)]) (use assms read_msg_ok in \<open>auto simp: data_fits_def read_msg_def\<close>)

lemma stanet_session_close_cases:
  assumes "sta_inv st as Q D" "os_good e"
  shows "\<exists>r. stanet_session_close e sid st = Inr r
    \<and> requested STA_SESSION_STATE_CLOSING (read_msg 0) sid as Q D st r"
  unfolding stanet_session_close_def read_msg_def
  by (rule session_request_cases [OF assms(1,2)]) (use read_msg_ok in \<open>auto simp: data_fits_def read_msg_def\<close>)

text \<open>Opening finds the first unused session or fails.\<close>

definition open_requested :: "sta_msg \<Rightarrow> nat list \<Rightarrow> (nat \<Rightarrow> nat list) \<Rightarrow> (nat \<Rightarrow> sta_msg list) \<Rightarrow> stanet \<Rightarrow> int \<times> stanet \<Rightarrow> bool" where
  "open_requested msg as Q D st r \<longleftrightarrow>
     (case find (\<lambda>a. ss_state (the (session_at st a)) = STA_SESSION_STATE_UNUSED) as of
        None \<Rightarrow> r = (-1, st)
      | Some a \<Rightarrow> fst r = 0 \<and> (\<exists>s. session_at st a = Some s \<and> sent a s msg as Q D st (snd r)))"

lemma stanet_session_open_cases:
  assumes good: "sta_good st as Q D" and os: "os_good e" and h: "host_ok h port"
  shows "\<exists>r. stanet_session_open e (Some h) port st = Inr r \<and> open_requested (open_msg h port) as Q D st r"
proof (cases "find (\<lambda>a. ss_state (the (session_at st a)) = STA_SESSION_STATE_UNUSED) as")
  case None
  have inv: "sessions_inv st as" using good by (simp add: sta_good_def sta_inv_def sta_core_def)
  have "find (\<lambda>s. ss_state s = STA_SESSION_STATE_UNUSED) (session_seq st as) = None"
    using None by (auto simp: session_seq_def find_None_iff)
  then have "session_get_usable st = Inr (-1)" using session_get_usable_find [OF inv] by simp
  moreover have "\<not> port \<le> 0" "0 < length h" "\<not> length h > SESSION_HOST_MAX_LEN"
    using h by (auto simp: host_ok_def SESSION_HOST_MAX_LEN_def)
  ultimately have "stanet_session_open e (Some h) port st = Inr (-1, st)" by (simp add: stanet_session_open_def)
  then show ?thesis using None by (simp add: open_requested_def)
next
  case (Some a)
  then have a: "a \<in> set as" by (auto simp: find_Some_iff)
  have dll: "dll (session_at st) None (session_list st) as"
    using good by (simp add: sta_good_def sta_inv_def sta_core_def sessions_inv_def)
  obtain s where s: "session_at st a = Some s" using dll_alive [OF dll a] by blast
  have "0 \<le> ss_id s" using good a s by (force simp: sta_good_def session_seq_def)
  moreover have "alloc_ok e (cell_fresh (msgs st))" using os by (simp add: os_good_def)
  moreover have "sta_inv st as Q D" using good by (simp add: sta_good_def)
  ultimately obtain st' where "stanet_session_open e (Some h) port st = Inr (0, st')" "sent a s (open_msg h port) as Q D st st'"
    using stanet_session_open_sent [OF _ Some s _ _ h] by blast
  then show ?thesis using Some s by (intro exI [of _ "(0, st')"]) (simp add: open_requested_def)
qed

lemma open_requested_good:
  assumes "open_requested msg as Q D st r" "sta_good st as Q D"
  shows "\<exists>Q' D'. sta_good (snd r) as Q' D'"
proof (cases "find (\<lambda>a. ss_state (the (session_at st a)) = STA_SESSION_STATE_UNUSED) as")
  case (Some a)
  then obtain s where "session_at st a = Some s" "sent a s msg as Q D st (snd r)"
    using assms(1) by (auto simp: open_requested_def)
  then show ?thesis using sent_good [of a s msg as Q D st "snd r" s] assms(2) by blast
qed (use assms in \<open>auto simp: open_requested_def\<close>)

section \<open>The invariant in every reachable state\<close>

lemma thread_start_good:
  assumes "sta_good st as Q D" "session_at st a = Some s" "thread_start a st = Inr st'"
  shows "sta_good st' as Q D"
proof -
  let ?s = "s\<lparr>ss_mode := Waiting\<rparr>"
  have st': "st' = upd_st a ?s (msgs st) (st_world st) (callbacks st) (session_id_tmp st) st"
    using assms(2,3) by (simp add: thread_start_def ses upd_st_def put_ses_def)
  have core: "sta_core st as Q D" and inv: "sta_inv st as Q D" using assms(1) by (simp_all add: sta_good_def sta_inv_def)
  have "sta_core st' as Q D" unfolding st'
  proof (rule sta_core_upd [OF core assms(2)])
    show "msgs_inv (upd_st a ?s (msgs st) (st_world st) (callbacks st) (session_id_tmp st) st) Q D"
      using core assms(2) by (intro msgs_inv_same) (auto simp: sta_core_def)
    show "ses_core (st_world st) ?s (D a)" using sta_core_ses [OF core assms(2)] by (simp add: ses_core_def)
  qed (use sta_core_other [OF core assms(2)] in auto)
  then have "sta_inv st' as Q D" using inv by (auto simp: sta_inv_def st' ses split: if_splits)
  then show ?thesis by (rule same_ids [OF _ assms(1)]) (use assms(2) in \<open>auto simp: st' ses\<close>)
qed

lemma sta_step_good:
  assumes "sta_step e st st'" "sta_good st as Q D" "os_good e"
  shows "\<exists>Q' D'. sta_good st' as Q' D'"
  using assms(1)
proof cases
  case (thread_starts a s)
  then show ?thesis using thread_start_good [OF assms(2)] by blast
next
  case (thread_works a s)
  have "sta_inv st as Q D" "os_fresh e" "os_ok e" using assms(2,3) by (simp_all add: sta_good_def os_good_def)
  from thread_round_result [OF this(1) thread_works(1,2) this(2,3)] thread_works(3)
  show ?thesis using round_good [OF _ assms(2) thread_works(1)] by auto
next
  case (caller_opens h port r)
  then show ?thesis using stanet_session_open_cases [OF assms(2,3), of h port] open_requested_good [OF _ assms(2)] by force
next
  case (caller_writes len buf sid r)
  have "sta_inv st as Q D" using assms(2) by (simp add: sta_good_def)
  from stanet_session_write_cases [OF this assms(3) caller_writes(1-3), of sid] caller_writes(4)
  show ?thesis using requested_good [OF _ assms(2)] by force
next
  case (caller_reads len sid buf r)
  have "sta_inv st as Q D" using assms(2) by (simp add: sta_good_def)
  from stanet_session_read_cases [OF this assms(3) caller_reads(1), of sid buf] caller_reads(2)
  show ?thesis using requested_good [OF _ assms(2)] by force
next
  case (caller_closes sid r)
  have "sta_inv st as Q D" using assms(2) by (simp add: sta_good_def)
  from stanet_session_close_cases [OF this assms(3), of sid] caller_closes(1)
  show ?thesis using requested_good [OF _ assms(2)] by force
qed

lemma sta_reach_good:
  assumes "sta_reach e st" "os_good e"
  shows "\<exists>as Q D. sta_good st as Q D"
  using assms(1)
proof induction
  case (init st)
  have "\<And>k. alloc_ok e k" using assms(2) by (simp add: os_good_def)
  from stanet_init_fresh [OF this] init obtain as where "fresh_daemon st as" "\<forall>i \<in> set (map ss_id (session_seq st as)). 0 \<le> i"
    by auto
  from this(1) [THEN fresh_daemon_inv] this(2) show ?case unfolding sta_good_def by blast
next
  case (step st st')
  then show ?case using sta_step_good [OF step(2) _ assms(2)] by blast
qed

section \<open>The queue of a session as a list\<close>

definition queue_of :: "stanet \<Rightarrow> nat \<Rightarrow> sta_msg list" where
  "queue_of st a = (case session_at st a of
     None \<Rightarrow> [] | Some s \<Rightarrow> collect_data (msgs st) (cell_fresh (msgs st)) (ss_msg_q s))"

lemma queue_of_eq: "msgs_inv st Q D \<Longrightarrow> session_at st a = Some s \<Longrightarrow> queue_of st a = D a"
  unfolding queue_of_def
  by (simp add: msgs_inv_def) (metis collect_data_chain bounded_count)

lemma queue_of_good: "sta_good st as Q D \<Longrightarrow> session_at st a = Some s \<Longrightarrow> queue_of st a = D a"
  by (rule queue_of_eq) (auto simp: sta_good_def sta_inv_def sta_core_def)

lemma sent_other:
  assumes "sent a s' msg as Q D st st'" "b \<noteq> a"
  shows "session_at st' b = session_at st b"
proof -
  obtain q where "session_at st' = (session_at st)(a \<mapsto> s'\<lparr>ss_mode := cond_signal (ss_mode s'), ss_msg_q := q\<rparr>)"
    using assms(1) unfolding sent_def by blast
  then show ?thesis using assms(2) by simp
qed

section \<open>A session that is closing\<close>

definition closing :: "nat \<Rightarrow> int \<Rightarrow> stanet \<Rightarrow> bool" where
  "closing a fd st \<longleftrightarrow> (\<exists>as Q D s. sta_good st as Q D \<and> session_at st a = Some s \<and> ss_state s = STA_SESSION_STATE_CLOSING
     \<and> ss_sockfd s = fd \<and> (\<forall>m \<in> set (D a). msg_id m \<noteq> STA_MSG_SOCKET_OPEN))"

lemma closing_unchanged:
  assumes "sta_good st' as' Q' D'" "session_at st a = Some s" "ss_state s = STA_SESSION_STATE_CLOSING"
    "session_at st' a = Some s'" "ss_state s' = ss_state s" "ss_sockfd s' = ss_sockfd s"
    "\<forall>m \<in> set (D' a). msg_id m \<noteq> STA_MSG_SOCKET_OPEN"
  shows "closing a (ss_sockfd s) st'"
  using assms unfolding closing_def by metis

lemma closing_sent:
  assumes sent: "sent b t msg as Q D st st'" and good: "sta_good st as Q D" and b: "session_at st b = Some u" "ss_id t = ss_id u"
    and a: "b \<noteq> a" "session_at st a = Some s" "ss_state s = STA_SESSION_STATE_CLOSING"
    and no: "\<forall>m \<in> set (D a). msg_id m \<noteq> STA_MSG_SOCKET_OPEN"
  shows "closing a (ss_sockfd s) st'"
proof -
  obtain Q' where "sta_good st' as Q' (D(b := D b @ [msg]))" using sent_good [OF sent good b] by blast
  moreover have "session_at st' a = Some s" using sent_other [OF sent] a by auto
  ultimately show ?thesis using a no
    by (intro closing_unchanged [where D' = "D(b := D b @ [msg])" and Q' = Q' and as' = as]) auto
qed

lemma closing_step:
  assumes step: "sta_step e st st'" and cl: "closing a fd st" and os: "os_good e"
  shows "closing a fd st'"
proof -
  obtain as Q D s where good: "sta_good st as Q D" and s: "session_at st a = Some s" "ss_state s = STA_SESSION_STATE_CLOSING"
    "ss_sockfd s = fd" and no: "\<forall>m \<in> set (D a). msg_id m \<noteq> STA_MSG_SOCKET_OPEN" using cl unfolding closing_def by blast
  have inv: "sta_inv st as Q D" using good by (simp add: sta_good_def)
  have req: "closing a fd st'" if "requested new msg sid as Q D st (r, st')" for new msg sid r
    using that unfolding requested_def
  proof (elim disjE conjE exE)
    fix b u assume b: "session_at st b = Some u" "session_ready u" "sent b (u\<lparr>ss_state := new\<rparr>) msg as Q D st (snd (r, st'))"
    have "b \<noteq> a" using b s by (auto simp: session_ready_def)
    then show ?thesis using closing_sent [OF _ good b(1), of "u\<lparr>ss_state := new\<rparr>" msg st' a s] b(3) s no by simp
  qed (use cl in simp)
  from step show ?thesis
  proof cases
    case (thread_starts b t)
    have "sta_good st' as Q D" by (rule thread_start_good [OF good thread_starts(1,3)])
    moreover obtain s' where "session_at st' a = Some s'" "ss_state s' = ss_state s" "ss_sockfd s' = ss_sockfd s"
      using thread_starts s(1) by (cases "b = a") (auto simp: thread_start_def ses)
    ultimately show ?thesis using closing_unchanged [OF _ s(1,2)] no s(3) by simp
  next
    case (thread_works b t)
    have "os_fresh e" "os_ok e" using os by (simp_all add: os_good_def)
    from thread_round_result [OF inv thread_works(1,2) this] thread_works(3)
    have res: "round_result b t as Q D st st'" by simp
    have ne: "D b \<noteq> []" using inv thread_works(1,2) unfolding sta_inv_def by blast
    obtain Q' D' t' where r: "sta_inv st' as Q' D'" "session_at st' b = Some t'" "ss_id t' = ss_id t"
      "\<forall>c. c \<noteq> b \<longrightarrow> session_at st' c = session_at st c \<and> D' c = D c"
      "msg_id (hd (D b)) \<noteq> STA_MSG_SOCKET_OPEN \<longrightarrow> ss_state t' = ss_state t \<and> ss_sockfd t' = ss_sockfd t \<and> D' b = tl (D b)"
      using res unfolding round_result_def by blast
    have "map_option ss_id (session_at st' c) = map_option ss_id (session_at st c)" for c
      using r(2-4) thread_works(1) by (cases "c = b") auto
    then have good': "sta_good st' as Q' D'" by (rule same_ids [OF r(1) good])
    show ?thesis
    proof (cases "b = a")
      case True
      have "msg_id (hd (D b)) \<noteq> STA_MSG_SOCKET_OPEN" using no ne True by simp
      with r(5) have "ss_state t' = ss_state s" "ss_sockfd t' = ss_sockfd s" "D' a = tl (D a)"
        using True thread_works(1) s(1) by simp_all
      moreover from this(3) no have "\<forall>m \<in> set (D' a). msg_id m \<noteq> STA_MSG_SOCKET_OPEN" using list.set_sel(2) ne True by metis
      ultimately show ?thesis using closing_unchanged [OF good' s(1,2)] r(2) True s(3) by simp
    next
      case False
      then have "session_at st' a = Some s" "D' a = D a" using r(4) s(1) by auto
      then show ?thesis using closing_unchanged [OF good' s(1,2)] no s(3) by simp
    qed
  next
    case (caller_opens h port r)
    from stanet_session_open_cases [OF good os caller_opens(1)] caller_opens(2)
    have o: "open_requested (open_msg h port) as Q D st (r, st')" by simp
    show ?thesis
    proof (cases "find (\<lambda>a. ss_state (the (session_at st a)) = STA_SESSION_STATE_UNUSED) as")
      case None
      then show ?thesis using o cl by (simp add: open_requested_def)
    next
      case (Some b)
      then obtain u where u: "session_at st b = Some u" "sent b u (open_msg h port) as Q D st st'"
        using o by (auto simp: open_requested_def)
      have "ss_state u = STA_SESSION_STATE_UNUSED" using Some u(1) by (auto simp: find_Some_iff)
      then have "b \<noteq> a" using u(1) s by auto
      then show ?thesis using closing_sent [OF u(2) good u(1) refl _ s(1,2) no] s(3) by simp
    qed
  next
    case (caller_writes len buf sid r)
    from stanet_session_write_cases [OF inv os caller_writes(1-3), of sid] caller_writes(4) show ?thesis using req by force
  next
    case (caller_reads len sid buf r)
    from stanet_session_read_cases [OF inv os caller_reads(1), of sid buf] caller_reads(2) show ?thesis using req by force
  next
    case (caller_closes sid r)
    from stanet_session_close_cases [OF inv os, of sid] caller_closes(1) show ?thesis using req by force
  qed
qed

lemma closing_steps: "(sta_step e)\<^sup>*\<^sup>* st st' \<Longrightarrow> closing a fd st \<Longrightarrow> os_good e \<Longrightarrow> closing a fd st'"
  by (induction rule: rtranclp_induct) (auto intro: closing_step)

end
