(* ===== verification/Stanet_Effects.thy ===== *)
theory Stanet_Effects
  imports Stanet_Steps
begin

text \<open>What a whole request does: the call of the interface and the round of the thread that
  serves it.\<close>

section \<open>A round on an only message\<close>

text \<open>The round in terms of the handler, when the queue holds one message.\<close>

lemma thread_round_pop:
  assumes core: "sta_core st as Q D" and s: "session_at st a = Some s" and d: "D a = msg # ds" and ok: "msg_ok msg"
  shows "\<exists>q h. thread_round e a st = rbind (handle_msg e a msg (put_ses a (s\<lparr>ss_msg_q := q\<rparr>) (st\<lparr>msgs := h\<rparr>)))
      (upd_ses a (\<lambda>s. s\<lparr>ss_mode := Waiting\<rparr>))
    \<and> sta_core (put_ses a (s\<lparr>ss_msg_q := q\<rparr>) (st\<lparr>msgs := h\<rparr>)) as (Q(a := tl (Q a))) (D(a := ds))"
proof -
  from sta_core_pop [OF core s d] obtain m q h
    where pop: "msg_queue_pop a st = Inr (m, put_ses a (s\<lparr>ss_msg_q := q\<rparr>) (st\<lparr>msgs := h\<rparr>))"
      "get_cell m h = Inr \<lparr>c_next = None, c_data = Some msg\<rparr>"
      "sta_core (put_ses a (s\<lparr>ss_msg_q := q\<rparr>) (st\<lparr>msgs := h\<rparr>)) as (Q(a := tl (Q a))) (D(a := ds))" by blast
  obtain t where "mem_str (msg_data msg) = Inr t" using msg_ok_string [OF ok] by blast
  then have "thread_round e a st = rbind (handle_msg e a msg (put_ses a (s\<lparr>ss_msg_q := q\<rparr>) (st\<lparr>msgs := h\<rparr>)))
      (upd_ses a (\<lambda>s. s\<lparr>ss_mode := Waiting\<rparr>))"
    using pop(1,2) by (simp add: thread_round_def ses)
  with pop(3) show ?thesis by blast
qed

section \<open>Writing\<close>

text \<open>The system takes at least one byte of every write to the descriptor.\<close>

definition takes_writes :: "os \<Rightarrow> int \<Rightarrow> bool" where
  "takes_writes e fd \<longleftrightarrow> (\<forall>w bs. bs \<noteq> [] \<longrightarrow> 0 < answer e w (SysWrite fd bs))"

lemma write_loop_no_error:
  assumes "write_loop e fd data len count w = Some (count', failed, w')" "os_ok e" "takes_writes e fd"
    "0 \<le> count" "len \<le> int (length data)"
  shows "\<not> failed"
proof -
  let ?P = "\<lambda>e fd data len (count :: int) w r. os_ok e \<and> takes_writes e fd \<and> 0 \<le> count \<and> len \<le> int (length data)
    \<longrightarrow> \<not> fst (snd r)"
  have "?P e fd data len count w (count', failed, w')"
  proof (rule write_loop.raw_induct [of ?P, OF _ assms(1)], intro impI)
    fix loop :: "os \<Rightarrow> int \<Rightarrow> byte list \<Rightarrow> int \<Rightarrow> int \<Rightarrow> world \<Rightarrow> (int \<times> bool \<times> world) option"
    fix e fd data len count w r
    assume IH: "\<And>e fd data len count w r. loop e fd data len count w = Some r \<Longrightarrow> ?P e fd data len count w r"
      and body: "(if \<not> count < len then Some (count, False, w)
        else let c = SysWrite fd (take (nat (len - count)) (drop (nat count) data));
                 r = answer e w c; w1 = (c, r) # w
             in if r < 0 then (if errno e c w = EWOULDBLOCK then loop e fd data len count w1
                               else Some (count, True, w1))
                else if r = 0 then loop e fd data len count w1
                else loop e fd data len (count + r) w1) = Some r"
      and ok: "os_ok e \<and> takes_writes e fd \<and> 0 \<le> count \<and> len \<le> int (length data)"
    let ?c = "SysWrite fd (take (nat (len - count)) (drop (nat count) data))"
    show "\<not> fst (snd r)"
    proof (cases "count < len")
      case True
      then have "take (nat (len - count)) (drop (nat count) data) \<noteq> []" using ok by auto
      then have pos: "0 < answer e w ?c" using ok by (simp add: takes_writes_def)
      then have "loop e fd data len (count + answer e w ?c) ((?c, answer e w ?c) # w) = Some r"
        using body True by (simp add: Let_def)
      from IH [OF this] ok pos show ?thesis by auto
    qed (use body in auto)
  qed
  with assms(2-5) show ?thesis by simp
qed

lemma handle_write_delivers:
  assumes s: "session_at st a = Some s" and os: "os_ok e" "takes_writes e (ss_sockfd s)"
    and len: "0 \<le> data_len msg" "data_len msg \<le> int (length (msg_data msg))"
  shows "\<exists>s' w. handle_write e a msg st = Inr (qmi_session_callback (ss_id s) STA_MSG_SOCKET_WRITE STA_SESSION_ERR_SUCCESS None
        (data_len msg) (put_ses a s' (st\<lparr>st_world := w\<rparr>)))
    \<and> accepted (ss_sockfd s) w = accepted (ss_sockfd s) (st_world st) @ take (nat (data_len msg)) (msg_data msg)"
proof -
  have "\<And>w bs. bs \<noteq> [] \<Longrightarrow> 0 < answer e w (SysWrite (ss_sockfd s) bs)" using os(2) by (simp add: takes_writes_def)
  from write_loop_progress [OF os(1) this, of 0 "data_len msg" "msg_data msg" "st_world st"] len(2)
  obtain count failed w where r: "write_loop e (ss_sockfd s) (msg_data msg) (data_len msg) 0 (st_world st) = Some (count, failed, w)"
    by (metis order_refl prod_cases3)
  have neverfail: "count = data_len msg"
    using write_loop_result [OF r os(1) order_refl len(2,1)] write_loop_no_error [OF r os order_refl len(2)] by simp
  have acc: "accepted (ss_sockfd s) w = accepted (ss_sockfd s) (st_world st) @ take (nat (data_len msg)) (msg_data msg)"
    using write_loop_result [OF r os(1) order_refl len(2,1)] neverfail by simp
  have "handle_write e a msg st = Inr (qmi_session_callback (ss_id s) STA_MSG_SOCKET_WRITE STA_SESSION_ERR_SUCCESS None
        (data_len msg) (put_ses a (if failed then s\<lparr>ss_err := STA_SESSION_ERR_UNKNOWN\<rparr> else s) (st\<lparr>st_world := w\<rparr>)))"
    using s r neverfail by (simp add: handle_write_def ses Let_def)
  then show ?thesis using acc by blast
qed

section \<open>Opening\<close>

text \<open>A system on which everything up to the connection succeeds.\<close>

definition connects :: "os \<Rightarrow> bool" where
  "connects e \<longleftrightarrow> (\<forall>w d t p. \<not> answer e w (SysSocket d t p) < 0) \<and> (\<forall>w fd k n. \<not> answer e w (SysFcntl fd k n) < 0)
     \<and> (\<forall>w h. \<not> answer e w (SysAton h) < 0 \<and> answer e w (SysResolve h) \<noteq> 0)
     \<and> (\<forall>w fd p. \<not> answer e w (SysConnect fd p) < 0) \<and> (\<forall>w fd. answer e w (SysSelect fd) \<noteq> 0)
     \<and> (\<forall>w fd. can_write e w fd \<and> \<not> can_read e w fd)"

lemma socket_open_connects:
  assumes s: "session_at st a = Some s" "mem_str (ss_host s) = Inr host" and e: "connects e"
  shows "\<exists>w fd. socket_open e a st = Inr (put_ses a (s\<lparr>ss_state := STA_SESSION_STATE_OPENED, ss_sockfd := fd\<rparr>) (st\<lparr>st_world := w\<rparr>))
    \<and> fd = answer e (st_world st) (SysSocket AF_INET 1 0)
    \<and> SysResolve host \<in> fst ` set w \<and> SysConnect fd (ss_port s) \<in> fst ` set w"
proof -
  let ?fd = "answer e (st_world st) (SysSocket AF_INET 1 0)"
  have conn: "\<exists>w'. await_connect e a fd (put_ses a s1 (st\<lparr>st_world := w\<rparr>))
      = Inr (put_ses a (s1\<lparr>ss_state := STA_SESSION_STATE_OPENED\<rparr>) (st\<lparr>st_world := w'\<rparr>)) \<and> set w \<subseteq> set w'" for fd s1 w
    using e by (intro exI [of _ "(SysEpollAdd fd, _) # (SysSelect fd, answer e w (SysSelect fd)) # w"])
      (auto simp: await_connect_def result_success_def ses connects_def)
  have host: "\<exists>w'. connect_host e a fd (put_ses a s1 (st\<lparr>st_world := w\<rparr>))
      = Inr (put_ses a (s1\<lparr>ss_state := STA_SESSION_STATE_OPENED\<rparr>) (st\<lparr>st_world := w'\<rparr>))
      \<and> SysResolve host \<in> fst ` set w' \<and> SysConnect fd (ss_port s1) \<in> fst ` set w'"
    if "mem_str (ss_host s1) = Inr host" for fd s1 w
  proof -
    let ?w1 = "(SysAton host, answer e w (SysAton host)) # w"
    let ?w2 = "(SysResolve host, answer e ?w1 (SysResolve host)) # ?w1"
    let ?w3 = "(SysConnect fd (ss_port s1), answer e ?w2 (SysConnect fd (ss_port s1))) # ?w2"
    obtain w' where w': "await_connect e a fd (put_ses a s1 (st\<lparr>st_world := ?w3\<rparr>))
      = Inr (put_ses a (s1\<lparr>ss_state := STA_SESSION_STATE_OPENED\<rparr>) (st\<lparr>st_world := w'\<rparr>))" "set ?w3 \<subseteq> set w'" using conn by blast
    have "connect_host e a fd (put_ses a s1 (st\<lparr>st_world := w\<rparr>)) = await_connect e a fd (put_ses a s1 (st\<lparr>st_world := ?w3\<rparr>))"
      using that e by (simp add: connect_host_def ses connects_def)
    then show ?thesis using w' by (intro exI [of _ w']) force
  qed
  let ?w0 = "(SysSocket AF_INET 1 0, ?fd) # st_world st"
  let ?get = "SysFcntl ?fd F_GETFL 0"
  let ?w1 = "(?get, answer e ?w0 ?get) # ?w0"
  let ?set = "SysFcntl ?fd F_SETFL (answer e ?w0 ?get OR O_NONBLOCK)"
  let ?w2 = "(?set, answer e ?w1 ?set) # ?w1"
  let ?s = "s\<lparr>ss_state := STA_SESSION_STATE_OPENING, ss_sockfd := ?fd\<rparr>"
  have "mem_str (ss_host ?s) = Inr host" using s(2) by simp
  from host [OF this, of ?fd ?w2] obtain w' where w': "connect_host e a ?fd (put_ses a ?s (st\<lparr>st_world := ?w2\<rparr>))
      = Inr (put_ses a (?s\<lparr>ss_state := STA_SESSION_STATE_OPENED\<rparr>) (st\<lparr>st_world := w'\<rparr>))"
      "SysResolve host \<in> fst ` set w'" "SysConnect ?fd (ss_port ?s) \<in> fst ` set w'" by blast
  have "socket_open e a st = connect_host e a ?fd (put_ses a ?s (st\<lparr>st_world := ?w2\<rparr>))"
    using s(1) e by (simp add: socket_open_def set_nonblocking_def ses connects_def)
  also have "?s\<lparr>ss_state := STA_SESSION_STATE_OPENED\<rparr> = s\<lparr>ss_state := STA_SESSION_STATE_OPENED, ss_sockfd := ?fd\<rparr>" by simp
  note w'(1) [unfolded this]
  finally show ?thesis using w'(2,3) by auto
qed

lemma handle_open_connects:
  assumes s: "session_at st a = Some s" "ss_host s = replicate 128 0" and e: "connects e"
    and h: "host_ok h port" "0 \<notin> set h" "0x3A \<notin> set h"
  shows "\<exists>w s'. handle_open e a (open_msg h port) st =
      Inr (qmi_session_callback (ss_id s) STA_MSG_SOCKET_OPEN STA_SESSION_ERR_SUCCESS None 0 (put_ses a s' (st\<lparr>st_world := w\<rparr>)))
    \<and> ss_state s' = STA_SESSION_STATE_OPENED \<and> mem_str (ss_host s') = Inr h \<and> ss_port s' = port
    \<and> SysResolve h \<in> fst ` set w \<and> SysConnect (ss_sockfd s') port \<in> fst ` set w"
proof -
  let ?m = "msg_data (open_msg h port)"
  obtain rest where m: "?m = h @ 0x3A # dec_nat (nat port) @ 0 # rest"
  proof -
    have "\<not> port < 0" "length (open_text h port) < 2049" using h(1) by (simp_all add: host_ok_def)
    then obtain k where "2049 - length (open_text h port) = Suc k" by (metis Suc_diff_Suc zero_less_diff Suc_pred)
    then show ?thesis using that \<open>\<not> port < 0\<close> by (simp add: open_msg_def open_text_def dec_int_def)
  qed
  have colon: "find_colon ?m = Inr (length h)" unfolding m by (rule find_colon_at [OF h(3)])
  have len: "length h < 128" "0 < port" using h(1) by (simp_all add: host_ok_def)
  have host: "wr_bytes (ss_host s) 0 (take (length h) ?m) = Inr (h @ replicate (128 - length h) 0)"
    unfolding s(2) m using len by (simp add: wr_bytes_ok)
  obtain k where k: "128 - length h = Suc k" using len by (metis Suc_diff_Suc)
  have str: "mem_str (h @ replicate (128 - length h) 0) = Inr h" unfolding k by (simp add: mem_str_at [OF h(2)])
  have "\<not> c_isdigit 0" by (simp add: c_isdigit_def)
  from atoi_dec [OF this] have port: "atoi (drop (Suc (length h)) ?m) = Inr port" unfolding m using len by simp
  let ?s1 = "s\<lparr>ss_host := h @ replicate (128 - length h) 0, ss_port := port\<rparr>"
  have "session_at (put_ses a ?s1 st) a = Some ?s1" "mem_str (ss_host ?s1) = Inr h" using str by (simp_all add: ses)
  from socket_open_connects [OF this e] obtain w fd where o: "socket_open e a (put_ses a ?s1 st)
      = Inr (put_ses a (?s1\<lparr>ss_state := STA_SESSION_STATE_OPENED, ss_sockfd := fd\<rparr>) ((put_ses a ?s1 st)\<lparr>st_world := w\<rparr>))"
    "SysResolve h \<in> fst ` set w" "SysConnect fd port \<in> fst ` set w" by auto
  have "handle_open e a (open_msg h port) st = Inr (qmi_session_callback (ss_id s) STA_MSG_SOCKET_OPEN STA_SESSION_ERR_SUCCESS None 0
      (put_ses a (?s1\<lparr>ss_state := STA_SESSION_STATE_OPENED, ss_sockfd := fd\<rparr>) (st\<lparr>st_world := w\<rparr>)))"
    using s(1) colon host port len o(1) by (simp add: handle_open_def ses)
  then show ?thesis using o(2,3) str
    by (intro exI [of _ w] exI [of _ "?s1\<lparr>ss_state := STA_SESSION_STATE_OPENED, ss_sockfd := fd\<rparr>"]) simp
qed

end
