(* ===== verification/Stanet_Properties.thy ===== *)
theory Stanet_Properties
  imports Stanet_Effects
begin

text \<open>The properties of the station daemon.\<close>

section \<open>A system for the witnesses\<close>

text \<open>Every call succeeds, descriptors are new, writes are taken whole and reads are filled.\<close>

definition demo_os :: os where
  "demo_os = \<lparr>answer = (\<lambda>w c. case c of
       SysSocket _ _ _ \<Rightarrow> foldr (\<lambda>x m. max (snd x) m) w 2 + 1
     | SysResolve _ \<Rightarrow> 1 | SysSelect _ \<Rightarrow> 1 | SysRead _ n \<Rightarrow> int n | SysWrite _ bs \<Rightarrow> int (length bs) | _ \<Rightarrow> 0),
     errno_of = (\<lambda>_ _. 0), data_of = (\<lambda>w c. case c of SysRead _ n \<Rightarrow> replicate n 0x41 | _ \<Rightarrow> []),
     can_read = (\<lambda>_ _. False), can_write = (\<lambda>_ _. True), so_error = (\<lambda>_. 0), alloc_ok = (\<lambda>_. True)\<rparr>"

lemma open_fds_below: "fd \<in> open_fds w \<Longrightarrow> fd \<le> foldr (\<lambda>x m. max (snd x) m) w 2"
proof (induction w)
  case (Cons x w)
  then show ?case by (cases x; cases "fst x") (auto split: if_splits)
qed simp

lemma foldr_max_ge: "2 \<le> foldr (\<lambda>x m. max (snd x) m) w (2 :: int)"
  by (induction w) auto

lemma demo_socket: "answer demo_os w (SysSocket d t p) = foldr (\<lambda>x m. max (snd x) m) w 2 + 1"
  by (simp add: demo_os_def)

lemma demo_os_good: "os_good demo_os" "connects demo_os" "takes_writes demo_os fd"
proof -
  have "foldr (\<lambda>x m. max (snd x) m) w 2 + 1 \<notin> open_fds w" "(-1 :: int) \<le> foldr (\<lambda>x m. max (snd x) m) w 2 + 1" for w
    using open_fds_below [of "foldr (\<lambda>x m. max (snd x) m) w 2 + 1" w] foldr_max_ge [of w] by auto
  then have "os_fresh demo_os" by (simp add: os_fresh_def demo_socket)
  moreover have "os_ok demo_os" "\<forall>k. alloc_ok demo_os k" by (simp_all add: os_ok_def demo_os_def)
  ultimately show "os_good demo_os" by (simp add: os_good_def)
  have "\<not> answer demo_os w (SysSocket d t p) < 0" for w d t p using foldr_max_ge [of w] by (simp add: demo_socket)
  then show "connects demo_os" by (simp add: connects_def) (simp add: demo_os_def)
  show "takes_writes demo_os fd" by (simp add: takes_writes_def demo_os_def)
qed

lemma demo_os_threads: "answer demo_os w (SysThreadCreate a) = 0" "alloc_ok demo_os k"
  by (simp_all add: demo_os_def)

lemma demo_host: "host_ok (bytes_of ''192.168.1.224'') 8182" "0 \<notin> set (bytes_of ''192.168.1.224'')"
  "0x3A \<notin> set (bytes_of ''192.168.1.224'')"
  using dec_nat_length [of 8182 4] by (simp_all add: host_ok_def open_text_def dec_int_def bytes_of_def)

section \<open>The list of sessions\<close>

text \<open>After \<open>session_list_create\<close> the list holds the five sessions with the ids 0 to 4 in
  this order, linked both ways, all unused and without descriptor, host and messages.\<close>

theorem stanet_init_sessions:
  assumes "\<forall>k. alloc_ok e k" "\<forall>w a. answer e w (SysThreadCreate a) = 0"
  shows "\<exists>st as. stanet_init e = Inr st \<and> sessions_inv st as \<and> map ss_id (session_seq st as) = [0, 1, 2, 3, 4]
    \<and> (\<forall>a s. session_at st a = Some s \<longrightarrow> fresh_session s)"
proof -
  obtain st as where st: "stanet_init e = Inr st" "fresh_daemon st as" "\<forall>i \<in> set (map ss_id (session_seq st as)). 0 \<le> i"
    "(\<forall>w a. answer e w (SysThreadCreate a) = 0) \<longrightarrow> map ss_id (session_seq st as) = [0, 1, 2, 3, 4]"
    using stanet_init_fresh [OF assms(1) [rule_format]] by (elim exE conjE)
  have "map ss_id (session_seq st as) = [0, 1, 2, 3, 4]" using st(4) assms(2) by (rule mp)
  then show ?thesis using st(1,2) unfolding fresh_daemon_def by (intro exI [of _ st] exI [of _ as] conjI) auto
qed

theorem stanet_init_sessions_witness:
  "\<exists>st as. stanet_init demo_os = Inr st \<and> sessions_inv st as \<and> map ss_id (session_seq st as) = [0, 1, 2, 3, 4]
    \<and> (\<forall>a s. session_at st a = Some s \<longrightarrow> fresh_session s)"
  by (rule stanet_init_sessions) (simp_all add: demo_os_threads)

text \<open>A state with the five sessions, for the witnesses; their threads exist.\<close>

lemma create_loop_starting:
  assumes "session_list_create_loop e n st = Inr st'" "\<forall>w a. answer e w (SysThreadCreate a) = 0"
    "\<forall>b t. session_at st b = Some t \<longrightarrow> ss_mode t = Starting"
  shows "\<forall>b t. session_at st' b = Some t \<longrightarrow> ss_mode t = Starting"
  using assms
proof (induction n arbitrary: st)
  case (Suc n)
  let ?a = "session_fresh st"
  obtain ok st1 where init: "session_init e ?a (int n) (st\<lparr>session_fresh := Suc ?a\<rparr>) = (ok, st1)" by fastforce
  have one: "ok" "\<forall>b t. session_at st1 b = Some t \<longrightarrow> ss_mode t = Starting"
    using init Suc.prems(2,3) by (auto simp: session_init_def st_sys_eq Let_def ses split: if_splits)
  have alloc: "alloc_ok e ?a" using Suc.prems(1) by (auto split: if_splits)
  obtain st2 where add: "session_add ?a st1 = Inr st2" "session_list_create_loop e n st2 = Inr st'"
    using Suc.prems(1) alloc init one(1) by (auto simp: Let_def rbind_eq_Inr)
  have "\<forall>b t. session_at st2 b = Some t \<longrightarrow> ss_mode t = Starting"
    using add(1) one(2)
    by (auto simp: session_add_def upd_ses_def get_ses_def put_ses_def rbind_eq_Inr split: option.splits if_splits)
  then show ?case using Suc.IH [OF add(2) Suc.prems(2)] by blast
qed simp

lemma demo_starting:
  "stanet_init demo_os = Inr st \<Longrightarrow> \<forall>b t. session_at st b = Some t \<longrightarrow> ss_mode t = Starting"
  unfolding stanet_init_def session_list_create_def st_sys_eq Let_def split_conv
  by (erule create_loop_starting) (simp_all add: demo_os_threads stanet0_def)

lemma demo_state:
  "\<exists>st as s a. stanet_init demo_os = Inr st \<and> sta_reach demo_os st \<and> sta_good st as (\<lambda>_. []) (\<lambda>_. [])
     \<and> map ss_id (session_seq st as) = [0, 1, 2, 3, 4]
     \<and> as ! 0 = a \<and> a \<in> set as \<and> session_at st a = Some s \<and> ss_id s = 0 \<and> fresh_session s"
proof -
  obtain st as where st: "stanet_init demo_os = Inr st" "fresh_daemon st as" "\<forall>i \<in> set (map ss_id (session_seq st as)). 0 \<le> i"
    "(\<forall>w a. answer demo_os w (SysThreadCreate a) = 0) \<longrightarrow> map ss_id (session_seq st as) = [0, 1, 2, 3, 4]"
    using stanet_init_fresh [of demo_os, OF demo_os_threads(2)] by (elim exE conjE)
  note ids = mp [OF st(4)] and st = st(1-3)
  have ids: "map ss_id (session_seq st as) = [0, 1, 2, 3, 4]" by (rule ids) (simp add: demo_os_threads)
  have good: "sta_good st as (\<lambda>_. []) (\<lambda>_. [])" using fresh_daemon_inv [OF st(2)] st(3) by (simp add: sta_good_def)
  have "length as = 5" using arg_cong [OF ids, of length] by (simp add: session_seq_def)
  then obtain a bs where as: "as = a # bs" by (cases as) auto
  have "sessions_inv st as" using st(2) by (simp add: fresh_daemon_def)
  then obtain s where s: "session_at st a = Some s"
    using dll_alive [of "session_at st" None "session_list st" as a] as by (auto simp: sessions_inv_def)
  have "ss_id s = 0" using ids as s by (simp add: session_seq_def)
  moreover have "fresh_session s" using st(2) s by (auto simp: fresh_daemon_def)
  ultimately show ?thesis using st(1) ids good as s sta_reach.init [OF st(1)]
    by (intro exI [of _ st] exI [of _ as] exI [of _ s] exI [of _ a]) simp
qed

text \<open>C18: \<open>session_del\<close> unlinks exactly the session with the id of its argument, wherever it is
  in the list (head, middle, tail, alone), and frees it; the other sessions only change their
  links.\<close>

theorem session_del_refines:
  assumes "sessions_inv st as" "session_at st a = Some s" "a \<in> set as" "ss_id s \<noteq> -1"
    "distinct (map ss_id (session_seq st as))"
  shows "\<exists>st'. session_del (Some a) st = Inr (True, st') \<and> sessions_inv st' (remove1 a as)
    \<and> session_at st' a = None
    \<and> (\<forall>x. x \<noteq> a \<longrightarrow> map_option (\<lambda>s. s\<lparr>ss_pre := None, ss_next := None\<rparr>) (session_at st' x)
         = map_option (\<lambda>s. s\<lparr>ss_pre := None, ss_next := None\<rparr>) (session_at st x))"
  by (rule session_del_removes [OF assms])

theorem session_del_refines_witness:
  "\<exists>st as st'. stanet_init demo_os = Inr st \<and> session_del (Some (as ! 0)) st = Inr (True, st')
     \<and> sessions_inv st' (remove1 (as ! 0) as) \<and> length as = 5"
proof -
  obtain st as s a where d: "stanet_init demo_os = Inr st" "sta_good st as (\<lambda>_. []) (\<lambda>_. [])"
    "map ss_id (session_seq st as) = [0, 1, 2, 3, 4]" "as ! 0 = a" "a \<in> set as" "session_at st a = Some s" "ss_id s = 0"
    using demo_state by (elim exE conjE)
  have "length as = 5" using arg_cong [OF d(3), of length] by (simp add: session_seq_def)
  moreover have "sessions_inv st as" using d(2) by (simp add: sta_good_def sta_inv_def sta_core_def)
  ultimately show ?thesis using session_del_refines [of st as a s] d by auto
qed

section \<open>Invariants\<close>





section \<open>Requests\<close>

lemma usable_first:
  assumes good: "sta_good st as Q D" and u: "session_get_usable st = Inr sid" "0 \<le> sid"
  shows "\<exists>a s. find (\<lambda>a. ss_state (the (session_at st a)) = STA_SESSION_STATE_UNUSED) as = Some a
    \<and> session_at st a = Some s \<and> ss_id s = sid \<and> ss_state s = STA_SESSION_STATE_UNUSED"
proof -
  have inv: "sessions_inv st as" using good by (simp add: sta_good_def sta_inv_def sta_core_def)
  have map: "find (\<lambda>s. ss_state s = STA_SESSION_STATE_UNUSED) (session_seq st as)
      = map_option (\<lambda>a. the (session_at st a)) (find (\<lambda>a. ss_state (the (session_at st a)) = STA_SESSION_STATE_UNUSED) as)"
    unfolding session_seq_def by (induction as) auto
  show ?thesis
  proof (cases "find (\<lambda>a. ss_state (the (session_at st a)) = STA_SESSION_STATE_UNUSED) as")
    case None
    then show ?thesis using session_get_usable_find [OF inv] map u by simp
  next
    case (Some a)
    then have "a \<in> set as" "ss_state (the (session_at st a)) = STA_SESSION_STATE_UNUSED" by (auto simp: find_Some_iff)
    moreover obtain s where "session_at st a = Some s"
      using inv dll_alive [of "session_at st" None "session_list st" as a] calculation(1) by (auto simp: sessions_inv_def)
    ultimately show ?thesis using Some session_get_usable_find [OF inv] map u(1) by auto
  qed
qed


text \<open>The first session after its thread began to wait, and after a request to open it.\<close>

lemma demo_idle:
  "\<exists>st a s as. sta_reach demo_os st \<and> sta_good st as (\<lambda>_. []) (\<lambda>_. []) \<and> a \<in> set as \<and> session_get_usable st = Inr 0
     \<and> session_get 0 st = Inr (Some a) \<and> session_at st a = Some s \<and> ss_mode s = Waiting \<and> queue_of st a = []"
proof -
  obtain st as s a where d: "stanet_init demo_os = Inr st" "sta_reach demo_os st" "sta_good st as (\<lambda>_. []) (\<lambda>_. [])"
    "map ss_id (session_seq st as) = [0, 1, 2, 3, 4]" "as ! 0 = a" "a \<in> set as" "session_at st a = Some s" "ss_id s = 0"
    "fresh_session s" using demo_state by (elim exE conjE)
  let ?s = "s\<lparr>ss_mode := Waiting\<rparr>"
  have "ss_mode s \<noteq> NoThread"
  proof
    assume n: "ss_mode s = NoThread"
    have "\<forall>b t. session_at st b = Some t \<longrightarrow> ss_mode t = Starting"
      using demo_starting d(1) by blast
    then show False using d(7) n by auto
  qed
  then have start: "ss_mode s = Starting" using d(9) by (simp add: fresh_session_def)
  have r: "thread_start a st = Inr (put_ses a ?s st)" using d(7) by (simp add: thread_start_def ses)
  have reach: "sta_reach demo_os (put_ses a ?s st)"
    by (rule sta_reach.step [OF d(2) sta_step.thread_starts [OF d(7) start r]])
  have good: "sta_good (put_ses a ?s st) as (\<lambda>_. []) (\<lambda>_. [])" by (rule thread_start_good [OF d(3,7) r])
  have at: "session_at (put_ses a ?s st) a = Some ?s" by (simp add: ses)
  have inv: "sessions_inv (put_ses a ?s st) as" using good by (simp add: sta_good_def sta_inv_def sta_core_def)
  obtain bs where as: "as = a # bs" using d(4,5) by (cases as) (auto simp: session_seq_def)
  have "session_get_usable (put_ses a ?s st) = Inr 0"
    using session_get_usable_find [OF inv] d(8,9) by (simp add: as session_seq_def ses fresh_session_def)
  moreover have "session_get 0 (put_ses a ?s st) = Inr (Some a)"
    using session_get_find [OF inv] d(8) by (simp add: as ses)
  ultimately show ?thesis using reach good at d(6) queue_of_good [OF good at]
    by (intro exI [of _ "put_ses a ?s st"] exI [of _ a] exI [of _ ?s] exI [of _ as]) simp
qed



text \<open>The session that the request of the example opened.\<close>

lemma demo_open:
  "\<exists>st a s. sta_reach demo_os st \<and> session_get 0 st = Inr (Some a) \<and> session_at st a = Some s \<and> ss_id s = 0
     \<and> session_ready s \<and> ss_state s = STA_SESSION_STATE_OPENED \<and> ss_mode s = Waiting \<and> queue_of st a = []"
proof -
  obtain st a s as where d: "sta_reach demo_os st" "sta_good st as (\<lambda>_. []) (\<lambda>_. [])" "a \<in> set as" "session_get_usable st = Inr 0"
    "session_get 0 st = Inr (Some a)" "session_at st a = Some s" "ss_mode s = Waiting" "queue_of st a = []"
    using demo_idle by (elim exE conjE)
  have inv: "sta_inv st as (\<lambda>_. []) (\<lambda>_. [])" using d(2) by (simp add: sta_good_def)
  have sinv: "sessions_inv st as" using inv by (simp add: sta_inv_def sta_core_def)
  have "find (\<lambda>a. ss_id (the (session_at st a)) = 0) as = Some a" using session_get_find [OF sinv, of 0] d(5) by simp
  then have id0: "ss_id s = 0" using d(6) by (auto simp: find_Some_iff)
  let ?h = "bytes_of ''192.168.1.224''"
  obtain b t where b: "find (\<lambda>a. ss_state (the (session_at st a)) = STA_SESSION_STATE_UNUSED) as = Some b"
    "session_at st b = Some t" "ss_id t = 0" "ss_state t = STA_SESSION_STATE_UNUSED"
    using usable_first [OF d(2,4) order_refl] by (elim exE conjE)
  have core: "sta_core st as (\<lambda>_. []) (\<lambda>_. [])" using inv by (simp add: sta_inv_def)
  have "b \<in> set as" using b(1) by (auto simp: find_Some_iff)
  from sta_core_find [OF core this b(2)] session_get_find [OF sinv, of 0] d(5) b(3) have ab: "b = a" "t = s"
    using d(6) b(2) by auto
  from sta_core_ses [OF core d(6)] b(4) ab have host: "ss_host s = replicate 128 0" by (simp add: ses_core_def)
  obtain st1 where o: "stanet_session_open demo_os (Some ?h) 8182 st = Inr (0, st1)" "sent a s (open_msg ?h 8182) as (\<lambda>_. []) (\<lambda>_. []) st st1"
    using stanet_session_open_cases [OF d(2) demo_os_good(1) demo_host(1)] b(1,2) ab by (auto simp: open_requested_def)
  obtain Q1 where good1: "sta_good st1 as Q1 ((\<lambda>_. [])(a := [open_msg ?h 8182]))"
    using sent_good [OF o(2) d(2,6) refl] by auto
  obtain q where at1: "session_at st1 a = Some (s\<lparr>ss_mode := Woken, ss_msg_q := q\<rparr>)"
    using o(2) d(7) unfolding sent_def by (auto simp: cond_signal_def)
  let ?s1 = "s\<lparr>ss_mode := Woken, ss_msg_q := q\<rparr>"
  have inv1: "sta_inv st1 as Q1 ((\<lambda>_. [])(a := [open_msg ?h 8182]))" using good1 by (simp add: sta_good_def)
  then have core1: "sta_core st1 as Q1 ((\<lambda>_. [])(a := [open_msg ?h 8182]))" by (simp add: sta_inv_def)
  have reach1: "sta_reach demo_os st1"
    by (rule sta_reach.step [OF d(1) sta_step.caller_opens [OF demo_host(1) o(1)]])
  obtain q2 h2 where round: "thread_round demo_os a st1 = rbind (handle_msg demo_os a (open_msg ?h 8182)
      (put_ses a (?s1\<lparr>ss_msg_q := q2\<rparr>) (st1\<lparr>msgs := h2\<rparr>))) (upd_ses a (\<lambda>s. s\<lparr>ss_mode := Waiting\<rparr>))"
    using thread_round_pop [where e = demo_os, OF core1 at1 fun_upd_same open_msg_ok [OF demo_host(1)]] by blast
  let ?s2 = "?s1\<lparr>ss_msg_q := q2\<rparr>"
  let ?st2 = "put_ses a ?s2 (st1\<lparr>msgs := h2\<rparr>)"
  have "session_at ?st2 a = Some ?s2" "ss_host ?s2 = replicate 128 0" using host by (simp_all add: ses)
  from handle_open_connects [OF this demo_os_good(2) demo_host] obtain w s' where r:
    "handle_open demo_os a (open_msg ?h 8182) ?st2 = Inr (qmi_session_callback (ss_id ?s2) STA_MSG_SOCKET_OPEN
        STA_SESSION_ERR_SUCCESS None 0 (put_ses a s' (?st2\<lparr>st_world := w\<rparr>)))" "ss_state s' = STA_SESSION_STATE_OPENED"
    by (elim exE conjE)
  define st3 where "st3 = put_ses a (s'\<lparr>ss_mode := Waiting\<rparr>) (qmi_session_callback 0 STA_MSG_SOCKET_OPEN
      STA_SESSION_ERR_SUCCESS None 0 (put_ses a s' (?st2\<lparr>st_world := w\<rparr>)))"
  have r3: "thread_round demo_os a st1 = Inr st3" unfolding st3_def
    using round r(1) id0 by (simp add: handle_msg_def open_msg_def upd_ses_def qmi_session_callback_def Let_def ses get_ses_def)
  have at3: "session_at st3 a = Some (s'\<lparr>ss_mode := Waiting\<rparr>)" by (simp add: st3_def ses)
  have reach3: "sta_reach demo_os st3"
    by (rule sta_reach.step [OF reach1 sta_step.thread_works [OF at1 _ r3]]) simp
  have os: "os_fresh demo_os" "os_ok demo_os" using demo_os_good(1) by (simp_all add: os_good_def)
  have res: "round_result a ?s1 as Q1 ((\<lambda>_. [])(a := [open_msg ?h 8182])) st1 st3"
    using thread_round_result [OF inv1 at1 _ os] r3 by simp
  then obtain Q3 D3 s3 where r4: "sta_inv st3 as Q3 D3" "session_at st3 a = Some s3" "ss_id s3 = ss_id ?s1"
    "D3 a = tl [open_msg ?h 8182] \<or> D3 a = []" unfolding round_result_def by (elim exE conjE) (auto intro: that)
  have "queue_of st3 a = []"
    using queue_of_eq [of st3 Q3 D3 a s3] r4 by (auto simp: sta_inv_def sta_core_def)
  moreover have "session_get 0 st3 = Inr (Some a)"
  proof -
    have c3: "sta_core st3 as Q3 D3" using r4(1) by (simp add: sta_inv_def)
    have "session_get (ss_id s3) st3 = Inr (Some a)"
      using sta_core_find [OF c3 d(3) r4(2)] session_get_find [of st3 as "ss_id s3"] c3 by (simp add: sta_core_def)
    then show ?thesis using r4(3) id0 by simp
  qed
  ultimately show ?thesis using reach3 at3 r(2) r4(2,3) id0
    by (intro exI [of _ st3] exI [of _ a] exI [of _ "s'\<lparr>ss_mode := Waiting\<rparr>"]) (auto simp: session_ready_def)
qed


section \<open>What goes wrong\<close>

text \<open>\<open>stanet_session_close\<close> never closes: it sends a read request instead of a close
  request, so once a session is closing and no open request is left in its queue, it stays
  closing for ever, with its descriptor open, whatever is called afterwards.\<close>

theorem close_never_closes:
  assumes "os_good e" "sta_reach e st" "session_at st a = Some s" "ss_state s = STA_SESSION_STATE_CLOSING"
    "\<forall>m \<in> set (queue_of st a). msg_id m \<noteq> STA_MSG_SOCKET_OPEN" "(sta_step e)\<^sup>*\<^sup>* st st'"
  shows "\<exists>s'. session_at st' a = Some s' \<and> ss_state s' = STA_SESSION_STATE_CLOSING \<and> ss_sockfd s' = ss_sockfd s
    \<and> ss_sockfd s \<in> open_fds (st_world st')"
proof -
  obtain as Q D where good: "sta_good st as Q D" using sta_reach_good [OF assms(2,1)] by blast
  have "closing a (ss_sockfd s) st"
    using good assms(3-5) queue_of_good [OF good assms(3)] by (auto simp: closing_def)
  from closing_steps [OF assms(6) this assms(1)] obtain as' Q' D' s' where c: "sta_good st' as' Q' D'"
    "session_at st' a = Some s'" "ss_state s' = STA_SESSION_STATE_CLOSING" "ss_sockfd s' = ss_sockfd s"
    unfolding closing_def by blast
  have "sta_core st' as' Q' D'" using c(1) by (simp add: sta_good_def sta_inv_def)
  from sta_core_ses [OF this c(2)] c(3,4) have "ss_sockfd s \<in> open_fds (st_world st')" by (simp add: ses_core_def)
  with c(2-4) show ?thesis by blast
qed

theorem close_never_closes_witness:
  "\<exists>st st1 a s fd. sta_reach demo_os st \<and> session_at st a = Some s \<and> ss_state s = STA_SESSION_STATE_OPENED
     \<and> stanet_session_close demo_os 0 st = Inr (0, st1)
     \<and> (\<forall>st'. (sta_step demo_os)\<^sup>*\<^sup>* st1 st' \<longrightarrow>
          (\<exists>s'. session_at st' a = Some s' \<and> ss_state s' = STA_SESSION_STATE_CLOSING \<and> fd \<in> open_fds (st_world st')))"
proof -
  obtain st a s where d: "sta_reach demo_os st" "session_get 0 st = Inr (Some a)" "session_at st a = Some s" "ss_id s = 0"
    "session_ready s" "ss_state s = STA_SESSION_STATE_OPENED" "ss_mode s = Waiting" "queue_of st a = []"
    using demo_open by (elim exE conjE)
  obtain as Q D where good: "sta_good st as Q D" using sta_reach_good [OF d(1) demo_os_good(1)] by blast
  have inv: "sta_inv st as Q D" and sinv: "sessions_inv st as" using good by (simp_all add: sta_good_def sta_inv_def sta_core_def)
  have "find (\<lambda>a. ss_id (the (session_at st a)) = 0) as = Some a" using session_get_find [OF sinv, of 0] d(2) by simp
  then have a: "a \<in> set as" by (auto simp: find_Some_iff)
  have al: "alloc_ok demo_os (cell_fresh (msgs st))" by (simp add: demo_os_threads)
  have "data_fits None 0" by (simp add: data_fits_def)
  from session_request_sent [OF inv a d(3,5) _ al this read_msg_ok [OF order_refl, unfolded read_msg_def], of STA_SESSION_STATE_CLOSING]
  obtain st1 where c: "stanet_session_close demo_os 0 st = Inr (0, st1)"
    "sent a (s\<lparr>ss_state := STA_SESSION_STATE_CLOSING\<rparr>) (read_msg 0) as Q D st st1"
    using d(4) by (auto simp: stanet_session_close_def read_msg_def)
  obtain Q1 where good1: "sta_good st1 as Q1 (D(a := D a @ [read_msg 0]))" using sent_good [OF c(2) good d(3)] by auto
  obtain q where at1: "session_at st1 a = Some (s\<lparr>ss_state := STA_SESSION_STATE_CLOSING, ss_mode := Woken, ss_msg_q := q\<rparr>)"
    using c(2) d(7) unfolding sent_def by (auto simp: cond_signal_def)
  have "D a = []" using queue_of_good [OF good d(3)] d(8) by simp
  then have "queue_of st1 a = [read_msg 0]" using queue_of_good [OF good1 at1] by simp
  then have no: "\<forall>m \<in> set (queue_of st1 a). msg_id m \<noteq> STA_MSG_SOCKET_OPEN" by (simp add: read_msg_def)
  have reach1: "sta_reach demo_os st1" by (rule sta_reach.step [OF d(1) sta_step.caller_closes [OF c(1)]])
  show ?thesis
    using close_never_closes [OF demo_os_good(1) reach1 at1 _ no] d(1,3,6) c(1)
    by (intro exI [of _ st] exI [of _ st1] exI [of _ a] exI [of _ s] exI [of _ "ss_sockfd s"]) auto
qed

text \<open>A thread handles one message per wakeup.  Messages that were put while it was not yet
  waiting again (their signals are lost) stay in the queue when it goes back to waiting.\<close>

theorem messages_left_waiting:
  assumes "os_good e" "sta_reach e st" "session_at st a = Some s" "ss_mode s = Woken"
    "queue_of st a = m # ms" "msg_id m \<noteq> STA_MSG_SOCKET_OPEN" "thread_round e a st = Inr st'"
  shows "queue_of st' a = ms \<and> (\<exists>s'. session_at st' a = Some s' \<and> ss_mode s' = Waiting)"
proof -
  obtain as Q D where good: "sta_good st as Q D" using sta_reach_good [OF assms(2,1)] by blast
  then have inv: "sta_inv st as Q D" by (simp add: sta_good_def)
  have os: "os_fresh e" "os_ok e" using assms(1) by (simp_all add: os_good_def)
  have res: "round_result a s as Q D st st'" using thread_round_result [OF inv assms(3,4) os] assms(7) by simp
  have "D a = m # ms" using queue_of_good [OF good assms(3)] assms(5) by simp
  then obtain Q' D' s' where r: "sta_inv st' as Q' D'" "session_at st' a = Some s'" "ss_mode s' = Waiting" "D' a = ms"
    using res assms(6) unfolding round_result_def by auto
  have "queue_of st' a = D' a" using r(1,2) by (intro queue_of_eq) (auto simp: sta_inv_def sta_core_def)
  with r show ?thesis by simp
qed

theorem messages_left_waiting_witness:
  "\<exists>st st' a s'. sta_reach demo_os st \<and> thread_round demo_os a st = Inr st' \<and> length (queue_of st' a) = 1
     \<and> session_at st' a = Some s' \<and> ss_mode s' = Waiting"
proof -
  obtain st a s where d: "sta_reach demo_os st" "session_get 0 st = Inr (Some a)" "session_at st a = Some s" "ss_id s = 0"
    "session_ready s" "ss_state s = STA_SESSION_STATE_OPENED" "ss_mode s = Waiting" "queue_of st a = []"
    using demo_open by (elim exE conjE)
  obtain as Q D where good: "sta_good st as Q D" using sta_reach_good [OF d(1) demo_os_good(1)] by blast
  have inv: "sta_inv st as Q D" and sinv: "sessions_inv st as" using good by (simp_all add: sta_good_def sta_inv_def sta_core_def)
  have "find (\<lambda>a. ss_id (the (session_at st a)) = 0) as = Some a" using session_get_find [OF sinv, of 0] d(2) by simp
  then have a: "a \<in> set as" by (auto simp: find_Some_iff)
  have al: "alloc_ok demo_os k" for k by (simp add: demo_os_threads)
  have fits: "data_fits None 0" by (simp add: data_fits_def)
  have ok: "msg_ok (read_msg 0)" by (rule read_msg_ok) simp
  have ok': "msg_ok \<lparr>msg_id = STA_MSG_SOCKET_READ, data_len = 0, msg_data = msg_bytes None 0\<rparr>" using ok by (simp add: read_msg_def)
  obtain st1 where r1: "stanet_session_read demo_os 0 None 0 st = Inr (0, st1)"
    "sent a (s\<lparr>ss_state := STA_SESSION_STATE_READING\<rparr>) (read_msg 0) as Q D st st1"
    using session_request_sent [OF inv a d(3,5) _ al fits ok', of STA_SESSION_STATE_READING] d(4)
    by (auto simp: stanet_session_read_def read_msg_def)
  obtain Q1 where good1: "sta_good st1 as Q1 (D(a := D a @ [read_msg 0]))" using sent_good [OF r1(2) good d(3)] by auto
  obtain q where at1: "session_at st1 a = Some (s\<lparr>ss_state := STA_SESSION_STATE_READING, ss_mode := Woken, ss_msg_q := q\<rparr>)"
    using r1(2) d(7) unfolding sent_def by (auto simp: cond_signal_def)
  let ?s1 = "s\<lparr>ss_state := STA_SESSION_STATE_READING, ss_mode := Woken, ss_msg_q := q\<rparr>"
  have inv1: "sta_inv st1 as Q1 (D(a := D a @ [read_msg 0]))" using good1 by (simp add: sta_good_def)
  have ready1: "session_ready ?s1" by (simp add: session_ready_def)
  obtain st2 where r2: "stanet_session_read demo_os 0 None 0 st1 = Inr (0, st2)"
    "sent a (?s1\<lparr>ss_state := STA_SESSION_STATE_READING\<rparr>) (read_msg 0) as Q1 (D(a := D a @ [read_msg 0])) st1 st2"
    using session_request_sent [OF inv1 a at1 ready1 _ al fits ok', of STA_SESSION_STATE_READING] d(4)
    by (auto simp: stanet_session_read_def read_msg_def)
  obtain Q2 where good2: "sta_good st2 as Q2 ((D(a := D a @ [read_msg 0]))(a := (D(a := D a @ [read_msg 0])) a @ [read_msg 0]))"
    using sent_good [OF r2(2) good1 at1] by auto
  obtain q2 where at2: "session_at st2 a = Some (?s1\<lparr>ss_msg_q := q2\<rparr>)"
    using r2(2) unfolding sent_def by (auto simp: cond_signal_def)
  have "D a = []" using queue_of_good [OF good d(3)] d(8) by simp
  then have q2: "queue_of st2 a = read_msg 0 # [read_msg 0]" using queue_of_good [OF good2 at2] by simp
  have one: "(0 :: int) \<le> 0" by simp
  have reach1: "sta_reach demo_os st1" by (rule sta_reach.step [OF d(1) sta_step.caller_reads [OF one r1(1)]])
  have reach2: "sta_reach demo_os st2" by (rule sta_reach.step [OF reach1 sta_step.caller_reads [OF one r2(1)]])
  have inv2: "sta_inv st2 as Q2 ((D(a := D a @ [read_msg 0]))(a := (D(a := D a @ [read_msg 0])) a @ [read_msg 0]))"
    using good2 by (simp add: sta_good_def)
  let ?s2 = "?s1\<lparr>ss_msg_q := q2\<rparr>"
  have core2: "sta_core st2 as Q2 ((D(a := D a @ [read_msg 0]))(a := (D(a := D a @ [read_msg 0])) a @ [read_msg 0]))"
    using inv2 by (simp add: sta_inv_def)
  have hd2: "((D(a := D a @ [read_msg 0]))(a := (D(a := D a @ [read_msg 0])) a @ [read_msg 0])) a = read_msg 0 # [read_msg 0]"
    using \<open>D a = []\<close> by simp
  obtain q3 h3 where round: "thread_round demo_os a st2 = rbind (handle_msg demo_os a (read_msg 0)
      (put_ses a (?s2\<lparr>ss_msg_q := q3\<rparr>) (st2\<lparr>msgs := h3\<rparr>))) (upd_ses a (\<lambda>s. s\<lparr>ss_mode := Waiting\<rparr>))"
    using thread_round_pop [where e = demo_os, OF core2 at2 hd2 ok] by blast
  have loop: "read_loop demo_os fd 0 [] w = Some ([], False, w)" for fd w by (subst read_loop.simps) simp
  have "\<exists>st3. thread_round demo_os a st2 = Inr st3"
    unfolding round
    by (simp add: handle_msg_def read_msg_def handle_read_def ses loop wr_buf_def qmi_session_callback_def Let_def upd_ses_def get_ses_def)
  then obtain st3 where r3: "thread_round demo_os a st2 = Inr st3" by blast
  have no: "msg_id (read_msg 0) \<noteq> STA_MSG_SOCKET_OPEN" by (simp add: read_msg_def)
  have "ss_mode ?s2 = Woken" by simp
  from messages_left_waiting [OF demo_os_good(1) reach2 at2 this q2 no r3] r3 reach2
  show ?thesis by (elim conjE exE) (intro exI [of _ st2] exI [of _ st3] exI [of _ a] exI conjI, auto)
qed

text \<open>Two requests to open that come before the thread has run pick the same session: both
  return success and both messages are queued behind each other.\<close>

theorem opens_share_session:
  assumes "os_good e" "sta_reach e st" "session_get_usable st = Inr sid" "0 \<le> sid" "host_ok h1 p1" "host_ok h2 p2"
  shows "\<exists>a st1 st2. stanet_session_open e (Some h1) p1 st = Inr (0, st1) \<and> stanet_session_open e (Some h2) p2 st1 = Inr (0, st2)
    \<and> queue_of st2 a = queue_of st a @ [open_msg h1 p1, open_msg h2 p2]"
proof -
  obtain as Q D where good: "sta_good st as Q D" using sta_reach_good [OF assms(2,1)] by blast
  obtain a s where a: "find (\<lambda>a. ss_state (the (session_at st a)) = STA_SESSION_STATE_UNUSED) as = Some a"
    "session_at st a = Some s" "ss_id s = sid" "ss_state s = STA_SESSION_STATE_UNUSED"
    using usable_first [OF good assms(3,4)] by (elim exE conjE)
  obtain st1 where o1: "stanet_session_open e (Some h1) p1 st = Inr (0, st1)" "sent a s (open_msg h1 p1) as Q D st st1"
    using stanet_session_open_cases [OF good assms(1,5)] a(1,2) by (auto simp: open_requested_def)
  obtain Q1 where good1: "sta_good st1 as Q1 (D(a := D a @ [open_msg h1 p1]))" using sent_good [OF o1(2) good a(2) refl] by blast
  obtain q where at1: "session_at st1 = (session_at st)(a \<mapsto> s\<lparr>ss_mode := cond_signal (ss_mode s), ss_msg_q := q\<rparr>)"
    using o1(2) unfolding sent_def by blast
  let ?s1 = "s\<lparr>ss_mode := cond_signal (ss_mode s), ss_msg_q := q\<rparr>"
  have st1a: "session_at st1 a = Some ?s1" using at1 by simp
  have "(\<lambda>b. ss_state (the (session_at st1 b)) = STA_SESSION_STATE_UNUSED)
      = (\<lambda>b. ss_state (the (session_at st b)) = STA_SESSION_STATE_UNUSED)" using at1 a(2) by auto
  then have f1: "find (\<lambda>a. ss_state (the (session_at st1 a)) = STA_SESSION_STATE_UNUSED) as = Some a" using a(1) by simp
  obtain st2 where o2: "stanet_session_open e (Some h2) p2 st1 = Inr (0, st2)"
    "sent a ?s1 (open_msg h2 p2) as Q1 (D(a := D a @ [open_msg h1 p1])) st1 st2"
    using stanet_session_open_cases [OF good1 assms(1,6)] f1 st1a by (auto simp: open_requested_def)
  obtain Q2 where good2: "sta_good st2 as Q2 ((D(a := D a @ [open_msg h1 p1]))(a := (D(a := D a @ [open_msg h1 p1])) a @ [open_msg h2 p2]))"
    using sent_good [OF o2(2) good1 st1a refl] by blast
  obtain s2 where at2: "session_at st2 a = Some s2" using o2(2) unfolding sent_def by auto
  have "queue_of st2 a = queue_of st a @ [open_msg h1 p1, open_msg h2 p2]"
    using queue_of_good [OF good2 at2] queue_of_good [OF good a(2)] by simp
  with o1(1) o2(1) show ?thesis by blast
qed

theorem opens_share_session_witness:
  "\<exists>st a st1 st2. sta_reach demo_os st
    \<and> stanet_session_open demo_os (Some (bytes_of ''192.168.1.224'')) 8182 st = Inr (0, st1)
    \<and> stanet_session_open demo_os (Some (bytes_of ''192.168.1.224'')) 8182 st1 = Inr (0, st2)
    \<and> length (queue_of st2 a) = length (queue_of st a) + 2"
proof -
  obtain st a s as where d: "sta_reach demo_os st" "sta_good st as (\<lambda>_. []) (\<lambda>_. [])" "a \<in> set as" "session_get_usable st = Inr 0"
    "session_get 0 st = Inr (Some a)" "session_at st a = Some s" "ss_mode s = Waiting" "queue_of st a = []"
    using demo_idle by (elim exE conjE)
  from opens_share_session [OF demo_os_good(1) d(1,4) order_refl demo_host(1) demo_host(1)] obtain b st1 st2
    where "stanet_session_open demo_os (Some (bytes_of ''192.168.1.224'')) 8182 st = Inr (0, st1)"
      "stanet_session_open demo_os (Some (bytes_of ''192.168.1.224'')) 8182 st1 = Inr (0, st2)"
      "queue_of st2 b = queue_of st b @ [open_msg (bytes_of ''192.168.1.224'') 8182, open_msg (bytes_of ''192.168.1.224'') 8182]"
    by (elim exE conjE)
  then show ?thesis using d(1) by (intro exI [of _ st] exI [of _ b] exI [of _ st1] exI [of _ st2]) simp
qed

text \<open>A host of up to 128 bytes is accepted, but the host, a colon and the port have to fit
  into 132 bytes: with a longer text, \<open>stanet_session_open\<close> writes behind its buffer.\<close>

theorem long_host_overruns:
  assumes "session_get_usable st = Inr sid" "0 \<le> sid" "h \<noteq> []" "length h \<le> 128" "0 < port" "133 \<le> length (open_text h port)"
  shows "stanet_session_open e (Some h) port st = Inl OutOfBounds"
proof -
  let ?t = "open_text h port"
  have w1: "wr_bytes (replicate (SESSION_HOST_MAX_LEN + 5) 0) 0 (take (SESSION_HOST_MAX_LEN + 4) ?t @ [0]) = Inr (take 132 ?t @ [0])"
    using assms(6) by (simp add: wr_bytes_ok SESSION_HOST_MAX_LEN_def)
  have w2: "wr_buf (take 132 ?t @ [0]) (int (length ?t)) 0 = Inl OutOfBounds"
    using assms(6) by (simp add: wr_buf_def)
  have "\<not> port \<le> 0" "\<not> length h \<le> 0" "\<not> length h > SESSION_HOST_MAX_LEN" "\<not> sid < 0"
    using assms(2-5) by (auto simp: SESSION_HOST_MAX_LEN_def)
  then show ?thesis
    using assms(1) w1 w2 unfolding stanet_session_open_def open_text_def [symmetric] Let_def by simp
qed

theorem long_host_overruns_witness:
  "\<exists>st. sta_reach demo_os st \<and> stanet_session_open demo_os (Some (replicate 128 0x61)) 8182 st = Inl OutOfBounds"
proof -
  obtain st a s as where d: "sta_reach demo_os st" "sta_good st as (\<lambda>_. []) (\<lambda>_. [])" "a \<in> set as" "session_get_usable st = Inr 0"
    "session_get 0 st = Inr (Some a)" "session_at st a = Some s" "ss_mode s = Waiting" "queue_of st a = []"
    using demo_idle by (elim exE conjE)
  have "133 \<le> length (open_text (replicate 128 0x61) 8182)"
    by (simp add: open_text_def dec_int_def dec_nat.simps [of 8182] dec_nat.simps [of 818] dec_nat.simps [of 81] dec_nat.simps [of 8])
  from long_host_overruns [OF d(4) order_refl _ _ _ this] d(1) show ?thesis by auto
qed

end
