(* ===== verification/M_String.thy ===== *)
theory M_String
  imports C_Library "HOL-Library.Sublist"
begin

text \<open>
  The string helpers of \<open>lib/m_string.c\<close>.  A C string that is only read is the list of its
  bytes without the terminating zero (None for NULL); a buffer that is written is a memory
  block, and what is written includes the zero.  Positions and lengths stay far below the
  range of a C int.
\<close>

section \<open>The C library\<close>

text \<open>\<open>strstr\<close>: the position of the first occurrence.\<close>

fun strstr :: "byte list \<Rightarrow> byte list \<Rightarrow> nat option" where
  "strstr [] sub = (if sub = [] then Some 0 else None)"
| "strstr (c # s) sub = (if prefix sub (c # s) then Some 0 else map_option Suc (strstr s sub))"

section \<open>Case\<close>

text \<open>\<open>str_tolower\<close> compares \<open>len\<close> with the length of what happens to be in the destination.
  None is the result NULL, otherwise the destination is returned.\<close>

definition str_convert :: "(byte \<Rightarrow> byte) \<Rightarrow> byte list option \<Rightarrow> byte list option \<Rightarrow> nat \<Rightarrow> byte list option res" where
  "str_convert f src dest len =
     (case src of None \<Rightarrow> Inr None | Some s \<Rightarrow>
      (case dest of None \<Rightarrow> Inr None | Some d \<Rightarrow>
        rbind (mem_str d) (\<lambda>old.
          if length old + 1 > len then Inr None
          else rmap Some (wr_bytes d 0 (map f s @ [0])))))"

definition str_tolower :: "byte list option \<Rightarrow> byte list option \<Rightarrow> nat \<Rightarrow> byte list option res" where
  "str_tolower = str_convert c_tolower"

definition str_toupper :: "byte list option \<Rightarrow> byte list option \<Rightarrow> nat \<Rightarrow> byte list option res" where
  "str_toupper = str_convert c_toupper"

section \<open>Searching\<close>

definition str_indexof :: "byte list option \<Rightarrow> byte list option \<Rightarrow> int" where
  "str_indexof str sub =
     (case (str, sub) of
        (Some s, Some s_sub) \<Rightarrow> (case strstr s s_sub of None \<Rightarrow> -1 | Some i \<Rightarrow> int i)
      | _ \<Rightarrow> -1)"

definition str_contains :: "byte list option \<Rightarrow> byte list option \<Rightarrow> bool" where
  "str_contains str sub =
     (if str = None \<or> sub = None then False else if str_indexof str sub = -1 then False else True)"

definition str_startwith :: "byte list option \<Rightarrow> byte list option \<Rightarrow> bool" where
  "str_startwith str prf =
     (case (str, prf) of
        (Some s, Some s_prefix) \<Rightarrow>
          if length s < length s_prefix then False
          else if str_indexof (Some s) (Some s_prefix) \<noteq> 0 then False else True
      | _ \<Rightarrow> False)"

definition str_endwith :: "byte list option \<Rightarrow> byte list option \<Rightarrow> bool" where
  "str_endwith str suf =
     (case (str, suf) of
        (Some s, Some s_suffix) \<Rightarrow>
          if length s < length s_suffix then False
          else if str_indexof (Some (drop (length s - length s_suffix) s)) (Some s_suffix) \<noteq> 0
          then False else True
      | _ \<Rightarrow> False)"

text \<open>The two buffers come from \<open>malloc\<close> with whatever they hold (None when it fails).\<close>

definition str_startwith_ignorecase ::
    "byte list option \<Rightarrow> byte list option \<Rightarrow> byte list option \<Rightarrow> byte list option \<Rightarrow> bool res" where
  "str_startwith_ignorecase buf1 buf2 str prf =
     (case (str, prf) of
        (Some s, Some s_prefix) \<Rightarrow>
          if length s < length s_prefix then Inr False
          else
            rbind (str_tolower (Some s_prefix) buf2 (length s_prefix + 1)) (\<lambda>p.
            rbind (str_tolower (Some s) buf1 (length s + 1)) (\<lambda>t.
            rbind (case t of None \<Rightarrow> Inr None | Some m \<Rightarrow> rmap Some (mem_str m)) (\<lambda>t'.
            rmap (str_startwith t') (case p of None \<Rightarrow> Inr None | Some m \<Rightarrow> rmap Some (mem_str m)))))
      | _ \<Rightarrow> Inr False)"

section \<open>Substrings\<close>

definition str_substring :: "byte list option \<Rightarrow> nat \<Rightarrow> nat \<Rightarrow> byte list option \<Rightarrow> nat \<Rightarrow> byte list option res" where
  "str_substring str begin_index end_index sub_str len =
     (case (str, sub_str) of
        (Some s, Some result) \<Rightarrow>
          if begin_index \<ge> end_index \<or> begin_index \<ge> length s \<or> end_index - begin_index + 1 > len
          then Inr None
          else
            let end_index = (if end_index > length s then length s else end_index)
            in rbind (wr_bytes result 0 (take (end_index - begin_index) (drop begin_index s))) (\<lambda>r1.
               rmap Some (wr_buf r1 (int (end_index - begin_index)) 0))
      | _ \<Rightarrow> Inr None)"

text \<open>The loop is entered only with a substring that is not empty.\<close>

lemma strstr_prefix: "strstr s sub = Some i \<Longrightarrow> i \<le> length s \<and> prefix sub (drop i s)"
  by (induction s sub arbitrary: i rule: strstr.induct) (auto split: if_splits)

lemma advance_less: "position < length s \<Longrightarrow> sub \<noteq> [] \<Longrightarrow>
    length s - (position + t + length sub) < length s - position"
  by (cases sub) auto

function contains_count_loop :: "byte list \<Rightarrow> byte list \<Rightarrow> nat \<Rightarrow> nat \<Rightarrow> nat" where
  "contains_count_loop s s_sub position result =
     (if position < length s \<and> s_sub \<noteq> []
      then (case strstr (drop position s) s_sub of
              None \<Rightarrow> result
            | Some temp \<Rightarrow> contains_count_loop s s_sub (position + temp + length s_sub) (result + 1))
      else result)"
  by pat_completeness auto
termination
  by (relation "measure (\<lambda>(s, sub, position, r). length s - position)") (auto intro: advance_less)

declare contains_count_loop.simps [simp del]

definition str_contains_count :: "byte list option \<Rightarrow> byte list option \<Rightarrow> nat" where
  "str_contains_count str sub =
     (case (str, sub) of
        (Some s, Some s_sub) \<Rightarrow>
          if s = [] then 0 else if s_sub = [] then 0 else contains_count_loop s s_sub 0 0
      | _ \<Rightarrow> 0)"

section \<open>Replacing\<close>

text \<open>The three results: NULL, the literal empty string, the destination.\<close>

datatype str_result = RetNull | RetEmpty | RetDest "byte list"

function replace_loop :: "byte list \<Rightarrow> byte list \<Rightarrow> byte list \<Rightarrow> nat \<Rightarrow> nat \<Rightarrow> byte list \<Rightarrow>
    (nat \<times> nat \<times> byte list) res" where
  "replace_loop s target rep position_old position_new dest =
     (if position_old < length s \<and> target \<noteq> []
      then (case strstr (drop position_old s) target of
              None \<Rightarrow> Inr (position_old, position_new, dest)
            | Some temp \<Rightarrow>
                rbind (wr_bytes dest (int position_new) (take temp (drop position_old s))) (\<lambda>d1.
                rbind (wr_bytes d1 (int (position_new + temp)) rep) (\<lambda>d2.
                replace_loop s target rep (position_old + temp + length target)
                  (position_new + temp + length rep) d2)))
      else Inr (position_old, position_new, dest))"
  by pat_completeness auto
termination
  by (relation "measure (\<lambda>(s, target, rep, position_old, position_new, dest). length s - position_old)") (auto intro: advance_less)

declare replace_loop.simps [simp del]

definition str_replace :: "byte list option \<Rightarrow> byte list option \<Rightarrow> byte list option \<Rightarrow> byte list option \<Rightarrow>
    nat \<Rightarrow> str_result res" where
  "str_replace src target replacement dest len =
     (case (src, target, replacement, dest) of
        (Some s, Some t, Some r, Some d) \<Rightarrow>
          if length s = 0 \<or> length t = 0 then Inr RetEmpty
          else
            let newlen = int (length s) + (int (length r) - int (length t)) * int (str_contains_count src target)
            in rbind (replace_loop s t r 0 0 d) (\<lambda>(position_old, position_new, d1).
               rbind (rd_bytes (s @ [0]) (int position_old) (nat (newlen - int position_new))) (\<lambda>tail.
               rbind (wr_bytes d1 (int position_new) tail) (\<lambda>d2.
               rmap RetDest (wr_buf d2 newlen 0))))
      | _ \<Rightarrow> Inr RetNull)"

section \<open>Trimming\<close>

definition is_blank :: "byte \<Rightarrow> bool" where
  "is_blank c = (c = 0x20 \<or> c = 0x09 \<or> c = 0x0A \<or> c = 0x0D)"

text \<open>Backwards from position j, overwriting blanks; nothing stops it at the first byte.\<close>

function trim_tail :: "byte list \<Rightarrow> int \<Rightarrow> byte list res" where
  "trim_tail m j =
     (case rd_buf m j of Inl e \<Rightarrow> Inl e
      | Inr c \<Rightarrow>
          if is_blank c
          then (case wr_buf m j 0 of Inl e \<Rightarrow> Inl e | Inr m' \<Rightarrow> trim_tail m' (j - 1))
          else Inr m)"
  by pat_completeness auto
termination
  by (relation "measure (\<lambda>(m, j). nat (j + 1))") (auto dest!: rd_buf_range)

declare trim_tail.simps [simp del]

definition str_trim :: "byte list option \<Rightarrow> byte list option \<Rightarrow> nat \<Rightarrow> str_result res" where
  "str_trim str result len =
     (case (str, result) of
        (Some s, Some r) \<Rightarrow>
          if length s + 1 > len then Inr RetNull
          else if length s = 0 then Inr RetEmpty
          else
            rbind (trim_tail (s @ [0]) (int (length s) - 1)) (\<lambda>tmp.
            rbind (mem_str tmp) (\<lambda>t.
            let t' = dropWhile is_blank t
            in rbind (wr_bytes r 0 (replicate (length t' + 1) 0)) (\<lambda>r1.
               rmap RetDest (wr_bytes r1 0 t'))))
      | _ \<Rightarrow> Inr RetNull)"

section \<open>Arrays of strings and numbers\<close>

text \<open>The array ends at its first NULL.\<close>

fun array_len_loop :: "'a option list \<Rightarrow> nat \<Rightarrow> nat res" where
  "array_len_loop [] count = Inl OutOfBounds"
| "array_len_loop (None # ps) count = Inr count"
| "array_len_loop (Some p # ps) count = array_len_loop ps (count + 1)"

definition str_array_len :: "'a option list option \<Rightarrow> nat res" where
  "str_array_len str = (case str of None \<Rightarrow> Inr 0 | Some ps \<Rightarrow> array_len_loop ps 0)"

text \<open>None is the result FALSE.\<close>

definition str_atoi :: "byte list option \<Rightarrow> int option res" where
  "str_atoi str =
     (case str of None \<Rightarrow> Inl NullDeref
      | Some s \<Rightarrow> if list_all c_isdigit s then rmap Some (atoi (s @ [0])) else Inr None)"

section \<open>Splitting\<close>

text \<open>\<open>strtok\<close> on the memory of a string from a position: skip delimiters, take the bytes up to
  the next delimiter or the end, overwrite that delimiter.  The result is the token, the
  memory and the position from which the next call goes on.\<close>

definition strtok :: "byte list \<Rightarrow> byte list \<Rightarrow> nat \<Rightarrow> (byte list \<times> byte list \<times> nat) option" where
  "strtok delims m pos =
     (let rest = takeWhile (\<lambda>b. b \<noteq> 0) (drop pos m);
          skipped = length (takeWhile (\<lambda>b. b \<in> set delims) rest);
          body = drop skipped rest;
          tok = takeWhile (\<lambda>b. b \<notin> set delims) body;
          stop = pos + skipped + length tok
      in if body = [] then None
         else if length tok < length body then Some (tok, m[stop := 0], stop + 1)
         else Some (tok, m, stop))"

lemma strtok_progress: "strtok delims m pos = Some (tok, m', pos') \<Longrightarrow> pos < pos' \<and> pos' \<le> length m \<and> length m' = length m"
proof -
  assume a: "strtok delims m pos = Some (tok, m', pos')"
  define rest where "rest = takeWhile (\<lambda>b. b \<noteq> 0) (drop pos m)"
  define k where "k = length (takeWhile (\<lambda>b. b \<in> set delims) rest)"
  define t where "t = takeWhile (\<lambda>b. b \<notin> set delims) (drop k rest)"
  have body: "drop k rest \<noteq> []" using a by (auto simp: strtok_def Let_def rest_def k_def split: if_splits)
  have "length rest \<le> length m - pos"
    using length_takeWhile_le [of "\<lambda>b. b \<noteq> 0" "drop pos m"] by (simp add: rest_def)
  moreover have "k + length t \<le> length rest"
    using length_takeWhile_le [of "\<lambda>b. b \<notin> set delims" "drop k rest"] body by (simp add: t_def)
  moreover have "0 < length t"
  proof -
    have "drop k rest = dropWhile (\<lambda>b. b \<in> set delims) rest"
      by (simp add: k_def dropWhile_eq_drop)
    then have "hd (drop k rest) \<notin> set delims" using body hd_dropWhile [of "\<lambda>b. b \<in> set delims" rest] by simp
    then show ?thesis using body by (cases "drop k rest") (simp_all add: t_def)
  qed
  moreover have "length t < length (drop k rest) \<Longrightarrow> k + length t < length rest" by simp
  ultimately show ?thesis using a
    by (auto simp: strtok_def Let_def rest_def [symmetric] k_def [symmetric] t_def [symmetric] split: if_splits)
qed

text \<open>All tokens, with the memory after the last call.\<close>

function strtok_all :: "byte list \<Rightarrow> byte list \<Rightarrow> nat \<Rightarrow> byte list list \<times> byte list" where
  "strtok_all delims m pos =
     (case strtok delims m pos of
        None \<Rightarrow> ([], m)
      | Some (tok, m', pos') \<Rightarrow> (let (toks, m'') = strtok_all delims m' pos' in (tok # toks, m'')))"
  by pat_completeness auto
termination
  by (relation "measure (\<lambda>(delims, m, pos). length m - pos)") (auto dest!: strtok_progress)

declare strtok_all.simps [simp del]

text \<open>The first pass runs on the caller's string and cuts it up; the tokens are those of a
  copy.  The result is the array and the memory of the caller's string.\<close>

definition str_split_by_char :: "byte list option \<Rightarrow> byte list option \<Rightarrow> (byte list list \<times> byte list) res" where
  "str_split_by_char str regex =
     (case (str, regex) of
        (Some s, Some delims) \<Rightarrow>
          Inr (fst (strtok_all delims (s @ [0]) 0), snd (strtok_all delims (s @ [0]) 0))
      | _ \<Rightarrow> Inl NullDeref)"

function split_loop :: "byte list \<Rightarrow> byte list \<Rightarrow> nat \<Rightarrow> byte list list \<Rightarrow> nat \<times> byte list list" where
  "split_loop s regex position_old result =
     (if position_old < length s \<and> regex \<noteq> []
      then (case strstr (drop position_old s) regex of
              None \<Rightarrow> (position_old, result)
            | Some temp \<Rightarrow>
                split_loop s regex (position_old + temp + length regex)
                  (result @ [take temp (drop position_old s)]))
      else (position_old, result))"
  by pat_completeness auto
termination
  by (relation "measure (\<lambda>(s, regex, position_old, result). length s - position_old)") (auto intro: advance_less)

declare split_loop.simps [simp del]

text \<open>The result array has room for \<open>count + 1\<close> strings and the NULL; the pointer returned is
  that many entries before its end.\<close>

definition str_split_by_string :: "byte list option \<Rightarrow> byte list option \<Rightarrow> byte list list option res" where
  "str_split_by_string str regex =
     (case (str, regex) of
        (Some s, Some r) \<Rightarrow>
          if s = [] \<or> r = [] then Inr None
          else let count = str_contains_count str regex in
               if count = 0 then Inr None
               else let (position_old, result) = split_loop s r 0 [];
                        array = result @ [drop position_old s]
                    in if length array \<noteq> count + 1 then Inl OutOfBounds else Inr (Some array)
      | _ \<Rightarrow> Inr None)"


section \<open>Searching is finding the first occurrence\<close>

lemma strstr_None: "strstr s sub = None \<longleftrightarrow> \<not> sublist sub s"
  by (induction s sub rule: strstr.induct) (auto simp: sublist_Cons_right)

lemma strstr_0: "strstr s sub = Some 0 \<longleftrightarrow> prefix sub s"
  by (cases s) auto

lemma strstr_first: "strstr s sub = Some i \<Longrightarrow> j < i \<Longrightarrow> \<not> prefix sub (drop j s)"
  by (induction s sub arbitrary: i j rule: strstr.induct) (auto split: if_splits simp: drop_Cons split: nat.splits)

lemma str_contains_sublist: "str_contains (Some s) (Some sub) = sublist sub s"
  using strstr_None [of s sub] by (auto simp: str_contains_def str_indexof_def split: option.splits)

lemma str_startwith_prefix: "str_startwith (Some s) (Some p) = prefix p s"
  using strstr_0 [of s p] prefix_length_le [of p s]
  by (auto simp: str_startwith_def str_indexof_def split: option.splits)

lemma str_endwith_suffix: "str_endwith (Some s) (Some p) = suffix p s"
proof (cases "length s < length p")
  case True
  then show ?thesis using suffix_length_le [of p s] by (auto simp: str_endwith_def)
next
  case False
  let ?d = "drop (length s - length p) s"
  have len: "length ?d = length p" using False by simp
  have "prefix p ?d \<longleftrightarrow> p = ?d"
  proof
    assume "prefix p ?d"
    then obtain zs where zs: "?d = p @ zs" by (auto simp: prefix_def)
    with len have "zs = []" by (metis append_self_conv length_0_conv length_append add_left_cancel add_0_right)
    with zs show "p = ?d" by simp
  qed (metis prefix_order.refl)
  also have "\<dots> \<longleftrightarrow> suffix p s"
  proof
    assume "p = ?d"
    then show "suffix p s" by (metis suffix_drop)
  qed (auto simp: suffix_def)
  finally show ?thesis using False strstr_0 [of ?d p]
    by (auto simp: str_endwith_def str_indexof_def split: option.splits)
qed

section \<open>The pieces between the occurrences of a string\<close>

function pieces :: "byte list \<Rightarrow> byte list \<Rightarrow> byte list list" where
  "pieces sub s =
     (if sub = [] then [s]
      else case strstr s sub of None \<Rightarrow> [s] | Some i \<Rightarrow> take i s # pieces sub (drop (i + length sub) s))"
  by pat_completeness auto
termination
proof (relation "measure (\<lambda>(sub, s). length s)", goal_cases)
  case (2 sub s i)
  then have "prefix sub (drop i s)" using strstr_prefix by blast
  then have "length sub \<le> length s - i" using prefix_length_le by fastforce
  with 2 show ?case by (cases sub) auto
qed simp

declare pieces.simps [simp del]

fun join :: "byte list \<Rightarrow> byte list list \<Rightarrow> byte list" where
  "join sep [] = []"
| "join sep [x] = x"
| "join sep (x # y # xs) = x @ sep @ join sep (y # xs)"

lemma join_Cons: "xs \<noteq> [] \<Longrightarrow> join sep (x # xs) = x @ sep @ join sep xs"
  by (cases xs) auto

lemma pieces_ne [simp]: "pieces sub s \<noteq> []"
  by (subst pieces.simps) (auto split: option.splits)

lemma pieces_step:
  "sub \<noteq> [] \<Longrightarrow> strstr s sub = Some i \<Longrightarrow> pieces sub s = take i s # pieces sub (drop (i + length sub) s)"
  by (subst pieces.simps) simp

lemma pieces_last: "strstr s sub = None \<Longrightarrow> pieces sub s = [s]"
  by (subst pieces.simps) simp

lemma strstr_split:
  assumes "strstr s sub = Some i"
  shows "take i s @ sub @ drop (i + length sub) s = s"
proof -
  obtain zs where zs: "drop i s = sub @ zs" using strstr_prefix [OF assms] by (auto simp: prefix_def)
  have "drop (i + length sub) s = drop (length sub) (drop i s)" by (simp add: add.commute)
  also have "\<dots> = zs" unfolding zs by simp
  finally show ?thesis using zs append_take_drop_id [of i s] by simp
qed

lemma strstr_in: "strstr (drop pos s) sub = Some t \<Longrightarrow> sub \<noteq> [] \<Longrightarrow> pos < length s"
  by (rule ccontr) simp

lemma join_pieces: "join sub (pieces sub s) = s"
proof (induction sub s rule: pieces.induct)
  case (1 sub s)
  show ?case
  proof (cases "sub = [] \<or> strstr s sub = None")
    case True
    then show ?thesis by (subst pieces.simps) auto
  next
    case False
    then obtain i where i: "strstr s sub = Some i" "sub \<noteq> []" by auto
    then show ?thesis using 1 [OF i(2,1)] strstr_split [OF i(1)]
      by (simp add: pieces_step join_Cons)
  qed
qed

lemma strstr_take: "strstr s sub = Some i \<Longrightarrow> sub \<noteq> [] \<Longrightarrow> \<not> sublist sub (take i s)"
proof
  assume a: "strstr s sub = Some i" "sub \<noteq> []" "sublist sub (take i s)"
  then obtain us vs where u: "take i s = us @ sub @ vs" by (auto simp: sublist_def)
  have "length us < i" using arg_cong [OF u, of length] a(2) by (cases sub) auto
  moreover have "prefix sub (drop (length us) (take i s @ drop i s))"
    by (simp only: u) simp
  ultimately show False using strstr_first [OF a(1)] by simp
qed

lemma pieces_free: "sub \<noteq> [] \<Longrightarrow> x \<in> set (pieces sub s) \<Longrightarrow> \<not> sublist sub x"
proof (induction sub s rule: pieces.induct)
  case (1 sub s)
  show ?case
  proof (cases "strstr s sub")
    case None
    then show ?thesis using 1 strstr_None [of s sub] by (auto simp: pieces_last)
  next
    case (Some i)
    then show ?thesis using 1 strstr_take [OF Some] by (auto simp: pieces_step)
  qed
qed

section \<open>The loops walk over the pieces\<close>

lemma count_loop_pieces:
  "sub \<noteq> [] \<Longrightarrow> contains_count_loop s sub pos n + 1 = n + length (pieces sub (drop pos s))"
proof (induction s sub pos n rule: contains_count_loop.induct)
  case (1 s sub pos n)
  show ?case
  proof (cases "strstr (drop pos s) sub")
    case None
    then show ?thesis by (subst contains_count_loop.simps) (simp add: pieces_last)
  next
    case (Some t)
    note in_s = strstr_in [OF Some 1(2)]
    show ?thesis using 1 Some in_s
      by (subst contains_count_loop.simps) (simp add: pieces_step add_ac)
  qed
qed

lemma split_loop_pieces:
  "sub \<noteq> [] \<Longrightarrow> split_loop s sub pos acc = (pos', acc') \<Longrightarrow> acc' @ [drop pos' s] = acc @ pieces sub (drop pos s)"
proof (induction s sub pos acc rule: split_loop.induct)
  case (1 s sub pos acc)
  show ?case
  proof (cases "strstr (drop pos s) sub")
    case None
    then show ?thesis using 1(3) by (subst (asm) split_loop.simps) (auto simp: pieces_last split: if_splits)
  next
    case (Some t)
    note in_s = strstr_in [OF Some 1(2)]
    have "split_loop s sub pos acc = split_loop s sub (pos + t + length sub) (acc @ [take t (drop pos s)])"
      using in_s 1(2) Some by (subst split_loop.simps) simp
    with 1(1) [of t] 1(2,3) in_s Some show ?thesis by (simp add: pieces_step add_ac)
  qed
qed

lemma str_contains_count_pieces:
  "s \<noteq> [] \<Longrightarrow> sub \<noteq> [] \<Longrightarrow> str_contains_count (Some s) (Some sub) + 1 = length (pieces sub s)"
  using count_loop_pieces [of sub s 0 0] by (simp add: str_contains_count_def)

lemma str_split_by_string_pieces:
  assumes "s \<noteq> []" "sub \<noteq> []"
  shows "str_split_by_string (Some s) (Some sub)
    = Inr (if sublist sub s then Some (pieces sub s) else None)"
proof -
  obtain pos result where l: "split_loop s sub 0 [] = (pos, result)" by fastforce
  have p: "result @ [drop pos s] = pieces sub s" using split_loop_pieces [OF assms(2) l] by simp
  then have len: "length result = str_contains_count (Some s) (Some sub)"
    using str_contains_count_pieces [OF assms] by (metis add_right_cancel length_append_singleton Suc_eq_plus1)
  have zero: "str_contains_count (Some s) (Some sub) = 0 \<longleftrightarrow> \<not> sublist sub s"
  proof (cases "strstr s sub")
    case None
    then show ?thesis using strstr_None [of s sub] str_contains_count_pieces [OF assms] by (simp add: pieces_last)
  next
    case (Some i)
    have "length (pieces sub (drop (i + length sub) s)) > 0" by simp
    with Some show ?thesis using strstr_None [of s sub] str_contains_count_pieces [OF assms]
      by (simp add: pieces_step [OF assms(2) Some])
  qed
  show ?thesis using assms zero by (simp add: str_split_by_string_def l p len)
qed

section \<open>Replacing\<close>

lemma wr_bytes_here:
  "length vs \<le> length b \<Longrightarrow> wr_bytes (a @ b) (int (length a)) vs = Inr ((a @ vs) @ drop (length vs) b)"
  by (simp add: wr_bytes_ok)

text \<open>The loop leaves the last piece to be copied.\<close>

lemma replace_loop_pieces:
  assumes "target \<noteq> []" "pos \<le> length s"
    and "length (join rep (pieces target (drop pos s))) \<le> length b"
  shows "\<exists>pos' a' b'. replace_loop s target rep pos (length a) (a @ b) = Inr (pos', length a', a' @ b')
    \<and> pos' \<le> length s \<and> a' @ drop pos' s = a @ join rep (pieces target (drop pos s))
    \<and> length a' + length b' = length a + length b"
  using assms(2,3)
proof (induction "length s - pos" arbitrary: pos a b rule: less_induct)
  case less
  show ?case
  proof (cases "strstr (drop pos s) target")
    case None
    then show ?thesis using less.prems
      by (subst replace_loop.simps) (auto simp: pieces_last)
  next
    case (Some t)
    let ?p = "take t (drop pos s)" and ?pos = "pos + t + length target"
    note in_s = strstr_in [OF Some assms(1)]
    have tl: "t \<le> length s - pos" "prefix target (drop t (drop pos s))" using strstr_prefix [OF Some] by auto
    then have tt: "t + length target \<le> length s - pos" using prefix_length_le [OF tl(2)] assms(1) by (cases target) auto
    have lp: "length ?p = t" using tl by simp
    have dp: "drop (t + length target) (drop pos s) = drop ?pos s" by (simp add: add_ac)
    have ps: "join rep (pieces target (drop pos s)) = ?p @ rep @ join rep (pieces target (drop ?pos s))"
      unfolding pieces_step [OF assms(1) Some] dp by (simp add: join_Cons)
    have room: "t + length rep + length (join rep (pieces target (drop ?pos s))) \<le> length b"
      using less.prems(2) lp unfolding ps by simp
    have w1: "wr_bytes (a @ b) (int (length a)) ?p = Inr ((a @ ?p) @ drop t b)"
      using wr_bytes_here [of ?p b a] lp room by simp
    have w2: "wr_bytes ((a @ ?p) @ drop t b) (int (length a + t)) rep = Inr ((a @ ?p @ rep) @ drop (t + length rep) b)"
      using wr_bytes_here [of rep "drop t b" "a @ ?p"] lp room by (simp add: add_ac)
    have step: "replace_loop s target rep pos (length a) (a @ b)
        = replace_loop s target rep ?pos (length (a @ ?p @ rep)) ((a @ ?p @ rep) @ drop (t + length rep) b)"
      using in_s assms(1) Some w1 w2 lp by (subst replace_loop.simps) (simp add: add_ac)
    have "\<exists>pos' a' b'. replace_loop s target rep ?pos (length (a @ ?p @ rep)) ((a @ ?p @ rep) @ drop (t + length rep) b)
        = Inr (pos', length a', a' @ b') \<and> pos' \<le> length s
      \<and> a' @ drop pos' s = (a @ ?p @ rep) @ join rep (pieces target (drop ?pos s))
      \<and> length a' + length b' = length (a @ ?p @ rep) + length (drop (t + length rep) b)"
      by (rule less.hyps) (use in_s tt room advance_less [OF in_s assms(1)] in simp_all)
    then show ?thesis unfolding step ps using lp room by fastforce
  qed
qed

lemma length_join: "xs \<noteq> [] \<Longrightarrow> int (length (join sep xs))
    = int (length (concat xs)) + int (length sep) * (int (length xs) - 1)"
  by (induction sep xs rule: join.induct) (auto simp: algebra_simps)

lemma length_replaced:
  assumes "s \<noteq> []" "target \<noteq> []"
  shows "int (length s) + (int (length rep) - int (length target)) * int (str_contains_count (Some s) (Some target))
    = int (length (join rep (pieces target s)))"
proof -
  have c: "int (str_contains_count (Some s) (Some target)) = int (length (pieces target s)) - 1"
    using str_contains_count_pieces [OF assms] by linarith
  have "int (length s) = int (length (concat (pieces target s))) + int (length target) * (int (length (pieces target s)) - 1)"
    using length_join [of "pieces target s" target] by (simp add: join_pieces)
  then show ?thesis unfolding c using length_join [of "pieces target s" rep] by (simp add: algebra_simps)
qed

lemma str_replace_join:
  assumes "s \<noteq> []" "target \<noteq> []" "length (join rep (pieces target s)) < length d"
  shows "\<exists>rest. str_replace (Some s) (Some target) (Some rep) (Some d) len
      = Inr (RetDest (join rep (pieces target s) @ 0 # rest))
    \<and> length (join rep (pieces target s)) + 1 + length rest = length d"
proof -
  let ?j = "join rep (pieces target s)"
  obtain pos a b where l: "replace_loop s target rep 0 0 d = Inr (pos, length a, a @ b)"
    "pos \<le> length s" "a @ drop pos s = ?j" "length a + length b = length d"
    using replace_loop_pieces [of target 0 s rep d "[]"] assms by auto
  have lj: "length ?j = length a + length (drop pos s)" using arg_cong [OF l(3), of length] by simp
  have n: "nat (int (length ?j) - int (length a)) = length s - pos" using lj by simp
  have r: "rd_bytes (s @ [0]) (int pos) (length s - pos) = Inr (drop pos s)"
    using l(2) by (simp add: rd_bytes_ok)
  have room: "length (drop pos s) < length b" using lj l(4) assms(3) by simp
  have w: "wr_bytes (a @ b) (int (length a)) (drop pos s) = Inr (?j @ drop (length (drop pos s)) b)"
    using wr_bytes_here [of "drop pos s" b a] room unfolding l(3) by simp
  obtain y ys where y: "drop (length (drop pos s)) b = y # ys" using room by (cases "drop (length (drop pos s)) b") auto
  have "length (drop pos s) + Suc (length ys) = length b" using arg_cong [OF y, of length] room by simp
  then have ys: "length ?j + 1 + length ys = length d" using lj l(4) by simp
  have w0: "wr_buf (?j @ y # ys) (int (length ?j)) 0 = Inr (?j @ 0 # ys)"
    by (rule wr_buf_at) simp
  show ?thesis
    using assms(1,2) length_replaced [OF assms(1,2), of rep] l(1) n r w w0 y ys
    by (simp add: str_replace_def Let_def)
qed

section \<open>Trimming\<close>

lemma trim_tail_stop: "rd_buf m j = Inr c \<Longrightarrow> \<not> is_blank c \<Longrightarrow> trim_tail m j = Inr m"
  by (subst trim_tail.simps) simp

lemma trim_tail_blanks:
  assumes "list_all is_blank bs"
  shows "trim_tail (xs @ bs @ zs) (int (length xs + length bs) - 1)
    = trim_tail (xs @ replicate (length bs) 0 @ zs) (int (length xs) - 1)"
  using assms
proof (induction bs arbitrary: zs rule: rev_induct)
  case (snoc b bs)
  have r: "rd_buf (xs @ (bs @ [b]) @ zs) (int (length xs + length (bs @ [b])) - 1) = Inr b"
    "wr_buf (xs @ (bs @ [b]) @ zs) (int (length xs + length (bs @ [b])) - 1) 0 = Inr (xs @ bs @ 0 # zs)"
    using rd_buf_at [of "int (length xs + length bs)" "xs @ bs" b zs] wr_buf_at [of "int (length xs + length bs)" "xs @ bs" b zs 0]
    by simp_all
  have "trim_tail (xs @ (bs @ [b]) @ zs) (int (length xs + length (bs @ [b])) - 1)
      = trim_tail (xs @ bs @ 0 # zs) (int (length xs + length bs) - 1)"
    using snoc.prems r by (subst trim_tail.simps) simp
  also have "\<dots> = trim_tail (xs @ replicate (length bs) 0 @ 0 # zs) (int (length xs) - 1)"
    using snoc by simp
  finally show ?case by (simp add: replicate_app_Cons_same)
qed simp

definition trimmed :: "byte list \<Rightarrow> byte list" where
  "trimmed s = dropWhile is_blank (rev (dropWhile is_blank (rev s)))"

lemma str_trim_trims:
  assumes "0 \<notin> set s" "\<exists>c \<in> set s. \<not> is_blank c" "length s + 1 \<le> len" "len \<le> length r"
  shows "\<exists>rest. str_trim (Some s) (Some r) len = Inr (RetDest (trimmed s @ 0 # rest))"
proof -
  define body where "body = rev (dropWhile is_blank (rev s))"
  define bs where "bs = rev (takeWhile is_blank (rev s))"
  have s: "s = body @ bs" by (simp add: body_def bs_def flip: rev_append)
  have blank: "list_all is_blank bs" by (auto simp: bs_def list_all_iff dest: set_takeWhileD)
  have ne: "dropWhile is_blank (rev s) \<noteq> []" using assms(2) by (simp add: dropWhile_eq_Nil_conv)
  then obtain xs c where xs: "body = xs @ [c]" "\<not> is_blank c"
    using hd_dropWhile [OF ne] unfolding body_def by (cases "dropWhile is_blank (rev s)") auto
  have zero: "0 \<notin> set body" using assms(1) s by auto
  have "trim_tail (s @ [0]) (int (length s) - 1) = trim_tail (body @ replicate (length bs) 0 @ [0]) (int (length body) - 1)"
    using trim_tail_blanks [OF blank, of body "[0]"] s by simp
  also have "\<dots> = Inr (body @ replicate (length bs) 0 @ [0])"
    by (rule trim_tail_stop [of _ _ c]) (use xs in \<open>simp_all add: rd_buf_at\<close>)
  finally have t: "trim_tail (s @ [0]) (int (length s) - 1) = Inr (body @ replicate (length bs) 0 @ [0])" .
  have m: "mem_str (body @ replicate (length bs) 0 @ [0]) = Inr body"
    using mem_str_at [OF zero, of "replicate (length bs) 0"] by (simp add: replicate_append_same)
  have tr: "trimmed s = dropWhile is_blank body" by (simp add: trimmed_def body_def)
  let ?t = "dropWhile is_blank body"
  have lt: "length ?t \<le> length s" using length_dropWhile_le [of is_blank body] s by simp
  have w1: "wr_bytes r 0 (replicate (length ?t + 1) 0) = Inr (replicate (length ?t + 1) 0 @ drop (length ?t + 1) r)"
    using lt assms(3,4) wr_bytes_ok [of 0 "replicate (length ?t + 1) 0" r] by (simp del: replicate.simps wr_bytes.simps)
  have w2: "wr_bytes (replicate (length ?t + 1) 0 @ drop (length ?t + 1) r) 0 ?t
      = Inr (?t @ 0 # drop (length ?t + 1) r)"
    using wr_bytes_append [of 0 "[]" "replicate (length ?t) 0" ?t "0 # drop (length ?t + 1) r"]
    by (simp add: replicate_app_Cons_same)
  show ?thesis
    using assms(2,3) t m w1 w2 tr by (auto simp: str_trim_def Let_def)
qed

lemma str_trim_blank:
  assumes "s \<noteq> []" "list_all is_blank s" "length s + 1 \<le> len"
  shows "str_trim (Some s) (Some r) len = Inl OutOfBounds"
proof -
  have "trim_tail (s @ [0]) (int (length s) - 1) = trim_tail (replicate (length s) 0 @ [0]) (-1)"
    using trim_tail_blanks [OF assms(2), of "[]" "[0]"] by simp
  also have "\<dots> = Inl OutOfBounds" by (subst trim_tail.simps) (simp add: rd_buf_def)
  finally show ?thesis using assms by (simp add: str_trim_def)
qed

section \<open>Case and tokens\<close>

lemma str_convert_ok:
  assumes "mem_str d = Inr old" "length old < len" "length s < length d"
  shows "str_convert f (Some s) (Some d) len = Inr (Some (map f s @ 0 # drop (length s + 1) d))"
  using assms by (simp add: str_convert_def wr_bytes_ok)

text \<open>The tokens: the non-empty stretches without a delimiter.\<close>

fun tokens :: "byte list \<Rightarrow> byte list \<Rightarrow> byte list \<Rightarrow> byte list list" where
  "tokens ds cur [] = (if cur = [] then [] else [cur])"
| "tokens ds cur (c # s) =
     (if c \<in> set ds then (if cur = [] then tokens ds [] s else cur # tokens ds [] s)
      else tokens ds (cur @ [c]) s)"

lemma tokens_skip: "list_all (\<lambda>b. b \<in> set ds) sk \<Longrightarrow> tokens ds [] (sk @ s) = tokens ds [] s"
  by (induction sk) auto

lemma tokens_run:
  "list_all (\<lambda>b. b \<notin> set ds) t \<Longrightarrow> tokens ds cur (t @ s) = tokens ds (cur @ t) s"
  by (induction t arbitrary: cur) auto

lemma strtok_all_step:
  "strtok_all ds m pos = (case strtok ds m pos of None \<Rightarrow> ([], m)
     | Some (tok, m', pos') \<Rightarrow> (tok # fst (strtok_all ds m' pos'), snd (strtok_all ds m' pos')))"
proof (cases "strtok ds m pos")
  case None
  then show ?thesis by (subst strtok_all.simps) simp
next
  case (Some x)
  obtain tok m' pos' where x: "x = (tok, m', pos')" by (cases x)
  show ?thesis by (subst strtok_all.simps) (simp only: Some x option.case prod.case Let_def case_prod_beta)
qed

lemma strtok_all_tokens:
  assumes "0 \<notin> set s"
  shows "fst (strtok_all ds (A @ s @ [0]) (length A)) = tokens ds [] s"
  using assms
proof (induction "length s" arbitrary: A s rule: less_induct)
  case less
  define sk where "sk = takeWhile (\<lambda>b. b \<in> set ds) s"
  define body where "body = dropWhile (\<lambda>b. b \<in> set ds) s"
  define tok where "tok = takeWhile (\<lambda>b. b \<notin> set ds) body"
  define tl where "tl = dropWhile (\<lambda>b. b \<notin> set ds) body"
  have s: "s = sk @ body" "body = tok @ tl"
    by (simp_all add: sk_def body_def tok_def tl_def)
  have bd: "drop (length sk) s = body" by (simp add: s(1))
  have all: "list_all (\<lambda>b. b \<in> set ds) sk" "list_all (\<lambda>b. b \<notin> set ds) tok"
    by (auto simp: sk_def tok_def list_all_iff dest: set_takeWhileD)
  have rest: "takeWhile (\<lambda>b. b \<noteq> 0) (drop (length A) (A @ s @ [0])) = s"
    using takeWhile_zero [OF less.prems, of "[]"] by simp
  have st: "strtok ds (A @ s @ [0]) (length A) =
     (if body = [] then None
      else if length tok < length body
        then Some (tok, (A @ s @ [0])[length A + length sk + length tok := 0], length A + length sk + length tok + 1)
        else Some (tok, A @ s @ [0], length A + length sk + length tok))"
    unfolding strtok_def rest Let_def sk_def [symmetric] bd tok_def [symmetric] ..
  show ?case
  proof (cases "body = []")
    case True
    then have "tokens ds [] s = []" using s(1) tokens_skip [OF all(1), of "[]"] by simp
    then show ?thesis using st True by (simp add: strtok_all_step)
  next
    case False
    have ne: "tok \<noteq> []"
      using False hd_dropWhile [of "\<lambda>b. b \<in> set ds" s] unfolding tok_def body_def
      by (cases "dropWhile (\<lambda>b. b \<in> set ds) s") auto
    show ?thesis
    proof (cases tl)
      case Nil
      then have tb: "body = tok" using s(2) by simp
      have "strtok ds (A @ s @ [0]) (length A + length sk + length tok) = None"
        using s(1) tb by (simp add: strtok_def)
      then have "fst (strtok_all ds (A @ s @ [0]) (length A)) = [tok]"
        using st False tb by (simp add: strtok_all_step)
      moreover have "tokens ds [] s = [tok]"
        using s(1) tb ne tokens_skip [OF all(1)] tokens_run [OF all(2), of "[]" "[]"] by simp
      ultimately show ?thesis by simp
    next
      case (Cons d s')
      have d: "d \<in> set ds" using Cons hd_dropWhile [of "\<lambda>b. b \<notin> set ds" body] unfolding tl_def
        by (metis list.distinct(1) list.sel(1))
      let ?A = "A @ sk @ tok @ [0]"
      have m: "(A @ s @ [0])[length A + length sk + length tok := 0] = ?A @ s' @ [0]"
        unfolding s(1) s(2) Cons by (simp add: list_update_append)
      have "0 \<notin> set s'" "length s' < length s" using less.prems s Cons by auto
      from less.hyps [OF this(2,1), of ?A]
      have "fst (strtok_all ds (A @ s @ [0]) (length A)) = tok # tokens ds [] s'"
        using st False s(2) Cons unfolding m by (subst strtok_all_step) (simp add: add_ac)
      moreover have "tokens ds [] s = tok # tokens ds [] s'"
        using s Cons ne d tokens_skip [OF all(1)] tokens_run [OF all(2), of "[]" "d # s'"] by simp
      ultimately show ?thesis by simp
    qed
  qed
qed

end
