(* ===== verification/Lib_Properties.thy ===== *)
theory Lib_Properties
  imports M_String M_Queue
begin

text \<open>The properties of the string helpers, the queue and the list.\<close>

section \<open>Strings\<close>

text \<open>The searching helpers built on \<open>strstr\<close> agree with their descriptions: containing is
  having a contiguous sublist, starting with is having a prefix, ending with is having a suffix.\<close>

theorem str_search_correct:
  "str_contains (Some s) (Some sub) = sublist sub s \<and> str_startwith (Some s) (Some sub) = prefix sub s
   \<and> str_endwith (Some s) (Some sub) = suffix sub s"
  by (simp add: str_contains_sublist str_startwith_prefix str_endwith_suffix)



text \<open>C20: \<open>str_replace\<close> writes the pieces between the occurrences of the target joined by the
  replacement, ended by a zero, for a destination with room for it.\<close>

theorem str_replace_correct:
  assumes "s \<noteq> []" "target \<noteq> []" "length (join rep (pieces target s)) < length d"
  shows "\<exists>rest. str_replace (Some s) (Some target) (Some rep) (Some d) len
      = Inr (RetDest (join rep (pieces target s) @ 0 # rest))
    \<and> length (join rep (pieces target s)) + 1 + length rest = length d"
  by (rule str_replace_join [OF assms])

theorem str_replace_correct_witness:
  "\<exists>rest. str_replace (Some (bytes_of ''a-b-c'')) (Some (bytes_of ''-'')) (Some (bytes_of ''++'')) (Some (replicate 10 7)) 0
      = Inr (RetDest (join (bytes_of ''++'') (pieces (bytes_of ''-'') (bytes_of ''a-b-c'')) @ 0 # rest))"
proof -
  have "pieces (bytes_of ''-'') (bytes_of ''a-b-c'') = [bytes_of ''a'', bytes_of ''b'', bytes_of ''c'']"
    by (simp add: bytes_of_def pieces.simps)
  then have "length (join (bytes_of ''++'') (pieces (bytes_of ''-'') (bytes_of ''a-b-c''))) < length (replicate 10 (7 :: byte))"
    by (simp add: bytes_of_def)
  from str_replace_correct [OF _ _ this] show ?thesis by (simp add: bytes_of_def) blast
qed

text \<open>\<open>str_trim\<close> removes the blanks at both ends of a string that has another character.\<close>

theorem str_trim_correct:
  assumes "0 \<notin> set s" "\<exists>c \<in> set s. \<not> is_blank c" "length s + 1 \<le> len" "len \<le> length r"
  shows "\<exists>rest. str_trim (Some s) (Some r) len = Inr (RetDest (trimmed s @ 0 # rest))"
  by (rule str_trim_trims [OF assms])

theorem str_trim_correct_witness:
  "\<exists>rest. str_trim (Some (bytes_of '' a b  '')) (Some (replicate 8 7)) 8 = Inr (RetDest (bytes_of ''a b'' @ 0 # rest))"
proof -
  have "trimmed (bytes_of '' a b  '') = bytes_of ''a b''" by (simp add: trimmed_def bytes_of_def is_blank_def)
  with str_trim_correct [of "bytes_of '' a b  ''" 8 "replicate 8 7"] show ?thesis
    by (simp add: bytes_of_def is_blank_def)
qed

text \<open>For a string of blanks only, the loop that cuts the end runs over the start of its
  copy: \<open>str_trim\<close> touches memory in front of the block.\<close>

theorem str_trim_underruns:
  assumes "s \<noteq> []" "list_all is_blank s" "length s + 1 \<le> len"
  shows "str_trim (Some s) (Some r) len = Inl OutOfBounds"
  by (rule str_trim_blank [OF assms])

theorem str_trim_underruns_witness: "str_trim (Some (bytes_of ''  '')) (Some (replicate 8 7)) 8 = Inl OutOfBounds"
  by (rule str_trim_underruns) (simp_all add: bytes_of_def is_blank_def)

text \<open>\<open>str_split_by_char\<close> gives the maximal non-empty stretches without a delimiter, in
  order, for a string without a zero.\<close>

theorem str_split_by_char_tokens:
  assumes "0 \<notin> set s"
  shows "\<exists>m. str_split_by_char (Some s) (Some ds) = Inr (tokens ds [] s, m)"
  using strtok_all_tokens [OF assms, of ds "[]"] by (simp add: str_split_by_char_def)

theorem str_split_by_char_tokens_witness:
  "\<exists>m. str_split_by_char (Some (bytes_of ''abcadcca'')) (Some (bytes_of ''bd''))
      = Inr ([bytes_of ''a'', bytes_of ''ca'', bytes_of ''cca''], m)"
  using str_split_by_char_tokens [of "bytes_of ''abcadcca''" "bytes_of ''bd''"] by (simp add: bytes_of_def)

section \<open>The queue and the list\<close>

lemma q_init_empty:
  assumes "q < cell_fresh h"
  shows "queue_inv q (q_init q h)" "queue_contents q (q_init q h) = []"
proof -
  have "chain_inv q (q_init q h) [] []" using assms by (simp add: chain_inv_def q_init_def put_cell_def)
  then show "queue_inv q (q_init q h)" "queue_contents q (q_init q h) = []"
    by (auto simp: queue_inv_def queue_contents_chain)
qed

text \<open>C19: The queue is first in, first out: after \<open>q_init\<close>, what \<open>q_get\<close> returns is what was put,
  in the same order, and then nothing.\<close>

theorem queue_fifo:
  assumes "q < cell_fresh h"
  shows "\<exists>s1 s2. put_all (\<lambda>d. q_put (\<lambda>_. True) (Some q) (Some d)) ds (q_init q h) = Inr s1
    \<and> get_many (q_get (Some q)) (length ds) s1 = Inr (map (Some \<circ> Some) ds, s2) \<and> q_get (Some q) s2 = Inr (None, s2)"
  by (rule mq.first_in_first_out [OF q_init_empty [OF assms]])

theorem queue_fifo_witness:
  "\<exists>s1 s2. put_all (\<lambda>d. q_put (\<lambda>_. True) (Some 0) (Some d)) [3, 1, 2 :: nat] (q_init 0 \<lparr>cell_at = (\<lambda>_. None), cell_fresh = 1\<rparr>) = Inr s1
    \<and> get_many (q_get (Some 0)) 3 s1 = Inr ([Some (Some 3), Some (Some 1), Some (Some 2)], s2)"
  using queue_fifo [of 0 "\<lparr>cell_at = (\<lambda>_. None), cell_fresh = 1\<rparr>" "[3, 1, 2 :: nat]"] by (auto simp: eval_nat_numeral)

text \<open>\<open>list_free\<close> hands the data to the free function in the order of insertion and frees
  every cell that \<open>list_add\<close> allocated, but leaves the link in the head, which then points to a
  freed cell: adding to the list again follows it.\<close>

theorem list_free_leaves_link:
  assumes "chain_inv l h as ds" "ds \<noteq> []" "ok (cell_fresh h)"
  shows "\<exists>h'. list_free True (Some l) h = Inr (map Some ds, h') \<and> (\<forall>a \<in> set as. cell_at h' a = None)
    \<and> list_add ok (Some l) (Some d) h' = Inl UseAfterFree"
proof -
  obtain c where c: "cell_at h l = Some c" "chain h (c_next c) as ds" and dist: "distinct (l # as)"
    and low: "\<forall>a \<in> set (l # as). a < cell_fresh h" using assms(1) by (auto simp: chain_inv_def)
  have "length as \<le> cell_fresh h" using bounded_count [OF _ low] dist by simp
  then obtain h' where h': "list_free_loop True (cell_fresh h) (c_next c) h = Inr (map Some ds, h')"
    "cell_at h' = (\<lambda>x. if x \<in> set as then None else cell_at h x)"
    using list_free_loop_chain [OF c(2), of "cell_fresh h" True] dist by auto
  have fresh: "cell_fresh h' = cell_fresh h" using list_free_loop_fresh [OF h'(1)] .
  obtain a as' where as: "as = a # as'" "c_next c = Some a" using c(2) assms(2) by (cases as) auto
  let ?n = "cell_fresh h'"
  have na: "a \<noteq> ?n" "l \<noteq> ?n" "l \<noteq> a" using low dist as fresh by auto
  have hl: "cell_at h' l = Some c" "cell_at h' a = None" using h'(2) c(1) dist as by auto
  have "?n \<noteq> 0" using low fresh by auto
  then obtain k where k: "cell_fresh h = Suc k" using fresh by (cases "cell_fresh h") auto
  have "chain_put ok l d h' = Inl UseAfterFree"
    using assms(3) fresh na as(2) hl k by (simp add: chain_put_def Let_def get_cell_def put_cell_def)
  then have "list_add ok (Some l) (Some d) h' = Inl UseAfterFree" by (simp add: list_add_def)
  moreover have "list_free True (Some l) h = Inr (map Some ds, h')"
    using c(1) h'(1) by (simp add: list_free_def get_cell_def)
  ultimately show ?thesis using h'(2) by (intro exI [of _ h']) auto
qed

theorem list_free_leaves_link_witness:
  "\<exists>h h'. list_add (\<lambda>_. True) (Some 0) (Some (7 :: nat)) (fst (list_init 0 () (\<lparr>cell_at = (\<lambda>_. None), cell_fresh = 1\<rparr>, ()))) = Inr (True, h)
     \<and> list_free True (Some 0) h = Inr ([Some 7], h') \<and> list_add (\<lambda>_. True) (Some 0) (Some 8) h' = Inl UseAfterFree"
proof -
  let ?h0 = "fst (list_init 0 () (\<lparr>cell_at = (\<lambda>_. None :: nat cell option), cell_fresh = 1\<rparr>, ()))"
  have "chain_inv 0 ?h0 [] []" by (simp add: chain_inv_def list_init_def put_cell_def)
  from chain_put_ok [OF this, of "\<lambda>_. True" 7] obtain h where h: "chain_put (\<lambda>_. True) 0 7 ?h0 = Inr (True, h)"
    "chain_inv 0 h [cell_fresh ?h0] [7]" by auto
  from list_free_leaves_link [OF h(2), of "\<lambda>_. True" 8] h(1) show ?thesis by (auto simp: list_add_def)
qed

end
