(* ===== verification/M_Stream.thy ===== *)
theory M_Stream
  imports C_System
begin

text \<open>
  Reading lines and writing all of a buffer in \<open>lib/m_sock.c\<close>.  \<open>read_cnt\<close>, \<open>read_ptr\<close> and
  \<open>read_buf\<close> are static: one buffer serves every descriptor.
\<close>

definition MAXLINE_BUF :: nat where "MAXLINE_BUF = 2048"

record readbuf =
  read_cnt :: int
  read_ptr :: "nat option"             \<comment> \<open>offset into read_buf; None is NULL\<close>
  read_buf :: "byte list"

definition readbuf0 :: readbuf where
  "readbuf0 = \<lparr>read_cnt = 0, read_ptr = None, read_buf = replicate MAXLINE_BUF 0\<rparr>"

section \<open>Operations\<close>

text \<open>The label \<open>again\<close>: the return value when the call ends here (1: go on behind the branch).
  An interrupted \<open>read\<close> is repeated, so this may run for ever (None).\<close>

partial_function (option) my_read_again :: "os \<Rightarrow> int \<Rightarrow> readbuf \<Rightarrow> world \<Rightarrow> (int \<times> readbuf \<times> world) option" where
  "my_read_again e fd st w =
     (let c = SysRead fd MAXLINE_BUF; r = answer e w c; w1 = (c, r) # w; st1 = st\<lparr>read_cnt := r\<rparr> in
      if r < 0 then (if errno e c w = EINTR then my_read_again e fd st1 w1 else Some (- 1, st1, w1))
      else if r = 0 then Some (0, st1, w1)
      else Some (1, st1\<lparr>read_ptr := Some 0, read_buf := take (nat r) (data_of e w c) @ drop (nat r) (read_buf st)\<rparr>, w1))"

declare my_read_again.simps [code]

text \<open>\<open>ch\<close> is the variable the pointer argument points to, before and after the call.\<close>

definition my_read :: "os \<Rightarrow> int \<Rightarrow> byte \<Rightarrow> readbuf \<Rightarrow> world \<Rightarrow> (int \<times> byte \<times> readbuf \<times> world) res" where
  "my_read e fd ch st w =
     rbind (if read_cnt st \<le> 0
            then (case my_read_again e fd st w of None \<Rightarrow> Inl Diverges | Some x \<Rightarrow> Inr x)
            else Inr (1, st, w)) (\<lambda>(rc, st1, w1).
     if rc \<noteq> 1 then Inr (rc, ch, st1, w1)
     else case read_ptr st1 of
            None \<Rightarrow> Inl NullDeref
          | Some p \<Rightarrow>
              rmap (\<lambda>c. (1, c, st1\<lparr>read_cnt := read_cnt st1 - 1, read_ptr := Some (Suc p)\<rparr>, w1))
                (rd_buf (read_buf st1) (int p)))"

text \<open>The loop counts \<open>n\<close> from 1; \<open>ptr\<close> is at offset \<open>n - 1\<close> of the destination.\<close>

function readline_loop :: "os \<Rightarrow> int \<Rightarrow> nat \<Rightarrow> nat \<Rightarrow> byte \<Rightarrow> byte list \<Rightarrow> readbuf \<Rightarrow> world \<Rightarrow>
    (int \<times> byte list \<times> readbuf \<times> world) res" where
  "readline_loop e fd maxlen n c dest st w =
     (if n < maxlen
      then case my_read e fd c st w of
             Inl f \<Rightarrow> Inl f
           | Inr (rc, c1, st1, w1) \<Rightarrow>
               if rc = 1
               then (case wr_buf dest (int n - 1) c1 of
                       Inl f \<Rightarrow> Inl f
                     | Inr d \<Rightarrow>
                         if c1 = 0x0A then rmap (\<lambda>d'. (int n, d', st1, w1)) (wr_buf d (int n) 0)
                         else readline_loop e fd maxlen (n + 1) c1 d st1 w1)
               else if rc = 0 then rmap (\<lambda>d. (int n - 1, d, st1, w1)) (wr_buf dest (int n - 1) 0)
               else Inr (- 1, dest, st1, w1)
      else rmap (\<lambda>d. (int n, d, st, w)) (wr_buf dest (int n - 1) 0))"
  by pat_completeness auto
termination
  by (relation "measure (\<lambda>(e, fd, maxlen, n, c, dest, st, w). maxlen - n)") auto

declare readline_loop.simps [simp del]

text \<open>The variable \<open>c\<close> on the stack is set before it is read.\<close>

definition sock_readline :: "os \<Rightarrow> int \<Rightarrow> byte list \<Rightarrow> nat \<Rightarrow> readbuf \<Rightarrow> world \<Rightarrow>
    (int \<times> byte list \<times> readbuf \<times> world) res" where
  "sock_readline e fd vptr maxlen st w = readline_loop e fd maxlen 1 0 vptr st w"

text \<open>The count and, when it is not 0, what \<open>*vptrptr\<close> is set to.\<close>

definition sock_readlinebuf :: "readbuf \<Rightarrow> int \<times> nat option option" where
  "sock_readlinebuf st = (read_cnt st, if read_cnt st \<noteq> 0 then Some (read_ptr st) else None)"

text \<open>What is left of the bytes; the result says whether all of them were written.\<close>

partial_function (option) writen_loop :: "os \<Rightarrow> int \<Rightarrow> byte list \<Rightarrow> world \<Rightarrow> (bool \<times> world) option" where
  "writen_loop e fd left w =
     (if left = [] then Some (True, w)
      else let c = SysWrite fd left; r = answer e w c; w1 = (c, r) # w in
           if r \<le> 0
           then if r < 0 \<and> errno e c w = EINTR then writen_loop e fd left w1 else Some (False, w1)
           else writen_loop e fd (drop (nat r) left) w1)"

declare writen_loop.simps [code]

definition sock_writen :: "os \<Rightarrow> int \<Rightarrow> byte list \<Rightarrow> nat \<Rightarrow> world \<Rightarrow> (int \<times> world) res" where
  "sock_writen e fd vptr n w =
     rbind (rd_bytes vptr 0 n) (\<lambda>bs.
     case writen_loop e fd bs w of
       None \<Rightarrow> Inl Diverges
     | Some (all, w1) \<Rightarrow> Inr (if all then int n else - 1, w1))"

section \<open>The kernel's side\<close>

text \<open>How many bytes were read from a descriptor.\<close>

fun consumed_by :: "int \<Rightarrow> sys_call \<times> int \<Rightarrow> nat" where
  "consumed_by fd (SysRead fd' n, r) = (if fd' = fd then nat r else 0)"
| "consumed_by fd _ = 0"

definition consumed :: "int \<Rightarrow> world \<Rightarrow> nat" where
  "consumed fd w = sum_list (map (consumed_by fd) w)"

lemma consumed_simps [simp]: "consumed fd [] = 0" "consumed fd (c # w) = consumed_by fd c + consumed fd w"
  by (simp_all add: consumed_def)

text \<open>A call that failed just before; the kernel does not interrupt a call twice in a row.\<close>

fun just_failed :: "world \<Rightarrow> bool" where
  "just_failed [] = False"
| "just_failed ((c, r) # w) = (r < 0)"

text \<open>The descriptor delivers the stream, in pieces of any size, and then the end.\<close>

definition delivers :: "os \<Rightarrow> int \<Rightarrow> byte list \<Rightarrow> bool" where
  "delivers e fd s \<longleftrightarrow> (\<forall>w n. let c = SysRead fd n; r = answer e w c; rest = drop (consumed fd w) s in
     (r < 0 \<and> errno_of e w c = EINTR \<and> \<not> just_failed w)
     \<or> (0 \<le> r \<and> nat r \<le> n \<and> nat r \<le> length rest \<and> (r = 0 \<longrightarrow> n = 0 \<or> rest = []) \<and> data_of e w c = take (nat r) rest))"

definition interrupted_once :: "os \<Rightarrow> int \<Rightarrow> bool" where
  "interrupted_once e fd \<longleftrightarrow> (\<forall>w bs. let c = SysWrite fd bs in
     answer e w c < 0 \<longrightarrow> errno_of e w c = EINTR \<longrightarrow> \<not> just_failed w)"

section \<open>Reading lines\<close>

definition rb_ok :: "readbuf \<Rightarrow> bool" where
  "rb_ok st \<longleftrightarrow> length (read_buf st) = MAXLINE_BUF \<and>
     (0 < read_cnt st \<longrightarrow> (\<exists>p. read_ptr st = Some p \<and> p + nat (read_cnt st) \<le> MAXLINE_BUF))"

definition unread :: "readbuf \<Rightarrow> byte list" where
  "unread st = (case read_ptr st of None \<Rightarrow> [] | Some p \<Rightarrow> take (nat (read_cnt st)) (drop p (read_buf st)))"

text \<open>What the program still gets to see of the stream.\<close>

definition pending :: "int \<Rightarrow> byte list \<Rightarrow> readbuf \<Rightarrow> world \<Rightarrow> byte list" where
  "pending fd s st w = unread st @ drop (consumed fd w) s"

lemma rb_ok_0: "rb_ok readbuf0" "unread readbuf0 = []"
  by (simp_all add: rb_ok_def unread_def readbuf0_def)

lemma unread_none: "read_cnt st \<le> 0 \<Longrightarrow> unread st = []"
  by (auto simp: unread_def split: option.splits)

lemma MAXLINE_pos: "0 < MAXLINE_BUF"
  by (simp add: MAXLINE_BUF_def)

text \<open>Filling the buffer when the kernel does not interrupt.\<close>

lemma again_delivers_now:
  assumes "delivers e fd s" "length (read_buf st) = MAXLINE_BUF" "read_cnt st \<le> 0" "\<not> answer e w (SysRead fd MAXLINE_BUF) < 0"
  shows "\<exists>rc st' w'. my_read_again e fd st w = Some (rc, st', w') \<and> rb_ok st' \<and> pending fd s st' w' = pending fd s st w
    \<and> (if pending fd s st w = [] then rc = 0 \<and> read_cnt st' = 0 else rc = 1 \<and> 0 < read_cnt st')"
proof -
  let ?c = "SysRead fd MAXLINE_BUF" and ?rest = "drop (consumed fd w) s"
  define r where "r = answer e w ?c"
  from assms(1,4) have r: "0 \<le> r" "nat r \<le> MAXLINE_BUF" "nat r \<le> length ?rest" "r = 0 \<longrightarrow> ?rest = []" "data_of e w ?c = take (nat r) ?rest"
    unfolding delivers_def Let_def r_def using MAXLINE_pos by (metis less_numeral_extra(3))+
  have p: "pending fd s st w = ?rest" using unread_none [OF assms(3)] by (simp add: pending_def)
  have run: "my_read_again e fd st w = (if r = 0 then Some (0, st\<lparr>read_cnt := 0\<rparr>, (?c, 0) # w)
      else Some (1, st\<lparr>read_cnt := r, read_ptr := Some 0, read_buf := take (nat r) ?rest @ drop (nat r) (read_buf st)\<rparr>, (?c, r) # w))"
    using r(1,5) by (subst my_read_again.simps) (auto simp: Let_def r_def [symmetric])
  show ?thesis
  proof (cases "r = 0")
    case True
    then show ?thesis using run p r(4) assms(2) by (simp add: rb_ok_def pending_def unread_none)
  next
    case False
    then have "?rest \<noteq> []" using r(1,3) by auto
    moreover have "pending fd s (st\<lparr>read_cnt := r, read_ptr := Some 0, read_buf := take (nat r) ?rest @ drop (nat r) (read_buf st)\<rparr>) ((?c, r) # w) = ?rest"
      using r(3) append_take_drop_id [of "nat r" ?rest] by (simp add: pending_def unread_def)
    ultimately show ?thesis using run p False r(1,2,3) assms(2) by (simp add: rb_ok_def)
  qed
qed

lemma again_delivers:
  assumes "delivers e fd s" "length (read_buf st) = MAXLINE_BUF" "read_cnt st \<le> 0"
  shows "\<exists>rc st' w'. my_read_again e fd st w = Some (rc, st', w') \<and> rb_ok st' \<and> pending fd s st' w' = pending fd s st w
    \<and> (if pending fd s st w = [] then rc = 0 \<and> read_cnt st' = 0 else rc = 1 \<and> 0 < read_cnt st')"
proof (cases "answer e w (SysRead fd MAXLINE_BUF) < 0")
  case True
  let ?c = "SysRead fd MAXLINE_BUF"
  let ?r = "answer e w ?c"
  let ?w = "(?c, ?r) # w" and ?st = "st\<lparr>read_cnt := ?r\<rparr>"
  have eintr: "errno_of e w ?c = EINTR" using assms(1) True unfolding delivers_def Let_def by force
  have "\<not> answer e ?w ?c < 0" using assms(1) True unfolding delivers_def Let_def by (metis just_failed.simps(2) not_less)
  moreover have "pending fd s ?st ?w = pending fd s st w"
    using True assms(3) unread_none [of st] unread_none [of ?st] by (simp add: pending_def)
  moreover have "my_read_again e fd st w = my_read_again e fd ?st ?w"
    using True eintr by (subst my_read_again.simps) (simp add: Let_def errno_def)
  ultimately show ?thesis using again_delivers_now [OF assms(1), of ?st ?w] assms(2) True by simp
qed (rule again_delivers_now [OF assms])

lemma unread_Cons:
  assumes "rb_ok st" "0 < read_cnt st"
  shows "\<exists>p b. read_ptr st = Some p \<and> rd_buf (read_buf st) (int p) = Inr b
    \<and> unread st = b # unread (st\<lparr>read_cnt := read_cnt st - 1, read_ptr := Some (Suc p)\<rparr>)"
proof -
  obtain p where p: "read_ptr st = Some p" "p + nat (read_cnt st) \<le> length (read_buf st)"
    using assms by (auto simp: rb_ok_def)
  then have lt: "p < length (read_buf st)" and n: "nat (read_cnt st) = Suc (nat (read_cnt st - 1))" using assms(2) by auto
  have "drop p (read_buf st) = read_buf st ! p # drop (Suc p) (read_buf st)" using lt by (simp add: Cons_nth_drop_Suc)
  then show ?thesis using p lt n by (simp add: unread_def rd_buf_def)
qed

lemma my_read_delivers:
  assumes "delivers e fd s" "rb_ok st"
  shows "\<exists>st' w'. my_read e fd ch st w = Inr (case pending fd s st w of [] \<Rightarrow> (0, ch, st', w') | b # _ \<Rightarrow> (1, b, st', w'))
    \<and> rb_ok st' \<and> pending fd s st' w' = tl (pending fd s st w)"
proof -
  have one: "\<exists>st' b. rmap (\<lambda>c. (1 :: int, c, st1\<lparr>read_cnt := read_cnt st1 - 1, read_ptr := Some (Suc p)\<rparr>, w1)) (rd_buf (read_buf st1) (int p)) = Inr (1, b, st', w1)
      \<and> rb_ok st' \<and> pending fd s st1 w1 = b # pending fd s st' w1" if st1: "rb_ok st1" "0 < read_cnt st1" "read_ptr st1 = Some p" for st1 w1 p
  proof -
    obtain b where b: "rd_buf (read_buf st1) (int p) = Inr b" "unread st1 = b # unread (st1\<lparr>read_cnt := read_cnt st1 - 1, read_ptr := Some (Suc p)\<rparr>)"
      using unread_Cons [OF st1(1,2)] st1(3) by auto
    have "rb_ok (st1\<lparr>read_cnt := read_cnt st1 - 1, read_ptr := Some (Suc p)\<rparr>)" using st1 by (auto simp: rb_ok_def)
    then show ?thesis using b by (simp add: pending_def)
  qed
  show ?thesis
  proof (cases "read_cnt st \<le> 0")
    case True
    have len: "length (read_buf st) = MAXLINE_BUF" using assms(2) by (simp add: rb_ok_def)
    obtain rc st1 w1 where a: "my_read_again e fd st w = Some (rc, st1, w1)" "rb_ok st1" "pending fd s st1 w1 = pending fd s st w"
      "if pending fd s st w = [] then rc = 0 \<and> read_cnt st1 = 0 else rc = 1 \<and> 0 < read_cnt st1"
      using again_delivers [OF assms(1) len True] by blast
    show ?thesis
    proof (cases "pending fd s st w = []")
      case empty: True
      then show ?thesis using a True by (simp add: my_read_def)
    next
      case False
      then obtain p where p: "read_ptr st1 = Some p" using a(2,4) by (auto simp: rb_ok_def)
      have "rc = 1" "0 < read_cnt st1" using a(4) False by simp_all
      with one [OF a(2) _ p, of w1] show ?thesis using a(1,3) True p by (auto simp: my_read_def)
    qed
  next
    case False
    then obtain p where p: "read_ptr st = Some p" using assms(2) by (auto simp: rb_ok_def)
    with one [OF assms(2) _ p, of w] show ?thesis using False by (auto simp: my_read_def)
  qed
qed

text \<open>The first line of a stream, newline included, cut after \<open>k\<close> bytes.\<close>

fun first_line :: "nat \<Rightarrow> byte list \<Rightarrow> byte list" where
  "first_line (Suc k) (b # s) = b # (if b = 0x0A then [] else first_line k s)"
| "first_line _ _ = []"

text \<open>What \<open>sock_readline\<close> returns for the line it stored.\<close>

definition line_result :: "nat \<Rightarrow> byte list \<Rightarrow> int" where
  "line_result maxlen l =
     (if l \<noteq> [] \<and> last l = 0x0A then int (length l) else if length l < maxlen - 1 then int (length l) else int maxlen)"

lemma first_line_le: "length (first_line k s) \<le> k"
  by (induction k s rule: first_line.induct) auto

lemma readline_loop_delivers:
  assumes "delivers e fd s" "rb_ok st" "1 \<le> n" "n \<le> maxlen" "length pre + 1 = n" "maxlen \<le> length pre + length rest"
    "l = first_line (maxlen - n) (pending fd s st w)"
  shows "\<exists>st' w'. readline_loop e fd maxlen n c (pre @ rest) st w
      = Inr ((if l \<noteq> [] \<and> last l = 0x0A then int (n - 1 + length l) else if n - 1 + length l < maxlen - 1 then int (n - 1 + length l) else int maxlen),
             pre @ l @ 0 # drop (Suc (length l)) rest, st', w')
    \<and> rb_ok st' \<and> pending fd s st' w' = drop (length l) (pending fd s st w)"
  using assms(2-)
proof (induction "maxlen - n" arbitrary: n c pre rest st w l)
  case 0
  then obtain r rest' where rest: "rest = r # rest'" by (cases rest) auto
  have "wr_buf (pre @ rest) (int n - 1) 0 = Inr (pre @ 0 # rest')" using 0 rest by (simp add: wr_buf_at)
  then show ?case using 0 rest by (subst readline_loop.simps) auto
next
  case (Suc k)
  let ?p = "pending fd s st w"
  have n: "n < maxlen" "maxlen - n = Suc k" using Suc.hyps(2) by auto
  obtain r rest' where rest: "rest = r # rest'" "rest' \<noteq> []" using Suc.prems n by (cases rest; cases "tl rest") auto
  then obtain r2 rest2 where rest2: "rest' = r2 # rest2" by (cases rest') auto
  obtain st1 w1 where m: "my_read e fd c st w = Inr (case ?p of [] \<Rightarrow> (0, c, st1, w1) | b # _ \<Rightarrow> (1, b, st1, w1))"
    "rb_ok st1" "pending fd s st1 w1 = tl ?p" using my_read_delivers [OF assms(1) Suc.prems(1)] by blast
  have wr: "wr_buf (pre @ rest) (int n - 1) x = Inr (pre @ x # rest')" for x using Suc.prems(4) rest by (simp add: wr_buf_at)
  show ?case
  proof (cases ?p)
    case Nil
    then have "l = []" using Suc.prems(6) n(2) by simp
    then show ?thesis using m wr Nil n(1) rest Suc.prems(4) by (subst readline_loop.simps) auto
  next
    case (Cons b p')
    note m' = m [unfolded Cons list.case list.sel]
    show ?thesis
    proof (cases "b = 0x0A")
      case True
      have "wr_buf (pre @ b # rest') (int n) 0 = Inr (pre @ b # 0 # rest2)"
        using wr_buf_at [of "int n" "pre @ [b]" r2 rest2 0] Suc.prems(4) rest2 by simp
      moreover have "l = [0x0A]" using Suc.prems(6) n(2) Cons True by simp
      ultimately show ?thesis using m' wr n(1) rest rest2 True Cons Suc.prems(2) by (subst readline_loop.simps) simp
    next
      case False
      define l' where "l' = first_line k p'"
      have l: "l = b # l'" using Suc.prems(6) n(2) Cons False by (simp add: l'_def)
      have step: "readline_loop e fd maxlen n c (pre @ rest) st w = readline_loop e fd maxlen (n + 1) b ((pre @ [b]) @ rest') st1 w1"
        using m'(1) wr n(1) False by (subst readline_loop.simps) simp
      have k: "k = maxlen - (n + 1)" using n(2) by simp
      have prem: "1 \<le> n + 1" "n + 1 \<le> maxlen" "length (pre @ [b]) + 1 = n + 1" "maxlen \<le> length (pre @ [b]) + length rest'"
        "l' = first_line (maxlen - (n + 1)) (pending fd s st1 w1)"
        using Suc.prems n rest k m'(3) by (simp_all add: l'_def)
      from Suc.hyps(1) [OF k m'(2) prem, of b] m'(3)
      obtain st' w' where "readline_loop e fd maxlen (n + 1) b ((pre @ [b]) @ rest') st1 w1
          = Inr ((if l' \<noteq> [] \<and> last l' = 0x0A then int (n + 1 - 1 + length l') else if n + 1 - 1 + length l' < maxlen - 1 then int (n + 1 - 1 + length l') else int maxlen),
             (pre @ [b]) @ l' @ 0 # drop (Suc (length l')) rest', st', w')"
        "rb_ok st'" "pending fd s st' w' = drop (length l') p'"
        by (simp only:) (elim exE conjE, rule that)
      then show ?thesis unfolding step using l rest Cons False Suc.prems(2) by (auto simp: algebra_simps)
    qed
  qed
qed

lemma sock_readline_delivers:
  assumes "delivers e fd s" "rb_ok st" "1 \<le> maxlen" "maxlen \<le> length dest" "l = first_line (maxlen - 1) (pending fd s st w)"
  shows "\<exists>st' w'. sock_readline e fd dest maxlen st w = Inr (line_result maxlen l, l @ 0 # drop (Suc (length l)) dest, st', w')
    \<and> rb_ok st' \<and> pending fd s st' w' = drop (length l) (pending fd s st w)"
proof -
  have z: "1 - 1 + k = k" for k :: nat by simp
  from readline_loop_delivers [OF assms(1,2) _ assms(3) _ _ assms(5), of "[]" dest 0] assms(4)
  show ?thesis unfolding sock_readline_def line_result_def z by simp
qed

text \<open>The static buffer belongs to no descriptor: a line left in it is what the next call gets,
  whatever descriptor it names, and no system call is made.\<close>

lemma readline_loop_buffered:
  assumes "rb_ok st" "1 \<le> n" "length pre + 1 = n" "unread st = l @ 0x0A # later" "0x0A \<notin> set l"
    "n + length l < maxlen" "length pre + length l + 2 \<le> length pre + length rest"
  shows "\<exists>st'. readline_loop e fd maxlen n c (pre @ rest) st w
    = Inr (int (n + length l), pre @ l @ 0x0A # 0 # drop (length l + 2) rest, st', w) \<and> rb_ok st' \<and> unread st' = later"
  using assms
proof (induction l arbitrary: n c pre rest st)
  case Nil
  then obtain r1 r2 rest2 where rest: "rest = r1 # r2 # rest2" by (cases rest; cases "tl rest") auto
  have cnt: "0 < read_cnt st" using Nil.prems(4) unread_none [of st] by fastforce
  obtain p b where p: "read_ptr st = Some p" "rd_buf (read_buf st) (int p) = Inr b"
    "unread st = b # unread (st\<lparr>read_cnt := read_cnt st - 1, read_ptr := Some (Suc p)\<rparr>)"
    using unread_Cons [OF Nil.prems(1) cnt] by blast
  have "rb_ok (st\<lparr>read_cnt := read_cnt st - 1, read_ptr := Some (Suc p)\<rparr>)" using Nil.prems(1) cnt p(1) by (auto simp: rb_ok_def)
  moreover have "my_read e fd c st w = Inr (1, 0x0A, st\<lparr>read_cnt := read_cnt st - 1, read_ptr := Some (Suc p)\<rparr>, w)"
    using cnt p Nil.prems(4) by (simp add: my_read_def)
  moreover have "wr_buf (pre @ rest) (int n - 1) x = Inr (pre @ x # r2 # rest2)" for x
    using Nil.prems(3) rest by (simp add: wr_buf_at)
  moreover have "wr_buf (pre @ 0x0A # r2 # rest2) (int n) 0 = Inr (pre @ 0x0A # 0 # rest2)"
    using wr_buf_at [of "int n" "pre @ [0x0A]" r2 rest2 0] Nil.prems(3) by simp
  ultimately show ?case using p(3) Nil.prems(4,6) rest by (subst readline_loop.simps) (auto simp: numeral_2_eq_2)
next
  case (Cons a l)
  then obtain r1 rest1 where rest: "rest = r1 # rest1" by (cases rest) auto
  have cnt: "0 < read_cnt st" using Cons.prems(4) unread_none [of st] by fastforce
  obtain p b where p: "read_ptr st = Some p" "rd_buf (read_buf st) (int p) = Inr b"
    "unread st = b # unread (st\<lparr>read_cnt := read_cnt st - 1, read_ptr := Some (Suc p)\<rparr>)"
    using unread_Cons [OF Cons.prems(1) cnt] by blast
  let ?st = "st\<lparr>read_cnt := read_cnt st - 1, read_ptr := Some (Suc p)\<rparr>"
  have ok: "rb_ok ?st" using Cons.prems(1) cnt p(1) by (auto simp: rb_ok_def)
  have read: "my_read e fd c st w = Inr (1, a, ?st, w)" using cnt p Cons.prems(4) by (simp add: my_read_def)
  have wr: "wr_buf (pre @ rest) (int n - 1) a = Inr ((pre @ [a]) @ rest1)"
    using Cons.prems(3) rest by (simp add: wr_buf_at)
  have prem: "1 \<le> n + 1" "length (pre @ [a]) + 1 = n + 1" "unread ?st = l @ 0x0A # later" "0x0A \<notin> set l" "n + 1 + length l < maxlen"
    "length (pre @ [a]) + length l + 2 \<le> length (pre @ [a]) + length rest1"
    using Cons.prems p(3) rest by auto
  have "readline_loop e fd maxlen n c (pre @ rest) st w = readline_loop e fd maxlen (n + 1) a ((pre @ [a]) @ rest1) ?st w"
    using read wr Cons.prems(5,6) by (subst readline_loop.simps) auto
  then show ?case using Cons.IH [OF ok prem, of a] rest by simp
qed

lemma sock_readline_buffered:
  assumes "rb_ok st" "unread st = l @ 0x0A # later" "0x0A \<notin> set l" "length l + 2 \<le> maxlen" "length l + 2 \<le> length dest"
  shows "\<exists>st'. sock_readline e fd dest maxlen st w
    = Inr (int (length l) + 1, l @ 0x0A # 0 # drop (length l + 2) dest, st', w) \<and> rb_ok st' \<and> unread st' = later"
  using readline_loop_buffered [OF assms(1), of 1 "[]" l later maxlen dest e fd 0 w] assms(2-) by (simp add: sock_readline_def add.commute)

section \<open>Writing\<close>

lemma writen_loop_writes:
  assumes "os_ok e" "interrupted_once e fd"
  shows "\<exists>all w' k. writen_loop e fd bs w = Some (all, w') \<and> k \<le> length bs \<and> accepted fd w' = accepted fd w @ take k bs \<and> (all \<longleftrightarrow> k = length bs)"
proof (induction "2 * length bs + (if just_failed w then 0 else 1)" arbitrary: bs w rule: less_induct)
  case less
  let ?c = "SysWrite fd bs"
  let ?r = "answer e w ?c"
  let ?w = "(?c, ?r) # w"
  have bound: "?r \<le> int (length bs)" using assms(1) by (simp add: os_ok_def)
  show ?case
  proof (cases "bs = []")
    case True
    then show ?thesis by (subst writen_loop.simps) auto
  next
    case False
    consider "?r < 0" "errno e ?c w = EINTR" | "?r \<le> 0" "\<not> (?r < 0 \<and> errno e ?c w = EINTR)" | "0 < ?r" by force
    then show ?thesis
    proof cases
      case 1
      then have "\<not> just_failed w" using assms(2) unfolding interrupted_once_def Let_def errno_def by blast
      then have "\<exists>all w' k. writen_loop e fd bs ?w = Some (all, w') \<and> k \<le> length bs \<and> accepted fd w' = accepted fd ?w @ take k bs \<and> (all \<longleftrightarrow> k = length bs)"
        using 1(1) less [of bs ?w] by simp
      moreover have "writen_loop e fd bs w = writen_loop e fd bs ?w"
        using 1 False by (subst writen_loop.simps) (simp add: Let_def)
      ultimately show ?thesis using 1(1) by simp
    next
      case 2
      then have "writen_loop e fd bs w = Some (False, ?w)" using False by (subst writen_loop.simps) (auto simp: Let_def)
      then show ?thesis using 2(1) False by (intro exI [of _ False] exI [of _ ?w] exI [of _ 0]) auto
    next
      case 3
      let ?bs = "drop (nat ?r) bs"
      have "length ?bs < length bs" using 3 False by (cases bs) auto
      then have "2 * length ?bs + (if just_failed ?w then 0 else 1) < 2 * length bs + (if just_failed w then 0 else 1)" by auto
      from less [OF this] obtain all w' k where k: "writen_loop e fd ?bs ?w = Some (all, w')" "k \<le> length ?bs"
        "accepted fd w' = accepted fd ?w @ take k ?bs" "all \<longleftrightarrow> k = length ?bs"
        by (elim exE conjE) (rule that)
      have "writen_loop e fd bs w = writen_loop e fd ?bs ?w" using 3 False by (subst writen_loop.simps) (simp add: Let_def)
      moreover have "take (nat ?r) bs @ take k ?bs = take (nat ?r + k) bs" by (simp add: take_add)
      ultimately show ?thesis using k bound 3 by (intro exI [of _ all] exI [of _ w'] exI [of _ "nat ?r + k"]) auto
    qed
  qed
qed

lemma sock_writen_writes:
  assumes "os_ok e" "interrupted_once e fd" "n \<le> length buf"
  shows "\<exists>r w' k. sock_writen e fd buf n w = Inr (r, w') \<and> k \<le> n \<and> accepted fd w' = accepted fd w @ take k buf
    \<and> r = (if k = n then int n else - 1)"
proof -
  obtain all w' k where "writen_loop e fd (take n buf) w = Some (all, w')" "k \<le> n"
    "accepted fd w' = accepted fd w @ take k (take n buf)" "all \<longleftrightarrow> k = n"
    using writen_loop_writes [OF assms(1,2), of "take n buf" w] assms(3) by auto
  then show ?thesis using assms(3) by (intro exI [of _ "if k = n then int n else - 1"] exI [of _ w'] exI [of _ k])
    (auto simp: sock_writen_def rd_bytes_ok min_def)
qed

lemma writen_loop_leaves:
  "writen_loop e fd bs w = Some r \<Longrightarrow> consumed f (snd r) = consumed f w \<and> open_fds (snd r) = open_fds w"
  by (rule writen_loop.raw_induct [of "\<lambda>e fd bs w r. consumed f (snd r) = consumed f w \<and> open_fds (snd r) = open_fds w"])
    (force simp: Let_def split: if_splits)

lemma sock_writen_leaves:
  "sock_writen e fd buf n w = Inr (r, w') \<Longrightarrow> consumed f w' = consumed f w \<and> open_fds w' = open_fds w"
  using writen_loop_leaves by (fastforce simp: sock_writen_def rbind_eq_Inr split: option.splits)

end
