(* ===== verification/M_Addr.thy ===== *)
theory M_Addr
  imports C_System M_String
begin

text \<open>
  Internet addresses in \<open>lib/m_sock.c\<close>: the parsers \<open>inet_pton4\<close> and \<open>inet_pton6\<close>, the
  socket address that \<open>sockaddr_init\<close> fills, and \<open>sock_ntop\<close>.  A source string is the
  memory from its first byte on; the pointers \<open>tp\<close>, \<open>endp\<close>, \<open>colonp\<close> are offsets into the
  array \<open>tmp\<close>, and every access to it is checked.
\<close>

section \<open>IPv4\<close>

definition digits :: "byte list" where "digits = bytes_of ''0123456789''"

text \<open>None is the return of 0 from inside the loop, otherwise the number of octets and \<open>tmp\<close>.\<close>

fun pton4_loop :: "byte list \<Rightarrow> bool \<Rightarrow> nat \<Rightarrow> byte list \<Rightarrow> int \<Rightarrow> (nat \<times> byte list) option res" where
  "pton4_loop [] saw_digit octets tmp tp = Inl OutOfBounds"
| "pton4_loop (ch # src) saw_digit octets tmp tp =
     (if ch = 0 then Inr (Some (octets, tmp))
      else case index_of digits ch of
        Some d \<Rightarrow>
          rbind (rd_buf tmp tp) (\<lambda>cur.
          let new = unat cur * 10 + d in
          if new > 255 then Inr None
          else rbind (wr_buf tmp tp (of_nat new)) (\<lambda>tmp'.
               if \<not> saw_digit
               then if octets + 1 > 4 then Inr None else pton4_loop src True (octets + 1) tmp' tp
               else pton4_loop src saw_digit octets tmp' tp))
      | None \<Rightarrow>
          if ch = 0x2E \<and> saw_digit
          then if octets = 4 then Inr None
               else rbind (wr_buf tmp (tp + 1) 0) (\<lambda>tmp'. pton4_loop src False octets tmp' (tp + 1))
          else Inr None)"

text \<open>\<open>tmp0\<close> is what the array on the stack holds; the address goes to \<open>dst\<close> from \<open>off\<close> on.\<close>

definition inet_pton4 :: "byte list \<Rightarrow> byte list \<Rightarrow> byte list \<Rightarrow> int \<Rightarrow> (int \<times> byte list) res" where
  "inet_pton4 tmp0 src dst off =
     rbind (wr_buf tmp0 0 0) (\<lambda>tmp.
     rbind (pton4_loop src False 0 tmp 0) (\<lambda>r.
     case r of
       None \<Rightarrow> Inr (0, dst)
     | Some (octets, tmp') \<Rightarrow>
         if octets < 4 then Inr (0, dst)
         else rmap (Pair 1) (wr_bytes dst off tmp')))"

section \<open>IPv6\<close>

definition xdigits_l :: "byte list" where "xdigits_l = bytes_of ''0123456789abcdef''"
definition xdigits_u :: "byte list" where "xdigits_u = bytes_of ''0123456789ABCDEF''"

definition xdigit :: "byte \<Rightarrow> nat option" where
  "xdigit ch = (case index_of xdigits_l ch of None \<Rightarrow> index_of xdigits_u ch | Some d \<Rightarrow> Some d)"

text \<open>Two bytes of \<open>val\<close>, big end first.\<close>

definition put_val :: "byte list \<Rightarrow> int \<Rightarrow> u32 \<Rightarrow> byte list res" where
  "put_val tmp tp val =
     rbind (wr_buf tmp tp (ucast (drop_bit 8 val AND 0xFF))) (\<lambda>t. wr_buf t (tp + 1) (ucast (val AND 0xFF)))"

text \<open>None is the return of 0 from inside the loop, otherwise \<open>tmp\<close>, \<open>tp\<close>, \<open>colonp\<close>,
  \<open>saw_xdigit\<close> and \<open>val\<close> behind it.  \<open>junk\<close> is the stack array of \<open>inet_pton4\<close>.\<close>

fun pton6_loop :: "byte list \<Rightarrow> byte list \<Rightarrow> byte list \<Rightarrow> byte list \<Rightarrow> int \<Rightarrow> int option \<Rightarrow> bool \<Rightarrow> u32 \<Rightarrow>
    (byte list \<times> int \<times> int option \<times> bool \<times> u32) option res" where
  "pton6_loop junk [] curtok tmp tp colonp saw_xdigit val = Inl OutOfBounds"
| "pton6_loop junk (ch # src) curtok tmp tp colonp saw_xdigit val =
     (if ch = 0 then Inr (Some (tmp, tp, colonp, saw_xdigit, val))
      else case xdigit ch of
        Some d \<Rightarrow>
          let val' = push_bit 4 val OR of_nat d in
          if val' > 0xFFFF then Inr None
          else pton6_loop junk src curtok tmp tp colonp True val'
      | None \<Rightarrow>
          if ch = 0x3A
          then if \<not> saw_xdigit
               then if colonp \<noteq> None then Inr None
                    else pton6_loop junk src src tmp tp (Some tp) saw_xdigit val
               else if tp + 2 > 16 then Inr None
                    else rbind (put_val tmp tp val) (\<lambda>tmp'. pton6_loop junk src src tmp' (tp + 2) colonp False 0)
          else if ch = 0x2E \<and> tp + 4 \<le> 16
               then rbind (inet_pton4 junk curtok tmp tp) (\<lambda>(r, tmp').
                    if r > 0 then Inr (Some (tmp', tp + 4, colonp, False, val)) else Inr None)
               else Inr None)"

text \<open>The shift by hand: for i from 1 to n, the byte \<open>colonp[n-i]\<close> moves to \<open>endp[-i]\<close>.\<close>

function pton6_shift :: "nat \<Rightarrow> nat \<Rightarrow> int \<Rightarrow> byte list \<Rightarrow> byte list res" where
  "pton6_shift i n colonp tmp =
     (if i \<le> n
      then rbind (rd_buf tmp (colonp + int n - int i)) (\<lambda>b.
           rbind (wr_buf tmp (16 - int i) b) (\<lambda>t1.
           rbind (wr_buf t1 (colonp + int n - int i) 0) (pton6_shift (i + 1) n colonp)))
      else Inr tmp)"
  by pat_completeness auto
termination
  by (relation "measure (\<lambda>(i, n, c, t). n + 1 - i)") auto

declare pton6_shift.simps [simp del]

text \<open>From the loop's result to the return value.\<close>

definition pton6_finish :: "byte list \<Rightarrow> int \<Rightarrow> (byte list \<times> int \<times> int option \<times> bool \<times> u32) \<Rightarrow>
    (int \<times> byte list) res" where
  "pton6_finish dst off = (\<lambda>(tmp, tp, colonp, saw_xdigit, val).
     rbind (if \<not> saw_xdigit then Inr (Some (tmp, tp))
            else if tp + 2 > 16 then Inr None
            else rmap (\<lambda>t. Some (t, tp + 2)) (put_val tmp tp val)) (\<lambda>r.
     case r of
       None \<Rightarrow> Inr (0, dst)
     | Some (tmp1, tp1) \<Rightarrow>
         rbind (case colonp of
                  None \<Rightarrow> Inr (tmp1, tp1)
                | Some c \<Rightarrow> rmap (\<lambda>t. (t, 16)) (pton6_shift 1 (nat (tp1 - c)) c tmp1)) (\<lambda>(tmp2, tp2).
         if tp2 \<noteq> 16 then Inr (0, dst) else rmap (Pair 1) (wr_bytes dst off tmp2))))"

definition inet_pton6 :: "byte list \<Rightarrow> byte list \<Rightarrow> byte list \<Rightarrow> int \<Rightarrow> (int \<times> byte list) res" where
  "inet_pton6 junk src dst off =
     rbind (rd_buf src 0) (\<lambda>c0.
     rbind (if c0 = 0x3A then rmap (\<lambda>c1. if c1 \<noteq> 0x3A then None else Some (drop 1 src)) (rd_buf src 1)
            else Inr (Some src)) (\<lambda>start.
     case start of
       None \<Rightarrow> Inr (0, dst)
     | Some s \<Rightarrow>
         rbind (pton6_loop junk s s (replicate 16 0) 0 None False 0) (\<lambda>r.
         case r of None \<Rightarrow> Inr (0, dst) | Some x \<Rightarrow> pton6_finish dst off x)))"

section \<open>Socket addresses\<close>

text \<open>The result also says whether \<open>errno\<close> is set to \<open>EAFNOSUPPORT\<close>.\<close>

definition sock_inet_pton :: "byte list \<Rightarrow> int \<Rightarrow> byte list \<Rightarrow> byte list \<Rightarrow> int \<Rightarrow> ((int \<times> byte list) \<times> bool) res" where
  "sock_inet_pton junk af src dst off =
     (if af = AF_INET then rmap (\<lambda>r. (r, False)) (inet_pton4 junk src dst off)
      else if af = AF_INET6 then rmap (\<lambda>r. (r, False)) (inet_pton6 junk src dst off)
      else Inr ((- 1, dst), True))"

text \<open>A \<open>struct sockaddr_in\<close>: the family in the order of the machine, the port in network
  order, the address at offset 4 and padding, 16 bytes together.\<close>

definition sockaddr_in :: "int \<Rightarrow> int \<Rightarrow> byte list" where
  "sockaddr_in family port =
     [of_int family, of_int (family div 256), of_int (port div 256), of_int port] @ replicate 12 0"

text \<open>With NULL for \<open>addr\<close> a local variable is filled instead and None is returned in its place.\<close>

definition sockaddr_init :: "byte list \<Rightarrow> byte list option \<Rightarrow> byte list option \<Rightarrow> int \<Rightarrow> int \<Rightarrow>
    (int \<times> byte list option) res" where
  "sockaddr_init junk addr host port family =
     (case host of
        None \<Rightarrow> Inr (- 1, addr)
      | Some src \<Rightarrow>
          if port \<le> 0 then Inr (- 1, addr)
          else rmap (\<lambda>((r, sa), _). (if r < 0 then - 1 else 0, if addr = None then None else Some sa))
                 (sock_inet_pton junk family src (sockaddr_in family port) 4))"

text \<open>A socket address as \<open>sock_ntop\<close> reads it: the port in the order of the machine; the path
  of a UNIX address is a string (empty when no name is bound).\<close>

datatype sockaddr =
    SockIn "byte list" nat
  | SockIn6 "byte list" nat
  | SockUn "byte list"
  | SockOther nat

text \<open>\<open>inet_ntop\<close> for IPv4 prints four decimal numbers; for IPv6 it is the parameter \<open>ntop6\<close>.
  Both fail when the text does not fit.\<close>

definition inet_ntop4 :: "byte list \<Rightarrow> nat \<Rightarrow> byte list option" where
  "inet_ntop4 a room =
     (let text = join [0x2E] (map (dec_nat \<circ> unat) a) in if length text < room then Some text else None)"

definition sock_ntop :: "(byte list \<Rightarrow> byte list) \<Rightarrow> sockaddr \<Rightarrow> int \<Rightarrow> byte list option res" where
  "sock_ntop ntop6 sa salen =
     (case sa of
        SockIn a port \<Rightarrow>
          (case inet_ntop4 a 128 of
             None \<Rightarrow> Inr None
           | Some text \<Rightarrow>
               let portstr = (if port \<noteq> 0 then take 7 (0x3A # dec_nat port) else [])
               in rmap (\<lambda>_. Some (text @ portstr)) (wr_bytes (replicate 128 0) 0 (text @ portstr @ [0])))
      | SockIn6 a port \<Rightarrow>
          let text = ntop6 a in
          if length text \<ge> 127 then Inr None
          else if port \<noteq> 0
          then let all = 0x5B # text @ take 7 (0x5D # 0x3A # dec_nat port)
               in rmap (\<lambda>_. Some all) (wr_bytes (replicate 128 0) 0 (all @ [0]))
          else Inr (Some text)
      | SockUn path \<Rightarrow>
          Inr (Some (if path = [] then bytes_of ''(no pathname bound)'' else take 127 path))
      | SockOther family \<Rightarrow>
          Inr (Some (take 127 (bytes_of ''sock_ntop: unknown AF_xxx: '' @ dec_nat family @ bytes_of '', len '' @ dec_int salen))))"

section \<open>Dotted quads\<close>

text \<open>The reference for \<open>inet_pton4\<close>: cut at the dots; four decimal numbers up to 255.\<close>

definition dec_val_from :: "nat \<Rightarrow> byte list \<Rightarrow> nat" where
  "dec_val_from v p = foldl (\<lambda>n b. n * 10 + (unat b - 48)) v p"

definition is_octet :: "byte list \<Rightarrow> bool" where
  "is_octet p = (p \<noteq> [] \<and> list_all c_isdigit p \<and> dec_val_from 0 p \<le> 255)"

definition dotted_quad :: "byte list \<Rightarrow> byte list option" where
  "dotted_quad s =
     (let ps = pieces [0x2E] s
      in if length ps = 4 \<and> list_all is_octet ps then Some (map (of_nat \<circ> dec_val_from 0) ps) else None)"

lemma pieces_char:
  "pieces [c] [] = [[]]"
  "pieces [c] (d # s) = (if d = c then [] # pieces [c] s else (d # hd (pieces [c] s)) # tl (pieces [c] s))"
proof -
  show "pieces [c] [] = [[]]" by (subst pieces.simps) simp
  show "pieces [c] (d # s) = (if d = c then [] # pieces [c] s else (d # hd (pieces [c] s)) # tl (pieces [c] s))"
  proof (cases "d = c")
    case True
    then show ?thesis by (subst pieces.simps) simp
  next
    case False
    then show ?thesis
      by (cases "strstr s [c]") (simp_all add: pieces_step pieces_last)
  qed
qed

lemma byte_digit: "c_isdigit ch \<longleftrightarrow> 48 \<le> unat ch \<and> unat ch \<le> 57"
  by (simp add: c_isdigit_def word_le_nat_alt)

lemma index_digits: "index_of digits ch = (if c_isdigit ch then Some (unat ch - 48) else None)"
proof (cases "c_isdigit ch")
  case True
  then have "unat ch = 48 \<or> unat ch = 49 \<or> unat ch = 50 \<or> unat ch = 51 \<or> unat ch = 52 \<or> unat ch = 53
      \<or> unat ch = 54 \<or> unat ch = 55 \<or> unat ch = 56 \<or> unat ch = 57"
    unfolding byte_digit by arith
  moreover have "ch = of_nat (unat ch)" by simp
  ultimately have "ch \<in> {48, 49, 50, 51, 52, 53, 54, 55, 56, 57}" by (elim disjE; simp)
  then show ?thesis using True by (auto simp: digits_def bytes_of_def)
next
  case False
  have "index_of ds c = None" if "c \<notin> set ds" for ds and c :: byte using that by (induction ds) auto
  moreover have "ch \<notin> set digits" using False by (auto simp: digits_def bytes_of_def c_isdigit_def)
  ultimately show ?thesis using False by simp
qed

lemma dec_val_from_Cons: "dec_val_from v (b # p) = dec_val_from (v * 10 + (unat b - 48)) p"
  by (simp add: dec_val_from_def)

lemma dec_val_from_Nil [simp]: "dec_val_from v [] = v"
  by (simp add: dec_val_from_def)

lemma dec_val_from_ge: "v \<le> dec_val_from v p"
proof (induction p arbitrary: v)
  case (Cons b p)
  show ?case using Cons [of "v * 10 + (unat b - 48)"] by (simp add: dec_val_from_Cons)
qed simp

text \<open>What \<open>inet_pton4\<close> makes of the loop's result.\<close>

definition quad_of :: "(nat \<times> byte list) option \<Rightarrow> byte list option" where
  "quad_of r = (case r of None \<Rightarrow> None | Some (octets, tmp) \<Rightarrow> if octets < 4 then None else Some tmp)"

lemma pton4_loop_pieces:
  assumes "0 \<notin> set s" "length done + 1 + length junk = 4" "v \<le> 255" "\<not> saw \<longrightarrow> v = 0"
  shows "rmap quad_of (pton4_loop (s @ 0 # rest) saw (length done + (if saw then 1 else 0)) (done @ of_nat v # junk) (int (length done)))
    = Inr (let p = hd (pieces [0x2E] s); qs = tl (pieces [0x2E] s) in
        if (saw \<or> p \<noteq> []) \<and> list_all c_isdigit p \<and> dec_val_from v p \<le> 255 \<and> list_all is_octet qs \<and> length done + 1 + length qs = 4
        then Some (done @ of_nat (dec_val_from v p) # map (of_nat \<circ> dec_val_from 0) qs) else None)"
  using assms
proof (induction s arbitrary: "done" saw v junk)
  case Nil
  have "junk = [] \<longleftrightarrow> length done = 3" using Nil.prems(2) by (cases junk) auto
  with Nil show ?case by (auto simp: quad_of_def pieces_char)
next
  case (Cons ch s)
  let ?ps = "pieces [0x2E] s"
  have v: "unat (of_nat v :: byte) = v" using Cons.prems(3) by (simp add: unat_of_nat)
  have ch: "ch \<noteq> 0" "0 \<notin> set s" using Cons.prems(1) by auto
  have rd: "rd_buf (done @ of_nat v # junk) (int (length done)) = Inr (of_nat v)" by (simp add: rd_buf_at)
  show ?case
  proof (cases "c_isdigit ch")
    case True
    let ?d = "unat ch - 48" and ?new = "v * 10 + (unat ch - 48)"
    have dot: "ch \<noteq> 0x2E" using True by (auto simp: c_isdigit_def)
    have hd: "hd (pieces [0x2E] (ch # s)) = ch # hd ?ps" "tl (pieces [0x2E] (ch # s)) = tl ?ps"
      using dot by (simp_all add: pieces_char)
    show ?thesis
    proof (cases "?new > 255")
      case big: True
      then have "\<not> dec_val_from v (ch # hd ?ps) \<le> 255"
        using dec_val_from_ge [of ?new "hd ?ps"] by (simp add: dec_val_from_Cons)
      then show ?thesis using True ch rd big v by (simp add: hd index_digits quad_of_def Let_def)
    next
      case small: False
      have IH: "rmap quad_of (pton4_loop (s @ 0 # rest) True (length done + 1) (done @ of_nat ?new # junk) (int (length done)))
        = Inr (if list_all c_isdigit (hd ?ps) \<and> dec_val_from ?new (hd ?ps) \<le> 255 \<and> list_all is_octet (tl ?ps) \<and> length done + 1 + length (tl ?ps) = 4
           then Some (done @ of_nat (dec_val_from ?new (hd ?ps)) # map (of_nat \<circ> dec_val_from 0) (tl ?ps)) else None)"
        using Cons.IH [OF ch(2) Cons.prems(2), of ?new True] small by (simp add: Let_def)
      have wr: "wr_buf (done @ of_nat v # junk) (int (length done)) (of_nat ?new) = Inr (done @ of_nat ?new # junk)"
        by (simp add: wr_buf_at)
      have "\<not> length done + 1 > 4" using Cons.prems(2) by simp
      then have step: "pton4_loop ((ch # s) @ 0 # rest) saw (length done + (if saw then 1 else 0)) (done @ of_nat v # junk) (int (length done))
         = pton4_loop (s @ 0 # rest) True (length done + 1) (done @ of_nat ?new # junk) (int (length done))"
        using True ch(1) rd wr v small by (cases saw) (simp_all add: index_digits Let_def)
      show ?thesis unfolding step IH hd Let_def using True by (simp add: dec_val_from_Cons)
    qed
  next
    case False
    then have none: "index_of digits ch = None" by (simp add: index_digits)
    show ?thesis
    proof (cases "ch = 0x2E \<and> saw \<and> length done < 3")
      case True
      then obtain j junk' where j: "junk = j # junk'" using Cons.prems(2) by (cases junk) auto
      have wr: "wr_buf (done @ of_nat v # junk) (int (length done) + 1) 0 = Inr (done @ of_nat v # 0 # junk')"
        using wr_buf_at [of "int (length done) + 1" "done @ [of_nat v]" j junk' 0] by (simp add: j)
      have IH: "rmap quad_of (pton4_loop (s @ 0 # rest) False (Suc (length done)) (done @ of_nat v # 0 # junk') (int (length done) + 1))
        = Inr (if hd ?ps \<noteq> [] \<and> list_all c_isdigit (hd ?ps) \<and> dec_val_from 0 (hd ?ps) \<le> 255 \<and> list_all is_octet (tl ?ps) \<and> length done + 2 + length (tl ?ps) = 4
           then Some (done @ of_nat v # of_nat (dec_val_from 0 (hd ?ps)) # map (of_nat \<circ> dec_val_from 0) (tl ?ps)) else None)"
        using Cons.IH [OF ch(2), of "done @ [of_nat v]" junk' 0 False] Cons.prems(2)
        by (simp add: Let_def j algebra_simps del: rmap_eq_Inr)
      have ps: "?ps = hd ?ps # tl ?ps" by simp
      have step: "pton4_loop ((ch # s) @ 0 # rest) saw (length done + (if saw then 1 else 0)) (done @ of_nat v # junk) (int (length done))
         = pton4_loop (s @ 0 # rest) False (Suc (length done)) (done @ of_nat v # 0 # junk') (int (length done) + 1)"
        using True none wr by simp
      show ?thesis unfolding step IH
        using True ps Cons.prems(3)
        by (cases "?ps") (auto simp add: pieces_char Let_def is_octet_def [abs_def] simp del: rmap_eq_Inr)
    next
      case stop: False
      have "length done \<le> 3" using Cons.prems(2) by simp
      then have "pton4_loop ((ch # s) @ 0 # rest) saw (length done + (if saw then 1 else 0)) (done @ of_nat v # junk) (int (length done)) = Inr None"
        using none ch(1) stop by (cases saw) auto
      moreover obtain q qs where "?ps = q # qs" by (cases ?ps) auto
      ultimately show ?thesis using False stop Cons.prems(2)
        by (cases "ch = 0x2E"; cases saw) (auto simp: pieces_char quad_of_def Let_def)
    qed
  qed
qed

lemma inet_pton4_quad:
  assumes "0 \<notin> set s" "length tmp0 = 4"
  shows "inet_pton4 tmp0 (s @ 0 # rest) dst off
    = (case dotted_quad s of None \<Rightarrow> Inr (0, dst) | Some a \<Rightarrow> rmap (Pair 1) (wr_bytes dst off a))"
proof -
  obtain j junk where j: "tmp0 = j # junk" "length junk = 3" using assms(2) by (cases tmp0) auto
  let ?ps = "pieces [0x2E] s"
  have ps: "?ps = hd ?ps # tl ?ps" by simp
  have dq: "dotted_quad s = (if hd ?ps \<noteq> [] \<and> list_all c_isdigit (hd ?ps) \<and> dec_val_from 0 (hd ?ps) \<le> 255
      \<and> list_all is_octet (tl ?ps) \<and> length (tl ?ps) = 3
      then Some (of_nat (dec_val_from 0 (hd ?ps)) # map (of_nat \<circ> dec_val_from 0) (tl ?ps)) else None)"
    by (cases ?ps) (auto simp: dotted_quad_def is_octet_def [abs_def] Let_def)
  have "rmap quad_of (pton4_loop (s @ 0 # rest) False 0 (0 # junk) 0) = Inr (dotted_quad s)"
    using pton4_loop_pieces [OF assms(1), of "[]" junk 0 False rest] j(2)
    by (simp add: dq Let_def del: rmap_eq_Inr)
  then obtain r where "pton4_loop (s @ 0 # rest) False 0 (0 # junk) 0 = Inr r" "quad_of r = dotted_quad s" by auto
  then show ?thesis
    by (cases r; cases "dotted_quad s") (auto simp: inet_pton4_def j wr_buf_def quad_of_def split: if_splits)
qed

lemma dotted_quad_length: "dotted_quad s = Some a \<Longrightarrow> length a = 4"
  by (auto simp: dotted_quad_def Let_def split: if_splits)

text \<open>The printed form of an address is such a quad.\<close>

lemma dec_val_dec_nat: "dec_val_from 0 (dec_nat n) = n"
proof (induction n rule: dec_nat.induct)
  case (1 n)
  have app: "dec_val_from 0 (xs @ [b]) = dec_val_from 0 xs * 10 + (unat b - 48)" for xs b
    by (simp add: dec_val_from_def)
  have u: "unat (of_nat (48 + k) :: byte) = 48 + k" if "k < 10" for k using that by (subst unat_of_nat) simp
  show ?case
  proof (cases "n < 10")
    case True
    then show ?thesis using u [OF True] by (subst dec_nat.simps) (simp add: dec_val_from_def)
  next
    case False
    then have "dec_nat n = dec_nat (n div 10) @ [of_nat (48 + n mod 10)]" by (subst dec_nat.simps) simp
    then show ?thesis using 1 [OF False] u [of "n mod 10"] by (simp add: app del: of_nat_add)
  qed
qed

lemma is_octet_dec: "is_octet (dec_nat (unat (b :: byte)))"
  using unsigned_less [of b, where 'a = nat] dec_nat_Cons [of "unat b"] dec_nat_digits [of "unat b"]
  by (auto simp: is_octet_def dec_val_dec_nat)

lemma pieces_text: "c \<notin> set p \<Longrightarrow> pieces [c] (p @ c # s) = p # pieces [c] s"
  by (induction p) (auto simp: pieces_char)

lemma pieces_text_last: "c \<notin> set p \<Longrightarrow> pieces [c] p = [p]"
  by (induction p) (auto simp: pieces_char)

lemma pieces_join:
  "ps \<noteq> [] \<Longrightarrow> \<forall>p \<in> set ps. c \<notin> set p \<Longrightarrow> pieces [c] (join [c] ps) = ps"
proof (induction ps)
  case (Cons p ps)
  then show ?case by (cases ps) (auto simp: join_Cons pieces_text pieces_text_last)
qed simp

lemma dec_nat_plain: "b \<in> set (dec_nat n) \<Longrightarrow> c_isdigit b"
  using dec_nat_digits [of n] by (auto simp: list_all_iff)

lemma dotted_quad_text:
  assumes "length a = 4"
  shows "dotted_quad (join [0x2E] (map (dec_nat \<circ> unat) a)) = Some a"
proof -
  have "\<forall>p \<in> set (map (dec_nat \<circ> unat) a). 0x2E \<notin> set p"
    by (auto dest!: dec_nat_plain simp: c_isdigit_def)
  moreover have "a \<noteq> []" using assms by auto
  ultimately have "pieces [0x2E] (join [0x2E] (map (dec_nat \<circ> unat) a)) = map (dec_nat \<circ> unat) a"
    by (intro pieces_join) simp_all
  moreover have "list_all is_octet (map (dec_nat \<circ> unat) a)" by (auto simp: list_all_iff is_octet_dec)
  moreover have "map (of_nat \<circ> dec_val_from 0) (map (dec_nat \<circ> unat) a) = a"
    by (simp add: dec_val_dec_nat cong: map_cong)
  ultimately show ?thesis using assms by (simp add: dotted_quad_def)
qed

section \<open>Memory safety of the parsers\<close>

lemma src_split: "0 \<in> set src \<Longrightarrow> \<exists>s rest. src = s @ (0 :: byte) # rest \<and> 0 \<notin> set s"
  using split_list_first by fastforce

lemma wr_bytes_fits: "0 \<le> off \<Longrightarrow> off + int (length vs) \<le> int (length dst) \<Longrightarrow> \<exists>d. wr_bytes dst off vs = Inr d \<and> length d = length dst"
  by (drule (1) wr_bytes_ok) (blast dest: wr_bytes_length)

lemma inet_pton4_safe:
  assumes "0 \<in> set src" "length tmp0 = 4" "0 \<le> off" "off + 4 \<le> int (length dst)"
  shows "\<exists>r dst'. inet_pton4 tmp0 src dst off = Inr (r, dst') \<and> length dst' = length dst \<and> r \<in> {0, 1} \<and> (r = 0 \<longrightarrow> dst' = dst)"
proof -
  obtain s rest where s: "src = s @ 0 # rest" "0 \<notin> set s" using src_split [OF assms(1)] by blast
  show ?thesis
  proof (cases "dotted_quad s")
    case None
    then show ?thesis using inet_pton4_quad [OF s(2) assms(2), of rest dst off] by (simp add: s(1))
  next
    case (Some a)
    obtain d where "wr_bytes dst off a = Inr d" "length d = length dst"
      using wr_bytes_fits [of off a dst] assms(3,4) dotted_quad_length [OF Some] by auto
    then show ?thesis using inet_pton4_quad [OF s(2) assms(2), of rest dst off] Some by (simp add: s(1))
  qed
qed

lemma put_val_ok: "0 \<le> tp \<Longrightarrow> tp + 2 \<le> int (length tmp) \<Longrightarrow> \<exists>t. put_val tmp tp val = Inr t \<and> length t = length tmp"
  by (auto simp: put_val_def wr_buf_ok)

lemma pton6_loop_safe:
  assumes "0 \<in> set src" "0 \<in> set curtok" "length junk = 4" "length tmp = 16" "0 \<le> tp" "tp \<le> 16"
    "\<forall>c. colonp = Some c \<longrightarrow> 0 \<le> c \<and> c \<le> tp"
  shows "\<exists>r. pton6_loop junk src curtok tmp tp colonp saw val = Inr r \<and> (\<forall>t p c w v. r = Some (t, p, c, w, v) \<longrightarrow>
    length t = 16 \<and> 0 \<le> p \<and> p \<le> 16 \<and> (\<forall>x. c = Some x \<longrightarrow> 0 \<le> x \<and> x \<le> p))"
  using assms
proof (induction junk src curtok tmp tp colonp saw val rule: pton6_loop.induct)
  case (2 junk ch src curtok tmp tp colonp saw val)
  show ?case
  proof (cases "ch = 0")
    case True
    then show ?thesis using "2.prems" by simp
  next
    case ne: False
    then have src: "0 \<in> set src" using "2.prems"(1) by simp
    note IH = "2.IH" [OF ne]
    show ?thesis
    proof (cases "xdigit ch")
      case (Some d)
      show ?thesis
        using IH(3) [OF Some refl _ src "2.prems"(2-)] ne Some by (simp add: Let_def)
    next
      case None
      consider "ch = 0x3A" "\<not> saw" "colonp = None" | "ch = 0x3A" "saw" "tp + 2 \<le> 16"
        | "ch \<noteq> 0x3A" "ch = 0x2E" "tp + 4 \<le> 16"
        | "pton6_loop junk (ch # src) curtok tmp tp colonp saw val = Inr None"
        using ne None by (cases "ch = 0x3A"; cases saw; cases colonp; cases "tp + 2 \<le> 16"; cases "ch = 0x2E"; cases "tp + 4 \<le> 16") auto
      then show ?thesis
      proof cases
        case 1
        then show ?thesis using IH(1) [OF None 1(1,2)] src "2.prems" ne None by simp
      next
        case 2
        obtain t where t: "put_val tmp tp val = Inr t" "length t = 16"
          using put_val_ok [of tp tmp val] "2.prems" 2(3) by auto
        have "\<not> tp + 2 > 16" using 2(3) by simp
        then show ?thesis
          using IH(2) [OF None 2(1), of t] t 2 src "2.prems" ne None by fastforce
      next
        case 3
        obtain r t where "inet_pton4 junk curtok tmp tp = Inr (r, t)" "length t = 16" "r \<in> {0, 1}"
          using inet_pton4_safe [OF "2.prems"(2,3,5), of tmp] "2.prems"(4) 3(3) by auto
        then show ?thesis using 3 "2.prems" ne None by auto
      next
        case 4
        then show ?thesis by simp
      qed
    qed
  qed
qed simp

lemma pton6_shift_safe:
  "length tmp = 16 \<Longrightarrow> 0 \<le> c \<Longrightarrow> c + int n \<le> 16 \<Longrightarrow> 1 \<le> i \<Longrightarrow> \<exists>t. pton6_shift i n c tmp = Inr t \<and> length t = 16"
proof (induction i n c tmp rule: pton6_shift.induct)
  case (1 i n c tmp)
  show ?case
  proof (cases "i \<le> n")
    case True
    let ?s = "c + int n - int i"
    have r: "0 \<le> ?s" "?s < 16" "0 \<le> 16 - int i" "16 - int i < 16" using True "1.prems" by auto
    obtain t1 where t1: "wr_buf tmp (16 - int i) (tmp ! nat ?s) = Inr t1" "length t1 = 16"
      using r "1.prems"(1) by (simp add: wr_buf_ok)
    obtain t2 where t2: "wr_buf t1 ?s 0 = Inr t2" "length t2 = 16" using r t1(2) by (simp add: wr_buf_ok)
    have rd: "rd_buf tmp ?s = Inr (tmp ! nat ?s)" using r "1.prems"(1) by (simp add: rd_buf_ok)
    show ?thesis using "1.IH" [OF True rd t1(1) t2(1) t2(2)] "1.prems"(2-4) True rd t1(1) t2(1)
      by (subst pton6_shift.simps) simp
  next
    case False
    then show ?thesis using "1.prems" by (subst pton6_shift.simps) simp
  qed
qed

lemma pton6_finish_safe:
  assumes "length t = 16" "0 \<le> p" "p \<le> 16" "\<forall>x. c = Some x \<longrightarrow> 0 \<le> x \<and> x \<le> p" "0 \<le> off" "off + 16 \<le> int (length dst)"
  shows "\<exists>r dst'. pton6_finish dst off (t, p, c, w, v) = Inr (r, dst') \<and> length dst' = length dst \<and> r \<in> {0, 1} \<and> (r = 0 \<longrightarrow> dst' = dst)"
proof -
  have fin: "\<exists>r dst'. rbind (case c of None \<Rightarrow> Inr (t1, p1) | Some x \<Rightarrow> rmap (\<lambda>t. (t, 16)) (pton6_shift 1 (nat (p1 - x)) x t1))
      (\<lambda>(tmp2, tp2). if tp2 \<noteq> 16 then Inr (0 :: int, dst) else rmap (Pair 1) (wr_bytes dst off tmp2)) = Inr (r, dst')
      \<and> length dst' = length dst \<and> r \<in> {0, 1} \<and> (r = 0 \<longrightarrow> dst' = dst)"
    if t1: "length t1 = 16" "p \<le> p1" "p1 \<le> 16" for t1 :: "byte list" and p1 :: int
  proof (cases c)
    case None
    then show ?thesis using wr_bytes_fits [of off t1 dst] assms(5,6) t1 by (cases "p1 = 16") auto
  next
    case (Some x)
    then have "0 \<le> x" "x + int (nat (p1 - x)) \<le> 16" using assms(4) t1 by auto
    then obtain t2 where "pton6_shift 1 (nat (p1 - x)) x t1 = Inr t2" "length t2 = 16"
      using pton6_shift_safe [of t1 x "nat (p1 - x)" 1] t1 by auto
    then show ?thesis using wr_bytes_fits [of off t2 dst] assms(5,6) Some by auto
  qed
  consider "\<not> w" | "w" "p + 2 > 16" | t1 where "w" "p + 2 \<le> 16" "put_val t p v = Inr t1" "length t1 = 16"
    using put_val_ok [of p t v] assms(1,2) by fastforce
  then show ?thesis
  proof cases
    case 1
    then show ?thesis using fin [of t p] assms(1,3) by (simp add: pton6_finish_def)
  next
    case 2
    then show ?thesis by (simp add: pton6_finish_def)
  next
    case 3
    then show ?thesis using fin [of t1 "p + 2"] by (simp add: pton6_finish_def)
  qed
qed

lemma inet_pton6_safe:
  assumes "0 \<in> set src" "length junk = 4" "0 \<le> off" "off + 16 \<le> int (length dst)"
  shows "\<exists>r dst'. inet_pton6 junk src dst off = Inr (r, dst') \<and> length dst' = length dst \<and> r \<in> {0, 1} \<and> (r = 0 \<longrightarrow> dst' = dst)"
proof -
  have run: "\<exists>r dst'. rbind (pton6_loop junk s s (replicate 16 0) 0 None False 0)
      (\<lambda>r. case r of None \<Rightarrow> Inr (0, dst) | Some x \<Rightarrow> pton6_finish dst off x) = Inr (r, dst')
      \<and> length dst' = length dst \<and> r \<in> {0, 1} \<and> (r = 0 \<longrightarrow> dst' = dst)" if s: "0 \<in> set s" for s
  proof -
    obtain r where r: "pton6_loop junk s s (replicate 16 0) 0 None False 0 = Inr r"
      "\<forall>t p c w v. r = Some (t, p, c, w, v) \<longrightarrow> length t = 16 \<and> 0 \<le> p \<and> p \<le> 16 \<and> (\<forall>x. c = Some x \<longrightarrow> 0 \<le> x \<and> x \<le> p)"
      using pton6_loop_safe [OF s s assms(2), of "replicate 16 0" 0 None False 0] by auto
    show ?thesis
    proof (cases r)
      case (Some x)
      obtain t p c w v where x: "x = (t, p, c, w, v)" by (cases x)
      have "length t = 16" "0 \<le> p" "p \<le> 16" "\<forall>x. c = Some x \<longrightarrow> 0 \<le> x \<and> x \<le> p" using r(2) Some x by auto
      from pton6_finish_safe [OF this assms(3,4), of w v] show ?thesis using r(1) Some x by simp
    qed (use r(1) in simp)
  qed
  obtain c0 src' where src: "src = c0 # src'" using assms(1) by (cases src) auto
  show ?thesis
  proof (cases "c0 = 0x3A")
    case True
    then have "0 \<in> set src'" using assms(1) src by auto
    then obtain c1 src'' where "src' = c1 # src''" by (cases src') auto
    then show ?thesis using run [of src'] True src \<open>0 \<in> set src'\<close>
      by (cases "c1 = 0x3A") (simp_all add: inet_pton6_def rd_buf_def del: pton6_loop.simps)
  next
    case False
    then show ?thesis using run [OF assms(1)] src by (simp add: inet_pton6_def rd_buf_def del: pton6_loop.simps)
  qed
qed

end
