(* ===== verification/M_Sock.thy ===== *)
theory M_Sock
  imports M_Addr
begin

text \<open>
  Opening sockets: \<open>sock_open\<close>, \<open>sock_ser_open\<close> and \<open>sock_cli_open\<close> of \<open>lib/m_sock.c\<close>, and the
  table of sockets of \<open>lib/mbtk_sock.c\<close>.  Log output and the installation of the alarm handler
  are left out; the alarm itself is the call \<open>SysItimer\<close>.
\<close>

definition SOCK_STREAM :: int where "SOCK_STREAM = 1"
definition SOCK_DGRAM :: int where "SOCK_DGRAM = 2"

section \<open>Single sockets\<close>

definition sock_open :: "os \<Rightarrow> byte list \<Rightarrow> int \<Rightarrow> world \<Rightarrow> int \<times> world" where
  "sock_open e host port w =
     (let (fd, w1) = sys e (SysSocket AF_INET SOCK_STREAM 0) w in if fd < 0 then (- 1, w1) else
      let (r, w2) = sys e (SysAton host) w1 in if r < 0 then (- 1, w2) else
      let (he, w3) = sys e (SysResolve host) w2 in if he = 0 then (- 1, w3) else
      let (r, w4) = sys e (SysItimer 15000) w3 in if r = - 1 then (- 1, w4) else
      let (r, w5) = sys e (SysConnect fd port) w4 in if r < 0 then (- 1, w5) else
      let (_, w6) = sys e (SysItimer 0) w5;
          (r, w7) = sys e (SysName fd True) w6 in if r < 0 then (- 1, w7) else
      let (r, w8) = sys e (SysName fd False) w7 in if r < 0 then (- 1, w8) else (fd, w8))"

definition sock_ser_open :: "os \<Rightarrow> int \<Rightarrow> int \<Rightarrow> int \<Rightarrow> world \<Rightarrow> int \<times> world" where
  "sock_ser_open e domain type port w =
     (let (fd, w1) = sys e (SysSocket domain type 0) w in if fd < 0 then (- 1, w1) else
      let (r, w2) = sys e (SysBind fd port) w1 in
      if r < 0 then (- 1, snd (sys e (SysClose fd) w2)) else (fd, w2))"

text \<open>The address that \<open>sockaddr_init\<close> computes is dropped: its first argument is NULL.\<close>

definition sock_cli_open :: "os \<Rightarrow> byte list \<Rightarrow> int \<Rightarrow> int \<Rightarrow> byte list option \<Rightarrow> int \<Rightarrow> world \<Rightarrow> (int \<times> world) res" where
  "sock_cli_open e junk domain type host port w =
     (let (fd, w1) = sys e (SysSocket domain type 0) w in
      if fd < 0 then Inr (- 1, w1)
      else rmap (\<lambda>(r, _). if r < 0 then (- 1, w1) else (fd, w1)) (sockaddr_init junk None host port domain))"

section \<open>The table of sockets\<close>

definition MBTK_SOCK_HOST_LEN_MAX :: nat where "MBTK_SOCK_HOST_LEN_MAX = 50"
definition MBTK_SOCK_NUM_MAX :: nat where "MBTK_SOCK_NUM_MAX = 30"

datatype mbtk_sock_type = MBTK_SOCK_TYPE_TCP | MBTK_SOCK_TYPE_UDP

text \<open>A callback is a number; None is NULL.\<close>

record mbtk_sock =
  ms_fd :: int
  ms_type :: mbtk_sock_type
  ms_is_sync :: bool
  ms_is_ssl :: bool
  ms_host :: "byte list"
  ms_port :: int
  ms_read_cb :: "nat option"
  ms_can_read_cb :: "nat option"

definition ms_zero :: mbtk_sock where
  "ms_zero = \<lparr>ms_fd = 0, ms_type = MBTK_SOCK_TYPE_TCP, ms_is_sync = False, ms_is_ssl = False,
     ms_host = replicate MBTK_SOCK_HOST_LEN_MAX 0, ms_port = 0, ms_read_cb = None, ms_can_read_cb = None\<rparr>"

text \<open>\<open>epoll_fd\<close> is -1: nothing in the file creates an epoll instance.\<close>

record sock_table =
  mbtk_socks :: "mbtk_sock list"
  st_epoll_fd :: int
  st_sys_world :: world

definition sock_table0 :: sock_table where
  "sock_table0 = \<lparr>mbtk_socks = replicate MBTK_SOCK_NUM_MAX ms_zero, st_epoll_fd = - 1, st_sys_world = []\<rparr>"

text \<open>The loops that look for the first free entry and for the entry of a descriptor.\<close>

fun free_index :: "mbtk_sock list \<Rightarrow> nat" where
  "free_index [] = 0"
| "free_index (s # ss) = (if ms_fd s > 0 then Suc (free_index ss) else 0)"

fun fd_index :: "int \<Rightarrow> mbtk_sock list \<Rightarrow> nat" where
  "fd_index fd [] = 0"
| "fd_index fd (s # ss) = (if ms_fd s \<noteq> fd then Suc (fd_index fd ss) else 0)"

text \<open>The label \<open>result_fail_with_close\<close>, which falls into \<open>result_fail\<close>.\<close>

definition fail_with_close :: "os \<Rightarrow> nat \<Rightarrow> mbtk_sock list \<Rightarrow> int \<Rightarrow> world \<Rightarrow> int \<times> sock_table" where
  "fail_with_close e i socks ep w =
     (- 1, \<lparr>mbtk_socks = socks[i := ms_zero], st_epoll_fd = ep, st_sys_world = snd (sys e (SysClose (ms_fd (socks ! i))) w)\<rparr>)"

text \<open>Both branches of the flag: read the flags, change \<open>O_NONBLOCK\<close>, write them.\<close>

definition mbtk_sock_open :: "os \<Rightarrow> mbtk_sock_type \<Rightarrow> bool \<Rightarrow> nat option \<Rightarrow> nat option \<Rightarrow> sock_table \<Rightarrow> int \<times> sock_table" where
  "mbtk_sock_open e type is_ssl can_read_cb read_cb st =
     (let socks = mbtk_socks st; ep = st_epoll_fd st; i = free_index socks in
      if i = MBTK_SOCK_NUM_MAX then (- 1, st)
      else
        let (fd, w1) = sys e (SysSocket AF_INET (if type = MBTK_SOCK_TYPE_UDP then SOCK_DGRAM else SOCK_STREAM) 0) (st_sys_world st);
            s1 = (socks ! i)\<lparr>ms_fd := fd, ms_type := type\<rparr>
        in if fd < 0 then (- 1, \<lparr>mbtk_socks = socks[i := s1], st_epoll_fd = ep, st_sys_world = w1\<rparr>)
           else
             let s2 = (if can_read_cb \<noteq> None \<or> read_cb \<noteq> None
                       then s1\<lparr>ms_is_sync := False, ms_is_ssl := is_ssl, ms_read_cb := read_cb, ms_can_read_cb := can_read_cb\<rparr>
                       else s1\<lparr>ms_is_sync := True, ms_is_ssl := is_ssl\<rparr>);
                 socks2 = socks[i := s2];
                 (flags, w2) = sys e (SysFcntl fd F_GETFL 0) w1
             in if flags < 0 then fail_with_close e i socks2 ep w2
                else let (r, w3) = sys e (SysFcntl fd F_SETFL (if ms_is_sync s2 then flags AND NOT O_NONBLOCK else flags OR O_NONBLOCK)) w2
                     in if r < 0 then fail_with_close e i socks2 ep w3
                        else (fd, \<lparr>mbtk_socks = socks2, st_epoll_fd = ep, st_sys_world = w3\<rparr>))"

text \<open>Connecting: whether \<open>result_success\<close> is reached.  First the non-blocking branch.\<close>

definition conn_async :: "os \<Rightarrow> int \<Rightarrow> int \<Rightarrow> world \<Rightarrow> bool \<times> world" where
  "conn_async e fd port w =
     (let (r, w1) = sys e (SysConnect fd port) w in
      if r < 0 \<and> errno e (SysConnect fd port) w \<noteq> EINPROGRESS then (False, w1) else
      let (nready, w2) = sys e (SysSelect fd) w1 in
      if nready = 0 then (False, w2)
      else if can_read e w2 fd \<and> can_write e w2 fd
      then let (r, w3) = sys e (SysSockError fd) w2 in
           if r < 0 then (False, w3) else (so_error e w3 = 0, w3)
      else (can_write e w2 fd, w2))"

definition conn_sync :: "os \<Rightarrow> int \<Rightarrow> int \<Rightarrow> world \<Rightarrow> bool \<times> world" where
  "conn_sync e fd port w =
     (let (r, w1) = sys e (SysItimer 10500) w in
      if r = - 1 then (False, w1) else
      let (r, w2) = sys e (SysConnect fd port) w1 in
      if r < 0 then (False, w2) else (True, snd (sys e (SysItimer 0) w2)))"

definition mbtk_sock_conn :: "os \<Rightarrow> int \<Rightarrow> byte list \<Rightarrow> int \<Rightarrow> sock_table \<Rightarrow> int \<times> sock_table" where
  "mbtk_sock_conn e fd host port st =
     (let socks = mbtk_socks st; ep = st_epoll_fd st; i = fd_index fd socks in
      if fd \<le> 0 \<or> i = MBTK_SOCK_NUM_MAX then (- 1, st)
      else
        let (he, w1) = sys e (SysResolve host) (st_sys_world st) in
        if he = 0 then fail_with_close e i socks ep w1
        else
          let s = socks ! i;
              (ok, w2) = (if \<not> ms_is_sync s then conn_async e (ms_fd s) port w1 else conn_sync e (ms_fd s) port w1)
          in if \<not> ok then fail_with_close e i socks ep w2
             else (0, st\<lparr>st_sys_world := if \<not> ms_is_sync s then snd (sys e (SysEpollAdd (ms_fd s)) w2) else w2\<rparr>))"

definition mbtk_sock_close :: "os \<Rightarrow> int \<Rightarrow> sock_table \<Rightarrow> int \<times> sock_table" where
  "mbtk_sock_close e fd st =
     (let socks = mbtk_socks st; i = fd_index fd socks in
      if fd \<le> 0 \<or> i = MBTK_SOCK_NUM_MAX then (- 1, st)
      else (0, \<lparr>mbtk_socks = socks[i := ms_zero], st_epoll_fd = st_epoll_fd st,
                st_sys_world = snd (sys e (SysClose (ms_fd (socks ! i))) (st_sys_world st))\<rparr>))"

end
