(* ===== verification/M_Http.thy ===== *)
theory M_Http
  imports M_Stream M_Sock
begin

text \<open>
  The HTTP client of \<open>lib/m_http.c\<close>, which puts the string, socket and stream functions
  together: the URL is cut up, a request is sent over a new connection and the lines of the
  answer are printed.  What is printed is collected; the request itself is a theorem of
  \<open>Http_Properties\<close>.
\<close>

definition HTTP_HOST_MAX_LEN :: nat where "HTTP_HOST_MAX_LEN = 100"
definition HTTP_URI_MAX_LEN :: nat where "HTTP_URI_MAX_LEN = 1024"
definition HTTP_URL_MAX_LEN :: nat where "HTTP_URL_MAX_LEN = HTTP_HOST_MAX_LEN + HTTP_URI_MAX_LEN + 20"
definition HTTP_REQ_HEAD_MAX_LEN :: nat where "HTTP_REQ_HEAD_MAX_LEN = 2048"

definition http_scheme :: "byte list" where "http_scheme = bytes_of ''http://''"
definition https_scheme :: "byte list" where "https_scheme = bytes_of ''https://''"

section \<open>URLs\<close>

text \<open>The loop that cuts the port off the host, from position \<open>i\<close>.\<close>

function cut_port :: "byte list \<Rightarrow> nat \<Rightarrow> int \<Rightarrow> (byte list \<times> int) res" where
  "cut_port host i port =
     (case rd_buf host (int i) of
        Inl f \<Rightarrow> Inl f
      | Inr b \<Rightarrow>
          if b = 0 then Inr (host, port)
          else if b = 0x3A
          then rbind (atoi (drop (Suc i) host)) (\<lambda>p. rmap (\<lambda>h. (h, p)) (wr_buf host (int i) 0))
          else cut_port host (Suc i) port)"
  by pat_completeness auto
termination
  by (relation "measure (\<lambda>(host, i, port). length host - i)") (auto dest: rd_buf_range)

declare cut_port.simps [simp del]

text \<open>The result, the two buffers and the port, which keeps its value when the URL has none.\<close>

definition http_url_parse :: "byte list option \<Rightarrow> byte list \<Rightarrow> byte list \<Rightarrow> int \<Rightarrow>
    (bool \<times> byte list \<times> byte list \<times> int) res" where
  "http_url_parse url host uri port =
     (case url of
        None \<Rightarrow> Inr (False, host, uri, port)
      | Some u \<Rightarrow>
          if length u > HTTP_URL_MAX_LEN then Inr (False, host, uri, port)
          else
            let (ptr, port1) =
                  (if strstr u http_scheme = Some 0 then (drop (length http_scheme) u, 80)
                   else if strstr u https_scheme = Some 0 then (drop (length https_scheme) u, 443)
                   else (u, port));
                pos = str_indexof (Some ptr) (Some [0x2F])
            in if pos < 0 \<or> pos > int HTTP_HOST_MAX_LEN then Inr (False, host, uri, port1)
               else rbind (wr_bytes host 0 (take (nat pos) ptr)) (\<lambda>h1.
                    rbind (cut_port h1 0 port1) (\<lambda>(h2, port2).
                    let uri_len = int (length ptr) - pos in
                    if uri_len < 0 \<or> uri_len > int HTTP_URI_MAX_LEN then Inr (False, h2, uri, port2)
                    else rmap (\<lambda>u1. (True, h2, u1, port2)) (wr_bytes uri 0 (drop (nat pos) ptr)))))"

section \<open>The request\<close>

text \<open>The lines of the answer until \<open>sock_readline\<close> returns no more; \<open>out\<close> is what was printed.
  An endless answer is read for ever (None).\<close>

partial_function (option) http_rsp_parse :: "os \<Rightarrow> int \<Rightarrow> byte list \<Rightarrow> byte list \<Rightarrow> readbuf \<Rightarrow> world \<Rightarrow>
    (byte list \<times> readbuf \<times> world) res option" where
  "http_rsp_parse e fd buf out st w =
     (case sock_readline e fd buf (2048 - 1) st w of
        Inl f \<Rightarrow> Some (Inl f)
      | Inr (len, b, st1, w1) \<Rightarrow>
          if len > 0
          then (case rbind (wr_buf b len 0) (\<lambda>b1. rmap (Pair b1) (mem_str b1)) of
                  Inl f \<Rightarrow> Some (Inl f)
                | Inr (b1, s) \<Rightarrow> http_rsp_parse e fd b1 (out @ s) st1 w1)
          else Some (Inr (out, st1, w1)))"

declare http_rsp_parse.simps [code]

definition http_request :: "byte list \<Rightarrow> byte list \<Rightarrow> byte list" where
  "http_request uri host =
     bytes_of ''GET '' @ uri @ bytes_of '' HTTP/1.1'' @ [0x0D, 0x0A] @ bytes_of ''Host: '' @ host @ [0x0D, 0x0A, 0x0D, 0x0A]"

text \<open>\<open>port0\<close> and \<open>buf0\<close> are what the variables on the stack hold.  The result also has what
  was printed of the answer, the static buffer and the calls.\<close>

definition http_get :: "os \<Rightarrow> int \<Rightarrow> byte list \<Rightarrow> byte list option \<Rightarrow> readbuf \<Rightarrow> world \<Rightarrow>
    (int \<times> byte list \<times> readbuf \<times> world) res" where
  "http_get e port0 buf0 url st w =
     rbind (http_url_parse url (replicate (HTTP_HOST_MAX_LEN + 1) 0) (replicate (HTTP_URI_MAX_LEN + 1) 0) port0) (\<lambda>(ok, hbuf, ubuf, port).
     if \<not> ok then Inr (- 1, [], st, w)
     else
       rbind (mem_str hbuf) (\<lambda>host.
       rbind (mem_str ubuf) (\<lambda>uri.
       let req = take (HTTP_REQ_HEAD_MAX_LEN - 1) (http_request uri host);
           (fd, w1) = sock_open e host port w
       in if fd < 0 then Inr (- 1, [], st, w1)
          else
            rbind (sock_writen e fd (req @ [0]) (length req) w1) (\<lambda>(n, w2).
            if n \<noteq> int (length req) then Inr (- 1, [], st, w2)
            else case http_rsp_parse e fd buf0 [] st w2 of
                   None \<Rightarrow> Inl Diverges
                 | Some r \<Rightarrow> rmap (\<lambda>(out, st1, w3). (0, out, st1, w3)) r))))"

definition http_pic_download :: "byte list option \<Rightarrow> byte list option \<Rightarrow> int \<Rightarrow> bool \<times> int" where
  "http_pic_download url path err_no = (True, err_no)"

section \<open>The parts of a URL\<close>

definition url_text :: "bool \<Rightarrow> byte list \<Rightarrow> nat option \<Rightarrow> byte list \<Rightarrow> byte list" where
  "url_text secure host port uri =
     (if secure then https_scheme else http_scheme) @ host
       @ (case port of None \<Rightarrow> [] | Some p \<Rightarrow> 0x3A # dec_nat p) @ uri"

definition host_part :: "byte list \<Rightarrow> nat option \<Rightarrow> byte list" where
  "host_part host port = host @ (case port of None \<Rightarrow> [] | Some p \<Rightarrow> 0x3A # dec_nat p)"

definition url_port :: "bool \<Rightarrow> nat option \<Rightarrow> int" where
  "url_port secure port = (case port of None \<Rightarrow> if secure then 443 else 80 | Some p \<Rightarrow> int p)"

lemma strstr_at: "0x2F \<notin> set p \<Longrightarrow> strstr (p @ 0x2F # s) [0x2F] = Some (length p)"
  by (induction p) auto

lemma cut_port_skip:
  "0 \<notin> set mid \<Longrightarrow> 0x3A \<notin> set mid \<Longrightarrow> cut_port (pre @ mid @ rest) (length pre) port = cut_port (pre @ mid @ rest) (length (pre @ mid)) port"
proof (induction mid arbitrary: pre)
  case (Cons b mid)
  have "rd_buf (pre @ (b # mid) @ rest) (int (length pre)) = Inr b" by (simp add: rd_buf_at)
  then have "cut_port (pre @ (b # mid) @ rest) (length pre) port = cut_port (pre @ (b # mid) @ rest) (Suc (length pre)) port"
    using Cons.prems by (subst cut_port.simps) auto
  then show ?case using Cons.IH [of "pre @ [b]"] Cons.prems by simp
qed simp

lemma cut_port_host:
  assumes "0 \<notin> set host" "0x3A \<notin> set host"
  shows "cut_port (host_part host port @ 0 # z) 0 d = Inr (case port of
    None \<Rightarrow> (host @ 0 # z, d) | Some p \<Rightarrow> (host @ 0 # dec_nat p @ 0 # z, int p))"
proof -
  let ?rest = "(case port of None \<Rightarrow> [] | Some p \<Rightarrow> 0x3A # dec_nat p) @ 0 # z"
  have skip: "cut_port (host @ ?rest) 0 d = cut_port (host @ ?rest) (length host) d"
    using cut_port_skip [OF assms, of "[]" ?rest d] by simp
  show ?thesis
  proof (cases port)
    case None
    have "rd_buf (host @ 0 # z) (int (length host)) = Inr 0" by (simp add: rd_buf_at)
    then have "cut_port (host @ 0 # z) (length host) d = Inr (host @ 0 # z, d)" by (subst cut_port.simps) simp
    then show ?thesis using skip None by (simp add: host_part_def)
  next
    case (Some p)
    have "rd_buf (host @ 0x3A # dec_nat p @ 0 # z) (int (length host)) = Inr 0x3A"
      "wr_buf (host @ 0x3A # dec_nat p @ 0 # z) (int (length host)) 0 = Inr (host @ 0 # dec_nat p @ 0 # z)"
      by (simp_all add: rd_buf_at wr_buf_at)
    moreover have "atoi (dec_nat p @ 0 # z) = Inr (int p)" by (rule atoi_dec) (simp add: c_isdigit_def)
    ultimately have "cut_port (host @ 0x3A # dec_nat p @ 0 # z) (length host) d = Inr (host @ 0 # dec_nat p @ 0 # z, int p)"
      by (subst cut_port.simps) simp
    then show ?thesis using skip Some by (simp add: host_part_def)
  qed
qed

lemma http_url_parse_text:
  assumes host: "0 \<notin> set host" "0x3A \<notin> set host" "0x2F \<notin> set host"
    and len: "length (host_part host port) \<le> 100" "Suc (length path) \<le> 1024"
    and path: "0 \<notin> set path"
  shows "\<exists>z. http_url_parse (Some (url_text secure host port (0x2F # path))) (replicate 101 0) (replicate 1025 0) port0
    = Inr (True, host @ 0 # z, (0x2F # path) @ replicate (1024 - length path) 0, url_port secure port)"
proof -
  let ?hp = "host_part host port" and ?uri = "0x2F # path"
  let ?scheme = "if secure then https_scheme else http_scheme"
  have s: "length ?scheme \<le> 8" by (simp add: https_scheme_def http_scheme_def bytes_of_def)
  have url: "url_text secure host port ?uri = ?scheme @ ?hp @ ?uri" by (simp add: url_text_def host_part_def)
  have l: "\<not> length (url_text secure host port ?uri) > HTTP_URL_MAX_LEN"
    using len s by (simp add: url HTTP_URL_MAX_LEN_def HTTP_HOST_MAX_LEN_def HTTP_URI_MAX_LEN_def)
  have start: "(if strstr (?scheme @ ?hp @ ?uri) http_scheme = Some 0 then (drop (length http_scheme) (?scheme @ ?hp @ ?uri), 80)
      else if strstr (?scheme @ ?hp @ ?uri) https_scheme = Some 0 then (drop (length https_scheme) (?scheme @ ?hp @ ?uri), 443)
      else (?scheme @ ?hp @ ?uri, port0)) = (?hp @ ?uri, if secure then 443 else 80)"
    by (simp add: strstr_0) (simp add: http_scheme_def https_scheme_def bytes_of_def)
  have nosl: "0x2F \<notin> set ?hp"
    using host(3) dec_nat_digits [of "the port"] by (cases port) (auto simp: host_part_def list_all_iff c_isdigit_def)
  have pos: "str_indexof (Some (?hp @ ?uri)) (Some [0x2F]) = int (length ?hp)"
    using strstr_at [OF nosl, of path] by (simp add: str_indexof_def)
  let ?z = "replicate (100 - length ?hp) 0"
  have "replicate (101 - length ?hp) (0 :: byte) = 0 # ?z"
    using len(1) by (simp add: Suc_diff_le replicate_append_same flip: replicate_Suc)
  then have w1: "wr_bytes (replicate 101 0) 0 ?hp = Inr (?hp @ 0 # ?z)"
    using wr_bytes_ok [of 0 ?hp "replicate 101 (0 :: byte)"] len(1) by simp
  have "replicate (1025 - Suc (length path)) (0 :: byte) = replicate (1024 - length path) 0" by simp
  then have w2: "wr_bytes (replicate 1025 0) 0 ?uri = Inr (?uri @ replicate (1024 - length path) 0)"
    using wr_bytes_ok [of 0 ?uri "replicate 1025 (0 :: byte)"] len(2) by simp
  show ?thesis
    unfolding http_url_parse_def option.case url [symmetric] if_not_P [OF l] Let_def
    unfolding url start split_conv pos
    using len w1 w2 cut_port_host [OF host(1,2), of port ?z "if secure then 443 else 80"]
    by (cases port) (auto simp: HTTP_HOST_MAX_LEN_def HTTP_URI_MAX_LEN_def url_port_def)
qed

end
