(* ===== verification/M_Addr_Text.thy ===== *)
theory M_Addr_Text
  imports M_Addr
begin

text \<open>
  The textual form of IPv6 addresses and what \<open>inet_pton6\<close> makes of it: the groups before and
  behind the double colon end up at both ends of the address.
\<close>

section \<open>Hexadecimal groups\<close>

fun hex_text :: "nat \<Rightarrow> byte list" where
  "hex_text n = (if n < 16 then [xdigits_l ! n] else hex_text (n div 16) @ [xdigits_l ! (n mod 16)])"

declare hex_text.simps [simp del]

definition group_text :: "u16 \<Rightarrow> byte list" where "group_text g = hex_text (unat g)"

definition group_bytes :: "u16 \<Rightarrow> byte list" where
  "group_bytes g = [ucast (drop_bit 8 g), ucast g]"

lemma xdigit_ok:
  assumes "d < 16"
  shows "xdigit (xdigits_l ! d) = Some d" "xdigits_l ! d \<noteq> 0" "xdigits_l ! d \<noteq> 0x3A"
proof -
  have "d = 0 \<or> d = 1 \<or> d = 2 \<or> d = 3 \<or> d = 4 \<or> d = 5 \<or> d = 6 \<or> d = 7 \<or> d = 8 \<or> d = 9 \<or> d = 10
      \<or> d = 11 \<or> d = 12 \<or> d = 13 \<or> d = 14 \<or> d = 15" using assms by arith
  then have "xdigit (xdigits_l ! d) = Some d \<and> xdigits_l ! d \<noteq> 0 \<and> xdigits_l ! d \<noteq> 0x3A"
    by (elim disjE; simp add: xdigit_def xdigits_l_def xdigits_u_def bytes_of_def nth_Cons')
  then show "xdigit (xdigits_l ! d) = Some d" "xdigits_l ! d \<noteq> 0" "xdigits_l ! d \<noteq> 0x3A" by simp_all
qed

lemma xdigit_colon: "xdigit 0x3A = None"
  by (simp add: xdigit_def xdigits_l_def xdigits_u_def bytes_of_def)

lemma shift_in_nat: "d < 16 \<Longrightarrow> push_bit 4 m OR d = 16 * m + (d :: nat)"
proof -
  assume d: "d < 16"
  have "push_bit 4 m AND d = 0"
  proof (rule bit_eqI)
    fix n
    have "d = take_bit 4 d" using d by (simp add: take_bit_nat_eq_self)
    then have "bit d n \<Longrightarrow> n < 4" by (metis bit_take_bit_iff)
    then show "bit (push_bit 4 m AND d) n = bit (0 :: nat) n" by (auto simp: bit_and_iff bit_push_bit_iff_nat)
  qed
  then have "push_bit 4 m + d = push_bit 4 m OR d" by (rule disjunctive_add_eq_or)
  then show ?thesis by (simp add: push_bit_eq_mult)
qed

lemma shift_in: "d < 16 \<Longrightarrow> push_bit 4 (of_nat m :: u32) OR of_nat d = of_nat (16 * m + d)"
  by (simp only: push_bit_of_nat of_nat_or_eq [symmetric] shift_in_nat)

lemma u32_small: "n \<le> 0xFFFF \<Longrightarrow> \<not> (of_nat n :: u32) > 0xFFFF"
  by (simp add: word_less_nat_alt unat_of_nat take_bit_nat_eq_self)

lemma pton6_digit:
  assumes "d < 16" "16 * m + d \<le> 0xFFFF"
  shows "pton6_loop junk (xdigits_l ! d # rest) ct tmp tp cp saw (of_nat m) = pton6_loop junk rest ct tmp tp cp True (of_nat (16 * m + d))"
  using xdigit_ok [OF assms(1)] u32_small [OF assms(2)] by (simp add: Let_def shift_in [OF assms(1)] del: of_nat_add of_nat_mult)

lemma pton6_hex:
  "n \<le> 0xFFFF \<Longrightarrow> pton6_loop junk (hex_text n @ rest) ct tmp tp cp saw 0 = pton6_loop junk rest ct tmp tp cp True (of_nat n)"
proof (induction n arbitrary: rest rule: hex_text.induct)
  case (1 n)
  show ?case
  proof (cases "n < 16")
    case True
    then show ?thesis using pton6_digit [of n 0] by (subst hex_text.simps) simp
  next
    case False
    have "16 * (n div 16) + n mod 16 = n" by simp
    then show ?thesis using 1 False pton6_digit [of "n mod 16" "n div 16"]
      by (subst hex_text.simps) (simp del: of_nat_add of_nat_mult pton6_loop.simps)
  qed
qed

lemma hex_text_Cons: "\<exists>d ds. hex_text n = d # ds \<and> d \<noteq> 0x3A"
proof (induction n rule: hex_text.induct)
  case (1 n)
  then show ?case
  proof (cases "n < 16")
    case True
    then show ?thesis using xdigit_ok(3) [OF True] by (subst hex_text.simps) simp
  next
    case False
    then obtain d ds where "hex_text (n div 16) = d # ds" "d \<noteq> 0x3A" using 1 by blast
    then show ?thesis using False by (subst hex_text.simps) simp
  qed
qed

lemma put_val_group:
  assumes "2 \<le> k"
  shows "put_val (done @ replicate k 0) (int (length done)) (of_nat (unat g)) = Inr ((done @ group_bytes g) @ replicate (k - 2) 0)"
proof -
  obtain k' where k: "k = Suc (Suc k')" using assms by (metis Suc_le_D numeral_2_eq_2 Suc_le_mono)
  have u: "of_nat (unat g) = (ucast g :: u32)" by simp
  have m: "(0xFF :: u32) = mask 8" by (simp add: mask_eq_exp_minus_1)
  have b: "ucast (drop_bit 8 (ucast g) AND 0xFF :: u32) = (ucast (drop_bit 8 g) :: byte)"
    unfolding m by (rule bit_word_eqI) (auto simp: bit_simps)
  have c: "ucast (ucast g AND 0xFF :: u32) = (ucast g :: byte)"
    unfolding m by (rule bit_word_eqI) (auto simp: bit_simps)
  show ?thesis
    using wr_buf_at [of "int (length done)" "done" 0 "0 # replicate k' 0"] wr_buf_at [of "int (length done) + 1" "done @ [ucast (drop_bit 8 g)]" 0 "replicate k' 0"]
    by (simp add: put_val_def k u b c group_bytes_def)
qed

section \<open>Groups\<close>

definition colon_text :: "u16 list \<Rightarrow> byte list" where
  "colon_text gs = concat (map (\<lambda>g. group_text g @ [0x3A]) gs)"

definition groups_text :: "u16 list \<Rightarrow> byte list" where
  "groups_text gs = join [0x3A] (map group_text gs)"

definition groups_bytes :: "u16 list \<Rightarrow> byte list" where
  "groups_bytes gs = concat (map group_bytes gs)"

lemma groups_bytes_length [simp]: "length (groups_bytes gs) = 2 * length gs"
  by (induction gs) (simp_all add: groups_bytes_def group_bytes_def)

lemma colon_text_simps [simp]: "colon_text [] = []" "colon_text (g # gs) = group_text g @ 0x3A # colon_text gs"
  by (simp_all add: colon_text_def)

lemma groups_bytes_simps [simp]: "groups_bytes [] = []" "groups_bytes (gs @ [g]) = groups_bytes gs @ group_bytes g"
  "groups_bytes (g # gs) = group_bytes g @ groups_bytes gs"
  by (simp_all add: groups_bytes_def)

lemma groups_text_snoc: "groups_text (gs @ [g]) = colon_text gs @ group_text g"
proof (induction gs)
  case (Cons a gs)
  then show ?case by (simp add: groups_text_def join_Cons)
qed (simp add: groups_text_def)

lemma group_le: "unat (g :: u16) \<le> 0xFFFF"
  using unsigned_less [of g, where 'a = nat] by simp

lemma pton6_group:
  assumes "2 \<le> k" "length done + k = 16"
  shows "pton6_loop junk (group_text g @ 0x3A # rest) ct (done @ replicate k 0) (int (length done)) cp saw 0
    = pton6_loop junk rest rest ((done @ group_bytes g) @ replicate (k - 2) 0) (int (length done) + 2) cp False 0"
  using assms put_val_group [OF assms(1), of "done" g]
  by (simp add: group_text_def pton6_hex [OF group_le] xdigit_colon)

lemma pton6_groups:
  assumes "2 * length gs \<le> k" "length done + k = 16"
  shows "\<exists>ct'. pton6_loop junk (colon_text gs @ rest) ct (done @ replicate k 0) (int (length done)) cp False 0
    = pton6_loop junk rest ct' ((done @ groups_bytes gs) @ replicate (k - 2 * length gs) 0) (int (length (done @ groups_bytes gs))) cp False 0"
  using assms
proof (induction gs arbitrary: "done" k ct)
  case (Cons g gs)
  have k: "2 \<le> k" "2 * length gs \<le> k - 2" "length (done @ group_bytes g) + (k - 2) = 16"
    using Cons.prems by (simp_all add: group_bytes_def)
  from Cons.IH [OF k(2,3)] pton6_group [OF k(1) Cons.prems(2)] show ?case
    by (simp add: group_bytes_def algebra_simps del: pton6_loop.simps)
qed (auto simp: group_bytes_def)

text \<open>The rest of the text up to its end, and the last group that is put behind the loop.\<close>

definition put_last :: "(byte list \<times> int \<times> int option \<times> bool \<times> u32) \<Rightarrow> (byte list \<times> int) option res" where
  "put_last = (\<lambda>(tmp, tp, colonp, saw_xdigit, val).
     if \<not> saw_xdigit then Inr (Some (tmp, tp))
     else if tp + 2 > 16 then Inr None
     else rmap (\<lambda>t. Some (t, tp + 2)) (put_val tmp tp val))"

lemma pton6_tail:
  assumes "2 * length gs \<le> k" "length done + k = 16"
  shows "\<exists>t p w v. pton6_loop junk (groups_text gs @ 0 # z) ct (done @ replicate k 0) (int (length done)) cp False 0 = Inr (Some (t, p, cp, w, v))
    \<and> put_last (t, p, cp, w, v) = Inr (Some ((done @ groups_bytes gs) @ replicate (k - 2 * length gs) 0, int (length (done @ groups_bytes gs))))"
proof (cases gs rule: rev_cases)
  case Nil
  then show ?thesis by (auto simp add: groups_text_def put_last_def)
next
  case (snoc hs g)
  let ?d = "done @ groups_bytes hs" and ?k = "k - 2 * length hs"
  have k: "2 \<le> ?k" "2 * length hs \<le> k" "length ?d + ?k = 16" using assms snoc by auto
  obtain ct' where "pton6_loop junk (colon_text hs @ (group_text g @ 0 # z)) ct (done @ replicate k 0) (int (length done)) cp False 0
      = pton6_loop junk (group_text g @ 0 # z) ct' (?d @ replicate ?k 0) (int (length ?d)) cp False 0"
    using pton6_groups [OF k(2) assms(2), of junk "group_text g @ 0 # z" ct cp] by auto
  also have "\<dots> = Inr (Some (?d @ replicate ?k 0, int (length ?d), cp, True, of_nat (unat g)))"
    unfolding group_text_def pton6_hex [OF group_le] by simp
  finally have run: "pton6_loop junk (groups_text gs @ 0 # z) ct (done @ replicate k 0) (int (length done)) cp False 0
      = Inr (Some (?d @ replicate ?k 0, int (length ?d), cp, True, of_nat (unat g)))"
    by (simp add: snoc groups_text_snoc)
  have "\<not> int (length ?d) + 2 > 16" using k by simp
  then have "put_last (?d @ replicate ?k 0, int (length ?d), cp, True, of_nat (unat g))
      = Inr (Some ((?d @ group_bytes g) @ replicate (?k - 2) 0, int (length ?d) + 2))"
    using put_val_group [OF k(1), of ?d g] by (simp add: put_last_def)
  then show ?thesis using run snoc by (auto simp add: group_bytes_def algebra_simps)
qed

lemma pton6_finish_put_last:
  "put_last (t, p, c, w, v) = Inr (Some (t1, p1)) \<Longrightarrow> pton6_finish dst off (t, p, c, w, v)
   = rbind (case c of None \<Rightarrow> Inr (t1, p1) | Some x \<Rightarrow> rmap (\<lambda>t. (t, 16)) (pton6_shift 1 (nat (p1 - x)) x t1))
       (\<lambda>(tmp2, tp2). if tp2 \<noteq> 16 then Inr (0, dst) else rmap (Pair 1) (wr_bytes dst off tmp2))"
  by (simp add: pton6_finish_def put_last_def)

section \<open>The shift\<close>

lemma pton6_shift_moves:
  assumes "i = Suc (length S)" "n = length R + length S" "length L + n + Suc k = 16"
  shows "pton6_shift i n (int (length L)) (L @ R @ replicate (Suc k) 0 @ S) = Inr (L @ replicate (Suc k) 0 @ R @ S)"
  using assms
proof (induction R arbitrary: S i rule: rev_induct)
  case Nil
  then show ?case by (subst pton6_shift.simps) simp
next
  case (snoc x R)
  let ?s = "int (length L) + int n - int i"
  have s: "?s = int (length (L @ R))" and i: "i \<le> n" "16 - int i = int (length (L @ R @ x # replicate k 0))"
    using snoc.prems by auto
  have rep: "replicate (Suc k) (0 :: byte) = replicate k 0 @ [0]" by (simp add: replicate_append_same)
  have rd: "rd_buf (L @ (R @ [x]) @ replicate (Suc k) 0 @ S) ?s = Inr x"
    unfolding s using rd_buf_at [of _ "L @ R" x "replicate (Suc k) 0 @ S"] by simp
  have w1: "wr_buf (L @ (R @ [x]) @ replicate (Suc k) 0 @ S) (16 - int i) x = Inr (L @ R @ x # replicate k 0 @ x # S)"
    unfolding i(2) rep using wr_buf_at [of _ "L @ R @ x # replicate k 0" 0 S x] by simp
  have w2: "wr_buf (L @ R @ x # replicate k 0 @ x # S) ?s 0 = Inr (L @ R @ replicate (Suc k) 0 @ x # S)"
    unfolding s using wr_buf_at [of _ "L @ R" x "replicate k 0 @ x # S" 0] by simp
  have "pton6_shift (Suc i) n (int (length L)) (L @ R @ replicate (Suc k) 0 @ x # S) = Inr (L @ replicate (Suc k) 0 @ R @ x # S)"
    using snoc.IH [of "Suc i" "x # S"] snoc.prems by simp
  then show ?case using i(1) rd w1 w2 by (subst pton6_shift.simps) simp
qed

text \<open>Without a gap every byte is moved onto itself and then cleared.\<close>

lemma pton6_shift_clears:
  assumes "i = Suc m" "n = length R + m" "length L + n = 16"
  shows "pton6_shift i n (int (length L)) (L @ R @ replicate m 0) = Inr (L @ replicate n 0)"
  using assms
proof (induction R arbitrary: m i rule: rev_induct)
  case Nil
  then show ?case by (subst pton6_shift.simps) simp
next
  case (snoc x R)
  let ?s = "int (length L) + int n - int i"
  have s: "?s = int (length (L @ R))" and i: "i \<le> n" "16 - int i = int (length (L @ R))" using snoc.prems by auto
  have rd: "rd_buf (L @ (R @ [x]) @ replicate m 0) ?s = Inr x"
    unfolding s using rd_buf_at [of _ "L @ R" x "replicate m 0"] by simp
  have w: "wr_buf (L @ (R @ [x]) @ replicate m 0) (int (length (L @ R))) b = Inr (L @ R @ b # replicate m 0)" for b
    using wr_buf_at [of _ "L @ R" x "replicate m 0" b] by simp
  have w2: "wr_buf (L @ R @ x # replicate m 0) ?s 0 = Inr (L @ R @ replicate (Suc m) 0)"
    unfolding s using wr_buf_at [of _ "L @ R" x "replicate m 0" 0] by simp
  have "pton6_shift (Suc i) n (int (length L)) (L @ R @ replicate (Suc m) 0) = Inr (L @ replicate n 0)"
    using snoc.IH [of "Suc i" "Suc m"] snoc.prems by simp
  then show ?case using i rd w w2 by (subst pton6_shift.simps) simp
qed

section \<open>Whole addresses\<close>

lemma groups_text_colon: "gs \<noteq> [] \<Longrightarrow> groups_text gs @ [0x3A] = colon_text gs"
  by (cases gs rule: rev_cases) (auto simp: groups_text_snoc colon_text_def)

lemma text_start:
  assumes "gs \<noteq> []"
  shows "\<exists>d ds. groups_text gs @ rest = d # ds \<and> d \<noteq> 0x3A"
proof -
  obtain g hs where gs: "gs = g # hs" using assms by (cases gs) auto
  obtain d ds where "group_text g = d # ds" "d \<noteq> 0x3A" using hex_text_Cons [of "unat g"] by (auto simp: group_text_def)
  then show ?thesis by (cases hs) (auto simp: gs groups_text_def)
qed

lemma inet_pton6_plain:
  "src = d # ds \<Longrightarrow> d \<noteq> 0x3A \<Longrightarrow> inet_pton6 junk src dst off =
   rbind (pton6_loop junk src src (replicate 16 0) 0 None False 0)
     (\<lambda>r. case r of None \<Rightarrow> Inr (0, dst) | Some x \<Rightarrow> pton6_finish dst off x)"
  by (simp add: inet_pton6_def rd_buf_def del: pton6_loop.simps)

lemma inet_pton6_groups:
  assumes "length gs = 8"
  shows "inet_pton6 junk (groups_text gs @ 0 # z) dst off = rmap (Pair 1) (wr_bytes dst off (groups_bytes gs))"
proof -
  let ?src = "groups_text gs @ 0 # z"
  obtain d ds where d: "?src = d # ds" "d \<noteq> 0x3A" using text_start [of gs "0 # z"] assms by fastforce
  obtain t p w v where r: "pton6_loop junk ?src ?src (replicate 16 0) 0 None False 0 = Inr (Some (t, p, None, w, v))"
    "put_last (t, p, None, w, v) = Inr (Some (groups_bytes gs, 16))"
    using pton6_tail [of gs 16 "[]" junk z ?src None] assms by auto
  show ?thesis unfolding inet_pton6_plain [OF d] r(1) using pton6_finish_put_last [OF r(2)] by simp
qed

text \<open>The address with a double colon between the groups \<open>ls\<close> and \<open>rs\<close>.\<close>

definition gap_text :: "u16 list \<Rightarrow> u16 list \<Rightarrow> byte list" where
  "gap_text ls rs = groups_text ls @ [0x3A, 0x3A] @ groups_text rs"

definition gap_bytes :: "u16 list \<Rightarrow> u16 list \<Rightarrow> byte list" where
  "gap_bytes ls rs = groups_bytes ls @ replicate (16 - 2 * (length ls + length rs)) 0 @ groups_bytes rs"

text \<open>In the first case a leading colon was skipped, so the loop sees the same text.\<close>

lemma inet_pton6_gap_start:
  assumes "src = gap_text ls rs @ 0 # z" "s = colon_text ls @ 0x3A # groups_text rs @ 0 # z"
  shows "inet_pton6 junk src dst off = rbind (pton6_loop junk s s (replicate 16 0) 0 None False 0)
     (\<lambda>r. case r of None \<Rightarrow> Inr (0, dst) | Some x \<Rightarrow> pton6_finish dst off x)"
proof (cases "ls = []")
  case True
  then show ?thesis using assms
    by (simp add: gap_text_def groups_text_def inet_pton6_def rd_buf_def del: pton6_loop.simps)
next
  case False
  have s: "src = s" using groups_text_colon [OF False] assms by (simp add: gap_text_def)
  obtain d ds where "src = d # ds" "d \<noteq> 0x3A"
    using text_start [OF False, of "[0x3A, 0x3A] @ groups_text rs @ 0 # z"] assms(1) by (auto simp: gap_text_def)
  from inet_pton6_plain [OF this] show ?thesis by (simp add: s)
qed

lemma inet_pton6_gap_run:
  assumes "length ls + length rs \<le> 8" "k = 16 - 2 * (length ls + length rs)"
  shows "inet_pton6 junk (gap_text ls rs @ 0 # z) dst off
    = rbind (pton6_shift 1 (2 * length rs) (2 * int (length ls)) (groups_bytes ls @ groups_bytes rs @ replicate k 0))
        (\<lambda>t. rmap (Pair 1) (wr_bytes dst off t))"
proof -
  let ?s = "colon_text ls @ 0x3A # groups_text rs @ 0 # z" and ?k = "16 - 2 * length ls"
  let ?L = "groups_bytes ls"
  have len: "2 * length ls \<le> 16" "2 * length rs \<le> ?k" "length ?L + ?k = 16" "?k - 2 * length rs = k" using assms by auto
  obtain ct where "pton6_loop junk ?s ?s (replicate 16 0) 0 None False 0
      = pton6_loop junk (0x3A # groups_text rs @ 0 # z) ct (?L @ replicate ?k 0) (int (length ?L)) None False 0"
    using pton6_groups [OF len(1), of "[]" junk "0x3A # groups_text rs @ 0 # z" ?s None] by (auto simp del: pton6_loop.simps)
  also have "\<dots> = pton6_loop junk (groups_text rs @ 0 # z) (groups_text rs @ 0 # z) (?L @ replicate ?k 0) (int (length ?L)) (Some (int (length ?L))) False 0"
    by (simp add: xdigit_colon)
  finally have run: "pton6_loop junk ?s ?s (replicate 16 0) 0 None False 0 = \<dots>" .
  obtain t p w v where r: "pton6_loop junk ?s ?s (replicate 16 0) 0 None False 0 = Inr (Some (t, p, Some (int (length ?L)), w, v))"
    "put_last (t, p, Some (int (length ?L)), w, v) = Inr (Some ((?L @ groups_bytes rs) @ replicate k 0, int (length (?L @ groups_bytes rs))))"
    using pton6_tail [OF len(2,3), of junk z "groups_text rs @ 0 # z" "Some (int (length ?L))"] run len(4) by auto
  show ?thesis unfolding inet_pton6_gap_start [OF refl refl] r(1)
    using pton6_finish_put_last [OF r(2), of dst off] by (simp add: rmap_rbind nat_mult_distrib)
qed

lemma inet_pton6_gap:
  assumes "length ls + length rs \<le> 7"
  shows "inet_pton6 junk (gap_text ls rs @ 0 # z) dst off = rmap (Pair 1) (wr_bytes dst off (gap_bytes ls rs))"
proof -
  let ?k = "16 - 2 * (length ls + length rs)"
  have k: "?k = Suc (?k - 1)" "length (groups_bytes ls) + 2 * length rs + Suc (?k - 1) = 16" using assms by auto
  have "pton6_shift 1 (2 * length rs) (2 * int (length ls)) (groups_bytes ls @ groups_bytes rs @ replicate ?k 0) = Inr (gap_bytes ls rs)"
    using pton6_shift_moves [of 1 "[]" "2 * length rs" "groups_bytes rs" "groups_bytes ls" "?k - 1"] k by (simp add: gap_bytes_def)
  then show ?thesis using inet_pton6_gap_run [of ls rs ?k] assms by simp
qed

lemma inet_pton6_full_gap:
  assumes "length ls + length rs = 8"
  shows "inet_pton6 junk (gap_text ls rs @ 0 # z) dst off = rmap (Pair 1) (wr_bytes dst off (groups_bytes ls @ replicate (2 * length rs) 0))"
proof -
  have "pton6_shift 1 (2 * length rs) (2 * int (length ls)) (groups_bytes ls @ groups_bytes rs) = Inr (groups_bytes ls @ replicate (2 * length rs) 0)"
    using pton6_shift_clears [of 1 0 "2 * length rs" "groups_bytes rs" "groups_bytes ls"] assms by simp
  then show ?thesis using inet_pton6_gap_run [of ls rs 0] assms by simp
qed

end
