(* ===== verification/M_Sock_Proofs.thy ===== *)
theory M_Sock_Proofs
  imports M_Sock M_Addr_Text
begin

text \<open>
  The table of sockets as a set of descriptors: every operation of \<open>lib/mbtk_sock.c\<close> keeps the
  table in step with the descriptors that are open, so nothing leaks and nothing is closed twice.
\<close>

section \<open>The loops\<close>

lemma free_index_le: "free_index socks \<le> length socks"
  by (induction socks) auto

lemma free_index_free: "free_index socks < length socks \<Longrightarrow> ms_fd (socks ! free_index socks) \<le> 0"
  by (induction socks) auto

lemma free_index_full: "free_index socks = length socks \<longleftrightarrow> (\<forall>s \<in> set socks. 0 < ms_fd s)"
  by (induction socks) auto

lemma fd_index_le: "fd_index fd socks \<le> length socks"
  by (induction socks) auto

lemma fd_index_found: "fd_index fd socks < length socks \<Longrightarrow> ms_fd (socks ! fd_index fd socks) = fd"
  by (induction socks) auto

lemma fd_index_none: "fd_index fd socks = length socks \<longleftrightarrow> fd \<notin> ms_fd ` set socks"
  by (induction socks) auto

section \<open>The descriptors of the table\<close>

definition table_fds :: "sock_table \<Rightarrow> int set" where
  "table_fds st = {fd \<in> ms_fd ` set (mbtk_socks st). 0 < fd}"

definition table_ok :: "sock_table \<Rightarrow> bool" where
  "table_ok st \<longleftrightarrow> length (mbtk_socks st) = MBTK_SOCK_NUM_MAX
     \<and> (\<forall>i < MBTK_SOCK_NUM_MAX. \<forall>j < MBTK_SOCK_NUM_MAX. i \<noteq> j \<longrightarrow> 0 < ms_fd (mbtk_socks st ! i) \<longrightarrow>
          ms_fd (mbtk_socks st ! i) \<noteq> ms_fd (mbtk_socks st ! j))
     \<and> {fd \<in> open_fds (st_sys_world st). 0 < fd} = table_fds st"

lemma table_fds_nth: "fd \<in> table_fds st \<longleftrightarrow> 0 < fd \<and> (\<exists>i < length (mbtk_socks st). ms_fd (mbtk_socks st ! i) = fd)"
  by (auto simp: table_fds_def in_set_conv_nth image_iff) (blast intro: nth_mem)

lemma table_ok_0: "table_ok sock_table0"
  by (auto simp: table_ok_def sock_table0_def table_fds_def ms_zero_def)

text \<open>One entry changes from the descriptor \<open>old\<close> to \<open>new\<close>, and the open descriptors likewise.\<close>

lemma table_ok_update:
  assumes ok: "table_ok st" and i: "i < MBTK_SOCK_NUM_MAX" and s: "ms_fd s = new"
    and fresh: "0 < new \<Longrightarrow> new \<notin> table_fds st \<or> new = ms_fd (mbtk_socks st ! i)"
    and w: "{fd \<in> open_fds w. 0 < fd} = table_fds st - {ms_fd (mbtk_socks st ! i)} \<union> {fd. fd = new \<and> 0 < fd}"
    and st': "mbtk_socks st' = (mbtk_socks st)[i := s]" "st_sys_world st' = w"
  shows "table_ok st'" "table_fds st' = table_fds st - {ms_fd (mbtk_socks st ! i)} \<union> {fd. fd = new \<and> 0 < fd}"
proof -
  let ?S = "mbtk_socks st"
  have len: "length ?S = MBTK_SOCK_NUM_MAX" and dist: "\<And>j k. j < MBTK_SOCK_NUM_MAX \<Longrightarrow> k < MBTK_SOCK_NUM_MAX \<Longrightarrow> j \<noteq> k \<Longrightarrow>
      0 < ms_fd (?S ! j) \<Longrightarrow> ms_fd (?S ! j) \<noteq> ms_fd (?S ! k)"
    using ok by (auto simp: table_ok_def)
  have fd': "ms_fd (mbtk_socks st' ! j) = (if j = i then new else ms_fd (?S ! j))" if "j < MBTK_SOCK_NUM_MAX" for j
    using that s st'(1) len by (simp add: nth_list_update)
  show fds: "table_fds st' = table_fds st - {ms_fd (?S ! i)} \<union> {fd. fd = new \<and> 0 < fd}"
  proof (intro set_eqI iffI)
    fix fd assume "fd \<in> table_fds st'"
    then obtain j where j: "0 < fd" "j < MBTK_SOCK_NUM_MAX" "ms_fd (mbtk_socks st' ! j) = fd"
      using st'(1) len by (auto simp: table_fds_nth)
    then show "fd \<in> table_fds st - {ms_fd (?S ! i)} \<union> {fd. fd = new \<and> 0 < fd}"
      using fd' [OF j(2)] dist [OF j(2) i] len by (cases "j = i") (auto simp: table_fds_nth)
  next
    fix fd assume "fd \<in> table_fds st - {ms_fd (?S ! i)} \<union> {fd. fd = new \<and> 0 < fd}"
    then consider j where "0 < fd" "j < MBTK_SOCK_NUM_MAX" "ms_fd (?S ! j) = fd" "j \<noteq> i" | "fd = new" "0 < fd"
      using len by (auto simp: table_fds_nth)
    then show "fd \<in> table_fds st'"
    proof cases
      case 1
      then show ?thesis using fd' [OF 1(2)] st'(1) len by (auto simp: table_fds_nth)
    next
      case 2
      then show ?thesis using fd' [OF i] i st'(1) len by (auto simp: table_fds_nth)
    qed
  qed
  have new: "ms_fd (?S ! j) \<noteq> new" if "0 < new" "j < MBTK_SOCK_NUM_MAX" "j \<noteq> i" for j
  proof
    assume eq: "ms_fd (?S ! j) = new"
    then have "new \<in> table_fds st" using that len by (auto simp: table_fds_nth)
    then have "new = ms_fd (?S ! i)" using fresh [OF that(1)] by blast
    then show False using dist [OF that(2) i that(3)] eq that(1) by simp
  qed
  have "ms_fd (mbtk_socks st' ! j) \<noteq> ms_fd (mbtk_socks st' ! k)"
    if "j < MBTK_SOCK_NUM_MAX" "k < MBTK_SOCK_NUM_MAX" "j \<noteq> k" "0 < ms_fd (mbtk_socks st' ! j)" for j k
    using that fd' [OF that(1)] fd' [OF that(2)] new [OF _ that(1)] new [OF _ that(2)] dist [OF that(1,2,3)]
    by (auto split: if_splits)
  then show "table_ok st'" using len st' w fds by (auto simp: table_ok_def)
qed

lemma table_ok_world:
  assumes "table_ok st" "open_fds w = open_fds (st_sys_world st)"
  shows "table_ok (st\<lparr>st_sys_world := w\<rparr>)" "table_fds (st\<lparr>st_sys_world := w\<rparr>) = table_fds st"
  using assms by (simp_all add: table_ok_def table_fds_def)

section \<open>The operations\<close>

lemma fail_with_close_table:
  assumes ok: "table_ok st0" and i: "i < MBTK_SOCK_NUM_MAX"
    and w: "open_fds w = open_fds (st_sys_world st0)"
    and r: "fail_with_close e i (mbtk_socks st0) ep w = (r, st')"
  shows "r = - 1 \<and> table_ok st' \<and> table_fds st' = table_fds st0 - {ms_fd (mbtk_socks st0 ! i)}"
proof -
  have st': "r = - 1" "mbtk_socks st' = (mbtk_socks st0)[i := ms_zero]" "st_sys_world st' = snd (sys e (SysClose (ms_fd (mbtk_socks st0 ! i))) w)"
    using r by (auto simp: fail_with_close_def)
  have o: "{fd \<in> open_fds (st_sys_world st'). 0 < fd} = table_fds st0 - {ms_fd (mbtk_socks st0 ! i)} \<union> {fd. fd = 0 \<and> 0 < fd}"
    using ok w by (auto simp: st'(3) sys_def table_ok_def)
  have zero: "ms_fd ms_zero = 0" by (simp add: ms_zero_def)
  show ?thesis using table_ok_update [OF ok i zero _ o st'(2) refl] st'(1) by auto
qed

lemma mbtk_sock_close_table:
  assumes ok: "table_ok st" and r: "mbtk_sock_close e fd st = (r, st')"
  shows "table_ok st' \<and> (if fd \<in> table_fds st then r = 0 \<and> table_fds st' = table_fds st - {fd} else r = - 1 \<and> st' = st)"
proof (cases "fd \<in> table_fds st")
  case True
  let ?i = "fd_index fd (mbtk_socks st)"
  have len: "length (mbtk_socks st) = MBTK_SOCK_NUM_MAX" using ok by (simp add: table_ok_def)
  have "?i \<noteq> length (mbtk_socks st)" and pos: "0 < fd" using True fd_index_none by (auto simp: table_fds_def)
  then have i: "?i < MBTK_SOCK_NUM_MAX" using fd_index_le [of fd "mbtk_socks st"] len by simp
  have fd: "ms_fd (mbtk_socks st ! ?i) = fd" using fd_index_found [of fd "mbtk_socks st"] i len by simp
  have "r = 0" "fail_with_close e ?i (mbtk_socks st) (st_epoll_fd st) (st_sys_world st) = (- 1, st')"
    using r pos i by (auto simp: mbtk_sock_close_def fail_with_close_def Let_def)
  with fail_with_close_table [OF ok i refl this(2)] fd pos True show ?thesis by simp
next
  case False
  then have "fd \<le> 0 \<or> fd_index fd (mbtk_socks st) = MBTK_SOCK_NUM_MAX"
    using fd_index_none [of fd "mbtk_socks st"] ok by (auto simp: table_fds_def table_ok_def)
  then show ?thesis using r False ok by (auto simp: mbtk_sock_close_def Let_def)
qed

lemma conn_async_fds: "conn_async e fd port w = (b, w') \<Longrightarrow> open_fds w' = open_fds w"
  by (auto simp: conn_async_def sys_def Let_def split: if_splits)

lemma conn_sync_fds: "conn_sync e fd port w = (b, w') \<Longrightarrow> open_fds w' = open_fds w"
  by (auto simp: conn_sync_def sys_def Let_def split: if_splits)

lemma mbtk_sock_conn_table:
  assumes ok: "table_ok st" and r: "mbtk_sock_conn e fd host port st = (r, st')"
  shows "table_ok st' \<and> (r = 0 \<and> fd \<in> table_fds st \<and> table_fds st' = table_fds st \<or> r = - 1 \<and> table_fds st' = table_fds st - {fd})"
proof (cases "fd \<in> table_fds st")
  case True
  let ?i = "fd_index fd (mbtk_socks st)"
  have len: "length (mbtk_socks st) = MBTK_SOCK_NUM_MAX" using ok by (simp add: table_ok_def)
  have "?i \<noteq> length (mbtk_socks st)" and pos: "0 < fd" using True fd_index_none by (auto simp: table_fds_def)
  then have i: "?i < MBTK_SOCK_NUM_MAX" using fd_index_le [of fd "mbtk_socks st"] len by simp
  have fd: "ms_fd (mbtk_socks st ! ?i) = fd" using fd_index_found [of fd "mbtk_socks st"] i len by simp
  let ?c = "SysResolve host"
  let ?w1 = "(?c, answer e (st_sys_world st) ?c) # st_sys_world st"
  let ?s = "mbtk_socks st ! ?i"
  obtain b w2 where c: "(if \<not> ms_is_sync ?s then conn_async e (ms_fd ?s) port ?w1 else conn_sync e (ms_fd ?s) port ?w1) = (b, w2)" by fastforce
  have w2: "open_fds w2 = open_fds (st_sys_world st)"
    using c conn_async_fds [of e "ms_fd ?s" port ?w1] conn_sync_fds [of e "ms_fd ?s" port ?w1] by (auto split: if_splits)
  consider w where "open_fds w = open_fds (st_sys_world st)" "fail_with_close e ?i (mbtk_socks st) (st_epoll_fd st) w = (r, st')"
    | w where "r = 0" "open_fds w = open_fds (st_sys_world st)" "st' = st\<lparr>st_sys_world := w\<rparr>"
  proof (cases "answer e (st_sys_world st) ?c = 0")
    case True
    then have "fail_with_close e ?i (mbtk_socks st) (st_epoll_fd st) ?w1 = (r, st')"
      using r pos i by (simp add: mbtk_sock_conn_def sys_def Let_def)
    then show ?thesis using that(1) [of ?w1] by simp
  next
    case False
    show ?thesis
    proof (cases b)
      case True
      let ?w3 = "if \<not> ms_is_sync ?s then snd (sys e (SysEpollAdd (ms_fd ?s)) w2) else w2"
      have "r = 0 \<and> st' = st\<lparr>st_sys_world := ?w3\<rparr>"
        using True r pos i c False by (simp add: mbtk_sock_conn_def sys_def Let_def)
      moreover have "open_fds ?w3 = open_fds (st_sys_world st)" using w2 by (simp add: sys_def)
      ultimately show ?thesis using that(2) [of ?w3] by blast
    next
      case False
      then have "fail_with_close e ?i (mbtk_socks st) (st_epoll_fd st) w2 = (r, st')"
        using r pos i c \<open>answer e (st_sys_world st) ?c \<noteq> 0\<close> by (simp add: mbtk_sock_conn_def sys_def Let_def)
      then show ?thesis using that(1) w2 by simp
    qed
  qed
  then show ?thesis
  proof cases
    case 1
    with fail_with_close_table [OF ok i 1] fd pos show ?thesis by simp
  next
    case 2
    with table_ok_world [OF ok 2(2)] True show ?thesis by simp
  qed
next
  case False
  then have "fd \<le> 0 \<or> fd_index fd (mbtk_socks st) = MBTK_SOCK_NUM_MAX"
    using fd_index_none [of fd "mbtk_socks st"] ok by (auto simp: table_fds_def table_ok_def)
  then show ?thesis using r False ok by (auto simp: mbtk_sock_conn_def Let_def)
qed

lemma mbtk_sock_open_table:
  assumes os: "os_fresh e" and ok: "table_ok st" and r: "mbtk_sock_open e type ssl cb1 cb2 st = (r, st')"
  shows "table_ok st' \<and> (0 < r \<and> r \<notin> table_fds st \<and> table_fds st' = insert r (table_fds st) \<or> r \<le> 0 \<and> table_fds st' = table_fds st)"
proof (cases "free_index (mbtk_socks st) = MBTK_SOCK_NUM_MAX")
  case True
  then show ?thesis using r ok by (auto simp: mbtk_sock_open_def Let_def)
next
  case False
  let ?S = "mbtk_socks st" and ?i = "free_index (mbtk_socks st)"
  have len: "length ?S = MBTK_SOCK_NUM_MAX" using ok by (simp add: table_ok_def)
  then have i: "?i < MBTK_SOCK_NUM_MAX" using False free_index_le [of ?S] by simp
  then have free: "ms_fd (?S ! ?i) \<le> 0" using free_index_free [of ?S] len by simp
  let ?c = "SysSocket AF_INET (if type = MBTK_SOCK_TYPE_UDP then SOCK_DGRAM else SOCK_STREAM) 0"
  define fd where "fd = answer e (st_sys_world st) ?c"
  let ?w1 = "(?c, fd) # st_sys_world st"
  let ?s1 = "(?S ! ?i)\<lparr>ms_fd := fd, ms_type := type\<rparr>"
  have fresh: "fd \<notin> open_fds (st_sys_world st)" using os by (simp add: os_fresh_def fd_def)
  then have new: "0 < fd \<Longrightarrow> fd \<notin> table_fds st" using ok by (auto simp: table_ok_def)
  have o: "{x \<in> open_fds ?w1. 0 < x} = table_fds st - {ms_fd (?S ! ?i)} \<union> {x. x = fd \<and> 0 < x}"
    using ok free by (auto simp: table_ok_def table_fds_def split: if_splits)
  have upd: "table_ok t" "table_fds t = table_fds st \<union> {x. x = fd \<and> 0 < x}"
    if t: "mbtk_socks t = ?S[?i := s]" "ms_fd s = fd" "open_fds (st_sys_world t) = open_fds ?w1" for t s
  proof -
    have o': "{x \<in> open_fds (st_sys_world t). 0 < x} = table_fds st - {ms_fd (?S ! ?i)} \<union> {x. x = fd \<and> 0 < x}"
      using o t(3) by simp
    have "table_fds st - {ms_fd (?S ! ?i)} = table_fds st" using free by (auto simp: table_fds_def)
    then show "table_ok t" "table_fds t = table_fds st \<union> {x. x = fd \<and> 0 < x}"
      using table_ok_update [OF ok i t(2) _ o' t(1) refl] new by auto
  qed
  let ?s2 = "if cb1 \<noteq> None \<or> cb2 \<noteq> None
     then ?s1\<lparr>ms_is_sync := False, ms_is_ssl := ssl, ms_read_cb := cb2, ms_can_read_cb := cb1\<rparr>
     else ?s1\<lparr>ms_is_sync := True, ms_is_ssl := ssl\<rparr>"
  have fd2: "ms_fd ?s2 = fd" by simp
  let ?get = "SysFcntl fd F_GETFL 0"
  let ?w2 = "(?get, answer e ?w1 ?get) # ?w1"
  let ?flags = "answer e ?w1 ?get"
  let ?set = "SysFcntl fd F_SETFL (if ms_is_sync ?s2 then ?flags AND NOT O_NONBLOCK else ?flags OR O_NONBLOCK)"
  let ?w3 = "(?set, answer e ?w2 ?set) # ?w2"
  consider "fd < 0" "r = - 1" "st' = \<lparr>mbtk_socks = ?S[?i := ?s1], st_epoll_fd = st_epoll_fd st, st_sys_world = ?w1\<rparr>"
    | w where "\<not> fd < 0" "open_fds w = open_fds ?w1" "fail_with_close e ?i (?S[?i := ?s2]) (st_epoll_fd st) w = (r, st')"
    | "\<not> fd < 0" "r = fd" "st' = \<lparr>mbtk_socks = ?S[?i := ?s2], st_epoll_fd = st_epoll_fd st, st_sys_world = ?w3\<rparr>"
  proof (cases "fd < 0")
    case True
    then show ?thesis using that(1) r False by (simp add: mbtk_sock_open_def sys_def Let_def fd_def [symmetric])
  next
    case fd0: False
    note run = r [unfolded mbtk_sock_open_def sys_def Let_def split_conv fd_def [symmetric]]
    show ?thesis
    proof (cases "?flags < 0")
      case True
      then show ?thesis using that(2) [OF fd0, of ?w2] run False fd0 by simp
    next
      case get: False
      show ?thesis
      proof (cases "answer e ?w2 ?set < 0")
        case True
        then have "fail_with_close e ?i (?S[?i := ?s2]) (st_epoll_fd st) ?w3 = (r, st')" using run False fd0 get by simp
        then show ?thesis using that(2) [OF fd0, of ?w3] by simp
      next
        case set: False
        then have "(fd, \<lparr>mbtk_socks = ?S[?i := ?s2], st_epoll_fd = st_epoll_fd st, st_sys_world = ?w3\<rparr>) = (r, st')"
          using run False fd0 get by (simp del: prod.inject)
        then show ?thesis by (rule Pair_inject) (rule that(3) [OF fd0 sym sym])
      qed
    qed
  qed
  then show ?thesis
  proof cases
    case 1
    then show ?thesis using upd [of st' ?s1] by auto
  next
    case 2
    let ?t = "\<lparr>mbtk_socks = ?S[?i := ?s2], st_epoll_fd = st_epoll_fd st, st_sys_world = w\<rparr>"
    have t: "table_ok ?t" "table_fds ?t = table_fds st \<union> {x. x = fd \<and> 0 < x}" using upd [of ?t ?s2] fd2 2(2) by simp_all
    have nth: "ms_fd (mbtk_socks ?t ! ?i) = fd" using i len fd2 by simp
    have "r = - 1 \<and> table_ok st' \<and> table_fds st' = table_fds ?t - {fd}"
      using fail_with_close_table [OF t(1) i, of w e "st_epoll_fd st" r st'] nth 2(3) by simp
    then have res: "r = - 1 \<and> table_ok st' \<and> table_fds st' = table_fds st \<union> {x. x = fd \<and> 0 < x} - {fd}"
      unfolding t(2) .
    have "fd \<notin> table_fds st" using new by (cases "0 < fd") (auto simp: table_fds_def)
    then have eq: "table_fds st \<union> {x. x = fd \<and> 0 < x} - {fd} = table_fds st" by blast
    show ?thesis using res unfolding eq by simp
  next
    case 3
    have t: "table_ok st'" "table_fds st' = table_fds st \<union> {x. x = fd \<and> 0 < x}"
      using upd [OF _ fd2, of st'] by (simp_all add: 3(3))
    have "table_fds st \<union> {x. x = fd \<and> 0 < x} = (if 0 < fd then insert fd (table_fds st) else table_fds st)" by auto
    with t 3(2) new show ?thesis by (cases "0 < fd") simp_all
  qed
qed

section \<open>The interface\<close>

text \<open>A table of descriptors: opening may add one, closing removes exactly the one it is given
  and fails otherwise.  Nothing else about the table matters to its clients.\<close>

locale descriptor_table =
  fixes ok :: "'s \<Rightarrow> bool"
    and fds :: "'s \<Rightarrow> int set"
    and open_op :: "'a \<Rightarrow> 's \<Rightarrow> int \<times> 's"
    and close_op :: "int \<Rightarrow> 's \<Rightarrow> int \<times> 's"
  assumes open_law: "ok s \<Longrightarrow> open_op a s = (r, s') \<Longrightarrow>
      ok s' \<and> (0 < r \<and> r \<notin> fds s \<and> fds s' = insert r (fds s) \<or> r \<le> 0 \<and> fds s' = fds s)"
    and close_law: "ok s \<Longrightarrow> close_op fd s = (r, s') \<Longrightarrow>
      ok s' \<and> (if fd \<in> fds s then r = 0 \<and> fds s' = fds s - {fd} else r = - 1 \<and> s' = s)"
begin

lemma open_close:
  assumes "ok s" "open_op a s = (fd, s1)" "0 < fd" "close_op fd s1 = (r, s2)"
  shows "ok s2 \<and> r = 0 \<and> fds s2 = fds s"
proof -
  have s1: "ok s1" "fd \<notin> fds s" "fds s1 = insert fd (fds s)" using open_law [OF assms(1,2)] assms(3) by auto
  then show ?thesis using close_law [OF s1(1) assms(4)] by auto
qed

lemma close_twice:
  assumes "ok s" "close_op fd s = (r1, s1)" "close_op fd s1 = (r2, s2)"
  shows "r2 = - 1 \<and> s2 = s1"
proof -
  have s1: "ok s1" using close_law [OF assms(1,2)] by blast
  have "fd \<notin> fds s1" using close_law [OF assms(1,2)] by (auto split: if_splits)
  then show ?thesis using close_law [OF s1 assms(3)] by simp
qed

lemma open_twice:
  assumes "ok s" "open_op a s = (x, s1)" "0 < x" "open_op b s1 = (y, s2)" "0 < y"
  shows "x \<noteq> y"
proof -
  have s1: "ok s1" "fds s1 = insert x (fds s)" using open_law [OF assms(1,2)] assms(3) by auto
  then show ?thesis using open_law [OF s1(1) assms(4)] assms(5) by auto
qed

end

text \<open>The operations of the file under the assumption that \<open>socket\<close> gives out fresh descriptors.\<close>

definition open_with :: "os \<Rightarrow> mbtk_sock_type \<times> bool \<times> nat option \<times> nat option \<Rightarrow> sock_table \<Rightarrow> int \<times> sock_table" where
  "open_with e = (\<lambda>(type, ssl, cb1, cb2). mbtk_sock_open e type ssl cb1 cb2)"

lemma open_with_table:
  "os_fresh e \<and> table_ok st \<Longrightarrow> open_with e a st = (r, st') \<Longrightarrow> (os_fresh e \<and> table_ok st') \<and>
    (0 < r \<and> r \<notin> table_fds st \<and> table_fds st' = insert r (table_fds st) \<or> r \<le> 0 \<and> table_fds st' = table_fds st)"
  using mbtk_sock_open_table [of e st _ _ _ _ r st'] by (cases a) (simp add: open_with_def)

lemma close_table:
  "os_fresh e \<and> table_ok st \<Longrightarrow> mbtk_sock_close e fd st = (r, st') \<Longrightarrow> (os_fresh e \<and> table_ok st') \<and>
    (if fd \<in> table_fds st then r = 0 \<and> table_fds st' = table_fds st - {fd} else r = - 1 \<and> st' = st)"
  using mbtk_sock_close_table [of st e fd r st'] by simp

interpretation socks: descriptor_table "\<lambda>st. os_fresh e \<and> table_ok st" table_fds "open_with e" "mbtk_sock_close e" for e
  by unfold_locales (fact open_with_table, fact close_table)

section \<open>Runs\<close>

text \<open>The calls of a program with their results.\<close>

datatype table_event = EvOpen int | EvConn int int | EvClose int int

inductive table_run :: "os \<Rightarrow> sock_table \<Rightarrow> table_event list \<Rightarrow> sock_table \<Rightarrow> bool" for e st0 where
  run_start: "table_run e st0 [] st0"
| run_open: "table_run e st0 evs st \<Longrightarrow> mbtk_sock_open e type ssl cb1 cb2 st = (r, st') \<Longrightarrow>
    table_run e st0 (evs @ [EvOpen r]) st'"
| run_conn: "table_run e st0 evs st \<Longrightarrow> mbtk_sock_conn e fd host port st = (r, st') \<Longrightarrow>
    table_run e st0 (evs @ [EvConn fd r]) st'"
| run_close: "table_run e st0 evs st \<Longrightarrow> mbtk_sock_close e fd st = (r, st') \<Longrightarrow>
    table_run e st0 (evs @ [EvClose fd r]) st'"

inductive_cases table_run_start_cases: "table_run e st0 [] st"

text \<open>The set of descriptors that the caller may use, read off the results alone.\<close>

fun usable :: "table_event \<Rightarrow> int set \<Rightarrow> int set" where
  "usable (EvOpen r) fds = (if 0 < r then insert r fds else fds)"
| "usable (EvConn fd r) fds = (if r = 0 then fds else fds - {fd})"
| "usable (EvClose fd r) fds = fds - {fd}"

definition usable_after :: "table_event list \<Rightarrow> int set" where
  "usable_after evs = fold usable evs {}"

lemma usable_after_simps [simp]:
  "usable_after [] = {}" "usable_after (evs @ [ev]) = usable ev (usable_after evs)"
  by (simp_all add: usable_after_def)

text \<open>A result that the caller can rely on: a new descriptor is none of those in use, and a call
  on a descriptor succeeds only if it is in use.\<close>

fun sound_result :: "int set \<Rightarrow> table_event \<Rightarrow> bool" where
  "sound_result fds (EvOpen r) = (r \<notin> fds)"
| "sound_result fds (EvConn fd r) = (r = 0 \<and> fd \<in> fds \<or> r = - 1)"
| "sound_result fds (EvClose fd r) = (r = (if fd \<in> fds then 0 else - 1))"

lemma table_run_table:
  assumes "os_fresh e" "table_run e sock_table0 evs st"
  shows "table_ok st \<and> table_fds st = usable_after evs"
  using assms(2)
proof (induction rule: table_run.induct)
  case run_start
  then show ?case using table_ok_0 by (auto simp: sock_table0_def table_fds_def ms_zero_def)
next
  case (run_open evs st type ssl cb1 cb2 r st')
  then show ?case using mbtk_sock_open_table [OF assms(1), of st type ssl cb1 cb2 r st'] by (simp only: usable_after_simps usable.simps) auto
next
  case (run_conn evs st fd host port r st')
  then show ?case using mbtk_sock_conn_table [of st e fd host port r st'] by auto
next
  case (run_close evs st fd r st')
  then show ?case using mbtk_sock_close_table [of st e fd r st'] by (auto split: if_splits)
qed

lemma table_run_sound:
  assumes "os_fresh e" "table_run e sock_table0 evs st"
  shows "evs = pre @ ev # post \<Longrightarrow> sound_result (usable_after pre) ev"
  using assms(2)
proof (induction arbitrary: post rule: table_run.induct)
  case run_start
  then show ?case by simp
next
  case (run_open evs st type ssl cb1 cb2 r st')
  have t: "table_ok st \<and> table_fds st = usable_after evs" using table_run_table [OF assms(1) run_open.hyps(1)] .
  have "r \<notin> table_fds st"
    using mbtk_sock_open_table [OF assms(1) conjunct1 [OF t] run_open.hyps(2)] by (auto simp: table_fds_def)
  with run_open t show ?case by (cases post rule: rev_cases) auto
next
  case (run_conn evs st fd host port r st')
  have t: "table_ok st \<and> table_fds st = usable_after evs" using table_run_table [OF assms(1) run_conn.hyps(1)] .
  have "sound_result (table_fds st) (EvConn fd r)" using mbtk_sock_conn_table [OF _ run_conn.hyps(2)] t by auto
  with run_conn t show ?case by (cases post rule: rev_cases) auto
next
  case (run_close evs st fd r st')
  have t: "table_ok st \<and> table_fds st = usable_after evs" using table_run_table [OF assms(1) run_close.hyps(1)] .
  have "sound_result (table_fds st) (EvClose fd r)" using mbtk_sock_close_table [OF _ run_close.hyps(2)] t by (auto split: if_splits)
  with run_close t show ?case by (cases post rule: rev_cases) auto
qed

end
