(* ===== verification/Sock_Properties.thy ===== *)
theory Sock_Properties
  imports M_Sock_Proofs M_Stream Stanet_Properties
begin

text \<open>The properties of the socket library: addresses, streams, tables of sockets.\<close>

section \<open>Addresses\<close>

text \<open>C33: \<open>sock_inet_pton\<close> accepts exactly the dotted quads, four decimal numbers of any
  length up to 255 between dots, and stores their values; otherwise it returns 0 and leaves the
  destination alone.  What the array on the stack holds before does not matter.\<close>

theorem inet_pton4_decides:
  assumes "0 \<notin> set s" "length junk = 4" "0 \<le> off" "off + 4 \<le> int (length dst)"
  shows "sock_inet_pton junk AF_INET (s @ 0 # rest) dst off
    = Inr (case dotted_quad s of None \<Rightarrow> ((0, dst), False)
           | Some a \<Rightarrow> ((1, take (nat off) dst @ a @ drop (nat off + 4) dst), False))"
proof (cases "dotted_quad s")
  case None
  then show ?thesis using inet_pton4_quad [OF assms(1,2), of rest dst off] by (simp add: sock_inet_pton_def)
next
  case (Some a)
  then have "wr_bytes dst off a = Inr (take (nat off) dst @ a @ drop (nat off + 4) dst)"
    using wr_bytes_ok [OF assms(3), of a dst] assms(4) dotted_quad_length [OF Some] by simp
  then show ?thesis using Some inet_pton4_quad [OF assms(1,2), of rest dst off] by (simp add: sock_inet_pton_def)
qed

lemma quad_example: "dotted_quad (bytes_of ''192.168.1.224'') = Some [192, 168, 1, 224]"
  by (simp add: dotted_quad_def bytes_of_def pieces_char is_octet_def dec_val_from_def c_isdigit_def Let_def)

theorem inet_pton4_decides_witness:
  "sock_inet_pton [7, 7, 7, 7] AF_INET (bytes_of ''192.168.1.224'' @ [0]) [0, 0, 0, 0] 0 = Inr ((1, [192, 168, 1, 224]), False)
   \<and> sock_inet_pton [7, 7, 7, 7] AF_INET (bytes_of ''192.168.1'' @ [0]) [0, 0, 0, 0] 0 = Inr ((0, [0, 0, 0, 0]), False)"
  using inet_pton4_decides [of "bytes_of ''192.168.1.224''" "[7, 7, 7, 7]" 0 "[0, 0, 0, 0]" "[]"] quad_example
    inet_pton4_decides [of "bytes_of ''192.168.1''" "[7, 7, 7, 7]" 0 "[0, 0, 0, 0]" "[]"]
  by (simp add: dotted_quad_def bytes_of_def pieces_char Let_def)

text \<open>C34: Printing and parsing fit: the text that \<open>sock_ntop\<close> returns for an IPv4 address without
  port is read back as the same four bytes, and the usual texts of an IPv6 address, eight
  groups or groups around a double colon, are read as the bytes that the groups stand for.\<close>

theorem address_text_roundtrip:
  assumes "length junk = 4" "length a = 4" "length gs = 8" "length ls + length rs \<le> 7"
  shows "\<exists>text. sock_ntop ntop6 (SockIn a 0) 16 = Inr (Some text)
      \<and> sock_inet_pton junk AF_INET (text @ [0]) (replicate 4 0) 0 = Inr ((1, a), False)
      \<and> sock_inet_pton junk AF_INET6 (groups_text gs @ [0]) (replicate 16 0) 0 = Inr ((1, groups_bytes gs), False)
      \<and> sock_inet_pton junk AF_INET6 (gap_text ls rs @ [0]) (replicate 16 0) 0
          = Inr ((1, groups_bytes ls @ replicate (16 - 2 * (length ls + length rs)) 0 @ groups_bytes rs), False)"
proof -
  let ?text = "join [0x2E] (map (dec_nat \<circ> unat) a)"
  obtain a1 a2 a3 a4 where a: "a = [a1, a2, a3, a4]"
    using assms(2) by (auto simp: eval_nat_numeral length_Suc_conv)
  have byte: "length (dec_nat (unat b)) \<le> 3" for b :: byte
    using dec_nat_length [of "unat b" 3] unsigned_less [of b, where 'a = nat] by simp
  have "length ?text \<le> 15" using byte [of a1] byte [of a2] byte [of a3] byte [of a4] by (simp add: a)
  then have fits: "length ?text < 128" "int (length (?text @ [0])) \<le> int (length (replicate 128 (0 :: byte)))" by simp_all
  have "sock_ntop ntop6 (SockIn a 0) 16 = Inr (Some ?text)"
    using fits wr_bytes_ok [of 0 "?text @ [0]" "replicate 128 0"] by (simp add: sock_ntop_def inet_ntop4_def)
  moreover have nz: "0 \<notin> set ?text"
    using dec_nat_plain [of 0] by (auto simp: a c_isdigit_def)
  then have "sock_inet_pton junk AF_INET (?text @ [0]) (replicate 4 0) 0 = Inr ((1, a), False)"
    using inet_pton4_decides [OF nz assms(1), of 0 "replicate 4 0" "[]"] dotted_quad_text [OF assms(2)] by simp
  moreover have "sock_inet_pton junk AF_INET6 (groups_text gs @ [0]) (replicate 16 0) 0 = Inr ((1, groups_bytes gs), False)"
    using inet_pton6_groups [OF assms(3), of junk "[]" "replicate 16 0" 0] wr_bytes_ok [of 0 "groups_bytes gs" "replicate 16 0"] assms(3)
    by (simp add: sock_inet_pton_def AF_INET_def AF_INET6_def)
  moreover have "sock_inet_pton junk AF_INET6 (gap_text ls rs @ [0]) (replicate 16 0) 0 = Inr ((1, gap_bytes ls rs), False)"
  proof -
    have "length (gap_bytes ls rs) = 16" using assms(4) by (simp add: gap_bytes_def)
    then show ?thesis
      using inet_pton6_gap [OF assms(4), of junk "[]" "replicate 16 0" 0] wr_bytes_ok [of 0 "gap_bytes ls rs" "replicate 16 0"]
      by (simp add: sock_inet_pton_def AF_INET_def AF_INET6_def)
  qed
  ultimately show ?thesis unfolding gap_bytes_def by (intro exI [of _ ?text]) simp
qed

theorem address_text_roundtrip_witness:
  "\<exists>text. sock_ntop (\<lambda>_. []) (SockIn [10, 0, 0, 1] 0) 16 = Inr (Some text)
    \<and> sock_inet_pton [7, 7, 7, 7] AF_INET6 (gap_text [0xFE80] [1] @ [0]) (replicate 16 0) 0
        = Inr ((1, groups_bytes [0xFE80] @ replicate 12 0 @ groups_bytes [1]), False)"
  using address_text_roundtrip [of "[7, 7, 7, 7]" "[10, 0, 0, 1]" "replicate 8 0" "[0xFE80]" "[1]" "\<lambda>_. []"] by auto

text \<open>C35: The parsers stay inside their arrays: for every string that ends and every destination
  with room for the address they return 0 or 1, and with 0 the destination is as before.\<close>

theorem inet_pton_safe:
  assumes "0 \<in> set src" "length junk = 4" "af = AF_INET \<and> n = 4 \<or> af = AF_INET6 \<and> n = 16" "0 \<le> off" "off + n \<le> int (length dst)"
  shows "\<exists>r dst'. sock_inet_pton junk af src dst off = Inr ((r, dst'), False) \<and> length dst' = length dst
    \<and> r \<in> {0, 1} \<and> (r = 0 \<longrightarrow> dst' = dst)"
proof -
  have "AF_INET \<noteq> AF_INET6" by (simp add: AF_INET_def AF_INET6_def)
  then show ?thesis
    using inet_pton4_safe [OF assms(1,2,4), of dst] inet_pton6_safe [OF assms(1,2,4), of dst] assms(3,5)
    by (auto simp: sock_inet_pton_def)
qed

theorem inet_pton_safe_witness:
  "\<exists>r dst'. sock_inet_pton [7, 7, 7, 7] AF_INET6 (bytes_of ''1:::2'' @ [0]) (replicate 16 0) 0 = Inr ((r, dst'), False) \<and> length dst' = 16"
  using inet_pton_safe [of "bytes_of ''1:::2'' @ [0]" "[7, 7, 7, 7]" AF_INET6 16 0 "replicate 16 0"] by auto

text \<open>The double colon in an address that is complete already is not ignored: what stands
  behind it reads as zero.\<close>

theorem full_gap_clears:
  assumes "length ls + length rs = 8"
  shows "inet_pton6 junk (gap_text ls rs @ [0]) (replicate 16 0) 0 = Inr (1, groups_bytes ls @ replicate (2 * length rs) 0)"
  using inet_pton6_full_gap [OF assms, of junk "[]" "replicate 16 0" 0]
    wr_bytes_ok [of 0 "groups_bytes ls @ replicate (2 * length rs) 0" "replicate 16 0"] assms by simp

text \<open>With the family \<open>AF_INET6\<close> and the text of an IPv6 address, \<open>sockaddr_init\<close> and so
  \<open>sock_cli_open\<close> write the 16 bytes of the address into a \<open>struct sockaddr_in\<close>, which has room
  for four and twelve bytes of padding behind them: the last four are out of bounds.\<close>

theorem sockaddr_init_overflows:
  assumes "length gs = 8" "0 < port" "\<not> answer e w (SysSocket AF_INET6 type 0) < 0"
  shows "sockaddr_init junk addr (Some (groups_text gs @ [0])) port AF_INET6 = Inl OutOfBounds
    \<and> sock_cli_open e junk AF_INET6 type (Some (groups_text gs @ [0])) port w = Inl OutOfBounds"
proof -
  have "AF_INET6 \<noteq> AF_INET" by (simp add: AF_INET_def AF_INET6_def)
  moreover have "wr_bytes (sockaddr_in AF_INET6 port) 4 (groups_bytes gs) = Inl OutOfBounds"
    using assms(1) by (intro wr_bytes_oob) (simp_all add: sockaddr_in_def)
  ultimately have init: "sockaddr_init junk a (Some (groups_text gs @ [0])) port AF_INET6 = Inl OutOfBounds" for a
    using inet_pton6_groups [OF assms(1), of junk "[]" "sockaddr_in AF_INET6 port" 4] assms(2)
    by (simp add: sockaddr_init_def sock_inet_pton_def)
  then show ?thesis using assms(3) by (simp add: sock_cli_open_def sys_def)
qed

theorem sockaddr_init_overflows_witness:
  "sock_cli_open demo_os [7, 7, 7, 7] AF_INET6 SOCK_STREAM (Some (groups_text (replicate 8 1) @ [0])) 80 [] = Inl OutOfBounds"
  using sockaddr_init_overflows [of "replicate 8 1" 80 demo_os "[]" SOCK_STREAM "[7, 7, 7, 7]" None] by (simp add: demo_os_def)

section \<open>Streams\<close>

lemma demo_os_fresh: "os_fresh demo_os" and demo_os_ok: "os_ok demo_os"
  using demo_os_good(1) by (simp_all add: os_good_def)

text \<open>A system that delivers a stream in pieces of at most \<open>m\<close> bytes and interrupts the first
  read, for the witnesses.\<close>

definition piece_os :: "byte list \<Rightarrow> nat \<Rightarrow> os" where
  "piece_os s m = demo_os\<lparr>answer := (\<lambda>w c. case c of
       SysRead fd n \<Rightarrow> if w = [] then - 1 else int (min (min n m) (length (drop (consumed fd w) s)))
     | _ \<Rightarrow> 0),
     errno_of := (\<lambda>_ _. EINTR),
     data_of := (\<lambda>w c. case c of
       SysRead fd n \<Rightarrow> if w = [] then [] else take (min (min n m) (length (drop (consumed fd w) s))) (drop (consumed fd w) s)
     | _ \<Rightarrow> [])\<rparr>"

lemma piece_os_delivers: "0 < m \<Longrightarrow> delivers (piece_os s m) fd s"
  by (auto simp: delivers_def piece_os_def Let_def EINTR_def)



text \<open>The buffer is shared by all descriptors: a whole line that is left in it from one
  descriptor is what \<open>sock_readline\<close> returns for any other, without a system call.\<close>

theorem readline_mixes_descriptors:
  assumes "rb_ok st" "unread st = l @ 0x0A # later" "0x0A \<notin> set l" "length l + 2 \<le> maxlen" "length l + 2 \<le> length dest"
  shows "\<forall>fd. \<exists>st'. sock_readline e fd dest maxlen st w
    = Inr (int (length l) + 1, l @ 0x0A # 0 # drop (length l + 2) dest, st', w) \<and> unread st' = later"
  using sock_readline_buffered [OF assms] by blast

theorem readline_mixes_descriptors_witness:
  "\<exists>st'. sock_readline demo_os 9 [7, 7, 7, 7] 4 \<lparr>read_cnt = 3, read_ptr = Some 0, read_buf = [0x41, 0x0A, 0x42] @ replicate 2045 0\<rparr> []
    = Inr (2, [0x41, 0x0A, 0, 7], st', [])"
  using readline_mixes_descriptors [of "\<lparr>read_cnt = 3, read_ptr = Some 0, read_buf = [0x41, 0x0A, 0x42] @ replicate 2045 0\<rparr>" "[0x41]" "[0x42]" 4 "[7, 7, 7, 7]" demo_os "[]"]
  by (auto simp: rb_ok_def unread_def MAXLINE_BUF_def)

text \<open>\<open>sock_writen\<close> returns, when the kernel does not interrupt it without end: with the
  count when the descriptor accepted all bytes in order, with -1 when it accepted only a part.\<close>

theorem writen_delivers:
  assumes "os_ok e" "interrupted_once e fd" "n \<le> length buf"
  shows "\<exists>r w' k. sock_writen e fd buf n w = Inr (r, w') \<and> k \<le> n \<and> accepted fd w' = accepted fd w @ take k buf
    \<and> r = (if k = n then int n else - 1)"
  by (rule sock_writen_writes [OF assms])

theorem writen_delivers_witness:
  "\<exists>r w' k. sock_writen demo_os 5 [1, 2, 3] 2 [] = Inr (r, w') \<and> k \<le> 2 \<and> accepted 5 w' = accepted 5 [] @ take k [1, 2, 3]
    \<and> r = (if k = 2 then int 2 else - 1)"
  by (rule writen_delivers [OF demo_os_ok]) (simp_all add: interrupted_once_def demo_os_def)

section \<open>Sockets\<close>

text \<open>A failure behind \<open>socket\<close> leaves the new descriptor open.\<close>

theorem sock_open_leaks:
  assumes "sock_open e host port w = (- 1, w')" "fd = answer e w (SysSocket AF_INET SOCK_STREAM 0)" "0 \<le> fd"
  shows "fd \<in> open_fds w'"
proof -
  have "\<not> fd < 0" "fd \<noteq> - 1" using assms(3) by auto
  then show ?thesis using assms(1,3)
    by (auto simp: sock_open_def sys_def Let_def assms(2) [symmetric] split: if_splits)
qed

text \<open>C31: The table of sockets neither leaks nor mixes up descriptors: after any sequence of
  \<open>mbtk_sock_open\<close>, \<open>mbtk_sock_conn\<close> and \<open>mbtk_sock_close\<close> with any outcome of the system calls
  the open descriptors are exactly those that the results of the calls tell the caller to be
  usable, every new descriptor was not in use, and a call succeeds only on a descriptor in use.\<close>

theorem sock_table_no_leak:
  assumes "os_fresh e" "table_run e sock_table0 evs st"
  shows "{fd \<in> open_fds (st_sys_world st). 0 < fd} = usable_after evs
    \<and> (\<forall>pre ev post. evs = pre @ ev # post \<longrightarrow> sound_result (usable_after pre) ev)"
  using table_run_table [OF assms] table_run_sound [OF assms] by (auto simp: table_ok_def)

theorem sock_table_no_leak_witness:
  "\<exists>x y r st. table_run demo_os sock_table0 [EvOpen x, EvOpen y, EvClose x r] st
    \<and> {fd \<in> open_fds (st_sys_world st). 0 < fd} = usable_after [EvOpen x, EvOpen y, EvClose x r]"
proof -
  obtain x s1 where 1: "mbtk_sock_open demo_os MBTK_SOCK_TYPE_TCP False None None sock_table0 = (x, s1)" by fastforce
  obtain y s2 where 2: "mbtk_sock_open demo_os MBTK_SOCK_TYPE_UDP False (Some 1) None s1 = (y, s2)" by fastforce
  obtain r s3 where 3: "mbtk_sock_close demo_os x s2 = (r, s3)" by fastforce
  have "table_run demo_os sock_table0 [EvOpen x, EvOpen y, EvClose x r] s3"
    using run_close [OF run_open [OF run_open [OF run_start 1] 2] 3] by simp
  with sock_table_no_leak [OF demo_os_fresh this] show ?thesis by blast
qed

text \<open>A socket that was opened can be closed once, and then the table holds the descriptors
  that it held before; a second close fails and changes nothing.\<close>

theorem sock_open_close:
  assumes "os_fresh e" "table_ok st" "mbtk_sock_open e type ssl cb1 cb2 st = (fd, s1)" "0 < fd"
    "mbtk_sock_close e fd s1 = (r, s2)" "mbtk_sock_close e fd s2 = (r', s3)"
  shows "r = 0 \<and> table_ok s2 \<and> table_fds s2 = table_fds st \<and> r' = - 1 \<and> s3 = s2"
proof -
  have ok: "os_fresh e \<and> table_ok st" and o: "open_with e (type, ssl, cb1, cb2) st = (fd, s1)"
    using assms by (simp_all add: open_with_def)
  have ok1: "os_fresh e \<and> table_ok s1" using open_with_table [OF ok o] by blast
  show ?thesis using socks.open_close [OF ok o assms(4,5)] socks.close_twice [OF ok1 assms(5,6)] by simp
qed

theorem sock_open_close_witness:
  "\<exists>fd s1 r s2. mbtk_sock_open demo_os MBTK_SOCK_TYPE_TCP False None None sock_table0 = (fd, s1) \<and> 0 < fd
    \<and> mbtk_sock_close demo_os fd s1 = (0, s2) \<and> table_fds s2 = table_fds sock_table0"
proof -
  have free: "free_index (replicate 30 ms_zero) = 0"
    using replicate_Suc [of 29 ms_zero] by (simp add: ms_zero_def)
  obtain fd s1 where o: "mbtk_sock_open demo_os MBTK_SOCK_TYPE_TCP False None None sock_table0 = (fd, s1)" by fastforce
  have fd: "fd = 3" using o
    by (simp add: mbtk_sock_open_def free sys_def Let_def demo_os_def sock_table0_def MBTK_SOCK_NUM_MAX_def)
  obtain r s2 where c: "mbtk_sock_close demo_os fd s1 = (r, s2)" by fastforce
  obtain r' s3 where c': "mbtk_sock_close demo_os fd s2 = (r', s3)" by fastforce
  have pos: "0 < fd" using fd by simp
  show ?thesis using sock_open_close [OF demo_os_fresh table_ok_0 o pos c c'] o pos c by blast
qed

end
