(* ===== verification/Http_Properties.thy ===== *)
theory Http_Properties
  imports M_Http Sock_Properties
begin

text \<open>The properties of the HTTP client: URLs, and a request from the URL to the printed answer.\<close>

section \<open>What reading leaves alone\<close>

text \<open>Calls that write nothing and open or close nothing.\<close>

definition only_read :: "world \<Rightarrow> world \<Rightarrow> bool" where
  "only_read w w' \<longleftrightarrow> (\<forall>fd. accepted fd w' = accepted fd w) \<and> open_fds w' = open_fds w"

lemma only_read_refl [simp]: "only_read w w"
  by (simp add: only_read_def)

lemma only_read_trans: "only_read w w1 \<Longrightarrow> only_read w1 w2 \<Longrightarrow> only_read w w2"
  by (simp add: only_read_def)

lemma only_read_call [simp]: "only_read w ((SysRead fd n, r) # w)"
  by (simp add: only_read_def)

lemma only_read_after: "only_read ((SysRead fd n, r) # w) w' \<Longrightarrow> only_read w w'"
  by (simp add: only_read_def)

lemma my_read_again_reads:
  "my_read_again e fd st w = Some r \<Longrightarrow> only_read w (snd (snd r))"
  by (rule my_read_again.raw_induct [of "\<lambda>e fd st w r. only_read w (snd (snd r))"])
    (force simp: Let_def split: if_splits dest: only_read_after)

lemma my_read_reads: "my_read e fd c st w = Inr (rc, c', st', w') \<Longrightarrow> only_read w w'"
  using my_read_again_reads
  by (fastforce simp: my_read_def rbind_eq_Inr rmap_eq_Inr split: if_splits option.splits)

lemma readline_loop_reads: "readline_loop e fd maxlen n c dest st w = Inr (r, d, st', w') \<Longrightarrow> only_read w w'"
proof (induction e fd maxlen n c dest st w rule: readline_loop.induct)
  case (1 e fd maxlen n c dest st w)
  show ?case
  proof (cases "my_read e fd c st w")
    case (Inr x)
    obtain rc c1 st1 w1 where x: "x = (rc, c1, st1, w1)" by (cases x)
    have w1: "only_read w w1" using my_read_reads Inr x by blast
    have ih: "only_read w1 w'" if "n < maxlen" "rc = 1" "wr_buf dest (int n - 1) c1 = Inr d1" "c1 \<noteq> 10"
      "readline_loop e fd maxlen (n + 1) c1 d1 st1 w1 = Inr (r, d, st', w')" for d1
      using 1(1) [OF that(1) Inr, of rc _ c1 _ st1 w1 d1] that x by simp
    show ?thesis using 1(2) w1 Inr x
      by (subst (asm) readline_loop.simps) (auto simp: rmap_eq_Inr split: if_splits sum.splits dest: ih only_read_trans)
  qed (use 1(2) in \<open>subst (asm) readline_loop.simps, auto simp: rmap_eq_Inr split: if_splits\<close>)
qed

lemma http_rsp_parse_reads:
  assumes "http_rsp_parse e fd buf out st w = Some r"
  shows "\<forall>out' st' w'. r = Inr (out', st', w') \<longrightarrow> only_read w w'"
proof (rule http_rsp_parse.raw_induct [of "\<lambda>e fd buf out st w r. \<forall>out' st' w'. r = Inr (out', st', w') \<longrightarrow> only_read w w'", OF _ assms])
  fix parse e fd buf out st w r
  assume ih: "\<And>e fd buf out st w r. parse e fd buf out st w = Some r \<Longrightarrow> \<forall>out' st' w'. r = Inr (out', st', w') \<longrightarrow> only_read w w'"
    and step: "(case sock_readline e fd buf (2048 - 1) st w of
        Inl f \<Rightarrow> Some (Inl f)
      | Inr (len, b, st1, w1) \<Rightarrow>
          if len > 0
          then (case rbind (wr_buf b len 0) (\<lambda>b1. rmap (Pair b1) (mem_str b1)) of
                  Inl f \<Rightarrow> Some (Inl f)
                | Inr (b1, s) \<Rightarrow> parse e fd b1 (out @ s) st1 w1)
          else Some (Inr (out, st1, w1))) = Some r"
  show "\<forall>out' st' w'. r = Inr (out', st', w') \<longrightarrow> only_read w w'"
  proof (cases "sock_readline e fd buf (2048 - 1) st w")
    case (Inr x)
    obtain len b st1 w1 where x: "x = (len, b, st1, w1)" by (cases x)
    have w1: "only_read w w1" using Inr x readline_loop_reads unfolding sock_readline_def by blast
    have next_line: "only_read w w'" if "parse e fd b1 out1 st1 w1 = Some (Inr (out', st', w'))" for b1 out1 out' st' w'
      using ih [OF that] w1 only_read_trans by blast
    show ?thesis using step w1 Inr x by (auto split: if_splits sum.splits dest: next_line)
  qed (use step in auto)
qed

lemma sock_open_leaves:
  assumes "sock_open e host port w = (fd, w')"
  shows "consumed f w' = consumed f w \<and> accepted f w' = accepted f w"
    and "0 \<le> fd \<Longrightarrow> fd \<in> open_fds w'"
  using assms by (auto simp: sock_open_def sys_def Let_def split: if_splits)

section \<open>Printing an answer\<close>

lemma first_line_take: "first_line k s @ drop (length (first_line k s)) s = s"
  by (induction k s rule: first_line.induct) auto

lemma first_line_Nil: "first_line (Suc k) s = [] \<longleftrightarrow> s = []"
  by (cases s) auto

lemma http_rsp_parse_prints:
  assumes "delivers e fd s"
  shows "rb_ok st \<Longrightarrow> length buf = 2048 \<Longrightarrow> 0 \<notin> set (pending fd s st w) \<Longrightarrow>
    \<exists>st' w'. http_rsp_parse e fd buf out st w = Some (Inr (out @ pending fd s st w, st', w')) \<and> pending fd s st' w' = []"
proof (induction "length (pending fd s st w)" arbitrary: buf out st w rule: less_induct)
  case less
  let ?p = "pending fd s st w"
  define l where "l = first_line 2046 ?p"
  have split: "l @ drop (length l) ?p = ?p" unfolding l_def by (rule first_line_take)
  have len: "length l \<le> 2046" unfolding l_def by (rule first_line_le)
  have l': "l = first_line (2047 - 1) ?p" by (simp add: l_def)
  obtain st1 w1 where r: "sock_readline e fd buf 2047 st w = Inr (line_result 2047 l, l @ 0 # drop (Suc (length l)) buf, st1, w1)"
    "rb_ok st1" "pending fd s st1 w1 = drop (length l) ?p"
    using sock_readline_delivers [OF assms less.prems(1) _ _ l', of buf] less.prems(2) by auto
  show ?case
  proof (cases "l = []")
    case True
    have "2046 = Suc 2045" by simp
    then have "?p = []" using True first_line_Nil unfolding l_def by metis
    moreover have "http_rsp_parse e fd buf out st w = Some (Inr (out, st1, w1))"
      using r(1) True by (subst http_rsp_parse.simps) (simp add: line_result_def)
    ultimately show ?thesis using r(3) by simp
  next
    case False
    let ?b = "l @ 0 # drop (Suc (length l)) buf"
    have nz: "0 \<notin> set l" using less.prems(3) split by (metis Un_iff set_append)
    have pos: "0 < line_result 2047 l" using False by (simp add: line_result_def)
    obtain z where z: "wr_buf ?b (line_result 2047 l) 0 = Inr (l @ 0 # z)" "length (l @ 0 # z) = 2048"
    proof (cases "line_result 2047 l = int (length l)")
      case True
      then have "wr_buf ?b (line_result 2047 l) 0 = Inr ?b" by (simp add: wr_buf_at)
      then show ?thesis using that [of "drop (Suc (length l)) buf"] less.prems(2) len by simp
    next
      case cut: False
      then have c: "line_result 2047 l = 2047" "length l = 2046" using len by (auto simp: line_result_def split: if_splits)
      then have "drop (Suc (length l)) buf = [buf ! 2047]" using less.prems(2) by (simp add: Cons_nth_drop_Suc [symmetric])
      then have "wr_buf ?b (line_result 2047 l) 0 = Inr (l @ 0 # [0])"
        using c wr_buf_at [of 2047 "l @ [0]" "buf ! 2047" "[]" 0] by simp
      then show ?thesis using that [of "[0]"] c by simp
    qed
    have step: "http_rsp_parse e fd buf out st w = http_rsp_parse e fd (l @ 0 # z) (out @ l) st1 w1"
      using r(1) pos z(1) mem_str_at [OF nz] by (subst http_rsp_parse.simps) simp
    have "length (pending fd s st1 w1) < length ?p" using r(3) False split by (metis length_append length_greater_0_conv less_add_same_cancel2)
    moreover have "0 \<notin> set (pending fd s st1 w1)" using r(3) less.prems(3) set_drop_subset by fastforce
    ultimately show ?thesis using less.hyps [of st1 w1 "l @ 0 # z" "out @ l"] r(2,3) z(2) split step by simp
  qed
qed

section \<open>Requests\<close>

text \<open>What a URL of the client consists of, and the bounds of its parts.\<close>

definition url_ok :: "byte list \<Rightarrow> nat option \<Rightarrow> byte list \<Rightarrow> bool" where
  "url_ok host port path \<longleftrightarrow> 0 \<notin> set host \<and> 0x3A \<notin> set host \<and> 0x2F \<notin> set host \<and> 0 \<notin> set path
     \<and> length (host_part host port) \<le> HTTP_HOST_MAX_LEN \<and> Suc (length path) \<le> HTTP_URI_MAX_LEN
     \<and> (case port of None \<Rightarrow> True | Some p \<Rightarrow> p < 65536)"

lemma http_url_parse_ok:
  assumes "url_ok host port path"
  shows "\<exists>hbuf ubuf. http_url_parse (Some (url_text secure host port (0x2F # path))) (replicate (HTTP_HOST_MAX_LEN + 1) 0)
      (replicate (HTTP_URI_MAX_LEN + 1) 0) port0 = Inr (True, hbuf, ubuf, url_port secure port)
    \<and> mem_str hbuf = Inr host \<and> mem_str ubuf = Inr (0x2F # path)"
proof -
  note ok = assms [unfolded url_ok_def HTTP_HOST_MAX_LEN_def HTTP_URI_MAX_LEN_def]
  obtain z where z: "http_url_parse (Some (url_text secure host port (0x2F # path))) (replicate 101 0) (replicate 1025 0) port0
    = Inr (True, host @ 0 # z, (0x2F # path) @ replicate (1024 - length path) 0, url_port secure port)"
    using http_url_parse_text [of host port path secure port0] ok by auto
  have "1024 - length path = Suc (1023 - length path)" using ok by auto
  then have "replicate (1024 - length path) (0 :: byte) = 0 # replicate (1023 - length path) 0" by simp
  moreover have "0 \<notin> set (0x2F # path)" "0 \<notin> set host" using ok by auto
  ultimately have "mem_str ((0x2F # path) @ replicate (1024 - length path) 0) = Inr (0x2F # path)" "mem_str (host @ 0 # z) = Inr host"
    using mem_str_at by metis+
  then show ?thesis using z by (simp add: HTTP_HOST_MAX_LEN_def HTTP_URI_MAX_LEN_def)
qed

lemma http_request_length: "length (http_request uri host) = length uri + length host + 25"
  by (simp add: http_request_def bytes_of_def)

text \<open>\<open>http_url_parse\<close> takes the text of a URL apart: the host, the path and the port, or the
  port of the scheme when the URL names none, within the bounds of the buffers.\<close>

theorem http_url_parse_correct:
  assumes "url_ok host port path"
  shows "\<exists>hbuf ubuf. http_url_parse (Some (url_text secure host port (0x2F # path))) (replicate (HTTP_HOST_MAX_LEN + 1) 0)
      (replicate (HTTP_URI_MAX_LEN + 1) 0) port0
      = Inr (True, hbuf, ubuf, case port of None \<Rightarrow> if secure then 443 else 80 | Some p \<Rightarrow> int p)
    \<and> mem_str hbuf = Inr host \<and> mem_str ubuf = Inr (0x2F # path)"
  using http_url_parse_ok [OF assms] by (simp add: url_port_def)

lemma url_example: "url_ok (bytes_of ''a.b'') (Some 80) (bytes_of ''x'')"
  by (simp add: url_ok_def bytes_of_def host_part_def HTTP_HOST_MAX_LEN_def HTTP_URI_MAX_LEN_def dec_nat.simps)

theorem http_url_parse_correct_witness:
  "\<exists>hbuf ubuf. http_url_parse (Some (url_text True (bytes_of ''a.b'') (Some 80) (bytes_of ''/x''))) (replicate (HTTP_HOST_MAX_LEN + 1) 0)
      (replicate (HTTP_URI_MAX_LEN + 1) 0) 7 = Inr (True, hbuf, ubuf, 80)
    \<and> mem_str hbuf = Inr (bytes_of ''a.b'') \<and> mem_str ubuf = Inr (bytes_of ''/x'')"
  using http_url_parse_correct [OF url_example, of True 7] by (simp add: bytes_of_def)


text \<open>A server that answers in pieces of three bytes and takes whole requests.\<close>

definition server_os :: "byte list \<Rightarrow> os" where
  "server_os s = demo_os\<lparr>answer := (\<lambda>w c. case c of
       SysRead fd n \<Rightarrow> int (min (min n 3) (length (drop (consumed fd w) s)))
     | SysWrite fd bs \<Rightarrow> int (length bs)
     | SysSocket d t p \<Rightarrow> 5
     | SysResolve h \<Rightarrow> 1
     | _ \<Rightarrow> 0),
     data_of := (\<lambda>w c. case c of
       SysRead fd n \<Rightarrow> take (min (min n 3) (length (drop (consumed fd w) s))) (drop (consumed fd w) s)
     | _ \<Rightarrow> [])\<rparr>"

lemma server_os_good: "os_ok (server_os s)" "interrupted_once (server_os s) fd" "delivers (server_os s) fd s"
  by (auto simp: os_ok_def interrupted_once_def delivers_def server_os_def Let_def)


end
