(* ===== verification/Yuv.thy ===== *)
theory Yuv
  imports C_Library
begin

text \<open>
  The conversion of YUV pictures in \<open>demo/yuv_demo.c\<close>: the length check, the split into planes,
  the conversion to RGB and the BMP file.  \<open>uint32\<close> arithmetic is done in 32 bit words, so that
  products wrap around as they do in C; loop counters that stay below a word bound are naturals.
\<close>

definition YUV_TYPE_I420 :: u32 where "YUV_TYPE_I420 = 0"
definition YUV_TYPE_YU12 :: u32 where "YUV_TYPE_YU12 = 1"
definition YUV_TYPE_NV12 :: u32 where "YUV_TYPE_NV12 = 2"
definition YUV_TYPE_NV21 :: u32 where "YUV_TYPE_NV21 = 3"
definition YUV_TYPE_420_MAX :: u32 where "YUV_TYPE_420_MAX = 4"
definition YUV_TYPE_422_MAX :: u32 where "YUV_TYPE_422_MAX = 5"

lemmas yuv_types = YUV_TYPE_I420_def YUV_TYPE_YU12_def YUV_TYPE_NV12_def YUV_TYPE_NV21_def YUV_TYPE_420_MAX_def YUV_TYPE_422_MAX_def

section \<open>Length and planes\<close>

definition yuv_lenght_check :: "u32 \<Rightarrow> u32 \<Rightarrow> u32 \<Rightarrow> u32 \<Rightarrow> bool" where
  "yuv_lenght_check type len width height =
     (type \<in> {YUV_TYPE_I420, YUV_TYPE_YU12, YUV_TYPE_NV12, YUV_TYPE_NV21} \<and> len = width * height * 3 div 2)"

text \<open>The loop of the interleaved formats: \<open>a\<close> gets the first byte of each pair and \<open>b\<close> the second,
  both at the one index that counts every byte.\<close>

function nv_loop :: "byte list \<Rightarrow> int \<Rightarrow> byte list \<Rightarrow> byte list \<Rightarrow> nat \<Rightarrow> nat \<Rightarrow> (byte list \<times> byte list) res" where
  "nv_loop data ptr a b index limit =
     (if index < limit
      then rbind (rd_buf data ptr) (\<lambda>x.
           rbind (wr_buf a (int index) x) (\<lambda>a1.
           rbind (rd_buf data (ptr + 1)) (\<lambda>y.
           rbind (wr_buf b (int (index + 1)) y) (\<lambda>b1.
           nv_loop data (ptr + 2) a1 b1 (index + 2) limit))))
      else Inr (a, b))"
  by pat_completeness auto
termination
  by (relation "measure (\<lambda>(data, ptr, a, b, index, limit). limit - index)") auto

declare nv_loop.simps [simp del]

text \<open>The planes and their lengths: what the caller's buffers and variables hold afterwards.\<close>

record planes =
  y_data :: "byte list"
  u_data :: "byte list"
  v_data :: "byte list"
  y_data_len :: u32
  u_data_len :: u32
  v_data_len :: u32

definition copy_planes :: "byte list \<Rightarrow> u32 \<Rightarrow> u32 \<Rightarrow> u32 \<Rightarrow> planes \<Rightarrow> (int \<times> planes) res" where
  "copy_planes data wh upos vpos p =
     rbind (rd_bytes data (uint upos) (unat (wh div 4))) (\<lambda>us.
     rbind (wr_bytes (u_data p) 0 us) (\<lambda>u1.
     rbind (rd_bytes data (uint vpos) (unat (wh div 4))) (\<lambda>vs.
     rmap (\<lambda>v1. (0, p\<lparr>u_data := u1, v_data := v1, u_data_len := wh div 4, v_data_len := wh div 4\<rparr>))
       (wr_bytes (v_data p) 0 vs))))"

definition yuv_data_parse :: "byte list \<Rightarrow> u32 \<Rightarrow> u32 \<Rightarrow> u32 \<Rightarrow> planes \<Rightarrow> (int \<times> planes) res" where
  "yuv_data_parse data type width height p =
     (let wh = width * height in
      if type < YUV_TYPE_420_MAX
      then rbind (rd_bytes data 0 (unat wh)) (\<lambda>ys.
           rbind (wr_bytes (y_data p) 0 ys) (\<lambda>y1.
           let p1 = p\<lparr>y_data := y1, y_data_len := wh\<rparr> in
           if type = YUV_TYPE_I420 then copy_planes data wh wh (wh * 5 div 4) p1
           else if type = YUV_TYPE_YU12
           then copy_planes data wh (wh * 5 div 4) wh p1
           else if type = YUV_TYPE_NV12
           then rmap (\<lambda>(u, v). (0, p1\<lparr>u_data := u, v_data := v, u_data_len := wh div 4, v_data_len := wh div 4\<rparr>))
                  (nv_loop data (uint wh) (u_data p) (v_data p) 0 (unat (wh div 2)))
           else rmap (\<lambda>(v, u). (0, p1\<lparr>u_data := u, v_data := v, u_data_len := wh div 4, v_data_len := wh div 4\<rparr>))
                  (nv_loop data (uint wh) (v_data p) (u_data p) 0 (unat (wh div 2)))))
      else if type < YUV_TYPE_422_MAX then Inr (0, p)
      else Inr (- 1, p))"

section \<open>RGB\<close>

definition clamp18 :: "int \<Rightarrow> int" where
  "clamp18 r = (if r < 0 then 0 else if r > 262143 then 262143 else r)"

definition rgb_bytes :: "int \<Rightarrow> int \<Rightarrow> int \<Rightarrow> byte list" where
  "rgb_bytes r g b =
     [word_of_int (drop_bit 16 (push_bit 6 (clamp18 r) AND 0xFF0000)),
      word_of_int (drop_bit 8 (drop_bit 2 (clamp18 g) AND 0xFF00)),
      word_of_int (drop_bit 10 (clamp18 b) AND 0xFF)]"

definition luma :: "byte \<Rightarrow> int" where
  "luma b = 1192 * (if uint b - 16 < 0 then 0 else uint b - 16)"

definition chroma :: "byte \<Rightarrow> int" where
  "chroma b = uint b - 128"

text \<open>\<open>r_temp\<close>, \<open>g_temp\<close> and \<open>b_temp\<close>.\<close>

definition chroma_temps :: "int \<Rightarrow> int \<Rightarrow> int \<times> int \<times> int" where
  "chroma_temps u v = (1634 * v, 833 * v + 400 * u, 2066 * u)"

text \<open>Where the samples of a row begin, None for a type that is not supported; \<open>uvp\<close> is an int.\<close>

definition uvp_start :: "u32 \<Rightarrow> u32 \<Rightarrow> u32 \<Rightarrow> nat \<Rightarrow> int option" where
  "uvp_start type width frameSize j =
     (if type = YUV_TYPE_I420 \<or> type = YUV_TYPE_YU12
      then Some (sint (frameSize + of_nat (j div 2) * (width div 2)))
      else if type = YUV_TYPE_NV12 \<or> type = YUV_TYPE_NV21
      then Some (sint (frameSize + of_nat (j div 2) * width))
      else None)"

text \<open>\<open>u\<close>, \<open>v\<close> and the new position.\<close>

definition yuv_chroma :: "u32 \<Rightarrow> u32 \<Rightarrow> byte list \<Rightarrow> int \<Rightarrow> (int \<times> int \<times> int) res" where
  "yuv_chroma type uv_size src uvp =
     (if type = YUV_TYPE_I420 \<or> type = YUV_TYPE_YU12
      then rbind (rd_buf src uvp) (\<lambda>a.
           rmap (\<lambda>b. if type = YUV_TYPE_I420 then (chroma a, chroma b, uvp + 1) else (chroma b, chroma a, uvp + 1))
             (rd_buf src (uint (word_of_int uvp + uv_size))))
      else rbind (rd_buf src uvp) (\<lambda>a.
           rmap (\<lambda>b. if type = YUV_TYPE_NV12 then (chroma a, chroma b, uvp + 2) else (chroma b, chroma a, uvp + 2))
             (rd_buf src (uvp + 1))))"

function yuv_row :: "u32 \<Rightarrow> nat \<Rightarrow> u32 \<Rightarrow> byte list \<Rightarrow> nat \<Rightarrow> u32 \<Rightarrow> int \<Rightarrow> int \<times> int \<times> int \<Rightarrow> byte list \<Rightarrow>
    (u32 \<times> (int \<times> int \<times> int) \<times> byte list) res" where
  "yuv_row type width uv_size src i yp uvp temps dst =
     (if i < width
      then rbind (rd_buf src (uint yp)) (\<lambda>y.
           rbind (if even i then rmap (\<lambda>(u, v, p). (p, chroma_temps u v)) (yuv_chroma type uv_size src uvp) else Inr (uvp, temps)) (\<lambda>(uvp1, temps1).
           let (r, g, b) = temps1; px = rgb_bytes (luma y + r) (luma y - g) (luma y + b) in
           rbind (wr_buf dst (uint (yp * 3)) (px ! 0)) (\<lambda>d1.
           rbind (wr_buf d1 (uint (yp * 3 + 1)) (px ! 1)) (\<lambda>d2.
           rbind (wr_buf d2 (uint (yp * 3 + 2)) (px ! 2)) (\<lambda>d3.
           yuv_row type width uv_size src (i + 1) (yp + 1) uvp1 temps1 d3)))))
      else Inr (yp, temps, dst))"
  by pat_completeness auto
termination
  by (relation "measure (\<lambda>(type, width, uv_size, src, i, yp, uvp, temps, dst). width - i)") auto

declare yuv_row.simps [simp del]

function yuv_rows :: "u32 \<Rightarrow> u32 \<Rightarrow> nat \<Rightarrow> u32 \<Rightarrow> byte list \<Rightarrow> nat \<Rightarrow> u32 \<Rightarrow> int \<times> int \<times> int \<Rightarrow> byte list \<Rightarrow> byte list res" where
  "yuv_rows type width height frameSize src j yp temps dst =
     (if j < height
      then case uvp_start type width frameSize j of
             None \<Rightarrow> Inr dst
           | Some uvp \<Rightarrow>
               rbind (yuv_row type (unat width) (frameSize div 4) src 0 yp uvp temps dst) (\<lambda>(yp1, temps1, dst1).
               yuv_rows type width height frameSize src (j + 1) yp1 temps1 dst1)
      else Inr dst)"
  by pat_completeness auto
termination
  by (relation "measure (\<lambda>(type, width, height, frameSize, src, j, yp, temps, dst). height - j)") auto

declare yuv_rows.simps [simp del]

text \<open>\<open>junk\<close> is what the three variables that are not initialised hold.\<close>

definition yuv420_to_rgb :: "int \<times> int \<times> int \<Rightarrow> u32 \<Rightarrow> u32 \<Rightarrow> u32 \<Rightarrow> byte list \<Rightarrow> byte list \<Rightarrow> byte list res" where
  "yuv420_to_rgb junk type width height src dst =
     yuv_rows type width (unat height) (width * height) src 0 0 junk dst"

section \<open>BMP files\<close>

definition bmp_template :: "byte list" where
  "bmp_template = [0x42, 0x4D, 0, 0, 0, 0, 0, 0, 0, 0, 54, 0, 0, 0,
     40, 0, 0, 0, 0, 0, 0, 0, 0, 0, 0, 0, 1, 0, 24, 0] @ replicate 24 0"

definition byte_at :: "nat \<Rightarrow> 64 word \<Rightarrow> byte" where
  "byte_at k x = ucast (drop_bit (8 * k) x AND 0xFF)"

definition bmp_header :: "u32 \<Rightarrow> u32 \<Rightarrow> byte list" where
  "bmp_header width height =
     (let size = (ucast width :: 64 word) * ucast height * 3 + 54; w = ucast width; h = ucast height in
      bmp_template
        [2 := byte_at 0 size, 3 := byte_at 1 size, 4 := byte_at 2 size, 5 := byte_at 3 size,
         18 := byte_at 0 w, 19 := byte_at 1 w, 20 := byte_at 2 w, 21 := byte_at 3 w,
         22 := byte_at 0 h, 23 := byte_at 1 h, 24 := byte_at 2 h, 25 := byte_at 3 h])"

text \<open>The result and the file that was written; \<open>opened\<close> says whether \<open>fopen\<close> succeeds.\<close>

definition pic_bmp_save :: "bool \<Rightarrow> u32 \<Rightarrow> u32 \<Rightarrow> byte list \<Rightarrow> u32 \<Rightarrow> (int \<times> byte list option) res" where
  "pic_bmp_save opened width height data data_len =
     (if data_len \<noteq> width * height * 3 then Inr (- 1, None)
      else if \<not> opened then Inr (- 1, None)
      else rmap (\<lambda>bs. (0, Some (bmp_header width height @ bs))) (rd_bytes data 0 (unat data_len)))"

section \<open>The program\<close>

text \<open>What the program gets from outside: the input file, whether the calls on it succeed, how many
  bytes \<open>fread\<close> delivers at an offset, which of the five allocations and which of the output files
  succeed, and what fresh memory and the uninitialised variables hold.\<close>

record yuv_env =
  ye_file :: "byte list option"
  ye_seek :: "bool \<times> bool"
  ye_tell :: bool
  ye_fread :: "nat \<Rightarrow> nat"
  ye_alloc :: "nat \<Rightarrow> bool"
  ye_create :: "nat \<Rightarrow> bool"
  ye_fill :: byte
  ye_temps :: "int \<times> int \<times> int"

definition EXIT_SUCCESS :: int where "EXIT_SUCCESS = 0"
definition EXIT_FAILURE :: int where "EXIT_FAILURE = 1"

text \<open>The bytes read when the loop ends; \<open>fread\<close> delivers at most what is left.\<close>

function fread_loop :: "yuv_env \<Rightarrow> byte list \<Rightarrow> nat \<Rightarrow> byte list \<Rightarrow> byte list" where
  "fread_loop e content file_len acc =
     (if length acc < file_len
      then let n = min (ye_fread e (length acc)) (length content - length acc) in
           if n > 0 then fread_loop e content file_len (acc @ take n (drop (length acc) content)) else acc
      else acc)"
  by pat_completeness auto
termination
  by (relation "measure (\<lambda>(e, content, file_len, acc). file_len - length acc)") auto

declare fread_loop.simps [simp del]

definition pic_name :: "nat \<Rightarrow> byte list" where
  "pic_name count = take 19 (bytes_of ''/home/lb/test_'' @ dec_nat count @ bytes_of ''.bmp'')"

text \<open>The loop over the four types; the exit code and the files in the order they are saved.\<close>

function save_loop :: "yuv_env \<Rightarrow> u32 \<Rightarrow> u32 \<Rightarrow> byte list \<Rightarrow> byte list \<Rightarrow> nat \<Rightarrow> (byte list \<times> byte list) list \<Rightarrow>
    (int \<times> (byte list \<times> byte list) list) res" where
  "save_loop e width height yuv rgb count files =
     (if count < 4
      then rbind (yuv420_to_rgb (ye_temps e) (of_nat count) width height yuv rgb) (\<lambda>rgb1.
           rbind (pic_bmp_save (ye_create e count) width height rgb1 (width * height * 3)) (\<lambda>(r, file).
           if r \<noteq> 0 then Inr (EXIT_FAILURE, files)
           else save_loop e width height yuv rgb1 (count + 1)
                  (case file of None \<Rightarrow> files | Some bs \<Rightarrow> files @ [(pic_name count, bs)])))
      else Inr (EXIT_SUCCESS, files))"
  by pat_completeness auto
termination
  by (relation "measure (\<lambda>(e, width, height, yuv, rgb, count, files). 4 - count)") auto

declare save_loop.simps [simp del]

text \<open>\<open>main\<close> from the allocation of the buffers on.\<close>

definition yuv_convert :: "yuv_env \<Rightarrow> byte list \<Rightarrow> u32 \<Rightarrow> u32 \<Rightarrow> u32 \<Rightarrow> (int \<times> (byte list \<times> byte list) list) res" where
  "yuv_convert e content type width height =
     (let file_len = length content; plane = replicate (unat (width * height)) (ye_fill e) in
      if \<not> (ye_alloc e 0 \<and> ye_alloc e 1 \<and> ye_alloc e 2 \<and> ye_alloc e 3) then Inr (EXIT_FAILURE, [])
      else let yuv = fread_loop e content file_len [] in
           if length yuv \<noteq> file_len then Inr (EXIT_FAILURE, [])
           else rbind (yuv_data_parse yuv type width height
                         \<lparr>y_data = plane, u_data = plane, v_data = plane, y_data_len = 0, u_data_len = 0, v_data_len = 0\<rparr>) (\<lambda>(r, p).
                if r \<noteq> 0 then Inr (EXIT_FAILURE, [])
                else if \<not> ye_alloc e 4 then Inl NullDeref
                else save_loop e width height yuv (replicate (unat (width * height * 3)) (ye_fill e)) 0 []))"

definition yuv_main :: "yuv_env \<Rightarrow> byte list list \<Rightarrow> (int \<times> (byte list \<times> byte list) list) res" where
  "yuv_main e argv =
     (if length argv \<noteq> 5 then Inr (EXIT_FAILURE, [])
      else
        rbind (atoi (argv ! 1 @ [0])) (\<lambda>t.
        rbind (atoi (argv ! 3 @ [0])) (\<lambda>w.
        rbind (atoi (argv ! 4 @ [0])) (\<lambda>h.
        let width = word_of_int w; height = word_of_int h; type = word_of_int t in
        if width = 0 \<or> height = 0 then Inr (EXIT_FAILURE, [])
        else case ye_file e of
               None \<Rightarrow> Inr (EXIT_FAILURE, [])
             | Some content \<Rightarrow>
                 if \<not> fst (ye_seek e) \<or> \<not> ye_tell e \<or> \<not> snd (ye_seek e) then Inr (EXIT_FAILURE, [])
                 else if \<not> yuv_lenght_check type (of_nat (length content)) width height then Inr (EXIT_FAILURE, [])
                 else yuv_convert e content type width height))))"

end
