(* ===== verification/Yuv_Proofs.thy ===== *)
theory Yuv_Proofs
  imports Yuv
begin

text \<open>
  The four layouts of a YUV 4:2:0 picture as instances of one interface, and the conversion to
  RGB proved once for it.
\<close>

section \<open>Words\<close>

lemma sint_u32: "n < 2 ^ 31 \<Longrightarrow> sint (of_nat n :: u32) = int n"
  by (simp add: signed_of_nat signed_take_bit_int_eq_self)

lemma uint_u32: "n < 2 ^ 32 \<Longrightarrow> uint (of_nat n :: u32) = int n"
  by (simp add: unsigned_of_nat take_bit_nat_eq_self)

lemma unat_u32: "n < 2 ^ 32 \<Longrightarrow> unat (of_nat n :: u32) = n"
  by (simp add: unsigned_of_nat take_bit_nat_eq_self)

lemma word_div: "n < 2 ^ 32 \<Longrightarrow> k < 2 ^ 32 \<Longrightarrow> (of_nat n :: u32) div of_nat k = of_nat (n div k)"
proof -
  assume n: "n < 2 ^ 32" "k < 2 ^ 32"
  have "unat ((of_nat n :: u32) div of_nat k) = n div k" unfolding unat_div unat_u32 [OF n(1)] unat_u32 [OF n(2)] ..
  moreover have "unat (of_nat (n div k) :: u32) = n div k" by (rule unat_u32) (use n(1) div_le_dividend [of n k] in linarith)
  ultimately show ?thesis by (metis word_unat_eq_iff)
qed

section \<open>Layouts\<close>

definition planes_ok :: "u32 \<Rightarrow> u32 \<Rightarrow> byte list \<Rightarrow> byte list \<Rightarrow> byte list \<Rightarrow> bool" where
  "planes_ok width height ys us vs \<longleftrightarrow> even (unat width) \<and> even (unat height)
     \<and> length ys = unat width * unat height \<and> length us = length ys div 4 \<and> length vs = length ys div 4
     \<and> 3 * length ys < 2 ^ 32"

definition interleave :: "byte list \<Rightarrow> byte list \<Rightarrow> byte list" where
  "interleave us vs = concat (map (\<lambda>(u, v). [u, v]) (zip us vs))"

text \<open>The chroma sample of the point \<open>p\<close> in raster order.\<close>

definition sample :: "nat \<Rightarrow> nat \<Rightarrow> nat" where
  "sample w p = (p div w div 2) * (w div 2) + (p mod w) div 2"

definition point_rgb :: "nat \<Rightarrow> byte list \<Rightarrow> byte list \<Rightarrow> byte list \<Rightarrow> nat \<Rightarrow> byte list" where
  "point_rgb w ys us vs p =
     (let (r, g, b) = chroma_temps (chroma (us ! sample w p)) (chroma (vs ! sample w p)); y = luma (ys ! p)
      in rgb_bytes (y + r) (y - g) (y + b))"

definition picture :: "nat \<Rightarrow> byte list \<Rightarrow> byte list \<Rightarrow> byte list \<Rightarrow> byte list" where
  "picture w ys us vs = concat (map (point_rgb w ys us vs) [0..<length ys])"

lemma rgb_bytes_length [simp]: "length (rgb_bytes r g b) = 3"
  by (simp add: rgb_bytes_def)

lemma point_rgb_length [simp]: "length (point_rgb w ys us vs p) = 3"
  by (simp add: point_rgb_def chroma_temps_def Let_def)

lemma planes_sample:
  assumes "planes_ok width height ys us vs" "j < unat height" "i < unat width"
  shows "(j div 2) * (unat width div 2) + i div 2 < length us"
    and "sample (unat width) (j * unat width + i) = (j div 2) * (unat width div 2) + i div 2"
    and "j * unat width + i < length ys"
proof -
  obtain a b where ab: "unat width = 2 * a" "unat height = 2 * b" using assms(1) by (auto simp: planes_ok_def elim!: evenE)
  have "length us = a * b" using assms(1) ab by (simp add: planes_ok_def)
  moreover have "j div 2 < b" "i div 2 < a" using assms(2,3) ab by auto
  then have "(j div 2) * a + i div 2 < Suc (j div 2) * a" by simp
  moreover have "Suc (j div 2) * a \<le> b * a" using \<open>j div 2 < b\<close> by (intro mult_le_mono1) simp
  ultimately show "(j div 2) * (unat width div 2) + i div 2 < length us" using ab(1) by (simp add: mult.commute)
  show "sample (unat width) (j * unat width + i) = (j div 2) * (unat width div 2) + i div 2"
    using assms(3) by (simp add: sample_def)
  have "j * unat width + i < Suc j * unat width" using assms(3) by simp
  also have "\<dots> \<le> unat height * unat width" using assms(2) by (intro mult_le_mono1) simp
  finally show "j * unat width + i < length ys" using assms(1) by (simp add: planes_ok_def mult.commute)
qed

text \<open>A layout: how the chroma samples are packed behind the luma, and at which distance from
  the luma the position of the \<open>k\<close>-th sample is.\<close>

locale chroma_layout =
  fixes ty :: u32 and pack :: "byte list \<Rightarrow> byte list \<Rightarrow> byte list" and pos :: "nat \<Rightarrow> nat"
  assumes row_start: "planes_ok width height ys us vs \<Longrightarrow> j < unat height \<Longrightarrow>
      uvp_start ty width (width * height) j = Some (int (length ys + pos ((j div 2) * (unat width div 2))))"
    and next_sample: "planes_ok width height ys us vs \<Longrightarrow> k < length us \<Longrightarrow>
      yuv_chroma ty (width * height div 4) (ys @ pack us vs) (int (length ys + pos k))
        = Inr (chroma (us ! k), chroma (vs ! k), int (length ys + pos (Suc k)))"
begin

lemma row:
  assumes ok: "planes_ok width height ys us vs" and j: "j < unat height"
  shows "i \<le> unat width \<Longrightarrow> length done = 3 * (j * unat width + i) \<Longrightarrow> length rest \<ge> 3 * (unat width - i) \<Longrightarrow>
    uvp = int (length ys + pos ((j div 2) * (unat width div 2) + (i + 1) div 2)) \<Longrightarrow>
    (odd i \<longrightarrow> (let k = (j div 2) * (unat width div 2) + i div 2 in temps = chroma_temps (chroma (us ! k)) (chroma (vs ! k)))) \<Longrightarrow>
    \<exists>temps'. yuv_row ty (unat width) (width * height div 4) (ys @ pack us vs) i (of_nat (j * unat width + i)) uvp temps (done @ rest)
      = Inr (of_nat (Suc j * unat width), temps',
             done @ concat (map (point_rgb (unat width) ys us vs) [j * unat width + i..<Suc j * unat width]) @ drop (3 * (unat width - i)) rest)"
proof (induction "unat width - i" arbitrary: i uvp temps "done" rest)
  case 0
  then have "i = unat width" by simp
  then show ?case by (cases temps) (subst yuv_row.simps, simp add: add.commute)
next
  case (Suc n)
  let ?w = "unat width" and ?p = "j * unat width + i" and ?k = "(j div 2) * (unat width div 2) + i div 2"
  have i: "i < ?w" using Suc.hyps(2) by simp
  note s = planes_sample [OF ok j i]
  obtain r g b where t: "chroma_temps (chroma (us ! ?k)) (chroma (vs ! ?k)) = (r, g, b)" by (metis prod_cases3)
  have p: "3 * ?p + 2 < 2 ^ 32" "?p < 2 ^ 32" using s(3) ok by (simp_all add: planes_ok_def)
  have "3 \<le> length rest" using Suc.prems(3) i by linarith
  then obtain x0 x1 x2 rest' where rest: "rest = x0 # x1 # x2 # rest'" by (metis Suc_le_length_iff numeral_3_eq_3)
  have y: "rd_buf (ys @ pack us vs) (uint (of_nat ?p :: u32)) = Inr (ys ! ?p)"
    unfolding uint_u32 [OF p(2)] using s(3) by (simp add: rd_buf_def nth_append del: of_nat_add of_nat_mult)
  have c: "(if even i then rmap (\<lambda>(u, v, p). (p, chroma_temps u v)) (yuv_chroma ty (width * height div 4) (ys @ pack us vs) uvp) else Inr (uvp, temps))
      = Inr (int (length ys + pos ((j div 2) * (?w div 2) + (Suc i + 1) div 2)), (r, g, b))"
  proof (cases "even i")
    case True
    then have "(Suc i + 1) div 2 = Suc (i div 2)" "(i + 1) div 2 = i div 2" by auto
    then show ?thesis using True Suc.prems(4) next_sample [OF ok s(1)] t by simp
  next
    case False
    then have "(Suc i + 1) div 2 = (i + 1) div 2" by auto
    then show ?thesis using False Suc.prems(4,5) t by (simp add: Let_def)
  qed
  have px: "point_rgb ?w ys us vs ?p = rgb_bytes (luma (ys ! ?p) + r) (luma (ys ! ?p) - g) (luma (ys ! ?p) + b)" (is "_ = ?px")
    using s(2) t by (simp add: point_rgb_def Let_def)
  obtain q0 q1 q2 where q: "?px = [q0, q1, q2]" by (simp add: rgb_bytes_def)
  have w: "(of_nat ?p :: u32) * 3 = of_nat (3 * ?p)" "(of_nat ?p :: u32) * 3 + 1 = of_nat (3 * ?p + 1)" "(of_nat ?p :: u32) * 3 + 2 = of_nat (3 * ?p + 2)"
    by simp_all
  have at0: "uint (of_nat ?p * 3 :: u32) = int (3 * ?p)" unfolding w(1) by (rule uint_u32) (use p(1) in simp)
  have at1: "uint (of_nat ?p * 3 + 1 :: u32) = int (3 * ?p + 1)" unfolding w(2) by (rule uint_u32) (use p(1) in simp)
  have at2: "uint (of_nat ?p * 3 + 2 :: u32) = int (3 * ?p + 2)" unfolding w(3) by (rule uint_u32) (use p(1) in simp)
  have d: "wr_buf (done @ rest) (uint (of_nat ?p * 3 :: u32)) q0 = Inr (done @ q0 # x1 # x2 # rest')"
    "wr_buf (done @ q0 # x1 # x2 # rest') (uint (of_nat ?p * 3 + 1 :: u32)) q1 = Inr (done @ q0 # q1 # x2 # rest')"
    "wr_buf (done @ q0 # q1 # x2 # rest') (uint (of_nat ?p * 3 + 2 :: u32)) q2 = Inr (done @ q0 # q1 # q2 # rest')"
    unfolding at0 at1 at2 using Suc.prems(2) rest wr_buf_at [of "int (3 * ?p)" "done" x0 _ q0]
      wr_buf_at [of "int (3 * ?p + 1)" "done @ [q0]" x1 _ q1] wr_buf_at [of "int (3 * ?p + 2)" "done @ [q0, q1]" x2 _ q2] by simp_all
  let ?done = "done @ point_rgb ?w ys us vs ?p"
  have nxt: "(of_nat ?p :: u32) + 1 = of_nat (j * ?w + Suc i)" by simp
  have step: "yuv_row ty ?w (width * height div 4) (ys @ pack us vs) i (of_nat ?p) uvp temps (done @ rest)
      = yuv_row ty ?w (width * height div 4) (ys @ pack us vs) (Suc i) (of_nat (j * ?w + Suc i))
          (int (length ys + pos ((j div 2) * (?w div 2) + (Suc i + 1) div 2))) (r, g, b) (?done @ rest')"
    using i y c d q px unfolding nxt [symmetric] by (subst yuv_row.simps) simp
  have prem: "Suc i \<le> ?w" "length ?done = 3 * (j * ?w + Suc i)" "3 * (?w - Suc i) \<le> length rest'"
    "odd (Suc i) \<longrightarrow> (let k = (j div 2) * (?w div 2) + Suc i div 2 in (r, g, b) = chroma_temps (chroma (us ! k)) (chroma (vs ! k)))"
    using i Suc.prems(2,3) rest t by (auto simp: Let_def)
  have n: "n = ?w - Suc i" using Suc.hyps(2) by simp
  obtain temps' where run: "yuv_row ty ?w (width * height div 4) (ys @ pack us vs) (Suc i) (of_nat (j * ?w + Suc i))
          (int (length ys + pos ((j div 2) * (?w div 2) + (Suc i + 1) div 2))) (r, g, b) (?done @ rest')
      = Inr (of_nat (Suc j * ?w), temps', ?done @ concat (map (point_rgb ?w ys us vs) [j * ?w + Suc i..<Suc j * ?w]) @ drop (3 * (?w - Suc i)) rest')"
    using Suc.hyps(1) [OF n prem(1,2,3) refl prem(4)] by blast
  have "[?p..<Suc j * ?w] = ?p # [j * ?w + Suc i..<Suc j * ?w]" using i by (simp add: upt_conv_Cons)
  moreover have "drop (3 * (?w - i)) rest = drop (3 * (?w - Suc i)) rest'"
  proof -
    have "3 * (?w - i) = Suc (Suc (Suc (3 * (?w - Suc i))))" using i by simp
    then show ?thesis unfolding rest by simp
  qed
  ultimately show ?case using step run by (intro exI [of _ temps']) simp
qed

lemma rows:
  assumes ok: "planes_ok width height ys us vs"
  shows "j \<le> unat height \<Longrightarrow> length done = 3 * (j * unat width) \<Longrightarrow> length rest \<ge> 3 * ((unat height - j) * unat width) \<Longrightarrow>
    yuv_rows ty width (unat height) (width * height) (ys @ pack us vs) j (of_nat (j * unat width)) temps (done @ rest)
      = Inr (done @ concat (map (point_rgb (unat width) ys us vs) [j * unat width..<length ys]) @ drop (3 * ((unat height - j) * unat width)) rest)"
proof (induction "unat height - j" arbitrary: j temps "done" rest)
  case 0
  then have "j = unat height" by simp
  then show ?case using ok by (subst yuv_rows.simps) (simp add: planes_ok_def mult.commute)
next
  case (Suc n)
  let ?w = "unat width"
  have j: "j < unat height" using Suc.hyps(2) by simp
  have split: "(unat height - j) * ?w = ?w + (unat height - Suc j) * ?w"
    using j by (metis Suc_diff_Suc mult_Suc)
  have le: "Suc j * ?w \<le> length ys"
    using mult_le_mono1 [of "Suc j" "unat height" ?w] j ok by (simp add: planes_ok_def mult.commute)
  have rest: "3 * ?w \<le> length rest" "3 * ((unat height - Suc j) * ?w) \<le> length (drop (3 * ?w) rest)"
    using Suc.prems(3) split by simp_all
  obtain temps' where r: "yuv_row ty ?w (width * height div 4) (ys @ pack us vs) 0 (of_nat (j * ?w)) (int (length ys + pos ((j div 2) * (?w div 2)))) temps (done @ rest)
      = Inr (of_nat (Suc j * ?w), temps', done @ concat (map (point_rgb ?w ys us vs) [j * ?w..<Suc j * ?w]) @ drop (3 * ?w) rest)"
    using row [OF ok j, of 0 "done" rest _ temps] Suc.prems(2) rest(1) by auto
  let ?done = "done @ concat (map (point_rgb ?w ys us vs) [j * ?w..<Suc j * ?w])"
  have three: "length (concat (map (point_rgb ?w ys us vs) xs)) = 3 * length xs" for xs by (induction xs) simp_all
  have len: "length ?done = 3 * (Suc j * ?w)" using Suc.prems(2) three by simp
  have n: "n = unat height - Suc j" "Suc j \<le> unat height" using Suc.hyps(2) by simp_all
  have "yuv_rows ty width (unat height) (width * height) (ys @ pack us vs) (Suc j) (of_nat (Suc j * ?w)) temps' (?done @ drop (3 * ?w) rest)
    = Inr (?done @ concat (map (point_rgb ?w ys us vs) [Suc j * ?w..<length ys]) @ drop (3 * ((unat height - Suc j) * ?w)) (drop (3 * ?w) rest))"
    using Suc.hyps(1) [OF n len rest(2)] .
  moreover have "yuv_rows ty width (unat height) (width * height) (ys @ pack us vs) j (of_nat (j * ?w)) temps (done @ rest)
      = yuv_rows ty width (unat height) (width * height) (ys @ pack us vs) (Suc j) (of_nat (Suc j * ?w)) temps' (?done @ drop (3 * ?w) rest)"
    using j row_start [OF ok j] r by (subst yuv_rows.simps) simp
  moreover have "[j * ?w..<length ys] = [j * ?w..<Suc j * ?w] @ [Suc j * ?w..<length ys]"
    using upt_add_eq_append [of "j * ?w" "Suc j * ?w" "length ys - Suc j * ?w"] le by simp
  ultimately show ?case using split by (simp add: add.commute)
qed

lemma to_rgb:
  assumes ok: "planes_ok width height ys us vs" and "length dst = 3 * length ys"
  shows "yuv420_to_rgb junk ty width height (ys @ pack us vs) dst = Inr (picture (unat width) ys us vs)"
  using rows [OF ok, of 0 "[]" dst junk] assms by (simp add: yuv420_to_rgb_def picture_def planes_ok_def mult.commute)

end

section \<open>The four layouts\<close>

lemma planes_words:
  assumes "planes_ok width height ys us vs"
  shows "width * height = of_nat (length ys)" and "width * height div 4 = of_nat (length us)" and "width div 2 = of_nat (unat width div 2)"
    and "length ys = 4 * length us" and "3 * length ys < 2 ^ 32"
proof -
  have ok: "even (unat width)" "even (unat height)" "length ys = unat width * unat height" "length us = length ys div 4" "3 * length ys < 2 ^ 32"
    using assms by (simp_all add: planes_ok_def)
  show wh: "width * height = of_nat (length ys)" by (simp add: ok(3))
  have "(of_nat (length ys) :: u32) div of_nat 4 = of_nat (length ys div 4)" using ok(5) by (intro word_div) simp_all
  then show "width * height div 4 = of_nat (length us)" using wh ok(4) by simp
  have "(of_nat (unat width) :: u32) div of_nat 2 = of_nat (unat width div 2)"
    using unsigned_less [of width, where 'a = nat] by (intro word_div) simp_all
  then show "width div 2 = of_nat (unat width div 2)" by simp
  obtain a b where "unat width = 2 * a" "unat height = 2 * b" using ok(1,2) by (auto elim!: evenE)
  then show "length ys = 4 * length us" using ok(3,4) by simp
  show "3 * length ys < 2 ^ 32" by (rule ok(5))
qed

lemma interleave_at:
  "length us = length vs \<Longrightarrow> k < length us \<Longrightarrow>
    interleave us vs ! (2 * k) = us ! k \<and> interleave us vs ! (2 * k + 1) = vs ! k"
proof (induction us vs arbitrary: k rule: list_induct2)
  case (Cons u us v vs)
  then show ?case by (cases k) (auto simp: interleave_def)
qed simp

lemma interleave_length: "length us = length vs \<Longrightarrow> length (interleave us vs) = 2 * length us"
  by (induction us vs rule: list_induct2) (auto simp: interleave_def)

lemma rd_behind: "k < length xs \<Longrightarrow> i = int (length ys + k) \<Longrightarrow> rd_buf (ys @ xs) i = Inr (xs ! k)"
  by (simp add: rd_buf_def nth_append del: of_nat_add)

lemma yuv_distinct:
  "YUV_TYPE_I420 \<noteq> YUV_TYPE_YU12" "YUV_TYPE_YU12 \<noteq> YUV_TYPE_I420" "YUV_TYPE_NV12 \<noteq> YUV_TYPE_NV21" "YUV_TYPE_NV21 \<noteq> YUV_TYPE_NV12"
  "YUV_TYPE_NV12 \<noteq> YUV_TYPE_I420" "YUV_TYPE_NV12 \<noteq> YUV_TYPE_YU12" "YUV_TYPE_NV21 \<noteq> YUV_TYPE_I420" "YUV_TYPE_NV21 \<noteq> YUV_TYPE_YU12"
  by (simp_all add: yuv_types)

lemma planar_start:
  assumes "planes_ok width height ys us vs" "j < unat height" "ty = YUV_TYPE_I420 \<or> ty = YUV_TYPE_YU12"
  shows "uvp_start ty width (width * height) j = Some (int (length ys + (j div 2) * (unat width div 2)))"
proof -
  note w = planes_words [OF assms(1)]
  have "(j div 2) * (unat width div 2) \<le> length us"
  proof (cases "0 < unat width")
    case True
    then show ?thesis using planes_sample(1) [OF assms(1,2) True] by simp
  qed simp
  then have lt: "length ys + (j div 2) * (unat width div 2) < 2 ^ 31" using w(4,5) by simp
  have "width * height + of_nat (j div 2) * (width div 2) = of_nat (length ys + (j div 2) * (unat width div 2))"
    unfolding w(1,3) by simp
  then show ?thesis using assms(3) sint_u32 [OF lt] by (simp add: uvp_start_def del: of_nat_add of_nat_mult)
qed

lemma planar_next:
  assumes "planes_ok width height ys us vs" "k < length us" "length ps = length us" "length qs = length us"
    and "ty = YUV_TYPE_I420 \<or> ty = YUV_TYPE_YU12"
  shows "yuv_chroma ty (width * height div 4) (ys @ ps @ qs) (int (length ys + k))
    = Inr (if ty = YUV_TYPE_I420 then (chroma (ps ! k), chroma (qs ! k), int (length ys + Suc k)) else (chroma (qs ! k), chroma (ps ! k), int (length ys + Suc k)))"
proof -
  note w = planes_words [OF assms(1)]
  have "word_of_int (int (length ys + k)) + width * height div 4 = (of_nat (length ys + k + length us) :: u32)"
    unfolding w(2) by simp
  then have "uint (word_of_int (int (length ys + k)) + width * height div 4) = int (length ys + (length us + k))"
    using w(4,5) assms(2) uint_u32 [of "length ys + k + length us"] by simp
  moreover have "rd_buf (ys @ ps @ qs) (int (length ys + (length us + k))) = Inr (qs ! k)"
    using rd_behind [of "length us + k" "ps @ qs" _ ys] assms(2-4) by (simp add: nth_append)
  moreover have "rd_buf (ys @ ps @ qs) (int (length ys + k)) = Inr (ps ! k)"
    using rd_behind [of k "ps @ qs" _ ys] assms(2-4) by (simp add: nth_append)
  ultimately show ?thesis using assms(5) by (auto simp: yuv_chroma_def)
qed

lemma paired_start:
  assumes "planes_ok width height ys us vs" "j < unat height" "ty = YUV_TYPE_NV12 \<or> ty = YUV_TYPE_NV21"
  shows "uvp_start ty width (width * height) j = Some (int (length ys + 2 * ((j div 2) * (unat width div 2))))"
proof -
  note w = planes_words [OF assms(1)]
  have even: "2 * (unat width div 2) = unat width" using assms(1) by (simp add: planes_ok_def)
  have "(j div 2) * (unat width div 2) \<le> length us"
  proof (cases "0 < unat width")
    case True
    then show ?thesis using planes_sample(1) [OF assms(1,2) True] by simp
  qed simp
  then have lt: "length ys + 2 * ((j div 2) * (unat width div 2)) < 2 ^ 31" using w(4,5) by simp
  have n: "2 * ((j div 2) * (unat width div 2)) = (j div 2) * unat width" using even by (metis mult.left_commute)
  have "width * height + of_nat (j div 2) * width = of_nat (length ys + 2 * ((j div 2) * (unat width div 2)))"
    unfolding w(1) n by simp
  then show ?thesis using assms(3) sint_u32 [OF lt] by (auto simp: uvp_start_def yuv_distinct simp del: of_nat_add of_nat_mult)
qed

lemma paired_next:
  assumes "k < length ps" "length ps = length qs" "ty = YUV_TYPE_NV12 \<or> ty = YUV_TYPE_NV21"
  shows "yuv_chroma ty uv (ys @ interleave ps qs) (int (length ys + 2 * k))
    = Inr (if ty = YUV_TYPE_NV12 then (chroma (ps ! k), chroma (qs ! k), int (length ys + 2 * Suc k)) else (chroma (qs ! k), chroma (ps ! k), int (length ys + 2 * Suc k)))"
proof -
  have "rd_buf (ys @ interleave ps qs) (int (length ys + 2 * k)) = Inr (ps ! k)"
    "rd_buf (ys @ interleave ps qs) (int (length ys + 2 * k) + 1) = Inr (qs ! k)"
    using rd_behind [of "2 * k" "interleave ps qs" _ ys] rd_behind [of "2 * k + 1" "interleave ps qs" "int (length ys + 2 * k) + 1" ys]
      interleave_at [OF assms(2,1)] interleave_length [OF assms(2)] assms(1) by simp_all
  then show ?thesis using assms(3) by (auto simp: yuv_chroma_def yuv_distinct)
qed

lemma planes_lengths: "planes_ok width height ys us vs \<Longrightarrow> length vs = length us"
  by (simp add: planes_ok_def)

interpretation i420: chroma_layout YUV_TYPE_I420 "\<lambda>us vs. us @ vs" "\<lambda>k. k"
proof (unfold_locales, goal_cases)
  case 1 then show ?case by (rule planar_start) simp
next
  case (2 width height ys us vs k)
  then show ?case unfolding planar_next [OF 2 refl planes_lengths [OF 2(1)] disjI1 [OF refl]] by simp
qed

interpretation yu12: chroma_layout YUV_TYPE_YU12 "\<lambda>us vs. vs @ us" "\<lambda>k. k"
proof (unfold_locales, goal_cases)
  case 1 then show ?case by (rule planar_start) simp
next
  case (2 width height ys us vs k)
  then show ?case unfolding planar_next [OF 2 planes_lengths [OF 2(1)] refl disjI2 [OF refl]] by (simp add: yuv_distinct)
qed

interpretation nv12: chroma_layout YUV_TYPE_NV12 interleave "\<lambda>k. 2 * k"
proof (unfold_locales, goal_cases)
  case 1 then show ?case by (rule paired_start) simp
next
  case (2 width height ys us vs k)
  then show ?case unfolding paired_next [OF 2(2) planes_lengths [OF 2(1), symmetric] disjI1 [OF refl]] by simp
qed

interpretation nv21: chroma_layout YUV_TYPE_NV21 "\<lambda>us vs. interleave vs us" "\<lambda>k. 2 * k"
proof (unfold_locales, goal_cases)
  case 1 then show ?case by (rule paired_start) simp
next
  case (2 width height ys us vs k)
  then have k: "k < length vs" using planes_lengths by simp
  then show ?case unfolding paired_next [OF k planes_lengths [OF 2(1)] disjI2 [OF refl]] by (simp add: yuv_distinct)
qed

end
