(* ===== verification/Yuv_Properties.thy ===== *)
theory Yuv_Properties
  imports Yuv_Proofs
begin

text \<open>The properties of the YUV conversion: layouts, planes, BMP files and the whole program.\<close>

section \<open>Planes\<close>

text \<open>What the loop of the interleaved formats leaves in a plane: the bytes of one parity.\<close>

definition spread :: "bool \<Rightarrow> nat \<Rightarrow> nat \<Rightarrow> byte list \<Rightarrow> nat \<Rightarrow> byte list \<Rightarrow> byte list" where
  "spread par from limit data base a = map (\<lambda>k. if from \<le> k \<and> k < limit \<and> even k = par then data ! (base + k) else a ! k) [0..<length a]"

lemma spread_step:
  "index + 1 < limit \<Longrightarrow> spread par (index + 2) limit data base (a[(if even index = par then index else index + 1) := data ! (base + (if even index = par then index else index + 1))])
    = spread par index limit data base a" if "even limit" "even index" "limit \<le> length a" for a
  using that by (intro nth_equalityI) (auto simp: spread_def nth_list_update not_le less_Suc_eq)

lemma nv_loop_spreads:
  "even index \<Longrightarrow> even limit \<Longrightarrow> limit \<le> length a \<Longrightarrow> limit \<le> length b \<Longrightarrow> base + limit \<le> length data \<Longrightarrow>
    nv_loop data (int (base + index)) a b index limit = Inr (spread True index limit data base a, spread False index limit data base b)"
proof (induction "limit - index" arbitrary: index a b rule: less_induct)
  case less
  show ?case
  proof (cases "index < limit")
    case True
    then have lt: "index + 1 < limit" using less.prems(1,2) by (metis Suc_eq_plus1 Suc_lessI even_Suc)
    let ?a = "a[index := data ! (base + index)]" and ?b = "b[index + 1 := data ! (base + (index + 1))]"
    have "rd_buf data (int (base + index)) = Inr (data ! (base + index))" "rd_buf data (int (base + index) + 1) = Inr (data ! (base + (index + 1)))"
      "wr_buf a (int index) (data ! (base + index)) = Inr ?a" "wr_buf b (int (index + 1)) (data ! (base + (index + 1))) = Inr ?b"
      using lt less.prems(3-5) by (simp_all add: rd_buf_def wr_buf_def nat_add_distrib add.assoc)
    moreover have "nv_loop data (int (base + index) + 2) ?a ?b (index + 2) limit
        = Inr (spread True (index + 2) limit data base ?a, spread False (index + 2) limit data base ?b)"
      using True less.prems less.hyps [of "index + 2" ?a ?b] by (simp add: algebra_simps)
    moreover have "spread True (index + 2) limit data base ?a = spread True index limit data base a"
      "spread False (index + 2) limit data base ?b = spread False index limit data base b"
      using spread_step [of limit index a True data base] spread_step [of limit index b False data base] lt less.prems by simp_all
    ultimately show ?thesis using True by (subst nv_loop.simps) (simp del: of_nat_add)
  qed (subst nv_loop.simps, auto simp: spread_def intro!: nth_equalityI)
qed

lemma copy_planes_ok:
  assumes "length (u_data p) \<ge> unat (wh div 4)" "length (v_data p) \<ge> unat (wh div 4)"
    "unat upos + unat (wh div 4) \<le> length data" "unat vpos + unat (wh div 4) \<le> length data"
  shows "copy_planes data wh upos vpos p = Inr (0, p\<lparr>
    u_data := take (unat (wh div 4)) (drop (unat upos) data) @ drop (unat (wh div 4)) (u_data p),
    v_data := take (unat (wh div 4)) (drop (unat vpos) data) @ drop (unat (wh div 4)) (v_data p),
    u_data_len := wh div 4, v_data_len := wh div 4\<rparr>)"
proof -
  have n: "int (unat (wh div 4)) = uint (wh div 4)" "int (unat upos) = uint upos" "int (unat vpos) = uint vpos" by simp_all
  have "rd_bytes data (uint upos) (unat (wh div 4)) = Inr (take (unat (wh div 4)) (drop (unat upos) data))"
    "rd_bytes data (uint vpos) (unat (wh div 4)) = Inr (take (unat (wh div 4)) (drop (unat vpos) data))"
    using assms(3,4) rd_bytes_ok [of "int (unat upos)" "unat (wh div 4)" data] rd_bytes_ok [of "int (unat vpos)" "unat (wh div 4)" data]
    by (simp_all del: of_nat_unat add: n [symmetric] flip: of_nat_add)
  moreover have "wr_bytes m 0 (take n (drop x data)) = Inr (take n (drop x data) @ drop n m)"
    if "x + n \<le> length data" "n \<le> length m" for x n and m :: "byte list"
    using that by (subst wr_bytes_ok) simp_all
  ultimately show ?thesis using assms by (simp add: copy_planes_def)
qed

lemma planes_numbers:
  assumes "planes_ok width height ys us vs" "5 * length ys < 2 ^ 32"
  shows "unat (width * height) = 4 * length us" "unat (width * height div 4) = length us" "unat (width * height div 2) = 2 * length us"
    "unat (width * height * 5 div 4) = 5 * length us" "unat (width * height * 3) = 3 * length ys"
    "width * height * 3 div 2 = of_nat (6 * length us)"
proof -
  note w = planes_words [OF assms(1)]
  have n: "width * height = of_nat (4 * length us)" using w(1,4) by metis
  have lt: "20 * length us < 2 ^ 32" using assms(2) w(4) by simp
  show "unat (width * height) = 4 * length us" unfolding n by (rule unat_u32) (use lt in simp)
  show "unat (width * height div 4) = length us" unfolding w(2) by (rule unat_u32) (use lt in simp)
  have "(of_nat (4 * length us) :: u32) div of_nat 2 = of_nat (2 * length us)" using lt by (subst word_div) simp_all
  then show "unat (width * height div 2) = 2 * length us" unfolding n using unat_u32 [of "2 * length us"] lt by simp
  have "(of_nat (20 * length us) :: u32) div of_nat 4 = of_nat (5 * length us)" using lt by (subst word_div) simp_all
  then show "unat (width * height * 5 div 4) = 5 * length us" unfolding n using unat_u32 [of "5 * length us"] lt by simp
  have "(of_nat (4 * length us) :: u32) * 3 = of_nat (3 * length ys)" unfolding w(4) by simp
  then show "unat (width * height * 3) = 3 * length ys" unfolding n using unat_u32 [of "3 * length ys"] w(5) by simp
  have "(of_nat (12 * length us) :: u32) div of_nat 2 = of_nat (6 * length us)" using lt by (subst word_div) simp_all
  then show "width * height * 3 div 2 = of_nat (6 * length us)" unfolding n by simp
qed

lemma data_parse:
  assumes ok: "planes_ok width height ys us vs" "5 * length ys < 2 ^ 32" and c: "length c = 2 * length us"
    and p: "length (y_data p) = length ys" "length (u_data p) = length ys" "length (v_data p) = length ys"
  shows "yuv_data_parse (ys @ c) YUV_TYPE_I420 width height p = Inr (0, p\<lparr>y_data := ys, u_data := take (length us) c @ drop (length us) (u_data p),
      v_data := drop (length us) c @ drop (length us) (v_data p), y_data_len := width * height, u_data_len := width * height div 4, v_data_len := width * height div 4\<rparr>)"
    and "yuv_data_parse (ys @ c) YUV_TYPE_YU12 width height p = Inr (0, p\<lparr>y_data := ys, u_data := drop (length us) c @ drop (length us) (u_data p),
      v_data := take (length us) c @ drop (length us) (v_data p), y_data_len := width * height, u_data_len := width * height div 4, v_data_len := width * height div 4\<rparr>)"
    and "yuv_data_parse (ys @ c) YUV_TYPE_NV12 width height p = Inr (0, p\<lparr>y_data := ys, u_data := spread True 0 (length c) c 0 (u_data p),
      v_data := spread False 0 (length c) c 0 (v_data p), y_data_len := width * height, u_data_len := width * height div 4, v_data_len := width * height div 4\<rparr>)"
    and "yuv_data_parse (ys @ c) YUV_TYPE_NV21 width height p = Inr (0, p\<lparr>y_data := ys, u_data := spread False 0 (length c) c 0 (u_data p),
      v_data := spread True 0 (length c) c 0 (v_data p), y_data_len := width * height, u_data_len := width * height div 4, v_data_len := width * height div 4\<rparr>)"
proof -
  note w = planes_words [OF ok(1)] and n = planes_numbers [OF ok]
  have types: "YUV_TYPE_I420 < YUV_TYPE_420_MAX" "YUV_TYPE_YU12 < YUV_TYPE_420_MAX" "YUV_TYPE_NV12 < YUV_TYPE_420_MAX" "YUV_TYPE_NV21 < YUV_TYPE_420_MAX"
    by (simp_all add: yuv_types)
  have y: "rd_bytes (ys @ c) 0 (4 * length us) = Inr ys" "wr_bytes (y_data p) 0 ys = Inr ys"
    using w(4) p(1) rd_bytes_ok [of 0 "length ys" "ys @ c"] wr_bytes_ok [of 0 ys "y_data p"] by simp_all
  have i: "uint (width * height) = int (length ys + 0)" using n(1) w(4) by (metis add_0_right of_nat_unat)
  have sp: "spread par 0 (2 * length us) (ys @ c) (length ys) a = spread par 0 (length c) c 0 a" if "length a = length ys" for par a
    using c that by (auto simp: spread_def nth_append intro!: map_cong)
  have nv: "nv_loop (ys @ c) (uint (width * height)) a b 0 (2 * length us) = Inr (spread True 0 (length c) c 0 a, spread False 0 (length c) c 0 b)"
    if "length a = length ys" "length b = length ys" for a b
    using that nv_loop_spreads [of 0 "2 * length us" a b "length ys" "ys @ c"] w(4) c sp [of a] sp [of b] unfolding i by simp
  have cp: "copy_planes (ys @ c) (width * height) upos vpos q = Inr (0, q\<lparr>
      u_data := take (length us) (drop (unat upos) (ys @ c)) @ drop (length us) (u_data q),
      v_data := take (length us) (drop (unat vpos) (ys @ c)) @ drop (length us) (v_data q),
      u_data_len := width * height div 4, v_data_len := width * height div 4\<rparr>)"
    if "length (u_data q) = length ys" "length (v_data q) = length ys" "unat upos \<le> 5 * length us" "unat vpos \<le> 5 * length us" for q upos vpos
    using copy_planes_ok [of "width * height" q upos "ys @ c" vpos] that n(2) w(4) c by simp
  show "yuv_data_parse (ys @ c) YUV_TYPE_I420 width height p = Inr (0, p\<lparr>y_data := ys, u_data := take (length us) c @ drop (length us) (u_data p),
      v_data := drop (length us) c @ drop (length us) (v_data p), y_data_len := width * height, u_data_len := width * height div 4, v_data_len := width * height div 4\<rparr>)"
    using n w(4) c p y types by (simp add: yuv_data_parse_def Let_def cp)
  show "yuv_data_parse (ys @ c) YUV_TYPE_YU12 width height p = Inr (0, p\<lparr>y_data := ys, u_data := drop (length us) c @ drop (length us) (u_data p),
      v_data := take (length us) c @ drop (length us) (v_data p), y_data_len := width * height, u_data_len := width * height div 4, v_data_len := width * height div 4\<rparr>)"
    using n w(4) c p y types by (simp add: yuv_data_parse_def Let_def cp yuv_distinct)
  show "yuv_data_parse (ys @ c) YUV_TYPE_NV12 width height p = Inr (0, p\<lparr>y_data := ys, u_data := spread True 0 (length c) c 0 (u_data p),
      v_data := spread False 0 (length c) c 0 (v_data p), y_data_len := width * height, u_data_len := width * height div 4, v_data_len := width * height div 4\<rparr>)"
    using n p y types by (simp add: yuv_data_parse_def Let_def nv yuv_distinct)
  show "yuv_data_parse (ys @ c) YUV_TYPE_NV21 width height p = Inr (0, p\<lparr>y_data := ys, u_data := spread False 0 (length c) c 0 (u_data p),
      v_data := spread True 0 (length c) c 0 (v_data p), y_data_len := width * height, u_data_len := width * height div 4, v_data_len := width * height div 4\<rparr>)"
    using n p y types by (simp add: yuv_data_parse_def Let_def nv yuv_distinct)
qed

section \<open>BMP files\<close>

text \<open>The reader of the format: rows of pixels, each padded to a multiple of four bytes.\<close>

fun le_val :: "byte list \<Rightarrow> nat" where
  "le_val [] = 0"
| "le_val (b # bs) = unat b + 256 * le_val bs"

definition bmp_stride :: "nat \<Rightarrow> nat" where
  "bmp_stride w = (24 * w + 31) div 32 * 4"

definition bmp_read :: "byte list \<Rightarrow> (nat \<times> nat \<times> byte list) option" where
  "bmp_read f =
     (let w = le_val (take 4 (drop 18 f)); h = le_val (take 4 (drop 22 f)); off = le_val (take 4 (drop 10 f)) in
      if take 2 f = [0x42, 0x4D] \<and> le_val (take 2 (drop 28 f)) = 24 \<and> off + h * bmp_stride w \<le> length f
      then Some (w, h, concat (map (\<lambda>r. take (3 * w) (drop (off + r * bmp_stride w) f)) [0..<h]))
      else None)"

lemma byte_at_unat: "unat (byte_at k x) = unat x div 2 ^ (8 * k) mod 256"
proof -
  have "x AND 0xFF = take_bit 8 x" for x :: "64 word"
    using take_bit_eq_mask [of 8 x] by (simp add: mask_numeral)
  then have "byte_at k x = ucast (take_bit 8 (drop_bit (8 * k) x))" by (simp add: byte_at_def)
  then have "unat (byte_at k x) = take_bit 8 (drop_bit (8 * k) (unat x))"
    using unsigned_less [of x, where 'a = nat] by (simp add: unsigned_ucast_eq unsigned_take_bit_eq unsigned_drop_bit_eq take_bit_nat_eq_self)
  then show ?thesis by (simp add: take_bit_eq_mod drop_bit_eq_div)
qed

lemma four_bytes:
  assumes "n < 2 ^ 32"
  shows "n mod 256 + 256 * (n div 2 ^ 8 mod 256 + 256 * (n div 2 ^ 16 mod 256 + 256 * (n div 2 ^ 24 mod 256))) = (n :: nat)"
proof -
  define a b c where abc: "a = n div 256" "b = a div 256" "c = b div 256"
  have "n div 2 ^ 16 = b" "n div 2 ^ 24 = c" "n div 2 ^ 8 = a" by (simp_all add: abc div_mult2_eq [symmetric])
  moreover have "c < 256" using assms by (simp add: abc div_mult2_eq [symmetric] less_mult_imp_div_less)
  moreover have "n = 256 * a + n mod 256" "a = 256 * b + a mod 256" "b = 256 * c + b mod 256" by (simp_all add: abc)
  ultimately show ?thesis by simp
qed

lemma le_val_bytes:
  "unat x < 2 ^ 32 \<Longrightarrow> le_val [byte_at 0 x, byte_at 1 x, byte_at 2 x, byte_at 3 x] = unat x"
  using four_bytes [of "unat x"] by (simp add: byte_at_unat)

lemma bmp_header_list:
  "bmp_header w h = (let size = (ucast w :: 64 word) * ucast h * 3 + 54 in
     [0x42, 0x4D, byte_at 0 size, byte_at 1 size, byte_at 2 size, byte_at 3 size, 0, 0, 0, 0, 54, 0, 0, 0, 40, 0, 0, 0,
      byte_at 0 (ucast w), byte_at 1 (ucast w), byte_at 2 (ucast w), byte_at 3 (ucast w),
      byte_at 0 (ucast h), byte_at 1 (ucast h), byte_at 2 (ucast h), byte_at 3 (ucast h), 1, 0, 24, 0] @ replicate 24 0)"
  by (simp add: bmp_header_def bmp_template_def Let_def)

lemma ucast_unat: "unat (ucast x :: 64 word) = unat (x :: u32)" "unat (ucast x :: 64 word) < 2 ^ 32"
  using unsigned_less [of x, where 'a = nat] by (simp_all add: unsigned_ucast_eq take_bit_nat_eq_self)

lemma bmp_stride_ge: "3 * w \<le> bmp_stride w" "3 * w = bmp_stride w \<longleftrightarrow> 4 dvd w"
proof -
  have "(24 * w + 31) div 8 = 3 * w + 3" by simp
  then have "(24 * w + 31) div 32 = (3 * w + 3) div 4" using div_mult2_eq [of "24 * w + 31" 8 4] by simp
  then have s: "bmp_stride w = (3 * w + 3) div 4 * 4" by (simp add: bmp_stride_def)
  show "3 * w \<le> bmp_stride w" unfolding s by presburger
  show "3 * w = bmp_stride w \<longleftrightarrow> 4 dvd w" unfolding s by presburger
qed

lemma rows_concat: "concat (map (\<lambda>r. take n (drop (r * n) d)) [0..<h]) = take (h * n) d"
proof (induction h)
  case (Suc h)
  then show ?case by (simp add: take_add add.commute [of n])
qed simp

lemma bmp_read_header:
  assumes "0 < unat h" "length data = 3 * (unat w * unat h)"
  shows "bmp_read (bmp_header w h @ data) = (if 4 dvd unat w then Some (unat w, unat h, data) else None)"
proof -
  let ?f = "bmp_header w h @ data"
  have len: "length (bmp_header w h) = 54" by (simp add: bmp_header_list Let_def)
  have f: "take 2 ?f = [0x42, 0x4D]" "le_val (take 2 (drop 28 ?f)) = 24" "le_val (take 4 (drop 10 ?f)) = 54"
    "le_val (take 4 (drop 18 ?f)) = unat w" "le_val (take 4 (drop 22 ?f)) = unat h"
    using le_val_bytes [OF ucast_unat(2) [of w]] le_val_bytes [OF ucast_unat(2) [of h]]
    by (simp_all add: bmp_header_list Let_def ucast_unat(1))
  have rd: "bmp_read ?f = (if 54 + unat h * bmp_stride (unat w) \<le> 54 + length data
      then Some (unat w, unat h, concat (map (\<lambda>r. take (3 * unat w) (drop (54 + r * bmp_stride (unat w)) ?f)) [0..<unat h])) else None)"
    unfolding bmp_read_def Let_def f using len by simp
  show ?thesis
  proof (cases "4 dvd unat w")
    case True
    then have st: "bmp_stride (unat w) = 3 * unat w" using bmp_stride_ge(2) by metis
    have "drop (54 + r * (3 * unat w)) ?f = drop (r * (3 * unat w)) data" for r using len by simp
    then show ?thesis unfolding rd st using True rows_concat [of "3 * unat w" data "unat h"] assms(2) by (simp add: mult.commute)
  next
    case False
    then have "3 * unat w < bmp_stride (unat w)" using bmp_stride_ge [of "unat w"] by linarith
    then have "unat h * (3 * unat w) < unat h * bmp_stride (unat w)" using assms(1) by simp
    then show ?thesis unfolding rd using False assms(2) by (simp add: mult.commute mult.left_commute)
  qed
qed

lemma bmp_file_size:
  assumes "3 * (unat w * unat h) + 54 < 2 ^ 32"
  shows "le_val (take 4 (drop 2 (bmp_header w h @ data))) = 3 * (unat w * unat h) + 54"
proof -
  have "(ucast w :: 64 word) * ucast h * 3 + 54 = of_nat (3 * (unat w * unat h) + 54)"
    by (simp add: algebra_simps)
  then have "unat ((ucast w :: 64 word) * ucast h * 3 + 54) = 3 * (unat w * unat h) + 54"
    using assms by (simp add: unsigned_of_nat take_bit_nat_eq_self del: of_nat_add of_nat_mult)
  then show ?thesis using le_val_bytes [of "(ucast w :: 64 word) * ucast h * 3 + 54"] assms by (simp add: bmp_header_list Let_def)
qed

section \<open>The program\<close>

lemma fread_all:
  "(\<And>n. 0 < ye_fread e n) \<Longrightarrow> acc = take k content \<Longrightarrow> k \<le> length content \<Longrightarrow> fread_loop e content (length content) acc = content"
proof (induction "length content - k" arbitrary: k acc rule: less_induct)
  case less
  show ?case
  proof (cases "k = length content")
    case True
    then show ?thesis using less.prems by (subst fread_loop.simps) simp
  next
    case False
    let ?n = "min (ye_fread e k) (length content - k)"
    have n: "0 < ?n" "k + ?n \<le> length content" using less.prems(1) [of k] less.prems(3) False by auto
    have "fread_loop e content (length content) acc = fread_loop e content (length content) (take (k + ?n) content)"
      using n less.prems False by (subst fread_loop.simps) (simp add: Let_def take_add)
    also have "\<dots> = content" by (rule less.hyps [OF _ less.prems(1) refl n(2)]) (use n in linarith)
    finally show ?thesis .
  qed
qed

lemma picture_length: "length (picture w ys us vs) = 3 * length ys"
proof -
  have "length (concat (map (point_rgb w ys us vs) xs)) = 3 * length xs" for xs by (induction xs) simp_all
  then show ?thesis by (simp add: picture_def)
qed

lemma save_loop_step:
  assumes "count < 4" "yuv420_to_rgb (ye_temps e) (of_nat count) width height yuv rgb = Inr px" "ye_create e count"
    "length px = unat (width * height * 3)"
  shows "save_loop e width height yuv rgb count files
    = save_loop e width height yuv px (Suc count) (files @ [(pic_name count, bmp_header width height @ px)])"
proof -
  have "rd_bytes px 0 (unat (width * height * 3)) = Inr px" using assms(4) rd_bytes_ok [of 0 "length px" px] by simp
  then have "pic_bmp_save True width height px (width * height * 3) = Inr (0, Some (bmp_header width height @ px))"
    by (simp add: pic_bmp_save_def)
  then show ?thesis using assms(1-3) by (subst save_loop.simps) simp
qed

lemma four_pictures:
  assumes ok: "planes_ok width height ys us vs" "planes_ok width height ys ps qs" and c: "us @ vs = interleave ps qs" and dst: "length dst = 3 * length ys"
  shows "yuv420_to_rgb t (of_nat 0) width height (ys @ us @ vs) dst = Inr (picture (unat width) ys us vs)"
    "yuv420_to_rgb t (of_nat 1) width height (ys @ us @ vs) dst = Inr (picture (unat width) ys vs us)"
    "yuv420_to_rgb t (of_nat 2) width height (ys @ us @ vs) dst = Inr (picture (unat width) ys ps qs)"
    "yuv420_to_rgb t (of_nat 3) width height (ys @ us @ vs) dst = Inr (picture (unat width) ys qs ps)"
proof -
  have swap: "planes_ok width height ys vs us" "planes_ok width height ys qs ps" using ok by (auto simp: planes_ok_def)
  have types: "of_nat 0 = YUV_TYPE_I420" "of_nat 1 = YUV_TYPE_YU12" "of_nat 2 = YUV_TYPE_NV12" "of_nat 3 = YUV_TYPE_NV21" by (simp_all add: yuv_types)
  show "yuv420_to_rgb t (of_nat 0) width height (ys @ us @ vs) dst = Inr (picture (unat width) ys us vs)"
    unfolding types(1) by (rule i420.to_rgb [OF ok(1) dst])
  show "yuv420_to_rgb t (of_nat 1) width height (ys @ us @ vs) dst = Inr (picture (unat width) ys vs us)"
    unfolding types(2) by (rule yu12.to_rgb [OF swap(1) dst])
  show "yuv420_to_rgb t (of_nat 2) width height (ys @ us @ vs) dst = Inr (picture (unat width) ys ps qs)"
    unfolding types(3) c by (rule nv12.to_rgb [OF ok(2) dst])
  show "yuv420_to_rgb t (of_nat 3) width height (ys @ us @ vs) dst = Inr (picture (unat width) ys qs ps)"
    unfolding types(4) c by (rule nv21.to_rgb [OF swap(2) dst])
qed

lemma save_loop_four:
  assumes ok: "planes_ok width height ys us vs" "planes_ok width height ys ps qs" and c: "us @ vs = interleave ps qs"
    and dst: "length dst = 3 * length ys" and n: "unat (width * height * 3) = 3 * length ys" and create: "\<And>k. ye_create e k"
  shows "save_loop e width height (ys @ us @ vs) dst 0 [] = Inr (EXIT_SUCCESS,
    [(pic_name 0, bmp_header width height @ picture (unat width) ys us vs),
     (pic_name 1, bmp_header width height @ picture (unat width) ys vs us),
     (pic_name 2, bmp_header width height @ picture (unat width) ys ps qs),
     (pic_name 3, bmp_header width height @ picture (unat width) ys qs ps)])"
proof -
  note p = four_pictures [OF ok c, of _ "ye_temps e", unfolded]
  have len: "length (picture (unat width) ys a b) = unat (width * height * 3)" for a b by (simp add: picture_length n)
  have last: "save_loop e width height (ys @ us @ vs) r 4 fs = Inr (EXIT_SUCCESS, fs)" for r fs by (subst save_loop.simps) simp
  note step = save_loop_step [OF _ _ create len]
  have s: "Suc 0 = 1" "Suc 1 = 2" "Suc 2 = 3" "Suc 3 = 4" by simp_all
  show ?thesis
    using step [OF _ p(1) [OF dst], of "[]"] step [OF _ p(2) [OF picture_length]] step [OF _ p(3) [OF picture_length]] step [OF _ p(4) [OF picture_length]]
    unfolding s by (simp add: last)
qed

text \<open>C22: One picture, four layouts: whether the chroma planes stand behind the luma in either
  order or are interleaved in either order, \<open>yuv420_to_rgb\<close> computes the same RGB picture, the one
  that the planes define point by point, for every even size.\<close>

theorem yuv_layouts_agree:
  assumes "planes_ok width height ys us vs" "length dst = 3 * length ys"
  shows "yuv420_to_rgb junk YUV_TYPE_I420 width height (ys @ us @ vs) dst = Inr (picture (unat width) ys us vs)
    \<and> yuv420_to_rgb junk YUV_TYPE_YU12 width height (ys @ vs @ us) dst = Inr (picture (unat width) ys us vs)
    \<and> yuv420_to_rgb junk YUV_TYPE_NV12 width height (ys @ interleave us vs) dst = Inr (picture (unat width) ys us vs)
    \<and> yuv420_to_rgb junk YUV_TYPE_NV21 width height (ys @ interleave vs us) dst = Inr (picture (unat width) ys us vs)"
  using i420.to_rgb [OF assms] yu12.to_rgb [OF assms] nv12.to_rgb [OF assms] nv21.to_rgb [OF assms] by blast

theorem yuv_layouts_agree_witness:
  "yuv420_to_rgb (7, 7, 7) YUV_TYPE_I420 2 2 [16, 40, 235, 255, 90, 240] (replicate 12 7)
     = yuv420_to_rgb (8, 8, 8) YUV_TYPE_NV21 2 2 [16, 40, 235, 255, 240, 90] (replicate 12 9)"
  using yuv_layouts_agree [of 2 2 "[16, 40, 235, 255]" "[90]" "[240]" "replicate 12 7" "(7, 7, 7)"]
    yuv_layouts_agree [of 2 2 "[16, 40, 235, 255]" "[90]" "[240]" "replicate 12 9" "(8, 8, 8)"]
  by (simp add: planes_ok_def interleave_def)

text \<open>\<open>yuv_data_parse\<close> splits the planar formats into their planes; for the interleaved formats
  each plane gets only every other place filled, with the bytes of one parity left where they
  were in the data, because the index is advanced for both planes, although the lengths say
  that the plane is complete.\<close>

theorem yuv_planes_parsed:
  assumes "planes_ok width height ys us vs" "5 * length ys < 2 ^ 32" "length c = 2 * length us"
    "length (y_data p) = length ys" "length (u_data p) = length ys" "length (v_data p) = length ys"
  shows "\<exists>a b d. yuv_data_parse (ys @ us @ vs) YUV_TYPE_I420 width height p = Inr (0, a)
      \<and> yuv_data_parse (ys @ vs @ us) YUV_TYPE_YU12 width height p = Inr (0, b)
      \<and> yuv_data_parse (ys @ c) YUV_TYPE_NV12 width height p = Inr (0, d)
    \<and> y_data a = ys \<and> take (unat (u_data_len a)) (u_data a) = us \<and> take (unat (v_data_len a)) (v_data a) = vs
    \<and> y_data b = ys \<and> take (unat (u_data_len b)) (u_data b) = us \<and> take (unat (v_data_len b)) (v_data b) = vs
    \<and> unat (u_data_len d) = length us
    \<and> u_data d = map (\<lambda>k. if k < length c \<and> even k then c ! k else u_data p ! k) [0..<length ys]
    \<and> v_data d = map (\<lambda>k. if k < length c \<and> odd k then c ! k else v_data p ! k) [0..<length ys]"
proof -
  have vu: "length us = length vs" using planes_lengths [OF assms(1)] by simp
  note d = data_parse [OF assms(1,2) _ assms(4-6)]
  show ?thesis
    using d(1) [of "us @ vs"] d(2) [of "vs @ us"] d(3) [OF assms(3)] planes_numbers(2) [OF assms(1,2)] vu assms(5,6)
    by (simp add: spread_def)
qed

theorem yuv_planes_parsed_witness:
  "\<exists>d. yuv_data_parse [1, 2, 3, 4, 5, 6] YUV_TYPE_NV12 2 2
      \<lparr>y_data = [0, 0, 0, 0], u_data = [9, 9, 9, 9], v_data = [9, 9, 9, 9], y_data_len = 0, u_data_len = 0, v_data_len = 0\<rparr> = Inr (0, d)
    \<and> u_data d = [5, 9, 9, 9] \<and> v_data d = [9, 6, 9, 9]"
  using yuv_planes_parsed [of 2 2 "[1, 2, 3, 4]" "[5]" "[6]" "[5, 6]"
      "\<lparr>y_data = [0, 0, 0, 0], u_data = [9, 9, 9, 9], v_data = [9, 9, 9, 9], y_data_len = 0, u_data_len = 0, v_data_len = 0\<rparr>"]
  by (auto simp: planes_ok_def upt_conv_Cons)

text \<open>The saved BMP file has the size that its header says and is read back by the format's
  rules as the picture, when the width is a multiple of four; for any other width the rows lack
  their padding, and a reader finds the file too short.\<close>

theorem bmp_readable:
  assumes "0 < unat height" "length data = 3 * (unat width * unat height)" "length data + 54 < 2 ^ 32"
  shows "\<exists>file. pic_bmp_save True width height data (width * height * 3) = Inr (0, Some file)
    \<and> le_val (take 4 (drop 2 file)) = length file
    \<and> bmp_read file = (if 4 dvd unat width then Some (unat width, unat height, data) else None)"
proof -
  have "width * height * 3 = (of_nat (length data) :: u32)" using assms(2) by (simp add: algebra_simps)
  then have "unat (width * height * 3) = length data" using unat_u32 [of "length data"] assms(3) by simp
  then have "rd_bytes data 0 (unat (width * height * 3)) = Inr data" using rd_bytes_ok [of 0 "length data" data] by simp
  moreover have "length (bmp_header width height) = 54" by (simp add: bmp_header_list Let_def)
  ultimately show ?thesis
    using bmp_read_header [OF assms(1,2)] bmp_file_size [of width height data] assms(2,3)
    by (simp add: pic_bmp_save_def)
qed

theorem bmp_readable_witness:
  "\<exists>file. pic_bmp_save True 4 1 [1, 2, 3, 4, 5, 6, 7, 8, 9, 10, 11, 12] 12 = Inr (0, Some file)
    \<and> bmp_read file = Some (4, 1, [1, 2, 3, 4, 5, 6, 7, 8, 9, 10, 11, 12])"
  using bmp_readable [of 1 "[1, 2, 3, 4, 5, 6, 7, 8, 9, 10, 11, 12]" 4] by auto

text \<open>C23: The program from its arguments to its files: for a file of the right length and any of
  the four types on the command line it succeeds, however \<open>fread\<close> splits the file, and writes four
  pictures, the file read as each of the four formats; the type that was asked for plays no role.\<close>

theorem yuv_main_saves:
  assumes "planes_ok width height ys us vs" "planes_ok width height ys ps qs" "us @ vs = interleave ps qs"
    and "5 * length ys < 2 ^ 32" "width \<noteq> 0" "height \<noteq> 0" "type < 4"
    and "ye_file e = Some (ys @ us @ vs)" "ye_seek e = (True, True)" "ye_tell e"
    and "\<And>n. 0 < ye_fread e n" "\<And>k. ye_alloc e k" "\<And>k. ye_create e k"
  shows "yuv_main e [prog, dec_nat type, path, dec_nat (unat width), dec_nat (unat height)] = Inr (EXIT_SUCCESS,
    [(pic_name 0, bmp_header width height @ picture (unat width) ys us vs),
     (pic_name 1, bmp_header width height @ picture (unat width) ys vs us),
     (pic_name 2, bmp_header width height @ picture (unat width) ys ps qs),
     (pic_name 3, bmp_header width height @ picture (unat width) ys qs ps)])"
proof -
  let ?ty = "word_of_int (int type) :: u32"
  have nondigit: "\<not> c_isdigit 0" by (simp add: c_isdigit_def)
  have vu: "length vs = length us" by (rule planes_lengths [OF assms(1)])
  have type: "?ty \<in> {YUV_TYPE_I420, YUV_TYPE_YU12, YUV_TYPE_NV12, YUV_TYPE_NV21}"
    using assms(7) by (auto simp: yuv_types less_Suc_eq numeral_eq_Suc)
  have n: "unat (width * height) = length ys" "unat (width * height * 3) = 3 * length ys"
    using planes_numbers(1,5) [OF assms(1,4)] planes_words(4) [OF assms(1)] by simp_all
  have check: "yuv_lenght_check ?ty (of_nat (length (ys @ us @ vs))) width height"
    using type planes_numbers(6) [OF assms(1,4)] vu planes_words(4) [OF assms(1)] by (simp add: yuv_lenght_check_def)
  have parse: "\<exists>p'. yuv_data_parse (ys @ us @ vs) ?ty width height p = Inr (0, p')"
    if "length (y_data p) = length ys" "length (u_data p) = length ys" "length (v_data p) = length ys" for p
    using data_parse [OF assms(1,4) _ that, of "us @ vs"] type vu by auto
  have read: "fread_loop e (ys @ us @ vs) (length (ys @ us @ vs)) [] = ys @ us @ vs"
    using fread_all [of e "[]" 0 "ys @ us @ vs"] assms(11) by simp
  have conv: "yuv_convert e (ys @ us @ vs) ?ty width height = save_loop e width height (ys @ us @ vs) (replicate (3 * length ys) (ye_fill e)) 0 []"
    using parse [of "\<lparr>y_data = replicate (length ys) (ye_fill e), u_data = replicate (length ys) (ye_fill e), v_data = replicate (length ys) (ye_fill e), y_data_len = 0, u_data_len = 0, v_data_len = 0\<rparr>"]
      read assms(12) n by (auto simp: yuv_convert_def Let_def)
  have "yuv_main e [prog, dec_nat type, path, dec_nat (unat width), dec_nat (unat height)] = yuv_convert e (ys @ us @ vs) ?ty width height"
    using check assms(5,6,8-10) atoi_dec [OF nondigit, of _ "[]"] by (simp add: yuv_main_def)
  then show ?thesis
    using conv save_loop_four [OF assms(1-3) _ n(2) assms(13), of "replicate (3 * length ys) (ye_fill e)"] by simp
qed

theorem yuv_main_saves_witness:
  "\<exists>files. yuv_main \<lparr>ye_file = Some [1, 2, 3, 4, 5, 6], ye_seek = (True, True), ye_tell = True, ye_fread = \<lambda>_. 4,
      ye_alloc = \<lambda>_. True, ye_create = \<lambda>_. True, ye_fill = 0, ye_temps = (0, 0, 0)\<rparr>
      [[], dec_nat 3, [], dec_nat 2, dec_nat 2] = Inr (EXIT_SUCCESS, files) \<and> length files = 4"
  using yuv_main_saves [of 2 2 "[1, 2, 3, 4]" "[5]" "[6]" "[5]" "[6]" 3 "\<lparr>ye_file = Some [1, 2, 3, 4, 5, 6], ye_seek = (True, True), ye_tell = True, ye_fread = \<lambda>_. 4,
      ye_alloc = \<lambda>_. True, ye_create = \<lambda>_. True, ye_fill = 0, ye_temps = (0, 0, 0)\<rparr>" "[]" "[]"]
  by (simp add: planes_ok_def interleave_def)

text \<open>The length check does not protect the conversion: for odd sizes the division rounds down
  and the chroma samples lie behind the data; for huge sizes the product wraps around.\<close>

theorem length_check_insufficient:
  "yuv_lenght_check YUV_TYPE_I420 1 1 1 \<and> yuv420_to_rgb junk YUV_TYPE_I420 1 1 [y] dst = Inl OutOfBounds"
  "yuv_lenght_check YUV_TYPE_I420 0 65536 65536 \<and> yuv420_to_rgb junk YUV_TYPE_I420 65536 65536 [] dst = Inl OutOfBounds"
proof -
  have row: "yuv_row YUV_TYPE_I420 (Suc 0) 0 [y] 0 0 1 junk dst = Inl OutOfBounds"
    by (subst yuv_row.simps) (simp add: rd_buf_def yuv_chroma_def)
  show "yuv_lenght_check YUV_TYPE_I420 1 1 1 \<and> yuv420_to_rgb junk YUV_TYPE_I420 1 1 [y] dst = Inl OutOfBounds"
    unfolding yuv420_to_rgb_def by (subst yuv_rows.simps) (simp add: row yuv_lenght_check_def uvp_start_def)
  have row: "yuv_row YUV_TYPE_I420 65536 0 [] 0 0 0 junk dst = Inl OutOfBounds"
    by (subst yuv_row.simps) (simp add: rd_buf_def)
  show "yuv_lenght_check YUV_TYPE_I420 0 65536 65536 \<and> yuv420_to_rgb junk YUV_TYPE_I420 65536 65536 [] dst = Inl OutOfBounds"
    unfolding yuv420_to_rgb_def by (subst yuv_rows.simps) (simp add: row yuv_lenght_check_def uvp_start_def)
qed

end
