(* ===== verification/M_Log.thy ===== *)
theory M_Log
  imports C_Library
begin

text \<open>
  The log of \<open>lib/m_log.c\<close>: levels as bits of a byte, the log file with the copy of its path, one
  message from its parts to the bytes that are printed.  \<open>HAVE_VSNPRINTF\<close> is defined nowhere in the
  sources, so a message is formatted by \<open>vsprintf\<close>; its text is an argument.
\<close>

definition LOG_NONE :: int where "LOG_NONE = 0"
definition LOG_F :: int where "LOG_F = 1"
definition LOG_A :: int where "LOG_A = 2"
definition LOG_E :: int where "LOG_E = 3"
definition LOG_W :: int where "LOG_W = 4"
definition LOG_I :: int where "LOG_I = 5"
definition LOG_D :: int where "LOG_D = 6"

lemmas log_levels = LOG_NONE_def LOG_F_def LOG_A_def LOG_E_def LOG_W_def LOG_I_def LOG_D_def

definition ERRNO_SIZE :: int where "ERRNO_SIZE = 133"
definition LOG_BUF_SIZE :: nat where "LOG_BUF_SIZE = 2048"

section \<open>Colours and bits\<close>

definition COLOR_NONE :: "byte list" where "COLOR_NONE = 0x1B # bytes_of ''[0m''"
definition COLOR_RED :: "byte list" where "COLOR_RED = 0x1B # bytes_of ''[0;31m''"
definition COLOR_GREEN :: "byte list" where "COLOR_GREEN = 0x1B # bytes_of ''[0;32m''"
definition COLOR_BLUE :: "byte list" where "COLOR_BLUE = 0x1B # bytes_of ''[0;34m''"
definition COLOR_YELLOW :: "byte list" where "COLOR_YELLOW = 0x1B # bytes_of ''[1;33m''"

text \<open>The shift of a byte is done in an int and cast back; the level is not negative and less than
  32 where these are used with a meaning.\<close>

definition PRESENT_BIT8 :: "int \<Rightarrow> byte" where
  "PRESENT_BIT8 x = ucast (push_bit (nat x) 1 :: u32)"

definition BIT_ON8 :: "byte \<Rightarrow> int \<Rightarrow> bool" where
  "BIT_ON8 m b = (m AND PRESENT_BIT8 b \<noteq> 0)"

definition SET_BIT8 :: "byte \<Rightarrow> int \<Rightarrow> byte" where
  "SET_BIT8 m b = m OR PRESENT_BIT8 b"

definition CLEAR_BIT8 :: "byte \<Rightarrow> int \<Rightarrow> byte" where
  "CLEAR_BIT8 m b = m AND NOT (PRESENT_BIT8 b)"

section \<open>State\<close>

text \<open>What is done to the log files and to the terminal (None).\<close>

datatype log_call =
    LogOpen "byte list" bool
  | LogClose "byte list"
  | LogReopen "byte list" bool
  | LogWrite "byte list option" "byte list"

record logger =
  log_flag :: byte
  log_inited :: bool
  log_file :: "byte list option"      \<comment> \<open>the path it was opened with; None is NULL\<close>
  log_file_path :: "byte list"
  log_level :: int
  log_world :: "log_call list"

definition logger0 :: logger where
  "logger0 = \<lparr>log_flag = 0, log_inited = False, log_file = None, log_file_path = replicate 100 0, log_level = LOG_NONE, log_world = []\<rparr>"

text \<open>The clock, as the text that \<open>strftime\<close> makes of it and the nanoseconds (None: it fails), and
  whether files can be opened.\<close>

record log_env =
  le_clock :: "log_call list \<Rightarrow> (byte list \<times> nat) option"
  le_open :: "log_call list \<Rightarrow> byte list \<Rightarrow> bool"

definition log_do :: "log_call \<Rightarrow> logger \<Rightarrow> logger" where
  "log_do c st = st\<lparr>log_world := log_world st @ [c]\<rparr>"

section \<open>Operations\<close>

definition log_time_get :: "log_env \<Rightarrow> nat \<Rightarrow> logger \<Rightarrow> byte list" where
  "log_time_get e len st =
     (case le_clock e (log_world st) of
        None \<Rightarrow> []
      | Some (t, nsec) \<Rightarrow>
          if t \<noteq> [] \<and> length t < len then take (len - 1) (t @ [0x3A] @ dec_nat (nsec div 1000000)) else [])"

definition log_print :: "log_env \<Rightarrow> byte list \<Rightarrow> logger \<Rightarrow> logger" where
  "log_print e str st =
     (let time = log_time_get e 90 st in
      if time = [] then st
      else
        let buf = take 99 ([0x5B] @ dec_int (log_level st) @ [0x5D, 0x5B] @ time @ [0x5D, 0x2D]) in
        case log_file st of
          Some f \<Rightarrow> log_do (LogWrite (Some f) str) (log_do (LogWrite (Some f) buf) st)
        | None \<Rightarrow> log_do (LogWrite None COLOR_NONE) (log_do (LogWrite None str)
                    (if buf \<noteq> [] then log_do (LogWrite None buf) st else st)))"

definition log_section :: "log_env \<Rightarrow> logger \<Rightarrow> logger" where
  "log_section e st =
     (let time = log_time_get e 90 st in
      if time = [] then st
      else
        let buf = take 499 ([0x0A] @ bytes_of ''====================== '' @ time @ bytes_of '' ======================'' @ [0x0A, 0x0A]) in
        case log_file st of
          Some f \<Rightarrow> log_do (LogWrite (Some f) buf) st
        | None \<Rightarrow> if buf \<noteq> []
                  then log_do (LogWrite None COLOR_NONE) (log_do (LogWrite None buf) (log_do (LogWrite None COLOR_YELLOW) st))
                  else st)"

text \<open>The file that is open is closed when its path is not empty.\<close>

definition log_close_file :: "logger \<Rightarrow> logger res" where
  "log_close_file st =
     rmap (\<lambda>p. case log_file st of
                Some f \<Rightarrow> if p \<noteq> [] then log_do (LogClose f) (st\<lparr>log_file := None, log_file_path := replicate 100 0\<rparr>) else st
              | None \<Rightarrow> st)
       (mem_str (log_file_path st))"

definition log_open_file :: "log_env \<Rightarrow> byte list \<Rightarrow> logger \<Rightarrow> logger res" where
  "log_open_file e path st =
     (let ok = le_open e (log_world st) path; st1 = log_do (LogOpen path ok) (st\<lparr>log_file := if ok then Some path else None\<rparr>) in
      if \<not> ok then Inr st1
      else rbind (wr_bytes (log_file_path st) 0 path) (\<lambda>p1.
           rbind (mem_str p1) (\<lambda>s.
           rmap (\<lambda>p2. st1\<lparr>log_file_path := p2\<rparr>) (wr_buf p1 (int (length s)) 0))))"

fun set_bits :: "nat \<Rightarrow> byte \<Rightarrow> byte" where
  "set_bits 0 m = m"
| "set_bits (Suc i) m = SET_BIT8 (set_bits i m) (int (Suc i))"

definition log_init :: "log_env \<Rightarrow> int \<Rightarrow> bool \<Rightarrow> byte list option \<Rightarrow> logger \<Rightarrow> logger res" where
  "log_init e level0 only_this_level log_path st =
     (let level = (if level0 > LOG_D then LOG_D else level0); st1 = st\<lparr>log_flag := 0\<rparr> in
      if level < LOG_F then Inr st1
      else rmap (\<lambda>st2.
             log_section e (st2\<lparr>log_flag := (if only_this_level then SET_BIT8 (log_flag st2) level else set_bits (nat level) (log_flag st2)),
               log_inited := True\<rparr>))
           (case log_path of
              Some path \<Rightarrow> rbind (log_close_file st1) (log_open_file e path)
            | None \<Rightarrow> log_close_file st1))"

definition level_color :: "int \<Rightarrow> byte list" where
  "level_color level =
     (if level = LOG_F \<or> level = LOG_A \<or> level = LOG_E then COLOR_RED
      else if level = LOG_W then COLOR_BLUE
      else if level = LOG_I then COLOR_GREEN
      else COLOR_NONE)"

text \<open>\<open>func\<close> and \<open>file\<close> are strings, \<open>body\<close> is what \<open>vsprintf\<close> makes of the format.\<close>

definition log_head :: "int \<Rightarrow> byte list \<Rightarrow> int \<Rightarrow> byte list \<Rightarrow> bool \<Rightarrow> byte list" where
  "log_head level file line func to_file =
     take (LOG_BUF_SIZE - 1) ([0x5B] @ file @ [0x2C] @ dec_int line @ [0x2C] @ func @ bytes_of ''()]:''
       @ (if to_file then [] else level_color level))"

definition log_private :: "log_env \<Rightarrow> int \<Rightarrow> byte list \<Rightarrow> int \<Rightarrow> byte list \<Rightarrow> byte list \<Rightarrow> logger \<Rightarrow> logger res" where
  "log_private e level file line func body st =
     rbind (if log_inited st then Inr st else log_init e LOG_I False None st) (\<lambda>st1.
     if \<not> BIT_ON8 (log_flag st1) level then Inr st1
     else
       let st2 = st1\<lparr>log_level := level\<rparr>; head = log_head level file line func (log_file st2 \<noteq> None) in
       rbind (wr_bytes (replicate (LOG_BUF_SIZE + 1) 0) 0 (head @ [0])) (\<lambda>b1.
       rbind (mem_str b1) (\<lambda>h.
       rbind (wr_bytes b1 (int (length h)) (body @ [0])) (\<lambda>b2.
       rbind (mem_str b2) (\<lambda>s.
       rbind (wr_bytes b2 (int (length s)) [0x0A, 0]) (\<lambda>b3.
       rmap (\<lambda>str. log_print e str st2) (mem_str b3)))))))"

definition log_clear :: "log_env \<Rightarrow> logger \<Rightarrow> logger res" where
  "log_clear e st =
     (case log_file st of
        Some f \<Rightarrow> rmap (\<lambda>p. let ok = le_open e (log_world st) p in
                     log_do (LogReopen p ok) (st\<lparr>log_file := if ok then Some p else None\<rparr>)) (mem_str (log_file_path st))
      | None \<Rightarrow> Inr (log_do (LogWrite None (replicate 10 0x0A)) st))"

section \<open>Error numbers\<close>

definition errno_str :: "string list" where
  "errno_str =
    [''0 : Success'',
     ''PERM 1 : Operation not permitted'',
     ''ENOENT 2 : No such file or directory'',
     ''ESRCH 3 : No such process'',
     ''EINTR 4 : Interrupted system call'',
     ''EIO 5 : I/O error'',
     ''ENXIO 6 : No such device or address'',
     ''E2BIG 7 : Argument list too long'',
     ''ENOEXEC 8 : Exec format error'',
     ''EBADF 9 : Bad file number'',
     ''ECHILD 10 : No child processes'',
     ''EAGAIN 11 : Try again'',
     ''ENOMEM 12 : Out of memory'',
     ''EACCES 13 : Permission denied'',
     ''EFAULT 14 : Bad address'',
     ''ENOTBLK 15 : Block device required'',
     ''EBUSY 16 : Device or resource busy'',
     ''EEXIST 17 : File exists'',
     ''EXDEV 18 : Cross-device link'',
     ''ENODEV 19 : No such device'',
     ''ENOTDIR 20 : Not a directory'',
     ''EISDIR 21 : Is a directory'',
     ''EINVAL 22 : Invalid argument'',
     ''ENFILE 23 : File table overflow'',
     ''EMFILE 24 : Too many open files'',
     ''ENOTTY 25 : Not a typewriter'',
     ''ETXTBSY 26 : Text file busy'',
     ''EFBIG 27 : File too large'',
     ''ENOSPC 28 : No space left on device'',
     ''ESPIPE 29 : Illegal seek'',
     ''EROFS 30 : Read-only file system'',
     ''EMLINK 31 : Too many links'',
     ''EPIPE 32 : Broken pipe'',
     ''EDOM 33 : Math argument out of domain of func'',
     ''ERANGE 34 : Math result not representable'',
     ''EDEADLK 35 : Resource deadlock would occur'',
     ''ENAMETOOLONG 36 : File name too long'',
     ''ENOLCK 37 : No record locks available'',
     ''ENOSYS 38 : Function not implemented'',
     ''ENOTEMPTY 39 : Directory not empty'',
     ''ELOOP 40 : Too many symbolic links encountered'',
     ''EWOULDBLOCK EAGAIN : Operation would block'',
     ''ENOMSG 42 : No message of desired type'',
     ''EIDRM 43 : Identifier removed'',
     ''ECHRNG 44 : Channel number out of range'',
     ''EL2NSYNC 45 : Level 2 not synchronized'',
     ''EL3HLT 46 : Level 3 halted'',
     ''EL3RST 47 : Level 3 reset'',
     ''ELNRNG 48 : Link number out of range'',
     ''EUNATCH 49 : Protocol driver not attached'',
     ''ENOCSI 50 : No CSI structure available'',
     ''EL2HLT 51 : Level 2 halted'',
     ''EBADE 52 : Invalid exchange'',
     ''EBADR 53 : Invalid request descriptor'',
     ''EXFULL 54 : Exchange full'',
     ''ENOANO 55 : No anode'',
     ''EBADRQC 56 : Invalid request code'',
     ''EBADSLT 57 : Invalid slot'',
     ''EDEADLOCK 58 : Resource deadlock would occur'',
     ''EBFONT 59 : Bad font file format'',
     ''ENOSTR 60 : Device not a stream'',
     ''ENODATA 61 : No data available'',
     ''ETIME 62 : Timer expired'',
     ''ENOSR 63 : Out of streams resources'',
     ''ENONET 64 : Machine is not on the network'',
     ''ENOPKG 65 : Package not installed'',
     ''EREMOTE 66 : Object is remote'',
     ''ENOLINK 67 : Link has been severed'',
     ''EADV 68 : Advertise error'',
     ''ESRMNT 69 : Srmount error'',
     ''ECOMM 70 : Communication error on send'',
     ''EPROTO 71 : Protocol error'',
     ''EMULTIHOP 72 : Multihop attempted'',
     ''EDOTDOT 73 : RFS specific error'',
     ''EBADMSG 74 : Not a data message'',
     ''EOVERFLOW 75 : Value too large for defined data type'',
     ''ENOTUNIQ 76 : Name not unique on network'',
     ''EBADFD 77 : File descriptor in bad state'',
     ''EREMCHG 78 : Remote address changed'',
     ''ELIBACC 79 : Can not access a needed shared library'',
     ''ELIBBAD 80 : Accessing a corrupted shared library'',
     ''ELIBSCN 81 : .lib section in a.out corrupted'',
     ''ELIBMAX 82 : Attempting to link in too many shared libraries'',
     ''ELIBEXEC 83 : Cannot exec a shared library directly'',
     ''EILSEQ 84 : Illegal byte sequence'',
     ''ERESTART 85 : Interrupted system call should be restarted'',
     ''ESTRPIPE 86 : Streams pipe error'',
     ''EUSERS 87 : Too many users'',
     ''ENOTSOCK 88 : Socket operation on non-socket'',
     ''EDESTADDRREQ 89 : Destination address required'',
     ''EMSGSIZE 90 : Message too long'',
     ''EPROTOTYPE 91 : Protocol wrong type for socket'',
     ''ENOPROTOOPT 92 : Protocol not available'',
     ''EPROTONOSUPPORT 93 : Protocol not supported'',
     ''ESOCKTNOSUPPORT 94 : Socket type not supported'',
     ''EOPNOTSUPP 95 : Operation not supported on transport endpoint'',
     ''EPFNOSUPPORT 96 : Protocol family not supported'',
     ''EAFNOSUPPORT 97 : Address family not supported by protocol'',
     ''EADDRINUSE 98 : Address already in use'',
     ''EADDRNOTAVAIL 99 : Cannot assign requested address'',
     ''ENETDOWN 100 : Network is down'',
     ''ENETUNREACH 101 : Network is unreachable'',
     ''ENETRESET 102 : Network dropped connection because of reset'',
     ''ECONNABORTED 103 : Software caused connection abort'',
     ''ECONNRESET 104 : Connection reset by peer'',
     ''ENOBUFS 105 : No buffer space available'',
     ''EISCONN 106 : Transport endpoint is already connected'',
     ''ENOTCONN 107 : Transport endpoint is not connected'',
     ''ESHUTDOWN 108 : Cannot send after transport endpoint shutdown'',
     ''ETOOMANYREFS 109 : Too many references: cannot splice'',
     ''ETIMEDOUT 110 : Connection timed out'',
     ''ECONNREFUSED 111 : Connection refused'',
     ''EHOSTDOWN 112 : Host is down'',
     ''EHOSTUNREACH 113 : No route to host'',
     ''EALREADY 114 : Operation already in progress'',
     ''EINPROGRESS 115 : Operation now in progress'',
     ''ESTALE 116 : Stale NFS file handle'',
     ''EUCLEAN 117 : Structure needs cleaning'',
     ''ENOTNAM 118 : Not a XENIX named type file'',
     ''ENAVAIL 119 : No XENIX semaphores available'',
     ''EISNAM 120 : Is a named type file'',
     ''121 : Unknown'',
     ''122 : Unknown'',
     ''123 : Unknown'',
     ''124 : Unknown'',
     ''125 : Unknown'',
     ''ENOKEY 126 : Required key not available'',
     ''EKEYEXPIRED 127 : Key has expired'',
     ''EKEYREVOKED 128 : Key has been revoked'',
     ''EKEYREJECTED 129 : Key was rejected by service'',
     ''EOWNERDEAD 130 : Owner died'',
     ''ENOTRECOVERABLE 131 : State not recoverable'',
     ''ERFKILL 132 : Operation not possible due to RF-kill'',
     ''EHWPOISON 133 : Memory page has hardware error'']"

text \<open>\<open>sys_errlist\<close> of the C library has \<open>sys_nerr\<close> entries; \<open>error_no\<close> is \<open>errno\<close>.  The line printed.\<close>

definition log_errno :: "byte list list \<Rightarrow> int \<Rightarrow> int \<Rightarrow> byte list res" where
  "log_errno sys_errlist error_no error =
     rmap (\<lambda>mesg. take 99 mesg @ [0x0A])
       (if 0 \<le> error \<and> error \<le> int (length sys_errlist)
        then rmap (\<lambda>s. s @ bytes_of '' : ('' @ dec_int error @ [0x29]) (rd_buf sys_errlist error)
        else if error_no \<noteq> 0
        then if error_no > ERRNO_SIZE \<or> error_no < 0 then Inr (bytes_of ''errno : Unknown ('' @ dec_int error_no @ [0x29])
             else rmap (\<lambda>s. bytes_of ''errno : '' @ bytes_of s) (rd_buf errno_str error_no)
        else Inr (bytes_of ''Unknown error ('' @ dec_int error @ [0x29]))"

end
