(* ===== verification/Log_Properties.thy ===== *)
theory Log_Properties
  imports M_Log
begin

text \<open>The properties of the log: which messages are printed and how, and where its buffers end.\<close>

section \<open>Levels\<close>

lemma level_cases: "1 \<le> l \<Longrightarrow> l \<le> 6 \<Longrightarrow> l \<in> {1, 2, 3, 4, 5, 6 :: int}"
  by auto

lemma bit_values:
  "PRESENT_BIT8 1 = 2" "PRESENT_BIT8 2 = 4" "PRESENT_BIT8 3 = 8" "PRESENT_BIT8 4 = 16" "PRESENT_BIT8 5 = 32" "PRESENT_BIT8 6 = 64"
  by (simp_all add: PRESENT_BIT8_def)

lemma set_bits_numeral: "set_bits (numeral k) m = SET_BIT8 (set_bits (pred_numeral k) m) (numeral k)"
proof -
  have "numeral k = Suc (pred_numeral k)" by (rule numeral_eq_Suc)
  moreover have "int (numeral k) = numeral k" by simp
  ultimately show ?thesis by (metis set_bits.simps(2))
qed

lemma BIT_ON8_set_bits:
  assumes "1 \<le> n" "n \<le> 6" "1 \<le> l" "l \<le> 6"
  shows "BIT_ON8 (set_bits (nat n) 0) l \<longleftrightarrow> l \<le> n"
  using level_cases [OF assms(1,2)] level_cases [OF assms(3,4)]
  by (auto simp: BIT_ON8_def SET_BIT8_def bit_values set_bits_numeral)

lemma BIT_ON8_SET_BIT8:
  assumes "1 \<le> n" "n \<le> 6" "1 \<le> l" "l \<le> 6"
  shows "BIT_ON8 (SET_BIT8 0 n) l \<longleftrightarrow> l = n"
  using level_cases [OF assms(1,2)] level_cases [OF assms(3,4)]
  by (auto simp: BIT_ON8_def SET_BIT8_def bit_values)

section \<open>Messages\<close>

lemma log_head_nonzero: "0 \<notin> set file \<Longrightarrow> 0 \<notin> set func \<Longrightarrow> 0 \<notin> set (log_head level file line func to_file)"
  using dec_int_nonzero [of line]
  by (auto simp: log_head_def level_color_def COLOR_NONE_def COLOR_RED_def COLOR_BLUE_def COLOR_GREEN_def bytes_of_def dest!: in_set_takeD)

lemma log_head_length: "length (log_head level file line func to_file) \<le> 2047"
  by (simp add: log_head_def LOG_BUF_SIZE_def)

lemma log_private_prints:
  assumes "log_inited st" "BIT_ON8 (log_flag st) level" "0 \<notin> set file" "0 \<notin> set func" "0 \<notin> set body"
    and "head = log_head level file line func (log_file st \<noteq> None)" "length head + length body < LOG_BUF_SIZE"
  shows "log_private e level file line func body st = Inr (log_print e (head @ body @ [0x0A]) (st\<lparr>log_level := level\<rparr>))"
proof -
  have nz: "0 \<notin> set head" "0 \<notin> set (head @ body)" "0 \<notin> set (head @ body @ [0x0A])"
    using log_head_nonzero [OF assms(3,4)] assms(5,6) by auto
  have len: "length head + length body < 2048" using assms(7) by (simp add: LOG_BUF_SIZE_def)
  have "wr_bytes (replicate 2049 0) 0 (head @ [0]) = Inr (head @ replicate (2049 - length head) 0)"
    using wr_string [of "[]" head 2049] len by simp
  moreover have "wr_bytes (head @ replicate (2049 - length head) 0) (int (length head)) (body @ [0]) = Inr ((head @ body) @ replicate (2049 - length (head @ body)) 0)"
    using wr_string [of head body 2049] len by simp
  moreover have "wr_bytes ((head @ body) @ replicate (2049 - length (head @ body)) 0) (int (length (head @ body))) [0x0A, 0]
      = Inr ((head @ body @ [0x0A]) @ replicate (2049 - length (head @ body @ [0x0A])) 0)"
    using wr_string [of "head @ body" "[0x0A]" 2049] len by simp
  moreover have "mem_str (head @ replicate (2049 - length head) 0) = Inr head"
    "mem_str ((head @ body) @ replicate (2049 - length (head @ body)) 0) = Inr (head @ body)"
    "mem_str ((head @ body @ [0x0A]) @ replicate (2049 - length (head @ body @ [0x0A])) 0) = Inr (head @ body @ [0x0A])"
    using len by (rule_tac mem_string [OF nz(1)] mem_string [OF nz(2)] mem_string [OF nz(3)], simp)+
  ultimately show ?thesis
    using assms(1,2,6) unfolding log_private_def Let_def by (simp add: LOG_BUF_SIZE_def)
qed

lemma log_private_too_long:
  assumes "log_inited st" "BIT_ON8 (log_flag st) level" "0 \<notin> set file" "0 \<notin> set func" "0 \<notin> set body"
    and "head = log_head level file line func (log_file st \<noteq> None)" "LOG_BUF_SIZE \<le> length head + length body"
  shows "log_private e level file line func body st = Inl OutOfBounds"
proof -
  have nz: "0 \<notin> set head" "0 \<notin> set (head @ body)" using log_head_nonzero [OF assms(3,4)] assms(5,6) by auto
  have len: "length head \<le> 2047" "2048 \<le> length head + length body"
    using assms(6,7) log_head_length by (simp_all add: LOG_BUF_SIZE_def)
  have 1: "wr_bytes (replicate 2049 0) 0 (head @ [0]) = Inr (head @ replicate (2049 - length head) 0)"
    using wr_string [of "[]" head 2049] len by simp
  have 2: "mem_str (head @ replicate (2049 - length head) 0) = Inr head" using len by (intro mem_string nz(1)) simp
  show ?thesis
  proof (cases "length head + length body = 2048")
    case True
    then have 3: "wr_bytes (head @ replicate (2049 - length head) 0) (int (length head)) (body @ [0]) = Inr ((head @ body) @ replicate 1 0)"
      using wr_string [of head body 2049] by simp
    have 4: "mem_str ((head @ body) @ replicate 1 0) = Inr (head @ body)" using mem_str_at [OF nz(2), of "[]"] by simp
    have 5: "wr_bytes ((head @ body) @ replicate 1 0) (int (length (head @ body))) [0x0A, 0] = Inl OutOfBounds"
      using True by (intro wr_bytes_oob) simp_all
    show ?thesis using 1 2 3 4 5 assms(1,2,6) unfolding log_private_def Let_def by (simp add: LOG_BUF_SIZE_def)
  next
    case False
    then have "wr_bytes (head @ replicate (2049 - length head) 0) (int (length head)) (body @ [0]) = Inl OutOfBounds"
      using len by (intro wr_bytes_oob) simp_all
    then show ?thesis using 1 2 assms(1,2,6) unfolding log_private_def Let_def by (simp add: LOG_BUF_SIZE_def)
  qed
qed

section \<open>Properties\<close>

text \<open>C29: From \<open>log_init\<close> to the terminal: a message of a level is printed when its level is asked
  for, the one level or all up to it, and then with its level, the time, its place, the colour of
  its level and a newline; a message of another level changes nothing.\<close>

theorem log_levels_filter:
  assumes "LOG_F \<le> level" "LOG_F \<le> l" "l \<le> LOG_D" "log_file st0 = None" "0 \<in> set (log_file_path st0)"
    and "\<And>w. \<exists>t ns. le_clock e w = Some (t, ns) \<and> t \<noteq> [] \<and> length t < 90"
    and "0 \<notin> set file" "0 \<notin> set func" "0 \<notin> set body"
    and "head = log_head l file line func False" "length head + length body < LOG_BUF_SIZE"
  shows "\<exists>st st'. log_init e level only None st0 = Inr st \<and> log_private e l file line func body st = Inr st'
    \<and> (if (if only then l = min level LOG_D else l \<le> level)
       then log_world st' = log_world st
         @ [LogWrite None (take 99 ([0x5B] @ dec_int l @ [0x5D, 0x5B] @ log_time_get e 90 st @ [0x5D, 0x2D])),
            LogWrite None (head @ body @ [0x0A]), LogWrite None COLOR_NONE]
       else st' = st)"
proof -
  let ?lv = "if level > LOG_D then LOG_D else level"
  let ?flag = "if only then SET_BIT8 0 ?lv else set_bits (nat ?lv) 0"
  have lv: "1 \<le> ?lv" "?lv \<le> 6" "1 \<le> l" "l \<le> 6" using assms(1-3) by (auto simp: log_levels)
  have time: "log_time_get e 90 st \<noteq> []" for st using assms(6) [of "log_world st"] by (auto simp: log_time_get_def)
  have close: "log_close_file (st0\<lparr>log_flag := 0\<rparr>) = Inr (st0\<lparr>log_flag := 0\<rparr>)" using assms(4,5) by (simp add: log_close_file_def mem_str_def)
  define st where "st = log_section e (st0\<lparr>log_flag := ?flag, log_inited := True\<rparr>)"
  have init: "log_init e level only None st0 = Inr st"
    using assms(1) lv close by (auto simp: log_init_def Let_def st_def LOG_F_def not_less)
  have st: "log_inited st" "log_file st = None" "log_flag st = ?flag"
    using time assms(4) by (simp_all add: st_def log_section_def log_do_def Let_def)
  have on: "BIT_ON8 (log_flag st) l \<longleftrightarrow> (if only then l = min level LOG_D else l \<le> level)"
    unfolding st(3) using BIT_ON8_set_bits [OF lv] BIT_ON8_SET_BIT8 [OF lv] assms(3) by (auto simp: min_def)
  show ?thesis
  proof (cases "BIT_ON8 (log_flag st) l")
    case True
    have "log_private e l file line func body st = Inr (log_print e (head @ body @ [0x0A]) (st\<lparr>log_level := l\<rparr>))"
      using log_private_prints [OF st(1) True assms(7-9) _ assms(11)] assms(10) st(2) by simp
    moreover have "log_time_get e 90 (st\<lparr>log_level := l\<rparr>) = log_time_get e 90 st" by (simp add: log_time_get_def)
    ultimately show ?thesis using init on True time st(2) by (simp add: log_print_def Let_def log_do_def)
  next
    case False
    then have "log_private e l file line func body st = Inr st" using st(1) by (simp add: log_private_def)
    then show ?thesis using init on False by simp
  qed
qed

definition noon :: log_env where
  "noon = \<lparr>le_clock = (\<lambda>w. Some (bytes_of ''06-06 12:00:00'', 5000000)), le_open = (\<lambda>w p. True)\<rparr>"

lemma logger0_path: "log_file logger0 = None" "0 \<in> set (log_file_path logger0)"
  by (simp_all add: logger0_def)

lemma noon_clock: "\<exists>t ns. le_clock noon w = Some (t, ns) \<and> t \<noteq> [] \<and> length t < 90"
  by (simp add: noon_def bytes_of_def)

theorem log_levels_filter_witness:
  "\<exists>st st'. log_init noon LOG_W True None logger0 = Inr st \<and> log_private noon LOG_E (bytes_of ''m.c'') 7 (bytes_of ''f'') (bytes_of ''hello'') st = Inr st' \<and> st' = st"
proof -
  let ?head = "log_head LOG_E (bytes_of ''m.c'') 7 (bytes_of ''f'') False"
  have len: "length ?head + length (bytes_of ''hello'') < LOG_BUF_SIZE"
    by (simp add: log_head_def LOG_BUF_SIZE_def bytes_of_def level_color_def COLOR_RED_def dec_int_def dec_nat.simps)
  from log_levels_filter [OF _ _ _ logger0_path noon_clock _ _ _ refl this, of LOG_W True]
  show ?thesis by (simp add: log_levels bytes_of_def)
qed

text \<open>Where the buffers of the log end: a message that \<open>vsprintf\<close> makes longer than what is
  left of the buffer is written behind it, and a path of a hundred bytes or more is copied over
  the end of the array that keeps it.\<close>

theorem log_overruns:
  assumes "log_inited st" "BIT_ON8 (log_flag st) level" "0 \<notin> set file" "0 \<notin> set func" "0 \<notin> set body"
    and "LOG_BUF_SIZE \<le> length (log_head level file line func (log_file st \<noteq> None)) + length body"
    and "log_file st0 = None" "log_file_path st0 = replicate 100 0" "100 \<le> length path" "0 \<notin> set path"
      "\<And>w. le_open e w path" "LOG_F \<le> lv"
  shows "log_private e level file line func body st = Inl OutOfBounds \<and> log_init e lv only (Some path) st0 = Inl OutOfBounds"
proof
  show "log_private e level file line func body st = Inl OutOfBounds"
    by (rule log_private_too_long [OF assms(1-5) refl assms(6)])
  have close: "log_close_file (st0\<lparr>log_flag := 0\<rparr>) = Inr (st0\<lparr>log_flag := 0\<rparr>)"
    using assms(7,8) by (simp add: log_close_file_def mem_str_def)
  have copy: "rbind (wr_bytes (replicate 100 0) 0 path) (\<lambda>p1. rbind (mem_str p1) (f p1)) = Inl OutOfBounds" for f :: "byte list \<Rightarrow> byte list \<Rightarrow> logger res"
  proof (cases "length path = 100")
    case True
    then have "wr_bytes (replicate 100 0) 0 path = Inr path" using wr_bytes_ok [of 0 path "replicate 100 (0 :: byte)"] by simp
    then show ?thesis using assms(10) by (simp add: mem_str_def)
  next
    case False
    then have "wr_bytes (replicate 100 0) 0 path = Inl OutOfBounds" using assms(9) by (intro wr_bytes_oob) simp_all
    then show ?thesis by simp
  qed
  have "log_open_file e path (st0\<lparr>log_flag := 0\<rparr>) = Inl OutOfBounds"
    using assms(8,11) copy by (simp add: log_open_file_def Let_def)
  then show "log_init e lv only (Some path) st0 = Inl OutOfBounds"
    using close assms(12) by (simp add: log_init_def Let_def log_levels)
qed

theorem log_overruns_witness:
  "log_private noon LOG_I [] 1 [] (replicate 2048 0x41) (logger0\<lparr>log_inited := True, log_flag := 0x20\<rparr>) = Inl OutOfBounds
    \<and> log_init noon LOG_I False (Some (replicate 100 0x41)) logger0 = Inl OutOfBounds"
  by (rule log_overruns) (simp_all add: BIT_ON8_def bit_values log_levels LOG_BUF_SIZE_def logger0_def noon_def)

text \<open>Turning the log off before the first message has no effect: the first message turns the
  default levels on again.\<close>

theorem log_disable_lost:
  assumes "level < LOG_F" "log_init e level only path logger0 = Inr st"
  shows "\<not> log_inited st \<and> log_private e l file line func body st =
    rbind (log_init e LOG_I False None st) (log_private e l file line func body)"
proof -
  have st: "\<not> log_inited st" using assms by (auto simp: log_init_def Let_def log_levels logger0_def split: if_splits)
  have "log_inited st1" if "log_init e LOG_I False None st = Inr st1" for st1
    using that by (auto simp: log_init_def Let_def log_levels log_section_def log_do_def split: if_splits option.splits)
  then show ?thesis using st by (cases "log_init e LOG_I False None st") (simp_all add: log_private_def)
qed

text \<open>\<open>log_errno\<close> stays inside its own table, but takes the number of entries of the library's table
  for a valid index.\<close>

theorem log_errno_table:
  "length errno_str = 134"
  "error < 0 \<or> int (length errlist) < error \<Longrightarrow> \<exists>line. log_errno errlist error_no error = Inr line \<and> length line \<le> 100"
  "log_errno errlist error_no (int (length errlist)) = Inl OutOfBounds"
proof -
  show len: "length errno_str = 134" by (simp add: errno_str_def)
  show "\<exists>line. log_errno errlist error_no error = Inr line \<and> length line \<le> 100" if "error < 0 \<or> int (length errlist) < error"
    using that len by (auto simp: log_errno_def rd_buf_def ERRNO_SIZE_def)
  show "log_errno errlist error_no (int (length errlist)) = Inl OutOfBounds" by (simp add: log_errno_def rd_buf_def)
qed

end
