(* ===== verification/M_Files.thy ===== *)
theory M_Files
  imports C_System
begin

text \<open>
  The integers read from a descriptor in \<open>lib/m_file.c\<close>, and the helpers of \<open>lib/m_util.c\<close>.  A char is
  signed, so a byte is sign extended before it is shifted and masked.
\<close>

section \<open>Integers\<close>

definition char32 :: "byte \<Rightarrow> u32" where
  "char32 b = scast b"

definition join32 :: "byte \<Rightarrow> byte \<Rightarrow> byte \<Rightarrow> byte \<Rightarrow> u32" where
  "join32 b0 b1 b2 b3 =
     (0xFF AND char32 b0) OR (0xFF00 AND push_bit 8 (char32 b1)) OR (0xFF0000 AND push_bit 16 (char32 b2))
       OR (0xFF000000 AND push_bit 24 (char32 b3))"

definition join16 :: "byte \<Rightarrow> byte \<Rightarrow> u16" where
  "join16 b0 b1 = ucast ((0xFF AND char32 b0) OR (0xFF00 AND push_bit 8 (char32 b1)))"

definition read_int32_l :: "os \<Rightarrow> int \<Rightarrow> world \<Rightarrow> int \<times> world" where
  "read_int32_l e fd w =
     (let (r, w1) = sys e (SysRead fd 4) w; b = data_of e w (SysRead fd 4) in
      (if r = 4 then sint (join32 (b ! 0) (b ! 1) (b ! 2) (b ! 3)) else - 1, w1))"

definition read_int32_b :: "os \<Rightarrow> int \<Rightarrow> world \<Rightarrow> int \<times> world" where
  "read_int32_b e fd w =
     (let (r, w1) = sys e (SysRead fd 4) w; b = data_of e w (SysRead fd 4) in
      (if r = 4 then sint (join32 (b ! 3) (b ! 2) (b ! 1) (b ! 0)) else - 1, w1))"

definition read_int16_l :: "os \<Rightarrow> int \<Rightarrow> world \<Rightarrow> int \<times> world" where
  "read_int16_l e fd w =
     (let (r, w1) = sys e (SysRead fd 2) w; b = data_of e w (SysRead fd 2) in
      (if r = 2 then sint (join16 (b ! 0) (b ! 1)) else - 1, w1))"

definition read_int16_b :: "os \<Rightarrow> int \<Rightarrow> world \<Rightarrow> int \<times> world" where
  "read_int16_b e fd w =
     (let (r, w1) = sys e (SysRead fd 2) w; b = data_of e w (SysRead fd 2) in
      (if r = 2 then sint (join16 (b ! 1) (b ! 0)) else - 1, w1))"

text \<open>The bytes of a number, lowest first.\<close>

definition bytes32 :: "u32 \<Rightarrow> byte list" where
  "bytes32 x = map (\<lambda>k. ucast (drop_bit (8 * k) x)) [0, 1, 2, 3]"

definition bytes16 :: "u16 \<Rightarrow> byte list" where
  "bytes16 x = map (\<lambda>k. ucast (drop_bit (8 * k) x)) [0, 1]"

lemma less_cases32: "n < 32 \<Longrightarrow> n < 8 \<or> (\<exists>m < 8. n = 8 + m) \<or> (\<exists>m < 8. n = 16 + m) \<or> (\<exists>m < 8. n = 24 + (m :: nat))"
  by presburger

lemma char32_masks:
  "0xFF AND char32 b = ucast b" "0xFF00 AND push_bit 8 (char32 b) = push_bit 8 (ucast b)"
  "0xFF0000 AND push_bit 16 (char32 b) = push_bit 16 (ucast b)" "0xFF000000 AND push_bit 24 (char32 b) = push_bit 24 (ucast b)"
proof -
  have m: "(0xFF :: u32) = mask 8" "(0xFF00 :: u32) = push_bit 8 (mask 8)" "(0xFF0000 :: u32) = push_bit 16 (mask 8)" "(0xFF000000 :: u32) = push_bit 24 (mask 8)"
    by (simp_all add: mask_numeral)
  have low: "mask 8 AND char32 b = ucast b"
  proof (rule bit_word_eqI)
    fix n :: nat
    assume n: "n < LENGTH(32)"
    show "bit (mask 8 AND char32 b) n = bit (ucast b :: u32) n"
    proof (cases "n < 8")
      case True
      then have "min 7 n = n" by simp
      then show ?thesis using n True by (simp add: char32_def bit_simps)
    next
      case False
      then have "\<not> bit b n" using bit_imp_le_length [of b n] by auto
      then show ?thesis using False by (simp add: bit_simps)
    qed
  qed
  then show "0xFF AND char32 b = ucast b" by (simp only: m)
  have "push_bit n (mask 8) AND push_bit n (char32 b) = push_bit n (ucast b)" for n
    using low by (metis push_bit_and)
  then show "0xFF00 AND push_bit 8 (char32 b) = push_bit 8 (ucast b)"
    "0xFF0000 AND push_bit 16 (char32 b) = push_bit 16 (ucast b)" "0xFF000000 AND push_bit 24 (char32 b) = push_bit 24 (ucast b)"
    by (simp_all only: m)
qed

lemma join32_bytes: "join32 (bytes32 x ! 0) (bytes32 x ! 1) (bytes32 x ! 2) (bytes32 x ! 3) = x"
  unfolding join32_def char32_masks bytes32_def
  by (rule bit_word_eqI) (auto simp: bit_simps dest!: less_cases32)

lemma join16_bytes: "join16 (bytes16 x ! 0) (bytes16 x ! 1) = x"
  unfolding join16_def char32_masks bytes16_def
  by (rule bit_word_eqI) (auto simp: bit_simps)

section \<open>Helpers\<close>

text \<open>The two bytes of the union, as the machine stores them; what \<open>popen\<close> delivers (None: it
  fails); the address of the array on the stack.\<close>

definition util_big_endian :: "byte \<times> byte \<Rightarrow> int" where
  "util_big_endian c = (if c = (1, 2) then 1 else if c = (2, 1) then 0 else - 1)"

text \<open>\<open>fgets\<close> into a buffer that is all zero: a line with its newline, at most \<open>n - 1\<close> bytes.\<close>

fun fgets_line :: "nat \<Rightarrow> byte list \<Rightarrow> byte list" where
  "fgets_line (Suc n) (b # bs) = b # (if b = 0x0A then [] else fgets_line n bs)"
| "fgets_line _ _ = []"

definition cmd_line :: "(byte list \<Rightarrow> byte list option) \<Rightarrow> byte list \<Rightarrow> byte list \<Rightarrow> nat \<Rightarrow> (bool \<times> byte list) res" where
  "cmd_line popen cmd buf buf_size =
     rbind (wr_bytes buf 0 (replicate buf_size 0)) (\<lambda>b1.
     case popen cmd of
       None \<Rightarrow> Inr (False, b1)
     | Some out \<Rightarrow>
         let l = fgets_line (buf_size - 1) out in
         if l = [] then Inr (True, b1) else rmap (Pair True) (wr_bytes b1 0 (l @ [0])))"

text \<open>The third argument of \<open>memset\<close> is the array itself, so its address is taken for the length.\<close>

definition pidof :: "(byte list \<Rightarrow> byte list option) \<Rightarrow> nat \<Rightarrow> byte list \<Rightarrow> byte list \<Rightarrow> byte list option \<Rightarrow> int res" where
  "pidof popen addr cmd0 buffer0 name =
     (case name of
        None \<Rightarrow> Inr (- 1)
      | Some nm \<Rightarrow>
          if nm = [] then Inr (- 1)
          else
            rbind (wr_bytes buffer0 0 (replicate addr 0)) (\<lambda>b1.
            let whole = bytes_of ''pidof '' @ nm; size = length whole in
            rbind (wr_bytes cmd0 0 (take 99 whole @ [0])) (\<lambda>c1.
            rbind (wr_buf c1 (int size) 0) (\<lambda>c2.
            rbind (mem_str c2) (\<lambda>cmd.
            rbind (cmd_line popen cmd b1 20) (\<lambda>(ok, b2).
            if ok then rbind (mem_str b2) (\<lambda>s. if s \<noteq> [] then atoi b2 else Inr (- 1))
            else Inr (- 1)))))))"

end
