(* ===== verification/File_Properties.thy ===== *)
theory File_Properties
  imports M_Files M_Stream
begin

text \<open>The properties of the integers read from descriptors and of the helpers.\<close>

lemma bytes_lengths [simp]: "length (bytes32 x) = 4" "length (bytes16 y) = 2"
  by (simp_all add: bytes32_def bytes16_def)

text \<open>The integers that are read are those that were written: when the stream goes on with the
  bytes of a number, lowest or highest first, and \<open>read\<close> delivers all of them, the function of
  that byte order returns the number with its sign and the stream goes on behind it; when \<open>read\<close>
  delivers fewer bytes the result is -1, and those bytes are lost.\<close>

theorem read_ints_roundtrip:
  assumes "delivers e fd s"
  shows "(answer e w (SysRead fd 4) = 4 \<longrightarrow> drop (consumed fd w) s = bytes32 x @ rest \<longrightarrow>
      (\<exists>w'. read_int32_l e fd w = (sint x, w') \<and> drop (consumed fd w') s = rest))
    \<and> (answer e w (SysRead fd 4) = 4 \<longrightarrow> drop (consumed fd w) s = rev (bytes32 x) @ rest \<longrightarrow>
      (\<exists>w'. read_int32_b e fd w = (sint x, w') \<and> drop (consumed fd w') s = rest))
    \<and> (answer e w (SysRead fd 2) = 2 \<longrightarrow> drop (consumed fd w) s = bytes16 y @ rest \<longrightarrow>
      (\<exists>w'. read_int16_l e fd w = (sint y, w') \<and> drop (consumed fd w') s = rest))
    \<and> (answer e w (SysRead fd 2) = 2 \<longrightarrow> drop (consumed fd w) s = rev (bytes16 y) @ rest \<longrightarrow>
      (\<exists>w'. read_int16_b e fd w = (sint y, w') \<and> drop (consumed fd w') s = rest))
    \<and> (answer e w (SysRead fd 4) = int k \<longrightarrow> k < 4 \<longrightarrow>
      (\<exists>w'. read_int32_l e fd w = (- 1, w') \<and> drop (consumed fd w') s = drop k (drop (consumed fd w) s)))"
proof -
  have read: "data_of e w (SysRead fd n) = take (nat (answer e w (SysRead fd n))) (drop (consumed fd w) s)"
    if "0 \<le> answer e w (SysRead fd n)" for n
    using assms that unfolding delivers_def Let_def by (metis not_le)
  have next_bytes: "drop (consumed fd ((SysRead fd n, int k) # w)) s = drop k (drop (consumed fd w) s)" for n k by (simp add: add.commute)
  have rev4: "rev (bytes32 x) ! 3 = bytes32 x ! 0" "rev (bytes32 x) ! 2 = bytes32 x ! 1" "rev (bytes32 x) ! 1 = bytes32 x ! 2" "rev (bytes32 x) ! 0 = bytes32 x ! 3"
    and rev2: "rev (bytes16 y) ! 1 = bytes16 y ! 0" "rev (bytes16 y) ! 0 = bytes16 y ! 1"
    by (simp_all add: rev_nth)
  have "\<exists>w'. read_int32_l e fd w = (sint x, w') \<and> drop (consumed fd w') s = rest"
    if "answer e w (SysRead fd 4) = 4" "drop (consumed fd w) s = bytes32 x @ rest"
    using that read [of 4] next_bytes [of 4 4] join32_bytes [of x] by (simp add: read_int32_l_def sys_def)
  moreover have "\<exists>w'. read_int32_b e fd w = (sint x, w') \<and> drop (consumed fd w') s = rest"
    if "answer e w (SysRead fd 4) = 4" "drop (consumed fd w) s = rev (bytes32 x) @ rest"
    using that read [of 4] next_bytes [of 4 4] join32_bytes [of x] rev4 by (simp add: read_int32_b_def sys_def)
  moreover have "\<exists>w'. read_int16_l e fd w = (sint y, w') \<and> drop (consumed fd w') s = rest"
    if "answer e w (SysRead fd 2) = 2" "drop (consumed fd w) s = bytes16 y @ rest"
    using that read [of 2] next_bytes [of 2 2] join16_bytes [of y] by (simp add: read_int16_l_def sys_def)
  moreover have "\<exists>w'. read_int16_b e fd w = (sint y, w') \<and> drop (consumed fd w') s = rest"
    if "answer e w (SysRead fd 2) = 2" "drop (consumed fd w) s = rev (bytes16 y) @ rest"
    using that read [of 2] next_bytes [of 2 2] join16_bytes [of y] rev2 by (simp add: read_int16_b_def sys_def)
  moreover have "\<exists>w'. read_int32_l e fd w = (- 1, w') \<and> drop (consumed fd w') s = drop k (drop (consumed fd w) s)"
    if "answer e w (SysRead fd 4) = int k" "k < 4"
    using that next_bytes [of 4 k] by (simp add: read_int32_l_def sys_def)
  ultimately show ?thesis by blast
qed

text \<open>A descriptor that delivers what it is asked for.\<close>

definition full_os :: "byte list \<Rightarrow> os" where
  "full_os s = \<lparr>answer = (\<lambda>w c. case c of SysRead fd n \<Rightarrow> int (min n (length (drop (consumed fd w) s))) | _ \<Rightarrow> 0),
     errno_of = (\<lambda>_ _. 0),
     data_of = (\<lambda>w c. case c of SysRead fd n \<Rightarrow> take (min n (length (drop (consumed fd w) s))) (drop (consumed fd w) s) | _ \<Rightarrow> []),
     can_read = (\<lambda>_ _. True), can_write = (\<lambda>_ _. True), so_error = (\<lambda>_. 0), alloc_ok = (\<lambda>_. True)\<rparr>"

lemma full_os_delivers: "delivers (full_os s) fd s"
  by (auto simp: delivers_def full_os_def Let_def)

theorem read_ints_roundtrip_witness:
  "fst (read_int32_l (full_os (bytes32 (- 1024) @ [7])) 5 []) = - 1024
    \<and> fst (read_int16_b (full_os (rev (bytes16 1024) @ [7])) 5 []) = 1024"
proof -
  let ?s = "bytes32 (- 1024) @ [7]" and ?t = "rev (bytes16 1024) @ [7]"
  have a: "answer (full_os ?s) [] (SysRead 5 4) = 4" "answer (full_os ?t) [] (SysRead 5 2) = 2" by (simp_all add: full_os_def)
  have d: "drop (consumed 5 []) ?s = bytes32 (- 1024) @ [7]" "drop (consumed 5 []) ?t = rev (bytes16 1024) @ [7]" by simp_all
  have "\<exists>w'. read_int32_l (full_os ?s) 5 [] = (sint (- 1024 :: u32), w') \<and> drop (consumed 5 w') ?s = [7]"
    using read_ints_roundtrip [OF full_os_delivers [of ?s 5], of "[]" "- 1024" "[7]"] a(1) d(1) by blast
  moreover have "\<exists>w'. read_int16_b (full_os ?t) 5 [] = (sint (1024 :: u16), w') \<and> drop (consumed 5 w') ?t = [7]"
    using read_ints_roundtrip [OF full_os_delivers [of ?t 5], of "[]" _ "[7]" 1024] a(2) d(2) by blast
  ultimately show ?thesis by auto
qed

text \<open>\<open>pidof\<close> never returns for a name: its \<open>memset\<close> writes as many bytes as the address of
  the array says, far more than the twenty that it has.\<close>

theorem pidof_overruns:
  assumes "nm \<noteq> []" "length buffer0 = 20" "20 < addr"
  shows "pidof popen addr cmd0 buffer0 (Some nm) = Inl OutOfBounds"
  using assms wr_bytes_oob [of 0 buffer0 "replicate addr 0"] by (simp add: pidof_def)

theorem pidof_overruns_witness:
  "pidof (\<lambda>cmd. Some (bytes_of ''123'')) 140732920755200 (replicate 100 0) (replicate 20 0) (Some (bytes_of ''pppd'')) = Inl OutOfBounds"
  by (rule pidof_overruns) (simp_all add: bytes_of_def)

end
