(* ===== verification/Video.thy ===== *)
theory Video
  imports C_System
begin

text \<open>
  The video server of \<open>demo/wifi_video_server.c\<close>: a table of clients, one device that delivers the
  pictures, the thread that passes them on and the handling of one event of the main loop.  The
  thread and the main loop share the table; a step is one turn of the thread or one event.
\<close>

definition VIDEO_CLIENT_MAX :: nat where "VIDEO_CLIENT_MAX = 2"
definition SERVER_PORT :: int where "SERVER_PORT = 8888"
definition LISTENQ :: nat where "LISTENQ = 1024"
definition BUF_SIZE :: nat where "BUF_SIZE = 2048"

definition EBADF :: int where "EBADF = 9"
definition ECONNRESET :: int where "ECONNRESET = 104"

record video =
  client_fds :: "int list"
  video_collect_fd :: int
  video_running :: bool
  video_world :: world

section \<open>Sending\<close>

text \<open>The loop that looks from the end for a client to take the place \<open>i\<close>: the index where it
  stops, which is \<open>i\<close> when there is none.\<close>

fun last_client :: "nat \<Rightarrow> nat \<Rightarrow> int list \<Rightarrow> nat" where
  "last_client i 0 cs = i"
| "last_client i (Suc j) cs = (if Suc j \<le> i then i else if cs ! Suc j > 0 then Suc j else last_client i j cs)"

definition remove_client :: "nat \<Rightarrow> int list \<Rightarrow> int list" where
  "remove_client i cs =
     (let j = last_client i (VIDEO_CLIENT_MAX - 1) cs in
      if j = i then cs[i := - 1] else cs[i := cs ! j, j := - 1])"

lemma last_client_cases: "last_client i j cs = i \<or> (i < last_client i j cs \<and> last_client i j cs \<le> j \<and> cs ! last_client i j cs > 0)"
  by (induction j) auto

text \<open>How many of the places from \<open>i\<close> on the loop may still visit or clear.\<close>

definition live :: "int list \<Rightarrow> nat" where
  "live cs = length (filter (\<lambda>c. c > 0) cs)"

lemma live_update: "i < length cs \<Longrightarrow> live (cs[i := c]) + (if cs ! i > 0 then 1 else 0) = live cs + (if c > 0 then 1 else 0)"
proof (induction cs arbitrary: i)
  case (Cons d cs)
  then show ?case by (cases i) (auto simp: live_def split: if_splits)
qed simp

lemma live_remove:
  assumes "i < length cs" "cs ! i > 0" "length cs = VIDEO_CLIENT_MAX"
  shows "live (remove_client i cs) < live cs"
proof -
  let ?j = "last_client i (VIDEO_CLIENT_MAX - 1) cs"
  show ?thesis
  proof (cases "?j = i")
    case True
    then show ?thesis using live_update [OF assms(1), of "- 1"] assms(2) by (simp add: remove_client_def Let_def)
  next
    case False
    then have j: "i < ?j" "?j < length cs" "cs ! ?j > 0"
      using last_client_cases [of i "VIDEO_CLIENT_MAX - 1" cs] assms(1,3) by auto
    then have "live (cs[i := cs ! ?j]) = live cs" using live_update [OF assms(1), of "cs ! ?j"] assms(2) by simp
    moreover have "live (cs[i := cs ! ?j, ?j := - 1]) + 1 = live (cs[i := cs ! ?j])"
      using live_update [of ?j "cs[i := cs ! ?j]" "- 1"] j by simp
    ultimately show ?thesis using False by (simp add: remove_client_def Let_def)
  qed
qed

text \<open>The loop over the clients; a table of another length than the array's does not occur.\<close>

function send_loop :: "os \<Rightarrow> byte list \<Rightarrow> nat \<Rightarrow> int list \<Rightarrow> world \<Rightarrow> int \<times> int list \<times> world" where
  "send_loop e data i cs w =
     (if i < VIDEO_CLIENT_MAX \<and> length cs = VIDEO_CLIENT_MAX
      then
        if cs ! i > 0
        then
          let c = SysWrite (cs ! i) data; (r, w1) = sys e c w in
          if r = int (length data) then send_loop e data (i + 1) cs w1
          else if errno e c w = EBADF then send_loop e data i (remove_client i cs) w1
          else (- 1, cs, w1)
        else (0, cs, w)
      else (0, cs, w))"
  by pat_completeness auto
termination
proof (relation "measure (\<lambda>(e, data, i, cs, w). VIDEO_CLIENT_MAX - i + live cs)", simp, goal_cases)
  case (2 e data i cs w)
  then have "i < VIDEO_CLIENT_MAX" "live (remove_client i cs) < live cs" using live_remove [of i cs] by simp_all
  then have "VIDEO_CLIENT_MAX - i + live (remove_client i cs) < VIDEO_CLIENT_MAX - i + live cs" by simp
  then show ?case by simp
qed (auto intro: diff_less_mono2)

declare send_loop.simps [simp del]

definition video_send_data :: "os \<Rightarrow> byte list \<Rightarrow> video \<Rightarrow> int \<times> video" where
  "video_send_data e data st =
     (let (r, cs, w) = send_loop e data 0 (client_fds st) (video_world st) in
      (r, st\<lparr>client_fds := cs, video_world := w\<rparr>))"

section \<open>The thread\<close>

text \<open>One turn of the loop in \<open>video_thread_run\<close>; waiting for the signal changes nothing here.
  \<open>buf\<close> is the array on the stack.\<close>

definition read_into :: "os \<Rightarrow> int \<Rightarrow> byte list \<Rightarrow> world \<Rightarrow> (int \<times> byte list \<times> world) res" where
  "read_into e fd buf w =
     (let c = SysRead fd BUF_SIZE; (r, w1) = sys e c w in
      rmap (\<lambda>b. (r, b, w1)) (if r > 0 then wr_bytes buf 0 (take (nat r) (data_of e w c)) else Inr buf))"

definition video_turn :: "os \<Rightarrow> byte list \<Rightarrow> video \<Rightarrow> video res" where
  "video_turn e buf st =
     (if video_collect_fd st = - 1 then Inr st
      else rbind (read_into e (video_collect_fd st) buf (video_world st)) (\<lambda>(size, b, w1).
           rbind (wr_buf b size 0) (\<lambda>b1.
           let st1 = st\<lparr>video_world := w1\<rparr> in
           if size > 0 then rmap (\<lambda>s. snd (video_send_data e s st1)) (mem_str b1)
           else if size = 0 then Inr (st1\<lparr>video_collect_fd := - 1\<rparr>)
           else Inr st1)))"

section \<open>The main loop\<close>

text \<open>\<open>CMD:VIDEO_GET\<close>: the first free place, or none.\<close>

fun free_place :: "int list \<Rightarrow> nat" where
  "free_place [] = 0"
| "free_place (c # cs) = (if c = - 1 then 0 else Suc (free_place cs))"

definition register_client :: "os \<Rightarrow> int \<Rightarrow> video \<Rightarrow> video" where
  "register_client e fd st =
     (let j = free_place (client_fds st) in
      if j = VIDEO_CLIENT_MAX
      then st\<lparr>video_world := snd (sys e (SysWrite fd (bytes_of ''CMD:FAIL'')) (video_world st))\<rparr>
      else st\<lparr>client_fds := (client_fds st)[j := fd],
              video_world := snd (sys e (SysWrite fd (bytes_of ''CMD:SUCCESS'')) (video_world st))\<rparr>)"

definition register_device :: "os \<Rightarrow> int \<Rightarrow> video \<Rightarrow> video" where
  "register_device e fd st =
     (if video_collect_fd st = - 1
      then let (_, w1) = sys e (SysEpollDel fd) (video_world st) in
           st\<lparr>video_collect_fd := fd, video_world := snd (sys e (SysWrite fd (bytes_of ''CMD:SUCCESS'')) w1)\<rparr>
      else st\<lparr>video_world := snd (sys e (SysWrite fd (bytes_of ''CMD:FAIL'')) (video_world st))\<rparr>)"

text \<open>An event that is readable: whether the loop over the events goes on, and the state.\<close>

definition client_event :: "os \<Rightarrow> byte list \<Rightarrow> int \<Rightarrow> video \<Rightarrow> (bool \<times> video) res" where
  "client_event e buf fd st =
     (if fd < 0 then Inr (True, st)
      else rbind (read_into e fd buf (video_world st)) (\<lambda>(n, b, w1).
           let st1 = st\<lparr>video_world := w1\<rparr> in
           if n < 0
           then if errno e (SysRead fd BUF_SIZE) (video_world st) = ECONNRESET
                then Inr (True, st1\<lparr>video_world := snd (sys e (SysClose fd) w1)\<rparr>)
                else Inr (False, st1)
           else if n = 0 then Inr (True, st1\<lparr>video_world := snd (sys e (SysClose fd) w1)\<rparr>)
           else rbind (wr_buf b n 0) (\<lambda>b1.
                rmap (\<lambda>s. (True,
                    if strncmp_eq 13 s (bytes_of ''CMD:VIDEO_GET'') then register_client e fd st1
                    else if strncmp_eq 21 s (bytes_of ''CMD:VIDEO_COLLECT_REG'') then register_device e fd st1
                    else st1)) (mem_str b1))))"

text \<open>The event of the listening socket, which is always ready to be read.\<close>

definition server_event :: "os \<Rightarrow> int \<Rightarrow> video \<Rightarrow> video" where
  "server_event e server_fd st =
     (let (connfd, w1) = sys e (SysAccept server_fd) (video_world st) in
      st\<lparr>video_world := snd (sys e (SysEpollAdd connfd) w1)\<rparr>)"

datatype video_event = Readable int | Writable int

text \<open>The loop over the events that \<open>epoll_wait\<close> delivered.\<close>

fun handle_events :: "os \<Rightarrow> byte list \<Rightarrow> int \<Rightarrow> video_event list \<Rightarrow> video \<Rightarrow> video res" where
  "handle_events e buf server_fd [] st = Inr st"
| "handle_events e buf server_fd (Readable fd # evs) st =
     (if fd = server_fd then handle_events e buf server_fd evs (server_event e server_fd st)
      else rbind (client_event e buf fd st) (\<lambda>(go_on, st1).
           if go_on then handle_events e buf server_fd evs st1 else Inr st1))"
| "handle_events e buf server_fd (Writable fd # evs) st =
     handle_events e buf server_fd evs (if fd = server_fd then server_event e server_fd st else st)"

text \<open>\<open>video_server_init\<close> up to the loop: the descriptor of the server, or None when it gives up.\<close>

definition video_server_init :: "os \<Rightarrow> world \<Rightarrow> (int \<times> video) option" where
  "video_server_init e w =
     (let (fd, w1) = sys e (SysSocket AF_INET 1 0) w in if fd < 0 then None else
      let (_, w2) = sys e SysEpollCreate w1;
          (_, w3) = sys e (SysEpollAdd fd) w2;
          (r, w4) = sys e (SysBind fd SERVER_PORT) w3 in if r < 0 then None else
      let (r, w5) = sys e (SysListen fd LISTENQ) w4 in if r < 0 then None else
      let (r, w6) = sys e (SysThreadCreate 0) w5 in
      if r \<noteq> 0 then None
      else Some (fd, \<lparr>client_fds = replicate VIDEO_CLIENT_MAX (- 1), video_collect_fd = - 1, video_running = True, video_world = w6\<rparr>))"

end
