(* ===== verification/Video_Properties.thy ===== *)
theory Video_Properties
  imports Video "HOL-Library.Multiset"
begin

text \<open>The properties of the video server: its table of clients, who gets the data, and its buffers.\<close>

section \<open>The table\<close>

text \<open>The table holds the clients at the front and -1 behind them.\<close>

definition table_of :: "int list \<Rightarrow> int list" where
  "table_of ps = ps @ replicate (VIDEO_CLIENT_MAX - length ps) (- 1)"

definition clients_ok :: "int list \<Rightarrow> bool" where
  "clients_ok ps \<longleftrightarrow> length ps \<le> VIDEO_CLIENT_MAX \<and> (\<forall>c \<in> set ps. 0 < c)"

text \<open>A client whose place is taken by the last one.\<close>

definition drop_client :: "nat \<Rightarrow> int list \<Rightarrow> int list" where
  "drop_client i ps = (if Suc i = length ps then butlast ps else (butlast ps)[i := last ps])"

lemma table_of_length [simp]: "clients_ok ps \<Longrightarrow> length (table_of ps) = VIDEO_CLIENT_MAX"
  by (simp add: table_of_def clients_ok_def)

lemma table_of_nth: "k < length ps \<Longrightarrow> table_of ps ! k = ps ! k"
  "length ps \<le> k \<Longrightarrow> k < VIDEO_CLIENT_MAX \<Longrightarrow> table_of ps ! k = - 1"
  by (simp_all add: table_of_def nth_append)

lemma last_client_last:
  "clients_ok ps \<Longrightarrow> i < length ps \<Longrightarrow> length ps \<le> Suc j \<Longrightarrow> j < VIDEO_CLIENT_MAX \<Longrightarrow> last_client i j (table_of ps) = length ps - 1"
proof (induction j)
  case (Suc j)
  show ?case
  proof (cases "length ps = Suc (Suc j)")
    case True
    then have "table_of ps ! Suc j > 0" using Suc.prems(1) by (simp add: table_of_nth clients_ok_def)
    then show ?thesis using True Suc.prems(2) by auto
  next
    case False
    then have "\<not> table_of ps ! Suc j > 0" "\<not> Suc j \<le> i" using Suc.prems by (simp_all add: table_of_nth)
    then show ?thesis using Suc False by simp
  qed
qed auto

lemma remove_client_table:
  assumes "clients_ok ps" "i < length ps"
  shows "remove_client i (table_of ps) = table_of (drop_client i ps)" and "clients_ok (drop_client i ps)"
proof -
  obtain qs q where ps: "ps = qs @ [q]" using assms(2) by (cases ps rule: rev_cases) auto
  have j: "last_client i (VIDEO_CLIENT_MAX - 1) (table_of ps) = length qs"
    using last_client_last [OF assms, of "VIDEO_CLIENT_MAX - 1"] assms ps by (simp add: clients_ok_def)
  obtain n where n: "VIDEO_CLIENT_MAX = Suc (length qs + n)" using assms(1) ps by (auto simp: clients_ok_def le_iff_add)
  have t: "table_of ps = qs @ q # replicate n (- 1)" by (simp add: table_of_def ps n)
  show "remove_client i (table_of ps) = table_of (drop_client i ps)"
  proof (cases "i = length qs")
    case True
    then have "remove_client i (table_of ps) = qs @ (- 1) # replicate n (- 1)" using j by (simp add: remove_client_def t)
    then show ?thesis using True by (simp add: drop_client_def ps table_of_def n Suc_diff_le)
  next
    case False
    then have i: "i < length qs" using assms(2) ps by simp
    then have "remove_client i (table_of ps) = qs[i := q] @ (- 1) # replicate n (- 1)"
      using j False by (simp add: remove_client_def t nth_append list_update_append)
    then show ?thesis using i by (simp add: drop_client_def ps table_of_def n Suc_diff_le)
  qed
  show "clients_ok (drop_client i ps)"
    using assms ps by (auto simp: clients_ok_def drop_client_def dest: set_update_subset_insert [THEN subsetD])
qed

lemma drop_client_length: "i < length ps \<Longrightarrow> length (drop_client i ps) = length ps - 1"
  by (simp add: drop_client_def)

lemma drop_client_take: "i < length ps \<Longrightarrow> take i (drop_client i ps) = take i ps"
  by (cases ps rule: rev_cases) (auto simp: drop_client_def)

lemma drop_client_rest: "i < length ps \<Longrightarrow> add_mset (ps ! i) (mset (drop i (drop_client i ps))) = mset (drop i ps)"
proof (induction i arbitrary: ps)
  case 0
  then obtain qs q where "ps = qs @ [q]" by (cases ps rule: rev_cases) auto
  then show ?case by (cases qs) (auto simp: drop_client_def)
next
  case (Suc i)
  then obtain p ps' where ps: "ps = p # ps'" "i < length ps'" by (cases ps) auto
  then have "drop_client (Suc i) ps = p # drop_client i ps'" by (auto simp: drop_client_def)
  then show ?case using Suc.IH [OF ps(2)] ps(1) by simp
qed

section \<open>Sending\<close>

lemma send_loop_end: "clients_ok ps \<Longrightarrow> send_loop e data (length ps) (table_of ps) w = (0, table_of ps, w)"
  by (subst send_loop.simps) (simp add: table_of_nth)

lemma send_loop_step:
  assumes "clients_ok ps" "i < length ps"
  shows "send_loop e data i (table_of ps) w =
    (let c = SysWrite (ps ! i) data; r = answer e w c in
     if r = int (length data) then send_loop e data (i + 1) (table_of ps) ((c, r) # w)
     else if errno e c w = EBADF then send_loop e data i (table_of (drop_client i ps)) ((c, r) # w)
     else (- 1, table_of ps, (c, r) # w))"
proof -
  have "ps ! i > 0" "i < VIDEO_CLIENT_MAX" using assms by (auto simp: clients_ok_def)
  then show ?thesis
    using assms remove_client_table(1) [OF assms] by (subst send_loop.simps) (simp add: table_of_nth sys_def Let_def)
qed

text \<open>Whatever the answers, the loop returns and the table stays in order.\<close>

lemma send_loop_ok:
  "clients_ok ps \<Longrightarrow> i \<le> length ps \<Longrightarrow> \<exists>r ps' w'. send_loop e data i (table_of ps) w = (r, table_of ps', w') \<and> clients_ok ps'"
proof (induction "length ps - i" arbitrary: i ps w rule: less_induct)
  case less
  show ?case
  proof (cases "i < length ps")
    case False
    then have "i = length ps" using less.prems by simp
    then show ?thesis using send_loop_end [OF less.prems(1)] less.prems(1) by blast
  next
    case True
    then show ?thesis
      unfolding send_loop_step [OF less.prems(1) True] Let_def
      using less.hyps [of ps "i + 1"] less.hyps [of "drop_client i ps" i]
        remove_client_table(2) [OF less.prems(1) True] drop_client_length [OF True] less.prems(1) by auto
  qed
qed

text \<open>A system where writes to the closed descriptors fail and other writes are complete.\<close>

definition closed_fds :: "os \<Rightarrow> int set \<Rightarrow> bool" where
  "closed_fds e gone \<longleftrightarrow> (\<forall>w fd bs. if fd \<in> gone then answer e w (SysWrite fd bs) = - 1 \<and> errno e (SysWrite fd bs) w = EBADF
     else answer e w (SysWrite fd bs) = int (length bs))"

definition times :: "nat \<Rightarrow> byte list \<Rightarrow> byte list" where
  "times n bs = concat (replicate n bs)"

lemma times_simps [simp]: "times 0 bs = []" "times (Suc n) bs = bs @ times n bs"
  by (simp_all add: times_def)

lemma send_loop_delivers:
  "closed_fds e gone \<Longrightarrow> clients_ok ps \<Longrightarrow> i \<le> length ps \<Longrightarrow> (\<forall>c \<in> set (take i ps). c \<notin> gone) \<Longrightarrow>
    \<exists>ps' w'. send_loop e data i (table_of ps) w = (0, table_of ps', w') \<and> clients_ok ps'
      \<and> mset ps' = filter_mset (\<lambda>c. c \<notin> gone) (mset ps)
      \<and> (\<forall>fd. accepted fd w' = accepted fd w @ (if fd \<in> gone then [] else times (count (mset (drop i ps)) fd) data))"
proof (induction "length ps - i" arbitrary: i ps w rule: less_induct)
  case less
  show ?case
  proof (cases "i < length ps")
    case False
    then have i: "i = length ps" using less.prems by simp
    then have "filter_mset (\<lambda>c. c \<notin> gone) (mset ps) = mset ps"
      using less.prems(4) by (simp add: filter_mset_eq_conv)
    then show ?thesis using i send_loop_end [OF less.prems(2)] less.prems(2) by (intro exI [of _ ps] exI [of _ w]) simp
  next
    case True
    let ?c = "SysWrite (ps ! i) data"
    let ?w = "(?c, answer e w ?c) # w"
    have rest: "drop i ps = ps ! i # drop (Suc i) ps" using True by (simp add: Cons_nth_drop_Suc)
    show ?thesis
    proof (cases "ps ! i \<in> gone")
      case gone: True
      then have a: "answer e w ?c = - 1" "errno e ?c w = EBADF" using less.prems(1) by (simp_all add: closed_fds_def)
      have step: "send_loop e data i (table_of ps) w = send_loop e data i (table_of (drop_client i ps)) ?w"
        using send_loop_step [OF less.prems(2) True] a by (simp add: Let_def)
      have front: "\<forall>c \<in> set (take i (drop_client i ps)). c \<notin> gone" using less.prems(4) drop_client_take [OF True] by simp
      have len: "length (drop_client i ps) - i < length ps - i" "i \<le> length (drop_client i ps)"
        using drop_client_length [OF True] True by simp_all
      obtain ps' w' where r: "send_loop e data i (table_of (drop_client i ps)) ?w = (0, table_of ps', w')" "clients_ok ps'"
        "mset ps' = filter_mset (\<lambda>c. c \<notin> gone) (mset (drop_client i ps))"
        "\<forall>fd. accepted fd w' = accepted fd ?w @ (if fd \<in> gone then [] else times (count (mset (drop i (drop_client i ps))) fd) data)"
        using less.hyps [OF len(1) less.prems(1) remove_client_table(2) [OF less.prems(2) True] len(2) front] by blast
      have "mset ps = mset (take i ps) + mset (drop i ps)" "mset (drop_client i ps) = mset (take i ps) + mset (drop i (drop_client i ps))"
        by (metis append_take_drop_id mset_append) (metis append_take_drop_id mset_append drop_client_take [OF True])
      then have "add_mset (ps ! i) (mset (drop_client i ps)) = mset ps" using drop_client_rest [OF True] by simp
      then have "filter_mset (\<lambda>c. c \<notin> gone) (mset (drop_client i ps)) = filter_mset (\<lambda>c. c \<notin> gone) (mset ps)"
        using gone by (metis filter_mset_add_mset)
      moreover have "count (mset (drop i (drop_client i ps))) fd = count (mset (drop i ps)) fd" if "fd \<notin> gone" for fd
        using drop_client_rest [OF True] gone that by (metis count_add_mset)
      ultimately show ?thesis using step r a by (intro exI [of _ ps'] exI [of _ w']) simp
    next
      case False
      then have a: "answer e w ?c = int (length data)" using less.prems(1) by (simp add: closed_fds_def)
      have step: "send_loop e data i (table_of ps) w = send_loop e data (Suc i) (table_of ps) ?w"
        using send_loop_step [OF less.prems(2) True] a by (simp add: Let_def)
      have front: "\<forall>c \<in> set (take (Suc i) ps). c \<notin> gone" using less.prems(4) False True by (simp add: take_Suc_conv_app_nth)
      have len: "length ps - Suc i < length ps - i" "Suc i \<le> length ps" using True by simp_all
      obtain ps' w' where r: "send_loop e data (Suc i) (table_of ps) ?w = (0, table_of ps', w')" "clients_ok ps'"
        "mset ps' = filter_mset (\<lambda>c. c \<notin> gone) (mset ps)"
        "\<forall>fd. accepted fd w' = accepted fd ?w @ (if fd \<in> gone then [] else times (count (mset (drop (Suc i) ps)) fd) data)"
        using less.hyps [OF len(1) less.prems(1,2) len(2) front] by blast
      then show ?thesis using step a rest False by (intro exI [of _ ps'] exI [of _ w']) simp
    qed
  qed
qed

section \<open>Runs\<close>

text \<open>The server runs in turns of its thread and in batches of events on positive descriptors, in any
  order and with any answers of the system.\<close>

inductive video_reach :: "os \<Rightarrow> int \<Rightarrow> video \<Rightarrow> bool" for e server_fd where
  reach_start: "video_server_init e w = Some (server_fd, st) \<Longrightarrow> video_reach e server_fd st"
| reach_turn: "video_reach e server_fd st \<Longrightarrow> video_turn e buf st = Inr st' \<Longrightarrow> video_reach e server_fd st'"
| reach_events: "video_reach e server_fd st \<Longrightarrow> (\<forall>fd. Readable fd \<in> set evs \<longrightarrow> 0 < fd) \<Longrightarrow>
    handle_events e buf server_fd evs st = Inr st' \<Longrightarrow> video_reach e server_fd st'"

inductive_cases video_reachE: "video_reach e server_fd st"

definition video_ok :: "video \<Rightarrow> bool" where
  "video_ok st \<longleftrightarrow> (\<exists>ps. clients_ok ps \<and> client_fds st = table_of ps) \<and> (video_collect_fd st = - 1 \<or> 0 < video_collect_fd st)"

lemma video_ok_world [simp]: "video_ok (st\<lparr>video_world := w\<rparr>) = video_ok st"
  by (simp add: video_ok_def)

lemma send_data_ok: "video_ok st \<Longrightarrow> video_ok (snd (video_send_data e data st))"
  using send_loop_ok [where i = 0 and e = e and data = data and w = "video_world st"]
  by (fastforce simp: video_ok_def video_send_data_def split: prod.splits)

lemma video_turn_ok: "video_ok st \<Longrightarrow> video_turn e buf st = Inr st' \<Longrightarrow> video_ok st'"
  by (auto simp: video_turn_def rbind_eq_Inr Let_def intro!: send_data_ok split: if_splits) (simp add: video_ok_def)

lemma free_place_table: "clients_ok ps \<Longrightarrow> free_place (table_of ps) = length ps"
proof -
  have "\<forall>c \<in> set ps. 0 < c \<Longrightarrow> free_place (ps @ replicate n (- 1)) = length ps" for n
    by (induction ps) (cases n, auto)
  then show "clients_ok ps \<Longrightarrow> free_place (table_of ps) = length ps" by (simp add: table_of_def clients_ok_def)
qed

lemma register_client_ok: "video_ok st \<Longrightarrow> 0 < fd \<Longrightarrow> video_ok (register_client e fd st)"
proof -
  assume ok: "video_ok st" and fd: "0 < fd"
  obtain ps where ps: "clients_ok ps" "client_fds st = table_of ps" using ok by (auto simp: video_ok_def)
  show ?thesis
  proof (cases "length ps = VIDEO_CLIENT_MAX")
    case True
    then show ?thesis using ok ps free_place_table [OF ps(1)] by (simp add: register_client_def Let_def)
  next
    case False
    then obtain n where n: "VIDEO_CLIENT_MAX - length ps = Suc n" using ps(1) by (cases "VIDEO_CLIENT_MAX - length ps") (auto simp: clients_ok_def)
    have "(table_of ps)[length ps := fd] = table_of (ps @ [fd])" using n by (simp add: table_of_def Suc_diff_le)
    moreover have "clients_ok (ps @ [fd])" using ps(1) fd False by (auto simp: clients_ok_def)
    moreover have "register_client e fd st = st\<lparr>client_fds := (table_of ps)[length ps := fd],
        video_world := snd (sys e (SysWrite fd (bytes_of ''CMD:SUCCESS'')) (video_world st))\<rparr>"
      using False free_place_table [OF ps(1)] ps(2) by (simp add: register_client_def Let_def)
    ultimately show ?thesis using ok by (auto simp: video_ok_def)
  qed
qed

lemma register_device_ok: "video_ok st \<Longrightarrow> 0 < fd \<Longrightarrow> video_ok (register_device e fd st)"
  by (auto simp: register_device_def video_ok_def split: prod.splits)

lemma client_event_ok: "video_ok st \<Longrightarrow> 0 < fd \<Longrightarrow> client_event e buf fd st = Inr (go, st') \<Longrightarrow> video_ok st'"
  by (auto simp: client_event_def rbind_eq_Inr Let_def intro: register_client_ok register_device_ok split: if_splits)

lemma server_event_ok: "video_ok st \<Longrightarrow> video_ok (server_event e fd st)"
  by (simp add: server_event_def split: prod.splits)

lemma handle_events_ok:
  "handle_events e buf server_fd evs st = Inr st' \<Longrightarrow> video_ok st \<Longrightarrow> (\<forall>fd. Readable fd \<in> set evs \<longrightarrow> 0 < fd) \<Longrightarrow> video_ok st'"
proof (induction e buf server_fd evs st rule: handle_events.induct)
  case (2 e buf server_fd fd evs st)
  show ?case
  proof (cases "fd = server_fd")
    case False
    then obtain go st1 where st1: "client_event e buf fd st = Inr (go, st1)" "(if go then handle_events e buf server_fd evs st1 else Inr st1) = Inr st'"
      using 2(3) by (auto simp: rbind_eq_Inr)
    have "0 < fd" using 2(5) by auto
    then have "video_ok st1" using client_event_ok [OF 2(4)] st1(1) by blast
    moreover have "\<forall>fd. Readable fd \<in> set evs \<longrightarrow> 0 < fd" using 2(5) by auto
    ultimately show ?thesis using st1 2(2) [OF False st1(1) refl] by (cases go) auto
  qed (use 2 server_event_ok in auto)
next
  case (3 e buf server_fd fd evs st)
  then show ?case using server_event_ok [of st e server_fd] by (cases "fd = server_fd") auto
qed simp


text \<open>C26: \<open>video_send_data\<close> refines sending to a multiset of clients: those whose descriptor is
  closed are removed, the others stay, and each of these gets the data once for every time it is
  registered; nobody else gets anything.\<close>

theorem video_send_refines:
  assumes "closed_fds e gone" "clients_ok ps" "client_fds st = table_of ps"
  shows "\<exists>ps' st'. video_send_data e data st = (0, st') \<and> client_fds st' = table_of ps'
    \<and> mset ps' = filter_mset (\<lambda>c. c \<notin> gone) (mset ps)
    \<and> (\<forall>fd. accepted fd (video_world st') = accepted fd (video_world st) @ concat (replicate (count (mset ps') fd) data))"
proof -
  obtain ps' w' where r: "send_loop e data 0 (table_of ps) (video_world st) = (0, table_of ps', w')"
    "mset ps' = filter_mset (\<lambda>c. c \<notin> gone) (mset ps)"
    "\<forall>fd. accepted fd w' = accepted fd (video_world st) @ (if fd \<in> gone then [] else times (count (mset ps) fd) data)"
    using send_loop_delivers [OF assms(1,2), of 0 data "video_world st"] by auto
  have "(if fd \<in> gone then [] else times (count (mset ps) fd) data) = concat (replicate (count (mset ps') fd) data)" for fd
    unfolding r(2) by (simp add: times_def)
  then show ?thesis using r(1,3) r(2) assms(3)
    by (intro exI [of _ ps'] exI [of _ "st\<lparr>client_fds := table_of ps', video_world := w'\<rparr>"]) (simp add: video_send_data_def)
qed

text \<open>The witness: two clients register, one of them is gone when the next picture comes.\<close>

definition crowd_os :: "int set \<Rightarrow> os" where
  "crowd_os gone = \<lparr>answer = (\<lambda>w c. case c of SysWrite fd bs \<Rightarrow> if fd \<in> gone then - 1 else int (length bs) | _ \<Rightarrow> 0),
     errno_of = (\<lambda>_ _. EBADF), data_of = (\<lambda>_ _. []), can_read = (\<lambda>_ _. True), can_write = (\<lambda>_ _. True),
     so_error = (\<lambda>_. 0), alloc_ok = (\<lambda>_. True)\<rparr>"

theorem video_send_refines_witness:
  "\<exists>st'. video_send_data (crowd_os {6}) [1, 2] \<lparr>client_fds = [6, 7], video_collect_fd = 5, video_running = True, video_world = []\<rparr> = (0, st')
    \<and> accepted 7 (video_world st') = [1, 2] \<and> accepted 6 (video_world st') = []"
proof -
  let ?st = "\<lparr>client_fds = [6, 7], video_collect_fd = 5, video_running = True, video_world = []\<rparr> :: video"
  have "closed_fds (crowd_os {6}) {6}" by (simp add: closed_fds_def crowd_os_def errno_def)
  moreover have "clients_ok [6, 7]" "client_fds ?st = table_of [6, 7]" by (simp_all add: clients_ok_def table_of_def VIDEO_CLIENT_MAX_def)
  ultimately show ?thesis using video_send_refines [of "crowd_os {6}" "{6}" "[6, 7]" ?st "[1, 2]"] by auto
qed


text \<open>The thread writes outside its array when the device fills the buffer, and also when the
  read fails, because the zero is stored before the result is tested.\<close>

theorem video_turn_overruns:
  assumes "video_collect_fd st \<noteq> - 1" "length buf = BUF_SIZE"
    and "answer e (video_world st) (SysRead (video_collect_fd st) BUF_SIZE) \<in> {- 1, int BUF_SIZE}"
    and "length (data_of e (video_world st) (SysRead (video_collect_fd st) BUF_SIZE)) \<le> BUF_SIZE"
  shows "video_turn e buf st = Inl OutOfBounds"
proof -
  let ?c = "SysRead (video_collect_fd st) BUF_SIZE"
  consider "answer e (video_world st) ?c = - 1" | "answer e (video_world st) ?c = int BUF_SIZE" using assms(3) by auto
  then show ?thesis
  proof cases
    case 1
    then show ?thesis using assms(1) by (simp add: video_turn_def read_into_def sys_def Let_def wr_buf_def)
  next
    case 2
    let ?d = "take BUF_SIZE (data_of e (video_world st) ?c)"
    obtain b where b: "wr_bytes buf 0 ?d = Inr b" using wr_bytes_ok [of 0 ?d buf] assms(2) by simp
    then have "length b = BUF_SIZE" using wr_bytes_length [OF b] assms(2) by simp
    then show ?thesis using 2 b assms(1) by (simp add: video_turn_def read_into_def sys_def Let_def wr_buf_def BUF_SIZE_def)
  qed
qed

theorem video_turn_overruns_witness:
  "video_turn ((crowd_os {})\<lparr>answer := \<lambda>w c. - 1\<rparr>) (replicate 2048 0)
     \<lparr>client_fds = [6, 7], video_collect_fd = 5, video_running = True, video_world = []\<rparr> = Inl OutOfBounds"
  by (rule video_turn_overruns) (simp_all add: BUF_SIZE_def crowd_os_def)

text \<open>A client that disconnects stays in the table: its descriptor is closed, and when the system
  gives the number to another connection, that one gets the pictures it never asked for.\<close>

theorem closed_client_stays:
  assumes "0 < fd" "answer e (video_world st) (SysRead fd BUF_SIZE) = 0"
  shows "\<exists>st'. client_event e buf fd st = Inr (True, st') \<and> fd \<notin> open_fds (video_world st') \<and> client_fds st' = client_fds st"
  using assms by (simp add: client_event_def read_into_def sys_def Let_def)

end
