(* ===== verification/M_Error.thy ===== *)
theory M_Error
  imports C_Library
begin

text \<open>
  The error functions of \<open>lib/m_error.c\<close>: a line is put together in an array on the stack and printed,
  and the fatal ones end the program.  \<open>vsprintf\<close> formats the message (\<open>HAVE_VSNPRINTF\<close> is not
  defined); its result is an argument.  Where the line goes, to the terminal or, for a daemon, to
  the system log, is left out.
\<close>

definition ERR_BUFFER_SIZE :: nat where "ERR_BUFFER_SIZE = 2048"

record err_env =
  ee_errno :: int
  ee_strerror :: "int \<Rightarrow> byte list"

text \<open>How a call that may end the program ends.\<close>

datatype 'a checked = Ok 'a | Exits int "byte list" | Aborts "byte list" | Faults fault

definition cbind :: "'a checked \<Rightarrow> ('a \<Rightarrow> 'b checked) \<Rightarrow> 'b checked" where
  "cbind m f = (case m of Ok x \<Rightarrow> f x | Exits n l \<Rightarrow> Exits n l | Aborts l \<Rightarrow> Aborts l | Faults x \<Rightarrow> Faults x)"

definition of_res :: "'a res \<Rightarrow> 'a checked" where
  "of_res m = (case m of Inl f \<Rightarrow> Faults f | Inr x \<Rightarrow> Ok x)"

lemma cbind_simps [simp]:
  "cbind (Ok x) f = f x" "cbind (Exits n l) f = Exits n l" "cbind (Aborts l) f = Aborts l" "cbind (Faults g) f = Faults g"
  by (simp_all add: cbind_def)

lemma of_res_simps [simp]: "of_res (Inr x) = Ok x" "of_res (Inl f) = Faults f"
  by (simp_all add: of_res_def)

lemma cbind_eq_Ok: "cbind m f = Ok y \<longleftrightarrow> (\<exists>x. m = Ok x \<and> f x = Ok y)"
  by (cases m) auto

lemma of_res_eq_Ok: "of_res m = Ok y \<longleftrightarrow> m = Inr y"
  by (cases m) auto

section \<open>The line\<close>

text \<open>What the array holds at first is never read.\<close>

definition err_doit :: "err_env \<Rightarrow> bool \<Rightarrow> byte list \<Rightarrow> byte list res" where
  "err_doit e errnoflag message =
     rbind (wr_bytes (replicate (ERR_BUFFER_SIZE + 1) 0) 0 (message @ [0])) (\<lambda>b1.
     rbind (mem_str b1) (\<lambda>s.
     let n = length s; more_text = [0x3A, 0x20] @ ee_strerror e (ee_errno e) @ [0x5B] @ dec_int (ee_errno e) @ [0x5D] in
     rbind (if errnoflag \<and> n < ERR_BUFFER_SIZE
            then wr_bytes b1 (int n) (take (ERR_BUFFER_SIZE - n - 1) more_text @ [0])
            else Inr b1) (\<lambda>b2.
     rbind (mem_str b2) (\<lambda>t.
     rbind (wr_bytes b2 (int (length t)) [0x0A, 0]) mem_str))))"

definition err_ret :: "err_env \<Rightarrow> byte list \<Rightarrow> byte list res" where
  "err_ret e message = err_doit e True message"

definition err_sys :: "err_env \<Rightarrow> byte list \<Rightarrow> 'a checked" where
  "err_sys e message = (case err_doit e True message of Inl f \<Rightarrow> Faults f | Inr line \<Rightarrow> Exits 1 line)"

definition err_dump :: "err_env \<Rightarrow> byte list \<Rightarrow> 'a checked" where
  "err_dump e message = (case err_doit e True message of Inl f \<Rightarrow> Faults f | Inr line \<Rightarrow> Aborts line)"

definition err_msg :: "err_env \<Rightarrow> byte list \<Rightarrow> byte list res" where
  "err_msg e message = err_doit e False message"

definition err_quit :: "err_env \<Rightarrow> byte list \<Rightarrow> 'a checked" where
  "err_quit e message = (case err_doit e False message of Inl f \<Rightarrow> Faults f | Inr line \<Rightarrow> Exits 1 line)"

section \<open>What is printed\<close>

definition err_line :: "err_env \<Rightarrow> bool \<Rightarrow> byte list \<Rightarrow> byte list" where
  "err_line e errnoflag message =
     take (ERR_BUFFER_SIZE - 1) (message @ (if errnoflag then [0x3A, 0x20] @ ee_strerror e (ee_errno e) @ [0x5B] @ dec_int (ee_errno e) @ [0x5D] else [])) @ [0x0A]"

lemma err_doit_line:
  assumes "0 \<notin> set message" "0 \<notin> set (ee_strerror e (ee_errno e))" "length message < ERR_BUFFER_SIZE"
  shows "err_doit e errnoflag message = Inr (err_line e errnoflag message)"
proof -
  let ?more = "if errnoflag then [0x3A, 0x20] @ ee_strerror e (ee_errno e) @ [0x5B] @ dec_int (ee_errno e) @ [0x5D] else []"
  define t where "t = message @ take (2047 - length message) ?more"
  have len: "length message < 2048" "length t < 2048" using assms(3) by (simp_all add: t_def ERR_BUFFER_SIZE_def)
  have "0 \<notin> set ?more" using assms(2) dec_int_nonzero [of "ee_errno e"] by auto
  then have nz: "0 \<notin> set t" "0 \<notin> set (t @ [0x0A])" using assms(1) by (auto simp: t_def dest: in_set_takeD)
  have 1: "wr_bytes (replicate 2049 0) 0 (message @ [0]) = Inr (message @ replicate (2049 - length message) 0)"
    using wr_string [of "[]" message 2049] len by simp
  have 2: "mem_str (message @ replicate (2049 - length message) 0) = Inr message" using len by (intro mem_string assms(1)) simp
  have 3: "(if errnoflag \<and> length message < 2048
      then wr_bytes (message @ replicate (2049 - length message) 0) (int (length message))
        (take (2048 - length message - 1) ([0x3A, 0x20] @ ee_strerror e (ee_errno e) @ [0x5B] @ dec_int (ee_errno e) @ [0x5D]) @ [0])
      else Inr (message @ replicate (2049 - length message) 0)) = Inr (t @ replicate (2049 - length t) 0)"
  proof (cases errnoflag)
    case True
    have n: "2048 - length message - 1 = 2047 - length message" by simp
    have "length message + length (take (2047 - length message) ?more) < 2049" using len by simp
    from wr_string [OF this] show ?thesis using True len(1) unfolding t_def n by simp
  qed (simp add: t_def)
  have 4: "mem_str (t @ replicate (2049 - length t) 0) = Inr t" using len by (intro mem_string nz(1)) simp
  have 5: "wr_bytes (t @ replicate (2049 - length t) 0) (int (length t)) [0x0A, 0] = Inr ((t @ [0x0A]) @ replicate (2049 - length (t @ [0x0A])) 0)"
    using wr_string [of t "[0x0A]" 2049] len by simp
  have 6: "mem_str ((t @ [0x0A]) @ replicate (2049 - length (t @ [0x0A])) 0) = Inr (t @ [0x0A])" using len by (intro mem_string nz(2)) simp
  have "t = take 2047 (message @ ?more)" using len by (simp add: t_def)
  then have 7: "err_line e errnoflag message = t @ [0x0A]" unfolding err_line_def ERR_BUFFER_SIZE_def by simp
  have 8: "(2048::nat) + 1 = 2049" by simp
  show ?thesis unfolding err_doit_def ERR_BUFFER_SIZE_def Let_def 8 1 rbind_simps 2 3 4 5 6 7 ..
qed

lemma err_doit_overruns:
  assumes "0 \<notin> set message" "ERR_BUFFER_SIZE \<le> length message"
  shows "err_doit e errnoflag message = Inl OutOfBounds"
proof (cases "length message = 2048")
  case True
  then have "wr_bytes (replicate 2049 0) 0 (message @ [0]) = Inr (message @ [0])"
    using wr_string [of "[]" message 2049] by simp
  moreover have "mem_str (message @ [0]) = Inr message" using mem_str_at [OF assms(1), of "[]"] by simp
  moreover have "wr_bytes (message @ [0]) (int (length message)) [0x0A, 0] = Inl OutOfBounds" by (rule wr_bytes_oob) simp_all
  ultimately show ?thesis using True by (simp add: err_doit_def ERR_BUFFER_SIZE_def)
next
  case False
  then have "wr_bytes (replicate 2049 0) 0 (message @ [0]) = Inl OutOfBounds"
    using assms(2) by (intro wr_bytes_oob) (simp_all add: ERR_BUFFER_SIZE_def)
  then show ?thesis by (simp add: err_doit_def ERR_BUFFER_SIZE_def)
qed

end
