(* ===== verification/M_Wrap.thy ===== *)
theory M_Wrap
  imports M_Error M_Sock M_Stream
begin

text \<open>
  The checked system calls of \<open>lib/m_wrap.c\<close>.  A wrapper gets the result of the call that it makes
  (None is NULL) and returns it, or ends the program with a message when the call failed; the
  wrappers of functions of this library call them.  The functions under \<open>#ifdef\<close> of macros that
  nothing defines for this file are left out.
\<close>

definition ECONNABORTED :: int where "ECONNABORTED = 103"
definition EPROTO :: int where "EPROTO = 71"

text \<open>The environment of an error message after the last call of a history.\<close>

definition env_after :: "os \<Rightarrow> (int \<Rightarrow> byte list) \<Rightarrow> world \<Rightarrow> err_env" where
  "env_after os strerror w = \<lparr>ee_errno = errno os (fst (hd w)) (tl w), ee_strerror = strerror\<rparr>"

section \<open>Results\<close>

text \<open>The four tests: a negative result, -1, NULL, and another count than was asked for.\<close>

definition not_negative :: "err_env \<Rightarrow> string \<Rightarrow> int \<Rightarrow> int checked" where
  "not_negative e message r = (if r < 0 then err_sys e (bytes_of message) else Ok r)"

definition not_minus_one :: "err_env \<Rightarrow> string \<Rightarrow> int \<Rightarrow> int checked" where
  "not_minus_one e message r = (if r = - 1 then err_sys e (bytes_of message) else Ok r)"

definition not_null :: "err_env \<Rightarrow> string \<Rightarrow> 'a option \<Rightarrow> 'a checked" where
  "not_null e message p = (case p of None \<Rightarrow> err_sys e (bytes_of message) | Some x \<Rightarrow> Ok x)"

definition all_of_it :: "err_env \<Rightarrow> string \<Rightarrow> nat \<Rightarrow> int \<Rightarrow> unit checked" where
  "all_of_it e message nbytes r = (if r \<noteq> int nbytes then err_sys e (bytes_of message) else Ok ())"

definition ignored :: "'a checked \<Rightarrow> unit checked" where
  "ignored m = cbind m (\<lambda>_. Ok ())"

text \<open>A call and the test of its result.\<close>

definition checked_call :: "os \<Rightarrow> (int \<Rightarrow> byte list) \<Rightarrow> (err_env \<Rightarrow> int \<Rightarrow> 'a checked) \<Rightarrow> sys_call \<Rightarrow> world \<Rightarrow> ('a \<times> world) checked" where
  "checked_call os strerror wrapper c w =
     (let w1 = (c, answer os w c) # w in
      cbind (wrapper (env_after os strerror w1) (answer os w c)) (\<lambda>x. Ok (x, w1)))"

section \<open>Sockets\<close>

text \<open>A connection that was aborted before it was accepted is not an error; a peer that goes on
  aborting keeps the loop going (None).\<close>

partial_function (option) Accept :: "os \<Rightarrow> (int \<Rightarrow> byte list) \<Rightarrow> int \<Rightarrow> world \<Rightarrow> (int checked \<times> world) option" where
  "Accept e strerror fd w =
     (let c = SysAccept fd; n = answer e w c; w1 = (c, n) # w in
      if n < 0
      then if errno e c w = EPROTO \<or> errno e c w = ECONNABORTED then Accept e strerror fd w1
           else Some (err_sys (env_after e strerror w1) (bytes_of ''accept error''), w1)
      else Some (Ok n, w1))"

declare Accept.simps [code]

definition Bind :: "err_env \<Rightarrow> int \<Rightarrow> unit checked" where "Bind e r = ignored (not_negative e ''bind error'' r)"
definition Connect :: "err_env \<Rightarrow> int \<Rightarrow> unit checked" where "Connect e r = ignored (not_negative e ''connect error'' r)"
definition Getpeername :: "err_env \<Rightarrow> int \<Rightarrow> unit checked" where "Getpeername e r = ignored (not_negative e ''getpeername error'' r)"
definition Getsockname :: "err_env \<Rightarrow> int \<Rightarrow> unit checked" where "Getsockname e r = ignored (not_negative e ''getsockname error'' r)"
definition Getsockopt :: "err_env \<Rightarrow> int \<Rightarrow> unit checked" where "Getsockopt e r = ignored (not_negative e ''getsockopt error'' r)"

text \<open>The environment variable \<open>LISTENQ\<close> replaces the second argument of \<open>listen\<close>.\<close>

definition Listen :: "os \<Rightarrow> (int \<Rightarrow> byte list) \<Rightarrow> byte list option \<Rightarrow> int \<Rightarrow> int \<Rightarrow> world \<Rightarrow> (unit \<times> world) checked" where
  "Listen os strerror getenv fd backlog w =
     cbind (case getenv of None \<Rightarrow> Ok backlog | Some s \<Rightarrow> of_res (atoi (s @ [0]))) (\<lambda>b.
     checked_call os strerror (\<lambda>e r. ignored (not_negative e ''listen error'' r)) (SysListen fd (nat b)) w)"

text \<open>\<open>Poll\<close> is compiled with \<open>HAVE_POLL\<close> only; \<open>tcp_ser.c\<close> calls it.\<close>

definition Poll :: "err_env \<Rightarrow> int \<Rightarrow> int checked" where "Poll e r = not_negative e ''poll error'' r"

definition Recv :: "err_env \<Rightarrow> int \<Rightarrow> int checked" where "Recv e r = not_negative e ''recv error'' r"
definition Recvfrom :: "err_env \<Rightarrow> int \<Rightarrow> int checked" where "Recvfrom e r = not_negative e ''recvfrom error'' r"
definition Recvmsg :: "err_env \<Rightarrow> int \<Rightarrow> int checked" where "Recvmsg e r = not_negative e ''recvmsg error'' r"
definition Select :: "err_env \<Rightarrow> int \<Rightarrow> int checked" where "Select e r = not_negative e ''select error'' r"
definition Send :: "err_env \<Rightarrow> nat \<Rightarrow> int \<Rightarrow> unit checked" where "Send e nbytes r = all_of_it e ''send error'' nbytes r"
definition Sendto :: "err_env \<Rightarrow> nat \<Rightarrow> int \<Rightarrow> unit checked" where "Sendto e nbytes r = all_of_it e ''sendto error'' nbytes r"

text \<open>The lengths of the parts are added up first.\<close>

definition Sendmsg :: "err_env \<Rightarrow> nat list \<Rightarrow> int \<Rightarrow> unit checked" where
  "Sendmsg e iov_lens r = all_of_it e ''sendmsg error'' (fold (\<lambda>len nbytes. nbytes + len) iov_lens 0) r"

definition Setsockopt :: "err_env \<Rightarrow> int \<Rightarrow> unit checked" where "Setsockopt e r = ignored (not_negative e ''setsockopt error'' r)"
definition Shutdown :: "err_env \<Rightarrow> int \<Rightarrow> unit checked" where "Shutdown e r = ignored (not_negative e ''shutdown error'' r)"
definition Sockatmark :: "err_env \<Rightarrow> int \<Rightarrow> int checked" where "Sockatmark e r = not_negative e ''sockatmark error'' r"
definition Socket :: "err_env \<Rightarrow> int \<Rightarrow> int checked" where "Socket e r = not_negative e ''socket error'' r"
definition Socketpair :: "err_env \<Rightarrow> int \<Rightarrow> unit checked" where "Socketpair e r = ignored (not_negative e ''socketpair error'' r)"

text \<open>\<open>strptr\<close> says whether the buffer is not NULL.\<close>

definition Inet_ntop :: "err_env \<Rightarrow> bool \<Rightarrow> byte list option \<Rightarrow> byte list checked" where
  "Inet_ntop e strptr r =
     (if \<not> strptr then err_quit e (bytes_of ''NULL 3rd argument to inet_ntop'') else not_null e ''inet_ntop error'' r)"

definition Inet_pton :: "err_env \<Rightarrow> byte list \<Rightarrow> int \<Rightarrow> byte list \<Rightarrow> byte list \<Rightarrow> int \<Rightarrow> byte list checked" where
  "Inet_pton e junk family strptr addr off =
     cbind (of_res (sock_inet_pton junk family strptr addr off)) (\<lambda>((n, addr1), _).
     cbind (of_res (mem_str strptr)) (\<lambda>s.
     if n < 0 then err_sys e (bytes_of ''inet_pton error for '' @ s @ bytes_of ''( < 0)'')
     else if n = 0 then err_quit e (bytes_of ''inet_pton error for '' @ s @ bytes_of ''( == 0)'')
     else Ok addr1))"

section \<open>Memory, files and processes\<close>

definition Calloc :: "err_env \<Rightarrow> 'a option \<Rightarrow> 'a checked" where "Calloc e p = not_null e ''calloc error'' p"
definition Close :: "err_env \<Rightarrow> int \<Rightarrow> unit checked" where "Close e r = ignored (not_minus_one e ''close error'' r)"
definition Dup2 :: "err_env \<Rightarrow> int \<Rightarrow> unit checked" where "Dup2 e r = ignored (not_minus_one e ''dup2 error'' r)"
definition Fcntl :: "err_env \<Rightarrow> int \<Rightarrow> int checked" where "Fcntl e r = not_minus_one e ''fcntl error'' r"
definition Gettimeofday :: "err_env \<Rightarrow> int \<Rightarrow> unit checked" where "Gettimeofday e r = ignored (not_minus_one e ''gettimeofday error'' r)"
definition Ioctl :: "err_env \<Rightarrow> int \<Rightarrow> int checked" where "Ioctl e r = not_minus_one e ''ioctl error'' r"
definition Fork :: "err_env \<Rightarrow> int \<Rightarrow> int checked" where "Fork e r = not_minus_one e ''fork error'' r"
definition Malloc :: "err_env \<Rightarrow> 'a option \<Rightarrow> 'a checked" where "Malloc e p = not_null e ''malloc error'' p"

definition Open :: "err_env \<Rightarrow> byte list \<Rightarrow> int \<Rightarrow> int checked" where
  "Open e pathname r = (if r = - 1 then err_sys e (bytes_of ''open error for '' @ pathname) else Ok r)"

text \<open>\<open>mktemp\<close> leaves an empty template when it fails; then the file is created.\<close>

definition Mkstemp :: "err_env \<Rightarrow> byte list option \<Rightarrow> int \<Rightarrow> int checked" where
  "Mkstemp e mktemp r =
     (case mktemp of
        None \<Rightarrow> err_quit e (bytes_of ''mktemp error'')
      | Some template \<Rightarrow> if template = [] then err_quit e (bytes_of ''mktemp error'') else Open e template r)"

definition Mmap :: "err_env \<Rightarrow> 'a option \<Rightarrow> 'a checked" where "Mmap e p = not_null e ''mmap error'' p"
definition Pipe :: "err_env \<Rightarrow> int \<Rightarrow> unit checked" where "Pipe e r = ignored (not_negative e ''pipe error'' r)"
definition Read :: "err_env \<Rightarrow> int \<Rightarrow> int checked" where "Read e r = not_minus_one e ''read error'' r"
definition Sigaddset :: "err_env \<Rightarrow> int \<Rightarrow> unit checked" where "Sigaddset e r = ignored (not_minus_one e ''sigaddset error'' r)"
definition Sigdelset :: "err_env \<Rightarrow> int \<Rightarrow> unit checked" where "Sigdelset e r = ignored (not_minus_one e ''sigdelset error'' r)"
definition Sigemptyset :: "err_env \<Rightarrow> int \<Rightarrow> unit checked" where "Sigemptyset e r = ignored (not_minus_one e ''sigemptyset error'' r)"
definition Sigfillset :: "err_env \<Rightarrow> int \<Rightarrow> unit checked" where "Sigfillset e r = ignored (not_minus_one e ''sigfillset error'' r)"
definition Sigismember :: "err_env \<Rightarrow> int \<Rightarrow> int checked" where "Sigismember e r = not_minus_one e ''sigismember error'' r"
definition Sigpending :: "err_env \<Rightarrow> int \<Rightarrow> unit checked" where "Sigpending e r = ignored (not_minus_one e ''sigpending error'' r)"
definition Sigprocmask :: "err_env \<Rightarrow> int \<Rightarrow> unit checked" where "Sigprocmask e r = ignored (not_minus_one e ''sigprocmask error'' r)"
definition Strdup :: "err_env \<Rightarrow> 'a option \<Rightarrow> 'a checked" where "Strdup e p = not_null e ''strdup error'' p"
definition Sysconf :: "err_env \<Rightarrow> int \<Rightarrow> int checked" where "Sysconf e r = not_minus_one e ''sysconf error'' r"

definition Unlink :: "err_env \<Rightarrow> byte list \<Rightarrow> int \<Rightarrow> unit checked" where
  "Unlink e pathname r = (if r = - 1 then err_sys e (bytes_of ''unlink error for '' @ pathname) else Ok ())"

definition Wait :: "err_env \<Rightarrow> int \<Rightarrow> int checked" where "Wait e r = not_minus_one e ''wait error'' r"
definition Waitpid :: "err_env \<Rightarrow> int \<Rightarrow> int checked" where "Waitpid e r = not_minus_one e ''waitpid error'' r"
definition Write :: "err_env \<Rightarrow> nat \<Rightarrow> int \<Rightarrow> unit checked" where "Write e nbytes r = all_of_it e ''write error'' nbytes r"
definition Signal :: "err_env \<Rightarrow> 'a option \<Rightarrow> 'a checked" where "Signal e p = not_null e ''signal error'' p"

section \<open>Library functions and streams\<close>

definition Sock_ntop :: "err_env \<Rightarrow> (byte list \<Rightarrow> byte list) \<Rightarrow> sockaddr \<Rightarrow> int \<Rightarrow> byte list checked" where
  "Sock_ntop e ntop6 sa salen = cbind (of_res (sock_ntop ntop6 sa salen)) (not_null e ''sock_ntop error'')"

definition Writen :: "os \<Rightarrow> (int \<Rightarrow> byte list) \<Rightarrow> int \<Rightarrow> byte list \<Rightarrow> nat \<Rightarrow> world \<Rightarrow> (unit checked \<times> world) res" where
  "Writen os strerror fd ptr nbytes w =
     rmap (\<lambda>(r, w1). (all_of_it (env_after os strerror w1) ''writen error'' nbytes r, w1)) (sock_writen os fd ptr nbytes w)"

definition Readline :: "os \<Rightarrow> (int \<Rightarrow> byte list) \<Rightarrow> int \<Rightarrow> byte list \<Rightarrow> nat \<Rightarrow> readbuf \<Rightarrow> world \<Rightarrow>
    (int checked \<times> byte list \<times> readbuf \<times> world) res" where
  "Readline os strerror fd ptr maxlen st w =
     rmap (\<lambda>(n, b, st1, w1). (not_negative (env_after os strerror w1) ''readline error'' n, b, st1, w1))
       (sock_readline os fd ptr maxlen st w)"

definition Fclose :: "err_env \<Rightarrow> int \<Rightarrow> unit checked" where
  "Fclose e r = (if r \<noteq> 0 then err_sys e (bytes_of ''fclose error'') else Ok ())"

definition Fdopen :: "err_env \<Rightarrow> 'a option \<Rightarrow> 'a checked" where "Fdopen e p = not_null e ''fdopen error'' p"

text \<open>At the end of the stream \<open>fgets\<close> returns NULL too, and that is no error.\<close>

definition Fgets :: "err_env \<Rightarrow> bool \<Rightarrow> 'a option \<Rightarrow> 'a option checked" where
  "Fgets e ferror r = (if r = None \<and> ferror then err_sys e (bytes_of ''fgets error'') else Ok r)"

definition Fopen :: "err_env \<Rightarrow> 'a option \<Rightarrow> 'a checked" where "Fopen e p = not_null e ''fopen error'' p"

definition Fputs :: "err_env \<Rightarrow> int \<Rightarrow> unit checked" where
  "Fputs e r = ignored (not_minus_one e ''fputs error'' r)"

end
