(* ===== verification/Tcp_Server.thy ===== *)
theory Tcp_Server
  imports M_Wrap
begin

text \<open>
  The echo servers of \<open>unpv13e/tcp_ser.c\<close>: the one that waits with \<open>select\<close> (\<open>main_3\<close>) and what the
  child of the forking one does with its connection (\<open>main_1\<close>), over the checked calls of \<open>M_Wrap\<close>.
  The lines that print addresses and messages are left out.
\<close>

definition FD_SETSIZE :: nat where "FD_SETSIZE = 1024"
definition TCP_SERVER_PORT :: int where "TCP_SERVER_PORT = 8888"
definition TCP_LISTENQ :: int where "TCP_LISTENQ = 1024"

section \<open>Echoing\<close>

text \<open>What was read is ended with a zero, then a newline takes the place of the zero; the array has
  \<open>MAXLINE\<close> bytes.\<close>

definition echo_line :: "byte list \<Rightarrow> byte list \<Rightarrow> int \<Rightarrow> (byte list \<times> nat) res" where
  "echo_line buf data n =
     rbind (wr_bytes buf 0 (take (nat n) data)) (\<lambda>b1.
     rbind (wr_buf b1 n 0) (\<lambda>b2.
     rbind (mem_str b2) (\<lambda>_.
     rbind (wr_buf b2 n 0x0A) (\<lambda>b3.
     rmap (\<lambda>b4. (b4, nat (n + 1))) (wr_buf b3 (n + 1) 0)))))"

definition echo_back :: "os \<Rightarrow> (int \<Rightarrow> byte list) \<Rightarrow> int \<Rightarrow> byte list \<Rightarrow> byte list \<Rightarrow> int \<Rightarrow> world \<Rightarrow>
    (byte list \<times> world) checked" where
  "echo_back e strerror fd buf data n w =
     cbind (of_res (echo_line buf data n)) (\<lambda>(b, len).
     cbind (of_res (Writen e strerror fd b len w)) (\<lambda>(r, w1).
     cbind r (\<lambda>_. Ok (b, w1))))"

text \<open>The loop of the child: until the client closes the connection or reading fails.  A client that
  never stops keeps it going (None).\<close>

partial_function (option) child_loop :: "os \<Rightarrow> (int \<Rightarrow> byte list) \<Rightarrow> int \<Rightarrow> byte list \<Rightarrow> world \<Rightarrow> world checked option" where
  "child_loop e strerror connfd buf w =
     (let c = SysRead connfd MAXLINE_BUF; n = answer e w c; w1 = (c, n) # w in
      if n = 0 then Some (Ok w1)
      else if n > 0
      then (case echo_back e strerror connfd buf (data_of e w c) n w1 of
              Ok (b, w2) \<Rightarrow> child_loop e strerror connfd b w2
            | Exits k l \<Rightarrow> Some (Exits k l)
            | Aborts l \<Rightarrow> Some (Aborts l)
            | Faults f \<Rightarrow> Some (Faults f))
      else if errno e c w = EINTR then child_loop e strerror connfd buf w1
      else Some (Ok w1))"

declare child_loop.simps [code]

section \<open>The forking server\<close>

definition listen_on :: "os \<Rightarrow> (int \<Rightarrow> byte list) \<Rightarrow> byte list option \<Rightarrow> world \<Rightarrow> (int \<times> world) checked" where
  "listen_on e strerror getenv w =
     cbind (checked_call e strerror Socket (SysSocket AF_INET SOCK_STREAM 0) w) (\<lambda>(fd, w1).
     cbind (checked_call e strerror Bind (SysBind fd TCP_SERVER_PORT) w1) (\<lambda>(_, w2).
     cbind (Listen e strerror getenv fd TCP_LISTENQ w2) (\<lambda>(_, w3).
     Ok (fd, w3))))"

text \<open>The handler of \<open>SIGCHLD\<close>: waits for the children that have ended.  More of them than ever keep
  it going (None).\<close>

partial_function (option) sig_chld :: "os \<Rightarrow> world \<Rightarrow> world option" where
  "sig_chld e w = (let n = answer e w SysWaitpid; w1 = (SysWaitpid, n) # w in if n > 0 then sig_chld e w1 else Some w1)"

declare sig_chld.simps [code]

text \<open>One turn of the loop of \<open>main_1\<close>.  The process that called \<open>fork\<close> closes the connection, the
  new one the listening socket; \<open>ip_ok\<close> says whether it gets memory for the text of the address.\<close>

definition fork_round :: "os \<Rightarrow> (int \<Rightarrow> byte list) \<Rightarrow> int \<Rightarrow> bool \<Rightarrow> byte list \<Rightarrow> world \<Rightarrow> world checked option" where
  "fork_round e strerror fd ip_ok buf w =
     (case Accept e strerror fd w of
        None \<Rightarrow> None
      | Some (m, w1) \<Rightarrow>
        (case cbind m (\<lambda>connfd. cbind (checked_call e strerror Fork SysFork w1) (\<lambda>(pid, w2).
              cbind (checked_call e strerror Close (SysClose (if pid = 0 then fd else connfd)) w2) (\<lambda>(_, w3).
              if pid = 0 \<and> \<not> ip_ok then Faults NullDeref else Ok (pid, connfd, w3)))) of
           Ok (pid, connfd, w3) \<Rightarrow>
             if pid = 0
             then map_option (\<lambda>r. cbind r (\<lambda>_. Exits 0 [])) (child_loop e strerror connfd buf w3)
             else Some (Ok w3)
         | Exits k l \<Rightarrow> Some (Exits k l)
         | Aborts l \<Rightarrow> Some (Aborts l)
         | Faults f \<Rightarrow> Some (Faults f)))"

text \<open>One turn of the loop of \<open>main_2\<close>, which drops every connection.\<close>

definition drop_round :: "os \<Rightarrow> (int \<Rightarrow> byte list) \<Rightarrow> int \<Rightarrow> world \<Rightarrow> world checked option" where
  "drop_round e strerror fd w =
     map_option (\<lambda>(m, w1). cbind m (\<lambda>connfd. cbind (checked_call e strerror Close (SysClose connfd) w1) (\<lambda>(_, w2). Ok w2)))
       (Accept e strerror fd w)"

section \<open>The server with select\<close>

record server =
  listenfd :: int
  client :: "int list"
  maxi :: int
  maxfd :: int
  allset :: "int set"
  sv_world :: world

text \<open>\<open>FD_SET\<close> of a descriptor that the set has no bit for writes outside it.\<close>

definition fd_set_add :: "int \<Rightarrow> int set \<Rightarrow> int set res" where
  "fd_set_add fd s = (if 0 \<le> fd \<and> fd < int FD_SETSIZE then Inr (insert fd s) else Inl OutOfBounds)"

definition server_start :: "os \<Rightarrow> (int \<Rightarrow> byte list) \<Rightarrow> byte list option \<Rightarrow> world \<Rightarrow> server checked" where
  "server_start e strerror getenv w =
     cbind (listen_on e strerror getenv w) (\<lambda>(fd, w1).
     cbind (of_res (fd_set_add fd {})) (\<lambda>s.
     Ok \<lparr>listenfd = fd, client = replicate FD_SETSIZE (- 1), maxi = - 1, maxfd = fd, allset = s, sv_world = w1\<rparr>))"

text \<open>The first free entry.\<close>

fun free_client :: "int list \<Rightarrow> nat" where
  "free_client [] = 0"
| "free_client (c # cs) = (if c < 0 then 0 else Suc (free_client cs))"

definition accept_client :: "os \<Rightarrow> (int \<Rightarrow> byte list) \<Rightarrow> server \<Rightarrow> server checked" where
  "accept_client e strerror st =
     (case Accept e strerror (listenfd st) (sv_world st) of
        None \<Rightarrow> Faults Diverges
      | Some (m, w1) \<Rightarrow>
          cbind m (\<lambda>connfd.
          let i = free_client (client st) in
          if i = FD_SETSIZE then err_quit \<lparr>ee_errno = 0, ee_strerror = strerror\<rparr> (bytes_of ''too many clients'')
          else cbind (of_res (fd_set_add connfd (allset st))) (\<lambda>s.
               Ok (st\<lparr>client := (client st)[i := connfd], allset := s, maxfd := max connfd (maxfd st),
                      maxi := max (int i) (maxi st), sv_world := w1\<rparr>))))"

text \<open>A client that is ready, at the entry \<open>i\<close>.\<close>

definition serve_client :: "os \<Rightarrow> (int \<Rightarrow> byte list) \<Rightarrow> nat \<Rightarrow> byte list \<Rightarrow> server \<Rightarrow> (byte list \<times> server) checked" where
  "serve_client e strerror i buf st =
     (let fd = client st ! i; w = sv_world st; c = SysRead fd MAXLINE_BUF in
      cbind (checked_call e strerror Read c w) (\<lambda>(n, w1).
      if n = 0
      then cbind (checked_call e strerror Close (SysClose fd) w1) (\<lambda>(_, w2).
           Ok (buf, st\<lparr>client := (client st)[i := - 1], allset := allset st - {fd}, sv_world := w2\<rparr>))
      else cbind (echo_back e strerror fd buf (data_of e w c) n w1) (\<lambda>(b, w2).
           Ok (b, st\<lparr>sv_world := w2\<rparr>))))"

text \<open>The loop over the entries below \<open>limit\<close>; \<open>nready\<close> counts down the ready descriptors.\<close>

function serve_clients :: "os \<Rightarrow> (int \<Rightarrow> byte list) \<Rightarrow> int set \<Rightarrow> nat \<Rightarrow> nat \<Rightarrow> int \<Rightarrow> byte list \<Rightarrow> server \<Rightarrow>
    (byte list \<times> server) checked" where
  "serve_clients e strerror rset limit i nready buf st =
     (if i < limit
      then cbind (of_res (rd_buf (client st) (int i))) (\<lambda>fd.
           if fd < 0 \<or> fd \<notin> rset then serve_clients e strerror rset limit (i + 1) nready buf st
           else cbind (serve_client e strerror i buf st) (\<lambda>(b, st1).
                if nready - 1 \<le> 0 then Ok (b, st1)
                else serve_clients e strerror rset limit (i + 1) (nready - 1) b st1))
      else Ok (buf, st))"
  by pat_completeness auto
termination
  by (relation "measure (\<lambda>(e, strerror, rset, limit, i, nready, buf, st). limit - i)") auto

declare serve_clients.simps [simp del]

text \<open>One turn of the loop of \<open>main_3\<close>.\<close>

definition select_round :: "os \<Rightarrow> (int \<Rightarrow> byte list) \<Rightarrow> byte list \<Rightarrow> server \<Rightarrow> (byte list \<times> server) checked" where
  "select_round e strerror buf st =
     cbind (checked_call e strerror Select (SysSelect (maxfd st + 1)) (sv_world st)) (\<lambda>(nready, w).
     let rset = {fd \<in> allset st. can_read e w fd}; st1 = st\<lparr>sv_world := w\<rparr> in
     if listenfd st \<in> rset
     then cbind (accept_client e strerror st1) (\<lambda>st2.
          if nready - 1 \<le> 0 then Ok (buf, st2)
          else serve_clients e strerror rset (nat (maxi st2 + 1)) 0 (nready - 1) buf st2)
     else serve_clients e strerror rset (nat (maxi st1 + 1)) 0 nready buf st1)"

end
