(* ===== verification/Tcp_Properties.thy ===== *)
theory Tcp_Properties
  imports Tcp_Server
begin

text \<open>
  What is proved of the error functions, the checked calls and the echo servers: the texts of the
  messages, what is echoed, the invariant of the server with \<open>select\<close>, and where it overruns its buffer.
\<close>

text \<open>The texts of \<open>strerror\<close> have no zero inside.\<close>

definition strerror_ok :: "(int \<Rightarrow> byte list) \<Rightarrow> bool" where
  "strerror_ok strerror \<longleftrightarrow> (\<forall>n. 0 \<notin> set (strerror n))"

text \<open>\<open>accept\<close> gives out a descriptor that is not in use, or -1.\<close>

definition accept_fresh :: "os \<Rightarrow> bool" where
  "accept_fresh e \<longleftrightarrow> (\<forall>w fd. - 1 \<le> answer e w (SysAccept fd) \<and> answer e w (SysAccept fd) \<notin> open_fds w)"

lemma checked_call_eq_Ok:
  "checked_call e strerror wrapper c w = Ok (x, w') \<longleftrightarrow>
     wrapper (env_after e strerror ((c, answer e w c) # w)) (answer e w c) = Ok x \<and> w' = (c, answer e w c) # w"
  by (auto simp: checked_call_def Let_def cbind_eq_Ok)

lemma err_sys_not_Ok [simp]: "err_sys e m \<noteq> Ok x" "err_quit e m \<noteq> Ok x"
  by (simp_all add: err_sys_def err_quit_def split: sum.splits)

lemma test_eq_Ok [simp]:
  "not_negative e m r = Ok x \<longleftrightarrow> 0 \<le> r \<and> x = r" "not_minus_one e m r = Ok x \<longleftrightarrow> r \<noteq> - 1 \<and> x = r"
  "ignored c = Ok u \<longleftrightarrow> (\<exists>y. c = Ok y)"
  by (auto simp: not_negative_def not_minus_one_def ignored_def cbind_eq_Ok)

lemma err_sys_exits:
  assumes "strerror_ok (ee_strerror e)" "0 \<notin> set m" "length m < ERR_BUFFER_SIZE"
  shows "err_sys e m = Exits 1 (err_line e True m)"
  using assms by (simp add: err_sys_def strerror_ok_def err_doit_line)

lemma all_of_it_cases:
  assumes "strerror_ok (ee_strerror e)" "0 \<notin> set (bytes_of m)" "length (bytes_of m) < ERR_BUFFER_SIZE"
  shows "all_of_it e m n r = (if r = int n then Ok () else Exits 1 (err_line e True (bytes_of m)))"
  by (simp add: all_of_it_def err_sys_exits [OF assms])

section \<open>Echoing\<close>

lemma echo_line_result:
  assumes "length buf = MAXLINE_BUF" "0 < n" "n + 2 \<le> int MAXLINE_BUF" "length data = nat n"
  shows "echo_line buf data n = Inr (data @ 0x0A # 0 # drop (nat n + 2) buf, nat (n + 1))"
proof -
  define k where "k = nat n"
  then have n: "n = int k" "length data = k" "k + 2 \<le> length buf" using assms by (simp_all add: nat_le_iff)
  define rest where "rest = drop (k + 2) buf"
  obtain x y where "drop k buf = x # y # rest"
    using that [of "buf ! k" "buf ! Suc k"] n(3) Cons_nth_drop_Suc [of k buf] Cons_nth_drop_Suc [of "Suc k" buf] by (simp add: rest_def)
  then have "wr_bytes buf 0 (take (nat n) data) = Inr (data @ x # y # rest)" using n by (simp add: wr_bytes_ok)
  moreover have "wr_buf (data @ x # y # rest) n 0 = Inr (data @ 0 # y # rest)" using n by (simp add: wr_buf_at)
  moreover have "\<exists>s. mem_str (data @ 0 # y # rest) = Inr s" by (simp add: mem_str_def)
  moreover have "wr_buf (data @ 0 # y # rest) n 0x0A = Inr (data @ 0x0A # y # rest)" using n by (simp add: wr_buf_at)
  moreover have "wr_buf (data @ 0x0A # y # rest) (n + 1) 0 = Inr (data @ 0x0A # 0 # rest)"
    using wr_buf_at [of "n + 1" "data @ [0x0A]" y rest 0] n by simp
  ultimately show ?thesis unfolding echo_line_def rest_def k_def by auto
qed

lemma echo_line_overruns:
  assumes "length buf = MAXLINE_BUF" "int MAXLINE_BUF < n + 2" "n \<le> int MAXLINE_BUF" "length data = nat n"
  shows "echo_line buf data n = Inl OutOfBounds"
proof -
  define k where "k = nat n"
  have 0: "0 \<le> n" using assms(2) by (simp add: MAXLINE_BUF_def)
  then have n: "n = int k" "length data = k" "k \<le> length buf" using assms by (simp_all add: k_def nat_le_iff)
  have w: "wr_bytes buf 0 (take (nat n) data) = Inr (data @ drop k buf)" using n by (simp add: wr_bytes_ok)
  show ?thesis
  proof (cases "n = int MAXLINE_BUF")
    case True
    then have "wr_buf (data @ drop k buf) n 0 = Inl OutOfBounds" using n assms(1) by (simp add: wr_buf_def)
    then show ?thesis using w by (simp add: echo_line_def)
  next
    case False
    then have k: "length buf = Suc k" using assms(1,2,3) n(1) by linarith
    then have x: "drop k buf = [buf ! k]" using Cons_nth_drop_Suc [of k buf] by simp
    let ?x = "buf ! k"
    have "wr_buf (data @ [?x]) n 0 = Inr (data @ [0])" "wr_buf (data @ [0]) n 0x0A = Inr (data @ [0x0A])" using n by (simp_all add: wr_buf_at)
    moreover have "\<exists>s. mem_str (data @ [0]) = Inr s" by (simp add: mem_str_def)
    moreover have "wr_buf (data @ [0x0A]) (n + 1) 0 = Inl OutOfBounds" using n by (simp add: wr_buf_def)
    ultimately show ?thesis using w x unfolding echo_line_def by auto
  qed
qed

text \<open>Either all was sent or the program ended.\<close>

definition sent :: "int \<Rightarrow> byte list \<Rightarrow> world \<Rightarrow> world \<Rightarrow> bool" where
  "sent fd bs w w' \<longleftrightarrow> accepted fd w' = accepted fd w @ bs \<and> (\<forall>f. consumed f w' = consumed f w) \<and> open_fds w' = open_fds w"

lemma echo_back_sends:
  assumes "os_ok e" "interrupted_once e fd" "strerror_ok strerror"
    and "length buf = MAXLINE_BUF" "0 < n" "n + 2 \<le> int MAXLINE_BUF" "length data = nat n"
  shows "(\<exists>b w'. echo_back e strerror fd buf data n w = Ok (b, w') \<and> length b = MAXLINE_BUF \<and> sent fd (data @ [0x0A]) w w')
    \<or> (\<exists>l. echo_back e strerror fd buf data n w = Exits 1 l)"
proof -
  let ?b = "data @ 0x0A # 0 # drop (nat n + 2) buf" and ?n = "nat (n + 1)"
  have b: "take ?n ?b = data @ [0x0A]" "length ?b = MAXLINE_BUF" "?n \<le> length ?b" using assms(4-7) by (auto simp: nat_add_distrib)
  obtain r w' k where w: "sock_writen e fd ?b ?n w = Inr (r, w')" "k \<le> ?n" "accepted fd w' = accepted fd w @ take k ?b"
    "r = (if k = ?n then int ?n else - 1)"
    using sock_writen_writes [OF assms(1,2) b(3), of w] by blast
  have m: "0 \<notin> set (bytes_of ''writen error'')" "length (bytes_of ''writen error'') < ERR_BUFFER_SIZE"
    by (simp_all add: bytes_of_def ERR_BUFFER_SIZE_def)
  have st: "strerror_ok (ee_strerror (env_after e strerror w'))" using assms(3) by (simp add: env_after_def)
  have run: "echo_back e strerror fd buf data n w
      = cbind (all_of_it (env_after e strerror w') ''writen error'' ?n r) (\<lambda>_. Ok (?b, w'))"
    using w(1) by (simp add: echo_back_def echo_line_result [OF assms(4-7)] Writen_def)
  have "sent fd (data @ [0x0A]) w w'" if "k = ?n"
    using w(3) sock_writen_leaves [OF w(1)] that b(1) by (simp add: sent_def)
  then show ?thesis using run w(4) b(2) unfolding all_of_it_cases [OF st m] by (cases "k = ?n") auto
qed

text \<open>The child, from any point of its run.\<close>

lemma child_loop_echoes:
  assumes "os_ok e" "interrupted_once e fd" "strerror_ok strerror" "delivers e fd s"
    and short: "\<And>w. answer e w (SysRead fd MAXLINE_BUF) + 2 \<le> int MAXLINE_BUF"
  shows "length buf = MAXLINE_BUF \<Longrightarrow>
    (\<exists>w' pieces. child_loop e strerror fd buf w = Some (Ok w') \<and> concat pieces = drop (consumed fd w) s \<and> [] \<notin> set pieces
       \<and> accepted fd w' = accepted fd w @ concat (map (\<lambda>p. p @ [0x0A]) pieces))
    \<or> (\<exists>l. child_loop e strerror fd buf w = Some (Exits 1 l))"
proof (induction "2 * length (drop (consumed fd w) s) + (if just_failed w then 0 else 1)" arbitrary: buf w rule: less_induct)
  case less
  let ?c = "SysRead fd MAXLINE_BUF" and ?rest = "drop (consumed fd w) s"
  let ?r = "answer e w ?c"
  let ?w = "(?c, ?r) # w"
  have d: "(?r < 0 \<and> errno_of e w ?c = EINTR \<and> \<not> just_failed w) \<or>
      (0 \<le> ?r \<and> nat ?r \<le> length ?rest \<and> (?r = 0 \<longrightarrow> ?rest = []) \<and> data_of e w ?c = take (nat ?r) ?rest)"
    using assms(4) MAXLINE_pos unfolding delivers_def Let_def by (metis less_numeral_extra(3))
  consider "?r < 0" | "?r = 0" | "0 < ?r" by linarith
  then show ?case
  proof cases
    case 1
    then have "child_loop e strerror fd buf w = child_loop e strerror fd buf ?w"
      using d by (subst child_loop.simps) (simp add: Let_def errno_def)
    then show ?thesis using less(1) [of ?w buf] less(2) 1 d by auto
  next
    case 2
    then have "child_loop e strerror fd buf w = Some (Ok ?w)" by (subst child_loop.simps) (simp add: Let_def)
    then show ?thesis using 2 d by (intro disjI1 exI [of _ ?w] exI [of _ "[]"]) simp
  next
    case 3
    let ?data = "take (nat ?r) ?rest"
    have len: "length ?data = nat ?r" and data: "data_of e w ?c = ?data" using d 3 by auto
    from echo_back_sends [OF assms(1,2,3) less(2) 3 short len, of ?w] show ?thesis
    proof (elim disjE exE conjE)
      fix l assume "echo_back e strerror fd buf ?data ?r ?w = Exits 1 l"
      then have "child_loop e strerror fd buf w = Some (Exits 1 l)" using 3 data by (subst child_loop.simps) (simp add: Let_def)
      then show ?thesis by blast
    next
      fix b w2 assume b: "echo_back e strerror fd buf ?data ?r ?w = Ok (b, w2)" "length b = MAXLINE_BUF" "sent fd (?data @ [0x0A]) ?w w2"
      have step: "child_loop e strerror fd buf w = child_loop e strerror fd b w2" using 3 data b(1) by (subst child_loop.simps) (simp add: Let_def)
      have w2: "accepted fd w2 = accepted fd w @ ?data @ [0x0A]" "drop (consumed fd w2) s = drop (nat ?r) ?rest"
        using b(3) by (simp_all add: sent_def add.commute)
      have "length (drop (consumed fd w2) s) < length ?rest" using w2(2) d 3 by auto
      then have "2 * length (drop (consumed fd w2) s) + (if just_failed w2 then 0 else 1) < 2 * length ?rest + (if just_failed w then 0 else 1)" by auto
      from less(1) [OF this b(2)] show ?thesis
      proof (elim disjE exE conjE)
        fix w' pieces
        assume i: "child_loop e strerror fd b w2 = Some (Ok w')" "concat pieces = drop (consumed fd w2) s" "[] \<notin> set pieces"
          "accepted fd w' = accepted fd w2 @ concat (map (\<lambda>p. p @ [0x0A]) pieces)"
        define p where "p = ?data"
        have p: "p \<noteq> []" "p @ drop (consumed fd w2) s = ?rest" using len 3 append_take_drop_id [of "nat ?r" ?rest] unfolding w2(2) p_def by auto
        have "accepted fd w' = accepted fd w @ concat (map (\<lambda>p. p @ [0x0A]) (p # pieces))" using i(4) w2(1) unfolding p_def by simp
        moreover have "concat (p # pieces) = ?rest" "[] \<notin> set (p # pieces)" using i(2,3) p by simp_all
        ultimately show ?thesis using i(1) step by metis
      qed (use step in simp)
    qed
  qed
qed

section \<open>The invariant of the server\<close>

definition clients :: "server \<Rightarrow> int set" where
  "clients st = set (filter (\<lambda>c. 0 \<le> c) (client st))"

definition server_ok :: "server \<Rightarrow> bool" where
  "server_ok st \<longleftrightarrow>
     length (client st) = FD_SETSIZE \<and> distinct (filter (\<lambda>c. 0 \<le> c) (client st)) \<and>
     0 \<le> listenfd st \<and> listenfd st \<notin> clients st \<and>
     allset st = insert (listenfd st) (clients st) \<and> open_fds (sv_world st) = allset st \<and>
     (\<forall>fd\<in>allset st. fd \<le> maxfd st \<and> fd < int FD_SETSIZE) \<and>
     - 1 \<le> maxi st \<and> maxi st < int FD_SETSIZE \<and> (\<forall>i<FD_SETSIZE. maxi st < int i \<longrightarrow> client st ! i < 0)"

lemma free_client_bound: "free_client cs \<le> length cs" "free_client cs < length cs \<Longrightarrow> cs ! free_client cs < 0"
  by (induction cs) auto

lemma filter_update:
  "i < length xs \<Longrightarrow> filter P (xs[i := x]) = filter P (take i xs) @ (if P x then [x] else []) @ filter P (drop (Suc i) xs)"
  by (simp add: upd_conv_take_nth_drop)

lemma filter_split:
  "i < length xs \<Longrightarrow> filter P xs = filter P (take i xs) @ (if P (xs ! i) then [xs ! i] else []) @ filter P (drop (Suc i) xs)"
  using filter_update [of i xs P "xs ! i"] by simp

lemma entry_added:
  assumes "i < length xs" "\<not> P (xs ! i)" "P x"
  shows "set (filter P (xs[i := x])) = insert x (set (filter P xs))"
    and "distinct (filter P (xs[i := x])) \<longleftrightarrow> distinct (filter P xs) \<and> x \<notin> set (filter P xs)"
  using assms by (simp_all only: filter_update filter_split [of i xs P]) auto

lemma entry_dropped:
  assumes "i < length xs" "P (xs ! i)" "\<not> P x" "distinct (filter P xs)"
  shows "set (filter P (xs[i := x])) = set (filter P xs) - {xs ! i}" and "distinct (filter P (xs[i := x]))"
  using assms by (simp_all only: filter_update filter_split [of i xs P]) auto

lemma server_ok_world:
  "open_fds w = open_fds (sv_world st) \<Longrightarrow> server_ok (st\<lparr>sv_world := w\<rparr>) = server_ok st"
  by (simp add: server_ok_def clients_def)

lemma accept_freshD: "accept_fresh e \<Longrightarrow> answer e w (SysAccept fd) \<notin> open_fds w"
  by (simp add: accept_fresh_def)

lemma Accept_result:
  "Accept e strerror fd w = Some r \<Longrightarrow> accept_fresh e \<longrightarrow>
     (\<forall>n. fst r = Ok n \<longrightarrow> 0 \<le> n \<and> n \<notin> open_fds w \<and> open_fds (snd r) = insert n (open_fds w))"
  by (rule Accept.raw_induct [of "\<lambda>e strerror fd w r. accept_fresh e \<longrightarrow>
      (\<forall>n. fst r = Ok n \<longrightarrow> 0 \<le> n \<and> n \<notin> open_fds w \<and> open_fds (snd r) = insert n (open_fds w))"])
    (fastforce simp: Let_def accept_freshD split: if_splits)

lemma Accept_opens:
  assumes "Accept e strerror fd w = Some (Ok n, w1)" "accept_fresh e"
  shows "0 \<le> n \<and> n \<notin> open_fds w \<and> open_fds w1 = insert n (open_fds w)"
  using Accept_result [OF assms(1)] assms(2) by simp

lemma accept_client_ok:
  assumes "accept_client e strerror st = Ok st'" "server_ok st" "accept_fresh e"
  shows "server_ok st'"
proof -
  let ?i = "free_client (client st)"
  obtain connfd w1 where acc: "Accept e strerror (listenfd st) (sv_world st) = Some (Ok connfd, w1)" and i: "?i \<noteq> FD_SETSIZE"
    and fit: "0 \<le> connfd" "connfd < int FD_SETSIZE"
    and st': "st' = st\<lparr>client := (client st)[?i := connfd], allset := insert connfd (allset st), maxfd := max connfd (maxfd st),
      maxi := max (int ?i) (maxi st), sv_world := w1\<rparr>"
    using assms(1) unfolding accept_client_def fd_set_add_def Let_def
    by (cases "free_client (client st) = FD_SETSIZE") (auto simp: cbind_eq_Ok of_res_eq_Ok split: option.splits if_splits)
  have len: "length (client st) = FD_SETSIZE" using assms(2) by (simp add: server_ok_def)
  then have i': "?i < length (client st)" using free_client_bound(1) [of "client st"] i by simp
  have old: "\<not> 0 \<le> client st ! ?i" using free_client_bound(2) [OF i'] by simp
  note new = Accept_opens [OF acc assms(3)]
  note added = entry_added [of ?i "client st" "\<lambda>c. 0 \<le> c" connfd, OF i' old fit(1)]
  have "clients st' = insert connfd (clients st)" "distinct (filter (\<lambda>c. 0 \<le> c) (client st'))"
    using added new assms(2) by (auto simp: clients_def st' server_ok_def)
  moreover have "client st' ! j < 0" if "j < FD_SETSIZE" "maxi st' < int j" for j
    using that assms(2) by (simp add: st' server_ok_def)
  moreover have "connfd \<noteq> listenfd st" using new assms(2) by (auto simp: server_ok_def)
  moreover have "\<forall>fd\<in>allset st'. fd \<le> maxfd st' \<and> fd < int FD_SETSIZE" using assms(2) fit by (auto simp: st' server_ok_def le_max_iff_disj)
  moreover have "- 1 \<le> maxi st'" "maxi st' < int FD_SETSIZE" using assms(2) i' len by (simp_all add: st' server_ok_def)
  moreover have "open_fds (sv_world st') = allset st'" "allset st' = insert (listenfd st') (insert connfd (clients st))"
    using assms(2) new by (auto simp: st' server_ok_def)
  ultimately show ?thesis using assms(2) by (simp add: server_ok_def st')
qed

lemma echo_back_leaves:
  "echo_back e strerror fd buf data n w = Ok (b, w') \<Longrightarrow> open_fds w' = open_fds w"
  using sock_writen_leaves by (fastforce simp: echo_back_def cbind_eq_Ok of_res_eq_Ok Writen_def rmap_eq_Inr)

lemma serve_client_ok:
  assumes "serve_client e strerror i buf st = Ok (b, st')" "server_ok st" "i < FD_SETSIZE" "0 \<le> client st ! i"
  shows "server_ok st'"
proof -
  let ?fd = "client st ! i"
  let ?c = "SysRead ?fd MAXLINE_BUF"
  let ?w = "(?c, answer e (sv_world st) ?c) # sv_world st"
  consider w2 where "st' = st\<lparr>sv_world := w2\<rparr>" "open_fds w2 = open_fds (sv_world st)"
    | r where "st' = st\<lparr>client := (client st)[i := - 1], allset := allset st - {?fd}, sv_world := (SysClose ?fd, r) # ?w\<rparr>"
    using assms(1) echo_back_leaves
    by (fastforce simp: serve_client_def Let_def cbind_eq_Ok checked_call_eq_Ok Read_def split: if_splits)
  then show ?thesis
  proof cases
    case 1
    then show ?thesis using assms(2) by (simp add: server_ok_world)
  next
    case 2
    have i: "i < length (client st)" using assms(2,3) by (simp add: server_ok_def)
    have "distinct (filter (\<lambda>c. 0 \<le> c) (client st))" using assms(2) by (simp add: server_ok_def)
    note gone = entry_dropped [of i "client st" "\<lambda>c. 0 \<le> c" "- 1", OF i assms(4) _ this]
    have c: "clients st' = clients st - {?fd}" "distinct (filter (\<lambda>c. 0 \<le> c) (client st'))"
      using gone by (simp_all add: clients_def 2)
    have "?fd \<in> clients st" using i assms(4) by (simp add: clients_def)
    then have ne: "?fd \<noteq> listenfd st" using assms(2) by (auto simp: server_ok_def)
    have "client st' ! j < 0" if "j < FD_SETSIZE" "maxi st < int j" for j
      using that assms(2) i by (cases "j = i") (simp_all add: 2 server_ok_def)
    then show ?thesis using assms(2) c ne by (auto simp: server_ok_def 2)
  qed
qed

lemma serve_clients_ok:
  "serve_clients e strerror rset limit i nready buf st = Ok (b, st') \<Longrightarrow> server_ok st \<Longrightarrow> limit \<le> FD_SETSIZE \<Longrightarrow> server_ok st'"
proof (induction e strerror rset limit i nready buf st rule: serve_clients.induct)
  case (1 e strerror rset limit i nready buf st)
  show ?case
  proof (cases "i < limit")
    case True
    let ?fd = "client st ! i"
    have i: "i < FD_SETSIZE" using True "1.prems"(3) by simp
    then have rd: "rd_buf (client st) (int i) = Inr ?fd" using "1.prems"(2) by (simp add: rd_buf_def server_ok_def)
    note run = "1.prems"(1) [unfolded serve_clients.simps [of e strerror rset limit i nready buf st] rd of_res_simps cbind_simps if_P [OF True]]
    show ?thesis
    proof (cases "?fd < 0 \<or> ?fd \<notin> rset")
      case True
      have "serve_clients e strerror rset limit (i + 1) nready buf st = Ok (b, st')" using run by (simp only: if_P [OF True])
      then show ?thesis using "1.IH"(1) [OF \<open>i < limit\<close> True] "1.prems"(2,3) by blast
    next
      case False
      then obtain b1 st1 where c: "serve_client e strerror i buf st = Ok (b1, st1)"
        and next_one: "(if nready - 1 \<le> 0 then Ok (b1, st1) else serve_clients e strerror rset limit (i + 1) (nready - 1) b1 st1) = Ok (b, st')"
        using run by (auto simp: cbind_eq_Ok)
      have ok: "server_ok st1" using serve_client_ok [OF c "1.prems"(2) i] False by simp
      show ?thesis
      proof (cases "nready - 1 \<le> 0")
        case False2: False
        then show ?thesis using next_one "1.IH"(2) [OF \<open>i < limit\<close> False, of b1 st1] ok "1.prems"(3) by simp
      qed (use next_one ok in simp)
    qed
  qed (use 1 in \<open>simp add: serve_clients.simps\<close>)
qed

lemma server_ok_limit: "server_ok st \<Longrightarrow> nat (maxi st + 1) \<le> FD_SETSIZE"
  unfolding server_ok_def by linarith

lemma select_round_ok:
  assumes "select_round e strerror buf st = Ok (b, st')" "server_ok st" "accept_fresh e"
  shows "server_ok st'"
proof -
  let ?st = "st\<lparr>sv_world := (SysSelect (maxfd st + 1), answer e (sv_world st) (SysSelect (maxfd st + 1))) # sv_world st\<rparr>"
  have ok: "server_ok ?st" using assms(2) by (simp add: server_ok_world)
  have all: "server_ok st2" if "accept_client e strerror ?st = Ok st2" for st2 by (rule accept_client_ok [OF that ok assms(3)])
  from assms(1) show ?thesis
    using serve_clients_ok ok server_ok_limit [OF ok] all server_ok_limit [OF all]
    by (fastforce simp: select_round_def Let_def cbind_eq_Ok checked_call_eq_Ok split: if_splits)
qed

lemma listen_on_opens:
  assumes "listen_on e strerror getenv w = Ok (fd, w')"
  shows "0 \<le> fd" "open_fds w' = insert fd (open_fds w)"
  using assms by (auto simp: listen_on_def Listen_def cbind_eq_Ok checked_call_eq_Ok Socket_def)

lemma server_start_ok:
  assumes "server_start e strerror getenv w = Ok st" "open_fds w = {}"
  shows "server_ok st"
  using assms listen_on_opens
  by (fastforce simp: server_start_def cbind_eq_Ok of_res_eq_Ok fd_set_add_def server_ok_def clients_def split: if_splits)

text \<open>The states of the server between two rounds.\<close>

inductive serving :: "os \<Rightarrow> (int \<Rightarrow> byte list) \<Rightarrow> byte list option \<Rightarrow> byte list \<Rightarrow> byte list \<Rightarrow> server \<Rightarrow> bool"
  for e strerror getenv junk where
    start: "server_start e strerror getenv [] = Ok st \<Longrightarrow> serving e strerror getenv junk junk st"
  | round: "serving e strerror getenv junk buf st \<Longrightarrow> select_round e strerror buf st = Ok (buf', st') \<Longrightarrow>
      serving e strerror getenv junk buf' st'"

inductive_cases serving_stepE: "serving e strerror getenv junk buf st"

lemma serving_ok: "serving e strerror getenv junk buf st \<Longrightarrow> accept_fresh e \<Longrightarrow> server_ok st"
  by (induction rule: serving.induct) (auto intro: server_start_ok select_round_ok)

lemma fork_round_parent:
  assumes "fork_round e strerror fd ip_ok buf w = Some (Ok w')" "accept_fresh e"
  shows "open_fds w' = open_fds w"
proof -
  obtain m w1 where acc: "Accept e strerror fd w = Some (m, w1)" using assms(1) by (auto simp: fork_round_def split: option.splits)
  then obtain connfd where m: "m = Ok connfd" using assms(1) by (cases m) (auto simp: fork_round_def)
  from Accept_opens [OF acc [unfolded m] assms(2)] show ?thesis using assms(1) acc m
    by (auto simp: fork_round_def checked_call_eq_Ok cbind_eq_Ok split: checked.splits if_splits option.splits)
qed

lemma drop_round_ok:
  assumes "drop_round e strerror fd w = Some (Ok w')" "accept_fresh e"
  shows "open_fds w' = open_fds w"
  using assms Accept_opens by (fastforce simp: drop_round_def cbind_eq_Ok checked_call_eq_Ok)

section \<open>Rounds without faults\<close>

text \<open>A call that ends well: it returns a value with the property, or ends the program with a message.\<close>

definition runs :: "'a checked \<Rightarrow> ('a \<Rightarrow> bool) \<Rightarrow> bool" where
  "runs m P \<longleftrightarrow> (case m of Ok x \<Rightarrow> P x | Exits k l \<Rightarrow> True | Aborts l \<Rightarrow> False | Faults f \<Rightarrow> False)"

lemma runs_simps [simp]: "runs (Ok x) P = P x" "runs (Exits k l) P" "\<not> runs (Aborts l) P" "\<not> runs (Faults f) P"
  by (simp_all add: runs_def)

lemma runs_cbind: "runs m Q \<Longrightarrow> (\<And>x. m = Ok x \<Longrightarrow> Q x \<Longrightarrow> runs (f x) P) \<Longrightarrow> runs (cbind m f) P"
  by (cases m) auto

lemma runs_mono: "runs m Q \<Longrightarrow> (\<And>x. Q x \<Longrightarrow> P x) \<Longrightarrow> runs m P"
  by (cases m) auto

lemma runs_err: "strerror_ok (ee_strerror v) \<Longrightarrow> 0 \<notin> set m \<Longrightarrow> length m < ERR_BUFFER_SIZE \<Longrightarrow> runs (err_sys v m) P \<and> runs (err_quit v m) P"
  by (simp add: err_sys_exits err_quit_def err_doit_line strerror_ok_def)

lemma runs_tests:
  assumes "strerror_ok (ee_strerror v)" "0 \<notin> set (bytes_of m)" "length (bytes_of m) < ERR_BUFFER_SIZE"
  shows "runs (not_negative v m r) (\<lambda>x. x = r \<and> 0 \<le> r)" "runs (not_minus_one v m r) (\<lambda>x. x = r \<and> r \<noteq> - 1)"
    and "runs (ignored (not_negative v m r)) (\<lambda>_. 0 \<le> r)" "runs (ignored (not_minus_one v m r)) (\<lambda>_. r \<noteq> - 1)"
  by (auto simp: not_negative_def not_minus_one_def ignored_def runs_err [OF assms] intro!: runs_cbind [of _ "\<lambda>_. False"])

lemma runs_calls:
  assumes "strerror_ok (ee_strerror v)"
  shows "runs (Read v r) (\<lambda>x. x = r \<and> r \<noteq> - 1)" "runs (Select v r) (\<lambda>x. x = r \<and> 0 \<le> r)" "runs (Close v r) (\<lambda>_. r \<noteq> - 1)"
  unfolding Read_def Select_def Close_def by (rule runs_tests [OF assms]; simp add: bytes_of_def ERR_BUFFER_SIZE_def)+

lemma runs_checked_call:
  assumes "strerror_ok strerror" "\<And>v r. strerror_ok (ee_strerror v) \<Longrightarrow> runs (wrapper v r) (P r)"
  shows "runs (checked_call e strerror wrapper c w) (\<lambda>(x, w1). P (answer e w c) x \<and> w1 = (c, answer e w c) # w)"
  unfolding checked_call_def Let_def by (rule runs_cbind [OF assms(2)]) (simp_all add: env_after_def assms(1))

text \<open>The kernel answers as documented and delivers short pieces; messages have no zero inside.\<close>

definition io_ok :: "os \<Rightarrow> (int \<Rightarrow> byte list) \<Rightarrow> bool" where
  "io_ok e strerror \<longleftrightarrow> os_ok e \<and> (\<forall>fd. interrupted_once e fd) \<and> strerror_ok strerror \<and>
     (\<forall>w fd. answer e w (SysRead fd MAXLINE_BUF) + 2 \<le> int MAXLINE_BUF)"

lemma serve_client_runs:
  assumes "io_ok e strerror" "length buf = MAXLINE_BUF"
  shows "runs (serve_client e strerror i buf st) (\<lambda>(b, st'). length b = MAXLINE_BUF)"
proof -
  have st: "strerror_ok strerror" using assms(1) by (simp add: io_ok_def)
  let ?fd = "client st ! i"
  let ?c = "SysRead ?fd MAXLINE_BUF"
  have close: "runs (checked_call e strerror Close (SysClose ?fd) w1) (\<lambda>_. True)" for w1
    by (rule runs_mono [OF runs_checked_call [OF st runs_calls(3)]]) simp_all
  show ?thesis
    unfolding serve_client_def Let_def
  proof (rule runs_cbind [OF runs_checked_call [OF st runs_calls(1)]])
    fix x assume "case x of (n, w1) \<Rightarrow> (n = answer e (sv_world st) ?c \<and> answer e (sv_world st) ?c \<noteq> - 1) \<and> w1 = (?c, answer e (sv_world st) ?c) # sv_world st"
    then obtain n w1 where x: "x = (n, w1)" "n = answer e (sv_world st) ?c" "n \<noteq> - 1" by (cases x) simp
    show "runs (case x of (n, w1) \<Rightarrow>
        if n = 0 then cbind (checked_call e strerror Close (SysClose ?fd) w1) (\<lambda>(_, w2).
          Ok (buf, st\<lparr>client := (client st)[i := - 1], allset := allset st - {?fd}, sv_world := w2\<rparr>))
        else cbind (echo_back e strerror ?fd buf (data_of e (sv_world st) ?c) n w1) (\<lambda>(b, w2). Ok (b, st\<lparr>sv_world := w2\<rparr>)))
        (\<lambda>(b, st'). length b = MAXLINE_BUF)"
    proof (cases "n = 0")
      case True
      then show ?thesis using x assms(2) by (auto intro!: runs_cbind [OF close])
    next
      case False
      have n: "0 < n" "n + 2 \<le> int MAXLINE_BUF" "length (data_of e (sv_world st) ?c) = nat n"
        using x False assms(1) unfolding io_ok_def os_ok_def by (smt (verit))+
      have "os_ok e" "interrupted_once e ?fd" using assms(1) by (simp_all add: io_ok_def)
      from echo_back_sends [OF this st assms(2) n, of w1] show ?thesis using x False by auto
    qed
  qed
qed

lemma Accept_runs:
  "Accept e strerror fd w = Some r \<Longrightarrow> strerror_ok strerror \<longrightarrow> (\<forall>w fd. answer e w (SysAccept fd) < k) \<longrightarrow>
     runs (fst r) (\<lambda>n. 0 \<le> n \<and> n < k)"
proof (rule Accept.raw_induct [of "\<lambda>e strerror fd w r. strerror_ok strerror \<longrightarrow> (\<forall>w fd. answer e w (SysAccept fd) < k) \<longrightarrow>
      runs (fst r) (\<lambda>n. 0 \<le> n \<and> n < k)"])
  fix rec :: "os \<Rightarrow> (int \<Rightarrow> byte list) \<Rightarrow> int \<Rightarrow> world \<Rightarrow> (int checked \<times> world) option"
  fix e :: os and strerror :: "int \<Rightarrow> byte list" and fd w r
  assume ih: "\<And>e strerror fd w r. rec e strerror fd w = Some r \<Longrightarrow> strerror_ok strerror \<longrightarrow> (\<forall>w fd. answer e w (SysAccept fd) < k) \<longrightarrow>
      runs (fst r) (\<lambda>n. 0 \<le> n \<and> n < k)"
    and step: "(let c = SysAccept fd; n = answer e w c; w1 = (c, n) # w in
      if n < 0
      then if errno e c w = EPROTO \<or> errno e c w = ECONNABORTED then rec e strerror fd w1
           else Some (err_sys (env_after e strerror w1) (bytes_of ''accept error''), w1)
      else Some (Ok n, w1)) = Some r"
  have msg: "runs (err_sys (env_after e strerror w1) (bytes_of ''accept error'')) P" if "strerror_ok strerror" for w1 and P :: "int \<Rightarrow> bool"
    using runs_err [of "env_after e strerror w1" "bytes_of ''accept error''" P] that
    by (simp add: bytes_of_def ERR_BUFFER_SIZE_def env_after_def)
  let ?c = "SysAccept fd"
  let ?w = "(?c, answer e w ?c) # w"
  show "strerror_ok strerror \<longrightarrow> (\<forall>w fd. answer e w (SysAccept fd) < k) \<longrightarrow> runs (fst r) (\<lambda>n. 0 \<le> n \<and> n < k)"
  proof (intro impI)
    assume st: "strerror_ok strerror" and k: "\<forall>w fd. answer e w (SysAccept fd) < k"
    show "runs (fst r) (\<lambda>n. 0 \<le> n \<and> n < k)"
    proof (cases "answer e w ?c < 0")
      case neg: True
      show ?thesis
      proof (cases "errno e ?c w = EPROTO \<or> errno e ?c w = ECONNABORTED")
        case True
        have "rec e strerror fd ?w = Some r" using step unfolding Let_def if_P [OF neg] if_P [OF True] .
        then show ?thesis using ih st k by blast
      next
        case False
        have "Some (err_sys (env_after e strerror ?w) (bytes_of ''accept error''), ?w) = Some r"
          using step unfolding Let_def if_P [OF neg] if_not_P [OF False] .
        then have "fst r = err_sys (env_after e strerror ?w) (bytes_of ''accept error'')" unfolding option.inject by (rule subst) (rule fst_conv)
        then show ?thesis using msg [OF st] by (rule ssubst)
      qed
    next
      case False
      have "Some (Ok (answer e w ?c), ?w) = Some r" using step unfolding Let_def if_not_P [OF False] .
      then have "fst r = Ok (answer e w ?c)" unfolding option.inject by (rule subst) (rule fst_conv)
      then show ?thesis using False k by simp
    qed
  qed
qed

lemma accept_client_runs:
  assumes "strerror_ok strerror" "\<forall>w fd. answer e w (SysAccept fd) < int FD_SETSIZE"
    and "Accept e strerror (listenfd st) (sv_world st) \<noteq> None"
  shows "runs (accept_client e strerror st) (\<lambda>_. True)"
proof -
  obtain m w1 where acc: "Accept e strerror (listenfd st) (sv_world st) = Some (m, w1)" using assms(3) by auto
  have "runs m (\<lambda>n. 0 \<le> n \<and> n < int FD_SETSIZE)" using Accept_runs [OF acc] assms(1,2) by simp
  moreover have "runs (err_quit \<lparr>ee_errno = 0, ee_strerror = strerror\<rparr> (bytes_of ''too many clients'')) P" for P :: "server \<Rightarrow> bool"
    using runs_err [of "\<lparr>ee_errno = 0, ee_strerror = strerror\<rparr>" "bytes_of ''too many clients''" P] assms(1)
    by (simp add: bytes_of_def ERR_BUFFER_SIZE_def)
  ultimately show ?thesis unfolding accept_client_def acc option.case prod.case
    by (elim runs_cbind) (simp add: Let_def fd_set_add_def)
qed

lemma serve_clients_runs:
  "io_ok e strerror \<Longrightarrow> server_ok st \<Longrightarrow> length buf = MAXLINE_BUF \<Longrightarrow> limit \<le> FD_SETSIZE \<Longrightarrow>
   runs (serve_clients e strerror rset limit i nready buf st) (\<lambda>(b, st'). length b = MAXLINE_BUF)"
proof (induction e strerror rset limit i nready buf st rule: serve_clients.induct)
  case (1 e strerror rset limit i nready buf st)
  show ?case
  proof (cases "i < limit")
    case True
    let ?fd = "client st ! i"
    have i: "i < FD_SETSIZE" using True "1.prems"(4) by simp
    then have rd: "rd_buf (client st) (int i) = Inr ?fd" using "1.prems"(2) by (simp add: rd_buf_def server_ok_def)
    note step = serve_clients.simps [of e strerror rset limit i nready buf st] rd of_res_simps cbind_simps if_P [OF True]
    show ?thesis
    proof (cases "?fd < 0 \<or> ?fd \<notin> rset")
      case True
      then show ?thesis unfolding step using "1.IH"(1) [OF \<open>i < limit\<close> True] "1.prems" by simp
    next
      case False
      have "runs (if nready - 1 \<le> 0 then Ok (b, st1) else serve_clients e strerror rset limit (i + 1) (nready - 1) b st1) (\<lambda>(b, st'). length b = MAXLINE_BUF)"
        if "serve_client e strerror i buf st = Ok (b, st1)" "length b = MAXLINE_BUF" for b st1
        using "1.IH"(2) [OF \<open>i < limit\<close> False, of st1 b] serve_client_ok [OF that(1) "1.prems"(2) i] False that(2) "1.prems"(1,4) by simp
      then show ?thesis unfolding step if_not_P [OF False]
        by (intro runs_cbind [OF serve_client_runs [OF "1.prems"(1,3)]]) auto
    qed
  qed (use 1 in \<open>simp add: serve_clients.simps\<close>)
qed

lemma select_round_runs:
  assumes "io_ok e strerror" "accept_fresh e" "\<forall>w fd. answer e w (SysAccept fd) < int FD_SETSIZE" "\<forall>fd w. Accept e strerror fd w \<noteq> None"
    and "server_ok st" "length buf = MAXLINE_BUF"
  shows "runs (select_round e strerror buf st) (\<lambda>(b, st'). length b = MAXLINE_BUF)"
proof -
  have st: "strerror_ok strerror" using assms(1) by (simp add: io_ok_def)
  show ?thesis
    unfolding select_round_def
  proof (rule runs_cbind [OF runs_checked_call [OF st runs_calls(2)]])
    fix x
    assume "case x of (n, w1) \<Rightarrow> (n = answer e (sv_world st) (SysSelect (maxfd st + 1)) \<and> 0 \<le> answer e (sv_world st) (SysSelect (maxfd st + 1)))
      \<and> w1 = (SysSelect (maxfd st + 1), answer e (sv_world st) (SysSelect (maxfd st + 1))) # sv_world st"
    then have x: "x = (answer e (sv_world st) (SysSelect (maxfd st + 1)),
        (SysSelect (maxfd st + 1), answer e (sv_world st) (SysSelect (maxfd st + 1))) # sv_world st)" by (cases x) simp
    let ?c = "SysSelect (maxfd st + 1)"
    let ?n = "answer e (sv_world st) ?c"
    let ?w = "(?c, ?n) # sv_world st"
    let ?st = "st\<lparr>sv_world := ?w\<rparr>" and ?rset = "{fd \<in> allset st. can_read e ?w fd}"
    have ok: "server_ok ?st" using assms(5) by (simp add: server_ok_world)
    have quiet: "runs (serve_clients e strerror ?rset (nat (maxi st + 1)) 0 ?n buf ?st) (\<lambda>(b, st'). length b = MAXLINE_BUF)"
      using serve_clients_runs [OF assms(1) ok assms(6) server_ok_limit [OF assms(5)]] .
    have rest: "runs (if ?n - 1 \<le> 0 then Ok (buf, st2) else serve_clients e strerror ?rset (nat (maxi st2 + 1)) 0 (?n - 1) buf st2)
        (\<lambda>(b, st'). length b = MAXLINE_BUF)" if "accept_client e strerror ?st = Ok st2" for st2
      using serve_clients_runs [OF assms(1) accept_client_ok [OF that ok assms(2)] assms(6) server_ok_limit [OF accept_client_ok [OF that ok assms(2)]]] assms(6) by simp
    have "runs (accept_client e strerror ?st) (\<lambda>_. True)" using accept_client_runs [OF st assms(3)] assms(4) by simp
    from runs_cbind [OF this rest] quiet show "runs (case x of (nready, w) \<Rightarrow>
        let rset = {fd \<in> allset st. can_read e w fd}; st1 = st\<lparr>sv_world := w\<rparr>
        in if listenfd st \<in> rset
           then cbind (accept_client e strerror st1) (\<lambda>st2. if nready - 1 \<le> 0 then Ok (buf, st2)
             else serve_clients e strerror rset (nat (maxi st2 + 1)) 0 (nready - 1) buf st2)
           else serve_clients e strerror rset (nat (maxi st1 + 1)) 0 nready buf st1) (\<lambda>(b, st'). length b = MAXLINE_BUF)"
      by (simp add: x Let_def)
  qed
qed

lemma serving_buffer:
  assumes "serving e strerror getenv junk buf st" "length junk = MAXLINE_BUF" "io_ok e strerror" "accept_fresh e"
    and "\<forall>w fd. answer e w (SysAccept fd) < int FD_SETSIZE" "\<forall>fd w. Accept e strerror fd w \<noteq> None"
  shows "length buf = MAXLINE_BUF"
  using assms(1)
proof (induction rule: serving.induct)
  case (round buf st buf' st')
  show ?case using select_round_runs [OF assms(3-6) serving_ok [OF round.hyps(1) assms(4)] round.IH] round.hyps(2) by simp
qed (rule assms(2))

section \<open>The properties\<close>

text \<open>C36: In every state that the server with \<open>select\<close> reaches, whatever the system answers, the set of
  descriptors that it waits for is exactly the set of descriptors that it has open: the listening one and those of
  the clients, each of which has one entry of the table.  None is forgotten and none is closed twice; \<open>maxfd\<close> and
  \<open>maxi\<close> are high enough for the call and for the loop, and no descriptor is outside \<open>fd_set\<close>.\<close>

theorem select_server_invariant:
  assumes "serving e strerror getenv junk buf st" "accept_fresh e"
  shows "open_fds (sv_world st) = allset st \<and> allset st = insert (listenfd st) (clients st) \<and> listenfd st \<notin> clients st \<and>
    distinct (filter (\<lambda>c. 0 \<le> c) (client st)) \<and> length (client st) = FD_SETSIZE \<and>
    (\<forall>fd\<in>allset st. 0 \<le> fd \<and> fd < int FD_SETSIZE \<and> fd \<le> maxfd st) \<and>
    (\<forall>i<FD_SETSIZE. 0 \<le> client st ! i \<longrightarrow> int i \<le> maxi st)"
  using serving_ok [OF assms] unfolding server_ok_def clients_def by fastforce

text \<open>C37: As long as no read brings more than \<open>MAXLINE - 2\<close> bytes and \<open>accept\<close> gives out descriptors below
  \<open>FD_SETSIZE\<close>, every round of the server with \<open>select\<close> ends: with the next state, or with the end of the
  program and a message.  It never writes outside an array, whichever descriptors are ready and however the calls fail.\<close>

theorem select_server_safe:
  assumes "serving e strerror getenv junk buf st" "length junk = MAXLINE_BUF" "io_ok e strerror" "accept_fresh e"
    and "\<forall>w fd. answer e w (SysAccept fd) < int FD_SETSIZE" "\<forall>fd w. Accept e strerror fd w \<noteq> None"
  shows "(\<exists>b st'. select_round e strerror buf st = Ok (b, st')) \<or> (\<exists>k l. select_round e strerror buf st = Exits k l)"
  using select_round_runs [OF assms(3-6) serving_ok [OF assms(1,4)] serving_buffer [OF assms]]
  by (cases "select_round e strerror buf st") auto


text \<open>A piece of \<open>MAXLINE - 1\<close> bytes or more is more than the buffer holds with the newline and the zero:
  the server with \<open>select\<close> writes behind its array.\<close>

theorem select_server_overruns:
  assumes "os_ok e" "length buf = MAXLINE_BUF"
    and "int MAXLINE_BUF - 1 \<le> answer e (sv_world st) (SysRead (client st ! i) MAXLINE_BUF)"
  shows "serve_client e strerror i buf st = Faults OutOfBounds"
proof -
  let ?c = "SysRead (client st ! i) MAXLINE_BUF"
  let ?n = "answer e (sv_world st) ?c"
  have n: "int MAXLINE_BUF < ?n + 2" "?n \<le> int MAXLINE_BUF" "length (data_of e (sv_world st) ?c) = nat ?n"
    using assms(1,3) by (simp_all add: os_ok_def)
  have pos: "?n \<noteq> 0" "?n \<noteq> - 1" using assms(3) by (simp_all add: MAXLINE_BUF_def)
  then have "checked_call e strerror Read ?c (sv_world st) = Ok (?n, (?c, ?n) # sv_world st)"
    by (simp add: checked_call_def Read_def not_minus_one_def Let_def)
  then show ?thesis using echo_line_overruns [OF assms(2) n] pos by (simp add: serve_client_def Let_def echo_back_def)
qed

text \<open>A message of \<open>ERR_BUFFER_SIZE\<close> bytes or more overruns the array of \<open>err_doit\<close>; a shorter one is
  printed, cut to the size of the array, with a newline.\<close>

theorem err_sys_message:
  assumes "0 \<notin> set message" "0 \<notin> set (ee_strerror e (ee_errno e))"
  shows "err_sys e message = (if length message < ERR_BUFFER_SIZE then Exits 1 (err_line e True message) else Faults OutOfBounds)
    \<and> length (err_line e True message) \<le> ERR_BUFFER_SIZE"
  using assms by (simp add: err_sys_def err_doit_line err_doit_overruns) (simp add: err_line_def ERR_BUFFER_SIZE_def)

section \<open>Examples\<close>

definition fresh_fd :: "world \<Rightarrow> int" where
  "fresh_fd w = (let n = foldr (\<lambda>(c, r) m. max (r + 1) m) w 3 in if n < int FD_SETSIZE then n else - 1)"

lemma fresh_fd_fresh: "fresh_fd w \<notin> open_fds w" "- 1 \<le> fresh_fd w" "fresh_fd w < int FD_SETSIZE"
proof -
  have le: "fd < foldr (\<lambda>(c, r) m. max (r + 1) m) w 3 \<and> 0 \<le> fd" if "fd \<in> open_fds w" for fd
    using that
  proof (induction w)
    case (Cons c w)
    then show ?case by (cases "(c, open_fds w)" rule: opened_by.cases) (auto split: if_splits simp: less_max_iff_disj)
  qed simp
  have "3 \<le> foldr (\<lambda>(c, r) m. max (r + 1) m) w 3" by (induction w) auto
  then show "fresh_fd w \<notin> open_fds w" "- 1 \<le> fresh_fd w" "fresh_fd w < int FD_SETSIZE"
    using le [of "fresh_fd w"] by (auto simp: fresh_fd_def Let_def FD_SETSIZE_def)
qed

text \<open>A kernel with clients that send one byte at a time.\<close>

definition tcp_os :: os where
  "tcp_os = \<lparr>answer = (\<lambda>w c. case c of SysSocket _ _ _ \<Rightarrow> fresh_fd w | SysAccept _ \<Rightarrow> fresh_fd w | SysSelect _ \<Rightarrow> 1
       | SysRead _ n \<Rightarrow> int (min 1 n) | SysWrite _ bs \<Rightarrow> int (length bs) | _ \<Rightarrow> 0),
     errno_of = (\<lambda>w c. 0), data_of = (\<lambda>w c. case c of SysRead _ n \<Rightarrow> replicate (min 1 n) 0x41 | _ \<Rightarrow> []),
     can_read = (\<lambda>w fd. if (SysAccept 3, 4) \<in> set w then fd = 4 else fd = 3), can_write = (\<lambda>w fd. True), so_error = (\<lambda>w. 0), alloc_ok = (\<lambda>n. True)\<rparr>"

lemma tcp_os_ok: "io_ok tcp_os (\<lambda>n. [])" "accept_fresh tcp_os" "\<forall>w fd. answer tcp_os w (SysAccept fd) < int FD_SETSIZE"
    "Accept tcp_os (\<lambda>n. []) fd w \<noteq> None"
  using fresh_fd_fresh
  by (auto simp: io_ok_def os_ok_def interrupted_once_def strerror_ok_def MAXLINE_BUF_def accept_fresh_def tcp_os_def)
    (subst Accept.simps, auto simp: Let_def errno_def EPROTO_def ECONNABORTED_def)+


text \<open>The server starts, accepts a client and sends back its first byte.\<close>

lemma tcp_rounds:
  "case server_start tcp_os (\<lambda>n. []) None [] of
     Ok st \<Rightarrow> (case select_round tcp_os (\<lambda>n. []) (replicate MAXLINE_BUF 0) st of
       Ok (b, st1) \<Rightarrow> client st1 ! 0 = 4 \<and> (case select_round tcp_os (\<lambda>n. []) b st1 of Ok (b2, st2) \<Rightarrow> accepted 4 (sv_world st2) = [0x41, 0x0A] | _ \<Rightarrow> False)
     | _ \<Rightarrow> False)
   | _ \<Rightarrow> False"
  by code_simp

lemma tcp_reached:
  "\<exists>b st. serving tcp_os (\<lambda>n. []) None (replicate MAXLINE_BUF 0) b st \<and> client st ! 0 = 4"
proof -
  let ?P = "\<lambda>b st1. client st1 ! 0 = 4 \<and> (case select_round tcp_os (\<lambda>n. []) b st1 of Ok (b2, st2) \<Rightarrow> accepted 4 (sv_world st2) = [0x41, 0x0A] | _ \<Rightarrow> False)"
  obtain st where st: "server_start tcp_os (\<lambda>n. []) None [] = Ok st"
    "case select_round tcp_os (\<lambda>n. []) (replicate MAXLINE_BUF 0) st of Ok (b, st1) \<Rightarrow> ?P b st1 | _ \<Rightarrow> False"
    using tcp_rounds by (cases "server_start tcp_os (\<lambda>n. []) None []") simp_all
  then obtain b st1 where "select_round tcp_os (\<lambda>n. []) (replicate MAXLINE_BUF 0) st = Ok (b, st1)" "client st1 ! 0 = 4"
    by (cases "select_round tcp_os (\<lambda>n. []) (replicate MAXLINE_BUF 0) st") auto
  then show ?thesis using serving.round [OF serving.start [OF st(1)]] by blast
qed

theorem select_server_invariant_witness:
  "\<exists>b st. serving tcp_os (\<lambda>n. []) None (replicate MAXLINE_BUF 0) b st \<and> client st ! 0 = 4 \<and> open_fds (sv_world st) = allset st"
  using tcp_reached select_server_invariant [OF _ tcp_os_ok(2)] by blast

theorem select_server_safe_witness:
  "\<exists>b st. client st ! 0 = 4 \<and> ((\<exists>b' st'. select_round tcp_os (\<lambda>n. []) b st = Ok (b', st')) \<or> (\<exists>k l. select_round tcp_os (\<lambda>n. []) b st = Exits k l))"
proof -
  obtain b st where "serving tcp_os (\<lambda>n. []) None (replicate MAXLINE_BUF 0) b st" "client st ! 0 = 4" using tcp_reached by blast
  then show ?thesis
    using select_server_safe [of tcp_os "\<lambda>n. []" None "replicate MAXLINE_BUF 0" b st] tcp_os_ok by (metis length_replicate)
qed

text \<open>A kernel with one client, which sends two bytes.\<close>

definition pair_os :: os where
  "pair_os = tcp_os\<lparr>answer := (\<lambda>w c. case c of SysRead fd n \<Rightarrow> int (min n (2 - consumed fd w)) | SysWrite _ bs \<Rightarrow> int (length bs) | _ \<Rightarrow> 0),
     data_of := (\<lambda>w c. case c of SysRead fd n \<Rightarrow> take n (drop (consumed fd w) [0x41, 0x42]) | _ \<Rightarrow> [])\<rparr>"


theorem select_server_overruns_witness:
  "serve_client (tcp_os\<lparr>answer := \<lambda>w c. case c of SysRead fd n \<Rightarrow> int n | _ \<Rightarrow> 0, data_of := \<lambda>w c. case c of SysRead fd n \<Rightarrow> replicate n 0x41 | _ \<Rightarrow> []\<rparr>)
     (\<lambda>n. []) 0 (replicate MAXLINE_BUF 0) \<lparr>listenfd = 3, client = [4], maxi = 0, maxfd = 4, allset = {3, 4}, sv_world = []\<rparr> = Faults OutOfBounds"
  by (rule select_server_overruns) (simp_all add: os_ok_def)

theorem err_sys_message_witness:
  "err_sys \<lparr>ee_errno = 2, ee_strerror = \<lambda>n. [0x6E, 0x6F]\<rparr> [0x78] = Exits 1 [0x78, 0x3A, 0x20, 0x6E, 0x6F, 0x5B, 0x32, 0x5D, 0x0A]
    \<and> err_sys \<lparr>ee_errno = 2, ee_strerror = \<lambda>n. [0x6E, 0x6F]\<rparr> (replicate ERR_BUFFER_SIZE 0x78) = (Faults OutOfBounds :: unit checked)"
  using err_sys_message [of "[0x78]" "\<lparr>ee_errno = 2, ee_strerror = \<lambda>n. [0x6E, 0x6F]\<rparr>"]
    err_sys_message [of "replicate ERR_BUFFER_SIZE 0x78" "\<lparr>ee_errno = 2, ee_strerror = \<lambda>n. [0x6E, 0x6F]\<rparr>"]
  by (simp add: err_line_def ERR_BUFFER_SIZE_def dec_int_def dec_nat.simps)

end
