(* ===== verification/Tcp_Poll.thy ===== *)
theory Tcp_Poll
  imports Tcp_Properties
begin

unbundle bit_operations_syntax

text \<open>
  The echo servers of \<open>unpv13e/tcp_ser.c\<close> that wait with \<open>poll\<close> (\<open>main_4\<close>) and with \<open>epoll\<close> (\<open>main_5\<close>,
  the one that \<open>main\<close> runs), and what is proved of them.  What the kernel reports, the \<open>revents\<close> of
  the entries or the list of events, is an argument.  The lines that print are left out.
\<close>

text \<open>The array of \<open>main_4\<close> has as many entries as the number of the configuration name \<open>_SC_OPEN_MAX\<close>,
  which is 4 in the C library for Linux.\<close>

definition SC_OPEN_MAX :: nat where "SC_OPEN_MAX = 4"
definition POLLRDNORM :: "16 word" where "POLLRDNORM = 0x40"
definition POLLERR :: "16 word" where "POLLERR = 0x08"
definition EPOLLIN :: u32 where "EPOLLIN = 1"
definition EPOLLOUT :: u32 where "EPOLLOUT = 4"
definition ECONNRESET :: int where "ECONNRESET = 104"

section \<open>The server with poll\<close>

record pollfd =
  pfd :: int
  events :: "16 word"
  revents :: "16 word"

record poll_server =
  pl_listenfd :: int
  pl_client :: "pollfd list"
  pl_maxi :: nat
  pl_world :: world

text \<open>\<open>junk\<close> is what the array holds at first.\<close>

definition poll_start :: "os \<Rightarrow> (int \<Rightarrow> byte list) \<Rightarrow> byte list option \<Rightarrow> pollfd list \<Rightarrow> world \<Rightarrow> poll_server checked" where
  "poll_start e strerror getenv junk w =
     cbind (listen_on e strerror getenv w) (\<lambda>(fd, w1).
     Ok \<lparr>pl_listenfd = fd, pl_client = (hd junk)\<lparr>pfd := fd, events := POLLRDNORM\<rparr> # map (\<lambda>c. c\<lparr>pfd := - 1\<rparr>) (tl junk),
         pl_maxi = 0, pl_world = w1\<rparr>)"

text \<open>\<open>poll\<close> stores what it reports in the first \<open>n\<close> entries, nothing for an entry without descriptor.\<close>

definition polled :: "(nat \<Rightarrow> 16 word) \<Rightarrow> nat \<Rightarrow> pollfd list \<Rightarrow> pollfd list" where
  "polled reports n cs = map (\<lambda>(i, c). if i < n then c\<lparr>revents := if pfd c < 0 then 0 else reports i\<rparr> else c) (enumerate 0 cs)"

definition poll_accept :: "os \<Rightarrow> (int \<Rightarrow> byte list) \<Rightarrow> poll_server \<Rightarrow> poll_server checked" where
  "poll_accept e strerror st =
     (case Accept e strerror (pl_listenfd st) (pl_world st) of
        None \<Rightarrow> Faults Diverges
      | Some (m, w1) \<Rightarrow>
          cbind m (\<lambda>connfd.
          let i = Suc (free_client (map pfd (tl (pl_client st)))) in
          if i = SC_OPEN_MAX then err_quit \<lparr>ee_errno = 0, ee_strerror = strerror\<rparr> (bytes_of ''too many clients'')
          else Ok (st\<lparr>pl_client := (pl_client st)[i := (pl_client st ! i)\<lparr>pfd := connfd, events := POLLRDNORM\<rparr>],
                      pl_maxi := max i (pl_maxi st), pl_world := w1\<rparr>)))"

definition poll_drop :: "os \<Rightarrow> (int \<Rightarrow> byte list) \<Rightarrow> nat \<Rightarrow> poll_server \<Rightarrow> poll_server checked" where
  "poll_drop e strerror i st =
     cbind (checked_call e strerror Close (SysClose (pfd (pl_client st ! i))) (pl_world st)) (\<lambda>(_, w1).
     Ok (st\<lparr>pl_client := (pl_client st)[i := (pl_client st ! i)\<lparr>pfd := - 1\<rparr>], pl_world := w1\<rparr>))"

definition poll_serve :: "os \<Rightarrow> (int \<Rightarrow> byte list) \<Rightarrow> nat \<Rightarrow> byte list \<Rightarrow> poll_server \<Rightarrow> (byte list \<times> poll_server) checked" where
  "poll_serve e strerror i buf st =
     (let fd = pfd (pl_client st ! i); w = pl_world st; c = SysRead fd MAXLINE_BUF; n = answer e w c; w1 = (c, n) # w;
          st1 = st\<lparr>pl_world := w1\<rparr> in
      if n < 0
      then if errno e c w = ECONNRESET then cbind (poll_drop e strerror i st1) (\<lambda>st2. Ok (buf, st2))
           else err_sys (env_after e strerror w1) (bytes_of ''read error'')
      else if n = 0 then cbind (poll_drop e strerror i st1) (\<lambda>st2. Ok (buf, st2))
      else cbind (echo_back e strerror fd buf (data_of e w c) n w1) (\<lambda>(b, w2). Ok (b, st\<lparr>pl_world := w2\<rparr>)))"

text \<open>The loop over the entries up to \<open>limit\<close>.\<close>

function poll_clients :: "os \<Rightarrow> (int \<Rightarrow> byte list) \<Rightarrow> nat \<Rightarrow> nat \<Rightarrow> int \<Rightarrow> byte list \<Rightarrow> poll_server \<Rightarrow>
    (byte list \<times> poll_server) checked" where
  "poll_clients e strerror limit i nready buf st =
     (if i \<le> limit
      then if i \<ge> length (pl_client st) then Faults OutOfBounds
           else if pfd (pl_client st ! i) < 0 \<or> revents (pl_client st ! i) AND (POLLRDNORM OR POLLERR) = 0
           then poll_clients e strerror limit (i + 1) nready buf st
           else cbind (poll_serve e strerror i buf st) (\<lambda>(b, st1).
                if nready - 1 \<le> 0 then Ok (b, st1)
                else poll_clients e strerror limit (i + 1) (nready - 1) b st1)
      else Ok (buf, st))"
  by pat_completeness auto
termination
  by (relation "measure (\<lambda>(e, strerror, limit, i, nready, buf, st). Suc limit - i)") auto

declare poll_clients.simps [simp del]

definition poll_round :: "os \<Rightarrow> (int \<Rightarrow> byte list) \<Rightarrow> (nat \<Rightarrow> 16 word) \<Rightarrow> byte list \<Rightarrow> poll_server \<Rightarrow> (byte list \<times> poll_server) checked" where
  "poll_round e strerror reports buf st =
     cbind (checked_call e strerror Poll (SysPoll (pl_maxi st + 1)) (pl_world st)) (\<lambda>(nready, w).
     let st1 = st\<lparr>pl_client := polled reports (pl_maxi st + 1) (pl_client st), pl_world := w\<rparr> in
     if revents (hd (pl_client st1)) AND POLLRDNORM \<noteq> 0
     then cbind (poll_accept e strerror st1) (\<lambda>st2.
          if nready - 1 \<le> 0 then Ok (buf, st2)
          else poll_clients e strerror (pl_maxi st2) 1 (nready - 1) buf st2)
     else poll_clients e strerror (pl_maxi st1) 1 nready buf st1)"

section \<open>The server with epoll\<close>

text \<open>The buffer and the count of bytes live on from one event to the next.\<close>

record epoll_server =
  ep_listenfd :: int
  ep_buf :: "byte list"
  ep_n :: int
  ep_world :: world

definition epoll_start :: "os \<Rightarrow> (int \<Rightarrow> byte list) \<Rightarrow> byte list option \<Rightarrow> byte list \<Rightarrow> int \<Rightarrow> world \<Rightarrow> epoll_server checked" where
  "epoll_start e strerror getenv buf n w =
     cbind (checked_call e strerror Socket (SysSocket AF_INET SOCK_STREAM 0) w) (\<lambda>(fd, w1).
     let w2 = snd (sys e SysEpollCreate w1); w3 = snd (sys e (SysEpollAdd fd) w2) in
     cbind (checked_call e strerror Bind (SysBind fd TCP_SERVER_PORT) w3) (\<lambda>(_, w4).
     cbind (Listen e strerror getenv fd TCP_LISTENQ w4) (\<lambda>(_, w5).
     Ok \<lparr>ep_listenfd = fd, ep_buf = buf, ep_n = n, ep_world = w5\<rparr>)))"

definition epoll_accept :: "os \<Rightarrow> (int \<Rightarrow> byte list) \<Rightarrow> epoll_server \<Rightarrow> epoll_server checked" where
  "epoll_accept e strerror st =
     (case Accept e strerror (ep_listenfd st) (ep_world st) of
        None \<Rightarrow> Faults Diverges
      | Some (m, w1) \<Rightarrow> cbind m (\<lambda>connfd. Ok (st\<lparr>ep_world := snd (sys e (SysEpollAdd connfd) w1)\<rparr>)))"

definition epoll_read :: "os \<Rightarrow> (int \<Rightarrow> byte list) \<Rightarrow> int \<Rightarrow> epoll_server \<Rightarrow> epoll_server checked" where
  "epoll_read e strerror fd st =
     (let w = ep_world st; c = SysRead fd MAXLINE_BUF; n = answer e w c; w1 = (c, n) # w;
          closed = cbind (checked_call e strerror Close (SysClose fd) w1) (\<lambda>(_, w2). Ok (st\<lparr>ep_n := n, ep_world := w2\<rparr>)) in
      if n < 0
      then if errno e c w = ECONNRESET then closed else err_sys (env_after e strerror w1) (bytes_of ''read error'')
      else if n = 0 then closed
      else cbind (of_res (wr_bytes (ep_buf st) 0 (take (nat n) (data_of e w c)))) (\<lambda>b1.
           cbind (of_res (wr_buf b1 n 0)) (\<lambda>b2.
           cbind (of_res (mem_str b2)) (\<lambda>_.
           cbind (of_res (Writen e strerror fd (bytes_of ''OK'') 2 w1)) (\<lambda>(r, w2).
           cbind r (\<lambda>_. Ok (st\<lparr>ep_buf := b2, ep_n := n, ep_world := w2\<rparr>)))))))"

text \<open>The count is converted to a \<open>size_t\<close>.\<close>

definition epoll_write :: "os \<Rightarrow> (int \<Rightarrow> byte list) \<Rightarrow> int \<Rightarrow> epoll_server \<Rightarrow> epoll_server checked" where
  "epoll_write e strerror fd st =
     cbind (of_res (Writen e strerror fd (ep_buf st) (nat (ep_n st mod 2 ^ 64)) (ep_world st))) (\<lambda>(r, w1).
     cbind r (\<lambda>_. Ok (st\<lparr>ep_world := snd (sys e (SysEpollMod fd) w1)\<rparr>)))"

definition epoll_event :: "os \<Rightarrow> (int \<Rightarrow> byte list) \<Rightarrow> int \<times> u32 \<Rightarrow> epoll_server \<Rightarrow> epoll_server checked" where
  "epoll_event e strerror ev st =
     (case ev of (fd, what) \<Rightarrow>
        if fd = ep_listenfd st then epoll_accept e strerror st
        else if what AND EPOLLIN \<noteq> 0 then (if fd < 0 then Ok st else epoll_read e strerror fd st)
        else if what AND EPOLLOUT \<noteq> 0 then epoll_write e strerror fd st
        else Ok st)"

fun epoll_events :: "os \<Rightarrow> (int \<Rightarrow> byte list) \<Rightarrow> (int \<times> u32) list \<Rightarrow> epoll_server \<Rightarrow> epoll_server checked" where
  "epoll_events e strerror [] st = Ok st"
| "epoll_events e strerror (ev # evs) st = cbind (epoll_event e strerror ev st) (epoll_events e strerror evs)"

text \<open>One turn of the loop; \<open>evs\<close> is what \<open>epoll_wait\<close> stored.\<close>

definition epoll_round :: "os \<Rightarrow> (int \<Rightarrow> byte list) \<Rightarrow> (int \<times> u32) list \<Rightarrow> epoll_server \<Rightarrow> epoll_server checked" where
  "epoll_round e strerror evs st =
     (let (nready, w) = sys e (SysEpollWait 20) (ep_world st) in
      epoll_events e strerror (take (nat nready) evs) (st\<lparr>ep_world := w\<rparr>))"

section \<open>The invariant of the server with poll\<close>

definition pl_fds :: "poll_server \<Rightarrow> int list" where
  "pl_fds st = map pfd (pl_client st)"

definition poll_ok :: "poll_server \<Rightarrow> bool" where
  "poll_ok st \<longleftrightarrow>
     length (pl_fds st) = SC_OPEN_MAX \<and> hd (pl_fds st) = pl_listenfd st \<and> 0 \<le> pl_listenfd st \<and>
     distinct (filter (\<lambda>c. 0 \<le> c) (pl_fds st)) \<and> set (filter (\<lambda>c. 0 \<le> c) (pl_fds st)) = open_fds (pl_world st) \<and>
     pl_maxi st < SC_OPEN_MAX \<and> (\<forall>i<SC_OPEN_MAX. pl_maxi st < i \<longrightarrow> pl_fds st ! i < 0)"

lemma pl_fds_update: "pl_fds (st\<lparr>pl_client := cs\<rparr>) = map pfd cs" "pl_fds (st\<lparr>pl_world := w\<rparr>) = pl_fds st" "pl_fds (st\<lparr>pl_maxi := m\<rparr>) = pl_fds st"
  by (simp_all add: pl_fds_def)

lemma poll_ok_world: "open_fds w = open_fds (pl_world st) \<Longrightarrow> poll_ok (st\<lparr>pl_world := w\<rparr>) = poll_ok st"
  by (simp add: poll_ok_def pl_fds_update)

lemma pfd_polled: "map pfd (polled reports n cs) = map pfd cs"
  by (rule nth_equalityI) (auto simp: polled_def nth_enumerate_eq)

lemma poll_drop_ok:
  assumes "poll_drop e strerror i st = Ok st'" "poll_ok st" "0 < i" "i < SC_OPEN_MAX" "0 \<le> pl_fds st ! i"
  shows "poll_ok st'"
proof -
  let ?fd = "pfd (pl_client st ! i)"
  let ?r = "answer e (pl_world st) (SysClose ?fd)"
  have len: "i < length (pl_client st)" using assms(2,4) by (simp add: poll_ok_def pl_fds_def)
  then have fd: "pl_fds st ! i = ?fd" by (simp add: pl_fds_def)
  have fds: "pl_fds st' = (pl_fds st)[i := - 1]" and st': "pl_world st' = (SysClose ?fd, ?r) # pl_world st" "pl_listenfd st' = pl_listenfd st" "pl_maxi st' = pl_maxi st"
    using assms(1) by (auto simp: poll_drop_def cbind_eq_Ok checked_call_eq_Ok pl_fds_update map_update pl_fds_def)
  have "distinct (filter (\<lambda>c. 0 \<le> c) (pl_fds st))" "i < length (pl_fds st)" using assms(2) len by (simp_all add: poll_ok_def pl_fds_def)
  note gone = entry_dropped [of i "pl_fds st" "\<lambda>c. 0 \<le> c" "- 1", OF this(2) assms(5) _ this(1)]
  have "hd (pl_fds st') = hd (pl_fds st)" using assms(3) unfolding fds by (cases "pl_fds st"; cases i) simp_all
  moreover have "pl_fds st' ! j < 0" if "j < SC_OPEN_MAX" "pl_maxi st < j" for j
    using that assms(2,4) by (cases "j = i") (simp_all add: fds poll_ok_def)
  ultimately show ?thesis using assms(2) gone by (simp add: poll_ok_def fds st' fd)
qed

lemma poll_accept_ok:
  assumes "poll_accept e strerror st = Ok st'" "poll_ok st" "accept_fresh e"
  shows "poll_ok st'"
proof -
  let ?i = "Suc (free_client (map pfd (tl (pl_client st))))"
  obtain connfd w1 where acc: "Accept e strerror (pl_listenfd st) (pl_world st) = Some (Ok connfd, w1)" and i: "?i \<noteq> SC_OPEN_MAX"
    and st': "st' = st\<lparr>pl_client := (pl_client st)[?i := (pl_client st ! ?i)\<lparr>pfd := connfd, events := POLLRDNORM\<rparr>],
      pl_maxi := max ?i (pl_maxi st), pl_world := w1\<rparr>"
    using assms(1) unfolding poll_accept_def Let_def by (cases "?i = SC_OPEN_MAX") (auto simp: cbind_eq_Ok split: option.splits)
  have len: "length (pl_client st) = SC_OPEN_MAX" using assms(2) by (simp add: poll_ok_def pl_fds_def)
  have tl: "map pfd (tl (pl_client st)) ! j = pl_fds st ! Suc j" if "Suc j < SC_OPEN_MAX" for j
    using that len by (simp add: pl_fds_def nth_tl)
  have i': "?i < length (pl_fds st)"
    using free_client_bound(1) [of "map pfd (tl (pl_client st))"] i len by (simp add: pl_fds_def SC_OPEN_MAX_def)
  then have old: "\<not> 0 \<le> pl_fds st ! ?i"
    using free_client_bound(2) [of "map pfd (tl (pl_client st))"] tl [of "?i - 1"] len by (simp add: pl_fds_def SC_OPEN_MAX_def)
  note new = Accept_opens [OF acc assms(3)]
  have fds: "pl_fds st' = (pl_fds st)[?i := connfd]" by (simp add: st' pl_fds_def map_update)
  have fit: "0 \<le> connfd" using new by simp
  note added = entry_added [of ?i "pl_fds st" "\<lambda>c. 0 \<le> c" connfd, OF i' old fit]
  have "hd (pl_fds st') = hd (pl_fds st)" using i' by (cases "pl_fds st") (simp_all add: fds)
  moreover have "pl_fds st' ! j < 0" if "j < SC_OPEN_MAX" "max ?i (pl_maxi st) < j" for j
    using that assms(2) by (simp add: fds poll_ok_def)
  ultimately show ?thesis using assms(2) added new i' len by (simp add: poll_ok_def fds) (simp add: st' pl_fds_def)
qed

lemma poll_serve_ok:
  assumes "poll_serve e strerror i buf st = Ok (b, st')" "poll_ok st" "0 < i" "i < SC_OPEN_MAX" "0 \<le> pl_fds st ! i"
  shows "poll_ok st'"
proof -
  let ?c = "SysRead (pfd (pl_client st ! i)) MAXLINE_BUF"
  let ?st = "st\<lparr>pl_world := (?c, answer e (pl_world st) ?c) # pl_world st\<rparr>"
  have ok: "poll_ok ?st" "0 \<le> pl_fds ?st ! i" using assms(2,5) by (simp_all add: poll_ok_world pl_fds_update)
  consider "poll_drop e strerror i ?st = Ok st'" | w2 where "st' = st\<lparr>pl_world := w2\<rparr>" "open_fds w2 = open_fds (pl_world st)"
    using assms(1) echo_back_leaves by (fastforce simp: poll_serve_def Let_def cbind_eq_Ok split: if_splits)
  then show ?thesis using poll_drop_ok [OF _ ok(1) assms(3,4) ok(2)] assms(2) by cases (simp_all add: poll_ok_world)
qed

lemma poll_clients_ok:
  "poll_clients e strerror limit i nready buf st = Ok (b, st') \<Longrightarrow> poll_ok st \<Longrightarrow> 0 < i \<Longrightarrow> poll_ok st'"
proof (induction e strerror limit i nready buf st rule: poll_clients.induct)
  case (1 e strerror limit i nready buf st)
  let ?skip = "pfd (pl_client st ! i) < 0 \<or> revents (pl_client st ! i) AND (POLLRDNORM OR POLLERR) = 0"
  show ?case
  proof (cases "i \<le> limit")
    case in_range: True
    then have len: "\<not> i \<ge> length (pl_client st)" using "1.prems"(1) by (subst (asm) poll_clients.simps) (auto split: if_splits)
    note run = "1.prems"(1) [unfolded poll_clients.simps [of e strerror limit i nready buf st] if_P [OF in_range] if_not_P [OF len]]
    show ?thesis
    proof (cases ?skip)
      case True
      then show ?thesis using "1.IH"(1) [OF in_range len] "1.prems"(2) run by simp
    next
      case False
      then obtain b1 st1 where c: "poll_serve e strerror i buf st = Ok (b1, st1)"
        and next_one: "(if nready - 1 \<le> 0 then Ok (b1, st1) else poll_clients e strerror limit (i + 1) (nready - 1) b1 st1) = Ok (b, st')"
        using run by (auto simp: cbind_eq_Ok)
      have i: "i < SC_OPEN_MAX" "0 \<le> pl_fds st ! i" using len "1.prems"(2) False by (simp_all add: poll_ok_def pl_fds_def)
      have ok: "poll_ok st1" using poll_serve_ok [OF c "1.prems"(2,3) i] .
      show ?thesis
      proof (cases "nready - 1 \<le> 0")
        case more: False
        then show ?thesis using next_one "1.IH"(2) [OF in_range len False _, of b1 st1] ok by simp
      qed (use next_one ok in simp)
    qed
  qed (use 1 in \<open>simp add: poll_clients.simps\<close>)
qed

lemma poll_round_ok:
  assumes "poll_round e strerror reports buf st = Ok (b, st')" "poll_ok st" "accept_fresh e"
  shows "poll_ok st'"
proof -
  let ?c = "SysPoll (pl_maxi st + 1)"
  let ?st = "st\<lparr>pl_client := polled reports (pl_maxi st + 1) (pl_client st), pl_world := (?c, answer e (pl_world st) ?c) # pl_world st\<rparr>"
  have "pl_fds ?st = pl_fds st" by (simp add: pl_fds_def pfd_polled)
  then have ok: "poll_ok ?st" using assms(2) by (simp add: poll_ok_def)
  have "poll_ok st2" if "poll_accept e strerror ?st = Ok st2" for st2 by (rule poll_accept_ok [OF that ok assms(3)])
  then show ?thesis using assms(1) poll_clients_ok ok
    by (fastforce simp: poll_round_def Let_def cbind_eq_Ok checked_call_eq_Ok split: if_splits)
qed

lemma poll_start_ok:
  assumes "poll_start e strerror getenv junk w = Ok st" "open_fds w = {}" "length junk = SC_OPEN_MAX"
  shows "poll_ok st"
proof -
  obtain fd w1 where l: "listen_on e strerror getenv w = Ok (fd, w1)"
    and st: "st = \<lparr>pl_listenfd = fd, pl_client = (hd junk)\<lparr>pfd := fd, events := POLLRDNORM\<rparr> # map (\<lambda>c. c\<lparr>pfd := - 1\<rparr>) (tl junk),
      pl_maxi = 0, pl_world = w1\<rparr>"
    using assms(1) by (auto simp: poll_start_def cbind_eq_Ok)
  have "pl_fds st = fd # replicate 3 (- 1)" using assms(3)
    by (simp add: st pl_fds_def comp_def SC_OPEN_MAX_def map_replicate_const)
  then show ?thesis using listen_on_opens [OF l] assms(2)
    by (simp add: poll_ok_def SC_OPEN_MAX_def nth_Cons') (simp add: st)
qed

inductive polling :: "os \<Rightarrow> (int \<Rightarrow> byte list) \<Rightarrow> byte list option \<Rightarrow> byte list \<Rightarrow> poll_server \<Rightarrow> bool" for e strerror getenv where
    start: "length junk = SC_OPEN_MAX \<Longrightarrow> poll_start e strerror getenv junk [] = Ok st \<Longrightarrow> polling e strerror getenv buf st"
  | round: "polling e strerror getenv buf st \<Longrightarrow> poll_round e strerror reports buf st = Ok (buf', st') \<Longrightarrow> polling e strerror getenv buf' st'"

lemma polling_ok: "polling e strerror getenv buf st \<Longrightarrow> accept_fresh e \<Longrightarrow> poll_ok st"
  by (induction rule: polling.induct) (auto intro: poll_start_ok poll_round_ok)

text \<open>In every state that the server with \<open>poll\<close> reaches the descriptors of its table are those that it has
  open, each in one entry, and \<open>poll\<close> is asked for all of them; so it never serves more than three clients.\<close>

theorem poll_server_invariant:
  assumes "polling e strerror getenv buf st" "accept_fresh e"
  shows "open_fds (pl_world st) = set (filter (\<lambda>c. 0 \<le> c) (pl_fds st)) \<and> distinct (filter (\<lambda>c. 0 \<le> c) (pl_fds st)) \<and>
    hd (pl_fds st) = pl_listenfd st \<and> (\<forall>i<SC_OPEN_MAX. 0 \<le> pl_fds st ! i \<longrightarrow> i \<le> pl_maxi st) \<and>
    card (open_fds (pl_world st)) \<le> 4"
proof -
  have ok: "poll_ok st" by (rule polling_ok [OF assms])
  have "card (set (filter (\<lambda>c. 0 \<le> c) (pl_fds st))) \<le> length (pl_fds st)"
    using card_length [of "filter (\<lambda>c. 0 \<le> c) (pl_fds st)"] length_filter_le [of "\<lambda>c. 0 \<le> c" "pl_fds st"] by linarith
  then have "card (open_fds (pl_world st)) \<le> 4" using ok by (simp add: poll_ok_def SC_OPEN_MAX_def)
  moreover have "i \<le> pl_maxi st" if "i < SC_OPEN_MAX" "0 \<le> pl_fds st ! i" for i
    using ok that unfolding poll_ok_def by (meson not_le)
  ultimately show ?thesis using ok unfolding poll_ok_def by auto
qed

lemma free_client_none: "(\<forall>c\<in>set cs. 0 \<le> c) \<Longrightarrow> free_client cs = length cs"
  by (induction cs) auto

text \<open>A fourth client ends the program.\<close>

theorem poll_fourth_client:
  assumes "Accept e strerror (pl_listenfd st) (pl_world st) = Some (Ok connfd, w1)" "length (pl_client st) = SC_OPEN_MAX"
    and "\<forall>i\<in>{1, 2, 3}. 0 \<le> pl_fds st ! i" "strerror_ok strerror"
  shows "\<exists>l. poll_accept e strerror st = Exits 1 l"
proof -
  have "\<forall>c\<in>set (map pfd (tl (pl_client st))). 0 \<le> c"
    using assms(2,3) by (auto simp: in_set_conv_nth nth_tl pl_fds_def SC_OPEN_MAX_def less_Suc_eq numeral_eq_Suc)
  then have "free_client (map pfd (tl (pl_client st))) = 3" using assms(2) by (simp add: free_client_none SC_OPEN_MAX_def)
  then show ?thesis using assms(1,4)
    by (simp add: poll_accept_def SC_OPEN_MAX_def err_quit_def err_doit_line strerror_ok_def bytes_of_def ERR_BUFFER_SIZE_def)
qed

section \<open>The server with epoll\<close>

lemma epoll_accept_ok:
  assumes "epoll_accept e strerror st = Ok st'" "accept_fresh e"
  shows "\<exists>connfd. connfd \<notin> open_fds (ep_world st) \<and> open_fds (ep_world st') = insert connfd (open_fds (ep_world st))
    \<and> (SysEpollAdd connfd) \<in> fst ` set (ep_world st')"
  using assms Accept_opens by (fastforce simp: epoll_accept_def cbind_eq_Ok sys_def split: option.splits)

text \<open>One event for a client: \<open>OK\<close> goes back for what one read brings.\<close>

lemma epoll_read_answers:
  assumes "os_ok e" "interrupted_once e fd" "strerror_ok strerror" "length (ep_buf st) = MAXLINE_BUF"
    and "0 < answer e (ep_world st) (SysRead fd MAXLINE_BUF)" "answer e (ep_world st) (SysRead fd MAXLINE_BUF) < int MAXLINE_BUF"
  shows "(\<exists>st'. epoll_read e strerror fd st = Ok st' \<and> accepted fd (ep_world st') = accepted fd (ep_world st) @ bytes_of ''OK'' \<and>
      consumed fd (ep_world st') = nat (answer e (ep_world st) (SysRead fd MAXLINE_BUF)) + consumed fd (ep_world st) \<and>
      open_fds (ep_world st') = open_fds (ep_world st) \<and> length (ep_buf st') = MAXLINE_BUF)
    \<or> (\<exists>l. epoll_read e strerror fd st = Exits 1 l)"
proof -
  let ?c = "SysRead fd MAXLINE_BUF" and ?w = "ep_world st"
  let ?n = "answer e ?w ?c" and ?data = "data_of e ?w ?c"
  let ?w1 = "(?c, ?n) # ?w"
  have data: "length ?data = nat ?n" using assms(1) by (simp add: os_ok_def)
  let ?b1 = "?data @ drop (nat ?n) (ep_buf st)"
  have b1: "wr_bytes (ep_buf st) 0 (take (nat ?n) ?data) = Inr ?b1" using data assms(4,6) by (simp add: wr_bytes_ok nat_le_iff)
  have len: "length ?b1 = MAXLINE_BUF" using data assms(4,5,6) by (simp add: nat_le_iff)
  define b2 where "b2 = ?b1[nat ?n := 0]"
  have b2: "wr_buf ?b1 ?n 0 = Inr b2" "length b2 = MAXLINE_BUF" "0 \<in> set b2"
    using assms(5,6) len by (auto simp: wr_buf_ok b2_def set_update_memI nat_less_iff)
  then obtain t where t: "mem_str b2 = Inr t" by (simp add: mem_str_def)
  have ok: "length (bytes_of ''OK'') = 2" by (simp add: bytes_of_def)
  obtain r w2 k where w: "sock_writen e fd (bytes_of ''OK'') 2 ?w1 = Inr (r, w2)" "k \<le> 2"
    "accepted fd w2 = accepted fd ?w1 @ take k (bytes_of ''OK'')" "r = (if k = 2 then int 2 else - 1)"
    using sock_writen_writes [OF assms(1,2), of 2 "bytes_of ''OK''" ?w1] ok by (metis order_refl)
  have st: "strerror_ok (ee_strerror (env_after e strerror w2))" using assms(3) by (simp add: env_after_def)
  have m: "0 \<notin> set (bytes_of ''writen error'')" "length (bytes_of ''writen error'') < ERR_BUFFER_SIZE"
    by (simp_all add: bytes_of_def ERR_BUFFER_SIZE_def)
  have run: "epoll_read e strerror fd st = cbind (all_of_it (env_after e strerror w2) ''writen error'' 2 r)
      (\<lambda>_. Ok (st\<lparr>ep_buf := b2, ep_n := ?n, ep_world := w2\<rparr>))"
    using assms(5) b1 b2(1) t w(1) by (simp add: epoll_read_def Let_def Writen_def)
  show ?thesis using run w(3,4) sock_writen_leaves [OF w(1), of fd] b2(2) ok
    unfolding all_of_it_cases [OF st m] by (cases "k = 2") auto
qed

text \<open>A read that fills the buffer leaves no place for the zero behind it.\<close>

theorem epoll_overruns:
  assumes "os_ok e" "length (ep_buf st) = MAXLINE_BUF" "answer e (ep_world st) (SysRead fd MAXLINE_BUF) = int MAXLINE_BUF"
  shows "epoll_read e strerror fd st = Faults OutOfBounds"
proof -
  let ?data = "data_of e (ep_world st) (SysRead fd MAXLINE_BUF)"
  have data: "length ?data = MAXLINE_BUF" using assms(1,3) by (simp add: os_ok_def)
  then have "wr_bytes (ep_buf st) 0 (take MAXLINE_BUF ?data) = Inr ?data" using assms(2) by (simp add: wr_bytes_ok)
  moreover have "wr_buf ?data (int MAXLINE_BUF) 0 = Inl OutOfBounds" using data by (simp add: wr_buf_def)
  ultimately show ?thesis using assms(3) MAXLINE_pos by (simp add: epoll_read_def Let_def)
qed

lemma writen_loop_others:
  "writen_loop e fd bs w = Some r \<Longrightarrow> f \<noteq> fd \<longrightarrow> accepted f (snd r) = accepted f w"
  by (rule writen_loop.raw_induct [of "\<lambda>e fd bs w r. f \<noteq> fd \<longrightarrow> accepted f (snd r) = accepted f w"])
    (force simp: Let_def split: if_splits)

lemma sock_writen_others: "sock_writen e fd buf n w = Inr (r, w') \<Longrightarrow> f \<noteq> fd \<Longrightarrow> accepted f w' = accepted f w"
  using writen_loop_others by (fastforce simp: sock_writen_def rbind_eq_Inr split: option.splits)

lemma epoll_read_others:
  "epoll_read e strerror fd st = Ok st' \<Longrightarrow> f \<noteq> fd \<Longrightarrow> accepted f (ep_world st') = accepted f (ep_world st)"
  using sock_writen_others
  by (fastforce simp: epoll_read_def Let_def cbind_eq_Ok checked_call_eq_Ok of_res_eq_Ok Writen_def rmap_eq_Inr split: if_splits)

lemma epoll_read_state:
  "epoll_read e strerror fd st = Ok st' \<Longrightarrow> ep_listenfd st' = ep_listenfd st"
  by (auto simp: epoll_read_def Let_def cbind_eq_Ok split: if_splits)

lemma epoll_events_answer:
  assumes "os_ok e" "\<forall>fd. interrupted_once e fd" "strerror_ok strerror"
    and short: "\<forall>w fd. answer e w (SysRead fd MAXLINE_BUF) \<in> {0<..<int MAXLINE_BUF}"
  shows "length (ep_buf st) = MAXLINE_BUF \<Longrightarrow> \<forall>(fd, what)\<in>set evs. 0 \<le> fd \<and> fd \<noteq> ep_listenfd st \<and> what AND EPOLLIN \<noteq> 0 \<Longrightarrow>
    (\<exists>st'. epoll_events e strerror evs st = Ok st' \<and> (\<forall>fd. accepted fd (ep_world st') = accepted fd (ep_world st)
        @ concat (replicate (count_list (map fst evs) fd) (bytes_of ''OK''))))
    \<or> (\<exists>l. epoll_events e strerror evs st = Exits 1 l)"
proof (induction evs arbitrary: st)
  case (Cons ev evs)
  obtain fd what where ev: "ev = (fd, what)" by (cases ev)
  have event: "epoll_event e strerror ev st = epoll_read e strerror fd st" using Cons.prems(2) by (simp add: ev epoll_event_def)
  have n: "0 < answer e (ep_world st) (SysRead fd MAXLINE_BUF)" "answer e (ep_world st) (SysRead fd MAXLINE_BUF) < int MAXLINE_BUF"
    using short by simp_all
  from epoll_read_answers [OF assms(1) spec [OF assms(2)] assms(3) Cons.prems(1) n] show ?case
  proof (elim disjE exE conjE)
    fix st1 assume st1: "epoll_read e strerror fd st = Ok st1" "accepted fd (ep_world st1) = accepted fd (ep_world st) @ bytes_of ''OK''"
      "length (ep_buf st1) = MAXLINE_BUF"
    have "\<forall>(fd, what)\<in>set evs. 0 \<le> fd \<and> fd \<noteq> ep_listenfd st1 \<and> what AND EPOLLIN \<noteq> 0"
      using Cons.prems(2) epoll_read_state [OF st1(1)] by auto
    from Cons.IH [OF st1(3) this] show ?thesis
    proof (elim disjE exE conjE)
      fix st' assume st': "epoll_events e strerror evs st1 = Ok st'"
        "\<forall>fd. accepted fd (ep_world st') = accepted fd (ep_world st1) @ concat (replicate (count_list (map fst evs) fd) (bytes_of ''OK''))"
      have "accepted f (ep_world st') = accepted f (ep_world st) @ concat (replicate (count_list (map fst (ev # evs)) f) (bytes_of ''OK''))" for f
        using st'(2) st1(2) epoll_read_others [OF st1(1), of f] by (cases "f = fd") (simp_all add: ev)
      then show ?thesis using st'(1) event st1(1) by (intro disjI1 exI [of _ st']) simp
    qed (use event st1(1) in simp)
  qed (use event in simp)
qed simp


definition ready_os :: os where
  "ready_os = tcp_os\<lparr>answer := (\<lambda>w c. case c of SysRead _ n \<Rightarrow> int (min 1 n) | SysWrite _ bs \<Rightarrow> int (length bs) | SysEpollWait _ \<Rightarrow> 2 | _ \<Rightarrow> 0)\<rparr>"

lemma ready_os_ok:
  "os_ok ready_os" "interrupted_once ready_os fd" "strerror_ok (\<lambda>n. [])"
  "0 < answer ready_os w (SysRead fd MAXLINE_BUF)" "answer ready_os w (SysRead fd MAXLINE_BUF) < int MAXLINE_BUF"
  "answer ready_os w (SysEpollWait 20) = 2"
  by (simp_all add: os_ok_def ready_os_def tcp_os_def interrupted_once_def strerror_ok_def MAXLINE_BUF_def)

definition two_clients :: epoll_server where
  "two_clients = \<lparr>ep_listenfd = 3, ep_buf = replicate MAXLINE_BUF 0, ep_n = 0, ep_world = []\<rparr>"


lemma Accept_reads_nothing: "Accept e strerror fd w = Some r \<Longrightarrow> consumed f (snd r) = consumed f w"
  by (rule Accept.raw_induct [of "\<lambda>e strerror fd w r. consumed f (snd r) = consumed f w"])
    (fastforce simp: Let_def split: if_splits)

text \<open>The descriptors are registered with \<open>EPOLLET\<close>, so that the kernel reports them once for all that has
  arrived; but an event makes the server read at most \<open>MAXLINE\<close> bytes.  What is left stays unread.\<close>

theorem epoll_leaves_rest:
  assumes "os_ok e" "epoll_event e strerror ev st = Ok st'" "consumed f (ep_world st) + MAXLINE_BUF < length s"
  shows "drop (consumed f (ep_world st')) s \<noteq> []"
proof -
  obtain fd what where ev: "ev = (fd, what)" by (cases ev)
  let ?r = "answer e (ep_world st) (SysRead fd MAXLINE_BUF)"
  have r: "nat ?r \<le> MAXLINE_BUF" using assms(1) by (simp add: os_ok_def nat_le_iff)
  have acc: "consumed f (ep_world st') = consumed f (ep_world st)" if "epoll_accept e strerror st = Ok st'"
    using that Accept_reads_nothing by (fastforce simp: epoll_accept_def cbind_eq_Ok sys_def split: option.splits)
  have wr: "consumed f (ep_world st') = consumed f (ep_world st)" if "epoll_write e strerror fd st = Ok st'"
    using that sock_writen_leaves by (fastforce simp: epoll_write_def cbind_eq_Ok of_res_eq_Ok Writen_def rmap_eq_Inr sys_def)
  have rd: "consumed f (ep_world st') \<le> nat ?r + consumed f (ep_world st)" if "epoll_read e strerror fd st = Ok st'"
    using that sock_writen_leaves
    by (fastforce simp: epoll_read_def Let_def cbind_eq_Ok checked_call_eq_Ok of_res_eq_Ok Writen_def rmap_eq_Inr split: if_splits)
  have "consumed f (ep_world st') \<le> consumed f (ep_world st) + MAXLINE_BUF"
    using assms(2) acc wr rd r by (force simp: ev epoll_event_def split: if_splits)
  then show ?thesis using assms(3) by simp
qed

end
