(* ===== verification/Net_Programs.thy ===== *)
theory Net_Programs
  imports Tcp_Properties
begin

text \<open>
  The other programs of \<open>unpv13e\<close>: the client of the echo server (\<open>tcp_cli.c\<close>), the client and the server
  of the time of day (\<open>intro_cli.c\<close>, \<open>intro_ser.c\<close>), and the datagram client and server (\<open>udp_cli.c\<close>,
  \<open>udp_ser.c\<close>).  Log output, \<open>sleep\<close> and the handlers of signals are left out; printing succeeds.
\<close>

section \<open>The client of the echo server\<close>

text \<open>The carriage returns and newlines from index \<open>i\<close> down are overwritten with zeros.\<close>

function trim_line :: "byte list \<Rightarrow> int \<Rightarrow> byte list res" where
  "trim_line buf i =
     (if i < 0 \<or> int (length buf) \<le> i then Inl OutOfBounds
      else if buf ! nat i = 0x0D \<or> buf ! nat i = 0x0A then trim_line (buf[nat i := 0]) (i - 1)
      else Inr buf)"
  by pat_completeness auto
termination by (relation "measure (\<lambda>(buf, i). nat (i + 1))") auto

declare trim_line.simps [simp del]

record chat =
  ch_send :: "byte list"
  ch_recv :: "byte list"
  ch_rb :: readbuf
  ch_out :: "byte list"
  ch_world :: world

text \<open>One turn of the loop, with the line that \<open>fgets\<close> got; None for \<open>exit\<close>.\<close>

definition client_line :: "os \<Rightarrow> (int \<Rightarrow> byte list) \<Rightarrow> int \<Rightarrow> byte list \<Rightarrow> chat \<Rightarrow> chat option checked" where
  "client_line e strerror fd line st =
     cbind (of_res (wr_bytes (ch_send st) 0 (line @ [0]))) (\<lambda>b0.
     cbind (of_res (mem_str b0)) (\<lambda>s.
     cbind (of_res (trim_line b0 (int (length s) - 1))) (\<lambda>b1.
     cbind (of_res (mem_str b1)) (\<lambda>t.
     if t = bytes_of ''exit'' then Ok None
     else cbind (of_res (Writen e strerror fd b1 (length t) (ch_world st))) (\<lambda>(r, w1).
          cbind r (\<lambda>_.
          cbind (of_res (Readline e strerror fd (ch_recv st) MAXLINE_BUF (ch_rb st) w1)) (\<lambda>(m, rb, st1, w2).
          cbind m (\<lambda>n.
          if n = 0 then err_quit (env_after e strerror w2) (bytes_of ''str_cli: server terminated prematurely'')
          else cbind (of_res (mem_str rb)) (\<lambda>reply.
               Ok (Some \<lparr>ch_send = b1, ch_recv = rb, ch_rb = st1,
                         ch_out = ch_out st @ bytes_of ''>>'' @ reply @ bytes_of ''<<'', ch_world = w2\<rparr>))))))))))"

lemma first_line_shortens: "first_line k s \<noteq> [] \<Longrightarrow> length s - length (first_line k s) < length s"
  by (cases s) auto

function client_loop :: "os \<Rightarrow> (int \<Rightarrow> byte list) \<Rightarrow> int \<Rightarrow> byte list \<Rightarrow> chat \<Rightarrow> chat checked" where
  "client_loop e strerror fd stdin st =
     (let line = first_line (MAXLINE_BUF - 1) stdin in
      if line = [] then Ok st
      else cbind (client_line e strerror fd line st) (\<lambda>r. case r of
             None \<Rightarrow> Ok st
           | Some st1 \<Rightarrow> client_loop e strerror fd (drop (length line) stdin) st1))"
  by pat_completeness auto
termination
  by (relation "measure (\<lambda>(e, strerror, fd, stdin, st). length stdin)") (auto simp: first_line_shortens)

declare client_loop.simps [simp del]

text \<open>The socket and its connection to the host in \<open>argv\<close>; \<open>junk\<close> is what \<open>inet_pton\<close> finds on its stack.\<close>

definition connect_to :: "os \<Rightarrow> (int \<Rightarrow> byte list) \<Rightarrow> byte list \<Rightarrow> byte list list \<Rightarrow> string \<Rightarrow> int \<Rightarrow> world \<Rightarrow> (int \<times> world) checked" where
  "connect_to e strerror junk argv usage port w =
     (if length argv \<noteq> 2 then err_quit (env_after e strerror w) (bytes_of usage)
      else cbind (checked_call e strerror Socket (SysSocket AF_INET SOCK_STREAM 0) w) (\<lambda>(fd, w1).
           cbind (Inet_pton (env_after e strerror w1) junk AF_INET (argv ! 1 @ [0]) (sockaddr_in AF_INET port) 4) (\<lambda>_.
           cbind (checked_call e strerror Connect (SysConnect fd port) w1) (\<lambda>(_, w2). Ok (fd, w2)))))"

definition chat_start :: "byte list \<Rightarrow> byte list \<Rightarrow> world \<Rightarrow> chat" where
  "chat_start sendline recvline w =
     \<lparr>ch_send = sendline, ch_recv = recvline, ch_rb = readbuf0, ch_out = bytes_of ''<<'', ch_world = w\<rparr>"

text \<open>\<open>main_3\<close>, and \<open>main_4\<close>, which has the same text and is the one that runs.\<close>

definition tcp_client :: "os \<Rightarrow> (int \<Rightarrow> byte list) \<Rightarrow> byte list \<Rightarrow> byte list \<Rightarrow> byte list \<Rightarrow> byte list list \<Rightarrow> byte list \<Rightarrow> world \<Rightarrow> chat checked" where
  "tcp_client e strerror junk sendline recvline argv stdin w =
     cbind (connect_to e strerror junk argv ''usage: tcpcli <IPaddress>'' TCP_SERVER_PORT w) (\<lambda>(fd, w1).
     client_loop e strerror fd stdin (chat_start sendline recvline w1))"

text \<open>\<open>main_1\<close> limits the time for the connection with an alarm, asks for both addresses, and lets \<open>close\<close> wait.
  \<open>setsockopt\<close> is answered by \<open>linger\<close>.\<close>

definition tcp_client_alarm :: "os \<Rightarrow> (int \<Rightarrow> byte list) \<Rightarrow> byte list \<Rightarrow> int \<Rightarrow> byte list \<Rightarrow> byte list \<Rightarrow> byte list list \<Rightarrow> byte list \<Rightarrow> world \<Rightarrow> chat checked" where
  "tcp_client_alarm e strerror junk linger sendline recvline argv stdin w =
     (if length argv \<noteq> 2 then err_quit (env_after e strerror w) (bytes_of ''usage: tcpcli <IPaddress>'')
      else cbind (checked_call e strerror Socket (SysSocket AF_INET SOCK_STREAM 0) w) (\<lambda>(fd, w1).
           cbind (Inet_pton (env_after e strerror w1) junk AF_INET (argv ! 1 @ [0]) (sockaddr_in AF_INET TCP_SERVER_PORT) 4) (\<lambda>_.
           cbind (checked_call e strerror (\<lambda>v. not_minus_one v ''setitimer error'') (SysItimer 10500) w1) (\<lambda>(_, w2).
           cbind (checked_call e strerror Connect (SysConnect fd TCP_SERVER_PORT) w2) (\<lambda>(_, w3).
           let w4 = snd (sys e (SysItimer 0) w3); (r, w5) = sys e (SysName fd True) w4 in
           if r < 0 then err_quit (env_after e strerror w5) (bytes_of ''getsockname fail.'')
           else let (r, w6) = sys e (SysName fd False) w5 in
           if r < 0 then err_quit (env_after e strerror w6) (bytes_of ''getsockname fail.'')
           else cbind (client_loop e strerror fd stdin (chat_start sendline recvline w6)) (\<lambda>st.
                cbind (Setsockopt (env_after e strerror (ch_world st)) linger) (\<lambda>_.
                cbind (checked_call e strerror Close (SysClose fd) (ch_world st)) (\<lambda>(_, w7).
                Ok (st\<lparr>ch_world := w7\<rparr>)))))))))"

text \<open>\<open>main_2\<close> writes to a connection that the server has closed.\<close>

definition tcp_client_hello :: "os \<Rightarrow> (int \<Rightarrow> byte list) \<Rightarrow> byte list \<Rightarrow> byte list list \<Rightarrow> world \<Rightarrow> world checked" where
  "tcp_client_hello e strerror junk argv w =
     cbind (connect_to e strerror junk argv ''usage: tcpcli <IPaddress>'' TCP_SERVER_PORT w) (\<lambda>(fd, w1).
     cbind (checked_call e strerror (\<lambda>v. Write v 5) (SysWrite fd (bytes_of ''hello'')) w1) (\<lambda>(_, w2).
     cbind (checked_call e strerror (\<lambda>v. Write v 5) (SysWrite fd (bytes_of ''world'')) w2) (\<lambda>(_, w3).
     Ok w3)))"

section \<open>The time of day\<close>

text \<open>Everything up to the end of the stream is printed; the array has one byte more than is read.\<close>

partial_function (option) daytime_loop :: "os \<Rightarrow> (int \<Rightarrow> byte list) \<Rightarrow> int \<Rightarrow> byte list \<Rightarrow> byte list \<Rightarrow> world \<Rightarrow> (byte list \<times> world) checked option" where
  "daytime_loop e strerror fd buf out w =
     (let c = SysRead fd MAXLINE_BUF in
      case checked_call e strerror Read c w of
        Ok (n, w1) \<Rightarrow>
          if n > 0
          then (case rbind (wr_bytes buf 0 (take (nat n) (data_of e w c))) (\<lambda>b1. rbind (wr_buf b1 n 0) (\<lambda>b2. rmap (Pair b2) (mem_str b2))) of
                  Inl f \<Rightarrow> Some (Faults f)
                | Inr (b2, s) \<Rightarrow> daytime_loop e strerror fd b2 (out @ s) w1)
          else if n < 0 then Some (err_sys (env_after e strerror w1) (bytes_of ''read error''))
          else Some (Ok (out, w1))
      | Exits k l \<Rightarrow> Some (Exits k l)
      | Aborts l \<Rightarrow> Some (Aborts l)
      | Faults f \<Rightarrow> Some (Faults f))"

declare daytime_loop.simps [code]

text \<open>One turn of the loop of the server; \<open>text\<close> is what \<open>ctime\<close> returns.  The address of the client goes
  through the same array before.\<close>

definition daytime_round :: "os \<Rightarrow> (int \<Rightarrow> byte list) \<Rightarrow> byte list \<Rightarrow> int \<Rightarrow> world \<Rightarrow> world checked option" where
  "daytime_round e strerror text fd w =
     map_option (\<lambda>(m, w1). cbind m (\<lambda>connfd.
         let buff = take (MAXLINE_BUF - 1) (take 24 text @ [0x0D, 0x0A]) in
         cbind (checked_call e strerror (\<lambda>v. Write v (length buff)) (SysWrite connfd buff) w1) (\<lambda>(_, w2).
         cbind (checked_call e strerror Close (SysClose connfd) w2) (\<lambda>(_, w3). Ok w3))))
       (Accept e strerror fd w)"

section \<open>Datagrams\<close>

text \<open>One turn of the loop of the server: whether it goes on, its array and the history.\<close>

definition udp_server_round :: "os \<Rightarrow> int \<Rightarrow> byte list \<Rightarrow> world \<Rightarrow> (bool \<times> byte list \<times> world) res" where
  "udp_server_round e fd mesg w =
     (let c = SysSelect (fd + 1); nready = answer e w c; w1 = (c, nready) # w in
      if nready < 0 then Inr (errno e c w = EINTR, mesg, w1)
      else if \<not> can_read e w1 fd then Inr (True, mesg, w1)
      else let c1 = SysRecvfrom fd MAXLINE_BUF; n = answer e w1 c1; w2 = (c1, n) # w1 in
           if n > 0
           then rbind (wr_bytes mesg 0 (take (nat n) (data_of e w1 c1))) (\<lambda>b1.
                rbind (wr_buf b1 n 0) (\<lambda>b2.
                rbind (rd_bytes b2 0 (nat n)) (\<lambda>bs.
                Inr (True, b2, snd (sys e (SysSendto fd bs) w2)))))
           else Inr (True, mesg, w2))"

definition udp_server_start :: "os \<Rightarrow> world \<Rightarrow> int \<times> world" where
  "udp_server_start e w = sock_ser_open e AF_INET SOCK_DGRAM 9877 w"

text \<open>The client sends its line and prints the answer, until the port is found closed; a server that goes on
  answering keeps it going (None).  The socket is connected (\<open>udp_connected\<close> is never changed).\<close>

definition ECONNREFUSED :: int where "ECONNREFUSED = 111"

partial_function (option) udp_client_loop :: "os \<Rightarrow> int \<Rightarrow> byte list \<Rightarrow> byte list list \<Rightarrow> world \<Rightarrow> (byte list list \<times> world) res option" where
  "udp_client_loop e fd recvline out w =
     (let w1 = snd (sys e (SysSendto fd (bytes_of ''1234567tetegger'')) w); c = SysRecvfrom fd MAXLINE_BUF; n = answer e w1 c; w2 = (c, n) # w1 in
      if n \<le> 0
      then (if errno e c w1 = ECONNREFUSED then Some (Inr (out, w2)) else udp_client_loop e fd recvline out w2)
      else (case rbind (wr_bytes recvline 0 (take (nat n) (data_of e w1 c))) (\<lambda>b1. rbind (wr_buf b1 n 0) (\<lambda>b2. rmap (Pair b2) (mem_str b2))) of
              Inl f \<Rightarrow> Some (Inl f)
            | Inr (b2, s) \<Rightarrow> udp_client_loop e fd b2 (out @ [s]) w2))"

declare udp_client_loop.simps [code]

text \<open>None: an error was logged.  A missing argument is NULL.\<close>

definition udp_client_start :: "os \<Rightarrow> byte list \<Rightarrow> byte list option \<Rightarrow> world \<Rightarrow> (int option \<times> world) res" where
  "udp_client_start e junk host w =
     (let (fd, w1) = sys e (SysSocket AF_INET SOCK_DGRAM 0) w in
      if fd < 0 then Inr (None, w1)
      else rbind (sockaddr_init junk (Some (replicate 16 0)) (map_option (\<lambda>h. h @ [0]) host) 9877 AF_INET) (\<lambda>(r, _).
           if r < 0 then Inr (None, w1)
           else let (r1, w2) = sys e (SysConnect fd 9877) w1 in
           if r1 < 0 then Inr (None, w2)
           else let (r2, w3) = sys e (SysName fd False) w2 in
           if r2 < 0 then Inr (None, w3) else Inr (Some fd, w3)))"

end
