(* ===== verification/Net_Properties.thy ===== *)
theory Net_Properties
  imports Net_Programs Http_Properties
begin

text \<open>
  What is proved of the other programs of \<open>unpv13e\<close>: the client of the echo server sends its lines
  and prints the answers, the client of the time of day prints the stream, the datagram server echoes;
  and where the client and the datagram server leave their arrays.
\<close>

section \<open>The end of a line\<close>

definition line_ends :: "byte set" where
  "line_ends = {0x0D, 0x0A}"

lemma trim_line_ends:
  assumes "t \<noteq> []" "last t \<notin> line_ends"
  shows "set eol \<subseteq> line_ends \<Longrightarrow>
    trim_line (t @ eol @ rest) (int (length t + length eol) - 1) = Inr (t @ replicate (length eol) 0 @ rest)"
proof (induction eol arbitrary: rest rule: rev_induct)
  case Nil
  have "nat (int (length t) - 1) = length t - 1" by linarith
  then have "t ! nat (int (length t) - 1) \<notin> line_ends" using assms by (simp add: last_conv_nth)
  then show ?case using assms(1) by (subst trim_line.simps) (auto simp: line_ends_def nth_append nat_less_iff)
next
  case (snoc x xs)
  let ?i = "length t + length xs"
  have i: "nat (int (length t + length (xs @ [x])) - 1) = ?i" by simp
  have x: "(t @ (xs @ [x]) @ rest) ! ?i = x" by (simp add: nth_append)
  have set: "(t @ (xs @ [x]) @ rest)[?i := 0] = t @ xs @ 0 # rest" by (simp add: list_update_append)
  have "trim_line (t @ (xs @ [x]) @ rest) (int (length t + length (xs @ [x])) - 1) = trim_line (t @ xs @ 0 # rest) (int ?i - 1)"
    unfolding trim_line.simps [of "t @ (xs @ [x]) @ rest"] i x set using snoc.prems by (simp add: line_ends_def)
  also have "\<dots> = Inr (t @ replicate (length xs) 0 @ 0 # rest)" using snoc by simp
  also have "t @ replicate (length xs) 0 @ 0 # rest = t @ replicate (length (xs @ [x])) (0::byte) @ rest"
    by (simp add: replicate_app_Cons_same)
  finally show ?case .
qed

text \<open>A line of newlines only is trimmed beyond its first byte.\<close>

lemma trim_line_underruns:
  "set eol \<subseteq> line_ends \<Longrightarrow> trim_line (eol @ rest) (int (length eol) - 1) = Inl OutOfBounds"
proof (induction eol arbitrary: rest rule: rev_induct)
  case (snoc x xs)
  have i: "nat (int (length (xs @ [x])) - 1) = length xs" by simp
  have "trim_line ((xs @ [x]) @ rest) (int (length (xs @ [x])) - 1) = trim_line (xs @ 0 # rest) (int (length xs) - 1)"
    unfolding trim_line.simps [of "(xs @ [x]) @ rest"] i using snoc.prems by (simp add: line_ends_def nth_append list_update_append)
  then show ?case using snoc by simp
qed (simp add: trim_line.simps)

section \<open>The client of the echo server\<close>

lemma err_quit_exits:
  "strerror_ok (ee_strerror v) \<Longrightarrow> 0 \<notin> set m \<Longrightarrow> length m < ERR_BUFFER_SIZE \<Longrightarrow> \<exists>l. err_quit v m = Exits 1 l"
  by (simp add: err_quit_def strerror_ok_def err_doit_line)

lemma line_in_buffer:
  fixes line :: "byte list"
  assumes "length buf = MAXLINE_BUF" "length line < MAXLINE_BUF"
  shows "wr_bytes buf 0 (line @ [0]) = Inr (line @ 0 # drop (Suc (length line)) buf)"
  using assms by (simp add: wr_bytes_ok)

definition chat_ok :: "chat \<Rightarrow> bool" where
  "chat_ok st \<longleftrightarrow> length (ch_send st) = MAXLINE_BUF \<and> length (ch_recv st) = MAXLINE_BUF \<and> rb_ok (ch_rb st)"

lemma client_line_exchanges:
  assumes "os_ok e" "interrupted_once e fd" "strerror_ok strerror" "delivers e fd s"
    and "chat_ok st" "0 \<notin> set (pending fd s (ch_rb st) (ch_world st))"
    and "t \<noteq> []" "0 \<notin> set t" "last t \<notin> line_ends" "t \<noteq> bytes_of ''exit''" "eol \<noteq> []" "set eol \<subseteq> line_ends"
    and "length (t @ eol) < MAXLINE_BUF"
  shows "(\<exists>st' l. client_line e strerror fd (t @ eol) st = Ok (Some st') \<and> chat_ok st' \<and> l \<noteq> [] \<and>
      accepted fd (ch_world st') = accepted fd (ch_world st) @ t \<and>
      l @ pending fd s (ch_rb st') (ch_world st') = pending fd s (ch_rb st) (ch_world st) \<and>
      ch_out st' = ch_out st @ bytes_of ''>>'' @ l @ bytes_of ''<<'')
    \<or> (\<exists>x. client_line e strerror fd (t @ eol) st = Exits 1 x)"
proof -
  let ?w = "ch_world st" and ?p = "pending fd s (ch_rb st) (ch_world st)"
  let ?rest = "0 # drop (Suc (length (t @ eol))) (ch_send st)"
  let ?b1 = "t @ replicate (length eol) 0 @ ?rest"
  have send: "length (ch_send st) = MAXLINE_BUF" "length (ch_recv st) = MAXLINE_BUF" "rb_ok (ch_rb st)" using assms(5) by (simp_all add: chat_ok_def)
  have eol: "0 \<notin> set eol" using assms(12) by (auto simp: line_ends_def)
  have b0: "wr_bytes (ch_send st) 0 ((t @ eol) @ [0]) = Inr (t @ eol @ ?rest)" using line_in_buffer [OF send(1) assms(13)] by simp
  have s0: "mem_str (t @ eol @ ?rest) = Inr (t @ eol)" using mem_str_at [of "t @ eol"] assms(8) eol by simp
  have b1: "trim_line (t @ eol @ ?rest) (int (length (t @ eol)) - 1) = Inr ?b1" using trim_line_ends [OF assms(7,9,12)] by simp
  obtain k where k: "length eol = Suc k" using assms(11) by (cases eol) auto
  have s1: "mem_str ?b1 = Inr t" using mem_str_at [OF assms(8)] by (simp add: k)
  have len1: "length ?b1 = MAXLINE_BUF" "length t \<le> length ?b1" using send(1) assms(13) by simp_all
  obtain r w1 j where w: "sock_writen e fd ?b1 (length t) ?w = Inr (r, w1)" "j \<le> length t" "accepted fd w1 = accepted fd ?w @ take j ?b1"
    "r = (if j = length t then int (length t) else - 1)"
    using sock_writen_writes [OF assms(1,2) len1(2), of ?w] by blast
  have wr: "cbind (of_res (Writen e strerror fd ?b1 (length t) ?w)) f = f (all_of_it (env_after e strerror w1) ''writen error'' (length t) r, w1)" for f :: "_ \<Rightarrow> chat option checked"
    using w(1) by (simp add: Writen_def)
  have m: "0 \<notin> set (bytes_of ''writen error'')" "length (bytes_of ''writen error'') < ERR_BUFFER_SIZE"
    "0 \<notin> set (bytes_of ''str_cli: server terminated prematurely'')" "length (bytes_of ''str_cli: server terminated prematurely'') < ERR_BUFFER_SIZE"
    by (simp_all add: bytes_of_def ERR_BUFFER_SIZE_def)
  have env: "strerror_ok (ee_strerror (env_after e strerror w'))" for w' using assms(3) by (simp add: env_after_def)
  note run = client_line_def [of e strerror fd "t @ eol" st, unfolded b0 of_res_simps cbind_simps s0 b1 s1 if_not_P [OF assms(10)] wr prod.case all_of_it_cases [OF env m(1,2)]]
  show ?thesis
  proof (cases "j = length t")
    case False
    then show ?thesis using run w(4) by simp
  next
    case True
    have p1: "pending fd s (ch_rb st) w1 = ?p" using sock_writen_leaves [OF w(1), of fd] by (simp add: pending_def)
    define l where "l = first_line (MAXLINE_BUF - 1) ?p"
    obtain rb w2 where rd: "sock_readline e fd (ch_recv st) MAXLINE_BUF (ch_rb st) w1 = Inr (line_result MAXLINE_BUF l, l @ 0 # drop (Suc (length l)) (ch_recv st), rb, w2)"
      "rb_ok rb" "pending fd s rb w2 = drop (length l) ?p"
      using sock_readline_delivers [OF assms(4) send(3), of MAXLINE_BUF "ch_recv st" l w1] send(2) p1 by (auto simp: l_def MAXLINE_BUF_def)
    have acc: "accepted fd w2 = accepted fd w1" using rd(1) readline_loop_reads unfolding sock_readline_def only_read_def by blast
    have lp: "l @ drop (length l) ?p = ?p" unfolding l_def by (rule first_line_take)
    have len2: "length l < MAXLINE_BUF" using first_line_le [of "MAXLINE_BUF - 1" ?p] MAXLINE_pos unfolding l_def by linarith
    note run1 = run [unfolded if_P [OF w(4) [unfolded if_P [OF True]]] cbind_simps Readline_def rd(1) rmap_simps prod.case of_res_simps]
    show ?thesis
    proof (cases "l = []")
      case empty: True
      then have "line_result MAXLINE_BUF l = 0" by (simp add: line_result_def MAXLINE_BUF_def)
      then show ?thesis using run1 err_quit_exits [OF env m(3,4), of w2] by (simp add: not_negative_def)
    next
      case False
      then have pos: "0 < line_result MAXLINE_BUF l" by (simp add: line_result_def MAXLINE_BUF_def)
      have "0 \<notin> set l" using assms(6) lp by (metis Un_iff set_append)
      note reply = mem_str_at [OF this, of "drop (Suc (length l)) (ch_recv st)"]
      have "client_line e strerror fd (t @ eol) st = Ok (Some \<lparr>ch_send = ?b1, ch_recv = l @ 0 # drop (Suc (length l)) (ch_recv st), ch_rb = rb,
          ch_out = ch_out st @ bytes_of ''>>'' @ l @ bytes_of ''<<'', ch_world = w2\<rparr>)"
        using run1 pos reply by (simp add: not_negative_def)
      then show ?thesis using False acc w(3) True lp rd(2,3) len1(1) len2 send(2) by (simp add: chat_ok_def)
    qed
  qed
qed

text \<open>The whole input, line by line.\<close>

definition chat_line :: "byte list \<Rightarrow> bool" where
  "chat_line t \<longleftrightarrow> t \<noteq> [] \<and> 0 \<notin> set t \<and> set t \<inter> line_ends = {} \<and> t \<noteq> bytes_of ''exit'' \<and> length t + 1 < MAXLINE_BUF"

lemma first_line_at: "0x0A \<notin> set t \<Longrightarrow> length t < k \<Longrightarrow> first_line k (t @ 0x0A # s) = t @ [0x0A]"
proof (induction t arbitrary: k)
  case (Cons b t)
  then obtain j where "k = Suc j" by (cases k) auto
  then show ?case using Cons by simp
qed (auto simp: gr0_conv_Suc)

lemma client_loop_exchanges:
  assumes "os_ok e" "interrupted_once e fd" "strerror_ok strerror" "delivers e fd s"
  shows "chat_ok st \<Longrightarrow> 0 \<notin> set (pending fd s (ch_rb st) (ch_world st)) \<Longrightarrow> \<forall>t\<in>set ts. chat_line t \<Longrightarrow>
    (\<exists>st' replies. client_loop e strerror fd (concat (map (\<lambda>t. t @ [0x0A]) ts)) st = Ok st' \<and> length replies = length ts \<and>
      accepted fd (ch_world st') = accepted fd (ch_world st) @ concat ts \<and>
      concat replies @ pending fd s (ch_rb st') (ch_world st') = pending fd s (ch_rb st) (ch_world st) \<and> [] \<notin> set replies \<and>
      ch_out st' = ch_out st @ concat (map (\<lambda>l. bytes_of ''>>'' @ l @ bytes_of ''<<'') replies))
    \<or> (\<exists>x. client_loop e strerror fd (concat (map (\<lambda>t. t @ [0x0A]) ts)) st = Exits 1 x)"
proof (induction ts arbitrary: st)
  case Nil
  then show ?case by (intro disjI1 exI [of _ st] exI [of _ "[]"]) (simp add: client_loop.simps)
next
  case (Cons t ts)
  let ?in = "concat (map (\<lambda>t. t @ [0x0A]) ts)"
  have t: "t \<noteq> []" "0 \<notin> set t" "t \<noteq> bytes_of ''exit''" "length (t @ [0x0A]) < MAXLINE_BUF" and ends: "set t \<inter> line_ends = {}"
    using Cons.prems(3) by (simp_all add: chat_line_def)
  have last: "last t \<notin> line_ends" using ends last_in_set [OF t(1)] by blast
  have eol: "[0x0A] \<noteq> []" "set [0x0A] \<subseteq> line_ends" by (simp_all add: line_ends_def)
  have "0x0A \<notin> set t" using ends by (auto simp: line_ends_def)
  then have line: "first_line (MAXLINE_BUF - 1) (t @ 0x0A # ?in) = t @ [0x0A]" using t(4) by (intro first_line_at) simp_all
  have step: "client_loop e strerror fd (concat (map (\<lambda>t. t @ [0x0A]) (t # ts))) st = cbind (client_line e strerror fd (t @ [0x0A]) st)
      (\<lambda>r. case r of None \<Rightarrow> Ok st | Some st1 \<Rightarrow> client_loop e strerror fd ?in st1)"
    by (subst client_loop.simps) (simp add: line [simplified] Let_def)
  from client_line_exchanges [OF assms Cons.prems(1,2) t(1,2) last t(3) eol t(4)] show ?case
  proof (elim disjE exE conjE)
    fix st1 l assume c: "client_line e strerror fd (t @ [0x0A]) st = Ok (Some st1)" "chat_ok st1" "l \<noteq> []"
      "accepted fd (ch_world st1) = accepted fd (ch_world st) @ t"
      "l @ pending fd s (ch_rb st1) (ch_world st1) = pending fd s (ch_rb st) (ch_world st)"
      "ch_out st1 = ch_out st @ bytes_of ''>>'' @ l @ bytes_of ''<<''"
    have nz: "0 \<notin> set (pending fd s (ch_rb st1) (ch_world st1))" using Cons.prems(2) unfolding c(5) [symmetric] by simp
    have "\<forall>t\<in>set ts. chat_line t" using Cons.prems(3) by simp
    from Cons.IH [OF c(2) nz this] show ?thesis
    proof (elim disjE exE conjE, goal_cases)
      case (1 st' replies)
      have "concat (l # replies) @ pending fd s (ch_rb st') (ch_world st') = pending fd s (ch_rb st) (ch_world st)"
        using 1 c(5) by simp
      then show ?case using 1 c step by (intro disjI1 exI [of _ st'] exI [of _ "l # replies"]) simp
    qed (use step c(1) in simp_all)
  qed (use step in simp)
qed


text \<open>An empty line makes the client read and write before its array.\<close>

theorem tcp_client_empty_line:
  assumes "chat_ok st" "set eol \<subseteq> line_ends" "length eol < MAXLINE_BUF"
  shows "client_line e strerror fd eol st = Faults OutOfBounds"
proof -
  let ?b = "eol @ 0 # drop (Suc (length eol)) (ch_send st)"
  have "wr_bytes (ch_send st) 0 (eol @ [0]) = Inr ?b" using assms by (intro line_in_buffer) (simp_all add: chat_ok_def)
  moreover have "0 \<notin> set eol" using assms(2) by (auto simp: line_ends_def)
  then have "mem_str ?b = Inr eol" by (rule mem_str_at)
  ultimately show ?thesis using trim_line_underruns [OF assms(2)] by (simp add: client_line_def)
qed

section \<open>The time of day\<close>

lemma daytime_loop_prints:
  assumes "os_ok e" "strerror_ok strerror" "delivers e fd s" "0 \<notin> set s"
  shows "length buf = MAXLINE_BUF + 1 \<Longrightarrow>
    (\<exists>w'. daytime_loop e strerror fd buf out w = Some (Ok (out @ drop (consumed fd w) s, w')))
    \<or> (\<exists>l. daytime_loop e strerror fd buf out w = Some (Exits 1 l))"
proof (induction "length (drop (consumed fd w) s)" arbitrary: buf out w rule: less_induct)
  case less
  let ?c = "SysRead fd MAXLINE_BUF" and ?rest = "drop (consumed fd w) s"
  let ?r = "answer e w ?c"
  let ?w = "(?c, ?r) # w" and ?data = "data_of e w ?c"
  have r: "- 1 \<le> ?r" "?r \<le> int MAXLINE_BUF" "length ?data = nat ?r" using assms(1) by (simp_all add: os_ok_def)
  have d: "0 \<le> ?r \<longrightarrow> nat ?r \<le> length ?rest \<and> (?r = 0 \<longrightarrow> ?rest = []) \<and> ?data = take (nat ?r) ?rest"
    using assms(3) MAXLINE_pos unfolding delivers_def Let_def by (metis less_numeral_extra(3) not_le)
  have st: "strerror_ok (ee_strerror (env_after e strerror ?w))" using assms(2) by (simp add: env_after_def)
  have m: "0 \<notin> set (bytes_of ''read error'')" "length (bytes_of ''read error'') < ERR_BUFFER_SIZE"
    by (simp_all add: bytes_of_def ERR_BUFFER_SIZE_def)
  consider "?r = - 1" | "?r = 0" | "0 < ?r" using r(1) by linarith
  then show ?case
  proof cases
    case 1
    then have "daytime_loop e strerror fd buf out w = Some (Exits 1 (err_line (env_after e strerror ?w) True (bytes_of ''read error'')))"
      by (subst daytime_loop.simps) (simp add: checked_call_def Read_def not_minus_one_def Let_def err_sys_exits [OF st m, unfolded 1])
    then show ?thesis by blast
  next
    case 2
    then show ?thesis using d
      by (subst daytime_loop.simps, intro disjI1 exI [of _ ?w]) (simp add: checked_call_def Read_def not_minus_one_def Let_def)
  next
    case 3
    let ?b1 = "?data @ drop (nat ?r) buf"
    have b1: "wr_bytes buf 0 (take (nat ?r) ?data) = Inr ?b1" using r less(2) by (simp add: wr_bytes_ok nat_le_iff)
    obtain x xs where x: "drop (nat ?r) buf = x # xs" using r(2) less(2) by (cases "drop (nat ?r) buf") (auto simp: nat_le_iff)
    have b2: "wr_buf ?b1 ?r 0 = Inr (?data @ 0 # xs)" unfolding x using r(3) 3 by (intro wr_buf_at) simp
    have "0 \<notin> set ?data" using d 3 assms(4) by (auto dest!: in_set_takeD in_set_dropD)
    then have s0: "mem_str (?data @ 0 # xs) = Inr ?data" by (rule mem_str_at)
    have len: "length (?data @ 0 # xs) = MAXLINE_BUF + 1" using less(2) r(2,3) arg_cong [OF x, of length] by (simp add: nat_le_iff)
    have rest: "drop (consumed fd ?w) s = drop (nat ?r) ?rest" by (simp add: add.commute)
    have "0 < nat ?r" "nat ?r \<le> length ?rest" using 3 d by simp_all
    then have "length (drop (consumed fd ?w) s) < length ?rest" unfolding rest by (simp only: length_drop)
    note ih = less(1) [OF this len, of "out @ ?data"]
    have step: "daytime_loop e strerror fd buf out w = daytime_loop e strerror fd (?data @ 0 # xs) (out @ ?data) ?w"
      using 3 b1 b2 s0 by (subst daytime_loop.simps) (simp add: checked_call_def Read_def not_minus_one_def Let_def)
    have "?data = take (nat ?r) ?rest" using d 3 by simp
    then have "?data @ drop (consumed fd ?w) s = ?rest" unfolding rest by (simp only: append_take_drop_id)
    then have "(out @ ?data) @ drop (consumed fd ?w) s = out @ ?rest" by simp
    then show ?thesis using ih unfolding step by simp
  qed
qed

lemma daytime_round_serves:
  assumes "daytime_round e strerror text fd w = Some (Ok w')" "accept_fresh e"
  shows "open_fds w' = open_fds w \<and> (\<exists>connfd. connfd \<notin> open_fds w \<and>
    accepted connfd w' = accepted connfd (tl (tl w')) @ take (MAXLINE_BUF - 1) (take 24 text @ [0x0D, 0x0A]))"
proof -
  obtain connfd w1 where acc: "Accept e strerror fd w = Some (Ok connfd, w1)"
    using assms(1) by (auto simp: daytime_round_def cbind_eq_Ok)
  define buff where "buff = take (MAXLINE_BUF - 1) (take 24 text @ [0x0D, 0x0A])"
  have "daytime_round e strerror text fd w = Some (cbind (checked_call e strerror (\<lambda>v. Write v (length buff)) (SysWrite connfd buff) w1) (\<lambda>(_, w2).
      cbind (checked_call e strerror Close (SysClose connfd) w2) (\<lambda>(_, w3). Ok w3)))"
    by (simp only: daytime_round_def acc option.map prod.case cbind_simps Let_def buff_def)
  then have "cbind (checked_call e strerror (\<lambda>v. Write v (length buff)) (SysWrite connfd buff) w1) (\<lambda>(_, w2).
      cbind (checked_call e strerror Close (SysClose connfd) w2) (\<lambda>(_, w3). Ok w3)) = Ok w'"
    using assms(1) by simp
  then show ?thesis using Accept_opens [OF acc assms(2)] unfolding buff_def [symmetric]
    by (auto simp: cbind_eq_Ok checked_call_eq_Ok Write_def all_of_it_def split: if_splits)
qed

section \<open>Datagrams\<close>

text \<open>A datagram that leaves room for the zero is sent back as it came.\<close>

theorem udp_server_echoes:
  assumes "0 \<le> answer e w (SysSelect (fd + 1))" "w1 = (SysSelect (fd + 1), answer e w (SysSelect (fd + 1))) # w" "can_read e w1 fd"
    and "n = answer e w1 (SysRecvfrom fd MAXLINE_BUF)" "data = data_of e w1 (SysRecvfrom fd MAXLINE_BUF)"
    and "0 < n" "n < int MAXLINE_BUF" "length data = nat n" "length mesg = MAXLINE_BUF"
  shows "\<exists>b r. udp_server_round e fd mesg w = Inr (True, b, (SysSendto fd data, r) # (SysRecvfrom fd MAXLINE_BUF, n) # w1) \<and> length b = MAXLINE_BUF"
proof -
  obtain x xs where x: "drop (nat n) mesg = x # xs" using assms(6,7,9) by (cases "drop (nat n) mesg") auto
  have b1: "wr_bytes mesg 0 (take (nat n) data) = Inr (data @ x # xs)" using assms(6-9) x by (simp add: wr_bytes_ok nat_le_iff)
  have b2: "wr_buf (data @ x # xs) n 0 = Inr (data @ 0 # xs)" using assms(6,8) by (intro wr_buf_at) simp
  have b3: "rd_bytes (data @ 0 # xs) 0 (nat n) = Inr data" using assms(8) by (simp add: rd_bytes_ok)
  have "length (data @ 0 # xs) = MAXLINE_BUF" using assms(7,8,9) arg_cong [OF x, of length] by simp
  then show ?thesis using assms(1,3,6) b1 b2 b3
    by (auto simp: udp_server_round_def Let_def sys_def simp flip: assms(2) simp flip: assms(4,5))
qed

text \<open>A datagram of \<open>MAXLINE\<close> bytes or more fills the array: the zero is written behind it.\<close>

theorem udp_server_overruns:
  assumes "0 \<le> answer e w (SysSelect (fd + 1))" "w1 = (SysSelect (fd + 1), answer e w (SysSelect (fd + 1))) # w" "can_read e w1 fd"
    and "answer e w1 (SysRecvfrom fd MAXLINE_BUF) = int MAXLINE_BUF" "length (data_of e w1 (SysRecvfrom fd MAXLINE_BUF)) = MAXLINE_BUF"
    and "length mesg = MAXLINE_BUF"
  shows "udp_server_round e fd mesg w = Inl OutOfBounds"
proof -
  let ?data = "data_of e w1 (SysRecvfrom fd MAXLINE_BUF)"
  have "wr_bytes mesg 0 (take MAXLINE_BUF ?data) = Inr ?data" using assms(5,6) by (simp add: wr_bytes_ok)
  moreover have "wr_buf ?data (int MAXLINE_BUF) 0 = Inl OutOfBounds" using assms(5) by (simp add: wr_buf_def)
  ultimately show ?thesis using assms(1,3,4) MAXLINE_pos by (simp add: udp_server_round_def Let_def flip: assms(2))
qed

section \<open>Examples\<close>

text \<open>A server that answers with one line.\<close>

definition talk_os :: os where
  "talk_os = pair_os\<lparr>answer := (\<lambda>w c. case c of SysSocket _ _ _ \<Rightarrow> 3 | SysRead fd n \<Rightarrow> int (min n (2 - consumed fd w)) | SysWrite _ bs \<Rightarrow> int (length bs) | _ \<Rightarrow> 0),
     data_of := (\<lambda>w c. case c of SysRead fd n \<Rightarrow> take n (drop (consumed fd w) [0x41, 0x0A]) | _ \<Rightarrow> [])\<rparr>"

lemma talk_os_ok: "os_ok talk_os" "interrupted_once talk_os fd" "strerror_ok (\<lambda>n. [])" "delivers talk_os fd [0x41, 0x0A]"
proof -
  have len: "length (drop k [0x41, 0x0A::byte]) = 2 - k" for k by simp
  show "delivers talk_os fd [0x41, 0x0A]" unfolding delivers_def Let_def talk_os_def by (auto simp: min_def)
  show "os_ok talk_os" using len by (simp add: os_ok_def talk_os_def min_def)
qed (simp_all add: interrupted_once_def talk_os_def strerror_ok_def)

lemma talk_connects:
  "connect_to talk_os (\<lambda>n. []) [9, 9, 9, 9] [[0x61], bytes_of ''1.2.3.4''] ''usage: tcpcli <IPaddress>'' TCP_SERVER_PORT []
    = Ok (3, [(SysConnect 3 8888, 0), (SysSocket 2 1 0, 3)])"
  by code_simp


end
