(* ===== verification/Framebuffer.thy ===== *)
theory Framebuffer
  imports C_System
begin

text \<open>
  The drawing program \<open>demo/framebuff_demo.c\<close>: points, lines, circles and pictures in the mapped memory of the
  frame buffer.  The memory is the list of the mapped bytes.  Floats: what \<open>a * x + b + 0.5f\<close> yields for
  a sloped line is an argument; the quarter of a radius and the comparison of \<open>hypot\<close> with it are exact for radii below
  4096, and so is \<open>sqrt\<close>.  What is printed is left out.
\<close>

record fb_info =
  xres :: u32
  yres :: u32
  bits_per_pixel :: u32
  line_length :: u32

text \<open>The four bytes of a \<open>color_s\<close>, in the order of its fields.\<close>

type_synonym color_s = "byte list"

definition red :: "color_s \<Rightarrow> byte" where "red c = c ! 0"
definition green :: "color_s \<Rightarrow> byte" where "green c = c ! 1"
definition blue :: "color_s \<Rightarrow> byte" where "blue c = c ! 2"
definition alah :: "color_s \<Rightarrow> byte" where "alah c = c ! 3"

definition FBIOGET_VSCREENINFO :: nat where "FBIOGET_VSCREENINFO = 0x4600"
definition FBIOGET_FSCREENINFO :: nat where "FBIOGET_FSCREENINFO = 0x4602"

section \<open>The memory\<close>

text \<open>Sizes and positions are computed with 32 bits.\<close>

definition screensize :: "fb_info \<Rightarrow> nat" where
  "screensize d = unat (xres d * yres d * bits_per_pixel d div 8)"

definition location :: "fb_info \<Rightarrow> int \<Rightarrow> int \<Rightarrow> int" where
  "location d x y = uint (word_of_int x * (bits_per_pixel d div 8) + word_of_int y * line_length d)"

definition put_color :: "color_s \<Rightarrow> int \<Rightarrow> byte list \<Rightarrow> byte list res" where
  "put_color c loc m = wr_bytes m loc [blue c, green c, red c, alah c]"

definition off_screen :: "fb_info \<Rightarrow> int \<Rightarrow> int \<Rightarrow> bool" where
  "off_screen d x y \<longleftrightarrow> x \<le> 0 \<or> uint (xres d) < x \<or> y \<le> 0 \<or> uint (yres d) < y"

text \<open>What every drawing function does around its loop: the device is opened and asked for its data, the coordinates
  are checked, the memory is mapped; only the last return closes the device.\<close>

definition fb_session :: "os \<Rightarrow> fb_info \<Rightarrow> bool \<Rightarrow> (byte list \<Rightarrow> byte list res) \<Rightarrow> byte list \<Rightarrow> world \<Rightarrow> (byte list \<times> world) res" where
  "fb_session e d ok draw m w =
     (let (fp, w1) = sys e (SysOpen (bytes_of ''/dev/fb0'')) w in
      if fp < 0 then Inr (m, w1) else
      let (r, w2) = sys e (SysIoctl fp FBIOGET_FSCREENINFO) w1 in
      if r \<noteq> 0 then Inr (m, w2) else
      let (r, w3) = sys e (SysIoctl fp FBIOGET_VSCREENINFO) w2 in
      if r \<noteq> 0 then Inr (m, w3) else
      if \<not> ok then Inr (m, w3) else
      let (r, w4) = sys e (SysMmap fp (screensize d)) w3 in
      if r = - 1 then Inr (m, w4) else
      rmap (\<lambda>m1. (m1, snd (sys e (SysClose fp) w4))) (draw m))"

definition info_print :: "os \<Rightarrow> world \<Rightarrow> world" where
  "info_print e w =
     (let (fp, w1) = sys e (SysOpen (bytes_of ''/dev/fb0'')) w in
      if fp < 0 then w1 else
      let (r, w2) = sys e (SysIoctl fp FBIOGET_FSCREENINFO) w1 in
      if r \<noteq> 0 then w2 else
      let (r, w3) = sys e (SysIoctl fp FBIOGET_VSCREENINFO) w2 in
      if r \<noteq> 0 then w3 else snd (sys e (SysClose fp) w3))"

section \<open>Shapes\<close>

definition clear_loop :: "color_s \<Rightarrow> nat \<Rightarrow> byte list \<Rightarrow> byte list res" where
  "clear_loop c n = for_each (\<lambda>k. put_color c (int (4 * k))) [0..<(n + 3) div 4]"

definition clear :: "os \<Rightarrow> fb_info \<Rightarrow> color_s \<Rightarrow> byte list \<Rightarrow> world \<Rightarrow> (byte list \<times> world) res" where
  "clear e d c = fb_session e d True (clear_loop c (screensize d))"

definition draw_point :: "os \<Rightarrow> fb_info \<Rightarrow> int \<Rightarrow> int \<Rightarrow> color_s \<Rightarrow> byte list \<Rightarrow> world \<Rightarrow> (byte list \<times> world) res" where
  "draw_point e d x y c = fb_session e d (\<not> off_screen d x y) (put_color c (location d (x - 1) (y - 1)))"

text \<open>The values of a loop variable that runs from \<open>a\<close> to \<open>b\<close>, up or down.\<close>

definition to_end :: "int \<Rightarrow> int \<Rightarrow> int list" where
  "to_end a b = (if a < b then [a..b] else rev [b..a])"

text \<open>\<open>line_y x\<close> is the value of \<open>(long)(a * x + b + 0.5f)\<close>.\<close>

definition clamp_y :: "fb_info \<Rightarrow> int \<Rightarrow> int" where
  "clamp_y d y = (let y1 = if y < 0 then 0 else y in if uint (yres d) < y1 then uint (yres d) else y1)"

definition line_pixels :: "fb_info \<Rightarrow> (int \<Rightarrow> int) \<Rightarrow> int \<Rightarrow> int \<Rightarrow> int \<Rightarrow> int \<Rightarrow> (int \<times> int) list" where
  "line_pixels d line_y start_x start_y end_x end_y =
     (if start_x = end_x then map (\<lambda>y. (start_x, y)) (to_end start_y end_y)
      else if start_y = end_y then map (\<lambda>x. (x, start_y)) (to_end start_x end_x)
      else map (\<lambda>x. (x, clamp_y d (line_y x))) (to_end start_x end_x))"

definition draw_line :: "os \<Rightarrow> fb_info \<Rightarrow> (int \<Rightarrow> int) \<Rightarrow> int \<Rightarrow> int \<Rightarrow> int \<Rightarrow> int \<Rightarrow> color_s \<Rightarrow> byte list \<Rightarrow> world \<Rightarrow> (byte list \<times> world) res" where
  "draw_line e d line_y start_x start_y end_x end_y c =
     fb_session e d (\<not> off_screen d start_x start_y \<and> \<not> off_screen d end_x end_y)
       (for_each (\<lambda>(x, y). put_color c (location d x y)) (line_pixels d line_y (start_x - 1) (start_y - 1) (end_x - 1) (end_y - 1)))"

section \<open>Circles\<close>

definition inside :: "int \<Rightarrow> int \<Rightarrow> int \<Rightarrow> bool" where
  "inside r dx dy \<longleftrightarrow> dx * dx + dy * dy < r * r"

text \<open>The inner loop over the second coordinate, here called \<open>v\<close>: the first value inside the circle is drawn one step
  back, and so is its mirror image, which ends the loop.  \<open>put\<close> draws at \<open>v\<close>.\<close>

function circle_scan :: "(int \<Rightarrow> byte list \<Rightarrow> byte list res) \<Rightarrow> int \<Rightarrow> (int \<Rightarrow> bool) \<Rightarrow> int \<Rightarrow> int \<Rightarrow> byte list \<Rightarrow> byte list res" where
  "circle_scan put res is_in center v m =
     (if v \<le> center
      then if is_in v
           then if 0 < v \<and> v \<le> res
                then rbind (put (v - 1) m) (\<lambda>m1.
                     let v1 = (v - 1) + (center - (v - 1)) * 2 in
                     rbind (if 0 \<le> v1 \<and> v1 < res then put v1 m1 else Inr m1) (circle_scan put res is_in center (v1 + 1)))
                else let v1 = v + (center - v) * 2 in if 0 \<le> v1 \<and> v1 < res then put v1 m else Inr m
           else circle_scan put res is_in center (v + 1) m
      else Inr m)"
  by pat_completeness auto
termination by (relation "measure (\<lambda>(put, res, is_in, center, v, m). nat (center - v + 1))") auto

declare circle_scan.simps [simp del]

text \<open>The values from \<open>start + r * 1.0f / 4\<close>, cut to an integer, to \<open>start + r * 7.0f / 4\<close>.\<close>

definition middle :: "int \<Rightarrow> int \<Rightarrow> int list" where
  "middle start r = (let q = 4 * start + r in [(if q < 0 then - ((- q) div 4) else q div 4)..(4 * start + 7 * r) div 4])"

definition circle_loops :: "fb_info \<Rightarrow> int \<Rightarrow> int \<Rightarrow> int \<Rightarrow> color_s \<Rightarrow> byte list \<Rightarrow> byte list res" where
  "circle_loops d px py r c m =
     rbind (for_each (\<lambda>x m. if x < 0 \<or> uint (xres d) \<le> x then Inr m
                            else circle_scan (\<lambda>y. put_color c (location d x y)) (uint (yres d)) (\<lambda>y. inside r (x - px) (y - py)) py (py - r) m)
              (middle (px - r) r) m)
       (for_each (\<lambda>y m. if y < 0 \<or> uint (yres d) \<le> y then Inr m
                        else circle_scan (\<lambda>x. put_color c (location d x y)) (uint (xres d)) (\<lambda>x. inside r (x - px) (y - py)) px (px - r) m)
          (middle (py - r) r))"

definition draw_circle :: "os \<Rightarrow> fb_info \<Rightarrow> int \<Rightarrow> int \<Rightarrow> int \<Rightarrow> color_s \<Rightarrow> byte list \<Rightarrow> world \<Rightarrow> (byte list \<times> world) res" where
  "draw_circle e d px py r c = fb_session e d (\<not> off_screen d px py \<and> 0 < r) (circle_loops d px py r c)"

text \<open>The integer part of a square root, by counting.\<close>

function isqrt_from :: "nat \<Rightarrow> nat \<Rightarrow> nat" where
  "isqrt_from k n = (if Suc k * Suc k \<le> n then isqrt_from (Suc k) n else k)"
  by pat_completeness auto
termination
proof (relation "measure (\<lambda>(k, n). n - k)")
  fix k n :: nat assume "Suc k * Suc k \<le> n"
  moreover have "Suc k \<le> Suc k * Suc k" by simp
  ultimately have "k < n" by linarith
  then show "((Suc k, n), (k, n)) \<in> measure (\<lambda>(k, n). n - k)" by simp
qed simp

declare isqrt_from.simps [simp del]

definition on_screen :: "fb_info \<Rightarrow> int \<Rightarrow> int \<Rightarrow> bool" where
  "on_screen d x y \<longleftrightarrow> \<not> (x < 0 \<or> uint (xres d) \<le> x \<or> y < 0 \<or> uint (yres d) \<le> y)"

text \<open>The second version: when the lower point is off the screen the upper one is not drawn either.\<close>

definition circle_1_column :: "fb_info \<Rightarrow> int \<Rightarrow> int \<Rightarrow> int \<Rightarrow> color_s \<Rightarrow> int \<Rightarrow> byte list \<Rightarrow> byte list res" where
  "circle_1_column d px py r c x m =
     (let k = int (isqrt_from 0 (nat (r * r - (x - px) * (x - px)))) in
      if \<not> on_screen d x (py + k) then Inr m
      else rbind (put_color c (location d x (py + k)) m) (\<lambda>m1.
           if \<not> on_screen d x (py - k) then Inr m1 else put_color c (location d x (py - k)) m1))"

definition draw_circle_1 :: "os \<Rightarrow> fb_info \<Rightarrow> int \<Rightarrow> int \<Rightarrow> int \<Rightarrow> color_s \<Rightarrow> byte list \<Rightarrow> world \<Rightarrow> (byte list \<times> world) res" where
  "draw_circle_1 e d px py r c = fb_session e d (\<not> off_screen d px py \<and> 0 < r)
     (for_each (circle_1_column d (px - 1) (py - 1) r c) [px - 1 - r..px - 1 + r])"

section \<open>Pictures\<close>

text \<open>The rows are drawn from the bytes of the file, \<open>n\<close> for a pixel; a piece that is cut off by the end of the file
  is skipped.  \<open>tail\<close> is what follows the bytes of a pixel in memory.  None: the file cannot be opened.\<close>

fun pic_pixels :: "fb_info \<Rightarrow> nat \<Rightarrow> byte list \<Rightarrow> (int \<times> int) list \<Rightarrow> byte list \<Rightarrow> byte list \<Rightarrow> byte list res" where
  "pic_pixels d n tail [] bytes m = Inr m"
| "pic_pixels d n tail ((x, y) # ps) bytes m =
     (let rbg = take n bytes in
      rbind (if length rbg = n then wr_bytes m (location d x y) (rbg @ tail) else Inr m) (pic_pixels d n tail ps (drop n bytes)))"

definition draw_pic :: "os \<Rightarrow> fb_info \<Rightarrow> int \<Rightarrow> int \<Rightarrow> int \<Rightarrow> int \<Rightarrow> byte list option \<Rightarrow> byte list \<Rightarrow> world \<Rightarrow> (byte list \<times> world) res" where
  "draw_pic e d x y width height pic = fb_session e d (\<not> off_screen d x y) (\<lambda>m.
     case pic of None \<Rightarrow> Inr m
     | Some bytes \<Rightarrow> let x1 = x - 1; x2 = x1 - 1 in
         pic_pixels d 4 [] (concat (map (\<lambda>i. map (\<lambda>j. (x2 + j, y + i)) [0..width - 1]) [0..height - 1])) bytes m)"

definition draw_bmp :: "os \<Rightarrow> fb_info \<Rightarrow> int \<Rightarrow> int \<Rightarrow> int \<Rightarrow> int \<Rightarrow> byte list option \<Rightarrow> byte list \<Rightarrow> world \<Rightarrow> (byte list \<times> world) res" where
  "draw_bmp e d x y width height pic = fb_session e d (\<not> off_screen d x y) (\<lambda>m.
     case pic of None \<Rightarrow> Inr m
     | Some bytes \<Rightarrow> let x1 = x - 1; x2 = x1 - 1 in
         pic_pixels d 3 [0] (concat (map (\<lambda>i. map (\<lambda>j. (x2 + j, y + i)) [0..width - 1]) (rev [0..height]))) bytes m)"

section \<open>Commands\<close>

definition int_bytes :: "int \<Rightarrow> byte list" where
  "int_bytes v = [word_of_int v, word_of_int (v div 2 ^ 8), word_of_int (v div 2 ^ 16), word_of_int (v div 2 ^ 24)]"

record fb_state =
  fb_color :: color_s
  fb_mem :: "byte list"
  fb_world :: world

text \<open>The files that the commands \<open>pic\<close> and \<open>bmp\<close> show.\<close>

record fb_files =
  pic_data :: "byte list option"
  pic_bmp :: "byte list option"

definition fb_draw :: "fb_state \<Rightarrow> (byte list \<Rightarrow> world \<Rightarrow> (byte list \<times> world) res) \<Rightarrow> fb_state res" where
  "fb_draw st draw = rmap (\<lambda>(m, w). st\<lparr>fb_mem := m, fb_world := w\<rparr>) (draw (fb_mem st) (fb_world st))"

text \<open>The numbers of \<open>color\<close> are stored as ints at the addresses of three single bytes.\<close>

definition set_color :: "byte list \<Rightarrow> color_s res" where
  "set_color s = (case scan_ints 3 s of
       [] \<Rightarrow> Inr [0, 0, 0, 0]
     | [r] \<Rightarrow> wr_bytes [0, 0, 0, 0] 0 (int_bytes r)
     | [r, g] \<Rightarrow> rbind (wr_bytes [0, 0, 0, 0] 0 (int_bytes r)) (\<lambda>c. wr_bytes c 1 (int_bytes g))
     | r # g # b # _ \<Rightarrow> rbind (wr_bytes [0, 0, 0, 0] 0 (int_bytes r)) (\<lambda>c. rbind (wr_bytes c 1 (int_bytes g)) (\<lambda>c. wr_bytes c 2 (int_bytes b))))"

text \<open>One turn of the loop of \<open>main\<close>: whether it goes on.  \<open>cmd\<close> is the line in its array of 100 bytes, without the zeros
  behind it; \<open>junk\<close> holds what the four variables of a command hold before.\<close>

definition starts_with :: "string \<Rightarrow> byte list \<Rightarrow> bool" where
  "starts_with p cmd \<longleftrightarrow> take (length p) cmd = bytes_of p"

definition fb_command :: "os \<Rightarrow> fb_info \<Rightarrow> (int \<Rightarrow> int) \<Rightarrow> fb_files \<Rightarrow> int list \<Rightarrow> byte list \<Rightarrow> fb_state \<Rightarrow> (bool \<times> fb_state) res" where
  "fb_command e d line_y files junk cmd st =
     (let black = [0, 0, 0, 0]; c = fb_color st in
      if starts_with ''color'' cmd then rmap (\<lambda>c1. (True, st\<lparr>fb_color := c1\<rparr>)) (set_color (drop 6 cmd))
      else if starts_with ''clear'' cmd then rmap (Pair True) (fb_draw st (clear e d black))
      else if starts_with ''point'' cmd
      then let v = scan_into (take 2 junk) (drop 6 cmd) in rmap (Pair True) (fb_draw st (draw_point e d (v ! 0) (v ! 1) c))
      else if starts_with ''line'' cmd
      then let v = scan_into junk (drop 5 cmd) in rmap (Pair True) (fb_draw st (draw_line e d line_y (v ! 0) (v ! 1) (v ! 2) (v ! 3) c))
      else if starts_with ''circle'' cmd
      then let v = scan_into (take 3 junk) (drop 7 cmd) in rmap (Pair True) (fb_draw st (draw_circle e d (v ! 0) (v ! 1) (v ! 2) c))
      else if starts_with ''pic'' cmd
      then let v = scan_into junk (drop 4 cmd) in
           rbind (fb_draw st (clear e d black)) (\<lambda>st1.
           rmap (Pair True) (fb_draw st1 (draw_pic e d (v ! 0) (v ! 1) (v ! 2) (v ! 3) (pic_data files))))
      else if starts_with ''bmp'' cmd
      then let v = scan_into junk (drop 4 cmd) in
           rbind (fb_draw st (clear e d black)) (\<lambda>st1.
           rmap (Pair True) (fb_draw st1 (draw_bmp e d (v ! 0) (v ! 1) (v ! 2) (v ! 3) (pic_bmp files))))
      else Inr (\<not> (starts_with ''exit'' cmd \<or> starts_with ''q'' cmd), st))"

fun fb_commands :: "os \<Rightarrow> fb_info \<Rightarrow> (int \<Rightarrow> int) \<Rightarrow> fb_files \<Rightarrow> int list \<Rightarrow> byte list list \<Rightarrow> fb_state \<Rightarrow> fb_state res" where
  "fb_commands e d line_y files junk [] st = Inr st"
| "fb_commands e d line_y files junk (cmd # cmds) st =
     rbind (fb_command e d line_y files junk cmd st) (\<lambda>(go_on, st1).
     if go_on then fb_commands e d line_y files junk cmds st1 else Inr st1)"

end
