(* ===== verification/Framebuffer_Properties.thy ===== *)
theory Framebuffer_Properties
  imports Framebuffer
begin

text \<open>
  What is proved of the drawing program: on a device with 32 bits per pixel and rows without gaps every shape but
  the pictures stays inside the mapped memory, points and straight lines colour exactly their pixels, and
  clearing colours all of them.
\<close>

section \<open>The screen\<close>

text \<open>The device: four bytes per pixel, one row behind the other, less than four gigabytes.\<close>

definition fb_ok :: "fb_info \<Rightarrow> bool" where
  "fb_ok d \<longleftrightarrow> bits_per_pixel d = 32 \<and> uint (line_length d) = 4 * uint (xres d) \<and> 32 * uint (xres d) * uint (yres d) < 2 ^ 32"

definition bytes_of_color :: "color_s \<Rightarrow> byte list" where
  "bytes_of_color c = [blue c, green c, red c, alah c]"

lemma length_bytes_of_color [simp]: "length (bytes_of_color c) = 4"
  by (simp add: bytes_of_color_def)

lemma screensize_ok:
  assumes "fb_ok d"
  shows "int (screensize d) = 4 * uint (xres d) * uint (yres d)"
proof -
  let ?X = "uint (xres d)" and ?Y = "uint (yres d)"
  have b: "32 * ?X * ?Y < 2 ^ 32" "bits_per_pixel d = 32" using assms by (simp_all add: fb_ok_def)
  have "0 \<le> ?X * ?Y" by simp
  then have xy: "uint (xres d * yres d) = ?X * ?Y" using b(1) by (simp add: uint_word_ariths)
  have "uint (xres d * yres d * bits_per_pixel d) = ?X * ?Y * 32"
    using b \<open>0 \<le> ?X * ?Y\<close> xy by (simp add: uint_word_ariths(3) [of "xres d * yres d"])
  then have "uint (xres d * yres d * bits_per_pixel d div 8) = 4 * ?X * ?Y" by (simp add: uint_div)
  then show ?thesis by (simp add: screensize_def)
qed

lemma quarter_below: "a < b \<Longrightarrow> 0 \<le> a \<Longrightarrow> 32 * b < n \<Longrightarrow> 4 * a < (n::int)"
  by linarith

lemma location_ok:
  assumes "fb_ok d" "on_screen d x y"
  shows "location d x y = 4 * (y * uint (xres d) + x)"
    and "0 \<le> y * uint (xres d) + x" "y * uint (xres d) + x < uint (xres d) * uint (yres d)"
proof -
  let ?X = "uint (xres d)" and ?Y = "uint (yres d)"
  have b: "bits_per_pixel d = 32" "uint (line_length d) = 4 * ?X" "32 * ?X * ?Y < 2 ^ 32" using assms(1) by (simp_all add: fb_ok_def)
  have r: "0 \<le> x" "x < ?X" "0 \<le> y" "y < ?Y" using assms(2) by (simp_all add: on_screen_def)
  show pos: "0 \<le> y * ?X + x" using r by simp
  have "y * ?X \<le> (?Y - 1) * ?X" using r by (intro mult_right_mono) simp_all
  then have lt: "y * ?X + x < ?X * ?Y" using r(2) by (simp add: algebra_simps)
  then show "y * ?X + x < ?X * ?Y" .
  have sum: "4 * (y * ?X + x) < 2 ^ 32" using lt pos b(3) by (intro quarter_below [of _ "?X * ?Y"]) (simp_all add: mult.assoc)
  have "bits_per_pixel d div 8 = 4" unfolding b(1) by simp
  then have "location d x y = (x mod 2 ^ 32 * 4 mod 2 ^ 32 + y mod 2 ^ 32 * (4 * ?X) mod 2 ^ 32) mod 2 ^ 32"
    by (simp add: location_def uint_word_ariths b(2) uint_word_of_int)
  also have "\<dots> = (x * 4 + y * (4 * ?X)) mod 2 ^ 32" by (simp add: mod_simps)
  also have "\<dots> = 4 * (y * ?X + x)" using sum pos by (simp add: algebra_simps)
  finally show "location d x y = 4 * (y * ?X + x)" .
qed

definition pixel :: "fb_info \<Rightarrow> byte list \<Rightarrow> int \<times> int \<Rightarrow> byte list" where
  "pixel d m p = (case p of (x, y) \<Rightarrow> take 4 (drop (nat (4 * (y * uint (xres d) + x))) m))"

text \<open>The picture that the memory holds.\<close>

definition screen :: "fb_info \<Rightarrow> byte list \<Rightarrow> int \<times> int \<Rightarrow> byte list option" where
  "screen d m p = (if on_screen d (fst p) (snd p) then Some (pixel d m p) else None)"

lemma take_drop_write:
  assumes "length bs = 4" "4 * k + 4 \<le> length m"
  shows "take 4 (drop (4 * j) (take (4 * k) m @ bs @ drop (4 * k + 4) m)) = (if j = k then bs else take 4 (drop (4 * j) m))"
proof -
  consider "j = k" | "j < k" | "k < j" by linarith
  then show ?thesis
  proof cases
    case 1
    then show ?thesis using assms by simp
  next
    case 2
    then have "4 * j + 4 \<le> 4 * k" by simp
    then show ?thesis using 2 assms by (intro nth_equalityI) (auto simp: nth_append)
  next
    case 3
    then have "4 * k + 4 \<le> 4 * j" by simp
    then have "drop (4 * j) (take (4 * k) m @ bs @ drop (4 * k + 4) m) = drop (4 * j) m" using assms by (simp add: drop_append)
    then show ?thesis using 3 by simp
  qed
qed

lemma on_screen_inj:
  assumes "on_screen d x y" "on_screen d x' y'" "y * uint (xres d) + x = y' * uint (xres d) + x'"
  shows "x = x' \<and> y = y'"
proof -
  let ?X = "uint (xres d)"
  have r: "0 \<le> x" "x < ?X" "0 \<le> x'" "x' < ?X" using assms(1,2) by (simp_all add: on_screen_def)
  have "(y * ?X + x) mod ?X = x" "(y' * ?X + x') mod ?X = x'" using r by simp_all
  then have "x = x'" using assms(3) by simp
  moreover have "y = y'" using assms(3) r calculation by simp
  ultimately show ?thesis by simp
qed

lemma write_pixel:
  assumes "fb_ok d" "length m = screensize d" "on_screen d x y" "length bs = 4"
  shows "\<exists>m'. wr_bytes m (location d x y) bs = Inr m' \<and> length m' = screensize d \<and> screen d m' = (screen d m)((x, y) := Some bs)"
proof -
  let ?X = "uint (xres d)"
  define k where "k = nat (y * ?X + x)"
  note loc = location_ok [OF assms(1,3)]
  have l: "location d x y = int (4 * k)" "4 * k + 4 \<le> length m"
    using loc screensize_ok [OF assms(1)] assms(2) by (simp_all add: k_def)
  let ?m = "take (4 * k) m @ bs @ drop (4 * k + 4) m"
  have w: "wr_bytes m (location d x y) bs = Inr ?m" using l assms(4) by (simp add: wr_bytes_ok nat_mult_distrib)
  have "screen d ?m (u, v) = ((screen d m)((x, y) := Some bs)) (u, v)" for u v
  proof (cases "on_screen d u v")
    case True
    define j where "j = nat (v * ?X + u)"
    have pos: "0 \<le> v * ?X + u" by (rule location_ok(2) [OF assms(1) True])
    then have j: "nat (4 * (v * ?X + u)) = 4 * j" by (simp add: j_def nat_mult_distrib)
    have "j = k \<longleftrightarrow> (u, v) = (x, y)" using on_screen_inj [OF True assms(3)] pos loc(2) by (auto simp: j_def k_def)
    moreover have "pixel d n (u, v) = take 4 (drop (4 * j) n)" for n by (simp only: pixel_def prod.case j)
    ultimately have "pixel d ?m (u, v) = (if (u, v) = (x, y) then bs else pixel d m (u, v))" using take_drop_write [OF assms(4) l(2), of j] by metis
    then show ?thesis using True by (cases "(u, v) = (x, y)") (simp_all only: assms(3) refl screen_def fst_conv snd_conv if_True if_False fun_upd_def)
  qed (use assms(3) in \<open>auto simp: screen_def\<close>)
  moreover have "length ?m = screensize d" using l(2) assms(2,4) by simp
  ultimately show ?thesis using w by (intro exI [of _ ?m]) (auto simp: fun_eq_iff)
qed

lemma put_color_pixel:
  assumes "fb_ok d" "length m = screensize d" "on_screen d x y"
  shows "\<exists>m'. put_color c (location d x y) m = Inr m' \<and> length m' = screensize d \<and> screen d m' = (screen d m)((x, y) := Some (bytes_of_color c))"
  using write_pixel [OF assms, of "bytes_of_color c"] by (simp add: put_color_def bytes_of_color_def)

lemma draw_pixels:
  assumes "fb_ok d" "\<forall>(x, y)\<in>set ps. on_screen d x y"
  shows "length m = screensize d \<Longrightarrow> \<exists>m'. for_each (\<lambda>(x, y). put_color c (location d x y)) ps m = Inr m' \<and> length m' = screensize d \<and>
    screen d m' = (\<lambda>p. if p \<in> set ps then Some (bytes_of_color c) else screen d m p)"
  using assms(2)
proof (induction ps arbitrary: m)
  case (Cons p ps)
  obtain x y where p: "p = (x, y)" by (cases p)
  have on: "on_screen d x y" using Cons.prems(2) p by simp
  obtain m1 where m1: "put_color c (location d x y) m = Inr m1" "length m1 = screensize d" "screen d m1 = (screen d m)((x, y) := Some (bytes_of_color c))"
    using put_color_pixel [OF assms(1) Cons.prems(1) on] by blast
  obtain m2 where m2: "for_each (\<lambda>(x, y). put_color c (location d x y)) ps m1 = Inr m2" "length m2 = screensize d"
    "screen d m2 = (\<lambda>p. if p \<in> set ps then Some (bytes_of_color c) else screen d m1 p)"
    using Cons.IH [OF m1(2)] Cons.prems(2) by auto
  show ?case using m1 m2 by (intro exI [of _ m2]) (auto simp: p fun_eq_iff)
qed simp

section \<open>Points and lines\<close>

lemma off_screen_shift: "\<not> off_screen d x y \<longleftrightarrow> on_screen d (x - 1) (y - 1)"
  by (auto simp: off_screen_def on_screen_def)

lemma set_to_end: "set (to_end a b) = {min a b..max a b}"
  by (auto simp: to_end_def)

text \<open>A call that ends in the drawing itself.\<close>

definition fb_runs :: "os \<Rightarrow> fb_info \<Rightarrow> world \<Rightarrow> bool" where
  "fb_runs e d w \<longleftrightarrow>
     (let (fp, w1) = sys e (SysOpen (bytes_of ''/dev/fb0'')) w; (r1, w2) = sys e (SysIoctl fp FBIOGET_FSCREENINFO) w1;
          (r2, w3) = sys e (SysIoctl fp FBIOGET_VSCREENINFO) w2; (r3, w4) = sys e (SysMmap fp (screensize d)) w3 in
      0 \<le> fp \<and> r1 = 0 \<and> r2 = 0 \<and> r3 \<noteq> - 1)"

lemma fb_session_draws:
  assumes "fb_runs e d w" "ok" "draw m = Inr m'"
  shows "\<exists>w'. fb_session e d ok draw m w = Inr (m', w')"
  using assms by (auto simp: fb_runs_def fb_session_def sys_def Let_def)

lemma fb_session_cases:
  assumes "ok \<Longrightarrow> \<exists>m'. draw m = Inr m' \<and> P m'" "P m"
  shows "\<exists>m' w'. fb_session e d ok draw m w = Inr (m', w') \<and> P m'"
  using assms by (auto simp: fb_session_def sys_def Let_def)

text \<open>A segment of a column or a row.\<close>

definition segment :: "int \<Rightarrow> int \<Rightarrow> int \<Rightarrow> int \<Rightarrow> (int \<times> int) set" where
  "segment x1 y1 x2 y2 = {min x1 x2..max x1 x2} \<times> {min y1 y2..max y1 y2}"

lemma straight_line_pixels:
  assumes "x1 = x2 \<or> y1 = y2"
  shows "set (line_pixels d line_y x1 y1 x2 y2) = segment x1 y1 x2 y2"
  using assms by (auto simp: line_pixels_def segment_def set_to_end)

lemma segment_on_screen:
  assumes "on_screen d x1 y1" "on_screen d x2 y2" "(x, y) \<in> segment x1 y1 x2 y2"
  shows "on_screen d x y"
  using assms by (auto simp: on_screen_def segment_def)

text \<open>C24: A vertical or horizontal line whose ends are on the screen colours exactly the pixels from one end to
  the other, whichever end comes first, and a point is such a line; the rest of the screen is left as it was.  With an
  end off the screen nothing is drawn.\<close>

theorem draw_line_refines:
  assumes "fb_ok d" "length m = screensize d" "fb_runs e d w" "x1 = x2 \<or> y1 = y2"
  shows "\<exists>m' w'. draw_line e d line_y x1 y1 x2 y2 c m w = Inr (m', w') \<and> length m' = screensize d \<and>
    screen d m' = (if off_screen d x1 y1 \<or> off_screen d x2 y2 then screen d m
      else (\<lambda>p. if p \<in> segment (x1 - 1) (y1 - 1) (x2 - 1) (y2 - 1) then Some (bytes_of_color c) else screen d m p)) \<and>
    (x1 = x2 \<and> y1 = y2 \<longrightarrow> (\<exists>w''. draw_point e d x1 y1 c m w = Inr (m', w'')))"
proof (cases "off_screen d x1 y1 \<or> off_screen d x2 y2")
  case True
  then show ?thesis using assms(2,3)
    by (auto simp: draw_line_def draw_point_def fb_session_def fb_runs_def sys_def Let_def)
next
  case False
  let ?ps = "line_pixels d line_y (x1 - 1) (y1 - 1) (x2 - 1) (y2 - 1)"
  have straight: "x1 - 1 = x2 - 1 \<or> y1 - 1 = y2 - 1" using assms(4) by auto
  have on: "\<forall>(x, y)\<in>set ?ps. on_screen d x y"
    using False segment_on_screen [of d "x1 - 1" "y1 - 1" "x2 - 1" "y2 - 1"] off_screen_shift
    unfolding straight_line_pixels [OF straight] by blast
  obtain m' where m': "for_each (\<lambda>(x, y). put_color c (location d x y)) ?ps m = Inr m'" "length m' = screensize d"
    "screen d m' = (\<lambda>p. if p \<in> set ?ps then Some (bytes_of_color c) else screen d m p)"
    using draw_pixels [OF assms(1) on assms(2)] by blast
  have ok: "\<not> off_screen d x1 y1 \<and> \<not> off_screen d x2 y2" using False by simp
  obtain w' where "draw_line e d line_y x1 y1 x2 y2 c m w = Inr (m', w')"
    using fb_session_draws [where draw = "for_each (\<lambda>(x, y). put_color c (location d x y)) ?ps", OF assms(3) ok m'(1)]
    by (auto simp: draw_line_def)
  moreover have "\<exists>w''. draw_point e d x1 y1 c m w = Inr (m', w'')" if "x1 = x2 \<and> y1 = y2"
  proof -
    have "?ps = [(x1 - 1, y1 - 1)]" using that by (simp add: line_pixels_def to_end_def)
    then have "put_color c (location d (x1 - 1) (y1 - 1)) m = Inr m'" using m'(1) by (simp add: rbind_eq_Inr)
    then show ?thesis using fb_session_draws [OF assms(3), of "\<not> off_screen d x1 y1"] ok by (simp add: draw_point_def)
  qed
  ultimately show ?thesis using m'(2,3) False straight_line_pixels [OF straight] by auto
qed

section \<open>Drawing that stays on the screen\<close>

definition paints :: "fb_info \<Rightarrow> color_s \<Rightarrow> (byte list \<Rightarrow> byte list res) \<Rightarrow> bool" where
  "paints d c draw \<longleftrightarrow> (\<forall>m. length m = screensize d \<longrightarrow> (\<exists>m'. draw m = Inr m' \<and> length m' = screensize d \<and>
     (\<forall>p. screen d m' p = screen d m p \<or> screen d m' p = Some (bytes_of_color c))))"

lemma paints_Inr: "paints d c Inr"
  by (simp add: paints_def)

lemma paints_put: "fb_ok d \<Longrightarrow> on_screen d x y \<Longrightarrow> paints d c (put_color c (location d x y))"
  unfolding paints_def using put_color_pixel by (metis fun_upd_apply)

lemma paints_rbind:
  assumes "paints d c f" "paints d c g"
  shows "paints d c (\<lambda>m. rbind (f m) g)"
  unfolding paints_def
proof (intro allI impI)
  fix m :: "byte list" assume m: "length m = screensize d"
  obtain m1 where m1: "f m = Inr m1" "length m1 = screensize d" "\<forall>p. screen d m1 p = screen d m p \<or> screen d m1 p = Some (bytes_of_color c)"
    using assms(1) m unfolding paints_def by blast
  obtain m2 where "g m1 = Inr m2" "length m2 = screensize d" "\<forall>p. screen d m2 p = screen d m1 p \<or> screen d m2 p = Some (bytes_of_color c)"
    using assms(2) m1(2) unfolding paints_def by blast
  then show "\<exists>m'. rbind (f m) g = Inr m' \<and> length m' = screensize d \<and>
      (\<forall>p. screen d m' p = screen d m p \<or> screen d m' p = Some (bytes_of_color c))" using m1 by (simp only: rbind_simps) metis
qed

lemma paints_for_each: "(\<And>x. x \<in> set xs \<Longrightarrow> paints d c (f x)) \<Longrightarrow> paints d c (for_each f xs)"
proof (induction xs)
  case Nil
  show ?case by (simp add: paints_def)
next
  case (Cons x xs)
  then have "paints d c (\<lambda>m. rbind (f x m) (for_each f xs))" by (intro paints_rbind) auto
  then show ?case by (simp add: paints_def)
qed

lemma paints_if: "(b \<Longrightarrow> paints d c f) \<Longrightarrow> (\<not> b \<Longrightarrow> paints d c g) \<Longrightarrow> paints d c (\<lambda>m. if b then f m else g m)"
  by (simp add: paints_def)

text \<open>Clearing.\<close>

lemma clear_from:
  "i \<le> n \<Longrightarrow> length rest = 4 * (n - i) \<Longrightarrow>
   for_each (\<lambda>k. put_color c (int (4 * k))) [i..<n] (concat (replicate i (bytes_of_color c)) @ rest) = Inr (concat (replicate n (bytes_of_color c)))"
proof (induction "n - i" arbitrary: i rest)
  case (Suc k)
  let ?col = "bytes_of_color c"
  have i: "i < n" using Suc.hyps(2) by simp
  have pos: "length (concat (replicate i ?col)) = 4 * i" by (induction i) simp_all
  have "4 \<le> length rest" using Suc.prems(2) i by simp
  then have "wr_bytes (concat (replicate i ?col) @ take 4 rest @ drop 4 rest) (int (4 * i)) ?col = Inr (concat (replicate i ?col) @ ?col @ drop 4 rest)"
    using pos by (intro wr_bytes_append) simp_all
  then have put: "put_color c (int (4 * i)) (concat (replicate i ?col) @ rest) = Inr (concat (replicate (Suc i) ?col) @ drop 4 rest)"
    by (simp add: put_color_def bytes_of_color_def replicate_append_same [symmetric])
  have "for_each (\<lambda>k. put_color c (int (4 * k))) [Suc i..<n] (concat (replicate (Suc i) ?col) @ drop 4 rest) = Inr (concat (replicate n ?col))"
    by (rule Suc.hyps(1)) (use Suc.hyps(2) Suc.prems(2) i in auto)
  then show ?case using put i by (simp add: upt_conv_Cons)
qed simp

lemma clear_loop_all:
  assumes "fb_ok d" "length m = screensize d"
  shows "\<exists>m'. clear_loop c (screensize d) m = Inr m' \<and> length m' = screensize d \<and>
    screen d m' = (\<lambda>(x, y). if on_screen d x y then Some (bytes_of_color c) else None)"
proof -
  let ?col = "bytes_of_color c"
  define n where "n = nat (uint (xres d) * uint (yres d))"
  have "0 \<le> uint (xres d) * uint (yres d)" by simp
  then have n: "screensize d = 4 * n" "int n = uint (xres d) * uint (yres d)" using screensize_ok [OF assms(1)] by (simp_all add: n_def)
  have "(4 * n + 3) div 4 = n" by simp
  then have run: "clear_loop c (screensize d) m = Inr (concat (replicate n ?col))" using clear_from [of 0 n m c] assms(2) by (simp add: clear_loop_def n(1))
  have len: "length (concat (replicate n ?col)) = 4 * n" by (induction n) simp_all
  have chunk: "take 4 (drop (4 * j) (concat (replicate k ?col))) = ?col" if "j < k" for j k
    using that
  proof (induction j arbitrary: k)
    case 0
    then show ?case by (cases k) simp_all
  next
    case (Suc j)
    then show ?case by (cases k) (simp_all add: drop_append)
  qed
  have "screen d (concat (replicate n ?col)) (x, y) = (if on_screen d x y then Some ?col else None)" for x y
  proof (cases "on_screen d x y")
    case True
    define j where "j = nat (y * uint (xres d) + x)"
    have "0 \<le> y * uint (xres d) + x" "y * uint (xres d) + x < int n" using location_ok(2,3) [OF assms(1) True] n(2) by simp_all
    then have j: "nat (4 * (y * uint (xres d) + x)) = 4 * j" "j < n" by (simp_all add: j_def nat_mult_distrib nat_less_iff)
    show ?thesis using True chunk [OF j(2)] by (simp only: screen_def pixel_def prod.case fst_conv snd_conv j(1) if_True)
  qed (simp add: screen_def)
  then show ?thesis using run len n(1) by (intro exI [of _ "concat (replicate n ?col)"]) (auto simp: fun_eq_iff)
qed

section \<open>Circles and sloped lines\<close>

lemma paints_circle_scan:
  assumes "\<And>v. 0 \<le> v \<Longrightarrow> v < res \<Longrightarrow> paints d c (put v)"
  shows "paints d c (circle_scan put res is_in center v)"
proof -
  have "length m = screensize d \<longrightarrow> (\<exists>m'. circle_scan put res is_in center v m = Inr m' \<and> length m' = screensize d \<and>
     (\<forall>p. screen d m' p = screen d m p \<or> screen d m' p = Some (bytes_of_color c)))" for m
    using assms
  proof (induction put res is_in center v m rule: circle_scan.induct)
    case (1 put res is_in center v m)
    note step = circle_scan.simps [of put res is_in center v m]
    have ended: "circle_scan put res is_in center u = Inr" if "\<not> u \<le> center" for u using that by (simp add: fun_eq_iff circle_scan.simps)
    let ?w = "v + (center - v) * 2" and ?v = "(v - 1) + (center - (v - 1)) * 2"
    have mirror: "paints d c (\<lambda>m. if 0 \<le> u \<and> u < res then put u m else Inr m)" for u
      using "1.prems" by (intro paints_if paints_Inr) auto
    consider "center < v" | "v \<le> center" "\<not> is_in v" | "v \<le> center" "is_in v" "0 < v \<and> v \<le> res" | "v \<le> center" "is_in v" "\<not> (0 < v \<and> v \<le> res)" by linarith
    then show ?case
    proof cases
      case 1
      then show ?thesis by (simp add: step)
    next
      case 2
      then show ?thesis using "1.IH"(2) "1.prems" by (simp add: step)
    next
      case 3
      have "paints d c (put (v - 1))" using 3 "1.prems" by simp
      note one = paints_rbind [OF this paints_rbind [OF mirror [of ?v] paints_Inr]]
      have "\<not> ?v + 1 \<le> center" using 3 by simp
      note stop = ended [OF this]
      have "circle_scan put res is_in center v m = rbind (put (v - 1) m) (\<lambda>m1. rbind (if 0 \<le> ?v \<and> ?v < res then put ?v m1 else Inr m1) Inr)"
        unfolding step Let_def stop if_P [OF 3(1)] if_P [OF 3(2)] if_P [OF 3(3)] ..
      then show ?thesis using one unfolding paints_def by presburger
    next
      case 4
      have "circle_scan put res is_in center v m = (if 0 \<le> ?w \<and> ?w < res then put ?w m else Inr m)"
        unfolding step Let_def if_P [OF 4(1)] if_P [OF 4(2)] if_not_P [OF 4(3)] ..
      then show ?thesis using mirror [of ?w] unfolding paints_def by presburger
    qed
  qed
  then show ?thesis unfolding paints_def by blast
qed

lemma paints_circle:
  assumes "fb_ok d"
  shows "paints d c (circle_loops d px py r c)"
proof -
  have "paints d c (for_each (\<lambda>x m. if x < 0 \<or> uint (xres d) \<le> x then Inr m
      else circle_scan (\<lambda>y. put_color c (location d x y)) (uint (yres d)) (\<lambda>y. inside r (x - px) (y - py)) py (py - r) m) (middle (px - r) r))"
    by (intro paints_for_each paints_if paints_Inr paints_circle_scan paints_put [OF assms]) (simp add: on_screen_def)
  moreover have "paints d c (for_each (\<lambda>y m. if y < 0 \<or> uint (yres d) \<le> y then Inr m
      else circle_scan (\<lambda>x. put_color c (location d x y)) (uint (xres d)) (\<lambda>x. inside r (x - px) (y - py)) px (px - r) m) (middle (py - r) r))"
    by (intro paints_for_each paints_if paints_Inr paints_circle_scan paints_put [OF assms]) (simp add: on_screen_def)
  ultimately have "paints d c (\<lambda>m. circle_loops d px py r c m)" unfolding circle_loops_def by (rule paints_rbind)
  then show ?thesis .
qed

lemma isqrt_from_sqrt:
  "k * k \<le> n \<Longrightarrow> isqrt_from k n * isqrt_from k n \<le> n \<and> n < Suc (isqrt_from k n) * Suc (isqrt_from k n)"
proof (induction k n rule: isqrt_from.induct)
  case (1 k n)
  show ?case
  proof (cases "Suc k * Suc k \<le> n")
    case True
    then show ?thesis using "1.IH" unfolding isqrt_from.simps [of k n] by presburger
  next
    case False
    then show ?thesis using "1.prems" unfolding isqrt_from.simps [of k n] if_not_P [OF False] by (simp only: not_le)
  qed
qed

lemma paints_circle_1:
  assumes "fb_ok d"
  shows "paints d c (for_each (circle_1_column d px py r c) xs)"
proof (rule paints_for_each)
  fix x
  define k where "k = int (isqrt_from 0 (nat (r * r - (x - px) * (x - px))))"
  have "paints d c (\<lambda>m. if \<not> on_screen d x (py + k) then Inr m
      else rbind (put_color c (location d x (py + k)) m) (\<lambda>m1. if \<not> on_screen d x (py - k) then Inr m1 else put_color c (location d x (py - k)) m1))"
    by (intro paints_if paints_Inr paints_rbind paints_put [OF assms]) simp_all
  then show "paints d c (circle_1_column d px py r c x)" unfolding circle_1_column_def Let_def k_def .
qed

lemma paints_line:
  assumes "fb_ok d" "on_screen d x1 y1" "on_screen d x2 y2" "\<And>x. line_y x < uint (yres d)"
  shows "paints d c (for_each (\<lambda>(x, y). put_color c (location d x y)) (line_pixels d line_y x1 y1 x2 y2))"
proof (rule paints_for_each)
  fix p assume p: "p \<in> set (line_pixels d line_y x1 y1 x2 y2)"
  obtain x y where xy: "p = (x, y)" by (cases p)
  have "on_screen d x y"
  proof (cases "x1 = x2 \<or> y1 = y2")
    case True
    then show ?thesis using p segment_on_screen [OF assms(2,3)] unfolding straight_line_pixels [OF True] xy by blast
  next
    case False
    then have "min x1 x2 \<le> x" "x \<le> max x1 x2" "y = clamp_y d (line_y x)" using p xy by (auto simp: line_pixels_def set_to_end)
    then show ?thesis using assms(2,3) assms(4) [of x] by (auto simp: on_screen_def clamp_y_def Let_def)
  qed
  then show "paints d c (case p of (x, y) \<Rightarrow> put_color c (location d x y))" using paints_put [OF assms(1)] xy by simp
qed

section \<open>Commands\<close>

lemma paints_length:
  assumes "paints d c draw" "length m = screensize d"
  shows "\<exists>m'. draw m = Inr m' \<and> length m' = screensize d"
  using assms unfolding paints_def by blast

lemma fb_draw_safe:
  assumes "length (fb_mem st) = screensize d"
    and "\<And>m w. length m = screensize d \<Longrightarrow> \<exists>m' w'. draw m w = Inr (m', w') \<and> length m' = screensize d"
  shows "\<exists>st'. fb_draw st draw = Inr st' \<and> length (fb_mem st') = screensize d"
proof -
  obtain m' w' where "draw (fb_mem st) (fb_world st) = Inr (m', w')" "length m' = screensize d" using assms(2) [OF assms(1)] by blast
  then show ?thesis by (simp add: fb_draw_def)
qed

lemma shapes_safe:
  assumes "fb_ok d" "\<And>x. line_y x < uint (yres d)" "length m = screensize d"
  shows "\<exists>m' w'. clear e d c m w = Inr (m', w') \<and> length m' = screensize d"
    and "\<exists>m' w'. draw_point e d x y c m w = Inr (m', w') \<and> length m' = screensize d"
    and "\<exists>m' w'. draw_line e d line_y x y x2 y2 c m w = Inr (m', w') \<and> length m' = screensize d"
    and "\<exists>m' w'. draw_circle e d x y r c m w = Inr (m', w') \<and> length m' = screensize d"
    and "\<exists>m' w'. draw_circle_1 e d x y r c m w = Inr (m', w') \<and> length m' = screensize d"
proof -
  show "\<exists>m' w'. clear e d c m w = Inr (m', w') \<and> length m' = screensize d"
    unfolding clear_def using clear_loop_all [OF assms(1,3)] assms(3) by (intro fb_session_cases) blast+
  show "\<exists>m' w'. draw_point e d x y c m w = Inr (m', w') \<and> length m' = screensize d"
    unfolding draw_point_def off_screen_shift
    by (intro fb_session_cases paints_length [OF paints_put [OF assms(1)] assms(3)] assms(3))
  show "\<exists>m' w'. draw_line e d line_y x y x2 y2 c m w = Inr (m', w') \<and> length m' = screensize d"
    unfolding draw_line_def off_screen_shift
    by (intro fb_session_cases paints_length [OF paints_line [OF assms(1)] assms(3)] assms(2,3)) simp_all
  show "\<exists>m' w'. draw_circle e d x y r c m w = Inr (m', w') \<and> length m' = screensize d"
    unfolding draw_circle_def by (intro fb_session_cases paints_length [OF paints_circle [OF assms(1)] assms(3)] assms(3))
  show "\<exists>m' w'. draw_circle_1 e d x y r c m w = Inr (m', w') \<and> length m' = screensize d"
    unfolding draw_circle_1_def by (intro fb_session_cases paints_length [OF paints_circle_1 [OF assms(1)] assms(3)] assms(3))
qed

lemma fb_command_safe:
  assumes "fb_ok d" "\<And>x. line_y x < uint (yres d)" "length (fb_mem st) = screensize d"
    and "\<not> starts_with ''color'' cmd" "\<not> starts_with ''pic'' cmd" "\<not> starts_with ''bmp'' cmd"
  shows "\<exists>go_on st'. fb_command e d line_y files junk cmd st = Inr (go_on, st') \<and> length (fb_mem st') = screensize d"
proof -
  note safe = shapes_safe [OF assms(1,2)]
  define good where "good r \<longleftrightarrow> (\<exists>go_on st'. r = Inr (go_on, st') \<and> length (fb_mem st') = screensize d)" for r :: "(bool \<times> fb_state) res"
  have go: "good (rmap (Pair True) r)" if "\<exists>st'. r = Inr st' \<and> length (fb_mem st') = screensize d" for r
    using that by (auto simp: good_def)
  have "good (rmap (Pair True) (fb_draw st (clear e d c)))" for c by (rule go [OF fb_draw_safe [OF assms(3) safe(1)]])
  moreover have "good (rmap (Pair True) (fb_draw st (draw_point e d x y c)))" for x y c by (rule go [OF fb_draw_safe [OF assms(3) safe(2)]])
  moreover have "good (rmap (Pair True) (fb_draw st (draw_line e d line_y x y x2 y2 c)))" for x y x2 y2 c
    by (rule go [OF fb_draw_safe [OF assms(3) safe(3)]])
  moreover have "good (rmap (Pair True) (fb_draw st (draw_circle e d x y r c)))" for x y r c by (rule go [OF fb_draw_safe [OF assms(3) safe(4)]])
  moreover have "good (Inr (b, st))" for b using assms(3) by (simp add: good_def)
  ultimately have "good (fb_command e d line_y files junk cmd st)"
    unfolding fb_command_def Let_def if_not_P [OF assms(4)] if_not_P [OF assms(5)] if_not_P [OF assms(6)] by presburger
  then show ?thesis by (simp add: good_def)
qed

text \<open>On a device with 32 bits per pixel and rows without gaps, whatever numbers the user types and whatever the
  system answers, no sequence of the commands \<open>clear\<close>, \<open>point\<close>, \<open>line\<close> and \<open>circle\<close> (and of unknown ones)
  writes outside the mapped memory, as long as the float arithmetic of a sloped line stays above the last row.\<close>

theorem fb_commands_safe:
  assumes "fb_ok d" "\<And>x. line_y x < uint (yres d)" "length (fb_mem st) = screensize d"
    and "\<forall>cmd\<in>set cmds. \<not> starts_with ''color'' cmd \<and> \<not> starts_with ''pic'' cmd \<and> \<not> starts_with ''bmp'' cmd"
  shows "\<exists>st'. fb_commands e d line_y files junk cmds st = Inr st' \<and> length (fb_mem st') = screensize d"
  using assms(3,4)
proof (induction cmds arbitrary: st)
  case (Cons cmd cmds)
  then obtain go_on st1 where "fb_command e d line_y files junk cmd st = Inr (go_on, st1)" "length (fb_mem st1) = screensize d"
    using fb_command_safe [where line_y = line_y and cmd = cmd and e = e and files = files and junk = junk, OF assms(1,2) Cons.prems(1)] by auto
  then show ?case using Cons by simp
qed simp

text \<open>Two numbers after \<open>color\<close> are enough to write behind the four bytes of the colour.\<close>

theorem set_color_overruns:
  assumes "2 \<le> length (scan_ints 3 s)"
  shows "set_color s = Inl OutOfBounds"
proof -
  obtain r g rest where vs: "scan_ints 3 s = r # g # rest" using assms by (auto simp: numeral_2_eq_2 Suc_le_length_iff)
  have r: "wr_bytes [0, 0, 0, 0] 0 (int_bytes r) = Inr (int_bytes r)"
    using wr_bytes_ok [of 0 "int_bytes r" "[0, 0, 0, 0]"] by (simp add: int_bytes_def)
  have "wr_bytes (int_bytes r) 1 (int_bytes g) = Inl OutOfBounds" by (rule wr_bytes_oob) (simp_all add: int_bytes_def)
  then show ?thesis using r vs by (cases rest) (simp_all add: set_color_def)
qed

text \<open>A point off the screen leaves the device open.\<close>

theorem draw_point_leaks:
  assumes "off_screen d x y" "fp = answer e w (SysOpen (bytes_of ''/dev/fb0''))" "0 \<le> fp"
  shows "\<exists>w'. draw_point e d x y c m w = Inr (m, w') \<and> open_fds w' = insert fp (open_fds w)"
  using assms by (auto simp: draw_point_def fb_session_def sys_def Let_def)

lemma last_row: "2 \<le> x \<Longrightarrow> x \<le> X \<Longrightarrow> X \<le> P \<Longrightarrow> 32 * P < n \<Longrightarrow> 4 * (P + (x - 2)) < n \<and> 0 \<le> P + (x - 2)" for x :: int
  by auto

text \<open>A picture of one pixel is drawn one column to the left of its place and one row below; in the last row it is
  written behind the memory.\<close>

theorem draw_pic_misplaces:
  assumes "fb_ok d" "length m = screensize d" "fb_runs e d w" "2 \<le> x" "x \<le> uint (xres d)" "1 \<le> y" "y \<le> uint (yres d)" "length bytes = 4"
  shows "if y = uint (yres d) then draw_pic e d x y 1 1 (Some bytes) m w = Inl OutOfBounds
    else \<exists>m' w'. draw_pic e d x y 1 1 (Some bytes) m w = Inr (m', w') \<and> screen d m' = (screen d m)((x - 2, y) := Some bytes)"
proof -
  have run: "draw_pic e d x y 1 1 (Some bytes) m w = fb_session e d True (\<lambda>m. wr_bytes m (location d (x - 2) y) bytes) m w"
  proof -
    have "pic_pixels d 4 [] [(x - 2, y)] bytes n = wr_bytes n (location d (x - 2) y) bytes" for n
      using assms(8) by (cases "wr_bytes n (location d (x - 2) y) bytes") (simp_all add: Let_def)
    moreover have "concat (map (\<lambda>i. map (\<lambda>j. (x - 1 - 1 + j, y + i)) [0..1 - 1]) [0..1 - 1]) = [(x - 2, y)]" by simp
    moreover have "\<not> off_screen d x y" using assms(4-7) by (simp add: off_screen_def)
    ultimately show ?thesis unfolding draw_pic_def Let_def option.case by presburger
  qed
  show ?thesis
  proof (cases "y = uint (yres d)")
    case False
    then have "on_screen d (x - 2) y" using assms(4-7) by (simp add: on_screen_def)
    then show ?thesis using write_pixel [OF assms(1,2) _ assms(8)] fb_session_draws [OF assms(3) TrueI, of _ m] run False by metis
  next
    case True
    let ?X = "uint (xres d)" and ?Y = "uint (yres d)"
    have b: "bits_per_pixel d = 32" "uint (line_length d) = 4 * ?X" "32 * ?X * ?Y < 2 ^ 32" using assms(1) by (simp_all add: fb_ok_def)
    have "?X \<le> ?Y * ?X" using assms(6,7) by (simp add: mult_le_cancel_right1)
    then have "4 * (?Y * ?X + (x - 2)) < 2 ^ 32" "0 \<le> ?Y * ?X + (x - 2)"
      using last_row [OF assms(4,5), of "?Y * ?X" "2 ^ 32"] b(3) by (simp_all add: ac_simps)
    moreover have "bits_per_pixel d div 8 = 4" unfolding b(1) by simp
    then have "location d (x - 2) y = ((x - 2) * 4 + ?Y * (4 * ?X)) mod 2 ^ 32"
      by (simp add: location_def uint_word_ariths b(2) uint_word_of_int True mod_simps)
    ultimately have loc: "location d (x - 2) y = int (length m) + 4 * (x - 2)"
      using screensize_ok [OF assms(1)] assms(2) by (simp add: algebra_simps)
    have "\<exists>b bs. bytes = b # bs" using assms(8) by (cases bytes) auto
    then have "wr_bytes m (location d (x - 2) y) bytes = Inl OutOfBounds" using loc assms(4) by (auto simp: wr_buf_def)
    then have "fb_session e d True (\<lambda>m. wr_bytes m (location d (x - 2) y) bytes) m w = Inl OutOfBounds"
      using assms(3) by (auto simp: fb_session_def fb_runs_def sys_def Let_def)
    then show ?thesis using run True by simp
  qed
qed

section \<open>Examples\<close>

definition fb_os :: os where
  "fb_os = \<lparr>answer = (\<lambda>w c. case c of SysOpen _ \<Rightarrow> 3 | _ \<Rightarrow> 0), errno_of = (\<lambda>w c. 0), data_of = (\<lambda>w c. []),
     can_read = (\<lambda>w fd. True), can_write = (\<lambda>w fd. True), so_error = (\<lambda>w. 0), alloc_ok = (\<lambda>n. True)\<rparr>"

definition tiny_fb :: fb_info where
  "tiny_fb = \<lparr>xres = 2, yres = 2, bits_per_pixel = 32, line_length = 8\<rparr>"

lemma tiny_fb_ok: "fb_ok tiny_fb" "screensize tiny_fb = 16" "fb_runs fb_os tiny_fb w"
  by (simp_all add: fb_ok_def tiny_fb_def screensize_def fb_runs_def fb_os_def sys_def Let_def)

theorem draw_line_refines_witness:
  "\<exists>m' w'. draw_line fb_os tiny_fb (\<lambda>x. 0) 1 2 1 1 [1, 2, 3, 4] (replicate 16 0) [] = Inr (m', w') \<and> length m' = 16 \<and>
     screen tiny_fb m' = (\<lambda>p. if p \<in> segment 0 1 0 0 then Some [3, 2, 1, 4] else screen tiny_fb (replicate 16 0) p)"
proof -
  have "\<not> off_screen tiny_fb 1 2" "\<not> off_screen tiny_fb 1 1" by (simp_all add: off_screen_def tiny_fb_def)
  moreover have "bytes_of_color [1, 2, 3, 4] = [3, 2, 1, 4]" by (simp add: bytes_of_color_def red_def green_def blue_def alah_def)
  ultimately show ?thesis
    using draw_line_refines [of tiny_fb "replicate 16 0" fb_os "[]" 1 1 2 1 "\<lambda>x. 0" "[1, 2, 3, 4]"] tiny_fb_ok by (auto cong: if_cong)
qed

theorem fb_commands_safe_witness:
  "\<exists>st'. fb_commands fb_os tiny_fb (\<lambda>x. 1) \<lparr>pic_data = None, pic_bmp = None\<rparr> [0, 0, 0, 0] [bytes_of ''clear'', bytes_of ''point 5 -7'', bytes_of ''line 1 1 2 2'']
      \<lparr>fb_color = [255, 255, 255, 0], fb_mem = replicate 16 0, fb_world = []\<rparr> = Inr st' \<and> length (fb_mem st') = 16"
proof -
  let ?cmds = "[bytes_of ''clear'', bytes_of ''point 5 -7'', bytes_of ''line 1 1 2 2'']"
  have "\<forall>cmd\<in>set ?cmds. \<not> starts_with ''color'' cmd \<and> \<not> starts_with ''pic'' cmd \<and> \<not> starts_with ''bmp'' cmd"
    by (simp add: starts_with_def bytes_of_def)
  moreover have "1 < uint (yres tiny_fb)" by (simp add: tiny_fb_def)
  ultimately show ?thesis
    using fb_commands_safe [OF tiny_fb_ok(1), where line_y = "\<lambda>x. 1" and cmds = ?cmds and e = fb_os
        and st = "\<lparr>fb_color = [255, 255, 255, 0], fb_mem = replicate 16 0, fb_world = []\<rparr>"] tiny_fb_ok(2) by simp
qed

end
