(* ===== verification/Image.thy ===== *)
theory Image
  imports C_Library "HOL-Library.Signed_Division"
begin

text \<open>
  The image program of \<open>jpg/jpg_demo.c\<close>: it reads a BMP file, changes its pixels and writes it back.  \<open>fread\<close> fills the
  struct \<open>BMP\<close> as it lies in memory; no packing is asked for, so an int starts at a multiple of four and the struct has 56
  bytes.  What the standard library answers (which files exist, which can be created, whether there is memory) and
  the floating point sum of \<open>image_gray\<close> are arguments.  A prompt takes one line of the input: \<open>fflush(stdin)\<close> is for
  the library of \<open>conio.h\<close>, where it drops the rest of the line.  What is printed is left out.
\<close>

section \<open>The struct\<close>

fun le_int :: "byte list \<Rightarrow> int" where
  "le_int [] = 0"
| "le_int (b # bs) = uint b + 256 * le_int bs"

definition s32 :: "int \<Rightarrow> int" where
  "s32 n = sint (word_of_int n :: u32)"

text \<open>A member: the bytes at its place.\<close>

definition member :: "nat \<Rightarrow> nat \<Rightarrow> byte list \<Rightarrow> byte list" where
  "member off n bmp = take n (drop off bmp)"

definition bfType :: "byte list \<Rightarrow> byte list" where "bfType = member 0 2"
definition bfSize :: "byte list \<Rightarrow> byte list" where "bfSize = member 4 4"
definition bfReserved1 :: "byte list \<Rightarrow> byte list" where "bfReserved1 = member 8 2"
definition bfReserved2 :: "byte list \<Rightarrow> byte list" where "bfReserved2 = member 10 2"
definition bfOffBits :: "byte list \<Rightarrow> byte list" where "bfOffBits = member 12 4"
definition biSize :: "byte list \<Rightarrow> byte list" where "biSize = member 16 4"
definition biWidth :: "byte list \<Rightarrow> byte list" where "biWidth = member 20 4"
definition biHeight :: "byte list \<Rightarrow> byte list" where "biHeight = member 24 4"
definition biPlanes :: "byte list \<Rightarrow> byte list" where "biPlanes = member 28 2"
definition biBitCount :: "byte list \<Rightarrow> byte list" where "biBitCount = member 30 2"
definition biCompression :: "byte list \<Rightarrow> byte list" where "biCompression = member 32 4"
definition biSizeImage :: "byte list \<Rightarrow> byte list" where "biSizeImage = member 36 4"
definition biXPelsPerMeter :: "byte list \<Rightarrow> byte list" where "biXPelsPerMeter = member 40 4"
definition biYPelsPerMeter :: "byte list \<Rightarrow> byte list" where "biYPelsPerMeter = member 44 4"
definition biClrUsed :: "byte list \<Rightarrow> byte list" where "biClrUsed = member 48 4"
definition biClrImportant :: "byte list \<Rightarrow> byte list" where "biClrImportant = member 52 4"

definition sizeof_BMP :: nat where "sizeof_BMP = 56"

lemmas bmp_members = member_def bfType_def bfSize_def bfReserved1_def bfReserved2_def bfOffBits_def biSize_def biWidth_def
  biHeight_def biPlanes_def biBitCount_def biCompression_def biSizeImage_def biXPelsPerMeter_def biYPelsPerMeter_def
  biClrUsed_def biClrImportant_def

text \<open>The globals \<open>bmp\<close>, \<open>line_byte\<close> and \<open>imagedata\<close>, how many blocks are allocated, and the files.\<close>

record image =
  bmp :: "byte list"
  line_byte :: int
  imagedata :: "byte list option"
  blocks :: int
  files :: "byte list \<Rightarrow> byte list option"

section \<open>Reading\<close>

text \<open>What the program gets from outside: which files may be written, whether \<open>malloc\<close> of a number of bytes
  succeeds, what fresh memory, the array on the stack and an uninitialised int hold, and the sum of
  \<open>image_gray\<close> for the three bytes of a pixel, converted to a byte.\<close>

record image_env =
  writable :: "byte list \<Rightarrow> bool"
  has_memory :: "nat \<Rightarrow> bool"
  fresh :: "nat \<Rightarrow> byte list"
  stack :: "byte list"
  unset :: int
  gray_of :: "byte \<Rightarrow> byte \<Rightarrow> byte \<Rightarrow> byte"

text \<open>\<open>gets\<close>: a line of any length, or nothing at the end of the input.\<close>

definition gets :: "byte list \<Rightarrow> byte list list \<Rightarrow> (byte list \<times> byte list list) res" where
  "gets buf input = (case input of
       [] \<Rightarrow> Inr (buf, [])
     | l # rest \<Rightarrow> rmap (\<lambda>b. (b, rest)) (wr_bytes buf 0 (l @ [0])))"

text \<open>The loop that asks for a name: \<open>times\<close> when it ends, the name if a file was opened, and the rest of the input.\<close>

fun ask_name :: "(byte list \<Rightarrow> bool) \<Rightarrow> nat \<Rightarrow> byte list \<Rightarrow> byte list list \<Rightarrow> (nat \<times> byte list option \<times> byte list list) res" where
  "ask_name opens 0 buf input = Inr (0, None, input)"
| "ask_name opens (Suc n) buf input =
     rbind (gets buf input) (\<lambda>(buf1, input1).
     rbind (mem_str buf1) (\<lambda>name.
     if opens name then Inr (n, Some name, input1)
     else ask_name opens n buf1 input1))"

definition line_bytes :: "byte list \<Rightarrow> int" where
  "line_bytes b = (s32 (s32 (le_int (biWidth b)) * le_int (biBitCount b)) sdiv 8 + 3) sdiv 4 * 4"

text \<open>\<open>image_info\<close>: None when the program ends, which \<open>times == 0\<close> behind the loop makes it do.\<close>

definition image_info :: "image_env \<Rightarrow> byte list list \<Rightarrow> image \<Rightarrow> (image option \<times> byte list list) res" where
  "image_info e input st =
     rbind (ask_name (\<lambda>n. files st n \<noteq> None \<and> writable e n) 3 (stack e) input) (\<lambda>(left, name, input1).
     if left = 0 then Inr (None, input1)
     else
       let content = (case name of None \<Rightarrow> [] | Some n \<Rightarrow> the (files st n));
           head = take sizeof_BMP content;
           b = head @ drop (length head) (bmp st);
           size = nat (le_int (biSizeImage b));
           st1 = st\<lparr>bmp := b, line_byte := line_bytes b\<rparr>;
           data = take size (drop (nat (le_int (bfOffBits b))) content) in
       if has_memory e size
       then rmap (\<lambda>m. (Some (st1\<lparr>imagedata := Some m, blocks := blocks st + 1\<rparr>), input1)) (wr_bytes (fresh e size) 0 data)
       else if data = [] then Inr (Some (st1\<lparr>imagedata := None\<rparr>), input1)
       else Inl NullDeref)"

section \<open>Writing\<close>

text \<open>\<open>fwrite\<close> at a place: a gap behind the end is filled with zeros.\<close>

definition write_at :: "byte list \<Rightarrow> nat \<times> byte list \<Rightarrow> byte list" where
  "write_at file = (\<lambda>(off, bs). if bs = [] then file
     else take off (file @ replicate (off - length file) 0) @ bs @ drop (off + length bs) file)"

definition header_writes :: "byte list \<Rightarrow> (nat \<times> byte list) list" where
  "header_writes b =
     [(0, bfType b), (2, bfSize b), (6, bfReserved1 b), (8, bfReserved2 b), (10, take 2 (bfOffBits b)), (14, biSize b),
      (18, biWidth b), (22, biHeight b), (26, biPlanes b), (28, biBitCount b), (30, take 2 (biCompression b)),
      (34, biSizeImage b), (38, biXPelsPerMeter b), (42, biYPelsPerMeter b), (46, biClrUsed b), (50, biClrImportant b)]"

text \<open>The bytes that \<open>fwrite\<close> takes from \<open>imagedata\<close>.\<close>

definition pixel_bytes :: "image \<Rightarrow> byte list res" where
  "pixel_bytes st =
     (let size = nat (le_int (biSizeImage (bmp st))) in
      case imagedata st of
        Some m \<Rightarrow> rd_bytes m 0 size
      | None \<Rightarrow> if size = 0 then Inr [] else Inl NullDeref)"

text \<open>\<open>image_save\<close>: a file that was opened is empty at first; false when the program ends.\<close>

definition image_save :: "image_env \<Rightarrow> byte list list \<Rightarrow> image \<Rightarrow> (bool \<times> image \<times> byte list list) res" where
  "image_save e input st =
     rbind (ask_name (writable e) 3 (stack e) input) (\<lambda>(left, name, input1).
     let put = (\<lambda>c. case name of None \<Rightarrow> st | Some n \<Rightarrow> st\<lparr>files := (files st)(n := Some c)\<rparr>) in
     if left = 0 then Inr (False, put [], input1)
     else rmap (\<lambda>data. (True, put (foldl write_at [] (header_writes (bmp st) @ [(nat (le_int (bfOffBits (bmp st))), data)])), input1))
            (pixel_bytes st))"

section \<open>Operations\<close>

text \<open>The places that a pair of loops visits: every byte of a row, or every third.\<close>

definition rows :: "image \<Rightarrow> int" where
  "rows st = s32 (le_int (biHeight (bmp st)))"

definition positions :: "int \<Rightarrow> image \<Rightarrow> int list" where
  "positions step st =
     concat (map (\<lambda>i. map (\<lambda>j. s32 (i * line_byte st + j * step)) [0..line_byte st sdiv step - 1])
       [0..rows st - 1])"

definition on_pixels :: "int \<Rightarrow> (int \<Rightarrow> byte list \<Rightarrow> byte list res) \<Rightarrow> image \<Rightarrow> image res" where
  "on_pixels step body st = (case imagedata st of
       Some m \<Rightarrow> rmap (\<lambda>m1. st\<lparr>imagedata := Some m1\<rparr>) (for_each body (positions step st) m)
     | None \<Rightarrow> if positions step st = [] then Inr st else Inl NullDeref)"

definition image_gray :: "image_env \<Rightarrow> image \<Rightarrow> image res" where
  "image_gray e = on_pixels 3 (\<lambda>k m.
     rbind (rd_buf m k) (\<lambda>b. rbind (rd_buf m (k + 1)) (\<lambda>g. rbind (rd_buf m (k + 2)) (\<lambda>r.
     let tmp = gray_of e b g r in
     rbind (wr_buf m k tmp) (\<lambda>m1. rbind (wr_buf m1 (k + 1) tmp) (\<lambda>m2. wr_buf m2 (k + 2) tmp))))))"

text \<open>The body of a loop that changes every byte.\<close>

definition change :: "(byte \<Rightarrow> byte) \<Rightarrow> int \<Rightarrow> byte list \<Rightarrow> byte list res" where
  "change f k m = rbind (rd_buf m k) (\<lambda>v. wr_buf m k (f v))"

definition binary :: "byte \<Rightarrow> byte" where
  "binary v = (if v < 128 then 0 else 255)"

definition image_binarization :: "image \<Rightarrow> image res" where
  "image_binarization = on_pixels 1 (change binary)"

definition opposite :: "byte \<Rightarrow> byte" where
  "opposite v = word_of_int \<bar>255 - uint v\<bar>"

definition image_opposite :: "image \<Rightarrow> image res" where
  "image_opposite = on_pixels 1 (change opposite)"

text \<open>\<open>c\<close> is the character that was read.\<close>

definition image_channel :: "byte \<Rightarrow> image \<Rightarrow> image res" where
  "image_channel c =
     (if c = 0x62 then on_pixels 3 (\<lambda>k m. rbind (wr_buf m (k + 1) 0) (\<lambda>m1. wr_buf m1 (k + 2) 0))
      else if c = 0x67 then on_pixels 3 (\<lambda>k m. rbind (wr_buf m k 0) (\<lambda>m1. wr_buf m1 (k + 2) 0))
      else on_pixels 3 (\<lambda>k m. rbind (wr_buf m k 0) (\<lambda>m1. wr_buf m1 (k + 1) 0)))"

definition brighter :: "int \<Rightarrow> byte \<Rightarrow> byte" where
  "brighter level v =
     (if 0 \<le> level
      then if s32 (uint v + level) > 255 then 255 else word_of_int (uint v + level)
      else if s32 (uint v - s32 \<bar>level\<bar>) < 0 then 0 else word_of_int (uint v + level))"

definition image_bright :: "int \<Rightarrow> image \<Rightarrow> image res" where
  "image_bright level = on_pixels 1 (change (brighter level))"

section \<open>The program\<close>

text \<open>\<open>scanf\<close> with \<open>%d\<close>, which goes on over empty lines, and with \<open>%c\<close>; None where nothing is stored.\<close>

fun scanf_d :: "byte list list \<Rightarrow> int option \<times> byte list list" where
  "scanf_d [] = (None, [])"
| "scanf_d (l # rest) = (if \<forall>b\<in>set l. is_space b then scanf_d rest else (map_option fst (scan_int l), rest))"

fun scanf_c :: "byte list list \<Rightarrow> byte option \<times> byte list list" where
  "scanf_c [] = (None, [])"
| "scanf_c (l # rest) = (Some (if l = [] then 0x0A else hd l), rest)"

text \<open>The operation that was chosen, with the input it reads; None for a wrong choice.\<close>

definition image_operation :: "image_env \<Rightarrow> int \<Rightarrow> byte list list \<Rightarrow> image \<Rightarrow> (image \<times> byte list list) res option" where
  "image_operation e choice input st =
     (if choice = 1 then Some (rmap (\<lambda>s. (s, input)) (image_opposite st))
      else if choice = 2 then Some (rmap (\<lambda>s. (s, input)) (image_gray e st))
      else if choice = 3 then Some (rmap (\<lambda>s. (s, input)) (image_binarization st))
      else if choice = 4
      then Some (let (c, input1) = scanf_c input in
                 rmap (\<lambda>s. (s, input1)) (image_channel (case c of None \<Rightarrow> word_of_int (unset e) | Some c \<Rightarrow> c) st))
      else if choice = 5
      then Some (let (n, input1) = scanf_d input in
                 rmap (\<lambda>s. (s, input1)) (image_bright (case n of None \<Rightarrow> unset e | Some n \<Rightarrow> n) st))
      else None)"

text \<open>\<open>free(imagedata)\<close>; the pointer is set again before it is used again.\<close>

definition image_free :: "image \<Rightarrow> image" where
  "image_free st = (case imagedata st of None \<Rightarrow> st | Some _ \<Rightarrow> st\<lparr>imagedata := None, blocks := blocks st - 1\<rparr>)"

text \<open>One turn of the loop of \<open>main\<close>: whether it goes on, \<open>choose\<close> and \<open>gono\<close>, which keep their values where
  nothing is read.\<close>

definition image_round :: "image_env \<Rightarrow> int \<times> byte \<Rightarrow> byte list list \<Rightarrow> image \<Rightarrow> (bool \<times> (int \<times> byte) \<times> byte list list \<times> image) res" where
  "image_round e vars input st =
     rbind (image_info e input st) (\<lambda>(info, input1).
     case info of
       None \<Rightarrow> Inr (False, vars, input1, st)
     | Some st1 \<Rightarrow>
         let (n, input2) = scanf_d input1; choice = (case n of None \<Rightarrow> fst vars | Some n \<Rightarrow> n) in
         rbind (case image_operation e choice input2 st1 of
                  None \<Rightarrow> Inr (True, st1, input2)
                | Some result \<Rightarrow> rbind result (\<lambda>(st2, input3).
                    rmap (\<lambda>(saved, st3, input4). (saved, if saved then image_free st3 else st3, input4)) (image_save e input3 st2)))
           (\<lambda>(go_on, st4, input5).
            if \<not> go_on then Inr (False, (choice, snd vars), input5, st4)
            else let (c, input6) = scanf_c input5; gono = (case c of None \<Rightarrow> snd vars | Some c \<Rightarrow> c) in
                 Inr (gono \<noteq> 0x6E, (choice, gono), input6, st4)))"

end
