(* ===== verification/Image_Properties.thy ===== *)
theory Image_Properties
  imports Image Yuv
begin

text \<open>
  What is proved of the image program: the operations on pixels that fit in their block, where they leave it, and what
  becomes of a picture that is read with the struct as it lies in memory.
\<close>

lemma s32_id: "- 2147483648 \<le> n \<Longrightarrow> n < 2147483648 \<Longrightarrow> s32 n = n"
  by (simp add: s32_def sint_sbintrunc' signed_take_bit_int_eq_self)

section \<open>Every byte of the picture\<close>

lemma upto_Suc: "[0..int (Suc n) - 1] = [0..int n - 1] @ [int n]"
  using upto_rec2 [of 0 "int n"] by simp

lemma shifted_upto: "map (\<lambda>j. a + j) [0..int n - 1] = [a..a + int n - 1]"
proof (induction n)
  case (Suc n)
  moreover have "a + int (Suc n) - 1 = a + int n" by simp
  ultimately show ?case using upto_rec2 [of a "a + int n"] by (simp only: upto_Suc map_append list.map)
qed simp

lemma upto_join: "0 \<le> a \<Longrightarrow> 0 \<le> n \<Longrightarrow> [0..a - 1] @ [a..a + n - 1] = [0..a + n - 1]"
  using upto_split1 [of 0 a "a + n - 1"] by (cases "n = 0") simp_all

lemma bytes_of_rows:
  "0 \<le> w \<Longrightarrow> concat (map (\<lambda>i. map (\<lambda>j. i * w + j) [0..w - 1]) [0..int n - 1]) = [0..int n * w - 1]"
proof (induction n)
  case (Suc n)
  have "map (\<lambda>j. int n * w + j) [0..w - 1] = [int n * w..int n * w + w - 1]"
    using shifted_upto [of "int n * w" "nat w"] Suc.prems by simp
  moreover have "[0..int n * w - 1] @ [int n * w..int n * w + w - 1] = [0..int n * w + w - 1]"
    using Suc.prems by (intro upto_join) simp_all
  moreover have "int (Suc n) * w - 1 = int n * w + w - 1" by (simp add: algebra_simps)
  ultimately show ?case using Suc by (simp only: upto_Suc map_append list.map concat_append concat.simps append_Nil2)
qed simp

text \<open>The loops stay below the range of an int.\<close>

definition area :: "image \<Rightarrow> int" where
  "area st = rows st * line_byte st"

definition countable_area :: "image \<Rightarrow> bool" where
  "countable_area st \<longleftrightarrow> 0 \<le> rows st \<and> 0 \<le> line_byte st \<and> area st < 2 ^ 31"

lemma position_small:
  assumes "countable_area st" "0 \<le> i" "i < rows st" "0 \<le> j" "j < line_byte st"
  shows "0 \<le> i * line_byte st + j" "i * line_byte st + j < area st" "s32 (i * line_byte st + j) = i * line_byte st + j"
proof -
  have "(i + 1) * line_byte st \<le> rows st * line_byte st" using assms by (intro mult_right_mono) auto
  then show b: "i * line_byte st + j < area st" using assms by (simp add: area_def algebra_simps)
  show a: "0 \<le> i * line_byte st + j" using assms by simp
  show "s32 (i * line_byte st + j) = i * line_byte st + j"
    using a b assms(1) by (intro s32_id) (auto simp: countable_area_def)
qed

lemma positions_bytes:
  assumes "countable_area st"
  shows "positions 1 st = [0..area st - 1]"
proof -
  have "positions 1 st = concat (map (\<lambda>i. map (\<lambda>j. i * line_byte st + j) [0..line_byte st - 1]) [0..rows st - 1])"
    unfolding positions_def using position_small [OF assms] by (intro arg_cong [of _ _ concat] map_cong) auto
  also have "\<dots> = [0..area st - 1]"
    using bytes_of_rows [of "line_byte st" "nat (rows st)"] assms by (simp add: countable_area_def area_def)
  finally show ?thesis .
qed

lemma change_prefix: "n \<le> length m \<Longrightarrow> for_each (change f) [0..int n - 1] m = Inr (map f (take n m) @ drop n m)"
proof (induction n)
  case (Suc n)
  let ?m = "map f (take n m) @ drop n m"
  have "?m ! n = m ! n" using Suc.prems by (simp add: nth_append)
  moreover have "?m[n := f (m ! n)] = map f (take (Suc n) m) @ drop (Suc n) m"
    using Suc.prems by (simp add: list_update_append take_Suc_conv_app_nth flip: Cons_nth_drop_Suc)
  ultimately have "change f (int n) ?m = Inr (map f (take (Suc n) m) @ drop (Suc n) m)"
    using Suc.prems by (simp add: change_def rd_buf_def wr_buf_def)
  with Suc show ?case by (simp add: upto_Suc del: of_nat_Suc)
qed simp

lemma change_behind: "length m < n \<Longrightarrow> for_each (change f) [0..int n - 1] m = Inl OutOfBounds"
proof -
  assume n: "length m < n"
  have "[0..int n - 1] = [0..int (length m) - 1] @ int (length m) # [int (length m) + 1..int n - 1]"
    using upto_split3 [of 0 "int (length m)" "int n - 1"] n by simp
  then show ?thesis by (simp add: change_prefix change_def rd_buf_def)
qed

lemma change_all:
  assumes "countable_area st" "imagedata st = Some m"
  shows "on_pixels 1 (change f) st =
    (if area st \<le> int (length m)
     then Inr (st\<lparr>imagedata := Some (map f (take (nat (area st)) m) @ drop (nat (area st)) m)\<rparr>)
     else Inl OutOfBounds)"
proof -
  have a: "area st = int (nat (area st))" using assms(1) by (simp add: countable_area_def area_def)
  have "positions 1 st = [0..int (nat (area st)) - 1]" using positions_bytes [OF assms(1)] a by simp
  then show ?thesis
    using assms(2) change_prefix [of "nat (area st)" m f] change_behind [of m "nat (area st)" f] a
    by (auto simp: on_pixels_def nat_le_iff)
qed

section \<open>The operations on a byte\<close>

lemma opposite_not: "opposite v = NOT v"
proof -
  have "uint v \<le> 255" using uint_lt2p [of v] by simp
  then have "opposite v = word_of_int (255 - uint v)" by (simp add: opposite_def)
  also have "\<dots> = 255 - v" by simp
  finally show ?thesis using not_eq_complement [of v] by simp
qed

lemma opposite_opposite [simp]: "opposite (opposite v) = v"
  by (simp add: opposite_not)

lemma binary_binary [simp]: "binary (binary v) = binary v"
  by (simp add: binary_def)

lemma brighter_saturates:
  assumes "- 255 \<le> level" "level \<le> 255"
  shows "uint (brighter level v) = max 0 (min 255 (uint v + level))"
proof -
  have v: "0 \<le> uint v" "uint v \<le> 255" using uint_lt2p [of v] by simp_all
  have s: "s32 (uint v + level) = uint v + level" "s32 \<bar>level\<bar> = \<bar>level\<bar>" "s32 (uint v - \<bar>level\<bar>) = uint v - \<bar>level\<bar>"
  proof -
    show "s32 (uint v + level) = uint v + level" by (rule s32_id) (use v assms in linarith)+
    show "s32 \<bar>level\<bar> = \<bar>level\<bar>" by (rule s32_id) (use v assms in linarith)+
    show "s32 (uint v - \<bar>level\<bar>) = uint v - \<bar>level\<bar>" by (rule s32_id) (use v assms in linarith)+
  qed
  have w: "0 \<le> n \<Longrightarrow> n \<le> 255 \<Longrightarrow> uint (word_of_int n :: byte) = n" for n
    by (simp add: uint_word_of_int_eq take_bit_int_eq_self)
  show ?thesis
  proof (cases "0 \<le> level")
    case False
    then have "\<bar>level\<bar> = - level" by simp
    then show ?thesis using False v assms w [of "uint v + level"] s(2,3) by (auto simp: brighter_def)
  qed (use v assms w [of "uint v + level"] s(1) in \<open>auto simp: brighter_def\<close>)
qed

text \<open>C25: When the block holds all bytes of the rows, the operations that change single bytes return and change exactly
  those: inverting takes the complement, binarization 0 or 255, brightening adds and stops at 0 and 255.\<close>

theorem image_bytes_changed:
  assumes "countable_area st" "imagedata st = Some m" "area st \<le> int (length m)" "- 255 \<le> level" "level \<le> 255"
  shows "\<exists>m1 m2 m3. image_opposite st = Inr (st\<lparr>imagedata := Some m1\<rparr>) \<and> image_binarization st = Inr (st\<lparr>imagedata := Some m2\<rparr>) \<and>
    image_bright level st = Inr (st\<lparr>imagedata := Some m3\<rparr>) \<and> length m1 = length m \<and> length m2 = length m \<and> length m3 = length m \<and>
    (\<forall>k<length m. if int k < area st
       then m1 ! k = NOT (m ! k) \<and> m2 ! k = (if m ! k < 128 then 0 else 255) \<and>
            uint (m3 ! k) = max 0 (min 255 (uint (m ! k) + level))
       else m1 ! k = m ! k \<and> m2 ! k = m ! k \<and> m3 ! k = m ! k)"
proof -
  let ?n = "nat (area st)"
  have n: "?n \<le> length m" "\<And>k. int k < area st \<longleftrightarrow> k < ?n" using assms(3) by auto
  have nth: "(map f (take ?n m) @ drop ?n m) ! k = (if k < ?n then f (m ! k) else m ! k)" if "k < length m" for f k
    using that n by (simp add: nth_append)
  let ?change = "\<lambda>f. map f (take ?n m) @ drop ?n m"
  have len: "length (?change f) = length m" for f using n by simp
  show ?thesis
  proof (intro exI conjI)
    show "image_opposite st = Inr (st\<lparr>imagedata := Some (?change opposite)\<rparr>)"
      "image_binarization st = Inr (st\<lparr>imagedata := Some (?change binary)\<rparr>)"
      "image_bright level st = Inr (st\<lparr>imagedata := Some (?change (brighter level))\<rparr>)"
      using assms by (simp_all add: image_opposite_def image_binarization_def image_bright_def change_all)
  qed (simp_all only: len nth n(2), auto simp: nth opposite_not binary_def brighter_saturates [OF assms(4,5)])
qed

definition gray_row :: image where
  "gray_row = \<lparr>bmp = replicate 24 0 @ [1] @ replicate 31 0, line_byte = 4, imagedata = Some [10, 20, 200, 40, 50], blocks = 1, files = (\<lambda>_. None)\<rparr>"

theorem image_bytes_changed_witness:
  "\<exists>m1 m2 m3. image_opposite gray_row = Inr (gray_row\<lparr>imagedata := Some m1\<rparr>) \<and> image_binarization gray_row = Inr (gray_row\<lparr>imagedata := Some m2\<rparr>) \<and>
    image_bright 100 gray_row = Inr (gray_row\<lparr>imagedata := Some m3\<rparr>) \<and> m1 ! 0 = 245 \<and> m1 ! 4 = 50 \<and> m2 ! 1 = 0 \<and> m2 ! 2 = 255 \<and> uint (m3 ! 2) = 255"
proof -
  have rows: "rows gray_row = 1" by (simp add: rows_def gray_row_def biHeight_def member_def s32_def numeral_3_eq_3)
  then have "countable_area gray_row" "area gray_row = 4" by (simp_all add: countable_area_def area_def gray_row_def)
  moreover have "imagedata gray_row = Some [10, 20, 200, 40, 50]" by (simp add: gray_row_def)
  ultimately obtain m1 m2 m3 where m: "image_opposite gray_row = Inr (gray_row\<lparr>imagedata := Some m1\<rparr>)"
      "image_binarization gray_row = Inr (gray_row\<lparr>imagedata := Some m2\<rparr>)" "image_bright 100 gray_row = Inr (gray_row\<lparr>imagedata := Some m3\<rparr>)"
    and at: "\<forall>k<length [10, 20, 200, 40, 50 :: byte]. if int k < 4
       then m1 ! k = NOT ([10, 20, 200, 40, 50] ! k) \<and> m2 ! k = (if [10, 20, 200, 40, 50] ! k < (128 :: byte) then 0 else 255) \<and>
            uint (m3 ! k) = max 0 (min 255 (uint ([10, 20, 200, 40, 50 :: byte] ! k) + 100))
       else m1 ! k = [10, 20, 200, 40, 50] ! k \<and> m2 ! k = [10, 20, 200, 40, 50] ! k \<and> m3 ! k = [10, 20, 200, 40, 50] ! k"
    using image_bytes_changed [of gray_row "[10, 20, 200, 40, 50]" 100] by auto
  have "m1 ! 0 = 245" "m2 ! 1 = 0" "m2 ! 2 = 255" "uint (m3 ! 2) = 255" "m1 ! 4 = 50"
    using at [rule_format, of 0] at [rule_format, of 1] at [rule_format, of 2] at [rule_format, of 4] by simp_all
  with m show ?thesis by blast
qed

theorem image_opposite_twice:
  assumes "countable_area st" "imagedata st = Some m" "area st \<le> int (length m)"
  shows "rbind (image_opposite st) image_opposite = Inr st"
proof -
  let ?n = "nat (area st)"
  let ?m = "map opposite (take ?n m) @ drop ?n m"
  have n: "?n \<le> length m" using assms(3) by auto
  have one: "image_opposite st = Inr (st\<lparr>imagedata := Some ?m\<rparr>)"
    using assms by (simp add: image_opposite_def change_all)
  have a: "area (st\<lparr>imagedata := Some ?m\<rparr>) = area st" "countable_area (st\<lparr>imagedata := Some ?m\<rparr>) = countable_area st"
    by (simp_all add: area_def countable_area_def rows_def)
  have "map opposite (take ?n ?m) @ drop ?n ?m = m"
    using n by (simp add: comp_def take_map)
  then have "image_opposite (st\<lparr>imagedata := Some ?m\<rparr>) = Inr (st\<lparr>imagedata := Some m\<rparr>)"
    using assms n change_all [of "st\<lparr>imagedata := Some ?m\<rparr>" ?m opposite] by (simp add: image_opposite_def a)
  then show ?thesis using one assms(2) by simp
qed

theorem image_overruns:
  assumes "countable_area st" "imagedata st = Some m" "int (length m) < area st"
  shows "image_opposite st = Inl OutOfBounds" "image_binarization st = Inl OutOfBounds" "image_bright level st = Inl OutOfBounds"
  using assms by (simp_all add: image_opposite_def image_binarization_def image_bright_def change_all)

section \<open>Every pixel of the picture\<close>

lemma set_positions:
  assumes "countable_area st"
  shows "set (positions 3 st) = {i * line_byte st + 3 * j | i j. 0 \<le> i \<and> i < rows st \<and> 0 \<le> j \<and> j < line_byte st div 3}"
    (is "_ = ?R")
proof -
  have d: "line_byte st sdiv 3 = line_byte st div 3" using assms by (simp add: countable_area_def signed_divide_int_def sgn_if)
  have s: "s32 (i * line_byte st + j * 3) = i * line_byte st + 3 * j"
    if "0 \<le> i" "i < rows st" "0 \<le> j" "j < line_byte st div 3" for i j
    using position_small(3) [OF assms that(1,2), of "j * 3"] that by (simp add: algebra_simps)
  have "set (positions 3 st) = (\<Union>i\<in>{0..rows st - 1}. (\<lambda>j. s32 (i * line_byte st + j * 3)) ` {0..line_byte st div 3 - 1})"
    by (simp add: positions_def d)
  also have "\<dots> = (\<Union>i\<in>{0..rows st - 1}. (\<lambda>j. i * line_byte st + 3 * j) ` {0..line_byte st div 3 - 1})"
    using s by (intro SUP_cong image_cong) auto
  also have "\<dots> = ?R" by (auto simp: image_iff) blast
  finally show ?thesis .
qed

lemma position_in_area:
  assumes "countable_area st" "k \<in> set (positions 3 st)"
  shows "0 \<le> k" "k + 2 < area st"
proof -
  obtain i j where k: "k = i * line_byte st + 3 * j" "0 \<le> i" "i < rows st" "0 \<le> j" "j < line_byte st div 3"
    using assms by (auto simp: set_positions)
  have "0 \<le> i * line_byte st + (3 * j + 2)" "i * line_byte st + (3 * j + 2) < area st"
    using position_small [OF assms(1) k(2,3), of "3 * j + 2"] k(4,5) by auto
  then show "k + 2 < area st" using k(1) by simp
  show "0 \<le> k" using position_small(1) [OF assms(1) k(2,3), of "3 * j"] k by auto
qed

text \<open>Two bytes of every pixel are set to zero.\<close>

lemma zeroed:
  fixes m :: "byte list"
  assumes "0 \<le> a" "a \<le> 2" "0 \<le> b" "b \<le> 2" "\<forall>k\<in>set ks. 0 \<le> k \<and> k + 2 < int (length m)"
  shows "\<exists>m1. for_each (\<lambda>k (m :: byte list). rbind (wr_buf m (k + a) 0) (\<lambda>m1. wr_buf m1 (k + b) 0)) ks m = Inr m1 \<and> length m1 = length m \<and>
    (\<forall>i<length m. m1 ! i = (if \<exists>k\<in>set ks. int i = k + a \<or> int i = k + b then 0 else m ! i))"
  using assms(5)
proof (induction ks arbitrary: m)
  case (Cons k ks)
  let ?m = "m[nat (k + a) := 0, nat (k + b) := 0 :: byte]"
  have k: "0 \<le> k" "k + 2 < int (length m)" using Cons.prems by auto
  then have w: "rbind (wr_buf m (k + a) 0) (\<lambda>m1. wr_buf m1 (k + b) 0) = Inr ?m"
    using assms(1-4) by (simp add: wr_buf_ok)
  have "?m ! i = (if int i = k + a \<or> int i = k + b then 0 else m ! i)" if "i < length m" for i
    using that k assms(1-4) by (auto simp: nth_list_update)
  with w Cons.IH [of ?m] Cons.prems show ?case by auto
qed simp

definition kept :: "byte \<Rightarrow> int" where
  "kept c = (if c = 0x62 then 0 else if c = 0x67 then 1 else 2)"

text \<open>\<open>image_channel\<close> keeps one of the three bytes of every pixel, blue, green or red.\<close>

theorem image_channel_keeps:
  assumes "countable_area st" "imagedata st = Some m" "area st \<le> int (length m)"
  shows "\<exists>m1. image_channel c st = Inr (st\<lparr>imagedata := Some m1\<rparr>) \<and> length m1 = length m \<and>
    (\<forall>i<length m. m1 ! i = (if \<exists>k\<in>set (positions 3 st). \<exists>d\<in>{0, 1, 2} - {kept c}. int i = k + d then 0 else m ! i))"
proof -
  have ks: "\<forall>k\<in>set (positions 3 st). 0 \<le> k \<and> k + 2 < int (length m)"
    using position_in_area [OF assms(1)] assms(3) by fastforce
  have one: "\<exists>m1. on_pixels 3 (\<lambda>k m. rbind (wr_buf m (k + a) 0) (\<lambda>m1. wr_buf m1 (k + b) 0)) st = Inr (st\<lparr>imagedata := Some m1\<rparr>) \<and>
      length m1 = length m \<and> (\<forall>i<length m. m1 ! i = (if \<exists>k\<in>set (positions 3 st). \<exists>d\<in>D. int i = k + d then 0 else m ! i))"
    if "0 \<le> a" "a \<le> 2" "0 \<le> b" "b \<le> 2" "D = {a, b}" for a b D
  proof -
    note D = that(5)
    obtain m1 where "for_each (\<lambda>k (m :: byte list). rbind (wr_buf m (k + a) 0) (\<lambda>m1. wr_buf m1 (k + b) 0)) (positions 3 st) m = Inr m1"
        "length m1 = length m" "\<forall>i<length m. m1 ! i = (if \<exists>k\<in>set (positions 3 st). int i = k + a \<or> int i = k + b then 0 else m ! i)"
      using zeroed [OF \<open>0 \<le> a\<close> \<open>a \<le> 2\<close> \<open>0 \<le> b\<close> \<open>b \<le> 2\<close> ks] by blast
    then show ?thesis using assms(2) D by (intro exI [of _ m1]) (simp add: on_pixels_def)
  qed
  have sets: "{0, 1, 2} - {0 :: int} = {1, 2}" "{0, 1, 2} - {1 :: int} = {0, 2}" "{0, 1, 2} - {2 :: int} = {0, 1}" by auto
  consider "c = 0x62" "{0, 1, 2} - {kept c} = {1, 2}" | "c = 0x67" "{0, 1, 2} - {kept c} = {0, 2}"
    | "c \<noteq> 0x62" "c \<noteq> 0x67" "{0, 1, 2} - {kept c} = {0, 1}"
    by (cases "c = 0x62"; cases "c = 0x67") (simp_all only: kept_def sets if_True if_False, simp_all)
  then show ?thesis
  proof cases
    case 1
    then show ?thesis using one [of 1 2] by (simp add: image_channel_def)
  next
    case 2
    then show ?thesis using one [of 0 2] by (simp add: image_channel_def)
  next
    case 3
    then show ?thesis using one [of 0 1] by (simp add: image_channel_def)
  qed
qed

section \<open>Names\<close>

lemma gets_line:
  assumes "length l < length buf" "0 \<notin> set l"
  shows "\<exists>buf1. gets buf (l # input) = Inr (buf1, input) \<and> mem_str buf1 = Inr l \<and> length buf1 = length buf"
proof -
  have "wr_bytes buf 0 (l @ [0]) = Inr ((l @ [0]) @ drop (length l + 1) buf)"
    using wr_bytes_ok [of 0 "l @ [0]" buf] assms(1) by simp
  moreover have "mem_str ((l @ [0]) @ drop (length l + 1) buf) = Inr l"
    using mem_str_at [of l "drop (length l + 1) buf"] assms(2) by simp
  ultimately show ?thesis using assms(1) by (simp add: gets_def)
qed

text \<open>The third name is refused even when its file can be opened.\<close>

theorem third_name_refused:
  assumes "length (stack e) = 10" "length n1 < 10" "length n2 < 10" "length n3 < 10"
    and "0 \<notin> set n1" "0 \<notin> set n2" "0 \<notin> set n3" "files st n1 = None" "files st n2 = None"
  shows "image_info e (n1 # n2 # n3 # input) st = Inr (None, input)"
proof -
  obtain b1 where 1: "gets (stack e) (n1 # n2 # n3 # input) = Inr (b1, n2 # n3 # input)" "mem_str b1 = Inr n1" "length b1 = 10"
    using gets_line [of n1 "stack e"] assms by auto
  obtain b2 where 2: "gets b1 (n2 # n3 # input) = Inr (b2, n3 # input)" "mem_str b2 = Inr n2" "length b2 = 10"
    using gets_line [of n2 b1] 1 assms by auto
  obtain b3 where 3: "gets b2 (n3 # input) = Inr (b3, input)" "mem_str b3 = Inr n3" "length b3 = 10"
    using gets_line [of n3 b2] 2 assms by auto
  show ?thesis using 1 2 3 assms by (simp add: image_info_def numeral_3_eq_3)
qed

theorem long_name_overruns:
  assumes "length (stack e) = 10" "10 \<le> length l"
  shows "image_info e (l # input) st = Inl OutOfBounds"
  using assms wr_bytes_oob [of 0 "stack e" "l @ [0]"] by (simp add: image_info_def numeral_3_eq_3 gets_def)

section \<open>The header\<close>

text \<open>A file as it is usually written: it is longer than its header and not compressed, and its size and its resolution
  are left 0 as the format allows.\<close>

definition plain_bmp :: "byte list \<Rightarrow> bool" where
  "plain_bmp c \<longleftrightarrow> sizeof_BMP \<le> length c \<and> (\<forall>k\<in>{30..<40}. c ! k = 0)"

lemma member_zero:
  assumes "off + n \<le> length b" "\<forall>k\<in>{off..<off + n}. b ! k = 0"
  shows "le_int (member off n b) = 0"
proof -
  have "member off n b = replicate n 0"
    unfolding member_def using assms by (intro nth_equalityI) auto
  moreover have "le_int (replicate n 0) = 0" by (induction n) auto
  ultimately show ?thesis by simp
qed

lemma no_positions: "line_byte st = 0 \<Longrightarrow> positions step st = []"
  by (simp add: positions_def)

lemma ask_name_some:
  "ask_name opens n buf input = Inr (left, name, input1) \<Longrightarrow> left \<noteq> 0 \<Longrightarrow> \<exists>x. name = Some x \<and> opens x"
proof (induction n arbitrary: buf input)
  case (Suc n)
  then obtain buf1 input2 nm where g: "gets buf input = Inr (buf1, input2)" "mem_str buf1 = Inr nm"
    by (auto simp: rbind_eq_Inr)
  show ?case
  proof (cases "opens nm")
    case False
    then show ?thesis using Suc g by simp
  qed (use Suc.prems g in auto)
qed simp

lemma image_info_plain:
  assumes plain: "\<forall>n c. files st n = Some c \<longrightarrow> plain_bmp c"
    and info: "image_info e input st = Inr (Some st1, input1)"
  shows "line_byte st1 = 0" "le_int (biSizeImage (bmp st1)) = 0" "length (bmp st1) \<ge> 56" "files st1 = files st"
proof -
  obtain left name where a: "ask_name (\<lambda>n. files st n \<noteq> None \<and> writable e n) 3 (stack e) input = Inr (left, name, input1)" "left \<noteq> 0"
    using info by (auto simp: image_info_def rbind_eq_Inr Let_def split: if_splits)
  then obtain n c where n: "name = Some n" "files st n = Some c" using ask_name_some [OF a] by auto
  have p: "plain_bmp c" using plain n by blast
  let ?b = "take sizeof_BMP c @ drop (length (take sizeof_BMP c)) (bmp st)"
  have b: "56 \<le> length ?b" "\<forall>k<56. ?b ! k = c ! k" using p by (auto simp: plain_bmp_def sizeof_BMP_def nth_append)
  have z: "le_int (biBitCount ?b) = 0" "le_int (biSizeImage ?b) = 0"
    unfolding biBitCount_def biSizeImage_def using p b by (auto intro!: member_zero simp: plain_bmp_def)
  have "line_bytes ?b = 0" using z(1) by (simp add: line_bytes_def s32_def)
  moreover have "bmp st1 = ?b \<and> line_byte st1 = line_bytes ?b \<and> files st1 = files st"
    using info a n by (auto simp: image_info_def Let_def split: if_splits)
  ultimately show "line_byte st1 = 0" "le_int (biSizeImage (bmp st1)) = 0" "length (bmp st1) \<ge> 56" "files st1 = files st"
    using z b by auto
qed

text \<open>Nothing happens to the pixels of such a file: the image program takes bytes 30 and 31, where the file has its
  compression, for the bits per pixel.\<close>

theorem plain_bmp_unchanged:
  assumes "\<forall>n c. files st n = Some c \<longrightarrow> plain_bmp c"
    and "image_info e input st = Inr (Some st1, input1)" "1 \<le> choice" "choice \<le> 5"
  shows "\<exists>rest. image_operation e choice input1 st1 = Some (Inr (st1, rest))"
proof -
  have none: "on_pixels step body st1 = Inr st1" for step body
    using no_positions [OF image_info_plain(1) [OF assms(1,2)]] by (simp add: on_pixels_def split: option.splits)
  consider "choice = 1" | "choice = 2" | "choice = 3" | "choice = 4" | "choice = 5" using assms(3,4) by linarith
  then show ?thesis
    by cases (auto simp: image_operation_def image_opposite_def image_gray_def image_binarization_def image_channel_def
        image_bright_def none Let_def split: prod.splits)
qed

lemma write_at_nothing [simp]: "write_at file (off, []) = file"
  by (simp add: write_at_def)

lemma length_write_at: "length (write_at file (off, bs)) = (if bs = [] then length file else max (length file) (off + length bs))"
  by (auto simp: write_at_def)

lemma length_header:
  assumes "56 \<le> length b"
  shows "length (foldl write_at [] (header_writes b)) = 54"
proof -
  have len: "off + n \<le> 56 \<Longrightarrow> length (member off n b) = n" "off + n \<le> 56 \<Longrightarrow> (member off n b = []) = (n = 0)" for off n
    using assms by (auto simp: member_def)
  show ?thesis
    by (simp add: header_writes_def length_write_at len bfType_def bfSize_def bfReserved1_def bfReserved2_def bfOffBits_def
        biSize_def biWidth_def biHeight_def biPlanes_def biBitCount_def biCompression_def biSizeImage_def biXPelsPerMeter_def
        biYPelsPerMeter_def biClrUsed_def biClrImportant_def flip: length_greater_0_conv)
qed

text \<open>And what is saved is a header without any pixel.\<close>

theorem plain_bmp_loses_pixels:
  assumes "\<forall>n c. files st n = Some c \<longrightarrow> plain_bmp c"
    and "image_info e input st = Inr (Some st1, input1)" "image_save e input2 st1 = Inr (True, st2, input3)"
  shows "\<exists>n header. files st2 = (files st)(n := Some header) \<and> length header = 54"
proof -
  have st1: "le_int (biSizeImage (bmp st1)) = 0" "56 \<le> length (bmp st1)" "files st1 = files st"
    using image_info_plain [OF assms(1,2)] by simp_all
  have "pixel_bytes st1 = Inr []" using st1(1) by (simp add: pixel_bytes_def split: option.splits)
  then obtain left name where a: "ask_name (writable e) 3 (stack e) input2 = Inr (left, name, input3)" "left \<noteq> 0"
      "st2 = (case name of None \<Rightarrow> st1 | Some n \<Rightarrow> st1\<lparr>files := (files st1)(n :=
         Some (foldl write_at [] (header_writes (bmp st1) @ [(nat (le_int (bfOffBits (bmp st1))), [])])))\<rparr>)"
    using assms(3) by (auto simp: image_save_def rbind_eq_Inr Let_def split: if_splits)
  then obtain n where "name = Some n" using ask_name_some [OF a(1,2)] by blast
  then show ?thesis using a(3) st1 length_header [OF st1(2)] by auto
qed

text \<open>The pictures that \<open>pic_bmp_save\<close> of \<open>demo/yuv_demo.c\<close> writes are such files.\<close>

lemma yuv_picture_plain:
  assumes "pic_bmp_save True w h data len = Inr (0, Some file)" "2 \<le> unat len"
  shows "plain_bmp file"
proof -
  have len: "length (bmp_header w h) = 54" "k \<in> {30..<40} \<Longrightarrow> bmp_header w h ! k = 0" for k
    by (auto simp: bmp_header_def bmp_template_def Let_def nth_append nth_Cons')
  obtain bs where bs: "file = bmp_header w h @ bs" "length bs = unat len"
    using assms(1) by (auto simp: pic_bmp_save_def dest: rd_bytes_length split: if_splits)
  show ?thesis using assms(2) len by (auto simp: plain_bmp_def sizeof_BMP_def bs nth_append)
qed

end
