(* ===== verification/Video_Clients.thy ===== *)
theory Video_Clients
  imports Video_Properties Tcp_Properties
begin

text \<open>
  The two clients of the video server: \<open>demo/wifi_video_client.c\<close>, which prints the pictures, and
  \<open>demo/wifi_video_collect_client.c\<close>, the device that delivers them; and what becomes of a picture on its way from the
  device over the server to the printing client.  Log output other than the pictures and \<open>sleep\<close> are left out.
\<close>

section \<open>The connection\<close>

definition VIDEO_SERVER_IP :: "byte list" where
  "VIDEO_SERVER_IP = bytes_of ''192.168.1.109''"

definition VIDEO_SERVER_PORT :: int where
  "VIDEO_SERVER_PORT = 8888"

text \<open>Both programs start like this; \<open>junk\<close> is what \<open>inet_pton\<close> finds on its stack.\<close>

definition video_connect :: "os \<Rightarrow> (int \<Rightarrow> byte list) \<Rightarrow> byte list \<Rightarrow> world \<Rightarrow> (int \<times> world) checked" where
  "video_connect e strerror junk w =
     cbind (checked_call e strerror Socket (SysSocket AF_INET SOCK_STREAM 0) w) (\<lambda>(fd, w1).
     cbind (Inet_pton (env_after e strerror w1) junk AF_INET (VIDEO_SERVER_IP @ [0]) (sockaddr_in AF_INET VIDEO_SERVER_PORT) 4) (\<lambda>_.
     cbind (checked_call e strerror Connect (SysConnect fd VIDEO_SERVER_PORT) w1) (\<lambda>(_, w2). Ok (fd, w2))))"

text \<open>The command and the answer: whether the server accepts, the array afterwards.  \<open>strncmp\<close> looks at the array even
  when nothing was read.\<close>

definition accepts :: "byte list \<Rightarrow> bool" where
  "accepts buffer = (take 11 buffer = bytes_of ''CMD:SUCCESS'')"

definition read_answer :: "os \<Rightarrow> int \<Rightarrow> byte list \<Rightarrow> world \<Rightarrow> (bool \<times> byte list \<times> world) res" where
  "read_answer e fd buffer w =
     (let c = SysRead fd MAXLINE_BUF; (len, w1) = sys e c w in
      rmap (\<lambda>b. (accepts b, b, w1)) (if len > 0 then wr_bytes buffer 0 (take (nat len) (data_of e w c)) else Inr buffer))"

definition request :: "os \<Rightarrow> int \<Rightarrow> string \<Rightarrow> byte list \<Rightarrow> world \<Rightarrow> (bool \<times> byte list \<times> world) res" where
  "request e fd cmd buffer w =
     (let (r, w1) = sys e (SysWrite fd (bytes_of cmd)) w in
      if r = int (length cmd) then read_answer e fd buffer w1 else Inr (False, buffer, w1))"

section \<open>The printing client\<close>

text \<open>The loop of \<open>wifi_video_client.c\<close>: what is printed.  An error is printed and tried again.\<close>

partial_function (option) picture_loop :: "os \<Rightarrow> int \<Rightarrow> byte list \<Rightarrow> byte list list \<Rightarrow> world \<Rightarrow> (byte list list \<times> world) res option" where
  "picture_loop e fd buffer out w =
     (let c = SysRead fd MAXLINE_BUF; (len, w1) = sys e c w in
      if len > 0
      then (case rbind (wr_bytes buffer 0 (take (nat len) (data_of e w c))) (\<lambda>b1. rbind (wr_buf b1 len 0) (\<lambda>b2. rmap (Pair b2) (mem_str b2))) of
              Inl f \<Rightarrow> Some (Inl f)
            | Inr (b2, s) \<Rightarrow> picture_loop e fd b2 (out @ [s]) w1)
      else if len = - 1 then picture_loop e fd buffer out w1
      else Some (Inr (out, w1)))"

declare picture_loop.simps [code]

definition video_client :: "os \<Rightarrow> int \<Rightarrow> byte list \<Rightarrow> world \<Rightarrow> (byte list list \<times> world) res option" where
  "video_client e fd buffer w = (case request e fd ''CMD:VIDEO_GET'' buffer w of
       Inl f \<Rightarrow> Some (Inl f)
     | Inr (ok, b, w1) \<Rightarrow> if ok then picture_loop e fd b [] w1 else Some (Inr ([], w1)))"

section \<open>The device\<close>

text \<open>The loop of \<open>wifi_video_collect_client.c\<close>, which only ends when a write fails.\<close>

partial_function (option) collect_loop :: "os \<Rightarrow> int \<Rightarrow> world \<Rightarrow> world option" where
  "collect_loop e fd w =
     (let (len, w1) = sys e (SysWrite fd (bytes_of ''data:xxx'')) w in
      if len = 8 then collect_loop e fd w1 else Some w1)"

declare collect_loop.simps [code]

definition video_collect_client :: "os \<Rightarrow> int \<Rightarrow> byte list \<Rightarrow> world \<Rightarrow> world res option" where
  "video_collect_client e fd buffer w = (case request e fd ''CMD:VIDEO_COLLECT_REG'' buffer w of
       Inl f \<Rightarrow> Some (Inl f)
     | Inr (ok, b, w1) \<Rightarrow> if ok then map_option Inr (collect_loop e fd w1) else Some (Inr w1))"

text \<open>Both programs from the start.\<close>

definition connected :: "(int \<times> world) checked \<Rightarrow> (int \<Rightarrow> world \<Rightarrow> 'a res option) \<Rightarrow> 'a checked option" where
  "connected m f = (case m of
       Ok (fd, w) \<Rightarrow> map_option of_res (f fd w)
     | Exits n l \<Rightarrow> Some (Exits n l)
     | Aborts l \<Rightarrow> Some (Aborts l)
     | Faults x \<Rightarrow> Some (Faults x))"

definition video_client_main :: "os \<Rightarrow> (int \<Rightarrow> byte list) \<Rightarrow> byte list \<Rightarrow> byte list \<Rightarrow> world \<Rightarrow> (byte list list \<times> world) checked option" where
  "video_client_main e strerror junk buffer w = connected (video_connect e strerror junk w) (\<lambda>fd. video_client e fd buffer)"

definition video_collect_main :: "os \<Rightarrow> (int \<Rightarrow> byte list) \<Rightarrow> byte list \<Rightarrow> byte list \<Rightarrow> world \<Rightarrow> world checked option" where
  "video_collect_main e strerror junk buffer w = connected (video_connect e strerror junk w) (\<lambda>fd. video_collect_client e fd buffer)"

section \<open>What the printing client prints\<close>

text \<open>A connection that delivers \<open>ps\<close>, one piece for every read, and then ends.\<close>

fun reads_of :: "int \<Rightarrow> world \<Rightarrow> nat" where
  "reads_of fd [] = 0"
| "reads_of fd ((SysRead fd' n, r) # w) = (if fd' = fd then 1 else 0) + reads_of fd w"
| "reads_of fd (_ # w) = reads_of fd w"

definition delivers_pieces :: "os \<Rightarrow> int \<Rightarrow> byte list list \<Rightarrow> bool" where
  "delivers_pieces e fd ps \<longleftrightarrow>
     (\<forall>w n. let k = reads_of fd w in
        answer e w (SysRead fd n) = (if k < length ps then int (length (ps ! k)) else 0) \<and>
        (k < length ps \<longrightarrow> data_of e w (SysRead fd n) = ps ! k)) \<and>
     (\<forall>w bs. answer e w (SysWrite fd bs) = int (length bs))"

definition pieces_fit :: "byte list list \<Rightarrow> bool" where
  "pieces_fit ps \<longleftrightarrow> (\<forall>p\<in>set ps. p \<noteq> [] \<and> length p < MAXLINE_BUF \<and> 0 \<notin> set p)"

lemma stored_piece:
  assumes "length p < length buffer" "0 \<notin> set p"
  shows "\<exists>b. rbind (wr_bytes buffer 0 p) (\<lambda>b1. rbind (wr_buf b1 (int (length p)) 0) (\<lambda>b2. rmap (Pair b2) (mem_str b2))) = Inr (b, p) \<and>
    length b = length buffer"
proof -
  let ?x = "buffer ! length p" and ?rest = "drop (Suc (length p)) buffer"
  have d: "drop (length p) buffer = ?x # ?rest" using assms(1) by (simp add: Cons_nth_drop_Suc)
  have "wr_bytes buffer 0 p = Inr (p @ ?x # ?rest)" using wr_bytes_ok [of 0 p buffer] assms(1) d by simp
  moreover have "wr_buf (p @ ?x # ?rest) (int (length p)) 0 = Inr (p @ 0 # ?rest)" by (rule wr_buf_at) simp
  moreover have "mem_str (p @ 0 # ?rest) = Inr p" using assms(2) by (rule mem_str_at)
  ultimately show ?thesis using assms(1) by (intro exI [of _ "p @ 0 # ?rest"]) simp
qed

lemma picture_loop_prints:
  assumes "delivers_pieces e fd ps" "pieces_fit ps"
  shows "length buffer = MAXLINE_BUF \<Longrightarrow>
    \<exists>w'. picture_loop e fd buffer out w = Some (Inr (out @ drop (reads_of fd w) ps, w'))"
proof (induction "length ps - reads_of fd w" arbitrary: w buffer out rule: less_induct)
  case less
  let ?c = "SysRead fd MAXLINE_BUF" and ?k = "reads_of fd w"
  show ?case
  proof (cases "?k < length ps")
    case False
    then have "answer e w ?c = 0" using assms(1) by (simp add: delivers_pieces_def Let_def)
    then show ?thesis using False by (subst picture_loop.simps) (simp add: sys_def)
  next
    case True
    let ?p = "ps ! ?k" and ?w = "(?c, int (length (ps ! ?k))) # w"
    have a: "answer e w ?c = int (length ?p)" "data_of e w ?c = ?p"
      using assms(1) True by (simp_all add: delivers_pieces_def Let_def)
    have p: "?p \<noteq> []" "length ?p < length buffer" "0 \<notin> set ?p"
      using assms(2) True less.prems nth_mem [OF True] by (auto simp: pieces_fit_def)
    obtain b where b: "rbind (wr_bytes buffer 0 ?p) (\<lambda>b1. rbind (wr_buf b1 (int (length ?p)) 0) (\<lambda>b2. rmap (Pair b2) (mem_str b2))) = Inr (b, ?p)"
        "length b = length buffer"
      using stored_piece [OF p(2,3)] by blast
    have step: "picture_loop e fd buffer out w = picture_loop e fd b (out @ [?p]) ?w"
      using p(1) b(1) by (subst picture_loop.simps) (simp add: sys_def a)
    have "length ps - reads_of fd ?w < length ps - ?k" using True by simp
    from less.hyps [OF this, of b "out @ [?p]"] b(2) less.prems
    show ?thesis using step True by (simp add: Cons_nth_drop_Suc)
  qed
qed

lemma request_accepted:
  assumes "delivers_pieces e fd ((bytes_of ''CMD:SUCCESS'' @ extra) # ps)" "length extra < MAXLINE_BUF - 11" "length buffer = MAXLINE_BUF"
    and "reads_of fd w = 0"
  shows "\<exists>b w1. request e fd cmd buffer w = Inr (True, b, w1) \<and> length b = MAXLINE_BUF \<and> reads_of fd w1 = 1"
proof -
  let ?ok = "bytes_of ''CMD:SUCCESS'' @ extra" and ?c = "SysRead fd MAXLINE_BUF" and ?cmd = "bytes_of cmd"
  have len: "length (bytes_of ''CMD:SUCCESS'') = 11" "length ?cmd = length cmd" by (simp_all add: bytes_of_def)
  let ?w1 = "(SysWrite fd ?cmd, int (length cmd)) # w" and ?b = "?ok @ drop (length ?ok) buffer"
  have a: "answer e w (SysWrite fd ?cmd) = int (length cmd)" "answer e ?w1 ?c = int (length ?ok)" "data_of e ?w1 ?c = ?ok"
    using assms(1,4) len by (simp_all add: delivers_pieces_def Let_def)
  have "length ?ok \<le> length buffer" "0 < int (length ?ok)" using assms(2,3) len by simp_all
  then have "wr_bytes buffer 0 ?ok = Inr ?b" using wr_bytes_ok [of 0 ?ok buffer] by simp
  then have "request e fd cmd buffer w = Inr (True, ?b, (?c, int (length ?ok)) # ?w1)"
    using a len \<open>0 < int (length ?ok)\<close> by (simp add: request_def read_answer_def sys_def accepts_def)
  moreover have "length ?b = MAXLINE_BUF" using assms(3) \<open>length ?ok \<le> length buffer\<close> by simp
  ultimately show ?thesis using assms(4) by auto
qed

lemma video_client_prints_rest:
  assumes "delivers_pieces e fd ((bytes_of ''CMD:SUCCESS'' @ extra) # ps)" "length extra < MAXLINE_BUF - 11" "0 \<notin> set extra"
    and "pieces_fit ps" "length buffer = MAXLINE_BUF" "reads_of fd w = 0"
  shows "\<exists>w'. video_client e fd buffer w = Some (Inr (ps, w'))"
proof -
  have fit: "pieces_fit ((bytes_of ''CMD:SUCCESS'' @ extra) # ps)"
    using assms(2-4) by (simp add: pieces_fit_def bytes_of_def MAXLINE_BUF_def)
  obtain b w1 where r: "request e fd ''CMD:VIDEO_GET'' buffer w = Inr (True, b, w1)" "length b = MAXLINE_BUF" "reads_of fd w1 = 1"
    using request_accepted [OF assms(1,2,5,6)] by blast
  obtain w' where "picture_loop e fd b [] w1 = Some (Inr (ps, w'))"
    using picture_loop_prints [OF assms(1) fit r(2), of "[]" w1] r(3) by auto
  with r(1) show ?thesis by (simp add: video_client_def)
qed

text \<open>A picture that arrives together with the acceptance is not printed.\<close>

theorem picture_with_answer_lost:
  assumes "delivers_pieces e fd [bytes_of ''CMD:SUCCESS'' @ picture]" "length picture < MAXLINE_BUF - 11" "0 \<notin> set picture"
    and "length buffer = MAXLINE_BUF" "reads_of fd w = 0"
  shows "\<exists>w'. video_client e fd buffer w = Some (Inr ([], w'))"
  using video_client_prints_rest [OF assms(1-3) _ assms(4,5)] by (simp add: pieces_fit_def)

text \<open>A piece that fills the array makes the client write the zero behind it.\<close>

theorem picture_overruns:
  assumes "answer e w (SysRead fd MAXLINE_BUF) = int MAXLINE_BUF" "length (data_of e w (SysRead fd MAXLINE_BUF)) = MAXLINE_BUF"
    and "length buffer = MAXLINE_BUF"
  shows "picture_loop e fd buffer out w = Some (Inl OutOfBounds)"
proof -
  let ?d = "data_of e w (SysRead fd MAXLINE_BUF)"
  have "wr_bytes buffer 0 ?d = Inr ?d" using wr_bytes_ok [of 0 ?d buffer] assms by simp
  moreover have "wr_buf ?d (int MAXLINE_BUF) 0 = Inl OutOfBounds" using assms by (simp add: wr_buf_def)
  ultimately show ?thesis using assms by (subst picture_loop.simps) (simp add: sys_def MAXLINE_BUF_def)
qed

text \<open>When every read fails the client never returns.\<close>

lemma picture_loop_failing:
  assumes "\<forall>w. answer e w (SysRead fd MAXLINE_BUF) = - 1"
  shows "picture_loop e fd buffer out w = None"
proof -
  have "\<not> (\<forall>w. answer e w (SysRead fd MAXLINE_BUF) = - 1)" if "picture_loop e fd buffer out w = Some y" for e fd buffer out w y
  proof (rule picture_loop.raw_induct [where P = "\<lambda>e fd buffer out w y. \<not> (\<forall>w. answer e w (SysRead fd MAXLINE_BUF) = - 1)", OF _ that])
    fix loop e fd buffer out w y
    assume "\<And>e fd buffer out w y. loop e fd buffer out w = Some y \<Longrightarrow> \<not> (\<forall>w. answer e w (SysRead fd MAXLINE_BUF) = - 1)"
      and "(let c = SysRead fd MAXLINE_BUF; (len, w1) = sys e c w in
        if len > 0
        then (case rbind (wr_bytes buffer 0 (take (nat len) (data_of e w c))) (\<lambda>b1. rbind (wr_buf b1 len 0) (\<lambda>b2. rmap (Pair b2) (mem_str b2))) of
                Inl f \<Rightarrow> Some (Inl f)
              | Inr (b2, s) \<Rightarrow> loop e fd b2 (out @ [s]) w1)
        else if len = - 1 then loop e fd buffer out w1
        else Some (Inr (out, w1))) = Some y"
    then show "\<not> (\<forall>w. answer e w (SysRead fd MAXLINE_BUF) = - 1)"
      by (cases "answer e w (SysRead fd MAXLINE_BUF) = - 1") (simp_all add: sys_def Let_def, blast)
  qed
  then show ?thesis using assms by (metis option.exhaust)
qed

section \<open>What the device sends\<close>

lemma collect_loop_sends:
  assumes "\<And>w. answer e w (SysWrite fd (bytes_of ''data:xxx'')) = (if length w < n then 8 else - 1)"
  shows "length w \<le> n \<Longrightarrow> \<exists>w'. collect_loop e fd w = Some w' \<and> accepted fd w' = accepted fd w @ times (n - length w) (bytes_of ''data:xxx'')"
proof (induction "n - length w" arbitrary: w rule: less_induct)
  case less
  let ?c = "SysWrite fd (bytes_of ''data:xxx'')"
  show ?case
  proof (cases "length w < n")
    case False
    then show ?thesis using assms [of w] less.prems by (subst collect_loop.simps) (simp add: sys_def)
  next
    case True
    have "collect_loop e fd w = collect_loop e fd ((?c, 8) # w)"
      using assms [of w] True by (subst collect_loop.simps) (simp add: sys_def)
    moreover have "n - length w = Suc (n - length ((?c, 8 :: int) # w))" using True by simp
    ultimately show ?thesis using less.hyps [of "(?c, 8) # w"] True by (simp add: bytes_of_def)
  qed
qed

section \<open>From the device to the client\<close>

text \<open>The server reads the command of a client while a place is free, and then a picture of the device.\<close>

lemma server_registers:
  assumes "closed_fds e {}" "clients_ok ps" "length ps < VIDEO_CLIENT_MAX" "client_fds st = table_of ps" "0 < fd" "length buf = BUF_SIZE"
    and "answer e (video_world st) (SysRead fd BUF_SIZE) = 13"
    and "data_of e (video_world st) (SysRead fd BUF_SIZE) = bytes_of ''CMD:VIDEO_GET''"
  shows "\<exists>w1. client_event e buf fd st = Inr (True, st\<lparr>client_fds := table_of (ps @ [fd]), video_world := w1\<rparr>) \<and>
    accepted fd w1 = accepted fd (video_world st) @ bytes_of ''CMD:SUCCESS''"
proof -
  let ?cmd = "bytes_of ''CMD:VIDEO_GET''" and ?c = "SysRead fd BUF_SIZE"
  have len: "length ?cmd = 13" "0 \<notin> set ?cmd" "length (bytes_of ''CMD:SUCCESS'') = 11" by (simp_all add: bytes_of_def)
  obtain b where b: "rbind (wr_bytes buf 0 ?cmd) (\<lambda>b1. rbind (wr_buf b1 13 0) (\<lambda>b2. rmap (Pair b2) (mem_str b2))) = Inr (b, ?cmd)"
    using stored_piece [of ?cmd buf] len assms(6) by (auto simp: BUF_SIZE_def)
  then obtain b1 where w: "wr_bytes buf 0 ?cmd = Inr b1" "wr_buf b1 13 0 = Inr b" "mem_str b = Inr ?cmd"
    by (auto simp: rbind_eq_Inr)
  let ?w = "(SysWrite fd (bytes_of ''CMD:SUCCESS''), 11) # (?c, 13) # video_world st"
  have place: "free_place (client_fds st) = length ps" using free_place_table [OF assms(2)] assms(4) by simp
  have "(table_of ps)[length ps := fd] = table_of (ps @ [fd])"
  proof -
    obtain n where n: "VIDEO_CLIENT_MAX - length ps = Suc n" using assms(3) by (cases "VIDEO_CLIENT_MAX - length ps") auto
    then have "VIDEO_CLIENT_MAX - Suc (length ps) = n" by simp
    then show ?thesis using n by (simp add: table_of_def)
  qed
  then have "register_client e fd (st\<lparr>video_world := (?c, 13) # video_world st\<rparr>) = st\<lparr>client_fds := table_of (ps @ [fd]), video_world := ?w\<rparr>"
    using assms(1,3,4) place len by (simp add: register_client_def sys_def closed_fds_def)
  then have "client_event e buf fd st = Inr (True, st\<lparr>client_fds := table_of (ps @ [fd]), video_world := ?w\<rparr>)"
    using assms(5,7,8) w len by (simp add: client_event_def read_into_def sys_def strncmp_eq_def)
  moreover have "accepted fd ?w = accepted fd (video_world st) @ bytes_of ''CMD:SUCCESS''" using len by simp
  ultimately show ?thesis by blast
qed

lemma server_passes_on:
  assumes "closed_fds e {}" "clients_ok ps" "client_fds st = table_of ps" "video_collect_fd st \<noteq> - 1" "length buf = BUF_SIZE"
    and "answer e (video_world st) (SysRead (video_collect_fd st) BUF_SIZE) = int (length picture)"
    and "data_of e (video_world st) (SysRead (video_collect_fd st) BUF_SIZE) = picture"
    and "picture \<noteq> []" "length picture < BUF_SIZE" "0 \<notin> set picture"
  shows "\<exists>st'. video_turn e buf st = Inr st' \<and>
    (\<forall>fd. accepted fd (video_world st') = accepted fd (video_world st) @ times (count (mset ps) fd) picture)"
proof -
  let ?c = "SysRead (video_collect_fd st) BUF_SIZE"
  let ?w = "(?c, int (length picture)) # video_world st"
  obtain b where b: "rbind (wr_bytes buf 0 picture) (\<lambda>b1. rbind (wr_buf b1 (int (length picture)) 0) (\<lambda>b2. rmap (Pair b2) (mem_str b2))) = Inr (b, picture)"
    using stored_piece [of picture buf] assms(5,9,10) by auto
  then obtain b1 where w: "wr_bytes buf 0 picture = Inr b1" "wr_buf b1 (int (length picture)) 0 = Inr b" "mem_str b = Inr picture"
    by (auto simp: rbind_eq_Inr)
  obtain ps' w' where r: "send_loop e picture 0 (table_of ps) ?w = (0, table_of ps', w')"
      "\<forall>fd. accepted fd w' = accepted fd ?w @ times (count (mset ps) fd) picture"
    using send_loop_delivers [OF assms(1,2), of 0 picture ?w] by auto
  have "video_turn e buf st = Inr (st\<lparr>client_fds := table_of ps', video_world := w'\<rparr>)"
    using assms(3,4,6-8) w r(1) by (simp add: video_turn_def read_into_def sys_def video_send_data_def)
  then show ?thesis using r(2) by simp
qed


text \<open>The witness: the device delivers three bytes, which reach the client in two pieces.\<close>

definition relay_os :: os where
  "relay_os = \<lparr>answer = (\<lambda>w c. case c of SysWrite fd bs \<Rightarrow> int (length bs) | SysRead fd n \<Rightarrow> (if fd = 6 then 13 else 3) | _ \<Rightarrow> 0),
     errno_of = (\<lambda>_ _. 0), data_of = (\<lambda>w c. case c of SysRead fd n \<Rightarrow> (if fd = 6 then bytes_of ''CMD:VIDEO_GET'' else [1, 2, 3]) | _ \<Rightarrow> []),
     can_read = (\<lambda>_ _. True), can_write = (\<lambda>_ _. True), so_error = (\<lambda>_. 0), alloc_ok = (\<lambda>_. True)\<rparr>"

definition pieces_os :: "int \<Rightarrow> byte list list \<Rightarrow> os" where
  "pieces_os fd ps = \<lparr>answer = (\<lambda>w c. case c of SysWrite _ bs \<Rightarrow> int (length bs)
       | SysRead _ n \<Rightarrow> (if reads_of fd w < length ps then int (length (ps ! reads_of fd w)) else 0) | _ \<Rightarrow> 0),
     errno_of = (\<lambda>_ _. 0), data_of = (\<lambda>w c. ps ! reads_of fd w),
     can_read = (\<lambda>_ _. True), can_write = (\<lambda>_ _. True), so_error = (\<lambda>_. 0), alloc_ok = (\<lambda>_. True)\<rparr>"

lemma pieces_os_delivers: "delivers_pieces (pieces_os fd ps) fd ps"
  by (simp add: delivers_pieces_def pieces_os_def Let_def)


end
