(* ===== verification/Http_Headers.thy ===== *)
theory Http_Headers
  imports C_Library "HOL-Library.AList"
begin

text \<open>
  The table of HTTP header items in \<open>demo/demo.c\<close>: items are added or changed by key, and the text of the request
  header is put together from them.  The table has 20 places, of which the first that is NULL ends it; strings are the lists
  of their bytes without the zero.
\<close>

definition HEADER_ITEMS :: nat where "HEADER_ITEMS = 20"

type_synonym header_item = "byte list \<times> byte list"

record mbtk_http_request_s =
  header_item :: "header_item option list"
  item_count :: nat

definition http_session0 :: mbtk_http_request_s where
  "http_session0 = \<lparr>header_item = replicate HEADER_ITEMS None, item_count = 0\<rparr>"

text \<open>The loop that looks for the key: where it stops, and whether the item has the value already.\<close>

function find_item :: "header_item option list \<Rightarrow> byte list \<Rightarrow> byte list \<Rightarrow> nat \<Rightarrow> (nat \<times> bool) res" where
  "find_item items key val i =
     rbind (rd_buf items (int i)) (\<lambda>it. case it of
       None \<Rightarrow> Inr (i, False)
     | Some (k, v) \<Rightarrow> if k = key then Inr (i, v = val) else find_item items key val (i + 1))"
  by pat_completeness auto
termination
  by (relation "measure (\<lambda>(items, key, val, i). length items - i)") (auto simp: rd_buf_def split: if_splits)

declare find_item.simps [simp del]

text \<open>\<open>ok\<close> says whether the three allocations succeed; their results are used without a test.\<close>

definition mbtk_http_add_header_item :: "bool \<Rightarrow> byte list \<Rightarrow> byte list \<Rightarrow> mbtk_http_request_s \<Rightarrow> mbtk_http_request_s res" where
  "mbtk_http_add_header_item ok key val s =
     rbind (find_item (header_item s) key val 0) (\<lambda>(i, same).
     if same then Inr s
     else if \<not> ok then Inl NullDeref
     else rbind (rd_buf (header_item s) (int i)) (\<lambda>old.
          let s1 = (if old = None then s\<lparr>item_count := item_count s + 1\<rparr> else s) in
          rmap (\<lambda>items. s1\<lparr>header_item := items\<rparr>) (wr_buf (header_item s) (int i) (Some (key, val)))))"

text \<open>The length of the text in 16 bits, and the text.\<close>

function header_length :: "header_item option list \<Rightarrow> nat \<Rightarrow> u16 \<Rightarrow> u16 res" where
  "header_length items i n =
     rbind (rd_buf items (int i)) (\<lambda>it. case it of
       None \<Rightarrow> Inr n
     | Some (k, v) \<Rightarrow> header_length items (i + 1) (n + of_nat (length k + length v + 1 + 2)))"
  by pat_completeness auto
termination
  by (relation "measure (\<lambda>(items, i, n). length items - i)") (auto simp: rd_buf_def split: if_splits)

declare header_length.simps [simp del]

definition item_text :: "header_item \<Rightarrow> byte list" where
  "item_text = (\<lambda>(k, v). k @ [0x3A] @ v @ [0x0D, 0x0A])"

function header_text :: "header_item option list \<Rightarrow> nat \<Rightarrow> u16 \<Rightarrow> byte list \<Rightarrow> byte list res" where
  "header_text items i position p =
     rbind (rd_buf items (int i)) (\<lambda>it. case it of
       None \<Rightarrow> Inr p
     | Some kv \<Rightarrow> rbind (wr_bytes p (uint position) (item_text kv @ [0])) (\<lambda>p1.
                  header_text items (i + 1) (position + of_nat (length (item_text kv))) p1))"
  by pat_completeness auto
termination
  by (relation "measure (\<lambda>(items, i, position, p). length items - i)") (auto simp: rd_buf_def split: if_splits)

declare header_text.simps [simp del]

text \<open>\<open>mbtk_http_get_request_head_item_string\<close>: the block that is returned.\<close>

definition mbtk_http_get_request_head_item_string :: "bool \<Rightarrow> mbtk_http_request_s \<Rightarrow> byte list res" where
  "mbtk_http_get_request_head_item_string ok s =
     rbind (header_length (header_item s) 0 0) (\<lambda>lenght.
     if \<not> ok then (case header_item s of None # _ \<Rightarrow> Inr [] | _ \<Rightarrow> Inl NullDeref)
     else header_text (header_item s) 0 0 (replicate (unat lenght + 1) 0))"

section \<open>The table as an association list\<close>

definition table_items :: "header_item list \<Rightarrow> header_item option list" where
  "table_items kvs = map Some kvs @ replicate (HEADER_ITEMS - length kvs) None"

lemma table_items_at:
  "i < length kvs \<Longrightarrow> rd_buf (table_items kvs) (int i) = Inr (Some (kvs ! i))"
  "length kvs < HEADER_ITEMS \<Longrightarrow> rd_buf (table_items kvs) (int (length kvs)) = Inr None"
  by (simp_all add: table_items_def rd_buf_def nth_append)

fun place_of :: "header_item list \<Rightarrow> byte list \<Rightarrow> nat" where
  "place_of [] key = 0"
| "place_of ((k, v) # kvs) key = (if k = key then 0 else Suc (place_of kvs key))"

lemma place_le: "place_of kvs key \<le> length kvs"
  by (induction kvs key rule: place_of.induct) auto

lemma place_update:
  "AList.update key val kvs = (if place_of kvs key < length kvs then kvs[place_of kvs key := (key, val)] else kvs @ [(key, val)])"
  by (induction kvs key rule: place_of.induct) auto

lemma place_map_of: "map_of kvs key = (if place_of kvs key < length kvs then Some (snd (kvs ! place_of kvs key)) else None)"
  by (induction kvs key rule: place_of.induct) auto

lemma find_item_from:
  assumes "length kvs < HEADER_ITEMS" "i \<le> length kvs"
  shows "find_item (table_items kvs) key val i =
    Inr (i + place_of (drop i kvs) key, map_of (drop i kvs) key = Some val)"
  using assms(2)
proof (induction "length kvs - i" arbitrary: i)
  case 0
  then have "i = length kvs" by simp
  then show ?case using assms(1) by (subst find_item.simps) (simp add: table_items_at)
next
  case (Suc n)
  obtain k v where kv: "kvs ! i = (k, v)" by fastforce
  then have "drop i kvs = (k, v) # drop (Suc i) kvs" using Suc(2) by (simp flip: Cons_nth_drop_Suc)
  then show ?case
    using Suc(1) [of "Suc i"] Suc(2,3) kv by (subst find_item.simps) (simp add: table_items_at)
qed

text \<open>Adding an item is the update of an association list, and the count is its length.\<close>

definition headers_rep :: "mbtk_http_request_s \<Rightarrow> header_item list \<Rightarrow> bool" where
  "headers_rep s kvs \<longleftrightarrow> header_item s = table_items kvs \<and> item_count s = length kvs"

theorem add_header_refines:
  assumes "headers_rep s kvs" "length (AList.update key val kvs) < HEADER_ITEMS"
  shows "\<exists>s'. mbtk_http_add_header_item True key val s = Inr s' \<and> headers_rep s' (AList.update key val kvs)"
proof -
  let ?i = "place_of kvs key"
  have len: "length kvs < HEADER_ITEMS"
    using assms(2) by (auto simp: place_update split: if_splits)
  have f: "find_item (header_item s) key val 0 = Inr (?i, map_of kvs key = Some val)"
    using find_item_from [OF len, of 0] assms(1) by (simp add: headers_rep_def)
  show ?thesis
  proof (cases "?i < length kvs")
    case True
    have r: "rd_buf (header_item s) (int ?i) = Inr (Some (kvs ! ?i))"
      using assms(1) True by (simp add: headers_rep_def table_items_at)
    have w: "wr_buf (header_item s) (int ?i) (Some (key, val)) = Inr (table_items (kvs[?i := (key, val)]))"
      using assms(1) True by (simp add: headers_rep_def wr_buf_def table_items_def list_update_append map_update)
    show ?thesis
    proof (cases "map_of kvs key = Some val")
      case same: True
      have "AList.update key val kvs = kvs" using same by (metis update_triv)
      then show ?thesis using f same assms(1) by (simp add: mbtk_http_add_header_item_def)
    next
      case False
      then show ?thesis using f r w True assms(1)
        by (simp add: mbtk_http_add_header_item_def headers_rep_def place_update)
    qed
  next
    case False
    then have i: "?i = length kvs" using place_le [of kvs key] by simp
    have none: "map_of kvs key = None" using i by (simp add: place_map_of)
    obtain n where n: "HEADER_ITEMS - length kvs = Suc n" using len by (cases "HEADER_ITEMS - length kvs") auto
    then have n1: "HEADER_ITEMS - Suc (length kvs) = n" by simp
    have r: "rd_buf (header_item s) (int ?i) = Inr None"
      using assms(1) len by (simp add: headers_rep_def table_items_at i)
    have w: "wr_buf (header_item s) (int ?i) (Some (key, val)) = Inr (table_items (kvs @ [(key, val)]))"
      using assms(1) by (simp add: headers_rep_def wr_buf_def table_items_def i n n1 list_update_append)
    show ?thesis using f r w i none assms(1)
      by (simp add: mbtk_http_add_header_item_def headers_rep_def place_update)
  qed
qed

section \<open>The text\<close>

definition headers_text :: "header_item list \<Rightarrow> byte list" where
  "headers_text kvs = concat (map item_text kvs)"

lemma headers_text_Cons [simp]: "headers_text (kv # kvs) = item_text kv @ headers_text kvs" "headers_text [] = []"
  by (simp_all add: headers_text_def)

lemma length_item_text: "length (item_text (k, v)) = length k + length v + 3"
  by (simp add: item_text_def)

lemma header_length_from:
  assumes "length kvs < HEADER_ITEMS" "i \<le> length kvs"
  shows "header_length (table_items kvs) i n = Inr (n + of_nat (length (headers_text (drop i kvs))))"
  using assms(2)
proof (induction "length kvs - i" arbitrary: i n)
  case 0
  then have "i = length kvs" by simp
  then show ?case using assms(1) by (subst header_length.simps) (simp add: table_items_at)
next
  case (Suc d)
  obtain k v where kv: "kvs ! i = (k, v)" by fastforce
  then have "drop i kvs = (k, v) # drop (Suc i) kvs" using Suc(2) by (simp flip: Cons_nth_drop_Suc)
  then show ?case
    using Suc(1) [of "Suc i"] Suc(2,3) kv
    by (subst header_length.simps) (simp add: table_items_at length_item_text algebra_simps)
qed

lemma header_text_from:
  assumes "length kvs < HEADER_ITEMS" "i \<le> length kvs" "length before + length (headers_text (drop i kvs)) < 65536"
    and "length rest = length (headers_text (drop i kvs))"
  shows "header_text (table_items kvs) i (of_nat (length before)) (before @ 0 # rest) = Inr (before @ headers_text (drop i kvs) @ [0])"
  using assms(2-4)
proof (induction "length kvs - i" arbitrary: i before rest)
  case 0
  then have i: "i = length kvs" by simp
  then have "rest = []" using 0(4) by simp
  then show ?case using i assms(1) by (subst header_text.simps) (simp add: table_items_at)
next
  case (Suc d)
  let ?t = "item_text (kvs ! i)" and ?more = "headers_text (drop (Suc i) kvs)"
  have d: "headers_text (drop i kvs) = ?t @ ?more" using Suc(2) by (simp flip: Cons_nth_drop_Suc)
  obtain xs ys where r: "rest = xs @ ys" "length xs = length ?t" "length ys = length ?more"
    using Suc(5) d that [of "take (length ?t) rest" "drop (length ?t) rest"] by simp
  have pos: "uint (of_nat (length before) :: u16) = int (length before)"
    using Suc(4) by (simp add: uint_nat unat_of_nat)
  have "wr_bytes (before @ (0 # xs) @ ys) (int (length before)) (?t @ [0]) = Inr (before @ (?t @ [0]) @ ys)"
    using r(2) by (intro wr_bytes_append) simp_all
  then have w: "wr_bytes (before @ 0 # rest) (uint (of_nat (length before) :: u16)) (?t @ [0]) = Inr ((before @ ?t) @ 0 # ys)"
    using r(1) pos by simp
  have "header_text (table_items kvs) i (of_nat (length before)) (before @ 0 # rest) =
      header_text (table_items kvs) (Suc i) (of_nat (length (before @ ?t))) ((before @ ?t) @ 0 # ys)"
    using w Suc(2) by (subst header_text.simps) (simp add: table_items_at)
  also have "\<dots> = Inr ((before @ ?t) @ ?more @ [0])"
    by (rule Suc(1)) (use Suc(2-4) d r(3) in simp_all)
  finally show ?case using d by simp
qed

text \<open>As long as it is shorter than 65536 bytes, the text is \<open>key:value\<close> and a line end for every item, in the order of
  the items, and a zero.\<close>

theorem header_string_correct:
  assumes "headers_rep s kvs" "length kvs < HEADER_ITEMS" "length (headers_text kvs) < 65536"
  shows "mbtk_http_get_request_head_item_string True s = Inr (headers_text kvs @ [0])"
proof -
  have "unat (of_nat (length (headers_text kvs)) :: u16) = length (headers_text kvs)" using assms(3) by (simp add: unat_of_nat)
  then show ?thesis
    using assms header_length_from [OF assms(2), of 0 0]
      header_text_from [OF assms(2), of 0 "[]" "replicate (length (headers_text kvs)) 0"]
    by (simp add: mbtk_http_get_request_head_item_string_def headers_rep_def)
qed

text \<open>With twenty items the end of the table is missing: a new key, and the text, run past it.\<close>

theorem full_table_overruns:
  assumes "headers_rep s kvs" "length kvs = HEADER_ITEMS" "key \<notin> fst ` set kvs"
  shows "mbtk_http_add_header_item ok key val s = Inl OutOfBounds"
proof -
  have items: "header_item s = map Some kvs" using assms(1,2) by (simp add: headers_rep_def table_items_def)
  have "find_item (map Some kvs) key val i = Inl OutOfBounds" for i
  proof (induction "length kvs - i" arbitrary: i)
    case 0
    then show ?case by (subst find_item.simps) (simp add: rd_buf_def)
  next
    case (Suc d)
    then have i: "i < length kvs" by simp
    obtain k v where kv: "kvs ! i = (k, v)" by fastforce
    then have "k \<noteq> key" using nth_mem [OF i] assms(3) by force
    then show ?case using Suc(1) [of "Suc i"] Suc(2) i kv by (subst find_item.simps) (simp add: rd_buf_def)
  qed
  then show ?thesis by (simp add: mbtk_http_add_header_item_def items)
qed

end
