(* ===== verification/Spec2Isabelle.thy ===== *)
theory Spec2Isabelle
  imports Client_Properties Stanet_Properties Lib_Properties Http_Properties Yuv_Properties
    Log_Properties File_Properties Video_Properties
    Tcp_Poll Net_Properties Framebuffer_Properties Image_Properties
    Video_Clients Http_Headers
begin

text \<open>
  Verification of the C and C++ programs of \<^verbatim>\<open>mbtk\<close> under \<^verbatim>\<open>src/C_Cpp/cdemo\<close>.

  The repository holds a small C library (\<^verbatim>\<open>lib\<close>: strings, lists, queues, sockets, HTTP, log, checked system
  calls), a CoAP protocol stack with a client (\<^verbatim>\<open>coap\<close>), a daemon that keeps network sessions for a station and
  its client (\<^verbatim>\<open>stanet\<close>), the echo servers and clients of a network programming course (\<^verbatim>\<open>unpv13e\<close>), and programs
  that convert pictures, draw on a frame buffer and pass video data on (\<^verbatim>\<open>demo\<close>).  Paths below are relative to
  \<^verbatim>\<open>src/C_Cpp/cdemo\<close>.

  \<^bold>\<open>How the code is modelled.\<close>  A function of the source is a function of the same name that takes the state it
  works on and returns it updated.  A struct or class is a record, an enumeration a datatype or its C value, an
  integer has its C width (\<open>byte\<close>, \<open>u16\<close>, \<open>u32\<close>, or an integer with the wrap-around written out).  A result
  \<open>'a res\<close> of \<^verbatim>\<open>Mbtk_Prelude\<close> is either a value or a \<open>fault\<close>, the way in which the program leaves its defined
  behaviour: an access outside an object, a NULL or dangling pointer, a freed object, a loop that never ends.  Every read and write of a buffer goes through \<open>rd_buf\<close>, \<open>wr_buf\<close>, \<open>rd_bytes\<close> or \<open>wr_bytes\<close>, which fault
  outside of it, so that a theorem that says that a function returns also says that it stays inside its arrays.
  \<^verbatim>\<open>C_Library\<close> models what the sources use of the C library: strings in memory with their terminating zero,
  the character classes, \<open>strstr\<close>, \<open>strcpy\<close>, decimal numbers.  \<^verbatim>\<open>C_System\<close> models the operating system as an
  oracle \<open>os\<close>: it answers a system call with a result, an error number and the bytes it delivers, from the calls
  made so far.  The calls and their answers are recorded in a \<open>world\<close>, from which \<open>open_fds\<close> and
  \<open>accepted\<close> compute what is open and what a descriptor accepted; a theorem holds for every answer that its
  hypotheses, all of them documented behaviour of the call, allow.

  \<^bold>\<open>CoAP.\<close>  \<^verbatim>\<open>Coap_Types\<close> has the enumerations of \<^verbatim>\<open>coap/mbtk_coap_api.h\<close>.  \<^verbatim>\<open>Coap_Pdu\<close> models the class CoapPDU of
  \<^verbatim>\<open>coap/mbtk_coap.cpp\<close>, its buffer byte by byte, with the outcome of \<open>realloc\<close> as the parameter \<open>heap_env\<close>;
  \<^verbatim>\<open>Coap_Parse\<close> has \<open>validate\<close> and \<open>getOptions\<close>, \<^verbatim>\<open>Coap_Uri\<close> the methods for URIs.  \<^verbatim>\<open>Coap_Wire\<close> is the abstract
  specification: a message is a header, a token, a list of options in the order of their numbers and a payload,
  and \<open>enc_opts\<close> is the delta encoding.  \<^verbatim>\<open>Coap_Pdu_Proofs\<close> and \<^verbatim>\<open>Coap_Pdu_Edit\<close> show that the operations on the
  buffer refine the operations on messages (relation \<open>pdu_rep\<close>).  \<^verbatim>\<open>Coap_Api\<close> is the C interface of
  \<^verbatim>\<open>coap/mbtk_coap_api.cpp\<close> with its two global PDUs, \<^verbatim>\<open>Coap_Generic\<close> the sockets, the receive thread and the hexadecimal
  strings of \<^verbatim>\<open>coap/mbtk_coap_generic.c\<close>, \<^verbatim>\<open>Coap_Client\<close> the package list and the commands of
  \<^verbatim>\<open>coap/mbtk_coap_base.c\<close>.  \<^verbatim>\<open>Coap_Store\<close> states the interface of the package list as the locale \<open>pkg_store\<close> and
  interprets it on the linked list; \<^verbatim>\<open>Coap_Send\<close> and \<^verbatim>\<open>Coap_Recv\<close> follow a package to the wire and a datagram to
  the list.  \<^verbatim>\<open>Pdu_Properties\<close> and \<^verbatim>\<open>Client_Properties\<close> hold the properties: refinement, the round trip of
  messages and URIs, what \<open>validate\<close> reads and what it guarantees, distinct message ids, acknowledgements.

  \<^bold>\<open>Station daemon.\<close>  \<^verbatim>\<open>Stanet\<close> models \<^verbatim>\<open>stanet/stanet_daemon.c\<close> and \<^verbatim>\<open>stanet/stanet_qmi.c\<close>: five sessions at most in a
  doubly linked list, a queue of messages for each, a thread for each, the interface functions that put messages
  and the callback.  \<^verbatim>\<open>Stanet_List\<close> and \<^verbatim>\<open>Stanet_Queue\<close> relate list and queues to Isabelle lists,
  \<^verbatim>\<open>Stanet_Proofs\<close> and \<^verbatim>\<open>Stanet_Inv\<close> show the invariant for every step, \<^verbatim>\<open>Stanet_Steps\<close> has the step relation
  \<open>sta_step\<close> (threads and calls in any order; a step is one message) and \<open>sta_reach\<close>, \<^verbatim>\<open>Stanet_Effects\<close> what one
  request does from call to socket, \<^verbatim>\<open>Stanet_Properties\<close> the properties.

  \<^bold>\<open>Library.\<close>  \<^verbatim>\<open>M_String\<close> models \<^verbatim>\<open>lib/m_string.c\<close>; \<^verbatim>\<open>M_Queue\<close> models \<^verbatim>\<open>lib/m_list.c\<close> and \<^verbatim>\<open>lib/m_queue.c\<close> on cells at
  addresses, with the locale \<open>fifo\<close> and its interpretation; \<^verbatim>\<open>Lib_Properties\<close> has their properties.
  \<^verbatim>\<open>M_Addr\<close> and \<^verbatim>\<open>M_Addr_Text\<close> (address parsers), \<^verbatim>\<open>M_Stream\<close> (lines and whole writes) and \<^verbatim>\<open>M_Sock\<close> (opening)
  model \<^verbatim>\<open>lib/m_sock.c\<close> and \<^verbatim>\<open>lib/mbtk_sock.c\<close>; \<^verbatim>\<open>M_Sock_Proofs\<close> treats the table of sockets as a set of descriptors
  (locale \<open>descriptor_table\<close>), \<^verbatim>\<open>Sock_Properties\<close> has the properties.  \<^verbatim>\<open>M_Http\<close> is \<^verbatim>\<open>lib/m_http.c\<close> on top of strings,
  sockets and streams; \<^verbatim>\<open>Http_Properties\<close> follows a request from the URL to the printed answer.  \<^verbatim>\<open>M_Log\<close> is
  \<^verbatim>\<open>lib/m_log.c\<close>, \<^verbatim>\<open>M_Files\<close> is \<^verbatim>\<open>lib/m_file.c\<close> and \<^verbatim>\<open>lib/m_util.c\<close>, \<^verbatim>\<open>M_Error\<close> is \<^verbatim>\<open>lib/m_error.c\<close>, \<^verbatim>\<open>M_Wrap\<close> is
  \<^verbatim>\<open>lib/m_wrap.c\<close>: a wrapper makes its call and either passes the result on or ends the program with a message.

  \<^bold>\<open>Network programs.\<close>  \<^verbatim>\<open>Tcp_Server\<close> has the forking, the dropping and the \<open>select\<close> server of \<^verbatim>\<open>unpv13e/tcp_ser.c\<close>
  and the handler of SIGCHLD, \<^verbatim>\<open>Tcp_Poll\<close> those with \<open>poll\<close> and \<open>epoll\<close>, \<^verbatim>\<open>Net_Programs\<close> the clients and the datagram
  and time-of-day programs.  \<^verbatim>\<open>Tcp_Properties\<close>, \<^verbatim>\<open>Tcp_Poll\<close> and \<^verbatim>\<open>Net_Properties\<close> show that their tables agree with
  the open descriptors in every reachable state, what is echoed to whom, and where a buffer is overrun.
  \<^verbatim>\<open>Video\<close> models \<^verbatim>\<open>demo/wifi_video_server.c\<close>, a server that passes what one device delivers to its clients;
  \<^verbatim>\<open>Video_Properties\<close> has the refinement to a multiset of clients and the invariant.  \<^verbatim>\<open>Video_Clients\<close> models the client
  and the device (\<^verbatim>\<open>demo/wifi_video_client.c\<close>, \<^verbatim>\<open>demo/wifi_video_collect_client.c\<close>) and follows a picture from the device
  through the server to what the client prints.  \<^verbatim>\<open>Http_Headers\<close> is the table of header items in \<^verbatim>\<open>demo/demo.c\<close>: it
  refines an association list, and its text is that of the list.

  \<^bold>\<open>Pictures.\<close>  \<^verbatim>\<open>Yuv\<close> models \<^verbatim>\<open>demo/yuv_demo.c\<close>; \<^verbatim>\<open>Yuv_Proofs\<close> treats the four layouts of a YUV picture as
  interpretations of the locale \<open>chroma_layout\<close>, \<^verbatim>\<open>Yuv_Properties\<close> follows the program from the file it reads to the
  four it writes.  \<^verbatim>\<open>Framebuffer\<close> models \<^verbatim>\<open>demo/framebuff_demo.c\<close>, \<^verbatim>\<open>Framebuffer_Properties\<close> shows which pixels a
  shape colours and that it stays inside the mapped memory.  \<^verbatim>\<open>Image\<close> models \<^verbatim>\<open>jpg/jpg_demo.c\<close>, which reads a BMP
  file, changes its pixels and writes it; \<^verbatim>\<open>Image_Properties\<close> says what happens to pixels that fit in their block and
  what becomes of a file whose header is read into a struct with padding.

  \<^bold>\<open>Bounds.\<close>  Recursion is structural or has a termination proof, with these exceptions.  Loops over linked cells
  take as fuel the number of cells ever allocated: a chain without repetitions is not longer, and the list
  predicates show that the chains are such.  Loops over sessions take the number of sessions ever created.  A loop
  whose end depends on the system, such as a write that is tried again, is a recursion on the remaining bytes where
  each turn makes progress, and otherwise the fault \<open>Diverges\<close> or the value None where it cannot end;
  liveness statements therefore say that the program returns, and do not assume it.

  \<^bold>\<open>Parameters.\<close>  The answers of the operating system, the outcome of every allocation, the contents of
  uninitialised arrays, what \<open>vsprintf\<close>, \<open>strftime\<close>, \<open>strerror\<close> and the clock produce, the text of \<open>inet_ntop\<close> for
  IPv6, what \<open>poll\<close>, \<open>epoll_wait\<close> and \<open>select\<close> report, the output of the command behind \<open>popen\<close>, and the floating
  point expressions of a sloped line and of a gray pixel, and which files exist and may be written.

  \<^bold>\<open>Not modelled.\<close>  Printing and logging to the terminal (\<open>printHuman\<close>, \<open>printHex\<close>, \<open>coap_log\<close>, the progress
  messages of the programs); the headers of curl in \<^verbatim>\<open>include/curl\<close>, which are third-party code that no modelled
  source calls; the bodies that are compiled out (\<open>list_del\<close>, the wrappers under HAVE_KQUEUE and similar);
  interleavings finer than a message or an event; overlapping source and destination in the string helpers.  The
  programs that are left out altogether are those of \<^verbatim>\<open>apue\<close> and the remaining ones of \<^verbatim>\<open>demo\<close>: examples that print what a system call returns (processes, threads, locks, signals), or that
  read structures laid out by kernel headers that the repository does not have (\<^verbatim>\<open>demo/net_monitor.c\<close>); \<^verbatim>\<open>x/x_pic.c\<close>,
  which calls a function that no file defines; and \<^verbatim>\<open>lib/m_signal.c\<close>, which passes two flags to a system call.  The C
  files below \<^verbatim>\<open>src/Python\<close> are tables and empty handlers written by a generator.
\<close>

end
